(* ===== verification/Prelude.thy ===== *)
theory Prelude
  imports Main "HOL-Library.Word"
begin

unbundle bit_operations_syntax

text \<open>
  Shared vocabulary of the development: the machine integer types, results of fallible
  code (with panics kept apart from ordinary errors), checked access to byte slices, and
  big-endian byte encodings with their two round-trip laws.
\<close>

named_theorems codec_simps
  \<comment> \<open>equations that evaluate encoders and decoders on symbolic byte lists\<close>

named_theorems panic_intros
  \<comment> \<open>introduction rules for the absence of panics\<close>

type_synonym byte = "8 word"
type_synonym u16 = "16 word"
type_synonym u32 = "32 word"
type_synonym u64 = "64 word"
type_synonym bytes = "byte list"

subsection \<open>Machine integers as numbers\<close>

lemma unat_bound: "unat (w :: 'a::len word) < 2 ^ LENGTH('a)"
  by simp

lemma unat_byte: "unat (b :: byte) < 256" and unat_u16: "unat (w :: u16) < 65536"
  and unat_u32: "unat (d :: u32) < 4294967296"
  using unat_bound [of b] unat_bound [of w] unat_bound [of d] by simp_all

lemma unat_not: "unat (NOT w :: 'a::len word) = 2 ^ LENGTH('a) - 1 - unat w"
proof -
  have "NOT w = - 1 - w"
    by (simp add: not_eq_complement)
  moreover have "unat (- 1 :: 'a word) = 2 ^ LENGTH('a) - 1"
    by (simp add: unsigned_minus_1_eq_mask mask_eq_exp_minus_1)
  ultimately show ?thesis
    by (simp add: unat_sub)
qed

lemma unat_of_nat_byte: "n < 256 \<Longrightarrow> unat (of_nat n :: byte) = n"
  and unat_of_nat_u16: "n < 65536 \<Longrightarrow> unat (of_nat n :: u16) = n"
  by (simp_all add: unat_of_nat)

subsection \<open>Results of fallible code\<close>

text \<open>
  A Rust \<open>Result<A, E>\<close> is \<open>('e, 'a) res\<close>: \<open>Inr\<close> is \<open>Ok\<close>, \<open>Inl (Fail e)\<close> is
  \<open>Err(e)\<close>. An out-of-range index or slice aborts the thread instead of returning; it is
  the separate value \<open>Inl Panic\<close>, so that its absence can be stated and proved.
\<close>

datatype 'e fault = Panic | Fail 'e

type_synonym ('e, 'a) res = "'e fault + 'a"

fun rbind :: "('e, 'a) res \<Rightarrow> ('a \<Rightarrow> ('e, 'b) res) \<Rightarrow> ('e, 'b) res" where
  "rbind (Inl e) f = Inl e"
| "rbind (Inr x) f = f x"

fun rmap :: "('a \<Rightarrow> ('e, 'b) res) \<Rightarrow> 'a list \<Rightarrow> ('e, 'b list) res" where
  "rmap f [] = Inr []"
| "rmap f (x # xs) = rbind (f x) (\<lambda>y. rbind (rmap f xs) (\<lambda>ys. Inr (y # ys)))"

fun ok_or :: "'e \<Rightarrow> 'a option \<Rightarrow> ('e, 'a) res" where
  "ok_or e None = Inl (Fail e)"
| "ok_or e (Some x) = Inr x"

fun rok :: "('e, 'a) res \<Rightarrow> 'a option" where
  "rok (Inl e) = None"
| "rok (Inr x) = Some x"

fun opt_or :: "'a option \<Rightarrow> 'a option \<Rightarrow> 'a option" where
  "opt_or None y = y"
| "opt_or (Some x) y = Some x"

fun unwrap_or :: "'a \<Rightarrow> 'a option \<Rightarrow> 'a" where
  "unwrap_or d None = d"
| "unwrap_or d (Some x) = x"

definition no_panic :: "('e, 'a) res \<Rightarrow> bool" where
  "no_panic r \<longleftrightarrow> r \<noteq> Inl Panic"

lemma rbind_eq_Inr: "rbind m f = Inr y \<longleftrightarrow> (\<exists>x. m = Inr x \<and> f x = Inr y)"
  by (cases m) auto

lemma rbind_eq_Inl: "rbind m f = Inl e \<longleftrightarrow> m = Inl e \<or> (\<exists>x. m = Inr x \<and> f x = Inl e)"
  by (cases m) auto

lemma rbind_InrE [elim!]:
  assumes "rbind m f = Inr y" obtains x where "m = Inr x" and "f x = Inr y"
  using assms by (auto simp: rbind_eq_Inr)

lemma ok_or_eq_Inr [simp]: "ok_or e m = Inr x \<longleftrightarrow> m = Some x"
  by (cases m) auto

text \<open>\<open>iter().position(..)\<close>.\<close>

fun position :: "('a \<Rightarrow> bool) \<Rightarrow> 'a list \<Rightarrow> nat option" where
  "position P [] = None"
| "position P (x # xs) = (if P x then Some 0 else map_option Suc (position P xs))"

lemma rbind_assoc: "rbind (rbind m f) g = rbind m (\<lambda>x. rbind (f x) g)"
  by (cases m) simp_all

lemma rmap_length: "rmap f xs = Inr ys \<Longrightarrow> length ys = length xs"
  by (induction xs arbitrary: ys) auto

lemma rmap_nth: "rmap f xs = Inr ys \<Longrightarrow> i < length xs \<Longrightarrow> f (xs ! i) = Inr (ys ! i)"
  by (induction xs arbitrary: ys i) (auto simp: nth_Cons split: nat.splits)

lemma rmap_all: "(\<And>x. x \<in> set xs \<Longrightarrow> f x = Inr (g x)) \<Longrightarrow> rmap f xs = Inr (map g xs)"
  by (induction xs) auto

lemma rmap_append:
  "rmap f (xs @ ys) = rbind (rmap f xs) (\<lambda>a. rbind (rmap f ys) (\<lambda>b. Inr (a @ b)))"
proof (induction xs)
  case Nil
  show ?case by (cases "rmap f ys") auto
next
  case (Cons x xs)
  then show ?case
    by (cases "f x"; cases "rmap f xs"; cases "rmap f ys") auto
qed

lemma no_panic_Inr [simp, panic_intros]: "no_panic (Inr x)"
  by (simp add: no_panic_def)

lemma no_panic_Fail [simp, panic_intros]: "no_panic (Inl (Fail e))"
  by (simp add: no_panic_def)

lemma no_panic_Panic [simp]: "\<not> no_panic (Inl Panic)"
  by (simp add: no_panic_def)

lemma no_panic_bind [panic_intros]:
  "no_panic m \<Longrightarrow> (\<And>x. m = Inr x \<Longrightarrow> no_panic (f x)) \<Longrightarrow> no_panic (rbind m f)"
  by (cases m) (auto simp: no_panic_def)

lemma no_panic_if [panic_intros]:
  "(c \<Longrightarrow> no_panic a) \<Longrightarrow> (\<not> c \<Longrightarrow> no_panic b) \<Longrightarrow> no_panic (if c then a else b)"
  by simp

lemma no_panic_ok_or [simp, panic_intros]: "no_panic (ok_or e m)"
  by (cases m) auto

lemma no_panic_rmap [panic_intros]: "(\<And>x. x \<in> set xs \<Longrightarrow> no_panic (f x)) \<Longrightarrow> no_panic (rmap f xs)"
  by (induction xs) (auto intro!: no_panic_bind)

lemma no_panic_case_option [panic_intros]:
  "(x = None \<Longrightarrow> no_panic a) \<Longrightarrow> (\<And>y. x = Some y \<Longrightarrow> no_panic (f y)) \<Longrightarrow>
   no_panic (case x of None \<Rightarrow> a | Some y \<Rightarrow> f y)"
  by (cases x) auto

text \<open>A property of the value of a computation, when it returns one.\<close>

definition ensures :: "('a \<Rightarrow> bool) \<Rightarrow> ('e, 'a) res \<Rightarrow> bool" where
  "ensures P r \<longleftrightarrow> (\<forall>x. r = Inr x \<longrightarrow> P x)"

named_theorems ensures_intros
  \<comment> \<open>introduction rules that follow the structure of a computation\<close>

lemma ensures_Inr [ensures_intros]: "P x \<Longrightarrow> ensures P (Inr x)"
  and ensures_Inl [ensures_intros]: "ensures P (Inl e)"
  and ensures_bind [ensures_intros]:
    "(\<And>x. m = Inr x \<Longrightarrow> ensures P (f x)) \<Longrightarrow> ensures P (rbind m f)"
  and ensures_if [ensures_intros]:
    "(c \<Longrightarrow> ensures P a) \<Longrightarrow> (\<not> c \<Longrightarrow> ensures P b) \<Longrightarrow> ensures P (if c then a else b)"
  and ensures_case_option [ensures_intros]:
    "(y = None \<Longrightarrow> ensures P a) \<Longrightarrow> (\<And>z. y = Some z \<Longrightarrow> ensures P (g z)) \<Longrightarrow>
     ensures P (case y of None \<Rightarrow> a | Some z \<Rightarrow> g z)"
  by (auto simp: ensures_def rbind_eq_Inr split: option.split)

lemma ensuresD: "ensures P r \<Longrightarrow> r = Inr x \<Longrightarrow> P x"
  by (simp add: ensures_def)

subsection \<open>Checked access to byte slices\<close>

definition byte_at :: "bytes \<Rightarrow> nat \<Rightarrow> ('e, byte) res" where
  "byte_at bs i = (if i < length bs then Inr (bs ! i) else Inl Panic)"

definition slice :: "'a list \<Rightarrow> nat \<Rightarrow> nat \<Rightarrow> ('e, 'a list) res" where
  "slice bs i j = (if i \<le> j \<and> j \<le> length bs then Inr (take (j - i) (drop i bs)) else Inl Panic)"

text \<open>\<open>Vec::resize(n, 0)\<close>: truncate, or extend with zero bytes.\<close>

definition vec_resize :: "nat \<Rightarrow> bytes \<Rightarrow> bytes" where
  "vec_resize n bs = take n bs @ replicate (n - length bs) 0"

text \<open>\<open>(n + 3) & !3\<close> on \<open>usize\<close>: the next multiple of four.\<close>

definition pad4 :: "nat \<Rightarrow> nat" where
  "pad4 n = 4 * ((n + 3) div 4)"

definition u16_try_from :: "nat \<Rightarrow> u16 option" where
  "u16_try_from n = (if n < 2 ^ 16 then Some (of_nat n) else None)"

definition u8_try_from :: "nat \<Rightarrow> byte option" where
  "u8_try_from n = (if n < 2 ^ 8 then Some (of_nat n) else None)"

definition u32_try_from :: "nat \<Rightarrow> u32 option" where
  "u32_try_from n = (if n < 2 ^ 32 then Some (of_nat n) else None)"

lemma byte_at_in [simp]: "i < length bs \<Longrightarrow> byte_at bs i = Inr (bs ! i)"
  by (simp add: byte_at_def)

lemma slice_in [simp]: "i \<le> j \<Longrightarrow> j \<le> length bs \<Longrightarrow> slice bs i j = Inr (take (j - i) (drop i bs))"
  by (simp add: slice_def)

lemma slice_eq_Inr: "slice bs i j = Inr s \<longleftrightarrow> i \<le> j \<and> j \<le> length bs \<and> s = take (j - i) (drop i bs)"
  by (auto simp: slice_def)

lemma byte_at_eq_Inr: "byte_at bs i = Inr b \<longleftrightarrow> i < length bs \<and> b = bs ! i"
  by (auto simp: byte_at_def)

lemma no_panic_slice [panic_intros]: "i \<le> j \<Longrightarrow> j \<le> length bs \<Longrightarrow> no_panic (slice bs i j)"
  by simp

lemma no_panic_byte_at [panic_intros]: "i < length bs \<Longrightarrow> no_panic (byte_at bs i)"
  by simp

lemma length_vec_resize [simp]: "length (vec_resize n bs) = n"
  by (simp add: vec_resize_def)

lemma vec_resize_ge: "length bs \<le> n \<Longrightarrow> vec_resize n bs = bs @ replicate (n - length bs) 0"
  by (simp add: vec_resize_def)

lemma pad4_ge: "n \<le> pad4 n" and pad4_lt: "pad4 n < n + 4" and pad4_dvd: "4 dvd pad4 n"
  by (auto simp: pad4_def)

lemma pad4_le: "n \<le> 4 * k \<Longrightarrow> pad4 n \<le> 4 * k"
  by (simp add: pad4_def)

lemma pad4_id: "4 dvd n \<Longrightarrow> pad4 n = n"
  by (auto simp: pad4_def elim!: dvdE)

subsection \<open>Big-endian byte encodings\<close>

text \<open>
  \<open>be_bytes n w\<close> is \<open>w.to_be_bytes()\<close> for an \<open>n\<close>-byte integer type (an IP address is its
  32-bit or 128-bit number, a MAC address its 48-bit number, and \<open>octets()\<close> the same
  encoding); \<open>be_word\<close> is \<open>from_be_bytes\<close>.
\<close>

primrec be_bytes :: "nat \<Rightarrow> 'a::len word \<Rightarrow> bytes" where
  "be_bytes 0 w = []"
| "be_bytes (Suc n) w = ucast (drop_bit (8 * n) w) # be_bytes n w"

definition be_word :: "bytes \<Rightarrow> 'a::len word" where
  "be_word bs = foldl (\<lambda>v b. push_bit 8 v OR ucast b) 0 bs"

definition be_at :: "nat \<Rightarrow> bytes \<Rightarrow> nat \<Rightarrow> ('e, 'a::len word) res" where
  "be_at n bs i = rbind (slice bs i (i + n)) (\<lambda>s. Inr (be_word s))"

lemma length_be_bytes [simp]: "length (be_bytes n w) = n"
  by (induction n) auto

lemma be_bytes_numeral:
  "be_bytes (numeral k) w = ucast (drop_bit (8 * pred_numeral k) w) # be_bytes (pred_numeral k) w"
  by (simp add: numeral_eq_Suc)

lemma be_bytes_eq_Nil [simp]: "be_bytes n w = [] \<longleftrightarrow> n = 0"
  by (cases n) auto

lemma be_bytes_nth: "i < n \<Longrightarrow> be_bytes n w ! i = ucast (drop_bit (8 * (n - 1 - i)) w)"
proof (induction n arbitrary: i)
  case 0
  then show ?case by simp
next
  case (Suc n)
  then show ?case by (cases i) auto
qed

lemma be_word_Nil [simp]: "be_word [] = 0"
  by (simp add: be_word_def)

lemma be_word_snoc: "be_word (bs @ [b]) = push_bit 8 (be_word bs) OR ucast b"
  by (simp add: be_word_def)

lemma bit_be_word:
  "bit (be_word bs :: 'a::len word) i \<longleftrightarrow>
     i < LENGTH('a) \<and> i div 8 < length bs \<and> bit (bs ! (length bs - 1 - i div 8)) (i mod 8)"
proof (induction bs arbitrary: i rule: rev_induct)
  case Nil
  then show ?case by simp
next
  case (snoc b bs)
  show ?case
  proof (cases "i < 8")
    case True
    then show ?thesis
      by (auto simp: be_word_snoc bit_simps nth_append)
  next
    case False
    then have d: "i div 8 = Suc ((i - 8) div 8)" and m: "(i - 8) mod 8 = i mod 8"
      by (auto simp: le_div_geq le_mod_geq)
    have nb: "\<not> bit b i"
      using False bit_imp_le_length [of b i] by auto
    have idx: "length bs - 1 - (i - 8) div 8 = length bs - Suc ((i - 8) div 8)"
      by simp
    show ?thesis
    proof (cases "(i - 8) div 8 < length bs")
      case True
      then show ?thesis
        using False snoc.IH [of "i - 8"] nb
        by (auto simp: be_word_snoc bit_simps nth_append d m idx)
    next
      case outside: False
      then show ?thesis
        using False snoc.IH [of "i - 8"] nb
        by (auto simp: be_word_snoc bit_simps d)
    qed
  qed
qed

lemma be_word_be_bytes:
  assumes "LENGTH('a) \<le> 8 * n"
  shows "be_word (be_bytes n w) = (w :: 'a::len word)"
proof (rule bit_word_eqI)
  fix i assume i: "i < LENGTH('a)"
  then have lt: "i div 8 < n"
    using assms by (simp add: less_mult_imp_div_less mult.commute)
  then have "be_bytes n w ! (n - 1 - i div 8) = ucast (drop_bit (8 * (i div 8)) w)"
    by (simp add: be_bytes_nth)
  then show "bit (be_word (be_bytes n w) :: 'a word) i = bit w i"
    using i lt by (simp add: bit_be_word bit_simps)
qed

lemma be_bytes_be_word:
  assumes "8 * length bs \<le> LENGTH('a)"
  shows "be_bytes (length bs) (be_word bs :: 'a::len word) = bs"
proof (rule nth_equalityI)
  show "length (be_bytes (length bs) (be_word bs :: 'a word)) = length bs" by simp
next
  fix i assume "i < length (be_bytes (length bs) (be_word bs :: 'a word))"
  then have i: "i < length bs" by simp
  show "be_bytes (length bs) (be_word bs :: 'a word) ! i = bs ! i"
  proof (rule bit_word_eqI)
    fix j :: nat assume j: "j < LENGTH(8)"
    let ?k = "8 * (length bs - 1 - i) + j"
    have "?k < 8 * length bs" and "?k div 8 = length bs - 1 - i" and "?k mod 8 = j"
      using i j by auto
    then show "bit (be_bytes (length bs) (be_word bs :: 'a word) ! i) j = bit (bs ! i) j"
      using i j assms by (simp add: be_bytes_nth bit_simps bit_be_word add.commute)
  qed
qed

lemma be_at_in: "i + n \<le> length bs \<Longrightarrow> be_at n bs i = Inr (be_word (take n (drop i bs)))"
  by (simp add: be_at_def)

lemma no_panic_be_at [panic_intros]: "i + n \<le> length bs \<Longrightarrow> no_panic (be_at n bs i)"
  by (simp add: be_at_in)

subsection \<open>Reading a byte string field by field\<close>

text \<open>
  A header is written as a right-nested append of its fields; these equations skip the
  fields before an offset and read the one that starts there.
\<close>

lemma byte_at_Cons [codec_simps]:
  "byte_at (x # xs) i = (if i = 0 then Inr x else byte_at xs (i - 1))"
  by (cases i) (auto simp: byte_at_def)

lemma byte_at_skip [codec_simps]: "length xs \<le> i \<Longrightarrow> byte_at (xs @ ys) i = byte_at ys (i - length xs)"
  by (auto simp: byte_at_def nth_append)

lemma slice_skip [codec_simps]:
  "length xs \<le> i \<Longrightarrow> slice (xs @ ys) i j = (if i \<le> j then slice ys (i - length xs) (j - length xs) else Inl Panic)"
  by (auto simp: slice_def)

lemma slice_Cons [codec_simps]:
  "0 < i \<Longrightarrow> slice (x # xs) i j = (if i \<le> j then slice xs (i - 1) (j - 1) else Inl Panic)"
  by (cases i; cases j) (auto simp: slice_def)

lemma slice_all [codec_simps]: "slice xs 0 (length xs) = Inr xs"
  by simp

lemma slice_prefix [codec_simps]: "slice (xs @ ys) 0 (length xs) = Inr xs"
  by simp

lemma be_at_skip [codec_simps]: "length xs \<le> i \<Longrightarrow> be_at n (xs @ ys) i = be_at n ys (i - length xs)"
  by (auto simp: be_at_def slice_skip)

lemma be_at_Cons [codec_simps]: "0 < i \<Longrightarrow> be_at n (x # xs) i = be_at n xs (i - 1)"
  by (cases i) (auto simp: be_at_def slice_def)

lemma be_at_here [codec_simps]:
  "LENGTH('a) \<le> 8 * n \<Longrightarrow> be_at n (be_bytes n w @ ys) 0 = Inr (w :: 'a::len word)"
  by (simp add: be_at_def be_word_be_bytes)

lemma be_at_last [codec_simps]:
  "LENGTH('a) \<le> 8 * n \<Longrightarrow> be_at n (be_bytes n w) 0 = Inr (w :: 'a::len word)"
  by (simp add: be_at_def be_word_be_bytes)

subsection \<open>Bit fields\<close>

lemma small_word_bit:
  assumes "unat (x :: 'a::len word) < 2 ^ n" and "bit x i" shows "i < n"
proof -
  have "take_bit n (unat x) = unat x"
    using assms(1) by (simp add: take_bit_nat_eq_self)
  moreover have "bit (unat x) i"
    using assms(2) by (simp add: bit_unsigned_iff bit_imp_le_length)
  ultimately show ?thesis
    by (metis bit_take_bit_iff)
qed

lemma small_word_bits: "x \<le> y \<Longrightarrow> unat y < 2 ^ n \<Longrightarrow> bit x i \<Longrightarrow> i < n" for x :: "'a::len word"
  by (rule small_word_bit) (auto simp: word_le_nat_alt)

end
