(* ===== verification/Packet_Types.thy ===== *)
theory Packet_Types
  imports Prelude
begin

text \<open>
  The packet data model of \<open>src/src/packet.rs\<close>: Ethernet, IPv4, IPv6, TCP and UDP headers,
  the packet that is encoded and the decoded packet. Field names carry a prefix for their
  structure, since record fields share one name space. Addresses are numbers of the
  address width; \<open>octets()\<close> is \<open>be_bytes\<close>.
\<close>

type_synonym mac_addr = "48 word"
type_synonym ipv4_addr = "32 word"
type_synonym ipv6_addr = "128 word"

definition ETHERTYPE_IPV4 :: u16 where "ETHERTYPE_IPV4 = 0x0800"
definition ETHERTYPE_IPV6 :: u16 where "ETHERTYPE_IPV6 = 0x86dd"
definition ETHERTYPE_VLAN :: u16 where "ETHERTYPE_VLAN = 0x8100"
definition IP_PROTOCOL_TCP :: byte where "IP_PROTOCOL_TCP = 6"
definition IP_PROTOCOL_UDP :: byte where "IP_PROTOCOL_UDP = 17"
definition IP_PROTOCOL_FRAGMENT :: byte where "IP_PROTOCOL_FRAGMENT = 44"

lemmas packet_consts = ETHERTYPE_IPV4_def ETHERTYPE_IPV6_def ETHERTYPE_VLAN_def
  IP_PROTOCOL_TCP_def IP_PROTOCOL_UDP_def IP_PROTOCOL_FRAGMENT_def

datatype checksum = CsAuto | CsValue u16 | CsInvalid

fun resolve :: "checksum \<Rightarrow> u16 \<Rightarrow> u16" where
  "resolve CsAuto calculated = calculated"
| "resolve (CsValue v) calculated = v"
| "resolve CsInvalid calculated = calculated XOR 0xffff"

fun checksum_number :: "checksum \<Rightarrow> u16" where
  "checksum_number (CsValue v) = v"
| "checksum_number CsAuto = 0"
| "checksum_number CsInvalid = 0"

record vlan_tag =
  vlan_priority :: byte
  vlan_drop_eligible :: bool
  vlan_id :: u16

record ethernet_header =
  eth_destination :: mac_addr
  eth_source :: mac_addr
  eth_vlan :: "vlan_tag option"
  eth_ether_type :: "u16 option"

record ipv4_header =
  v4_dscp :: byte
  v4_ecn :: byte
  v4_identification :: u16
  v4_dont_fragment :: bool
  v4_more_fragments :: bool
  v4_fragment_offset :: u16 \<comment> \<open>in eight-byte units\<close>
  v4_ttl :: byte
  v4_protocol :: "byte option"
  v4_source :: ipv4_addr
  v4_destination :: ipv4_addr
  v4_options :: bytes
  v4_ihl :: "byte option"
  v4_total_length :: "u16 option"
  v4_checksum :: checksum

record ipv6_fragment =
  frag_next_header :: byte
  frag_offset :: u16 \<comment> \<open>in eight-byte units\<close>
  frag_more_fragments :: bool
  frag_identification :: u32

record ipv6_header =
  v6_traffic_class :: byte
  v6_flow_label :: u32
  v6_payload_length :: "u16 option"
  v6_next_header :: "byte option"
  v6_hop_limit :: byte
  v6_source :: ipv6_addr
  v6_destination :: ipv6_addr
  v6_fragment :: "ipv6_fragment option"

datatype network_header = NetIpv4 ipv4_header | NetIpv6 ipv6_header

datatype tcp_option =
    OptEnd
  | OptNop
  | OptMaximumSegmentSize u16
  | OptWindowScale byte
  | OptSackPermitted
  | OptSack "(u32 \<times> u32) list"
  | OptTimestamp u32 u32 \<comment> \<open>value, echo\<close>
  | OptUnknown byte bytes \<comment> \<open>kind, data\<close>

record tcp_header =
  tcp_source_port :: u16
  tcp_destination_port :: u16
  tcp_sequence :: u32
  tcp_acknowledgment :: u32
  tcp_flags :: u16
  tcp_window :: u16
  tcp_urgent_pointer :: u16
  tcp_options :: "tcp_option list"
  tcp_data_offset :: "byte option"
  tcp_checksum :: checksum

record udp_header =
  udp_source_port :: u16
  udp_destination_port :: u16
  udp_length :: "u16 option"
  udp_checksum :: checksum

datatype transport_header = TransTcp tcp_header | TransUdp udp_header

record packet =
  pkt_ethernet :: "ethernet_header option"
  pkt_network :: network_header
  pkt_transport :: "transport_header option"
  pkt_payload :: bytes

record decoded_packet =
  dec_packet :: packet
  dec_network_payload :: bytes \<comment> \<open>the bytes after the IP header\<close>
  dec_ipv4_checksum_valid :: "bool option"
  dec_transport_checksum_valid :: "bool option"
  dec_trailing :: bytes

definition default_ipv4_header :: ipv4_header where
  "default_ipv4_header = \<lparr>v4_dscp = 0, v4_ecn = 0, v4_identification = 0,
     v4_dont_fragment = False, v4_more_fragments = False, v4_fragment_offset = 0, v4_ttl = 64,
     v4_protocol = None, v4_source = 0, v4_destination = 0, v4_options = [], v4_ihl = None,
     v4_total_length = None, v4_checksum = CsAuto\<rparr>"

definition default_ipv6_header :: ipv6_header where
  "default_ipv6_header = \<lparr>v6_traffic_class = 0, v6_flow_label = 0, v6_payload_length = None,
     v6_next_header = None, v6_hop_limit = 64, v6_source = 0, v6_destination = 0,
     v6_fragment = None\<rparr>"

definition default_tcp_header :: tcp_header where
  "default_tcp_header = \<lparr>tcp_source_port = 0, tcp_destination_port = 0, tcp_sequence = 0,
     tcp_acknowledgment = 0, tcp_flags = 0, tcp_window = 65535, tcp_urgent_pointer = 0,
     tcp_options = [], tcp_data_offset = None, tcp_checksum = CsAuto\<rparr>"

definition default_udp_header :: udp_header where
  "default_udp_header = \<lparr>udp_source_port = 0, udp_destination_port = 0, udp_length = None,
     udp_checksum = CsAuto\<rparr>"

text \<open>
  The TCP endpoint lifecycle; declared here because the error type mentions it.
\<close>

datatype tcp_state =
    Closed | SynSent | SynReceived | Established | FinWait1 | FinWait2 | CloseWait
  | LastAck | TimeWait | Reset

datatype tcp_direction = Outbound | Inbound

text \<open>
  \<open>PacketError\<close> is a message string. The model has \<open>Msg\<close> for the fixed messages and one
  constructor per message that interpolates values, with those values.
\<close>

datatype packet_error =
    Msg string
  | InvalidMac string
  | InvalidTransition tcp_direction tcp_state u16
  | UnsupportedIpVersion byte
  | InvalidIhl byte
  | InvalidTotalLength nat nat
  | InvalidPayloadLength nat nat
  | InvalidDataOffset byte
  | InvalidUdpLength nat
  | InvalidTcpOption byte nat
  | InvalidIpv4Option byte nat
  | ExceedsMtuDontFragment nat
  | MtuTooSmallIpv4 nat
  | MtuTooSmallIpv6 nat
  | MaxDatagrams nat
  | MaxBufferedBytes nat

type_synonym 'a pres = "(packet_error, 'a) res"

text \<open>\<open>checked_add\<close> on 64-bit \<open>usize\<close>.\<close>

definition usize_checked_add :: "nat \<Rightarrow> nat \<Rightarrow> nat option" where
  "usize_checked_add a b = (if a + b < 2 ^ 64 then Some (a + b) else None)"

abbreviation err :: "string \<Rightarrow> 'a pres" where
  "err message \<equiv> Inl (Fail (Msg message))"

end
