(* ===== verification/Checksum.thy ===== *)
theory Checksum
  imports Packet_Types
begin

text \<open>
  The Internet checksum of \<open>src/src/packet.rs\<close>: \<open>checksum_add\<close>, \<open>checksum_finish\<close>,
  \<open>internet_checksum\<close> and \<open>transport_checksum\<close>. The 64-bit accumulator is a \<open>nat\<close>;
  \<open>checksum_add_bound\<close> shows it never reaches \<open>2 ^ 64\<close> on a byte vector that fits in
  memory, so the two agree.
\<close>

fun checksum_add :: "nat \<Rightarrow> bytes \<Rightarrow> nat" where
  "checksum_add acc (a # b # rest) = checksum_add (acc + unat (be_word [a, b] :: u16)) rest"
| "checksum_add acc [b] = acc + unat b * 2 ^ 8"
| "checksum_add acc [] = acc"

lemma carry_step_less: "acc div 65536 \<noteq> 0 \<Longrightarrow> acc mod 65536 + acc div 65536 < (acc :: nat)"
  using mod_mult_div_eq [of acc 65536] by linarith

text \<open>The loop of \<open>checksum_finish\<close>: fold the carries until 16 bits are left.\<close>

function fold_carries :: "nat \<Rightarrow> nat" where
  "fold_carries acc =
     (if acc div 2 ^ 16 \<noteq> 0 then fold_carries (acc mod 2 ^ 16 + acc div 2 ^ 16) else acc)"
  by pat_completeness auto
termination
  by (relation "measure id") (use carry_step_less in auto)

declare fold_carries.simps [simp del]

definition checksum_finish :: "nat \<Rightarrow> u16" where
  "checksum_finish acc = NOT (of_nat (fold_carries acc))"

definition internet_checksum :: "bytes \<Rightarrow> u16" where
  "internet_checksum bs = checksum_finish (checksum_add 0 bs)"

fun pseudo_header_sum :: "network_header \<Rightarrow> byte \<Rightarrow> nat \<Rightarrow> nat" where
  "pseudo_header_sum (NetIpv4 h) protocol len =
     checksum_add (checksum_add 0 (be_bytes 4 (v4_source h))) (be_bytes 4 (v4_destination h))
       + unat protocol + len"
| "pseudo_header_sum (NetIpv6 h) protocol len =
     checksum_add (checksum_add 0 (be_bytes 16 (v6_source h))) (be_bytes 16 (v6_destination h))
       + (len div 2 ^ 16 + len mod 2 ^ 16) + unat protocol"

definition transport_checksum :: "network_header \<Rightarrow> byte \<Rightarrow> bytes \<Rightarrow> u16 pres" where
  "transport_checksum network protocol segment =
     rbind (ok_or (Msg ''transport segment too long'') (u32_try_from (length segment))) (\<lambda>len.
       Inr (checksum_finish
         (checksum_add (pseudo_header_sum network protocol (unat len)) segment)))"

subsection \<open>The accumulator\<close>

lemma unat_be_word_pair: "unat (be_word [a, b] :: u16) = 256 * unat a + unat b"
proof -
  have eq: "(be_word [a, b] :: u16) = 256 * ucast a + ucast b"
  proof -
    have "(be_word [a, b] :: u16) = push_bit 8 (ucast a) OR ucast b"
      by (simp add: be_word_def)
    also have "\<dots> = push_bit 8 (ucast a) + ucast b"
      by (rule sym, rule disjunctive_add)
        (auto simp: bit_simps dest: bit_imp_le_length)
    also have "\<dots> = 256 * ucast a + ucast b"
      by (simp add: push_bit_eq_mult)
    finally show ?thesis .
  qed
  show ?thesis
    unfolding eq using unat_byte [of a] unat_byte [of b]
    by (simp add: unat_word_ariths unsigned_ucast_eq take_bit_nat_eq_self)
qed

lemma checksum_add_shift: "checksum_add (s + t) bs = s + checksum_add t bs"
  by (induction t bs rule: checksum_add.induct) (auto simp: add.assoc)

lemma checksum_add_base: "checksum_add s bs = s + checksum_add 0 bs"
  using checksum_add_shift [of s 0 bs] by simp

lemma checksum_add_append:
  "even (length xs) \<Longrightarrow> checksum_add s (xs @ ys) = checksum_add (checksum_add s xs) ys"
  by (induction s xs rule: checksum_add.induct) auto

lemma checksum_add_bound: "checksum_add s bs \<le> s + 65535 * ((length bs + 1) div 2)"
proof (induction s bs rule: checksum_add.induct)
  case (1 s a b rest)
  have "unat (be_word [a, b] :: u16) \<le> 65535"
    using unat_u16 [of "be_word [a, b]"] by simp
  then show ?case using 1 by simp
next
  case (2 s b)
  then show ?case using unat_byte [of b] by simp
qed simp

lemma checksum_add_be16: "checksum_add s (be_bytes 2 (w :: u16) @ rest) = checksum_add (s + unat w) rest"
proof -
  have "be_bytes 2 w = [ucast (drop_bit 8 w), ucast w]"
    by (simp add: numeral_2_eq_2)
  moreover have "be_word (be_bytes 2 w) = w"
    by (rule be_word_be_bytes) simp
  ultimately show ?thesis by simp
qed

subsection \<open>Carry folding\<close>

lemma fold_carries_lt: "fold_carries s < 2 ^ 16"
proof (induction s rule: fold_carries.induct)
  case (1 s)
  then show ?case
    by (cases "s div 2 ^ 16 = 0") (auto simp: fold_carries.simps [of s] div_eq_0_iff)
qed

lemma carry_step_mod: "(s mod 65536 + s div 65536) mod 65535 = s mod (65535 :: nat)"
proof -
  have "s = 65535 * (s div 65536) + (s mod 65536 + s div 65536)" by simp
  then show ?thesis by (metis mod_mult_self4)
qed

lemma fold_carries_mod: "fold_carries s mod 65535 = s mod 65535"
proof (induction s rule: fold_carries.induct)
  case (1 s)
  then show ?case
    by (cases "s div 2 ^ 16 = 0") (auto simp: fold_carries.simps [of s] carry_step_mod)
qed

lemma fold_carries_eq_0: "fold_carries s = 0 \<longleftrightarrow> s = 0"
proof (induction s rule: fold_carries.induct)
  case (1 s)
  show ?case
  proof (cases "s div 2 ^ 16 = 0")
    case True
    then show ?thesis by (auto simp: fold_carries.simps [of s])
  next
    case False
    then have "s mod 2 ^ 16 + s div 2 ^ 16 \<noteq> 0" and "s \<noteq> 0" by auto
    with False 1 show ?thesis by (auto simp: fold_carries.simps [of s])
  qed
qed

lemma unat_checksum_finish: "unat (checksum_finish s) = 65535 - fold_carries s"
proof -
  show ?thesis
    using fold_carries_lt [of s] by (simp add: checksum_finish_def unat_not unat_of_nat)
qed

text \<open>A sum verifies (the complement is zero) exactly when it is a positive multiple of 65535.\<close>

lemma checksum_finish_eq_0: "checksum_finish s = 0 \<longleftrightarrow> 0 < s \<and> s mod 65535 = 0"
proof -
  have "checksum_finish s = 0 \<longleftrightarrow> unat (checksum_finish s) = 0"
    by (simp add: unat_eq_0)
  also have "\<dots> \<longleftrightarrow> fold_carries s = 65535"
    using fold_carries_lt [of s] by (auto simp: unat_checksum_finish)
  also have "\<dots> \<longleftrightarrow> 0 < fold_carries s \<and> fold_carries s mod 65535 = 0"
    using fold_carries_lt [of s] by (auto elim!: dvdE simp: mod_eq_0_iff_dvd)
  also have "\<dots> \<longleftrightarrow> 0 < s \<and> s mod 65535 = 0"
    using fold_carries_eq_0 [of s] by (auto simp: fold_carries_mod)
  finally show ?thesis .
qed

lemma xor_ffff: "(x :: u16) XOR 0xffff = NOT x"
  using arg_cong [of "0xffff :: u16" "- 1" "(XOR) x"] by simp

lemma not_eq_ffff: "NOT x = 0xffff \<longleftrightarrow> (x :: u16) = 0"
proof -
  have "(0xffff :: u16) = NOT 0" by simp
  then show ?thesis by (metis bit.double_compl)
qed

lemma checksum_finish_eq_ffff: "checksum_finish s = 0xffff \<longleftrightarrow> s = 0"
proof -
  have "checksum_finish s = 0xffff \<longleftrightarrow> unat (checksum_finish s) = 65535"
    by (auto simp: word_unat_eq_iff)
  then show ?thesis
    using fold_carries_lt [of s] fold_carries_eq_0 [of s] by (auto simp: unat_checksum_finish)
qed

subsection \<open>A checksum field inside a message\<close>

text \<open>
  The contract every checksummed header relies on: the 16-bit field stands at an even
  offset of the summed bytes, the checksum is calculated with the field zeroed, and the
  receiver sums the bytes with the field in place. \<open>base\<close> is the pseudo-header sum.
\<close>

lemma double_mod_0: "(t + t) mod 65535 = 0 \<longleftrightarrow> t mod (65535 :: nat) = 0"
proof -
  have "coprime (65535 :: nat) 2" by (simp add: coprime_right_2_iff_odd)
  then have "65535 dvd 2 * t \<longleftrightarrow> 65535 dvd t"
    by (rule coprime_dvd_mult_right_iff)
  then show ?thesis by (simp only: mult_2 mod_eq_0_iff_dvd)
qed

definition with_field :: "bytes \<Rightarrow> u16 \<Rightarrow> bytes \<Rightarrow> bytes" where
  "with_field pre w post = pre @ be_bytes 2 w @ post"

locale checksum_slot =
  fixes base :: nat and pre :: bytes and post :: bytes
  assumes even_pre: "even (length pre)"
begin

lemma field_sum:
  "checksum_add base (with_field pre w post) = checksum_add base (with_field pre 0 post) + unat w"
proof -
  have "checksum_add s (be_bytes 2 w @ post) = checksum_add s (be_bytes 2 (0 :: u16) @ post) + unat w"
    for s
    using checksum_add_shift [of "unat w" s post]
    by (simp add: checksum_add_be16 add.commute)
  then show ?thesis
    using even_pre by (simp add: with_field_def checksum_add_append)
qed

lemma value_verifies_iff:
  "checksum_finish (checksum_add base (with_field pre w post)) = 0 \<longleftrightarrow>
     0 < checksum_add base (with_field pre 0 post) + unat w \<and>
     (checksum_add base (with_field pre 0 post) + unat w) mod 65535 = 0"
  by (subst field_sum) (rule checksum_finish_eq_0)

lemma auto_verifies:
  "checksum_finish (checksum_add base (with_field pre
     (resolve CsAuto (checksum_finish (checksum_add base (with_field pre 0 post)))) post)) = 0"
proof -
  let ?t = "checksum_add base (with_field pre 0 post)"
  have f: "fold_carries ?t \<le> 65535" using fold_carries_lt [of ?t] by simp
  have "(?t + (65535 - fold_carries ?t)) mod 65535 = (fold_carries ?t + (65535 - fold_carries ?t)) mod 65535"
    by (metis fold_carries_mod mod_add_cong)
  then have "(?t + (65535 - fold_carries ?t)) mod 65535 = 0"
    using f by simp
  moreover have "0 < ?t + (65535 - fold_carries ?t)"
    using fold_carries_eq_0 [of ?t] by (cases "?t = 0") auto
  ultimately show ?thesis
    by (simp add: value_verifies_iff unat_checksum_finish)
qed

lemma invalid_verifies_iff:
  "checksum_finish (checksum_add base (with_field pre
     (resolve CsInvalid (checksum_finish (checksum_add base (with_field pre 0 post)))) post)) = 0
   \<longleftrightarrow> checksum_finish (checksum_add base (with_field pre 0 post)) = 0"
proof -
  let ?t = "checksum_add base (with_field pre 0 post)"
  have "checksum_finish ?t XOR 0xffff = of_nat (fold_carries ?t)"
    by (simp add: xor_ffff checksum_finish_def)
  then have v: "unat (resolve CsInvalid (checksum_finish ?t)) = fold_carries ?t"
    using fold_carries_lt [of ?t] by (simp add: unat_of_nat)
  have "(?t + fold_carries ?t) mod 65535 = (?t + ?t) mod 65535"
    by (metis fold_carries_mod mod_add_cong)
  then have "(?t + fold_carries ?t) mod 65535 = 0 \<longleftrightarrow> ?t mod 65535 = 0"
    by (simp only: double_mod_0)
  moreover have "0 < ?t + fold_carries ?t \<longleftrightarrow> 0 < ?t"
    using fold_carries_eq_0 [of ?t] by auto
  ultimately show ?thesis
    by (subst value_verifies_iff, subst v) (simp only: v checksum_finish_eq_0)
qed

end

end
