(* ===== verification/Packet_Encode.thy ===== *)
theory Packet_Encode
  imports Checksum
begin

text \<open>
  The encoders of \<open>src/src/packet.rs\<close>. The code fills a zeroed header and patches the
  checksum in; the model names the bytes before and after the checksum field
  (\<open>ipv4_prefix\<close>, \<open>ipv4_suffix\<close> and so on), so that the calculated and the final header
  are \<open>with_field pre 0 post\<close> and \<open>with_field pre checksum post\<close>.
\<close>

definition packet_protocol :: "packet \<Rightarrow> byte pres" where
  "packet_protocol p =
     (let inferred = (case pkt_transport p of
            Some (TransTcp _) \<Rightarrow> Some IP_PROTOCOL_TCP
          | Some (TransUdp _) \<Rightarrow> Some IP_PROTOCOL_UDP
          | None \<Rightarrow> None);
          configured = (case pkt_network p of
            NetIpv4 h \<Rightarrow> v4_protocol h
          | NetIpv6 h \<Rightarrow> opt_or (map_option frag_next_header (v6_fragment h)) (v6_next_header h))
      in ok_or (Msg ''raw IP payload requires an explicit protocol/next_header'')
           (opt_or configured inferred))"

subsection \<open>TCP options and transport headers\<close>

fun encode_tcp_option :: "tcp_option \<Rightarrow> bytes pres" where
  "encode_tcp_option OptEnd = Inr [0]"
| "encode_tcp_option OptNop = Inr [1]"
| "encode_tcp_option (OptMaximumSegmentSize v) = Inr ([2, 4] @ be_bytes 2 v)"
| "encode_tcp_option (OptWindowScale v) = Inr [3, 3, v]"
| "encode_tcp_option OptSackPermitted = Inr [4, 2]"
| "encode_tcp_option (OptSack blocks) =
     (let len = 2 + length blocks * 8
      in if blocks = [] \<or> len > 255 then err ''TCP SACK needs at least one valid block''
         else Inr ([5, of_nat len] @
                concat (map (\<lambda>(left, right). be_bytes 4 left @ be_bytes 4 right) blocks)))"
| "encode_tcp_option (OptTimestamp v echo) = Inr ([8, 10] @ be_bytes 4 v @ be_bytes 4 echo)"
| "encode_tcp_option (OptUnknown kind dat) =
     rbind (ok_or (Msg ''unknown TCP option is too long'') (u8_try_from (length dat + 2)))
       (\<lambda>len. Inr ([kind, len] @ dat))"

definition encode_tcp_options :: "tcp_option list \<Rightarrow> bytes pres" where
  "encode_tcp_options opts = rbind (rmap encode_tcp_option opts) (\<lambda>bss. Inr (concat bss))"

definition tcp_prefix :: "tcp_header \<Rightarrow> byte \<Rightarrow> bytes" where
  "tcp_prefix h encoded_offset =
     be_bytes 2 (tcp_source_port h) @ be_bytes 2 (tcp_destination_port h) @
     be_bytes 4 (tcp_sequence h) @ be_bytes 4 (tcp_acknowledgment h) @
     [push_bit 4 encoded_offset OR (ucast (drop_bit 8 (tcp_flags h)) AND 1),
      ucast (tcp_flags h)] @
     be_bytes 2 (tcp_window h)"

definition tcp_suffix :: "tcp_header \<Rightarrow> bytes \<Rightarrow> bytes" where
  "tcp_suffix h options = be_bytes 2 (tcp_urgent_pointer h) @ options"

definition encode_tcp :: "network_header \<Rightarrow> tcp_header \<Rightarrow> bytes \<Rightarrow> bytes pres" where
  "encode_tcp network h payload =
     (if tcp_flags h > 0x01ff then err ''TCP flags exceed 9 bits'' else
      rbind (encode_tcp_options (tcp_options h)) (\<lambda>raw_options.
      let options = vec_resize (pad4 (length raw_options)) raw_options in
      if length options > 40 then err ''TCP options exceed 40 bytes'' else
      let actual_offset = 5 + length options div 4;
          encoded_offset = unwrap_or (of_nat actual_offset) (tcp_data_offset h) in
      if encoded_offset > 15 then err ''TCP data offset exceeds 15'' else
      let pre = tcp_prefix h encoded_offset; post = tcp_suffix h options in
      rbind (transport_checksum network IP_PROTOCOL_TCP (with_field pre 0 post @ payload))
        (\<lambda>calculated. Inr (with_field pre (resolve (tcp_checksum h) calculated) post))))"

definition udp_prefix :: "udp_header \<Rightarrow> u16 \<Rightarrow> bytes" where
  "udp_prefix h len =
     be_bytes 2 (udp_source_port h) @ be_bytes 2 (udp_destination_port h) @ be_bytes 2 len"

definition encode_udp :: "network_header \<Rightarrow> udp_header \<Rightarrow> bytes \<Rightarrow> bytes pres" where
  "encode_udp network h payload =
     rbind (ok_or (Msg ''UDP datagram exceeds 65535 bytes'') (u16_try_from (8 + length payload)))
       (\<lambda>actual_length.
        let pre = udp_prefix h (unwrap_or actual_length (udp_length h)) in
        rbind (transport_checksum network IP_PROTOCOL_UDP (with_field pre 0 [] @ payload))
          (\<lambda>calculated.
           let calculated = (if calculated = 0 then 0xffff else calculated)
           in Inr (with_field pre (resolve (udp_checksum h) calculated) [])))"

fun encode_transport :: "network_header \<Rightarrow> transport_header option \<Rightarrow> bytes \<Rightarrow> bytes pres" where
  "encode_transport network None payload = Inr []"
| "encode_transport network (Some (TransTcp h)) payload = encode_tcp network h payload"
| "encode_transport network (Some (TransUdp h)) payload = encode_udp network h payload"

subsection \<open>Network and link headers\<close>

definition ipv4_prefix :: "ipv4_header \<Rightarrow> byte \<Rightarrow> byte \<Rightarrow> u16 \<Rightarrow> bytes" where
  "ipv4_prefix h protocol encoded_ihl total_length =
     [0x40 OR encoded_ihl, push_bit 2 (v4_dscp h) OR v4_ecn h] @
     be_bytes 2 total_length @ be_bytes 2 (v4_identification h) @
     be_bytes 2 (push_bit 14 (of_bool (v4_dont_fragment h)) OR
                 push_bit 13 (of_bool (v4_more_fragments h)) OR v4_fragment_offset h) @
     [v4_ttl h, unwrap_or protocol (v4_protocol h)]"

definition ipv4_suffix :: "ipv4_header \<Rightarrow> bytes \<Rightarrow> bytes" where
  "ipv4_suffix h options = be_bytes 4 (v4_source h) @ be_bytes 4 (v4_destination h) @ options"

definition encode_ipv4 :: "ipv4_header \<Rightarrow> byte \<Rightarrow> bytes \<Rightarrow> bytes pres" where
  "encode_ipv4 h protocol payload =
     (if v4_dscp h > 63 \<or> v4_ecn h > 3 \<or> v4_fragment_offset h > 8191
      then err ''IPv4 DSCP/ECN/fragment offset is out of range'' else
      if length (v4_options h) > 40 then err ''IPv4 options exceed 40 bytes'' else
      let options = vec_resize (pad4 (length (v4_options h))) (v4_options h);
          actual_ihl = 5 + length options div 4;
          encoded_ihl = unwrap_or (of_nat actual_ihl) (v4_ihl h) in
      if encoded_ihl > 15 then err ''IPv4 IHL exceeds 15'' else
      rbind (ok_or (Msg ''IPv4 packet length overflow'')
        (Option.bind (usize_checked_add 20 (length options))
           (\<lambda>len. usize_checked_add len (length payload)))) (\<lambda>actual_length.
      rbind (ok_or (Msg ''IPv4 packet exceeds 65535 bytes'') (u16_try_from actual_length))
        (\<lambda>actual_length.
      let total_length = unwrap_or actual_length (v4_total_length h);
          pre = ipv4_prefix h protocol encoded_ihl total_length;
          post = ipv4_suffix h options;
          calculated = internet_checksum (with_field pre 0 post)
      in Inr (with_field pre (resolve (v4_checksum h) calculated) post @ payload))))"

definition ipv6_first_word :: "ipv6_header \<Rightarrow> u32" where
  "ipv6_first_word h =
     push_bit 28 6 OR push_bit 20 (ucast (v6_traffic_class h)) OR (v6_flow_label h AND 0x000fffff)"

definition ipv6_fragment_bytes :: "ipv6_fragment \<Rightarrow> bytes" where
  "ipv6_fragment_bytes f =
     [frag_next_header f, 0] @
     be_bytes 2 (push_bit 3 (frag_offset f) OR of_bool (frag_more_fragments f)) @
     be_bytes 4 (frag_identification f)"

definition encode_ipv6 :: "ipv6_header \<Rightarrow> byte \<Rightarrow> bytes \<Rightarrow> bytes pres" where
  "encode_ipv6 h protocol payload =
     (if v6_flow_label h > 0x000fffff then err ''IPv6 flow_label exceeds 20 bits'' else
      let extension_len = (if v6_fragment h \<noteq> None then 8 else 0) in
      rbind (ok_or (Msg ''IPv6 payload exceeds 65535 bytes (jumbograms unsupported)'')
        (u16_try_from (extension_len + length payload))) (\<lambda>actual_length.
      let payload_length = unwrap_or actual_length (v6_payload_length h);
          fixed = be_bytes 4 (ipv6_first_word h) @ be_bytes 2 payload_length @
            [if v6_fragment h \<noteq> None then IP_PROTOCOL_FRAGMENT
             else unwrap_or protocol (v6_next_header h), v6_hop_limit h] @
            be_bytes 16 (v6_source h) @ be_bytes 16 (v6_destination h)
      in case v6_fragment h of
           None \<Rightarrow> Inr (fixed @ payload)
         | Some f \<Rightarrow>
             if frag_offset f > 8191 then err ''IPv6 fragment offset exceeds 13 bits''
             else Inr (fixed @ ipv6_fragment_bytes f @ payload)))"

definition encode_ethernet :: "ethernet_header \<Rightarrow> network_header \<Rightarrow> bytes \<Rightarrow> bytes pres" where
  "encode_ethernet h network payload =
     (let inferred = (case network of NetIpv4 _ \<Rightarrow> ETHERTYPE_IPV4 | NetIpv6 _ \<Rightarrow> ETHERTYPE_IPV6);
          ether_type = unwrap_or inferred (eth_ether_type h);
          addresses = be_bytes 6 (eth_destination h) @ be_bytes 6 (eth_source h) in
      case eth_vlan h of
        None \<Rightarrow> Inr (addresses @ be_bytes 2 ether_type @ payload)
      | Some vlan \<Rightarrow>
          if vlan_priority vlan > 7 \<or> vlan_id vlan > 4095
          then err ''VLAN priority/id is out of range''
          else Inr (addresses @ be_bytes 2 ETHERTYPE_VLAN @
                 be_bytes 2 (push_bit 13 (ucast (vlan_priority vlan)) OR
                             push_bit 12 (of_bool (vlan_drop_eligible vlan)) OR vlan_id vlan) @
                 be_bytes 2 ether_type @ payload))"

definition packet_encode :: "packet \<Rightarrow> bytes pres" where
  "packet_encode p =
     rbind (packet_protocol p) (\<lambda>protocol.
     rbind (encode_transport (pkt_network p) (pkt_transport p) (pkt_payload p)) (\<lambda>transport.
     let network_payload = transport @ pkt_payload p in
     rbind (case pkt_network p of
              NetIpv4 h \<Rightarrow> encode_ipv4 h protocol network_payload
            | NetIpv6 h \<Rightarrow> encode_ipv6 h protocol network_payload) (\<lambda>ip.
     case pkt_ethernet p of
       Some ethernet \<Rightarrow> encode_ethernet ethernet (pkt_network p) ip
     | None \<Rightarrow> Inr ip)))"

subsection \<open>Encoding never panics\<close>

lemma no_panic_encode_tcp_option [panic_intros]: "no_panic (encode_tcp_option opt)"
  by (cases opt) (auto intro!: panic_intros simp: Let_def)

lemma no_panic_transport_checksum [panic_intros]: "no_panic (transport_checksum n pr seg)"
  by (auto simp: transport_checksum_def intro!: panic_intros)

lemma no_panic_encode_transport [panic_intros]: "no_panic (encode_transport n t payload)"
  by (cases "(n, t, payload)" rule: encode_transport.cases)
    (auto simp: encode_tcp_def encode_udp_def encode_tcp_options_def Let_def intro!: panic_intros)

lemma no_panic_packet_encode: "no_panic (packet_encode p)"
  by (auto simp: packet_encode_def packet_protocol_def encode_ipv4_def encode_ipv6_def
        encode_ethernet_def Let_def intro!: panic_intros split: network_header.splits option.splits)

end
