(* ===== verification/Packet_Decode.thy ===== *)
theory Packet_Decode
  imports Packet_Encode
begin

text \<open>
  The decoders of \<open>src/src/packet.rs\<close>. Every index and slice of the code is a checked
  access, so \<open>decode_never_panics\<close> is a statement about the guards the code has.
\<close>

subsection \<open>TCP options\<close>

fun sack_blocks :: "bytes \<Rightarrow> (u32 \<times> u32) list" where
  "sack_blocks (a # b # c # d # e # f # g # h # rest) =
     (be_word [a, b, c, d], be_word [e, f, g, h]) # sack_blocks rest"
| "sack_blocks _ = []"

definition tcp_option_of :: "byte \<Rightarrow> bytes \<Rightarrow> tcp_option" where
  "tcp_option_of kind dat =
     (if kind = 2 \<and> length dat = 2 then OptMaximumSegmentSize (be_word dat)
      else if kind = 3 \<and> length dat = 1 then OptWindowScale (dat ! 0)
      else if kind = 4 \<and> dat = [] then OptSackPermitted
      else if kind = 5 \<and> dat \<noteq> [] \<and> length dat mod 8 = 0 then OptSack (sack_blocks dat)
      else if kind = 8 \<and> length dat = 8
        then OptTimestamp (be_word (take 4 dat)) (be_word (drop 4 dat))
      else OptUnknown kind dat)"

text \<open>The loop over \<open>offset\<close>; the argument is \<open>bytes[offset..]\<close>.\<close>

function decode_tcp_options :: "bytes \<Rightarrow> tcp_option list pres" where
  "decode_tcp_options [] = Inr []"
| "decode_tcp_options (kind # rest) =
     (if kind = 0 then Inr [OptEnd]
      else if kind = 1 then rbind (decode_tcp_options rest) (\<lambda>opts. Inr (OptNop # opts))
      else if 2 > length (kind # rest) then err ''truncated TCP option length''
      else rbind (byte_at (kind # rest) 1) (\<lambda>length_byte.
        let len = unat length_byte in
        if len < 2 \<or> len > length (kind # rest) then Inl (Fail (InvalidTcpOption kind len))
        else rbind (slice (kind # rest) 2 len) (\<lambda>dat.
          rbind (decode_tcp_options (drop len (kind # rest)))
            (\<lambda>opts. Inr (tcp_option_of kind dat # opts)))))"
  by pat_completeness auto
termination
  by (relation "measure length") auto

subsection \<open>Transport headers\<close>

definition complete_transport_header :: "byte \<Rightarrow> bytes \<Rightarrow> bool" where
  "complete_transport_header protocol bs =
     (if protocol = IP_PROTOCOL_TCP then
        (if 12 < length bs
         then 5 \<le> drop_bit 4 (bs ! 12) \<and> unat (drop_bit 4 (bs ! 12)) * 4 \<le> length bs
         else False)
      else if protocol = IP_PROTOCOL_UDP then 8 \<le> length bs
      else True)"

type_synonym decoded_transport = "transport_header option \<times> bytes \<times> bool option"

definition decode_tcp :: "network_header \<Rightarrow> bytes \<Rightarrow> bool \<Rightarrow> decoded_transport pres" where
  "decode_tcp network bs fragmented =
     (if length bs < 20 then err ''truncated TCP header'' else
      rbind (byte_at bs 12) (\<lambda>b12.
      let data_offset = drop_bit 4 b12 in
      if data_offset < 5 then Inl (Fail (InvalidDataOffset data_offset)) else
      let header_len = unat data_offset * 4 in
      if length bs < header_len then err ''truncated TCP options'' else
      rbind (be_at 2 bs 0) (\<lambda>source_port.
      rbind (be_at 2 bs 2) (\<lambda>destination_port.
      rbind (be_at 4 bs 4) (\<lambda>sequence.
      rbind (be_at 4 bs 8) (\<lambda>acknowledgment.
      rbind (byte_at bs 13) (\<lambda>b13.
      rbind (be_at 2 bs 14) (\<lambda>window.
      rbind (be_at 2 bs 18) (\<lambda>urgent_pointer.
      rbind (slice bs 20 header_len) (\<lambda>option_bytes.
      rbind (decode_tcp_options option_bytes) (\<lambda>options.
      rbind (be_at 2 bs 16) (\<lambda>cs.
      let header = \<lparr>tcp_source_port = source_port, tcp_destination_port = destination_port,
            tcp_sequence = sequence, tcp_acknowledgment = acknowledgment,
            tcp_flags = push_bit 8 (ucast (b12 AND 1)) OR ucast b13,
            tcp_window = window, tcp_urgent_pointer = urgent_pointer, tcp_options = options,
            tcp_data_offset = Some data_offset, tcp_checksum = CsValue cs\<rparr> in
      rbind (if fragmented then Inr None
             else rbind (transport_checksum network IP_PROTOCOL_TCP bs) (\<lambda>c. Inr (Some (c = 0))))
        (\<lambda>valid.
      rbind (slice bs header_len (length bs)) (\<lambda>payload.
        Inr (Some (TransTcp header), payload, valid)))))))))))))))"

definition decode_udp :: "network_header \<Rightarrow> bytes \<Rightarrow> bool \<Rightarrow> decoded_transport pres" where
  "decode_udp network bs fragmented =
     (if length bs < 8 then err ''truncated UDP header'' else
      rbind (be_at 2 bs 4) (\<lambda>len :: u16.
      let declared = unat len in
      if declared < 8 \<or> (\<not> fragmented \<and> declared > length bs)
      then Inl (Fail (InvalidUdpLength declared)) else
      let available = min declared (length bs) in
      rbind (be_at 2 bs 6) (\<lambda>checksum_value :: u16.
      rbind (be_at 2 bs 0) (\<lambda>source_port.
      rbind (be_at 2 bs 2) (\<lambda>destination_port.
      let header = \<lparr>udp_source_port = source_port, udp_destination_port = destination_port,
            udp_length = Some (of_nat declared), udp_checksum = CsValue checksum_value\<rparr> in
      rbind (if fragmented then Inr None
             else if checksum_value = 0 \<and> (case network of NetIpv4 _ \<Rightarrow> True | NetIpv6 _ \<Rightarrow> False)
             then Inr (Some True)
             else rbind (slice bs 0 available) (\<lambda>segment.
               rbind (transport_checksum network IP_PROTOCOL_UDP segment) (\<lambda>c. Inr (Some (c = 0)))))
        (\<lambda>valid.
      rbind (slice bs 8 available) (\<lambda>payload.
        Inr (Some (TransUdp header), payload, valid))))))))"

definition decode_transport ::
  "network_header \<Rightarrow> byte \<Rightarrow> bytes \<Rightarrow> bool \<Rightarrow> decoded_transport pres" where
  "decode_transport network protocol bs fragmented =
     (if protocol = IP_PROTOCOL_TCP then decode_tcp network bs fragmented
      else if protocol = IP_PROTOCOL_UDP then decode_udp network bs fragmented
      else Inr (None, bs, None))"

subsection \<open>Network headers\<close>

text \<open>
  The choice both network decoders make: a fragment that does not start with a complete
  transport header keeps its bytes as payload, anything else goes to \<open>decode_transport\<close>.
\<close>

definition decode_payload ::
  "bool \<Rightarrow> network_header \<Rightarrow> byte \<Rightarrow> bytes \<Rightarrow> bool \<Rightarrow> decoded_transport pres" where
  "decode_payload opaque network protocol ip_payload fragmented =
     (if opaque then Inr (None, ip_payload, None)
      else decode_transport network protocol ip_payload fragmented)"

definition decode_ipv4 :: "bytes \<Rightarrow> ethernet_header option \<Rightarrow> decoded_packet pres" where
  "decode_ipv4 bs ethernet =
     (if length bs < 20 then err ''truncated IPv4 header'' else
      rbind (byte_at bs 0) (\<lambda>b0.
      let ihl = b0 AND 0x0f in
      if ihl < 5 then Inl (Fail (InvalidIhl ihl)) else
      let header_len = unat ihl * 4 in
      if length bs < header_len then err ''truncated IPv4 options'' else
      rbind (be_at 2 bs 2) (\<lambda>total :: u16.
      let total_length = unat total in
      if total_length < header_len \<or> total_length > length bs
      then Inl (Fail (InvalidTotalLength total_length (length bs))) else
      rbind (byte_at bs 9) (\<lambda>protocol.
      rbind (be_at 4 bs 12) (\<lambda>source.
      rbind (be_at 4 bs 16) (\<lambda>destination.
      rbind (be_at 2 bs 6) (\<lambda>fragment :: u16.
      rbind (byte_at bs 1) (\<lambda>b1.
      rbind (be_at 2 bs 4) (\<lambda>identification.
      rbind (byte_at bs 8) (\<lambda>ttl.
      rbind (slice bs 20 header_len) (\<lambda>options.
      rbind (be_at 2 bs 10) (\<lambda>cs.
      let header = \<lparr>v4_dscp = drop_bit 2 b1, v4_ecn = b1 AND 3,
            v4_identification = identification,
            v4_dont_fragment = (fragment AND 0x4000 \<noteq> 0),
            v4_more_fragments = (fragment AND 0x2000 \<noteq> 0),
            v4_fragment_offset = fragment AND 0x1fff, v4_ttl = ttl, v4_protocol = Some protocol,
            v4_source = source, v4_destination = destination, v4_options = options,
            v4_ihl = Some ihl, v4_total_length = Some (of_nat total_length),
            v4_checksum = CsValue cs\<rparr> in
      rbind (slice bs 0 header_len) (\<lambda>header_bytes.
      let checksum_valid = (internet_checksum header_bytes = 0) in
      rbind (slice bs header_len total_length) (\<lambda>ip_payload.
      let fragmented = (v4_fragment_offset header \<noteq> 0 \<or> v4_more_fragments header) in
      rbind (decode_payload
               (fragmented \<and> (v4_fragment_offset header \<noteq> 0 \<or>
                 \<not> complete_transport_header protocol ip_payload))
               (NetIpv4 header) protocol ip_payload fragmented)
        (\<lambda>(transport, payload, transport_checksum_valid).
      rbind (slice bs total_length (length bs)) (\<lambda>trailing.
        Inr \<lparr>dec_packet = \<lparr>pkt_ethernet = ethernet, pkt_network = NetIpv4 header,
                pkt_transport = transport, pkt_payload = payload\<rparr>,
              dec_network_payload = ip_payload,
              dec_ipv4_checksum_valid = Some checksum_valid,
              dec_transport_checksum_valid = transport_checksum_valid,
              dec_trailing = trailing\<rparr>))))))))))))))))"

text \<open>The fragment extension of an IPv6 packet: the protocol, the payload offset, the header.\<close>

definition decode_ipv6_fragment ::
  "bytes \<Rightarrow> nat \<Rightarrow> byte \<Rightarrow> (byte \<times> nat \<times> ipv6_fragment option) pres" where
  "decode_ipv6_fragment bs total_length protocol =
     (if protocol = IP_PROTOCOL_FRAGMENT then
        (if total_length < 48 then err ''truncated IPv6 fragment header'' else
         rbind (byte_at bs 40) (\<lambda>next_header.
         rbind (be_at 2 bs 42) (\<lambda>bits :: u16.
         rbind (be_at 4 bs 44) (\<lambda>identification.
           Inr (next_header, 48, Some \<lparr>frag_next_header = next_header,
             frag_offset = drop_bit 3 bits, frag_more_fragments = (bits AND 1 \<noteq> 0),
             frag_identification = identification\<rparr>)))))
      else Inr (protocol, 40, None))"

definition decode_ipv6 :: "bytes \<Rightarrow> ethernet_header option \<Rightarrow> decoded_packet pres" where
  "decode_ipv6 bs ethernet =
     (if length bs < 40 then err ''truncated IPv6 header'' else
      rbind (be_at 4 bs 0) (\<lambda>first :: u32.
      rbind (be_at 2 bs 4) (\<lambda>len :: u16.
      let payload_length = unat len; total_length = 40 + payload_length in
      if total_length > length bs
      then Inl (Fail (InvalidPayloadLength payload_length (length bs))) else
      rbind (be_at 16 bs 8) (\<lambda>source.
      rbind (be_at 16 bs 24) (\<lambda>destination.
      rbind (byte_at bs 6) (\<lambda>b6.
      rbind (decode_ipv6_fragment bs total_length b6) (\<lambda>(protocol, offset, fragment).
      rbind (byte_at bs 7) (\<lambda>hop_limit.
      let header = \<lparr>v6_traffic_class = ucast (drop_bit 20 first AND 0xff),
            v6_flow_label = first AND 0x000fffff,
            v6_payload_length = Some (of_nat payload_length), v6_next_header = Some b6,
            v6_hop_limit = hop_limit, v6_source = source, v6_destination = destination,
            v6_fragment = fragment\<rparr>;
          fragmented = (case fragment of None \<Rightarrow> False
            | Some f \<Rightarrow> frag_offset f \<noteq> 0 \<or> frag_more_fragments f) in
      rbind (slice bs offset total_length) (\<lambda>ip_payload.
      rbind (decode_payload
               (case fragment of None \<Rightarrow> False
                | Some f \<Rightarrow> frag_offset f \<noteq> 0 \<or> \<not> complete_transport_header protocol ip_payload)
               (NetIpv6 header) protocol ip_payload fragmented)
        (\<lambda>(transport, payload, transport_checksum_valid).
      rbind (slice bs total_length (length bs)) (\<lambda>trailing.
        Inr \<lparr>dec_packet = \<lparr>pkt_ethernet = ethernet, pkt_network = NetIpv6 header,
                pkt_transport = transport, pkt_payload = payload\<rparr>,
              dec_network_payload = ip_payload,
              dec_ipv4_checksum_valid = None,
              dec_transport_checksum_valid = transport_checksum_valid,
              dec_trailing = trailing\<rparr>)))))))))))"

definition decode_ip_inner :: "bytes \<Rightarrow> ethernet_header option \<Rightarrow> decoded_packet pres" where
  "decode_ip_inner bs ethernet =
     (case bs of
        [] \<Rightarrow> err ''empty IP packet''
      | b # _ \<Rightarrow>
          let version = drop_bit 4 b in
          if version = 4 then decode_ipv4 bs ethernet
          else if version = 6 then decode_ipv6 bs ethernet
          else Inl (Fail (UnsupportedIpVersion version)))"

definition decode_ip :: "bytes \<Rightarrow> decoded_packet pres" where
  "decode_ip bs = decode_ip_inner bs None"

definition decode_vlan :: "bytes \<Rightarrow> u16 \<Rightarrow> (vlan_tag option \<times> u16 \<times> nat) pres" where
  "decode_vlan bs ether_type =
     (if ether_type = ETHERTYPE_VLAN then
        (if length bs < 18 then err ''truncated VLAN header'' else
         rbind (be_at 2 bs 14) (\<lambda>control :: u16.
         rbind (be_at 2 bs 16) (\<lambda>inner.
           Inr (Some \<lparr>vlan_priority = ucast (drop_bit 13 control),
             vlan_drop_eligible = (control AND 0x1000 \<noteq> 0), vlan_id = control AND 0x0fff\<rparr>,
             inner, 18))))
      else Inr (None, ether_type, 14))"

definition decode_ethernet :: "bytes \<Rightarrow> decoded_packet pres" where
  "decode_ethernet bs =
     (if length bs < 14 then err ''truncated Ethernet header'' else
      rbind (be_at 6 bs 0) (\<lambda>destination.
      rbind (be_at 6 bs 6) (\<lambda>source.
      rbind (be_at 2 bs 12) (\<lambda>outer_type.
      rbind (decode_vlan bs outer_type) (\<lambda>(vlan, ether_type, offset).
      rbind (slice bs offset (length bs)) (\<lambda>ip_bytes.
        decode_ip_inner ip_bytes
          (Some \<lparr>eth_destination = destination, eth_source = source, eth_vlan = vlan,
             eth_ether_type = Some ether_type\<rparr>)))))))"

subsection \<open>Decoding never panics\<close>

lemma no_panic_decode_tcp_options [panic_intros]: "no_panic (decode_tcp_options bs)"
  by (induction bs rule: decode_tcp_options.induct)
    (auto simp: Let_def intro!: panic_intros)

lemma no_panic_decode_tcp [panic_intros]: "no_panic (decode_tcp n bs fr)"
  unfolding decode_tcp_def Let_def
  by (intro panic_intros) (auto simp: word_less_nat_alt word_le_nat_alt)

lemma no_panic_decode_udp [panic_intros]: "no_panic (decode_udp n bs fr)"
  unfolding decode_udp_def Let_def
  by (intro panic_intros) auto

lemma no_panic_decode_transport [panic_intros]: "no_panic (decode_transport n pr bs fr)"
  unfolding decode_transport_def by (intro panic_intros)

lemma no_panic_decode_payload [panic_intros]: "no_panic (decode_payload opq n pr bs fr)"
  unfolding decode_payload_def by (intro panic_intros)

lemma no_panic_case_prod [panic_intros]:
  "(\<And>a b. x = (a, b) \<Longrightarrow> no_panic (f a b)) \<Longrightarrow> no_panic (case x of (a, b) \<Rightarrow> f a b)"
  by (cases x) simp

lemma no_panic_decode_ipv4: "no_panic (decode_ipv4 bs eth)"
  unfolding decode_ipv4_def Let_def
  by (intro panic_intros) (auto simp: word_less_nat_alt word_le_nat_alt)

lemma decode_ipv6_fragment_offset:
  "decode_ipv6_fragment bs tot pr = Inr (pr', off, fr) \<Longrightarrow> 40 \<le> tot \<Longrightarrow> off \<le> tot"
  by (auto simp: decode_ipv6_fragment_def split: if_splits)

lemma no_panic_decode_ipv6_fragment [panic_intros]:
  "tot \<le> length bs \<Longrightarrow> no_panic (decode_ipv6_fragment bs tot pr)"
  unfolding decode_ipv6_fragment_def by (intro panic_intros) auto

lemma no_panic_decode_ipv6: "no_panic (decode_ipv6 bs eth)"
  unfolding decode_ipv6_def Let_def
  by (intro panic_intros) (auto dest: decode_ipv6_fragment_offset)

lemma no_panic_decode_ip_inner [panic_intros]: "no_panic (decode_ip_inner bs eth)"
  unfolding decode_ip_inner_def Let_def
  by (cases bs) (auto intro: no_panic_decode_ipv4 no_panic_decode_ipv6)

lemma no_panic_decode_ethernet: "no_panic (decode_ethernet bs)"
  unfolding decode_ethernet_def decode_vlan_def
  by (intro panic_intros) (auto split: if_splits)

text \<open>
  C30: no input makes the decoders panic: every index and slice they take on an arbitrary byte
  string, as an Ethernet frame or as an IP packet, is within bounds, so malformed and truncated
  input is reported as an error value.
\<close>

theorem decode_never_panics:
  "decode_ethernet bs \<noteq> Inl Panic \<and> decode_ip bs \<noteq> Inl Panic"
  using no_panic_decode_ethernet [of bs] no_panic_decode_ip_inner [of bs None]
  by (simp add: no_panic_def decode_ip_def)

end
