(* ===== verification/Codec_Spec.thy ===== *)
theory Codec_Spec
  imports Prelude
begin

text \<open>
  The contract of a self-delimiting element codec, shared by the TCP options and by the
  stream framings: decoding an encoded element followed by anything yields that element
  and the decoding of the rest. The client lemmas lift it to sequences of elements.
\<close>

locale element_codec =
  fixes enc :: "'a \<Rightarrow> ('e, bytes) res"
    and dec :: "bytes \<Rightarrow> ('d, 'a list) res"
    and ok :: "'a \<Rightarrow> bool"
  assumes dec_step: "ok x \<Longrightarrow> enc x = Inr b \<Longrightarrow>
      dec (b @ rest) = rbind (dec rest) (\<lambda>xs. Inr (x # xs))"
begin

lemma dec_elements:
  assumes "\<And>x. x \<in> set xs \<Longrightarrow> ok x" and "rmap enc xs = Inr bss"
  shows "dec (concat bss @ rest) = rbind (dec rest) (\<lambda>ys. Inr (xs @ ys))"
  using assms
proof (induction xs arbitrary: bss)
  case Nil
  then show ?case by (cases "dec rest") auto
next
  case (Cons x xs)
  then obtain b bs where b: "enc x = Inr b" and bs: "rmap enc xs = Inr bs" and eq: "bss = b # bs"
    by auto
  have "dec (concat bss @ rest) = rbind (dec (concat bs @ rest)) (\<lambda>ys. Inr (x # ys))"
    using dec_step [OF _ b, of "concat bs @ rest"] Cons.prems(1) by (simp add: eq)
  also have "\<dots> = rbind (rbind (dec rest) (\<lambda>ys. Inr (xs @ ys))) (\<lambda>ys. Inr (x # ys))"
    using Cons.IH [OF _ bs] Cons.prems(1) by simp
  finally show ?case by (cases "dec rest") auto
qed

lemma dec_elements_end:
  assumes "\<And>x. x \<in> set xs \<Longrightarrow> ok x" and "rmap enc xs = Inr bss" and "dec [] = Inr []"
  shows "dec (concat bss) = Inr xs"
  using dec_elements [OF assms(1,2), of "[]"] assms(3) by simp

text \<open>A codec that satisfies the law is injective on the elements it accepts.\<close>

lemma enc_inj:
  assumes "ok x" and "ok y" and "enc x = Inr b" and "enc y = Inr b" and "dec [] = Inr []"
  shows "x = y"
  using dec_step [OF assms(1,3), of "[]"] dec_step [OF assms(2,4), of "[]"] assms(5) by simp

end

end
