(* ===== verification/Bit_Fields.thy ===== *)
theory Bit_Fields
  imports Prelude
begin

unbundle bit_operations_syntax

text \<open>
  Bit fields packed by shifts and disjunctions and read back by shifts and masks: the
  arithmetic of the packed header bytes, each for the value range the encoders accept.
\<close>

lemma field_lo:
  assumes "unat lo < 2 ^ n" shows "take_bit n (push_bit n hi OR lo) = (lo :: 'a::len word)"
  using assms by (auto intro!: bit_word_eqI simp: bit_simps dest: small_word_bit)

lemma field_hi:
  assumes "unat lo < 2 ^ n" and "unat hi < 2 ^ (LENGTH('a) - n)"
  shows "drop_bit n (push_bit n hi OR lo) = (hi :: 'a::len word)"
proof (rule bit_word_eqI)
  fix i assume "i < LENGTH('a)"
  then show "bit (drop_bit n (push_bit n hi OR lo)) i = bit hi i"
    using assms small_word_bit [of lo n "n + i"] small_word_bit [of hi "LENGTH('a) - n" i]
    by (auto simp: bit_simps)
qed

lemma and_numeral_mask:
  "w AND 0x0f = take_bit 4 (w :: byte)" "w AND 3 = take_bit 2 (w :: byte)"
  "v AND 0x1fff = take_bit 13 (v :: u16)" "v AND 0x0fff = take_bit 12 (v :: u16)"
  "d AND 0x000fffff = take_bit 20 (d :: u32)" "d AND 0xff = take_bit 8 (d :: u32)"
  by (simp_all add: take_bit_eq_mask mask_eq_exp_minus_1)

lemma and_numeral_bit:
  "v AND 0x4000 = 0 \<longleftrightarrow> \<not> bit (v :: u16) 14" "v AND 0x2000 = 0 \<longleftrightarrow> \<not> bit v 13"
  "v AND 0x1000 = 0 \<longleftrightarrow> \<not> bit v 12" "v AND 1 = 0 \<longleftrightarrow> \<not> bit v 0"
  using and_exp_eq_0_iff_not_bit [of v 14] and_exp_eq_0_iff_not_bit [of v 13]
    and_exp_eq_0_iff_not_bit [of v 12] and_exp_eq_0_iff_not_bit [of v 0] by simp_all

subsection \<open>IPv4\<close>

lemma ihl_field: "i \<le> 15 \<Longrightarrow> (0x40 OR i) AND 0x0f = (i :: byte)"
  and version_field: "i \<le> 15 \<Longrightarrow> drop_bit 4 (0x40 OR i) = (4 :: byte)"
  using field_lo [of i 4 4] field_hi [of i 4 4] by (simp_all add: and_numeral_mask word_le_nat_alt)

lemma dscp_field: "e \<le> 3 \<Longrightarrow> d \<le> 63 \<Longrightarrow> drop_bit 2 (push_bit 2 d OR e) = (d :: byte)"
  and ecn_field: "e \<le> 3 \<Longrightarrow> (push_bit 2 d OR e) AND 3 = (e :: byte)"
  using field_lo [of e 2 d] field_hi [of e 2 d] by (simp_all add: and_numeral_mask word_le_nat_alt)

lemma fragment_fields:
  fixes off :: u16
  assumes "off \<le> 8191"
  shows "bit (push_bit 14 (of_bool df) OR push_bit 13 (of_bool mf) OR off) 14 = df"
    and "bit (push_bit 14 (of_bool df) OR push_bit 13 (of_bool mf) OR off) 13 = mf"
    and "take_bit 13 (push_bit 14 (of_bool df) OR push_bit 13 (of_bool mf) OR off) = off"
proof -
  have off_bit: "bit off i \<Longrightarrow> i < 13" for i
    using assms small_word_bits [of off 8191 13 i] by simp
  show "bit (push_bit 14 (of_bool df) OR push_bit 13 (of_bool mf) OR off) 14 = df"
    and "bit (push_bit 14 (of_bool df) OR push_bit 13 (of_bool mf) OR off) 13 = mf"
    and "take_bit 13 (push_bit 14 (of_bool df) OR push_bit 13 (of_bool mf) OR off) = off"
    using off_bit [of 14] off_bit [of 13]
    by (auto intro!: bit_word_eqI simp: bit_simps dest: off_bit)
qed

subsection \<open>TCP\<close>

lemma tcp_offset_field: "off \<le> 15 \<Longrightarrow> drop_bit 4 (push_bit 4 off OR (x AND 1)) = (off :: byte)"
  by (rule bit_word_eqI) (auto simp: bit_simps dest: small_word_bits [where n = 4])

lemma tcp_flags_field:
  fixes f :: u16 and off :: byte
  assumes "f \<le> 0x1ff"
  shows "push_bit 8 (ucast ((push_bit 4 off OR (ucast (drop_bit 8 f) AND 1)) AND 1)) OR
     ucast (ucast f :: byte) = f" (is "?w = f")
proof (rule bit_word_eqI)
  fix i assume i: "i < LENGTH(16)"
  have "\<not> bit f i" if "9 \<le> i"
    using that assms small_word_bits [of f "0x1ff" 9 i] by auto
  then show "bit ?w i = bit f i"
    using i by (cases "i < 8"; cases "i = 8") (auto simp: bit_simps)
qed

subsection \<open>IPv6\<close>

lemma ipv6_word_fields:
  fixes tc :: byte and flow :: u32 and version :: u32
  assumes "flow \<le> 0x000fffff" and "version \<le> 15"
  defines "w \<equiv> push_bit 28 version OR push_bit 20 (ucast tc) OR flow"
  shows "ucast (take_bit 8 (drop_bit 20 w)) = tc" and "take_bit 20 w = flow"
    and "drop_bit 4 (ucast (drop_bit 24 w)) = (ucast version :: byte)"
proof -
  have flow_bit: "bit flow i \<Longrightarrow> i < 20" for i
    using assms small_word_bits [of flow "0x000fffff" 20 i] by simp
  then have no_flow: "\<not> bit flow (20 + i)" "\<not> bit flow (24 + i)" "\<not> bit flow (28 + i)" for i
    by fastforce+
  have version_bit: "bit version i \<Longrightarrow> i < 4" for i
    using assms small_word_bits [of version 15 4 i] by simp
  have no_tc: "\<not> bit tc (8 + i)" for i
    using bit_imp_le_length [of tc "8 + i"] by auto
  show "ucast (take_bit 8 (drop_bit 20 w)) = tc" and "take_bit 20 w = flow"
    unfolding w_def
    by (auto intro!: bit_word_eqI simp: bit_simps no_flow dest: flow_bit)
  show "drop_bit 4 (ucast (drop_bit 24 w)) = (ucast version :: byte)"
    unfolding w_def
    by (auto intro!: bit_word_eqI simp: bit_simps no_flow no_tc dest: version_bit)
qed

lemma ipv6_fragment_fields:
  fixes off :: u16
  assumes "off \<le> 8191"
  shows "drop_bit 3 (push_bit 3 off OR of_bool mf) = off"
    and "bit (push_bit 3 off OR of_bool mf) 0 = mf"
proof -
  have off_bit: "bit off i \<Longrightarrow> i < 13" for i
    using assms small_word_bits [of off 8191 13 i] by simp
  show "drop_bit 3 (push_bit 3 off OR of_bool mf) = off"
    by (rule bit_word_eqI) (auto simp: bit_simps dest: off_bit)
  show "bit (push_bit 3 off OR of_bool mf) 0 = mf"
    by (auto simp: bit_simps)
qed

subsection \<open>VLAN\<close>

lemma vlan_fields:
  fixes pri :: byte and vid :: u16 and dei :: bool
  assumes "pri \<le> 7" and "vid \<le> 4095"
  defines "w \<equiv> push_bit 13 (ucast pri) OR push_bit 12 (of_bool dei) OR vid"
  shows "ucast (drop_bit 13 w) = pri" and "bit w 12 = dei" and "take_bit 12 w = vid"
proof -
  have vid_bit: "bit vid i \<Longrightarrow> i < 12" for i
    using assms small_word_bits [of vid 4095 12 i] by simp
  then have no_vid: "\<not> bit vid (13 + i)" for i
    by fastforce
  have pri_bit: "bit pri i \<Longrightarrow> i < 3" for i
    using assms small_word_bits [of pri 7 3 i] by simp
  show "ucast (drop_bit 13 w) = pri" and "bit w 12 = dei" and "take_bit 12 w = vid"
    unfolding w_def using vid_bit [of 12]
    by (auto intro!: bit_word_eqI simp: bit_simps no_vid dest: vid_bit pri_bit)
qed

end
