(* ===== verification/Packet_Roundtrip.thy ===== *)
theory Packet_Roundtrip
  imports Packet_Decode Codec_Spec Bit_Fields
begin

unbundle bit_operations_syntax

text \<open>
  Decoding what the encoder produced. \<open>canonical_packet\<close> says that the fields the encoder
  computes are left to it and that the packet is not itself a fragment; \<open>strip_packet\<close>
  forgets the computed fields, which the decoder reports with their wire values.
\<close>

subsection \<open>TCP options\<close>

fun canonical_option :: "tcp_option \<Rightarrow> bool" where
  "canonical_option (OptUnknown kind dat) =
     (kind \<noteq> 0 \<and> kind \<noteq> 1 \<and> tcp_option_of kind dat = OptUnknown kind dat)"
| "canonical_option _ = True"

lemma sack_blocks_step:
  "sack_blocks (be_bytes 4 l @ be_bytes 4 r @ rest) = (l, r) # sack_blocks rest"
  using be_word_be_bytes [of 4 l] be_word_be_bytes [of 4 r] by (simp add: be_bytes_numeral)

lemma sack_blocks_encode:
  "sack_blocks (concat (map (\<lambda>(l, r). be_bytes 4 l @ be_bytes 4 r) blocks)) = blocks"
  by (induction blocks) (auto simp: sack_blocks_step)

lemma length_sack_bytes:
  "length (concat (map (\<lambda>(l, r). be_bytes 4 (l :: u32) @ be_bytes 4 (r :: u32)) blocks)) = 8 * length blocks"
  by (induction blocks) auto

lemma tcp_option_of_sack:
  assumes "blocks \<noteq> []"
  shows "tcp_option_of 5 (concat (map (\<lambda>(l, r). be_bytes 4 l @ be_bytes 4 r) blocks)) = OptSack blocks"
proof -
  let ?dat = "concat (map (\<lambda>(l, r). be_bytes 4 l @ be_bytes 4 r) blocks) :: bytes"
  have "length ?dat \<noteq> 0" using assms by (simp only: length_sack_bytes) simp
  then have "?dat \<noteq> []" by (simp only: length_0_conv) simp
  then show ?thesis
    unfolding tcp_option_of_def
    by (simp only: length_sack_bytes sack_blocks_encode) simp
qed

declare decode_tcp_options.simps(2) [simp del]

text \<open>Decoding a well-delimited option of a kind with a length byte.\<close>

lemma decode_option_step:
  assumes "kind \<noteq> 0" and "kind \<noteq> 1" and "unat len = 2 + length dat"
  shows "decode_tcp_options (kind # len # dat @ rest) =
    rbind (decode_tcp_options rest) (\<lambda>opts. Inr (tcp_option_of kind dat # opts))"
  using assms by (simp add: decode_tcp_options.simps(2) Let_def codec_simps)

lemma decode_nop_step:
  "decode_tcp_options (1 # rest) = rbind (decode_tcp_options rest) (\<lambda>opts. Inr (OptNop # opts))"
  by (simp add: decode_tcp_options.simps(2))

lemma encode_option_step:
  assumes "canonical_option opt \<and> opt \<noteq> OptEnd" and "encode_tcp_option opt = Inr b"
  shows "decode_tcp_options (b @ rest) =
    rbind (decode_tcp_options rest) (\<lambda>opts. Inr (opt # opts))"
proof (cases opt)
  case (OptMaximumSegmentSize v)
  then show ?thesis
    using assms decode_option_step [of 2 4 "be_bytes 2 v" rest]
    by (auto simp: tcp_option_of_def be_word_be_bytes)
next
  case (OptWindowScale v)
  then show ?thesis
    using assms decode_option_step [of 3 3 "[v]" rest] by (auto simp: tcp_option_of_def)
next
  case (OptSack blocks)
  then have l: "length blocks \<le> 31" and ne: "blocks \<noteq> []"
    using assms by (auto simp: Let_def split: if_splits)
  then have "unat (of_nat (2 + length blocks * 8) :: byte) = 2 + 8 * length blocks"
    by (subst unat_of_nat_byte) simp_all
  then show ?thesis
    using assms OptSack l ne
      decode_option_step [of 5 "of_nat (2 + length blocks * 8)"
        "concat (map (\<lambda>(l, r). be_bytes 4 l @ be_bytes 4 r) blocks)" rest]
    by (auto simp: tcp_option_of_sack length_sack_bytes Let_def split: if_splits)
next
  case (OptTimestamp v echo)
  then show ?thesis
    using assms decode_option_step [of 8 10 "be_bytes 4 v @ be_bytes 4 echo" rest]
    by (auto simp: tcp_option_of_def be_word_be_bytes)
next
  case (OptUnknown kind dat)
  then have "length dat + 2 < 256" and b: "b = kind # of_nat (length dat + 2) # dat"
    using assms by (auto simp: u8_try_from_def split: if_splits)
  then have "unat (of_nat (length dat + 2) :: byte) = 2 + length dat"
    by (subst unat_of_nat_byte) simp_all
  then show ?thesis
    using assms OptUnknown decode_option_step [of kind "of_nat (length dat + 2)" dat rest]
    by (simp add: b)
qed (use assms decode_option_step [of 4 2 "[]" rest] in
    \<open>auto simp: tcp_option_of_def decode_nop_step\<close>)

interpretation opts: element_codec encode_tcp_option decode_tcp_options
    "\<lambda>opt. canonical_option opt \<and> opt \<noteq> OptEnd"
  by unfold_locales (rule encode_option_step)

lemma decode_end_option: "decode_tcp_options (0 # rest) = Inr [OptEnd]"
  by (simp add: decode_tcp_options.simps(2))

lemma decode_encoded_options:
  assumes "\<forall>opt \<in> set opts. canonical_option opt" and "encode_tcp_options opts = Inr raw"
    and "length raw \<le> n"
  shows "\<exists>opts'. decode_tcp_options (vec_resize n raw) = Inr opts' \<and>
    takeWhile (\<lambda>opt. opt \<noteq> OptEnd) opts' = takeWhile (\<lambda>opt. opt \<noteq> OptEnd) opts"
proof -
  let ?live = "takeWhile (\<lambda>opt. opt \<noteq> OptEnd) opts"
  let ?dead = "dropWhile (\<lambda>opt. opt \<noteq> OptEnd) opts"
  obtain b1 b2 where b1: "rmap encode_tcp_option ?live = Inr b1"
    and b2: "rmap encode_tcp_option ?dead = Inr b2" and raw: "raw = concat b1 @ concat b2"
    using assms(2) rmap_append [of encode_tcp_option ?live ?dead]
    by (auto simp: encode_tcp_options_def)
  have live: "canonical_option opt \<and> opt \<noteq> OptEnd" if "opt \<in> set ?live" for opt
    using that assms(1) by (auto dest: set_takeWhileD)
  let ?tail = "concat b2 @ replicate (n - length raw) 0"
  have dec: "decode_tcp_options (vec_resize n raw) =
      rbind (decode_tcp_options ?tail) (\<lambda>opts. Inr (?live @ opts))"
    using opts.dec_elements [OF live b1, of ?tail] assms(3) by (simp add: vec_resize_ge raw)
  have "decode_tcp_options ?tail = Inr [] \<or> decode_tcp_options ?tail = Inr [OptEnd]"
  proof (cases ?dead)
    case Nil
    with b2 have "b2 = []" by (simp only: Nil) simp
    then show ?thesis
      using decode_end_option by (cases "n - length raw") auto
  next
    case (Cons opt dead)
    then have "opt = OptEnd" by (auto simp: dropWhile_eq_Cons_conv)
    then show ?thesis
      using b2 Cons decode_end_option by auto
  qed
  then show ?thesis
    using dec live by (auto simp: takeWhile_append2 simp del: takeWhile_eq_all_conv)
qed

subsection \<open>Transport headers\<close>

fun addresses :: "network_header \<Rightarrow> ipv4_addr \<times> ipv4_addr + ipv6_addr \<times> ipv6_addr" where
  "addresses (NetIpv4 h) = Inl (v4_source h, v4_destination h)"
| "addresses (NetIpv6 h) = Inr (v6_source h, v6_destination h)"

lemma pseudo_header_sum_cong:
  "addresses n = addresses n' \<Longrightarrow> pseudo_header_sum n pr len = pseudo_header_sum n' pr len"
  by (cases n; cases n') auto

lemma transport_checksum_cong:
  "addresses n = addresses n' \<Longrightarrow> transport_checksum n pr seg = transport_checksum n' pr seg"
  by (simp add: transport_checksum_def pseudo_header_sum_cong [of n n'])

lemma transport_checksum_eq:
  assumes "transport_checksum n pr seg = Inr c" and "length seg' = length seg" and "len = length seg"
  shows "transport_checksum n pr seg' = Inr (checksum_finish (checksum_add (pseudo_header_sum n pr len) seg'))"
  using assms by (auto simp: transport_checksum_def u32_try_from_def unat_of_nat split: if_splits)

definition strip_tcp :: "tcp_header \<Rightarrow> tcp_header" where
  "strip_tcp h = h\<lparr>tcp_options := takeWhile (\<lambda>opt. opt \<noteq> OptEnd) (tcp_options h),
     tcp_data_offset := None, tcp_checksum := CsAuto\<rparr>"

definition strip_udp :: "udp_header \<Rightarrow> udp_header" where
  "strip_udp h = h\<lparr>udp_length := None, udp_checksum := CsAuto\<rparr>"

text \<open>
  What a receiver may conclude from a checksum field: an automatic one is valid; one made
  invalid on purpose is caught, unless the field is the value \<open>undetected\<close>.
\<close>

fun checksum_verdict :: "checksum \<Rightarrow> u16 \<Rightarrow> u16 \<Rightarrow> bool \<Rightarrow> bool" where
  "checksum_verdict CsAuto field undetected v \<longleftrightarrow> v"
| "checksum_verdict CsInvalid field undetected v \<longleftrightarrow> (v \<longleftrightarrow> field = undetected)"
| "checksum_verdict (CsValue c) field undetected v \<longleftrightarrow> field = c"

fun transport_verdict :: "transport_header \<Rightarrow> transport_header \<Rightarrow> bool \<Rightarrow> bool" where
  "transport_verdict (TransTcp h) (TransTcp h') v \<longleftrightarrow>
     checksum_verdict (tcp_checksum h) (checksum_number (tcp_checksum h')) 0xffff v"
| "transport_verdict (TransUdp h) (TransUdp h') v \<longleftrightarrow>
     checksum_verdict (udp_checksum h) (checksum_number (udp_checksum h')) 0 v"
| "transport_verdict _ _ v \<longleftrightarrow> False"

definition canonical_tcp :: "tcp_header \<Rightarrow> bool" where
  "canonical_tcp h \<longleftrightarrow>
     tcp_data_offset h = None \<and> (\<forall>opt \<in> set (tcp_options h). canonical_option opt)"

text \<open>What a TCP encoding is: the options padded to a multiple of four, at most forty bytes.\<close>

lemma encode_tcp_shape:
  assumes "encode_tcp n h payload = Inr t" and "tcp_data_offset h = None"
  obtains raw options off calc where
    "encode_tcp_options (tcp_options h) = Inr raw"
    and "options = vec_resize (pad4 (length raw)) raw"
    and "unat off * 4 = 20 + length options" and "5 \<le> off" and "off \<le> 15" and "tcp_flags h \<le> 0x1ff"
    and "transport_checksum n IP_PROTOCOL_TCP
      (with_field (tcp_prefix h off) 0 (tcp_suffix h options) @ payload) = Inr calc"
    and "t = with_field (tcp_prefix h off) (resolve (tcp_checksum h) calc) (tcp_suffix h options)"
proof -
  from assms obtain raw calc where flags: "tcp_flags h \<le> 0x1ff"
    and raw: "encode_tcp_options (tcp_options h) = Inr raw"
    and len: "pad4 (length raw) \<le> 40"
    and calc: "transport_checksum n IP_PROTOCOL_TCP (with_field
        (tcp_prefix h (of_nat (5 + pad4 (length raw) div 4))) 0
        (tcp_suffix h (vec_resize (pad4 (length raw)) raw)) @ payload) = Inr calc"
    and t: "t = with_field (tcp_prefix h (of_nat (5 + pad4 (length raw) div 4)))
        (resolve (tcp_checksum h) calc) (tcp_suffix h (vec_resize (pad4 (length raw)) raw))"
    by (auto simp: encode_tcp_def Let_def not_less split: if_splits)
  let ?off = "of_nat (5 + pad4 (length raw) div 4) :: byte"
  have off: "unat ?off = 5 + pad4 (length raw) div 4"
    using len by (subst unat_of_nat_byte) auto
  have "unat ?off * 4 = 20 + pad4 (length raw)"
    using pad4_dvd by (simp only: off) simp
  moreover have "5 \<le> ?off" and "?off \<le> 15"
    unfolding word_le_nat_alt off using len by simp_all
  ultimately show thesis
    by (intro that [OF raw refl _ _ _ flags calc t]) simp_all
qed

lemma length_tcp_prefix [simp]: "length (tcp_prefix h off) = 16"
  by (simp add: tcp_prefix_def)

lemma length_tcp_suffix [simp]: "length (tcp_suffix h options) = 2 + length options"
  by (simp add: tcp_suffix_def)

lemma length_with_field [simp]: "length (with_field pre w post) = length pre + 2 + length post"
  by (simp add: with_field_def)

lemma with_field_append [simp]: "with_field pre w post @ rest = with_field pre w (post @ rest)"
  by (simp add: with_field_def)

context checksum_slot
begin

lemma verdict:
  fixes cs :: checksum
  defines "calc \<equiv> checksum_finish (checksum_add base (with_field pre 0 post))"
  shows "checksum_verdict cs (resolve cs calc) 0xffff
    (checksum_finish (checksum_add base (with_field pre (resolve cs calc) post)) = 0)"
proof (cases cs)
  case CsAuto
  then show ?thesis using auto_verifies by (simp add: calc_def)
next
  case CsInvalid
  then show ?thesis using invalid_verifies_iff by (simp add: calc_def xor_ffff not_eq_ffff)
qed simp

end

text \<open>The segment that is summed is a checksum slot, whatever the pseudo header adds.\<close>

interpretation tcp_slot: checksum_slot base "tcp_prefix h off" post for base h off post
  by unfold_locales simp

interpretation udp_slot: checksum_slot base "udp_prefix h len" post for base h len post
  by unfold_locales (simp add: udp_prefix_def)

interpretation ipv4_slot: checksum_slot 0 "ipv4_prefix h pr ihl len" post for h pr ihl len post
  by unfold_locales (simp add: ipv4_prefix_def)

lemma decode_tcp_fields:
  assumes "unat off * 4 = 20 + length options" and "5 \<le> off" and "off \<le> 15"
    and "tcp_flags h \<le> 0x1ff" and "decode_tcp_options options = Inr opts"
    and "transport_checksum n IP_PROTOCOL_TCP
      (with_field (tcp_prefix h off) cs (tcp_suffix h options @ payload)) = Inr c"
  shows "decode_tcp n (with_field (tcp_prefix h off) cs (tcp_suffix h options @ payload)) False =
    Inr (Some (TransTcp (h\<lparr>tcp_options := opts, tcp_data_offset := Some off,
      tcp_checksum := CsValue cs\<rparr>)), payload, Some (c = 0))"
proof -
  let ?bs = "with_field (tcp_prefix h off) cs (tcp_suffix h options @ payload)"
  have "\<not> length ?bs < 20" and "\<not> length ?bs < unat off * 4"
    using assms(1) by simp_all
  moreover define b12 where "b12 = push_bit 4 off OR (ucast (drop_bit 8 (tcp_flags h)) AND 1)"
  then have "byte_at ?bs 12 = (Inr b12 :: byte pres)"
    and "byte_at ?bs 13 = (Inr (ucast (tcp_flags h)) :: byte pres)"
    and "be_at 2 ?bs 0 = (Inr (tcp_source_port h) :: u16 pres)"
    and "be_at 2 ?bs 2 = (Inr (tcp_destination_port h) :: u16 pres)"
    and "be_at 4 ?bs 4 = (Inr (tcp_sequence h) :: u32 pres)"
    and "be_at 4 ?bs 8 = (Inr (tcp_acknowledgment h) :: u32 pres)"
    and "be_at 2 ?bs 14 = (Inr (tcp_window h) :: u16 pres)"
    and "be_at 2 ?bs 18 = (Inr (tcp_urgent_pointer h) :: u16 pres)"
    and "be_at 2 ?bs 16 = (Inr cs :: u16 pres)"
    by (simp_all add: with_field_def tcp_prefix_def tcp_suffix_def codec_simps del: byte_at_in)
  moreover have "slice ?bs 20 (unat off * 4) = (Inr options :: bytes pres)"
    and "slice ?bs (unat off * 4) (length ?bs) = (Inr payload :: bytes pres)"
    using assms(1) by (simp_all add: with_field_def tcp_suffix_def slice_def)
  moreover have "drop_bit 4 b12 = off"
    using assms(3) unfolding b12_def by (rule tcp_offset_field)
  moreover have "push_bit 8 (ucast (b12 AND 1)) OR ucast (ucast (tcp_flags h) :: byte) = tcp_flags h"
    using assms(4) unfolding b12_def by (rule tcp_flags_field)
  ultimately show ?thesis
    unfolding decode_tcp_def Let_def
    using assms(2,5,6) by (simp del: length_with_field byte_at_in slice_in)
qed

lemma decode_encoded_tcp:
  assumes enc: "encode_tcp n h payload = Inr t" and can: "canonical_tcp h"
    and adr: "addresses n = addresses n'"
  shows "\<exists>h' v. decode_tcp n' (t @ payload) False = Inr (Some (TransTcp h'), payload, Some v) \<and>
    strip_tcp h' = strip_tcp h \<and> transport_verdict (TransTcp h) (TransTcp h') v"
proof -
  from can have "tcp_data_offset h = None"
    and opt: "\<forall>opt \<in> set (tcp_options h). canonical_option opt"
    by (auto simp: canonical_tcp_def)
  from encode_tcp_shape [OF enc this(1)] obtain raw options off calc
    where raw: "encode_tcp_options (tcp_options h) = Inr raw"
    and options: "options = vec_resize (pad4 (length raw)) raw"
    and off: "unat off * 4 = 20 + length options" "5 \<le> off" "off \<le> 15" "tcp_flags h \<le> 0x1ff"
    and calc: "transport_checksum n IP_PROTOCOL_TCP
      (with_field (tcp_prefix h off) 0 (tcp_suffix h options) @ payload) = Inr calc"
    and t: "t = with_field (tcp_prefix h off) (resolve (tcp_checksum h) calc) (tcp_suffix h options)" .
  obtain opts where opts: "decode_tcp_options options = Inr opts"
    and strip: "takeWhile (\<lambda>opt. opt \<noteq> OptEnd) opts = takeWhile (\<lambda>opt. opt \<noteq> OptEnd) (tcp_options h)"
    using decode_encoded_options [OF opt raw pad4_ge] options by blast
  define post where "post = tcp_suffix h options @ payload"
  define base where "base = pseudo_header_sum n IP_PROTOCOL_TCP (length (with_field (tcp_prefix h off) 0 post))"
  have sum: "transport_checksum n IP_PROTOCOL_TCP (with_field (tcp_prefix h off) w post) =
      Inr (checksum_finish (checksum_add base (with_field (tcp_prefix h off) w post)))" for w
    unfolding base_def by (rule transport_checksum_eq [OF calc]) (simp_all add: post_def)
  then have c: "calc = checksum_finish (checksum_add base (with_field (tcp_prefix h off) 0 post))"
    using calc by (simp add: post_def)
  let ?w = "resolve (tcp_checksum h) calc"
  have "checksum_verdict (tcp_checksum h) ?w 0xffff
      (checksum_finish (checksum_add base (with_field (tcp_prefix h off) ?w post)) = 0)"
    unfolding c by (rule tcp_slot.verdict)
  moreover note decode_tcp_fields [OF off opts, of n' "resolve (tcp_checksum h) calc" payload]
  ultimately show ?thesis
    using sum [of "resolve (tcp_checksum h) calc"] strip transport_checksum_cong [OF adr]
    by (simp add: t post_def strip_tcp_def)
qed

lemma length_udp_prefix [simp]: "length (udp_prefix h len) = 6"
  by (simp add: udp_prefix_def)

lemma udp_verdict:
  fixes cs :: checksum and h len base post
  defines "calc \<equiv> checksum_finish (checksum_add base (with_field (udp_prefix h len) 0 post))"
  defines "field \<equiv> resolve cs (if calc = 0 then 0xffff else calc)"
  assumes "0 < base"
  shows "checksum_verdict cs field 0 (field = 0 \<and> zero_ok \<or>
    checksum_finish (checksum_add base (with_field (udp_prefix h len) field post)) = 0)"
proof (cases "calc = 0")
  case True
  let ?t = "checksum_add base (with_field (udp_prefix h len) 0 post)"
  have "0 < ?t" and "?t mod 65535 = 0"
    using True checksum_finish_eq_0 [of ?t] by (simp_all add: calc_def)
  moreover from this have "(?t + 65535) mod 65535 = 0"
    by (simp add: mod_add_self2)
  ultimately show ?thesis
    using True by (cases cs) (simp_all add: field_def udp_slot.value_verifies_iff)
next
  case False
  have "calc \<noteq> 0xffff"
    using assms(3) checksum_add_base [of base] by (simp add: calc_def checksum_finish_eq_ffff)
  then have "calc XOR 0xffff \<noteq> 0"
    by (metis not_eq_ffff xor_ffff bit.double_compl)
  then show ?thesis
    using False udp_slot.auto_verifies [of base h len post] udp_slot.invalid_verifies_iff [of base h len post]
    by (cases cs) (auto simp: field_def calc_def)
qed

lemma decode_udp_fields:
  assumes "unat len = 8 + length payload"
    and "transport_checksum n IP_PROTOCOL_UDP (with_field (udp_prefix h len) cs payload) = Inr c"
  shows "decode_udp n (with_field (udp_prefix h len) cs payload) False =
    Inr (Some (TransUdp (h\<lparr>udp_length := Some len, udp_checksum := CsValue cs\<rparr>)), payload,
      Some (cs = 0 \<and> (case n of NetIpv4 _ \<Rightarrow> True | NetIpv6 _ \<Rightarrow> False) \<or> c = 0))"
proof -
  let ?bs = "with_field (udp_prefix h len) cs payload"
  have len: "length ?bs = 8 + length payload" by simp
  have "be_at 2 ?bs 0 = (Inr (udp_source_port h) :: u16 pres)"
    and "be_at 2 ?bs 2 = (Inr (udp_destination_port h) :: u16 pres)"
    and "be_at 2 ?bs 4 = (Inr len :: u16 pres)"
    and "be_at 2 ?bs 6 = (Inr cs :: u16 pres)"
    by (simp_all add: with_field_def udp_prefix_def codec_simps)
  moreover have "slice ?bs 8 (8 + length payload) = (Inr payload :: bytes pres)"
    by (simp add: with_field_def slice_def)
  moreover have "(of_nat (8 + length payload) :: u16) = len"
    using arg_cong [OF assms(1), of "of_nat :: nat \<Rightarrow> u16"] by simp
  moreover have "slice ?bs 0 (8 + length payload) = (Inr ?bs :: bytes pres)"
    using len by (simp only: slice_def) simp
  ultimately show ?thesis
    unfolding decode_udp_def Let_def
    using assms by (auto simp del: slice_in length_with_field of_nat_add simp add: len)
qed

lemma decode_encoded_udp:
  assumes enc: "encode_udp n h payload = Inr t" and can: "udp_length h = None"
    and adr: "addresses n = addresses n'"
  shows "\<exists>h' v. decode_udp n' (t @ payload) False = Inr (Some (TransUdp h'), payload, Some v) \<and>
    strip_udp h' = strip_udp h \<and> transport_verdict (TransUdp h) (TransUdp h') v"
proof -
  define len where "len = (of_nat (8 + length payload) :: u16)"
  define base where "base = pseudo_header_sum n IP_PROTOCOL_UDP (8 + length payload)"
  from enc can obtain calc where short: "8 + length payload < 65536"
    and calc: "transport_checksum n IP_PROTOCOL_UDP (with_field (udp_prefix h len) 0 payload) = Inr calc"
    and t: "t = with_field (udp_prefix h len)
      (resolve (udp_checksum h) (if calc = 0 then 0xffff else calc)) []"
    by (auto simp: encode_udp_def u16_try_from_def Let_def len_def split: if_splits)
  have len: "unat len = 8 + length payload"
    unfolding len_def by (rule unat_of_nat_u16 [OF short])
  have sum: "transport_checksum n' IP_PROTOCOL_UDP (with_field (udp_prefix h len) w payload) =
      Inr (checksum_finish (checksum_add base (with_field (udp_prefix h len) w payload)))" for w
    unfolding base_def transport_checksum_cong [OF adr, symmetric]
    by (rule transport_checksum_eq [OF calc]) simp_all
  then have c: "calc = checksum_finish (checksum_add base (with_field (udp_prefix h len) 0 payload))"
    using calc transport_checksum_cong [OF adr] by simp
  have "0 < base"
    unfolding base_def by (cases n) (simp_all add: packet_consts)
  then show ?thesis
    using udp_verdict [of base "udp_checksum h" h len payload, folded c] decode_udp_fields [OF len sum]
    by (auto simp: t strip_udp_def)
qed

subsection \<open>Network headers\<close>

definition strip_ipv4 :: "ipv4_header \<Rightarrow> ipv4_header" where
  "strip_ipv4 h = h\<lparr>v4_protocol := None,
     v4_options := vec_resize (pad4 (length (v4_options h))) (v4_options h),
     v4_ihl := None, v4_total_length := None, v4_checksum := CsAuto\<rparr>"

definition strip_ipv6 :: "ipv6_header \<Rightarrow> ipv6_header" where
  "strip_ipv6 h = h\<lparr>v6_payload_length := None, v6_next_header := None\<rparr>"

lemma length_ipv4_prefix [simp]: "length (ipv4_prefix h pr ihl len) = 10"
  by (simp add: ipv4_prefix_def)

lemma length_ipv4_suffix [simp]: "length (ipv4_suffix h options) = 8 + length options"
  by (simp add: ipv4_suffix_def)

lemma encode_ipv4_shape:
  assumes "encode_ipv4 h pr payload = Inr ip" and "v4_ihl h = None"
  obtains options ihl len cs where
    "options = vec_resize (pad4 (length (v4_options h))) (v4_options h)"
    and "unat ihl * 4 = 20 + length options" and "5 \<le> ihl" and "ihl \<le> 15"
    and "v4_dscp h \<le> 63" and "v4_ecn h \<le> 3" and "v4_fragment_offset h \<le> 8191"
    and "20 + length options + length payload < 65536"
    and "len = unwrap_or (of_nat (20 + length options + length payload)) (v4_total_length h)"
    and "cs = resolve (v4_checksum h)
      (internet_checksum (with_field (ipv4_prefix h pr ihl len) 0 (ipv4_suffix h options)))"
    and "ip = with_field (ipv4_prefix h pr ihl len) cs (ipv4_suffix h options) @ payload"
proof -
  let ?n = "pad4 (length (v4_options h))"
  let ?ihl = "of_nat (5 + ?n div 4) :: byte"
  have n: "length (v4_options h) \<le> 40 \<Longrightarrow> ?n \<le> 40"
    using pad4_le [of "length (v4_options h)" 10] by simp
  from assms have range: "v4_dscp h \<le> 63" "v4_ecn h \<le> 3" "v4_fragment_offset h \<le> 8191"
    and opt: "length (v4_options h) \<le> 40" and small: "20 + ?n + length payload < 65536"
    and ip: "ip = (let len = unwrap_or (of_nat (20 + ?n + length payload)) (v4_total_length h);
        pre = ipv4_prefix h pr ?ihl len;
        post = ipv4_suffix h (vec_resize ?n (v4_options h))
      in with_field pre (resolve (v4_checksum h) (internet_checksum (with_field pre 0 post))) post @ payload)"
    by (auto simp: encode_ipv4_def Let_def usize_checked_add_def u16_try_from_def not_less
        split: if_splits Option.bind_splits)
  have ihl: "unat ?ihl = 5 + ?n div 4"
    using n [OF opt] by (subst unat_of_nat_byte) auto
  have "unat ?ihl * 4 = 20 + ?n"
    using pad4_dvd by (simp only: ihl) simp
  moreover have "5 \<le> ?ihl" and "?ihl \<le> 15"
    unfolding word_le_nat_alt ihl using n [OF opt] by simp_all
  ultimately show thesis
    by (intro that [OF refl _ _ _ range _ refl refl]) (use small ip in \<open>simp_all add: Let_def\<close>)
qed

lemma decode_ipv4_fields:
  fixes h pr ihl len cs options payload trailing
  defines "bs \<equiv> with_field (ipv4_prefix h pr ihl len) cs (ipv4_suffix h options) @ payload @ trailing"
    and "proto \<equiv> unwrap_or pr (v4_protocol h)"
    and "h' \<equiv> h\<lparr>v4_protocol := Some (unwrap_or pr (v4_protocol h)), v4_options := options,
      v4_ihl := Some ihl, v4_total_length := Some len, v4_checksum := CsValue cs\<rparr>"
    and "fragmented \<equiv> v4_fragment_offset h \<noteq> 0 \<or> v4_more_fragments h"
  assumes ihl: "unat ihl * 4 = 20 + length options" "5 \<le> ihl" "ihl \<le> 15"
    and range: "v4_dscp h \<le> 63" "v4_ecn h \<le> 3" "v4_fragment_offset h \<le> 8191"
    and len: "unat len = 20 + length options + length payload"
  shows "decode_ipv4 bs eth =
    rbind (decode_payload
        (fragmented \<and> (v4_fragment_offset h \<noteq> 0 \<or> \<not> complete_transport_header proto payload))
        (NetIpv4 h') proto payload fragmented)
      (\<lambda>(t, p, v). Inr \<lparr>dec_packet = \<lparr>pkt_ethernet = eth, pkt_network = NetIpv4 h',
           pkt_transport = t, pkt_payload = p\<rparr>, dec_network_payload = payload,
         dec_ipv4_checksum_valid =
           Some (internet_checksum (with_field (ipv4_prefix h pr ihl len) cs (ipv4_suffix h options)) = 0),
         dec_transport_checksum_valid = v, dec_trailing = trailing\<rparr>)"
proof -
  define b0 where "b0 = 0x40 OR ihl"
  define b1 where "b1 = push_bit 2 (v4_dscp h) OR v4_ecn h"
  define fr where "fr = push_bit 14 (of_bool (v4_dont_fragment h)) OR
      push_bit 13 (of_bool (v4_more_fragments h)) OR v4_fragment_offset h"
  have bs_len: "length bs = 20 + length options + length payload + length trailing"
    by (simp add: bs_def)
  have fields: "byte_at bs 0 = (Inr b0 :: byte pres)" "byte_at bs 1 = (Inr b1 :: byte pres)"
    "be_at 2 bs 2 = (Inr len :: u16 pres)" "be_at 2 bs 4 = (Inr (v4_identification h) :: u16 pres)"
    "be_at 2 bs 6 = (Inr fr :: u16 pres)" "byte_at bs 8 = (Inr (v4_ttl h) :: byte pres)"
    "byte_at bs 9 = (Inr proto :: byte pres)" "be_at 2 bs 10 = (Inr cs :: u16 pres)"
    "be_at 4 bs 12 = (Inr (v4_source h) :: u32 pres)"
    "be_at 4 bs 16 = (Inr (v4_destination h) :: u32 pres)"
    by (simp_all add: bs_def b0_def b1_def fr_def proto_def with_field_def ipv4_prefix_def
        ipv4_suffix_def codec_simps del: byte_at_in)
  have slices: "slice bs 20 (20 + length options) = (Inr options :: bytes pres)"
    "slice bs 0 (20 + length options) = (Inr (with_field (ipv4_prefix h pr ihl len) cs
       (ipv4_suffix h options)) :: bytes pres)"
    "slice bs (20 + length options) (20 + length options + length payload) = (Inr payload :: bytes pres)"
    "slice bs (20 + length options + length payload)
       (20 + length options + length payload + length trailing) = (Inr trailing :: bytes pres)"
    by (simp_all add: bs_def with_field_def ipv4_suffix_def slice_def)
  have bits: "b0 AND 0x0f = ihl" "drop_bit 2 b1 = v4_dscp h" "b1 AND 3 = v4_ecn h"
    "fr AND 0x4000 = 0 \<longleftrightarrow> \<not> v4_dont_fragment h" "fr AND 0x2000 = 0 \<longleftrightarrow> \<not> v4_more_fragments h"
    "fr AND 0x1fff = v4_fragment_offset h"
    unfolding b0_def b1_def fr_def and_numeral_bit and_numeral_mask(3)
    by (simp_all only: ihl_field [OF ihl(3)] dscp_field [OF range(2,1)] ecn_field [OF range(2)]
        fragment_fields [OF range(3)])
  have same: "(of_nat (20 + length options + length payload) :: u16) = len"
    using arg_cong [OF len, of "of_nat :: nat \<Rightarrow> u16"] by simp
  have header: "\<lparr>v4_dscp = v4_dscp h, v4_ecn = v4_ecn h, v4_identification = v4_identification h,
      v4_dont_fragment = v4_dont_fragment h, v4_more_fragments = v4_more_fragments h,
      v4_fragment_offset = v4_fragment_offset h, v4_ttl = v4_ttl h, v4_protocol = Some proto,
      v4_source = v4_source h, v4_destination = v4_destination h, v4_options = options,
      v4_ihl = Some ihl, v4_total_length = Some len, v4_checksum = CsValue cs\<rparr> = h'"
    unfolding h'_def proto_def by (cases h) simp
  have "\<not> ihl < 5" using ihl(2) by simp
  then show ?thesis
    unfolding decode_ipv4_def Let_def fragmented_def
    by (simp add: fields slices bits same bs_len ihl(1) len header
        del: byte_at_in slice_in length_with_field of_nat_add One_nat_def)
qed

lemma encode_ipv6_shape:
  assumes "encode_ipv6 h pr payload = Inr ip" and "v6_payload_length h = None"
  obtains len :: u16 and ext where "unat len = length ext + length payload" and "v6_flow_label h \<le> 0x000fffff"
    and "ext = (case v6_fragment h of None \<Rightarrow> [] | Some f \<Rightarrow> ipv6_fragment_bytes f)"
    and "\<And>f. v6_fragment h = Some f \<Longrightarrow> frag_offset f \<le> 8191"
    and "ip = be_bytes 4 (ipv6_first_word h) @ be_bytes 2 len @
      [if v6_fragment h \<noteq> None then IP_PROTOCOL_FRAGMENT else unwrap_or pr (v6_next_header h),
       v6_hop_limit h] @ be_bytes 16 (v6_source h) @ be_bytes 16 (v6_destination h) @ ext @ payload"
proof -
  let ?ext = "case v6_fragment h of None \<Rightarrow> [] | Some f \<Rightarrow> ipv6_fragment_bytes f"
  have "length (ipv6_fragment_bytes f) = 8" for f
    by (simp add: ipv6_fragment_bytes_def)
  then have small: "length ?ext + length payload < 65536"
    using assms by (auto simp: encode_ipv6_def Let_def u16_try_from_def split: if_splits option.splits)
  have "unat (of_nat (length ?ext + length payload) :: u16) = length ?ext + length payload"
    by (rule unat_of_nat_u16 [OF small])
  then show thesis
    using assms by (intro that [OF _ _ refl, where len = "of_nat (length ?ext + length payload)"])
      (auto simp: encode_ipv6_def Let_def u16_try_from_def not_less ipv6_fragment_bytes_def
        split: if_splits option.splits)
qed

lemma ipv6_first_word_fields:
  assumes "v6_flow_label h \<le> 0x000fffff"
  shows "ucast (drop_bit 20 (ipv6_first_word h) AND 0xff) = v6_traffic_class h"
    and "ipv6_first_word h AND 0x000fffff = v6_flow_label h"
    and "drop_bit 4 (ucast (drop_bit 24 (ipv6_first_word h)) :: byte) = 6"
proof -
  have "v6_flow_label h AND 0x000fffff = v6_flow_label h"
    using assms field_lo [of "v6_flow_label h" 20 0] by (simp add: and_numeral_mask word_le_nat_alt)
  then have w: "ipv6_first_word h =
      push_bit 28 6 OR push_bit 20 (ucast (v6_traffic_class h)) OR v6_flow_label h"
    by (simp add: ipv6_first_word_def)
  show "ucast (drop_bit 20 (ipv6_first_word h) AND 0xff) = v6_traffic_class h"
    and "ipv6_first_word h AND 0x000fffff = v6_flow_label h"
    and "drop_bit 4 (ucast (drop_bit 24 (ipv6_first_word h)) :: byte) = 6"
    unfolding w and_numeral_mask using ipv6_word_fields [OF assms, of 6 "v6_traffic_class h"]
    by (simp_all only: word_le_nat_alt) simp_all
qed

lemma length_ipv6_fragment_bytes [simp]: "length (ipv6_fragment_bytes f) = 8"
  by (simp add: ipv6_fragment_bytes_def)

lemma decode_ipv6_extension:
  fixes h fixed rest
  defines "ext \<equiv> case v6_fragment h of None \<Rightarrow> [] | Some f \<Rightarrow> ipv6_fragment_bytes f"
  assumes "length fixed = 40" and "40 + length ext \<le> tot"
    and "\<And>f. v6_fragment h = Some f \<Longrightarrow> frag_offset f \<le> 8191 \<and> b6 = IP_PROTOCOL_FRAGMENT"
    and "v6_fragment h = None \<Longrightarrow> b6 \<noteq> IP_PROTOCOL_FRAGMENT"
  shows "decode_ipv6_fragment (fixed @ ext @ rest) tot b6 =
    Inr (case v6_fragment h of None \<Rightarrow> b6 | Some f \<Rightarrow> frag_next_header f, 40 + length ext, v6_fragment h)"
proof (cases "v6_fragment h")
  case None
  then show ?thesis
    using assms by (simp add: decode_ipv6_fragment_def)
next
  case (Some f)
  define bits where "bits = push_bit 3 (frag_offset f) OR of_bool (frag_more_fragments f)"
  let ?bs = "fixed @ ipv6_fragment_bytes f @ rest"
  have off: "frag_offset f \<le> 8191" and b6: "b6 = IP_PROTOCOL_FRAGMENT"
    using assms(4) Some by auto
  have fields: "byte_at ?bs 40 = (Inr (frag_next_header f) :: byte pres)"
    "be_at 2 ?bs 42 = (Inr bits :: u16 pres)"
    "be_at 4 ?bs 44 = (Inr (frag_identification f) :: u32 pres)"
    using assms(2) by (simp_all add: ipv6_fragment_bytes_def codec_simps bits_def del: byte_at_in)
  have bits: "drop_bit 3 bits = frag_offset f" "bits AND 1 = 0 \<longleftrightarrow> \<not> frag_more_fragments f"
    unfolding bits_def and_numeral_bit(4) using ipv6_fragment_fields [OF off] by blast+
  show ?thesis
    using assms(3) Some
    by (simp add: decode_ipv6_fragment_def ext_def b6 fields bits del: byte_at_in)
qed

lemma decode_ipv6_fields:
  fixes h len b6 ext payload trailing eth
  defines "bs \<equiv> be_bytes 4 (ipv6_first_word h) @ be_bytes 2 len @ [b6, v6_hop_limit h] @
      be_bytes 16 (v6_source h) @ be_bytes 16 (v6_destination h) @ ext @ payload @ trailing"
    and "proto \<equiv> case v6_fragment h of None \<Rightarrow> b6 | Some f \<Rightarrow> frag_next_header f"
    and "h' \<equiv> h\<lparr>v6_payload_length := Some len, v6_next_header := Some b6\<rparr>"
  assumes ext: "ext = (case v6_fragment h of None \<Rightarrow> [] | Some f \<Rightarrow> ipv6_fragment_bytes f)"
    and len: "unat (len :: u16) = length ext + length payload"
    and flow: "v6_flow_label h \<le> 0x000fffff"
    and frag: "\<And>f. v6_fragment h = Some f \<Longrightarrow> frag_offset f \<le> 8191 \<and> b6 = IP_PROTOCOL_FRAGMENT"
    and nofrag: "v6_fragment h = None \<Longrightarrow> b6 \<noteq> IP_PROTOCOL_FRAGMENT"
  shows "decode_ipv6 bs eth =
    rbind (decode_payload
        (case v6_fragment h of None \<Rightarrow> False
         | Some f \<Rightarrow> frag_offset f \<noteq> 0 \<or> \<not> complete_transport_header proto payload)
        (NetIpv6 h') proto payload
        (case v6_fragment h of None \<Rightarrow> False | Some f \<Rightarrow> frag_offset f \<noteq> 0 \<or> frag_more_fragments f))
      (\<lambda>(t, p, v). Inr \<lparr>dec_packet = \<lparr>pkt_ethernet = eth, pkt_network = NetIpv6 h',
           pkt_transport = t, pkt_payload = p\<rparr>, dec_network_payload = payload,
         dec_ipv4_checksum_valid = None, dec_transport_checksum_valid = v,
         dec_trailing = trailing\<rparr>)"
proof -
  have bs_len: "length bs = 40 + length ext + length payload + length trailing"
    by (simp add: bs_def)
  have fields: "be_at 4 bs 0 = (Inr (ipv6_first_word h) :: u32 pres)"
    "be_at 2 bs 4 = (Inr len :: u16 pres)" "byte_at bs 6 = (Inr b6 :: byte pres)"
    "byte_at bs 7 = (Inr (v6_hop_limit h) :: byte pres)"
    "be_at 16 bs 8 = (Inr (v6_source h) :: ipv6_addr pres)"
    "be_at 16 bs 24 = (Inr (v6_destination h) :: ipv6_addr pres)"
    by (simp_all add: bs_def codec_simps del: byte_at_in)
  have fragment: "decode_ipv6_fragment bs (40 + (length ext + length payload)) b6 =
      Inr (proto, 40 + length ext, v6_fragment h)"
    using decode_ipv6_extension [of "be_bytes 4 (ipv6_first_word h) @ be_bytes 2 len @
        [b6, v6_hop_limit h] @ be_bytes 16 (v6_source h) @ be_bytes 16 (v6_destination h)" h
        "40 + (length ext + length payload)" b6 "payload @ trailing", folded ext, OF _ _ frag nofrag]
    by (simp add: bs_def proto_def)
  have slices: "slice bs (40 + length ext) (40 + (length ext + length payload)) = (Inr payload :: bytes pres)"
    "slice bs (40 + (length ext + length payload))
       (40 + length ext + length payload + length trailing) = (Inr trailing :: bytes pres)"
    by (simp_all add: bs_def slice_def drop_Cons')
  have same: "(of_nat (length ext + length payload) :: u16) = len"
    using arg_cong [OF len, of "of_nat :: nat \<Rightarrow> u16"] by simp
  have header: "\<lparr>v6_traffic_class = v6_traffic_class h, v6_flow_label = v6_flow_label h,
      v6_payload_length = Some len, v6_next_header = Some b6, v6_hop_limit = v6_hop_limit h,
      v6_source = v6_source h, v6_destination = v6_destination h, v6_fragment = v6_fragment h\<rparr> = h'"
    unfolding h'_def by (cases h) simp
  show ?thesis
    unfolding decode_ipv6_def Let_def
    by (simp add: fields fragment slices same bs_len len header ipv6_first_word_fields [OF flow]
        del: byte_at_in slice_in of_nat_add)
qed

subsection \<open>Whole packets\<close>

fun strip_network :: "network_header \<Rightarrow> network_header" where
  "strip_network (NetIpv4 h) = NetIpv4 (strip_ipv4 h)"
| "strip_network (NetIpv6 h) = NetIpv6 (strip_ipv6 h)"

fun strip_transport :: "transport_header \<Rightarrow> transport_header" where
  "strip_transport (TransTcp h) = TransTcp (strip_tcp h)"
| "strip_transport (TransUdp h) = TransUdp (strip_udp h)"

definition strip_packet :: "packet \<Rightarrow> packet" where
  "strip_packet p = \<lparr>pkt_ethernet = map_option (\<lambda>e. e\<lparr>eth_ether_type := None\<rparr>) (pkt_ethernet p),
     pkt_network = strip_network (pkt_network p),
     pkt_transport = map_option strip_transport (pkt_transport p), pkt_payload = pkt_payload p\<rparr>"

text \<open>
  The lengths are left to the encoder, the packet is not a fragment, and the protocol number
  agrees with the transport header (or, for a raw payload, names no protocol the decoder
  would parse).
\<close>

fun canonical_network :: "network_header \<Rightarrow> bool" where
  "canonical_network (NetIpv4 h) \<longleftrightarrow> v4_ihl h = None \<and> v4_total_length h = None \<and>
     v4_fragment_offset h = 0 \<and> \<not> v4_more_fragments h"
| "canonical_network (NetIpv6 h) \<longleftrightarrow> v6_payload_length h = None \<and> v6_fragment h = None"

fun canonical_transport :: "transport_header option \<Rightarrow> byte \<Rightarrow> bool" where
  "canonical_transport (Some (TransTcp h)) pr \<longleftrightarrow> pr = IP_PROTOCOL_TCP \<and> canonical_tcp h"
| "canonical_transport (Some (TransUdp h)) pr \<longleftrightarrow> pr = IP_PROTOCOL_UDP \<and> udp_length h = None"
| "canonical_transport None pr \<longleftrightarrow>
     pr \<noteq> IP_PROTOCOL_TCP \<and> pr \<noteq> IP_PROTOCOL_UDP \<and> pr \<noteq> IP_PROTOCOL_FRAGMENT"

fun canonical_ethernet :: "ethernet_header option \<Rightarrow> bool" where
  "canonical_ethernet None = True"
| "canonical_ethernet (Some e) = (eth_vlan e = None \<longrightarrow> eth_ether_type e \<noteq> Some ETHERTYPE_VLAN)"

definition canonical_packet :: "packet \<Rightarrow> bool" where
  "canonical_packet p \<longleftrightarrow> canonical_ethernet (pkt_ethernet p) \<and> canonical_network (pkt_network p) \<and>
     (case packet_protocol p of Inl _ \<Rightarrow> False | Inr pr \<Rightarrow> canonical_transport (pkt_transport p) pr)"

fun transport_verdicts ::
  "transport_header option \<Rightarrow> transport_header option \<Rightarrow> bool option \<Rightarrow> bool" where
  "transport_verdicts (Some th) (Some th') (Some v) \<longleftrightarrow> transport_verdict th th' v"
| "transport_verdicts None None None \<longleftrightarrow> True"
| "transport_verdicts _ _ _ \<longleftrightarrow> False"

fun network_verdicts :: "network_header \<Rightarrow> network_header \<Rightarrow> bool option \<Rightarrow> bool" where
  "network_verdicts (NetIpv4 h) (NetIpv4 h') (Some v) \<longleftrightarrow>
     checksum_verdict (v4_checksum h) (checksum_number (v4_checksum h')) 0xffff v"
| "network_verdicts (NetIpv6 h) (NetIpv6 h') None \<longleftrightarrow> True"
| "network_verdicts _ _ _ \<longleftrightarrow> False"

lemma decode_encoded_transport:
  assumes "encode_transport n tr payload = Inr t" and "canonical_transport tr pr"
    and "addresses n = addresses n'"
  shows "\<exists>tr' v. decode_payload False n' pr (t @ payload) False = Inr (tr', payload, v) \<and>
    map_option strip_transport tr' = map_option strip_transport tr \<and> transport_verdicts tr tr' v"
proof (cases "(tr, pr)" rule: canonical_transport.cases)
  case (1 h pr)
  then show ?thesis
    using assms decode_encoded_tcp [of n h payload t n']
    by (auto simp: decode_payload_def decode_transport_def)
next
  case (2 h pr)
  then show ?thesis
    using assms decode_encoded_udp [of n h payload t n']
    by (auto simp: decode_payload_def decode_transport_def packet_consts)
next
  case (3 pr)
  then show ?thesis
    using assms by (auto simp: decode_payload_def decode_transport_def)
qed

text \<open>The bytes after the IP header: the transport header and the payload.\<close>

definition network_payload :: "packet \<Rightarrow> bytes pres" where
  "network_payload p =
     rbind (encode_transport (pkt_network p) (pkt_transport p) (pkt_payload p))
       (\<lambda>transport. Inr (transport @ pkt_payload p))"

definition faithful_decode :: "packet \<Rightarrow> bytes \<Rightarrow> decoded_packet \<Rightarrow> bool" where
  "faithful_decode p trailing d \<longleftrightarrow> strip_packet (dec_packet d) = strip_packet p \<and>
     network_payload p = Inr (dec_network_payload d) \<and> dec_trailing d = trailing"

definition checksum_verdicts :: "packet \<Rightarrow> decoded_packet \<Rightarrow> bool" where
  "checksum_verdicts p d \<longleftrightarrow>
     network_verdicts (pkt_network p) (pkt_network (dec_packet d)) (dec_ipv4_checksum_valid d) \<and>
     transport_verdicts (pkt_transport p) (pkt_transport (dec_packet d))
       (dec_transport_checksum_valid d)"

lemma vec_resize_same [simp]: "length bs = n \<Longrightarrow> vec_resize n bs = bs"
  by (auto simp: vec_resize_def)

lemma pad4_pad4 [simp]: "pad4 (pad4 n) = pad4 n"
  by (rule pad4_id [OF pad4_dvd])

lemma decode_encoded_ipv4:
  assumes net: "pkt_network p = NetIpv4 h" and can: "canonical_packet p"
    and pr: "packet_protocol p = Inr pr"
    and t: "encode_transport (pkt_network p) (pkt_transport p) (pkt_payload p) = Inr t"
    and ip: "encode_ipv4 h pr (t @ pkt_payload p) = Inr ip"
  shows "\<exists>d. decode_ip_inner (ip @ trailing) eth = Inr d \<and>
    faithful_decode (p\<lparr>pkt_ethernet := eth\<rparr>) trailing d \<and> checksum_verdicts p d"
proof -
  from can net have ihl: "v4_ihl h = None" and tl: "v4_total_length h = None"
    and off: "v4_fragment_offset h = 0" and more: "\<not> v4_more_fragments h"
    and tr: "canonical_transport (pkt_transport p) pr"
    by (auto simp: canonical_packet_def pr)
  from encode_ipv4_shape [OF ip ihl] obtain options ihl len cs where
    options: "options = vec_resize (pad4 (length (v4_options h))) (v4_options h)"
    and ihl: "unat ihl * 4 = 20 + length options" "5 \<le> ihl" "ihl \<le> 15"
    and range: "v4_dscp h \<le> 63" "v4_ecn h \<le> 3" "v4_fragment_offset h \<le> 8191"
    and small: "20 + length options + length (t @ pkt_payload p) < 65536"
    and len: "len = unwrap_or (of_nat (20 + length options + length (t @ pkt_payload p))) (v4_total_length h)"
    and cs: "cs = resolve (v4_checksum h)
      (internet_checksum (with_field (ipv4_prefix h pr ihl len) 0 (ipv4_suffix h options)))"
    and ip: "ip = with_field (ipv4_prefix h pr ihl len) cs (ipv4_suffix h options) @ t @ pkt_payload p" .
  have ulen: "unat len = 20 + length options + length (t @ pkt_payload p)"
    unfolding len tl using unat_of_nat_u16 [OF small] by simp
  have proto: "unwrap_or pr (v4_protocol h) = pr"
    using pr net by (cases "v4_protocol h") (auto simp: packet_protocol_def Let_def)
  let ?h = "h\<lparr>v4_protocol := Some pr, v4_options := options, v4_ihl := Some ihl,
      v4_total_length := Some len, v4_checksum := CsValue cs\<rparr>"
  from decode_encoded_transport [OF t tr, of "NetIpv4 ?h"] net obtain tr' v where
    dec: "decode_payload False (NetIpv4 ?h) pr (t @ pkt_payload p) False = Inr (tr', pkt_payload p, v)"
    and tr': "map_option strip_transport tr' = map_option strip_transport (pkt_transport p)"
    and v: "transport_verdicts (pkt_transport p) tr' v"
    by auto
  have first: "decode_ip_inner (ip @ trailing) eth = decode_ipv4 (ip @ trailing) eth"
    using version_field [OF ihl(3)]
    by (simp add: decode_ip_inner_def ip with_field_def ipv4_prefix_def del: drop_bit_or)
  have "checksum_verdict (v4_checksum h) cs 0xffff
      (internet_checksum (with_field (ipv4_prefix h pr ihl len) cs (ipv4_suffix h options)) = 0)"
    unfolding cs internet_checksum_def by (rule ipv4_slot.verdict)
  moreover have "strip_ipv4 ?h = strip_ipv4 h"
    by (simp add: strip_ipv4_def options)
  moreover have "decode_ip_inner (ip @ trailing) eth = Inr \<lparr>dec_packet = \<lparr>pkt_ethernet = eth,
        pkt_network = NetIpv4 ?h, pkt_transport = tr', pkt_payload = pkt_payload p\<rparr>,
      dec_network_payload = t @ pkt_payload p,
      dec_ipv4_checksum_valid = Some
        (internet_checksum (with_field (ipv4_prefix h pr ihl len) cs (ipv4_suffix h options)) = 0),
      dec_transport_checksum_valid = v, dec_trailing = trailing\<rparr>"
    unfolding first
    using decode_ipv4_fields [OF ihl range ulen, of pr cs trailing eth] off more
    by (simp add: ip proto dec)
  ultimately show ?thesis
    using net tr' v t
    by (simp add: faithful_decode_def strip_packet_def checksum_verdicts_def network_payload_def)
qed

lemma decode_encoded_ipv6:
  assumes net: "pkt_network p = NetIpv6 h" and can: "canonical_packet p"
    and pr: "packet_protocol p = Inr pr"
    and t: "encode_transport (pkt_network p) (pkt_transport p) (pkt_payload p) = Inr t"
    and ip: "encode_ipv6 h pr (t @ pkt_payload p) = Inr ip"
  shows "\<exists>d. decode_ip_inner (ip @ trailing) eth = Inr d \<and>
    faithful_decode (p\<lparr>pkt_ethernet := eth\<rparr>) trailing d \<and> checksum_verdicts p d"
proof -
  from can net have pl: "v6_payload_length h = None" and frag: "v6_fragment h = None"
    and tr: "canonical_transport (pkt_transport p) pr"
    by (auto simp: canonical_packet_def pr)
  have proto: "unwrap_or pr (v6_next_header h) = pr"
    using pr net frag by (cases "v6_next_header h") (auto simp: packet_protocol_def Let_def)
  from encode_ipv6_shape [OF ip pl] obtain len ext where
    len: "unat (len :: u16) = length ext + length (t @ pkt_payload p)"
    and flow: "v6_flow_label h \<le> 0x000fffff"
    and ext: "ext = (case v6_fragment h of None \<Rightarrow> [] | Some f \<Rightarrow> ipv6_fragment_bytes f)"
    and ip: "ip = be_bytes 4 (ipv6_first_word h) @ be_bytes 2 len @
      [if v6_fragment h \<noteq> None then IP_PROTOCOL_FRAGMENT else unwrap_or pr (v6_next_header h),
       v6_hop_limit h] @ be_bytes 16 (v6_source h) @ be_bytes 16 (v6_destination h) @ ext @ t @ pkt_payload p" .
  have ext: "ext = []" using ext frag by simp
  note ip = ip [unfolded ext, simplified frag proto, simplified]
  have nofrag: "pr \<noteq> IP_PROTOCOL_FRAGMENT"
    using tr by (cases "(pkt_transport p, pr)" rule: canonical_transport.cases)
      (auto simp: packet_consts)
  let ?h = "h\<lparr>v6_payload_length := Some len, v6_next_header := Some pr\<rparr>"
  from decode_encoded_transport [OF t tr, of "NetIpv6 ?h"] net obtain tr' v where
    dec: "decode_payload False (NetIpv6 ?h) pr (t @ pkt_payload p) False = Inr (tr', pkt_payload p, v)"
    and tr': "map_option strip_transport tr' = map_option strip_transport (pkt_transport p)"
    and v: "transport_verdicts (pkt_transport p) tr' v"
    by auto
  have first: "decode_ip_inner (ip @ trailing) eth = decode_ipv6 (ip @ trailing) eth"
    using ipv6_first_word_fields(3) [OF flow]
    by (simp add: decode_ip_inner_def ip be_bytes_numeral)
  have "strip_ipv6 ?h = strip_ipv6 h"
    by (simp add: strip_ipv6_def)
  moreover have "decode_ip_inner (ip @ trailing) eth = Inr \<lparr>dec_packet = \<lparr>pkt_ethernet = eth,
        pkt_network = NetIpv6 ?h, pkt_transport = tr', pkt_payload = pkt_payload p\<rparr>,
      dec_network_payload = t @ pkt_payload p, dec_ipv4_checksum_valid = None,
      dec_transport_checksum_valid = v, dec_trailing = trailing\<rparr>"
    unfolding first
    using decode_ipv6_fields [of "[]" h len "t @ pkt_payload p" pr trailing eth] len flow frag nofrag ext
    by (simp add: ip dec)
  ultimately show ?thesis
    using net tr' v t
    by (simp add: faithful_decode_def strip_packet_def checksum_verdicts_def network_payload_def)
qed

lemma decode_encoded_ethernet:
  assumes "encode_ethernet e n ip = Inr bs" and "canonical_ethernet (Some e)"
  shows "\<exists>et. decode_ethernet (bs @ trailing) =
    decode_ip_inner (ip @ trailing) (Some (e\<lparr>eth_ether_type := Some et\<rparr>))"
proof -
  define et where "et = unwrap_or (case n of NetIpv4 _ \<Rightarrow> ETHERTYPE_IPV4 | NetIpv6 _ \<Rightarrow> ETHERTYPE_IPV6)
    (eth_ether_type e)"
  let ?adr = "be_bytes 6 (eth_destination e) @ be_bytes 6 (eth_source e)"
  show ?thesis
  proof (cases "eth_vlan e")
    case None
    then have "et \<noteq> ETHERTYPE_VLAN"
      using assms(2) by (cases "eth_ether_type e")
        (auto simp: et_def packet_consts split: network_header.splits)
    moreover have "bs = ?adr @ be_bytes 2 et @ ip"
      using assms(1) None by (simp add: encode_ethernet_def et_def Let_def)
    ultimately have "decode_ethernet (bs @ trailing) = decode_ip_inner (ip @ trailing)
        (Some (e\<lparr>eth_ether_type := Some et\<rparr>))"
      using None by (cases e) (simp add: decode_ethernet_def decode_vlan_def codec_simps slice_def)
    then show ?thesis by blast
  next
    case (Some vlan)
    define control where "control = push_bit 13 (ucast (vlan_priority vlan)) OR
      push_bit 12 (of_bool (vlan_drop_eligible vlan)) OR vlan_id vlan"
    from assms(1) Some have range: "vlan_priority vlan \<le> 7" "vlan_id vlan \<le> 4095"
      and bs: "bs = ?adr @ be_bytes 2 ETHERTYPE_VLAN @ be_bytes 2 control @ be_bytes 2 et @ ip"
      by (auto simp: encode_ethernet_def Let_def et_def control_def not_less split: if_splits)
    have "ucast (drop_bit 13 control) = vlan_priority vlan"
      and "control AND 0x1000 = 0 \<longleftrightarrow> \<not> vlan_drop_eligible vlan" and "control AND 0x0fff = vlan_id vlan"
      unfolding control_def and_numeral_bit and_numeral_mask using vlan_fields [OF range] by blast+
    then have "decode_ethernet (bs @ trailing) = decode_ip_inner (ip @ trailing)
        (Some (e\<lparr>eth_ether_type := Some et\<rparr>))"
      using Some by (cases e; cases vlan) (simp add: bs decode_ethernet_def decode_vlan_def codec_simps slice_def)
    then show ?thesis by blast
  qed
qed

definition decode_frame :: "packet \<Rightarrow> bytes \<Rightarrow> decoded_packet pres" where
  "decode_frame p bs = (case pkt_ethernet p of None \<Rightarrow> decode_ip bs | Some _ \<Rightarrow> decode_ethernet bs)"

lemma decode_encoded_packet:
  assumes "packet_encode p = Inr bs" and "canonical_packet p"
  shows "\<exists>d. decode_frame p (bs @ trailing) = Inr d \<and> faithful_decode p trailing d \<and> checksum_verdicts p d"
proof -
  from assms(1) obtain pr t ip where pr: "packet_protocol p = Inr pr"
    and t: "encode_transport (pkt_network p) (pkt_transport p) (pkt_payload p) = Inr t"
    and ip: "(case pkt_network p of NetIpv4 h \<Rightarrow> encode_ipv4 h pr (t @ pkt_payload p)
       | NetIpv6 h \<Rightarrow> encode_ipv6 h pr (t @ pkt_payload p)) = Inr ip"
    and bs: "(case pkt_ethernet p of Some e \<Rightarrow> encode_ethernet e (pkt_network p) ip | None \<Rightarrow> Inr ip) = Inr bs"
    by (auto simp: packet_encode_def Let_def)
  have inner: "\<exists>d. decode_ip_inner (ip @ trailing) eth = Inr d \<and>
      faithful_decode (p\<lparr>pkt_ethernet := eth\<rparr>) trailing d \<and> checksum_verdicts p d" for eth
    using ip decode_encoded_ipv4 [OF _ assms(2) pr t] decode_encoded_ipv6 [OF _ assms(2) pr t]
    by (cases "pkt_network p") auto
  show ?thesis
  proof (cases "pkt_ethernet p")
    case None
    then show ?thesis using bs inner [of None]
      by (auto simp: decode_frame_def decode_ip_def faithful_decode_def strip_packet_def network_payload_def)
  next
    case (Some e)
    have "canonical_ethernet (Some e)" using assms(2) Some by (simp add: canonical_packet_def)
    with bs Some obtain et where "decode_ethernet (bs @ trailing) =
        decode_ip_inner (ip @ trailing) (Some (e\<lparr>eth_ether_type := Some et\<rparr>))"
      using decode_encoded_ethernet by fastforce
    then show ?thesis
      using inner [of "Some (e\<lparr>eth_ether_type := Some et\<rparr>)"] Some
      by (auto simp: decode_frame_def faithful_decode_def strip_packet_def network_payload_def)
  qed
qed

subsection \<open>Properties\<close>

text \<open>
  C1: decoding what the encoder produced gives the packet back. For every packet that the
  encoder accepts and that is canonical, decoding the produced bytes (Ethernet frames with
  \<open>decode_ethernet\<close>, bare IP packets with \<open>decode_ip\<close>), followed by any link padding, succeeds;
  the decoded packet agrees with the original on every header field, option and payload byte
  (up to the computed fields, the Ethernet type and the padding of options), the network payload
  is the transport header with its payload, and the link padding is reported as trailing.
  Canonical means: header length, total or payload length, TCP data offset and UDP length are left
  to the encoder; the packet is not a fragment (no offset, no more-fragments flag, no IPv6
  fragment header); the protocol number agrees with the transport header, or, for a raw payload, is
  not that of TCP, UDP or the fragment header; a TCP option given as unknown has a kind and data that
  the decoder does not read as a known option; an Ethernet header without a VLAN tag does not claim
  the VLAN type.
\<close>

theorem packet_roundtrip:
  assumes "packet_encode p = Inr bs" and "canonical_packet p"
  shows "\<exists>d. decode_frame p (bs @ trailing) = Inr d \<and> faithful_decode p trailing d"
  using decode_encoded_packet [OF assms] by blast

text \<open>
  C29: the checksum verdicts of the decoder on an encoded packet that is canonical (lengths left to
  the encoder, not a fragment, a protocol number that agrees with the transport header, no unknown
  TCP option of a known shape, no untagged Ethernet header of the VLAN type). A checksum left
  automatic is reported valid; an explicit value is on the wire as given; a deliberately invalid IPv4
  or TCP checksum is reported valid exactly when the field is \<open>0xffff\<close> (the calculated checksum
  was zero), and a deliberately invalid UDP checksum exactly when the field is zero, so
  \<open>Checksum::Invalid\<close> does not always damage the packet.
\<close>

theorem encoded_checksum_verdicts:
  assumes "packet_encode p = Inr bs" and "canonical_packet p"
  shows "\<exists>d. decode_frame p bs = Inr d \<and> checksum_verdicts p d"
  using decode_encoded_packet [OF assms, of "[]"] by auto

text \<open>The packet of the unit tests: VLAN-tagged Ethernet, IPv4 with options, TCP with options.\<close>

definition sample_packet :: packet where
  "sample_packet = \<lparr>
     pkt_ethernet = Some \<lparr>eth_destination = 0x020000000002, eth_source = 0x020000000001,
       eth_vlan = Some \<lparr>vlan_priority = 3, vlan_drop_eligible = True, vlan_id = 42\<rparr>,
       eth_ether_type = None\<rparr>,
     pkt_network = NetIpv4 (default_ipv4_header\<lparr>v4_source := 0xc0000201,
       v4_destination := 0xc6336402, v4_identification := 0x1234, v4_dont_fragment := True,
       v4_ttl := 37, v4_options := [1, 1, 0, 0]\<rparr>),
     pkt_transport = Some (TransTcp (default_tcp_header\<lparr>tcp_source_port := 40000,
       tcp_destination_port := 443, tcp_sequence := 0x01020304, tcp_acknowledgment := 0x11223344,
       tcp_flags := 0x52, tcp_window := 32000,
       tcp_options := [OptMaximumSegmentSize 1460, OptNop, OptWindowScale 7, OptSackPermitted,
         OptTimestamp 123 45]\<rparr>)),
     pkt_payload = [104, 101, 108, 108, 111]\<rparr>"

lemma sample_packet_encodes: "\<exists>bs. packet_encode sample_packet = Inr bs"
  by (simp add: packet_encode_def sample_packet_def packet_protocol_def Let_def
      default_ipv4_header_def default_tcp_header_def encode_tcp_def encode_ipv4_def
      encode_ethernet_def encode_tcp_options_def transport_checksum_def u32_try_from_def
      u16_try_from_def usize_checked_add_def pad4_def)

lemma sample_packet_canonical: "canonical_packet sample_packet"
  by (simp add: canonical_packet_def sample_packet_def packet_protocol_def Let_def
      default_ipv4_header_def default_tcp_header_def canonical_tcp_def)

theorem packet_roundtrip_witness:
  "\<exists>bs d. packet_encode sample_packet = Inr bs \<and> decode_ethernet (bs @ [0, 0]) = Inr d \<and>
     faithful_decode sample_packet [0, 0] d"
proof -
  obtain bs where bs: "packet_encode sample_packet = Inr bs"
    using sample_packet_encodes ..
  from packet_roundtrip [OF bs sample_packet_canonical, of "[0, 0]"] bs show ?thesis
    by (auto simp: decode_frame_def sample_packet_def)
qed

text \<open>A UDP datagram with an automatic IPv4 checksum or both checksums deliberately invalid.\<close>

definition udp_sample :: "checksum \<Rightarrow> packet" where
  "udp_sample c = \<lparr>pkt_ethernet = None,
     pkt_network = NetIpv4 (default_ipv4_header\<lparr>v4_source := 0xc0000201, v4_destination := 0xc6336402, v4_checksum := c\<rparr>),
     pkt_transport = Some (TransUdp (default_udp_header\<lparr>udp_source_port := 40000, udp_destination_port := 53,
       udp_checksum := CsInvalid\<rparr>)),
     pkt_payload = [104, 105]\<rparr>"

lemma udp_sample_encodes: "\<exists>bs. packet_encode (udp_sample c) = Inr bs"
  by (simp add: packet_encode_def udp_sample_def packet_protocol_def Let_def default_ipv4_header_def default_udp_header_def
      encode_udp_def encode_ipv4_def transport_checksum_def u32_try_from_def u16_try_from_def usize_checked_add_def pad4_def)

lemma udp_sample_canonical: "canonical_packet (udp_sample c)"
  by (simp add: canonical_packet_def udp_sample_def packet_protocol_def Let_def default_ipv4_header_def default_udp_header_def)

lemma udp_sample_verdicts:
  assumes "checksum_verdicts (udp_sample c) d"
  shows "\<exists>h u v. pkt_network (dec_packet d) = NetIpv4 h \<and> pkt_transport (dec_packet d) = Some (TransUdp u) \<and>
    dec_ipv4_checksum_valid d = Some v \<and> checksum_verdict c (checksum_number (v4_checksum h)) 0xffff v \<and>
    dec_transport_checksum_valid d = Some (checksum_number (udp_checksum u) = 0)"
  using assms unfolding checksum_verdicts_def udp_sample_def
  by (cases "dec_ipv4_checksum_valid d"; cases "pkt_network (dec_packet d)"; cases "dec_transport_checksum_valid d";
      cases "pkt_transport (dec_packet d)"; cases "the (pkt_transport (dec_packet d))") auto

theorem encoded_checksum_verdicts_witness:
  "(\<exists>bs d h u. packet_encode (udp_sample CsInvalid) = Inr bs \<and> decode_ip bs = Inr d \<and>
     pkt_network (dec_packet d) = NetIpv4 h \<and> pkt_transport (dec_packet d) = Some (TransUdp u) \<and>
     dec_ipv4_checksum_valid d = Some (checksum_number (v4_checksum h) = 0xffff) \<and>
     dec_transport_checksum_valid d = Some (checksum_number (udp_checksum u) = 0)) \<and>
   (\<exists>bs d. packet_encode (udp_sample CsAuto) = Inr bs \<and> decode_ip bs = Inr d \<and> dec_ipv4_checksum_valid d = Some True)"
proof -
  have "\<exists>bs d. packet_encode (udp_sample c) = Inr bs \<and> decode_ip bs = Inr d \<and> checksum_verdicts (udp_sample c) d" for c
    using udp_sample_encodes [of c] encoded_checksum_verdicts [OF _ udp_sample_canonical]
    by (fastforce simp: decode_frame_def udp_sample_def)
  note d = this [of CsInvalid] this [of CsAuto]
  from d show ?thesis by (fastforce dest!: udp_sample_verdicts)
qed

end
