(* ===== verification/Transition_System.thy ===== *)
theory Transition_System
  imports Prelude
begin

text \<open>
  Labelled transition systems: states reachable from the initial ones, runs that record the
  labels, and the proof rule for inductive invariants, stated once as a locale that every
  stateful component of the development interprets.
\<close>

inductive reachable :: "('s \<Rightarrow> bool) \<Rightarrow> ('s \<Rightarrow> 'a \<Rightarrow> 's \<Rightarrow> bool) \<Rightarrow> 's \<Rightarrow> bool"
  for init :: "'s \<Rightarrow> bool" and step :: "'s \<Rightarrow> 'a \<Rightarrow> 's \<Rightarrow> bool" where
  start: "init s \<Longrightarrow> reachable init step s"
| more: "reachable init step s \<Longrightarrow> step s a s' \<Longrightarrow> reachable init step s'"

inductive run :: "('s \<Rightarrow> 'a \<Rightarrow> 's \<Rightarrow> bool) \<Rightarrow> 's \<Rightarrow> 'a list \<Rightarrow> 's \<Rightarrow> bool"
  for step :: "'s \<Rightarrow> 'a \<Rightarrow> 's \<Rightarrow> bool" where
  stop: "run step s [] s"
| next_step: "step s a s' \<Longrightarrow> run step s' as s'' \<Longrightarrow> run step s (a # as) s''"

inductive_simps run_Nil [simp]: "run step s [] t"
inductive_simps run_Cons: "run step s (a # as) t"

lemma run_append: "run step s (as @ bs) u \<longleftrightarrow> (\<exists>t. run step s as t \<and> run step t bs u)"
  by (induction as arbitrary: s) (auto simp: run_Cons)

lemma run_snoc: "run step s (as @ [a]) u \<longleftrightarrow> (\<exists>t. run step s as t \<and> step t a u)"
  by (auto simp: run_append run_Cons)

lemma reachable_iff_run: "reachable init step t \<longleftrightarrow> (\<exists>s as. init s \<and> run step s as t)"
proof
  assume "reachable init step t"
  then show "\<exists>s as. init s \<and> run step s as t"
  proof induction
    case (start s)
    then have "init s \<and> run step s [] s" by simp
    then show ?case by blast
  next
    case (more s a s')
    then obtain s0 as where "init s0" and "run step s0 as s" by blast
    with more.hyps(2) have "run step s0 (as @ [a]) s'" by (auto simp: run_snoc)
    with \<open>init s0\<close> show ?case by blast
  qed
next
  assume "\<exists>s as. init s \<and> run step s as t"
  then obtain s as where s: "init s" and "run step s as t" by blast
  from this(2) show "reachable init step t"
  proof (induction as arbitrary: t rule: rev_induct)
    case Nil
    then show ?case using s reachable.start by simp
  next
    case (snoc a as)
    then show ?case by (auto simp: run_snoc intro: reachable.more)
  qed
qed

locale inductive_invariant =
  fixes init :: "'s \<Rightarrow> bool" and step :: "'s \<Rightarrow> 'a \<Rightarrow> 's \<Rightarrow> bool" and inv :: "'s \<Rightarrow> bool"
  assumes inv_init: "init s \<Longrightarrow> inv s"
    and inv_step: "inv s \<Longrightarrow> step s a s' \<Longrightarrow> inv s'"
begin

lemma reachable_inv: "reachable init step s \<Longrightarrow> inv s"
  by (induction rule: reachable.induct) (auto intro: inv_init inv_step)

lemma run_inv: "run step s as t \<Longrightarrow> inv s \<Longrightarrow> inv t"
  by (induction rule: run.induct) (auto intro: inv_step)

end

end
