(* ===== verification/Tcp_State.thy ===== *)
theory Tcp_State
  imports Packet_Types Transition_System
begin

unbundle bit_operations_syntax

text \<open>
  The TCP lifecycle validator of \<open>src/src/packet.rs\<close> (\<open>tcp_flag\<close>, \<open>tcp_flag_names\<close>,
  \<open>TcpStateTracker\<close>). An observation either moves the tracker and returns the new state, or
  returns an error and leaves the tracker unchanged.
\<close>

definition tcp_FIN :: u16 where "tcp_FIN = 0x001"
definition tcp_SYN :: u16 where "tcp_SYN = 0x002"
definition tcp_RST :: u16 where "tcp_RST = 0x004"
definition tcp_PSH :: u16 where "tcp_PSH = 0x008"
definition tcp_ACK :: u16 where "tcp_ACK = 0x010"
definition tcp_URG :: u16 where "tcp_URG = 0x020"
definition tcp_ECE :: u16 where "tcp_ECE = 0x040"
definition tcp_CWR :: u16 where "tcp_CWR = 0x080"
definition tcp_NS :: u16 where "tcp_NS = 0x100"

lemmas tcp_flag_defs = tcp_FIN_def tcp_SYN_def tcp_RST_def tcp_PSH_def tcp_ACK_def tcp_URG_def
  tcp_ECE_def tcp_CWR_def tcp_NS_def

definition tcp_flag_table :: "(u16 \<times> string) list" where
  "tcp_flag_table = [(tcp_FIN, ''FIN''), (tcp_SYN, ''SYN''), (tcp_RST, ''RST''),
     (tcp_PSH, ''PSH''), (tcp_ACK, ''ACK''), (tcp_URG, ''URG''), (tcp_ECE, ''ECE''),
     (tcp_CWR, ''CWR''), (tcp_NS, ''NS'')]"

definition tcp_flag_names :: "u16 \<Rightarrow> string list" where
  "tcp_flag_names flags = map snd (filter (\<lambda>(flag, _). flags AND flag \<noteq> 0) tcp_flag_table)"

record tcp_state_tracker =
  tracker_state :: tcp_state

definition default_tracker :: tcp_state_tracker where
  "default_tracker = \<lparr>tracker_state = Closed\<rparr>"

text \<open>
  The match on (state, direction, SYN, ACK, FIN), grouped by state; within a state the arms
  keep the order of the code. \<open>None\<close> is the error arm.
\<close>

definition tcp_transition ::
  "tcp_state \<Rightarrow> tcp_direction \<Rightarrow> bool \<Rightarrow> bool \<Rightarrow> bool \<Rightarrow> tcp_state option" where
  "tcp_transition state direction syn ack fin =
     (case state of
        Closed \<Rightarrow>
          if direction = Outbound \<and> syn \<and> \<not> ack \<and> \<not> fin then Some SynSent
          else if direction = Inbound \<and> syn \<and> \<not> ack \<and> \<not> fin then Some SynReceived
          else None
      | SynSent \<Rightarrow>
          if direction = Inbound \<and> syn \<and> ack \<and> \<not> fin then Some Established
          else if \<not> syn \<and> \<not> fin then Some SynSent else None
      | SynReceived \<Rightarrow>
          if direction = Outbound \<and> syn \<and> ack \<and> \<not> fin then Some SynReceived
          else if direction = Inbound \<and> \<not> syn \<and> ack \<and> \<not> fin then Some Established
          else if \<not> syn \<and> \<not> fin then Some SynReceived else None
      | Established \<Rightarrow>
          if direction = Outbound \<and> fin then Some FinWait1
          else if direction = Inbound \<and> fin then Some CloseWait
          else if \<not> syn \<and> \<not> fin then Some Established else None
      | FinWait1 \<Rightarrow>
          if direction = Inbound \<and> ack \<and> \<not> fin then Some FinWait2
          else if direction = Inbound \<and> fin then Some TimeWait
          else if \<not> syn \<and> \<not> fin then Some FinWait1 else None
      | FinWait2 \<Rightarrow>
          if direction = Inbound \<and> fin then Some TimeWait
          else if \<not> syn \<and> \<not> fin then Some FinWait2 else None
      | CloseWait \<Rightarrow>
          if direction = Outbound \<and> fin then Some LastAck
          else if \<not> syn \<and> \<not> fin then Some CloseWait else None
      | LastAck \<Rightarrow>
          if direction = Inbound \<and> ack \<and> \<not> fin then Some Closed else None
      | TimeWait \<Rightarrow>
          if \<not> syn \<and> ack \<and> \<not> fin then Some TimeWait else None
      | Reset \<Rightarrow> None)"

definition observe ::
  "tcp_state_tracker \<Rightarrow> tcp_direction \<Rightarrow> u16 \<Rightarrow> tcp_state_tracker \<times> tcp_state pres" where
  "observe tracker direction flags =
     (let syn = (flags AND tcp_SYN \<noteq> 0);
          ack = (flags AND tcp_ACK \<noteq> 0);
          fin = (flags AND tcp_FIN \<noteq> 0) in
      if flags AND tcp_RST \<noteq> 0 then (tracker\<lparr>tracker_state := Reset\<rparr>, Inr Reset)
      else case tcp_transition (tracker_state tracker) direction syn ack fin of
        Some state \<Rightarrow> (tracker\<lparr>tracker_state := state\<rparr>, Inr state)
      | None \<Rightarrow> (tracker, Inl (Fail (InvalidTransition direction (tracker_state tracker) flags))))"

type_synonym tcp_event = "tcp_direction \<times> u16"

definition observe_all :: "tcp_state_tracker \<Rightarrow> tcp_event list \<Rightarrow> tcp_state_tracker" where
  "observe_all tracker events = foldl (\<lambda>t (d, f). fst (observe t d f)) tracker events"

subsection \<open>What the history of a tracker guarantees\<close>

definition has_flag :: "tcp_event \<Rightarrow> u16 \<Rightarrow> bool" where
  "has_flag e flag \<longleftrightarrow> snd e AND flag \<noteq> 0"

text \<open>A segment in a direction with the given SYN, ACK and FIN bits and no RST.\<close>

definition tcp_segment :: "tcp_direction \<Rightarrow> bool \<Rightarrow> bool \<Rightarrow> bool \<Rightarrow> tcp_event \<Rightarrow> bool" where
  "tcp_segment d syn ack fin e \<longleftrightarrow> fst e = d \<and> has_flag e tcp_SYN = syn \<and> has_flag e tcp_ACK = ack \<and>
     has_flag e tcp_FIN = fin \<and> \<not> has_flag e tcp_RST"

text \<open>Two segments in that order in a history.\<close>

definition followed_by :: "('a \<Rightarrow> bool) \<Rightarrow> ('a \<Rightarrow> bool) \<Rightarrow> 'a list \<Rightarrow> bool" where
  "followed_by p q xs \<longleftrightarrow> (\<exists>i j. i < j \<and> j < length xs \<and> p (xs ! i) \<and> q (xs ! j))"

lemma followed_by_snoc:
  "followed_by p q (xs @ [x]) \<longleftrightarrow> followed_by p q xs \<or> (\<exists>y \<in> set xs. p y) \<and> q x"
proof
  assume "followed_by p q (xs @ [x])"
  then obtain i j where "i < j" "j < Suc (length xs)" "p ((xs @ [x]) ! i)" "q ((xs @ [x]) ! j)"
    by (auto simp: followed_by_def)
  then show "followed_by p q xs \<or> (\<exists>y \<in> set xs. p y) \<and> q x"
    by (cases "j < length xs") (auto simp: followed_by_def nth_append less_Suc_eq split: if_splits)
next
  assume "followed_by p q xs \<or> (\<exists>y \<in> set xs. p y) \<and> q x"
  then show "followed_by p q (xs @ [x])"
  proof
    assume "followed_by p q xs"
    then obtain i j where "i < j" "j < length xs" "p (xs ! i)" "q (xs ! j)"
      by (auto simp: followed_by_def)
    then show ?thesis
      unfolding followed_by_def by (intro exI [of _ i] exI [of _ j]) (simp add: nth_append)
  next
    assume "(\<exists>y \<in> set xs. p y) \<and> q x"
    then obtain i where "i < length xs" "p (xs ! i)" "q x" by (auto simp: in_set_conv_nth)
    then show ?thesis
      unfolding followed_by_def
      by (intro exI [of _ i] exI [of _ "length xs"]) (simp add: nth_append)
  qed
qed

text \<open>
  An active open (our SYN answered by a SYN-ACK) or a passive open (the peer's SYN followed by
  the peer's ACK).
\<close>

definition handshake :: "tcp_event list \<Rightarrow> bool" where
  "handshake h \<longleftrightarrow>
     followed_by (tcp_segment Outbound True False False) (tcp_segment Inbound True True False) h \<or>
     followed_by (tcp_segment Inbound True False False) (tcp_segment Inbound False True False) h"

text \<open>A close initiated by one side: its FIN comes after the handshake is complete.\<close>

definition history_ok :: "tcp_state_tracker \<times> tcp_event list \<Rightarrow> bool" where
  "history_ok sh \<longleftrightarrow> (case sh of (t, h) \<Rightarrow> (case tracker_state t of
      Closed \<Rightarrow> True
    | Reset \<Rightarrow> \<exists>e \<in> set h. has_flag e tcp_RST
    | SynSent \<Rightarrow> \<exists>e \<in> set h. tcp_segment Outbound True False False e
    | SynReceived \<Rightarrow> \<exists>e \<in> set h. tcp_segment Inbound True False False e
    | Established \<Rightarrow> handshake h
    | FinWait1 \<Rightarrow> handshake h \<and> (\<exists>e \<in> set h. fst e = Outbound \<and> has_flag e tcp_FIN)
    | FinWait2 \<Rightarrow> handshake h \<and> (\<exists>e \<in> set h. fst e = Outbound \<and> has_flag e tcp_FIN)
    | CloseWait \<Rightarrow> handshake h \<and> (\<exists>e \<in> set h. fst e = Inbound \<and> has_flag e tcp_FIN)
    | LastAck \<Rightarrow> handshake h \<and> (\<exists>e \<in> set h. fst e = Inbound \<and> has_flag e tcp_FIN) \<and>
        (\<exists>e \<in> set h. fst e = Outbound \<and> has_flag e tcp_FIN)
    | TimeWait \<Rightarrow> handshake h \<and> (\<exists>e \<in> set h. fst e = Outbound \<and> has_flag e tcp_FIN) \<and>
        (\<exists>e \<in> set h. fst e = Inbound \<and> has_flag e tcp_FIN)))"

definition tracker_init :: "tcp_state_tracker \<times> tcp_event list \<Rightarrow> bool" where
  "tracker_init sh \<longleftrightarrow> sh = (default_tracker, [])"

definition tracker_step ::
  "tcp_state_tracker \<times> tcp_event list \<Rightarrow> tcp_event \<Rightarrow> tcp_state_tracker \<times> tcp_event list \<Rightarrow> bool" where
  "tracker_step s e s' \<longleftrightarrow> s' = (fst (observe (fst s) (fst e) (snd e)), snd s @ [e])"

lemma handshake_snoc:
  "handshake (h @ [e]) \<longleftrightarrow> handshake h \<or>
     (\<exists>x \<in> set h. tcp_segment Outbound True False False x) \<and> tcp_segment Inbound True True False e \<or>
     (\<exists>x \<in> set h. tcp_segment Inbound True False False x) \<and> tcp_segment Inbound False True False e"
  by (auto simp: handshake_def followed_by_snoc)

text \<open>One observation, as a case distinction on the segment.\<close>

lemma observe_state:
  "tracker_state (fst (observe t d f)) =
     (if has_flag (d, f) tcp_RST then Reset
      else unwrap_or (tracker_state t)
        (tcp_transition (tracker_state t) d (has_flag (d, f) tcp_SYN) (has_flag (d, f) tcp_ACK) (has_flag (d, f) tcp_FIN)))"
  by (auto simp: observe_def has_flag_def Let_def split: option.splits)

lemma history_step:
  assumes "history_ok s" and "tracker_step s e s'" shows "history_ok s'"
proof -
  obtain t h where s: "s = (t, h)" by (cases s)
  obtain d f where e: "e = (d, f)" by (cases e)
  show ?thesis
    using assms unfolding s e tracker_step_def history_ok_def
    by (cases "tracker_state t"; cases d)
      (auto simp: observe_state handshake_snoc tcp_transition_def tcp_segment_def split: if_splits)
qed

interpretation history: inductive_invariant tracker_init tracker_step history_ok
proof unfold_locales
  show "tracker_init s \<Longrightarrow> history_ok s" for s
    by (simp add: tracker_init_def history_ok_def default_tracker_def)
  show "history_ok s \<Longrightarrow> tracker_step s e s' \<Longrightarrow> history_ok s'" for s e s'
    by (rule history_step)
qed

lemma observe_all_snoc:
  "observe_all t (events @ [e]) = fst (observe (observe_all t events) (fst e) (snd e))"
  by (simp add: observe_all_def case_prod_beta)

lemma observe_all_append: "observe_all t (xs @ ys) = observe_all (observe_all t xs) ys"
  by (simp add: observe_all_def)

lemma observe_all_run: "run tracker_step (default_tracker, []) events (observe_all default_tracker events, events)"
proof (induction events rule: rev_induct)
  case Nil
  show ?case by (simp add: observe_all_def)
next
  case (snoc e events)
  then show ?case by (auto simp: run_snoc tracker_step_def observe_all_snoc)
qed

lemma observe_all_history: "history_ok (observe_all default_tracker events, events)"
  using history.run_inv [OF observe_all_run] by (simp add: history_ok_def default_tracker_def)

lemma reset_absorbing: "tracker_state t = Reset \<Longrightarrow> tracker_state (observe_all t events) = Reset"
  by (induction events rule: rev_induct)
    (auto simp: observe_all_snoc observe_state tcp_transition_def, simp add: observe_all_def)

subsection \<open>Properties\<close>

text \<open>
  C40: a tracker never reports a connection as synchronised without a handshake. If after any
  sequence of observations (accepted or rejected) from the initial state the tracker is in
  Established or in one of the closing states, then the history contains our SYN followed by
  the peer's SYN-ACK, or the peer's SYN followed by the peer's ACK, all without RST and FIN.
\<close>

theorem tracker_needs_handshake:
  assumes "tracker_state (observe_all default_tracker events) \<in>
    {Established, FinWait1, FinWait2, CloseWait, LastAck, TimeWait}"
  shows "handshake events"
  using assms observe_all_history [of events] by (auto simp: history_ok_def)

theorem tracker_needs_handshake_witness:
  "handshake [(Outbound, 0x002), (Inbound, 0x012), (Outbound, 0x010)]"
  by (rule tracker_needs_handshake)
    (simp add: observe_all_def observe_def default_tracker_def tcp_transition_def tcp_flag_defs)

text \<open>
  Teardown needs both sides. TimeWait and LastAck are entered only after a FIN was seen in
  both directions, FinWait1 and FinWait2 only after our own FIN, CloseWait only after the
  peer's, and Reset only after a segment with RST.
\<close>

theorem tracker_teardown:
  "(case tracker_state (observe_all default_tracker events) of
      TimeWait \<Rightarrow> (\<exists>e \<in> set events. fst e = Outbound \<and> has_flag e tcp_FIN) \<and>
        (\<exists>e \<in> set events. fst e = Inbound \<and> has_flag e tcp_FIN)
    | LastAck \<Rightarrow> (\<exists>e \<in> set events. fst e = Outbound \<and> has_flag e tcp_FIN) \<and>
        (\<exists>e \<in> set events. fst e = Inbound \<and> has_flag e tcp_FIN)
    | FinWait1 \<Rightarrow> \<exists>e \<in> set events. fst e = Outbound \<and> has_flag e tcp_FIN
    | FinWait2 \<Rightarrow> \<exists>e \<in> set events. fst e = Outbound \<and> has_flag e tcp_FIN
    | CloseWait \<Rightarrow> \<exists>e \<in> set events. fst e = Inbound \<and> has_flag e tcp_FIN
    | Reset \<Rightarrow> \<exists>e \<in> set events. has_flag e tcp_RST
    | _ \<Rightarrow> True)"
  using observe_all_history [of events] by (auto simp: history_ok_def split: tcp_state.splits)

text \<open>
  A reset is final. Once any observed segment carries RST, the tracker is in the Reset
  state for the rest of the history, whatever its state was and whatever follows; later
  segments without RST are rejected with an error that names the Reset state.
\<close>

theorem reset_is_final:
  assumes "\<exists>e \<in> set events. has_flag e tcp_RST"
  shows "tracker_state (observe_all t events) = Reset \<and>
    (\<not> has_flag (d, f) tcp_RST \<longrightarrow>
      snd (observe (observe_all t events) d f) = Inl (Fail (InvalidTransition d Reset f)))"
proof -
  obtain pre e post where ev: "events = pre @ e # post" and rst: "has_flag e tcp_RST"
    using assms by (meson split_list)
  have "tracker_state (fst (observe (observe_all t pre) (fst e) (snd e))) = Reset"
    using rst by (simp add: observe_state)
  then have "tracker_state (observe_all t events) = Reset"
    using reset_absorbing [of _ post] observe_all_append [of t "pre @ [e]" post]
    by (simp add: ev observe_all_snoc)
  then show ?thesis
    by (simp add: observe_def has_flag_def Let_def tcp_transition_def)
qed

theorem reset_is_final_witness:
  "tracker_state (observe_all default_tracker [(Outbound, 0x002), (Inbound, 0x014), (Inbound, 0x012)]) = Reset"
  using reset_is_final [where t = default_tracker and
      events = "[(Outbound, 0x002), (Inbound, 0x014), (Inbound, 0x012)]"]
  by (simp add: has_flag_def tcp_flag_defs)

end
