(* ===== verification/Fragment.thy ===== *)
theory Fragment
  imports Packet_Roundtrip
begin

unbundle bit_operations_syntax

text \<open>
  IP fragmentation of \<open>src/src/packet.rs\<close>: \<open>fragment_ipv4\<close>, \<open>fragment_ipv6\<close>, the option bytes
  of the first and of the later fragments, and \<open>fragment_identity\<close>, the view of a decoded
  packet as a fragment.
\<close>

subsection \<open>IPv4 options of fragments\<close>

definition padded_ipv4_options :: "bytes \<Rightarrow> bytes pres" where
  "padded_ipv4_options options =
     (if length options > 40 then err ''IPv4 options exceed 40 bytes''
      else Inr (vec_resize (pad4 (length options)) options))"

text \<open>The loop of \<open>copied_ipv4_options\<close>; the argument is \<open>options[offset..]\<close>.\<close>

function copied_options :: "bytes \<Rightarrow> bytes pres" where
  "copied_options [] = Inr []"
| "copied_options (kind # rest) =
     (if kind = 0 then Inr []
      else if kind = 1 then copied_options rest
      else if 2 > length (kind # rest) then err ''truncated IPv4 option length''
      else rbind (byte_at (kind # rest) 1) (\<lambda>length_byte.
        let len = unat length_byte in
        if len < 2 \<or> len > length (kind # rest) then Inl (Fail (InvalidIpv4Option kind len))
        else rbind (if kind AND 0x80 \<noteq> 0 then slice (kind # rest) 0 len else Inr []) (\<lambda>copy.
          rbind (copied_options (drop len (kind # rest))) (\<lambda>copied. Inr (copy @ copied)))))"
  by pat_completeness auto
termination
  by (relation "measure length") auto

definition copied_ipv4_options :: "bytes \<Rightarrow> bytes pres" where
  "copied_ipv4_options options =
     rbind (copied_options options) (\<lambda>copied. Inr (vec_resize (pad4 (length copied)) copied))"

subsection \<open>Fragmenting\<close>

definition ipv4_fragment_packet ::
  "packet \<Rightarrow> ipv4_header \<Rightarrow> byte \<Rightarrow> bytes \<Rightarrow> u16 \<Rightarrow> bool \<Rightarrow> bytes \<Rightarrow> packet" where
  "ipv4_fragment_packet p base protocol options fragment_offset more_fragments chunk =
     \<lparr>pkt_ethernet = pkt_ethernet p,
      pkt_network = NetIpv4 (base\<lparr>v4_options := options, v4_ihl := None, v4_total_length := None,
        v4_protocol := Some protocol, v4_fragment_offset := fragment_offset,
        v4_more_fragments := more_fragments, v4_dont_fragment := False\<rparr>),
      pkt_transport = None, pkt_payload = chunk\<rparr>"

function fragment_ipv4_loop ::
  "packet \<Rightarrow> ipv4_header \<Rightarrow> byte \<Rightarrow> nat \<Rightarrow> bytes \<Rightarrow> bytes \<Rightarrow> bytes \<Rightarrow> nat \<Rightarrow> bytes list pres" where
  "fragment_ipv4_loop p base protocol mtu first_options later_options payload offset =
     (if offset < length payload then
        let options = (if offset = 0 then first_options else later_options);
            header_len = 20 + length options in
        if mtu < header_len + 8 then Inl (Fail (MtuTooSmallIpv4 mtu)) else
        let capacity = ((mtu - header_len) div 8) * 8;
            remaining = length payload - offset;
            len = (if remaining > capacity then capacity else remaining);
            more_fragments = (offset + len < length payload) in
        rbind (ok_or (Msg ''IPv4 fragment offset overflow'') (u16_try_from (offset div 8)))
          (\<lambda>fragment_offset.
        rbind (slice payload offset (offset + len)) (\<lambda>chunk.
        rbind (packet_encode (ipv4_fragment_packet p base protocol options fragment_offset more_fragments chunk))
          (\<lambda>frame.
        rbind (fragment_ipv4_loop p base protocol mtu first_options later_options payload (offset + len))
          (\<lambda>frames. Inr (frame # frames)))))
      else Inr [])"
  by pat_completeness auto
termination
  by (relation "measure (\<lambda>(p, base, pr, mtu, fo, lo, payload, offset). length payload - offset)")
    (auto split: if_splits)

declare fragment_ipv4_loop.simps [simp del]

definition fragment_ipv4 :: "packet \<Rightarrow> nat \<Rightarrow> bytes list pres" where
  "fragment_ipv4 p mtu =
     (case pkt_network p of
        NetIpv6 _ \<Rightarrow> err ''fragment_ipv4 requires an IPv4 packet''
      | NetIpv4 base \<Rightarrow>
          if v4_fragment_offset base \<noteq> 0 \<or> v4_more_fragments base
          then err ''cannot fragment an already fragmented IPv4 packet'' else
          rbind (packet_protocol p) (\<lambda>protocol.
          rbind (encode_transport (pkt_network p) (pkt_transport p) (pkt_payload p)) (\<lambda>transport.
          let payload = transport @ pkt_payload p in
          rbind (padded_ipv4_options (v4_options base)) (\<lambda>first_options.
          if 20 + length first_options + length payload \<le> mtu
          then rbind (packet_encode p) (\<lambda>frame. Inr [frame])
          else if v4_dont_fragment base then Inl (Fail (ExceedsMtuDontFragment mtu))
          else rbind (copied_ipv4_options (v4_options base)) (\<lambda>later_options.
            fragment_ipv4_loop p base protocol mtu first_options later_options payload 0)))))"

definition ipv6_fragment_packet ::
  "packet \<Rightarrow> ipv6_header \<Rightarrow> byte \<Rightarrow> u32 \<Rightarrow> u16 \<Rightarrow> bool \<Rightarrow> bytes \<Rightarrow> packet" where
  "ipv6_fragment_packet p base protocol identification offset more_fragments chunk =
     \<lparr>pkt_ethernet = pkt_ethernet p,
      pkt_network = NetIpv6 (base\<lparr>v6_payload_length := None,
        v6_next_header := Some IP_PROTOCOL_FRAGMENT,
        v6_fragment := Some \<lparr>frag_next_header = protocol, frag_offset = offset,
          frag_more_fragments = more_fragments, frag_identification = identification\<rparr>\<rparr>),
      pkt_transport = None, pkt_payload = chunk\<rparr>"

text \<open>
  The loop of \<open>fragment_ipv6\<close>; its caller guarantees a capacity of at least eight bytes
  (\<open>mtu >= 56\<close>), which the first test records for termination.
\<close>

function fragment_ipv6_loop ::
  "packet \<Rightarrow> ipv6_header \<Rightarrow> byte \<Rightarrow> u32 \<Rightarrow> nat \<Rightarrow> bytes \<Rightarrow> nat \<Rightarrow> bytes list pres" where
  "fragment_ipv6_loop p base protocol identification capacity payload offset =
     (if offset < length payload \<and> 0 < capacity then
        let remaining = length payload - offset;
            len = (if remaining > capacity then capacity else remaining);
            more_fragments = (offset + len < length payload) in
        rbind (ok_or (Msg ''IPv6 fragment offset overflow'') (u16_try_from (offset div 8)))
          (\<lambda>fragment_offset.
        rbind (slice payload offset (offset + len)) (\<lambda>chunk.
        rbind (packet_encode (ipv6_fragment_packet p base protocol identification fragment_offset more_fragments chunk))
          (\<lambda>frame.
        rbind (fragment_ipv6_loop p base protocol identification capacity payload (offset + len))
          (\<lambda>frames. Inr (frame # frames)))))
      else Inr [])"
  by pat_completeness auto
termination
  by (relation "measure (\<lambda>(p, base, pr, ident, cap, payload, offset). length payload - offset)")
    (auto split: if_splits)

declare fragment_ipv6_loop.simps [simp del]

definition fragment_ipv6 :: "packet \<Rightarrow> nat \<Rightarrow> u32 \<Rightarrow> bytes list pres" where
  "fragment_ipv6 p mtu identification =
     (case pkt_network p of
        NetIpv4 _ \<Rightarrow> err ''fragment_ipv6 requires an IPv6 packet''
      | NetIpv6 base \<Rightarrow>
          if v6_fragment base \<noteq> None
          then err ''cannot fragment an already fragmented IPv6 packet'' else
          rbind (packet_protocol p) (\<lambda>protocol.
          rbind (encode_transport (pkt_network p) (pkt_transport p) (pkt_payload p)) (\<lambda>transport.
          let payload = transport @ pkt_payload p in
          if 40 + length payload \<le> mtu then rbind (packet_encode p) (\<lambda>frame. Inr [frame])
          else if mtu < 56 then Inl (Fail (MtuTooSmallIpv6 mtu))
          else fragment_ipv6_loop p base protocol identification (((mtu - 48) div 8) * 8) payload 0)))"

subsection \<open>A decoded packet as a fragment\<close>

datatype fragment_key =
    KeyIpv4 ipv4_addr ipv4_addr u16 byte
  | KeyIpv6 ipv6_addr ipv6_addr u32 byte

definition fragment_identity :: "decoded_packet \<Rightarrow> (fragment_key \<times> nat \<times> bool \<times> byte) option" where
  "fragment_identity d =
     (case pkt_network (dec_packet d) of
        NetIpv4 h \<Rightarrow>
          if v4_fragment_offset h \<noteq> 0 \<or> v4_more_fragments h then
            map_option (\<lambda>protocol.
              (KeyIpv4 (v4_source h) (v4_destination h) (v4_identification h) protocol,
               unat (v4_fragment_offset h) * 8, v4_more_fragments h, protocol)) (v4_protocol h)
          else None
      | NetIpv6 h \<Rightarrow>
          map_option (\<lambda>f.
            (KeyIpv6 (v6_source h) (v6_destination h) (frag_identification f) (frag_next_header f),
             unat (frag_offset f) * 8, frag_more_fragments f, frag_next_header f)) (v6_fragment h))"

fun clear_fragment_header :: "network_header \<Rightarrow> byte \<Rightarrow> network_header" where
  "clear_fragment_header (NetIpv4 h) protocol =
     NetIpv4 (h\<lparr>v4_fragment_offset := 0, v4_more_fragments := False, v4_total_length := None,
       v4_ihl := None, v4_protocol := Some protocol, v4_checksum := CsAuto\<rparr>)"
| "clear_fragment_header (NetIpv6 h) protocol =
     NetIpv6 (h\<lparr>v6_fragment := None, v6_next_header := Some protocol, v6_payload_length := None\<rparr>)"

subsection \<open>The pieces a loop cuts\<close>

type_synonym piece = "nat \<times> bytes \<times> bool" \<comment> \<open>offset, bytes, more fragments\<close>

text \<open>Consecutive pieces from an offset; all but the last are multiples of eight bytes.\<close>

fun fragments_from :: "nat \<Rightarrow> piece list \<Rightarrow> bool" where
  "fragments_from off [] \<longleftrightarrow> True"
| "fragments_from off ((o1, b, m) # ps) \<longleftrightarrow>
     o1 = off \<and> (m \<longleftrightarrow> ps \<noteq> []) \<and> (m \<longrightarrow> 8 dvd length b) \<and> fragments_from (off + length b) ps"

definition piece_bytes :: "piece list \<Rightarrow> bytes" where
  "piece_bytes ps = concat (map (\<lambda>(o1, b, m). b) ps)"

definition cuts :: "bytes \<Rightarrow> nat \<Rightarrow> piece list \<Rightarrow> bool" where
  "cuts payload off ps \<longleftrightarrow> fragments_from off ps \<and> piece_bytes ps = drop off payload \<and>
     (\<forall>(o1, b, m) \<in> set ps. b \<noteq> [] \<and> 8 dvd o1)"

lemma cuts_end: "length payload \<le> off \<Longrightarrow> cuts payload off []"
  by (simp add: cuts_def piece_bytes_def)

lemma cuts_step:
  assumes "off < length payload" and "8 dvd off" and "0 < len" and "off + len \<le> length payload"
    and "off + len < length payload \<Longrightarrow> 8 dvd len" and "cuts payload (off + len) ps"
  shows "cuts payload off ((off, take len (drop off payload), off + len < length payload) # ps)"
proof -
  have len: "length (take len (drop off payload)) = len" using assms(4) by simp
  have "piece_bytes ps = [] \<longleftrightarrow> ps = []"
    using assms(6) by (cases ps) (auto simp: cuts_def piece_bytes_def)
  then have "ps \<noteq> [] \<longleftrightarrow> off + len < length payload"
    using assms(6) by (auto simp: cuts_def)
  moreover have "take len (drop off payload) @ drop (off + len) payload = drop off payload"
    by (metis add.commute append_take_drop_id drop_drop)
  ultimately show ?thesis
    using assms len by (simp add: cuts_def piece_bytes_def)
qed

lemma chunk_len:
  fixes payload :: bytes and off capacity :: nat
  defines "len \<equiv> if length payload - off > capacity then capacity else length payload - off"
  assumes "off < length payload" and "0 < capacity" and "8 dvd capacity" and "8 dvd off"
  shows "0 < len" and "off + len \<le> length payload" and "len \<le> capacity"
    and "off + len < length payload \<Longrightarrow> 8 dvd len"
    and "off + len < length payload \<Longrightarrow> 8 dvd off + len"
proof -
  consider "len = capacity" "off + capacity < length payload" | "off + len = length payload" "len \<le> capacity" "0 < len"
    using assms(2) unfolding len_def by (cases "length payload - off > capacity") auto
  then show "0 < len" and "off + len \<le> length payload" and "len \<le> capacity"
    and "off + len < length payload \<Longrightarrow> 8 dvd len"
    and "off + len < length payload \<Longrightarrow> 8 dvd off + len"
    using assms(3,4,5) by (cases; auto)+
qed

text \<open>
  The contract of both fragmentation loops: an iteration emits one frame for a non-empty chunk
  at the current offset and continues behind it. The client lemma turns it into the list of
  pieces.
\<close>

locale fragment_loop =
  fixes loop :: "nat \<Rightarrow> ('e, 'f list) res" and payload :: bytes
    and emits :: "nat \<Rightarrow> bytes \<Rightarrow> bool \<Rightarrow> 'f \<Rightarrow> bool"
  assumes stop: "length payload \<le> off \<Longrightarrow> loop off = Inr []"
    and go: "off < length payload \<Longrightarrow> 8 dvd off \<Longrightarrow> loop off = Inr frames \<Longrightarrow>
      \<exists>len frame frames'. 0 < len \<and> off + len \<le> length payload \<and>
        (off + len < length payload \<longrightarrow> 8 dvd len) \<and>
        emits off (take len (drop off payload)) (off + len < length payload) frame \<and>
        loop (off + len) = Inr frames' \<and> frames = frame # frames'"
begin

lemma loop_cuts:
  assumes "loop off = Inr frames" and "8 dvd off \<or> length payload \<le> off"
  shows "\<exists>ps. cuts payload off ps \<and> list_all2 (\<lambda>(o1, b, m). emits o1 b m) ps frames"
  using assms
proof (induction "length payload - off" arbitrary: off frames rule: less_induct)
  case less
  show ?case
  proof (cases "off < length payload")
    case False
    then show ?thesis
      using less.prems stop [of off] cuts_end [of payload off] by auto
  next
    case True
    with less.prems have dvd: "8 dvd off" by simp
    from go [OF True dvd less.prems(1)] obtain len frame frames' where len: "0 < len"
      and le: "off + len \<le> length payload" and dl: "off + len < length payload \<longrightarrow> 8 dvd len"
      and emit: "emits off (take len (drop off payload)) (off + len < length payload) frame"
      and rest: "loop (off + len) = Inr frames'" and frames: "frames = frame # frames'"
      by blast
    have "length payload - (off + len) < length payload - off"
      using len True by simp
    moreover have "8 dvd off + len \<or> length payload \<le> off + len"
      using dl dvd by (cases "off + len < length payload") auto
    ultimately obtain ps where ps: "cuts payload (off + len) ps"
      and all: "list_all2 (\<lambda>(o1, b, m). emits o1 b m) ps frames'"
      using less.hyps [OF _ rest] by blast
    have "cuts payload off ((off, take len (drop off payload), off + len < length payload) # ps)"
      using cuts_step [OF True dvd len le _ ps] dl by blast
    moreover have "list_all2 (\<lambda>(o1, b, m). emits o1 b m)
        ((off, take len (drop off payload), off + len < length payload) # ps) frames"
      using emit all frames by simp
    ultimately show ?thesis by blast
  qed
qed

end

definition ipv4_emits ::
  "packet \<Rightarrow> ipv4_header \<Rightarrow> byte \<Rightarrow> nat \<Rightarrow> bytes \<Rightarrow> bytes \<Rightarrow> nat \<Rightarrow> bytes \<Rightarrow> bool \<Rightarrow> bytes \<Rightarrow> bool" where
  "ipv4_emits p base pr mtu fo lo o1 b m frame \<longleftrightarrow>
     (let options = (if o1 = 0 then fo else lo) in
      o1 div 8 < 65536 \<and> 20 + length options + length b \<le> mtu \<and>
      packet_encode (ipv4_fragment_packet p base pr options (of_nat (o1 div 8)) m b) = Inr frame)"

definition ipv6_emits ::
  "packet \<Rightarrow> ipv6_header \<Rightarrow> byte \<Rightarrow> u32 \<Rightarrow> nat \<Rightarrow> nat \<Rightarrow> bytes \<Rightarrow> bool \<Rightarrow> bytes \<Rightarrow> bool" where
  "ipv6_emits p base pr ident capacity o1 b m frame \<longleftrightarrow>
     o1 div 8 < 65536 \<and> length b \<le> capacity \<and>
     packet_encode (ipv6_fragment_packet p base pr ident (of_nat (o1 div 8)) m b) = Inr frame"

interpretation ipv4_loop: fragment_loop
    "fragment_ipv4_loop p base pr mtu fo lo payload" payload "ipv4_emits p base pr mtu fo lo"
  for p base pr mtu fo lo payload
proof unfold_locales
  fix off frames
  show "length payload \<le> off \<Longrightarrow> fragment_ipv4_loop p base pr mtu fo lo payload off = Inr []"
    by (simp add: fragment_ipv4_loop.simps)
  assume off: "off < length payload" "8 dvd off"
    and loop: "fragment_ipv4_loop p base pr mtu fo lo payload off = Inr frames"
  let ?opts = "if off = 0 then fo else lo"
  let ?cap = "((mtu - (20 + length ?opts)) div 8) * 8"
  define len where "len = (if length payload - off > ?cap then ?cap else length payload - off)"
  from loop off(1) obtain frame frames' where
    mtu: "20 + length ?opts + 8 \<le> mtu" and small: "off div 8 < 65536"
    and frame: "packet_encode (ipv4_fragment_packet p base pr ?opts (of_nat (off div 8))
        (off + len < length payload) (take len (drop off payload))) = Inr frame"
    and rest: "fragment_ipv4_loop p base pr mtu fo lo payload (off + len) = Inr frames'"
    and frames: "frames = frame # frames'"
    by (subst (asm) fragment_ipv4_loop.simps)
      (auto simp: Let_def u16_try_from_def slice_eq_Inr len_def not_less split: if_splits)
  have cap: "0 < ?cap" "8 dvd ?cap" and capm: "?cap \<le> mtu - (20 + length ?opts)"
    using mtu by auto
  note len = chunk_len [OF off(1) cap off(2), folded len_def]
  have "ipv4_emits p base pr mtu fo lo off (take len (drop off payload)) (off + len < length payload) frame"
    unfolding ipv4_emits_def Let_def using small frame len(3) capm mtu by auto
  with len rest frames show "\<exists>len frame frames'. 0 < len \<and> off + len \<le> length payload \<and>
      (off + len < length payload \<longrightarrow> 8 dvd len) \<and>
      ipv4_emits p base pr mtu fo lo off (take len (drop off payload)) (off + len < length payload) frame \<and>
      fragment_ipv4_loop p base pr mtu fo lo payload (off + len) = Inr frames' \<and> frames = frame # frames'"
    by blast
qed

interpretation ipv6_loop: fragment_loop
    "fragment_ipv6_loop p base pr ident (8 * Suc c) payload" payload
    "ipv6_emits p base pr ident (8 * Suc c)"
  for p base pr ident c payload
proof unfold_locales
  fix off frames
  show "length payload \<le> off \<Longrightarrow> fragment_ipv6_loop p base pr ident (8 * Suc c) payload off = Inr []"
    by (simp add: fragment_ipv6_loop.simps)
  assume off: "off < length payload" "8 dvd off"
    and loop: "fragment_ipv6_loop p base pr ident (8 * Suc c) payload off = Inr frames"
  let ?cap = "8 * Suc c"
  define len where "len = (if length payload - off > ?cap then ?cap else length payload - off)"
  from loop off(1) obtain frame frames' where small: "off div 8 < 65536"
    and frame: "packet_encode (ipv6_fragment_packet p base pr ident (of_nat (off div 8))
        (off + len < length payload) (take len (drop off payload))) = Inr frame"
    and rest: "fragment_ipv6_loop p base pr ident ?cap payload (off + len) = Inr frames'"
    and frames: "frames = frame # frames'"
    by (subst (asm) fragment_ipv6_loop.simps)
      (auto simp: Let_def u16_try_from_def slice_eq_Inr len_def not_less simp del: mult_Suc_right
        split: if_splits)
  have cap: "0 < ?cap" "8 dvd ?cap" by (simp, rule dvd_triv_left)
  note len = chunk_len [OF off(1) cap off(2), folded len_def]
  have "ipv6_emits p base pr ident ?cap off (take len (drop off payload)) (off + len < length payload) frame"
    unfolding ipv6_emits_def using small frame len(2,3) by simp
  with len rest frames show "\<exists>len frame frames'. 0 < len \<and> off + len \<le> length payload \<and>
      (off + len < length payload \<longrightarrow> 8 dvd len) \<and>
      ipv6_emits p base pr ident ?cap off (take len (drop off payload)) (off + len < length payload) frame \<and>
      fragment_ipv6_loop p base pr ident ?cap payload (off + len) = Inr frames' \<and> frames = frame # frames'"
    by blast
qed

subsection \<open>Decoding a fragment\<close>

lemma decode_tcp_prefix:
  assumes "decode_tcp n bs False = Inr r" and "complete_transport_header IP_PROTOCOL_TCP (take k bs)"
  shows "\<exists>r'. decode_tcp n' (take k bs) True = Inr r'"
proof -
  let ?bs = "take k bs"
  let ?off = "drop_bit 4 (bs ! 12)"
  from assms(2) have len: "12 < length ?bs" and off: "5 \<le> ?off" and hl: "unat ?off * 4 \<le> length ?bs"
    by (auto simp: complete_transport_header_def split: if_splits)
  have "5 \<le> unat ?off" using off by (simp add: word_le_nat_alt)
  then have len20: "20 \<le> length ?bs" using hl by linarith
  then have "20 \<le> length bs" and le: "length ?bs \<le> length bs" by auto
  from assms(1) this(1) obtain opts where
    "decode_tcp_options (take (unat ?off * 4 - 20) (drop 20 bs)) = Inr opts"
    by (auto simp: decode_tcp_def Let_def slice_eq_Inr split: if_splits)
  moreover have "take (unat ?off * 4 - 20) (drop 20 ?bs) = take (unat ?off * 4 - 20) (drop 20 bs)"
    using hl \<open>5 \<le> unat ?off\<close> by (simp add: take_drop)
  moreover have "?bs ! 12 = bs ! 12" using len by simp
  ultimately show ?thesis
    using len20 hl off \<open>5 \<le> unat ?off\<close>
    by (simp add: decode_tcp_def Let_def be_at_in not_less del: length_take)
qed

lemma decode_udp_prefix:
  assumes "decode_udp n bs False = Inr r" and "complete_transport_header IP_PROTOCOL_UDP (take k bs)"
  shows "\<exists>r'. decode_udp n' (take k bs) True = Inr r'"
proof -
  let ?bs = "take k bs"
  from assms(2) have len: "8 \<le> length ?bs"
    by (auto simp: complete_transport_header_def packet_consts)
  then have "8 \<le> length bs" and "8 \<le> k" by auto
  with assms(1) have "8 \<le> unat (be_word (take 2 (drop 4 bs)) :: u16)"
    by (auto simp: decode_udp_def Let_def be_at_in not_less split: if_splits)
  moreover have "take 2 (drop 4 ?bs) = take 2 (drop 4 bs)"
    using \<open>8 \<le> k\<close> by (simp add: take_drop)
  ultimately show ?thesis
    using len by (simp add: decode_udp_def Let_def be_at_in not_less del: length_take)
qed

lemma decode_transport_prefix:
  assumes "decode_transport n pr bs False = Inr r" and "complete_transport_header pr (take k bs)"
  shows "\<exists>r'. decode_transport n' pr (take k bs) True = Inr r'"
  using assms decode_tcp_prefix [of n bs r k n'] decode_udp_prefix [of n bs r k n']
  by (auto simp: decode_transport_def split: if_splits)

abbreviation strip_eth :: "ethernet_header option \<Rightarrow> ethernet_header option" where
  "strip_eth \<equiv> map_option (\<lambda>e. e\<lparr>eth_ether_type := None\<rparr>)"

text \<open>Taking the link header off a frame of a packet.\<close>

lemma decode_frame_link:
  assumes "(case pkt_ethernet p of Some e \<Rightarrow> encode_ethernet e net ip | None \<Rightarrow> Inr ip) = Inr frame"
    and "canonical_ethernet (pkt_ethernet p)"
  shows "\<exists>eth. decode_frame p frame = decode_ip_inner ip eth \<and> strip_eth eth = strip_eth (pkt_ethernet p)"
proof (cases "pkt_ethernet p")
  case None
  then show ?thesis using assms by (simp add: decode_frame_def decode_ip_def)
next
  case (Some e)
  then show ?thesis
    using assms decode_encoded_ethernet [of e net ip frame "[]"] by (auto simp: decode_frame_def)
qed

lemma decode_ipv4_fragment:
  assumes enc: "packet_encode (ipv4_fragment_packet p base pr opts fo m b) = Inr frame"
    and eth: "canonical_ethernet (pkt_ethernet p)" and frag: "fo \<noteq> 0 \<or> m"
    and prefix: "\<And>n. fo = 0 \<Longrightarrow> complete_transport_header pr b \<Longrightarrow> \<exists>r. decode_transport n pr b True = Inr r"
  shows "\<exists>d h. decode_frame p frame = Inr d \<and> dec_network_payload d = b \<and>
    fragment_identity d = Some (KeyIpv4 (v4_source base) (v4_destination base) (v4_identification base) pr,
      unat fo * 8, m, pr) \<and>
    strip_eth (pkt_ethernet (dec_packet d)) = strip_eth (pkt_ethernet p) \<and>
    pkt_network (dec_packet d) = NetIpv4 h \<and>
    strip_ipv4 h = strip_ipv4 (base\<lparr>v4_options := opts, v4_dont_fragment := False,
      v4_fragment_offset := fo, v4_more_fragments := m\<rparr>)"
proof -
  let ?h = "base\<lparr>v4_options := opts, v4_ihl := None, v4_total_length := None, v4_protocol := Some pr,
    v4_fragment_offset := fo, v4_more_fragments := m, v4_dont_fragment := False\<rparr>"
  from enc obtain ip where ip: "encode_ipv4 ?h pr b = Inr ip"
    and frame: "(case pkt_ethernet p of Some e \<Rightarrow> encode_ethernet e (NetIpv4 ?h) ip | None \<Rightarrow> Inr ip) = Inr frame"
    by (auto simp: packet_encode_def ipv4_fragment_packet_def packet_protocol_def Let_def
        cong: option.case_cong)
  obtain eth' where dec: "decode_frame p frame = decode_ip_inner ip eth'"
    and eth': "strip_eth eth' = strip_eth (pkt_ethernet p)"
    using decode_frame_link [OF frame eth] by blast
  obtain options ihl len cs where
    options: "options = vec_resize (pad4 (length opts)) opts"
    and ihl: "unat ihl * 4 = 20 + length options" "5 \<le> ihl" "ihl \<le> 15"
    and range: "v4_dscp ?h \<le> 63" "v4_ecn ?h \<le> 3" "v4_fragment_offset ?h \<le> 8191"
    and small: "20 + length options + length b < 65536"
    and len: "len = of_nat (20 + length options + length b)"
    and ip: "ip = with_field (ipv4_prefix ?h pr ihl len) cs (ipv4_suffix ?h options) @ b"
    by (rule encode_ipv4_shape [OF ip]) auto
  have ulen: "unat len = 20 + length options + length b"
    unfolding len by (rule unat_of_nat_u16 [OF small])
  have first: "decode_ip_inner ip eth' = decode_ipv4 ip eth'"
    using version_field [OF ihl(3)]
    by (simp add: decode_ip_inner_def ip with_field_def ipv4_prefix_def del: drop_bit_or)
  let ?h' = "?h\<lparr>v4_protocol := Some pr, v4_options := options, v4_ihl := Some ihl,
    v4_total_length := Some len, v4_checksum := CsValue cs\<rparr>"
  obtain r where r: "decode_payload (fo \<noteq> 0 \<or> \<not> complete_transport_header pr b) (NetIpv4 ?h') pr b True = Inr r"
    using prefix [of "NetIpv4 ?h'"] by (cases "fo = 0 \<and> complete_transport_header pr b")
      (auto simp: decode_payload_def)
  have "decode_ipv4 ip eth' = rbind (Inr r) (\<lambda>(t, p, v). Inr \<lparr>dec_packet = \<lparr>pkt_ethernet = eth',
        pkt_network = NetIpv4 ?h', pkt_transport = t, pkt_payload = p\<rparr>, dec_network_payload = b,
      dec_ipv4_checksum_valid = Some
        (internet_checksum (with_field (ipv4_prefix ?h pr ihl len) cs (ipv4_suffix ?h options)) = 0),
      dec_transport_checksum_valid = v, dec_trailing = []\<rparr>)"
    using decode_ipv4_fields [OF ihl range ulen, of pr cs "[]" eth'] frag r by (auto simp: ip)
  moreover have "strip_ipv4 ?h' = strip_ipv4 (base\<lparr>v4_options := opts, v4_dont_fragment := False,
      v4_fragment_offset := fo, v4_more_fragments := m\<rparr>)"
    by (simp add: strip_ipv4_def options)
  ultimately show ?thesis
    using dec first eth' frag
    by (cases r) (auto simp: fragment_identity_def)
qed

lemma decode_ipv6_fragment_frame:
  assumes enc: "packet_encode (ipv6_fragment_packet p base pr ident fo m b) = Inr frame"
    and eth: "canonical_ethernet (pkt_ethernet p)"
    and prefix: "\<And>n. fo = 0 \<Longrightarrow> m \<Longrightarrow> complete_transport_header pr b \<Longrightarrow> \<exists>r. decode_transport n pr b True = Inr r"
    and frag: "fo \<noteq> 0 \<or> m"
  shows "\<exists>d h. decode_frame p frame = Inr d \<and> dec_network_payload d = b \<and>
    fragment_identity d = Some (KeyIpv6 (v6_source base) (v6_destination base) ident pr, unat fo * 8, m, pr) \<and>
    strip_eth (pkt_ethernet (dec_packet d)) = strip_eth (pkt_ethernet p) \<and>
    pkt_network (dec_packet d) = NetIpv6 h \<and>
    strip_ipv6 (h\<lparr>v6_fragment := None\<rparr>) = strip_ipv6 (base\<lparr>v6_fragment := None\<rparr>)"
proof -
  let ?f = "\<lparr>frag_next_header = pr, frag_offset = fo, frag_more_fragments = m,
    frag_identification = ident\<rparr>"
  let ?h = "base\<lparr>v6_payload_length := None, v6_next_header := Some IP_PROTOCOL_FRAGMENT,
    v6_fragment := Some ?f\<rparr>"
  from enc obtain ip where ip: "encode_ipv6 ?h pr b = Inr ip"
    and frame: "(case pkt_ethernet p of Some e \<Rightarrow> encode_ethernet e (NetIpv6 ?h) ip | None \<Rightarrow> Inr ip) = Inr frame"
    by (auto simp: packet_encode_def ipv6_fragment_packet_def packet_protocol_def Let_def
        cong: option.case_cong)
  obtain eth' where dec: "decode_frame p frame = decode_ip_inner ip eth'"
    and eth': "strip_eth eth' = strip_eth (pkt_ethernet p)"
    using decode_frame_link [OF frame eth] by blast
  obtain len ext where len: "unat (len :: u16) = length ext + length b"
    and flow: "v6_flow_label ?h \<le> 0x000fffff"
    and ext: "ext = (case v6_fragment ?h of None \<Rightarrow> [] | Some f \<Rightarrow> ipv6_fragment_bytes f)"
    and off: "\<And>f. v6_fragment ?h = Some f \<Longrightarrow> frag_offset f \<le> 8191"
    and ip: "ip = be_bytes 4 (ipv6_first_word ?h) @ be_bytes 2 len @
      [if v6_fragment ?h \<noteq> None then IP_PROTOCOL_FRAGMENT else unwrap_or pr (v6_next_header ?h),
       v6_hop_limit ?h] @ be_bytes 16 (v6_source ?h) @ be_bytes 16 (v6_destination ?h) @ ext @ b"
    by (rule encode_ipv6_shape [OF ip]) auto
  have first: "decode_ip_inner ip eth' = decode_ipv6 ip eth'"
    using ipv6_first_word_fields(3) [OF flow]
    by (simp add: decode_ip_inner_def ip be_bytes_numeral)
  let ?h' = "?h\<lparr>v6_payload_length := Some len, v6_next_header := Some IP_PROTOCOL_FRAGMENT\<rparr>"
  obtain r where r: "decode_payload (fo \<noteq> 0 \<or> \<not> complete_transport_header pr b) (NetIpv6 ?h') pr b True = Inr r"
    using prefix [of "NetIpv6 ?h'"] frag by (cases "fo = 0 \<and> complete_transport_header pr b")
      (auto simp: decode_payload_def)
  have "decode_ipv6 ip eth' = rbind (Inr r) (\<lambda>(t, p, v). Inr \<lparr>dec_packet = \<lparr>pkt_ethernet = eth',
        pkt_network = NetIpv6 ?h', pkt_transport = t, pkt_payload = p\<rparr>, dec_network_payload = b,
      dec_ipv4_checksum_valid = None, dec_transport_checksum_valid = v, dec_trailing = []\<rparr>)"
    using decode_ipv6_fields [OF ext len flow, of IP_PROTOCOL_FRAGMENT "[]" eth'] off frag r
    by (auto simp: ip)
  moreover have "strip_ipv6 (?h'\<lparr>v6_fragment := None\<rparr>) = strip_ipv6 (base\<lparr>v6_fragment := None\<rparr>)"
    by (simp add: strip_ipv6_def)
  ultimately show ?thesis
    using dec first eth' by (cases r) (auto simp: fragment_identity_def)
qed

subsection \<open>All fragments of a packet\<close>

text \<open>A decoded fragment: its key and protocol, and the piece of the payload it carries.\<close>

definition fragment_view :: "decoded_packet \<Rightarrow> (fragment_key \<times> byte \<times> piece) option" where
  "fragment_view d = map_option (\<lambda>(key, off, m, pr). (key, pr, (off, dec_network_payload d, m)))
     (fragment_identity d)"

definition key_of :: "packet \<Rightarrow> byte \<Rightarrow> u32 \<Rightarrow> fragment_key" where
  "key_of p pr ident = (case pkt_network p of
      NetIpv4 h \<Rightarrow> KeyIpv4 (v4_source h) (v4_destination h) (v4_identification h) pr
    | NetIpv6 h \<Rightarrow> KeyIpv6 (v6_source h) (v6_destination h) ident pr)"

lemma fragments_from_ge: "fragments_from off qs \<Longrightarrow> (o1, b, m) \<in> set qs \<Longrightarrow> off \<le> o1"
proof (induction qs arbitrary: off)
  case (Cons q qs)
  obtain x y z where q: "q = (x, y, z)" by (cases q)
  show ?case
    using Cons.prems Cons.IH [of "off + length y"] by (auto simp: q)
qed simp

lemma cuts_head:
  assumes "cuts payload 0 ps" and "ps \<noteq> []"
  obtains b m qs where "ps = (0, b, m) # qs" and "payload = b @ piece_bytes qs"
    and "\<forall>(o1, b1, m1) \<in> set qs. 0 < o1"
proof -
  from assms obtain b m qs where ps: "ps = (0, b, m) # qs" and b: "b \<noteq> []"
    and from_b: "fragments_from (length b) qs"
    by (cases ps) (auto simp: cuts_def)
  moreover have "payload = b @ piece_bytes qs"
    using assms(1) by (simp add: cuts_def ps piece_bytes_def)
  moreover have "\<forall>(o1, b1, m1) \<in> set qs. 0 < o1"
    using fragments_from_ge [OF from_b] b by (cases b) fastforce+
  ultimately show thesis by (intro that)
qed

lemma cuts_prefix:
  assumes "cuts payload 0 ps" and "(0, b, m) \<in> set ps" shows "\<exists>k. b = take k payload"
proof -
  have "ps \<noteq> []" using assms(2) by auto
  from cuts_head [OF assms(1) this] obtain b' m' qs where ps: "ps = (0, b', m') # qs"
    and payload: "payload = b' @ piece_bytes qs"
    and pos: "\<forall>(o1, b1, m1) \<in> set qs. 0 < o1" .
  have "b = b'" using assms(2) pos by (auto simp: ps)
  then show ?thesis using payload by (metis append_eq_conv_conj)
qed

text \<open>More than one piece: every piece is a proper fragment.\<close>

lemma cuts_proper:
  assumes "cuts payload 0 ps" and "2 \<le> length ps" and "(o1, b, m) \<in> set ps"
  shows "o1 \<noteq> 0 \<or> m"
proof -
  have "ps \<noteq> []" using assms(3) by auto
  from cuts_head [OF assms(1) this] obtain b' m' qs where ps: "ps = (0, b', m') # qs"
    and "payload = b' @ piece_bytes qs" and pos: "\<forall>(o1, b1, m1) \<in> set qs. 0 < o1" .
  have m': "m'" using assms(1,2) by (auto simp: cuts_def ps)
  show ?thesis using assms(3) pos m' by (auto simp: ps)
qed

definition good_fragment :: "packet \<Rightarrow> byte \<Rightarrow> u32 \<Rightarrow> piece \<Rightarrow> decoded_packet \<Rightarrow> bool" where
  "good_fragment p pr ident piece d \<longleftrightarrow> fragment_view d = Some (key_of p pr ident, pr, piece) \<and>
     strip_eth (pkt_ethernet (dec_packet d)) = strip_eth (pkt_ethernet p) \<and>
     addresses (pkt_network (dec_packet d)) = addresses (pkt_network p) \<and>
     (fst piece = 0 \<longrightarrow>
       strip_network (clear_fragment_header (pkt_network (dec_packet d)) pr) = strip_network (pkt_network p))"

lemma first_fragment_decodes:
  assumes "canonical_packet p" and "packet_protocol p = Inr pr" and "network_payload p = Inr np"
    and "complete_transport_header pr (take k np)"
  shows "\<exists>r. decode_transport n pr (take k np) True = Inr r"
proof -
  from assms(1,2) have "canonical_transport (pkt_transport p) pr" by (simp add: canonical_packet_def)
  moreover from assms(3) obtain t where
    "encode_transport (pkt_network p) (pkt_transport p) (pkt_payload p) = Inr t"
    and "np = t @ pkt_payload p"
    by (auto simp: network_payload_def)
  ultimately obtain r where "decode_transport (pkt_network p) pr np False = Inr r"
    using decode_encoded_transport [of "pkt_network p" "pkt_transport p" "pkt_payload p" t pr "pkt_network p"]
    by (auto simp: decode_payload_def)
  from decode_transport_prefix [OF this assms(4)] show ?thesis .
qed

lemma ipv4_emits_decodes:
  assumes can: "canonical_packet p" and pr: "packet_protocol p = Inr pr"
    and np: "network_payload p = Inr np" and net: "pkt_network p = NetIpv4 base"
    and fo: "fo = vec_resize (pad4 (length (v4_options base))) (v4_options base)"
    and df: "\<not> v4_dont_fragment base" and proper: "o1 \<noteq> 0 \<or> m" and dvd: "8 dvd o1"
    and pre: "o1 = 0 \<longrightarrow> (\<exists>k. b = take k np)"
    and emit: "ipv4_emits p base pr mtu fo lo o1 b m frame"
  shows "\<exists>d. decode_frame p frame = Inr d \<and> good_fragment p pr ident (o1, b, m) d"
proof -
  let ?opts = "if o1 = 0 then fo else lo"
  let ?fo = "of_nat (o1 div 8) :: u16"
  have small: "o1 div 8 < 65536"
    and enc: "packet_encode (ipv4_fragment_packet p base pr ?opts ?fo m b) = Inr frame"
    using emit by (auto simp: ipv4_emits_def Let_def)
  have fo8: "unat ?fo * 8 = o1"
    using unat_of_nat_u16 [OF small] dvd by simp
  then have zero: "?fo = 0 \<longleftrightarrow> o1 = 0" by (metis mult_0 unat_0 mult_eq_0_iff unat_eq_zero zero_neq_numeral)
  have eth: "canonical_ethernet (pkt_ethernet p)" and base: "v4_fragment_offset base = 0" "\<not> v4_more_fragments base"
    using can net by (auto simp: canonical_packet_def)
  have "\<exists>r. decode_transport n pr b True = Inr r" if "?fo = 0" "complete_transport_header pr b" for n
    using that zero pre first_fragment_decodes [OF can pr np] by auto
  from decode_ipv4_fragment [OF enc eth _ this] proper zero obtain d h where d: "decode_frame p frame = Inr d"
    "dec_network_payload d = b"
    "fragment_identity d = Some (KeyIpv4 (v4_source base) (v4_destination base) (v4_identification base) pr,
      unat ?fo * 8, m, pr)"
    "strip_eth (pkt_ethernet (dec_packet d)) = strip_eth (pkt_ethernet p)"
    "pkt_network (dec_packet d) = NetIpv4 h"
    and h: "strip_ipv4 h = strip_ipv4 (base\<lparr>v4_options := ?opts, v4_dont_fragment := False,
      v4_fragment_offset := ?fo, v4_more_fragments := m\<rparr>)"
    by blast
  have "strip_ipv4 (h\<lparr>v4_fragment_offset := 0, v4_more_fragments := False\<rparr>) =
      (strip_ipv4 h)\<lparr>v4_fragment_offset := 0, v4_more_fragments := False\<rparr>"
    by (simp add: strip_ipv4_def)
  also have "\<dots> = strip_ipv4 (base\<lparr>v4_options := ?opts\<rparr>)"
    unfolding h using df base by (cases base) (simp add: strip_ipv4_def)
  finally have "o1 = 0 \<Longrightarrow> strip_network (clear_fragment_header (NetIpv4 h) pr) = strip_network (NetIpv4 base)"
    by (simp add: strip_ipv4_def fo)
  moreover have "v4_source h = v4_source base \<and> v4_destination h = v4_destination base"
    using arg_cong [OF h, of v4_source] arg_cong [OF h, of v4_destination] by (simp add: strip_ipv4_def)
  ultimately show ?thesis
    using d net fo8 by (auto simp: good_fragment_def fragment_view_def key_of_def)
qed

lemma ipv6_emits_decodes:
  assumes can: "canonical_packet p" and pr: "packet_protocol p = Inr pr"
    and np: "network_payload p = Inr np" and net: "pkt_network p = NetIpv6 base"
    and proper: "o1 \<noteq> 0 \<or> m" and dvd: "8 dvd o1"
    and pre: "o1 = 0 \<longrightarrow> (\<exists>k. b = take k np)"
    and emit: "ipv6_emits p base pr ident capacity o1 b m frame"
  shows "\<exists>d. decode_frame p frame = Inr d \<and> good_fragment p pr ident (o1, b, m) d"
proof -
  let ?fo = "of_nat (o1 div 8) :: u16"
  have small: "o1 div 8 < 65536"
    and enc: "packet_encode (ipv6_fragment_packet p base pr ident ?fo m b) = Inr frame"
    using emit by (auto simp: ipv6_emits_def)
  have fo8: "unat ?fo * 8 = o1"
    using unat_of_nat_u16 [OF small] dvd by simp
  then have zero: "?fo = 0 \<longleftrightarrow> o1 = 0" by (metis mult_0 unat_0 mult_eq_0_iff unat_eq_zero zero_neq_numeral)
  have eth: "canonical_ethernet (pkt_ethernet p)" and base: "v6_fragment base = None"
    using can net by (auto simp: canonical_packet_def)
  have "\<exists>r. decode_transport n pr b True = Inr r" if "?fo = 0" "complete_transport_header pr b" for n
    using that zero pre first_fragment_decodes [OF can pr np] by auto
  from decode_ipv6_fragment_frame [OF enc eth this] proper zero obtain d h where
    d: "decode_frame p frame = Inr d" "dec_network_payload d = b"
    "fragment_identity d = Some (KeyIpv6 (v6_source base) (v6_destination base) ident pr, unat ?fo * 8, m, pr)"
    "strip_eth (pkt_ethernet (dec_packet d)) = strip_eth (pkt_ethernet p)"
    "pkt_network (dec_packet d) = NetIpv6 h"
    and h: "strip_ipv6 (h\<lparr>v6_fragment := None\<rparr>) = strip_ipv6 (base\<lparr>v6_fragment := None\<rparr>)"
    by blast
  have "strip_ipv6 (h\<lparr>v6_fragment := None\<rparr>) = strip_ipv6 base"
    unfolding h using base by (cases base) simp
  then have "strip_network (clear_fragment_header (NetIpv6 h) pr) = strip_network (NetIpv6 base)"
    by (simp add: strip_ipv6_def)
  moreover have "v6_source h = v6_source base \<and> v6_destination h = v6_destination base"
    using arg_cong [OF h, of v6_source] arg_cong [OF h, of v6_destination] by (simp add: strip_ipv6_def)
  ultimately show ?thesis
    using d net fo8 by (auto simp: good_fragment_def fragment_view_def key_of_def)
qed

text \<open>Decoding the frames of a cut: the fragments carry the pieces in order.\<close>

lemma decode_frames:
  assumes "list_all2 (\<lambda>(o1, b, m). emits o1 b m) ps frames"
    and "\<And>o1 b m frame. (o1, b, m) \<in> set ps \<Longrightarrow> emits o1 b m frame \<Longrightarrow>
      \<exists>d. decode_frame p frame = Inr d \<and> good (o1, b, m) d"
  shows "\<exists>ds. rmap (decode_frame p) frames = Inr ds \<and> list_all2 good ps ds"
  using assms
proof (induction ps frames rule: list_all2_induct)
  case Nil
  show ?case by simp
next
  case (Cons piece ps frame frames)
  obtain o1 b m where piece: "piece = (o1, b, m)" by (cases piece)
  obtain d where "decode_frame p frame = Inr d" and "good piece d"
    using Cons.prems [of o1 b m frame] Cons.hyps(1) by (auto simp: piece)
  moreover obtain ds where "rmap (decode_frame p) frames = Inr ds" and "list_all2 good ps ds"
    using Cons.IH Cons.prems by (metis list.set_intros(2))
  ultimately show ?case by auto
qed

text \<open>
  What fragmenting a packet yields when it does not fit the MTU: at least two frames, which
  decode to fragments of one datagram that carry consecutive pieces of the network payload.
\<close>

definition fragments_of :: "packet \<Rightarrow> byte \<Rightarrow> u32 \<Rightarrow> bytes \<Rightarrow> piece list \<Rightarrow> decoded_packet list \<Rightarrow> bool" where
  "fragments_of p pr ident np ps ds \<longleftrightarrow> 2 \<le> length ps \<and> cuts np 0 ps \<and>
     list_all2 (good_fragment p pr ident) ps ds"

lemma single_cut: "cuts np 0 [(o1, b, m)] \<Longrightarrow> b = np \<and> o1 = 0"
  by (simp add: cuts_def piece_bytes_def)

lemma cuts_two:
  assumes "cuts np 0 ps" and "np \<noteq> []" and "\<And>b m. (0, b, m) \<in> set ps \<Longrightarrow> b \<noteq> np"
  shows "2 \<le> length ps"
proof (cases ps)
  case Nil
  then show ?thesis using assms(1,2) by (simp add: cuts_def piece_bytes_def)
next
  case (Cons piece qs)
  obtain o1 b m where "piece = (o1, b, m)" by (cases piece)
  then show ?thesis
    using Cons assms single_cut [of np o1 b m] by (cases qs) auto
qed

text \<open>The length of an encoded packet without transport header.\<close>

definition link_len :: "packet \<Rightarrow> nat" where
  "link_len p = (case pkt_ethernet p of None \<Rightarrow> 0 | Some e \<Rightarrow> if eth_vlan e = None then 14 else 18)"

lemma encode_ethernet_length:
  assumes "(case pkt_ethernet p of Some e \<Rightarrow> encode_ethernet e net ip | None \<Rightarrow> Inr ip) = Inr frame"
  shows "length frame = link_len p + length ip"
  using assms by (auto simp: encode_ethernet_def link_len_def Let_def split: option.splits if_splits)

lemma ipv4_fragment_length:
  assumes "packet_encode (ipv4_fragment_packet p base pr opts fo m b) = Inr frame"
  shows "length frame = link_len p + 20 + pad4 (length opts) + length b"
proof -
  let ?h = "base\<lparr>v4_options := opts, v4_ihl := None, v4_total_length := None, v4_protocol := Some pr,
    v4_fragment_offset := fo, v4_more_fragments := m, v4_dont_fragment := False\<rparr>"
  from assms obtain ip where ip: "encode_ipv4 ?h pr b = Inr ip"
    and "(case pkt_ethernet p of Some e \<Rightarrow> encode_ethernet e (NetIpv4 ?h) ip | None \<Rightarrow> Inr ip) = Inr frame"
    by (auto simp: packet_encode_def ipv4_fragment_packet_def packet_protocol_def Let_def
        cong: option.case_cong)
  moreover have "length ip = 20 + pad4 (length opts) + length b"
    by (rule encode_ipv4_shape [OF ip]) auto
  ultimately show ?thesis using encode_ethernet_length by fastforce
qed

lemma ipv6_fragment_length:
  assumes "packet_encode (ipv6_fragment_packet p base pr ident fo m b) = Inr frame"
  shows "length frame = link_len p + 48 + length b"
proof -
  let ?h = "base\<lparr>v6_payload_length := None, v6_next_header := Some IP_PROTOCOL_FRAGMENT,
    v6_fragment := Some \<lparr>frag_next_header = pr, frag_offset = fo, frag_more_fragments = m,
      frag_identification = ident\<rparr>\<rparr>"
  from assms obtain ip where ip: "encode_ipv6 ?h pr b = Inr ip"
    and "(case pkt_ethernet p of Some e \<Rightarrow> encode_ethernet e (NetIpv6 ?h) ip | None \<Rightarrow> Inr ip) = Inr frame"
    by (auto simp: packet_encode_def ipv6_fragment_packet_def packet_protocol_def Let_def
        cong: option.case_cong)
  moreover have "length ip = 48 + length b"
    by (rule encode_ipv6_shape [OF ip]) auto
  ultimately show ?thesis using encode_ethernet_length by fastforce
qed

lemma copied_ipv4_options_length: "copied_ipv4_options bs = Inr lo \<Longrightarrow> pad4 (length lo) = length lo"
  by (auto simp: copied_ipv4_options_def)

lemma fragment_ipv4_fragments:
  assumes frag: "fragment_ipv4 p mtu = Inr frames" and can: "canonical_packet p"
    and pr: "packet_protocol p = Inr pr" and np: "network_payload p = Inr np" and "np \<noteq> []"
    and net: "pkt_network p = NetIpv4 base"
    and big: "mtu < 20 + pad4 (length (v4_options base)) + length np"
  shows "\<exists>ps ds. rmap (decode_frame p) frames = Inr ds \<and> fragments_of p pr ident np ps ds \<and>
    (\<forall>frame \<in> set frames. length frame \<le> link_len p + mtu)"
proof -
  define fo where "fo = vec_resize (pad4 (length (v4_options base))) (v4_options base)"
  obtain t where t: "encode_transport (pkt_network p) (pkt_transport p) (pkt_payload p) = Inr t"
    and npt: "np = t @ pkt_payload p"
    using np by (auto simp: network_payload_def)
  from frag net pr t npt big obtain lo where df: "\<not> v4_dont_fragment base"
    and lo: "copied_ipv4_options (v4_options base) = Inr lo"
    and loop: "fragment_ipv4_loop p base pr mtu fo lo np 0 = Inr frames"
    by (auto simp: fragment_ipv4_def padded_ipv4_options_def fo_def Let_def split: if_splits)
  from ipv4_loop.loop_cuts [OF loop] obtain ps where cut: "cuts np 0 ps"
    and emits: "list_all2 (\<lambda>(o1, b, m). ipv4_emits p base pr mtu fo lo o1 b m) ps frames"
    by auto
  have size: "20 + length (if o1 = 0 then fo else lo) + length b \<le> mtu" if "(o1, b, m) \<in> set ps" for o1 b m
    using emits that by (auto simp: list_all2_conv_all_nth ipv4_emits_def Let_def in_set_conv_nth)
  have two: "2 \<le> length ps"
    using cuts_two [OF cut \<open>np \<noteq> []\<close>] size [of 0] big by (fastforce simp: fo_def)
  have "\<exists>ds. rmap (decode_frame p) frames = Inr ds \<and> list_all2 (good_fragment p pr ident) ps ds"
  proof (rule decode_frames [OF emits])
    fix o1 b m frame
    assume piece: "(o1, b, m) \<in> set ps" and emit: "ipv4_emits p base pr mtu fo lo o1 b m frame"
    have "8 dvd o1" using cut piece by (auto simp: cuts_def)
    moreover have "o1 = 0 \<longrightarrow> (\<exists>k. b = take k np)" using cuts_prefix [OF cut] piece by auto
    ultimately show "\<exists>d. decode_frame p frame = Inr d \<and> good_fragment p pr ident (o1, b, m) d"
      by (rule ipv4_emits_decodes [OF can pr np net fo_def df cuts_proper [OF cut two piece] _ _ emit])
  qed
  moreover have "\<forall>frame \<in> set frames. length frame \<le> link_len p + mtu"
  proof
    fix frame assume "frame \<in> set frames"
    then obtain o1 b m where "ipv4_emits p base pr mtu fo lo o1 b m frame"
      using emits by (fastforce simp: list_all2_conv_all_nth in_set_conv_nth)
    moreover have "pad4 (length (if o1 = 0 then fo else lo)) = length (if o1 = 0 then fo else lo)"
      using copied_ipv4_options_length [OF lo] by (simp add: fo_def)
    ultimately show "length frame \<le> link_len p + mtu"
      using ipv4_fragment_length by (fastforce simp: ipv4_emits_def Let_def)
  qed
  ultimately show ?thesis
    using cut two by (auto simp: fragments_of_def)
qed

lemma fragment_ipv6_fragments:
  assumes frag: "fragment_ipv6 p mtu ident = Inr frames" and can: "canonical_packet p"
    and pr: "packet_protocol p = Inr pr" and np: "network_payload p = Inr np" and "np \<noteq> []"
    and net: "pkt_network p = NetIpv6 base" and big: "mtu < 40 + length np"
  shows "\<exists>ps ds. rmap (decode_frame p) frames = Inr ds \<and> fragments_of p pr ident np ps ds \<and>
    (\<forall>frame \<in> set frames. length frame \<le> link_len p + mtu)"
proof -
  obtain t where t: "encode_transport (pkt_network p) (pkt_transport p) (pkt_payload p) = Inr t"
    and npt: "np = t @ pkt_payload p"
    using np by (auto simp: network_payload_def)
  from frag net pr t npt big have mtu: "56 \<le> mtu"
    and loop: "fragment_ipv6_loop p base pr ident (((mtu - 48) div 8) * 8) np 0 = Inr frames"
    by (auto simp: fragment_ipv6_def Let_def split: if_splits)
  obtain c where c: "(mtu - 48) div 8 = Suc c"
    using mtu by (cases "(mtu - 48) div 8") auto
  have loop': "fragment_ipv6_loop p base pr ident (8 * Suc c) np 0 = Inr frames"
    using loop unfolding c by (simp only: mult.commute [of _ 8])
  have capacity: "8 * Suc c \<le> mtu - 48"
    using c by (metis div_times_less_eq_dividend mult.commute)
  from ipv6_loop.loop_cuts [OF loop'] obtain ps where cut: "cuts np 0 ps"
    and emits: "list_all2 (\<lambda>(o1, b, m). ipv6_emits p base pr ident (8 * Suc c) o1 b m) ps frames"
    by auto
  have size: "length b \<le> 8 * Suc c" if "(o1, b, m) \<in> set ps" for o1 b m
    using emits that by (auto simp: list_all2_conv_all_nth ipv6_emits_def in_set_conv_nth)
  have two: "2 \<le> length ps"
    using cuts_two [OF cut \<open>np \<noteq> []\<close>] size [of 0] big capacity mtu by fastforce
  have "\<exists>ds. rmap (decode_frame p) frames = Inr ds \<and> list_all2 (good_fragment p pr ident) ps ds"
  proof (rule decode_frames [OF emits])
    fix o1 b m frame
    assume piece: "(o1, b, m) \<in> set ps" and emit: "ipv6_emits p base pr ident (8 * Suc c) o1 b m frame"
    have "8 dvd o1" using cut piece by (auto simp: cuts_def)
    moreover have "o1 = 0 \<longrightarrow> (\<exists>k. b = take k np)" using cuts_prefix [OF cut] piece by auto
    ultimately show "\<exists>d. decode_frame p frame = Inr d \<and> good_fragment p pr ident (o1, b, m) d"
      by (rule ipv6_emits_decodes [OF can pr np net cuts_proper [OF cut two piece] _ _ emit])
  qed
  moreover have "\<forall>frame \<in> set frames. length frame \<le> link_len p + mtu"
  proof
    fix frame assume "frame \<in> set frames"
    then obtain o1 b m where "ipv6_emits p base pr ident (8 * Suc c) o1 b m frame"
      using emits by (fastforce simp: list_all2_conv_all_nth in_set_conv_nth)
    then show "length frame \<le> link_len p + mtu"
      using ipv6_fragment_length capacity mtu by (fastforce simp: ipv6_emits_def)
  qed
  ultimately show ?thesis
    using cut two by (auto simp: fragments_of_def)
qed

end
