(* ===== verification/Keyed_Store.thy ===== *)
theory Keyed_Store
  imports Prelude "HOL-Library.AList"
begin

text \<open>
  The two key-value containers of the program. A \<open>HashMap\<close> is an association list with
  distinct keys (the code never depends on the iteration order of the maps modelled here),
  a \<open>BTreeMap\<close> an association list with strictly increasing keys. Both provide the same
  interface, stated as a locale.
\<close>

locale keyed_store =
  fixes lookup :: "'m \<Rightarrow> 'k \<Rightarrow> 'v option"
    and update :: "'k \<Rightarrow> 'v \<Rightarrow> 'm \<Rightarrow> 'm"
    and remove :: "'k \<Rightarrow> 'm \<Rightarrow> 'm"
    and wf :: "'m \<Rightarrow> bool"
  assumes lookup_update: "wf m \<Longrightarrow> lookup (update k v m) j = (if j = k then Some v else lookup m j)"
    and lookup_remove: "wf m \<Longrightarrow> lookup (remove k m) j = (if j = k then None else lookup m j)"
    and wf_update: "wf m \<Longrightarrow> wf (update k v m)"
    and wf_remove: "wf m \<Longrightarrow> wf (remove k m)"
begin

lemma lookup_update_same: "wf m \<Longrightarrow> lookup (update k v m) k = Some v"
  and lookup_update_other: "wf m \<Longrightarrow> j \<noteq> k \<Longrightarrow> lookup (update k v m) j = lookup m j"
  and lookup_remove_same: "wf m \<Longrightarrow> lookup (remove k m) k = None"
  and lookup_remove_other: "wf m \<Longrightarrow> j \<noteq> k \<Longrightarrow> lookup (remove k m) j = lookup m j"
  by (simp_all add: lookup_update lookup_remove)

lemma lookup_update_twice:
  "wf m \<Longrightarrow> lookup (update k v (update k w m)) = lookup (update k v m)"
  by (auto simp: lookup_update wf_update)

lemma lookup_remove_update:
  "wf m \<Longrightarrow> lookup (remove k (update k v m)) = lookup (remove k m)"
  by (auto simp: lookup_update lookup_remove wf_update)

lemma wf_fold_update: "wf m \<Longrightarrow> wf (fold (\<lambda>(k, v). update k v) kvs m)"
  by (induction kvs arbitrary: m) (auto simp: wf_update)

text \<open>The last write to a key wins.\<close>

lemma lookup_fold_update:
  "wf m \<Longrightarrow> lookup (fold (\<lambda>(k, v). update k v) kvs m) j = opt_or (map_of (rev kvs) j) (lookup m j)"
proof (induction kvs arbitrary: m)
  case Nil
  then show ?case by simp
next
  case (Cons kv kvs)
  obtain k v where kv: "kv = (k, v)" by (cases kv)
  have "lookup (fold (\<lambda>(k, v). update k v) kvs (update k v m)) j =
      opt_or (map_of (rev kvs) j) (lookup (update k v m) j)"
    using Cons by (simp add: wf_update)
  then show ?case
    using Cons.prems by (cases "map_of (rev kvs) j") (auto simp: kv lookup_update map_add_Some_iff map_add_def)
qed

end

subsection \<open>Hash maps\<close>

type_synonym ('k, 'v) hash_map = "('k \<times> 'v) list"

definition hm_wf :: "('k, 'v) hash_map \<Rightarrow> bool" where
  "hm_wf m \<longleftrightarrow> distinct (map fst m)"

interpretation hm: keyed_store map_of AList.update AList.delete hm_wf
proof unfold_locales
  fix m :: "('k, 'v) hash_map" and j k :: 'k and v :: 'v
  show "map_of (AList.update k v m) j = (if j = k then Some v else map_of m j)"
    by (simp add: update_conv')
  show "map_of (AList.delete k m) j = (if j = k then None else map_of m j)"
    by (simp add: delete_conv')
  show "hm_wf m \<Longrightarrow> hm_wf (AList.update k v m)"
    by (simp add: hm_wf_def distinct_update)
  show "hm_wf m \<Longrightarrow> hm_wf (AList.delete k m)"
    by (simp add: hm_wf_def distinct_delete)
qed

lemma update_fresh: "map_of m k = None \<Longrightarrow> AList.update k v m = m @ [(k, v)]"
  by (induction m) auto

subsection \<open>B-tree maps\<close>

type_synonym ('k, 'v) btree_map = "('k \<times> 'v) list"

fun bt_insert :: "'k::linorder \<Rightarrow> 'v \<Rightarrow> ('k, 'v) btree_map \<Rightarrow> ('k, 'v) btree_map" where
  "bt_insert k v [] = [(k, v)]"
| "bt_insert k v ((k', v') # m) =
     (if k < k' then (k, v) # (k', v') # m
      else if k = k' then (k, v) # m
      else (k', v') # bt_insert k v m)"

definition bt_remove :: "'k::linorder \<Rightarrow> ('k, 'v) btree_map \<Rightarrow> ('k, 'v) btree_map" where
  "bt_remove k m = filter (\<lambda>kv. fst kv \<noteq> k) m"

definition bt_wf :: "('k::linorder, 'v) btree_map \<Rightarrow> bool" where
  "bt_wf m \<longleftrightarrow> sorted_wrt (<) (map fst m)"

lemma bt_wf_simps [simp]: "bt_wf []" "bt_wf (kv # m) \<longleftrightarrow> (\<forall>x \<in> set m. fst kv < fst x) \<and> bt_wf m"
  by (auto simp: bt_wf_def)

lemma set_bt_insert_subset: "set (bt_insert k v m) \<subseteq> insert (k, v) (set m)"
  by (induction m) (auto split: if_splits)

lemma set_bt_insert: "bt_wf m \<Longrightarrow> set (bt_insert k v m) = insert (k, v) {kv \<in> set m. fst kv \<noteq> k}"
proof (induction m)
  case (Cons kv m)
  then show ?case by (cases kv) auto
qed simp

lemma bt_wf_insert: "bt_wf m \<Longrightarrow> bt_wf (bt_insert k v m)"
proof (induction m)
  case (Cons kv m)
  then show ?case
    using set_bt_insert_subset [of k v m] by (cases kv) auto
qed simp

lemma map_of_bt_insert: "map_of (bt_insert k v m) j = (if j = k then Some v else map_of m j)"
  by (induction m) auto

lemma map_of_filter_key: "map_of (filter (\<lambda>kv. fst kv \<noteq> k) m) j = (if j = k then None else map_of m j)"
  by (induction m) auto

interpretation bt: keyed_store map_of bt_insert bt_remove bt_wf
proof unfold_locales
  fix m :: "('k::linorder, 'v) btree_map" and j k :: 'k and v :: 'v
  show "map_of (bt_insert k v m) j = (if j = k then Some v else map_of m j)"
    by (rule map_of_bt_insert)
  show "map_of (bt_remove k m) j = (if j = k then None else map_of m j)"
    unfolding bt_remove_def by (rule map_of_filter_key)
  show "bt_wf m \<Longrightarrow> bt_wf (bt_insert k v m)"
    by (rule bt_wf_insert)
  show "bt_wf m \<Longrightarrow> bt_wf (bt_remove k m)"
    by (simp add: bt_wf_def bt_remove_def sorted_wrt_map sorted_wrt_filter)
qed

lemma bt_wf_distinct: "bt_wf m \<Longrightarrow> distinct (map fst m)"
  unfolding bt_wf_def by (simp add: strict_sorted_iff)

text \<open>A B-tree map is determined by its entries.\<close>

lemma bt_eqI: "bt_wf m \<Longrightarrow> bt_wf m' \<Longrightarrow> set m = set m' \<Longrightarrow> m = m'"
proof (induction m arbitrary: m')
  case Nil
  then show ?case by simp
next
  case (Cons kv m)
  then obtain kv' m'' where m': "m' = kv' # m''" by (cases m') auto
  have "kv = kv'"
    using Cons.prems unfolding m' by (metis bt_wf_simps(2) insertE insertI1 list.simps(15) order_less_asym)
  moreover from this have "set m = set m''"
    using Cons.prems unfolding m' by (metis bt_wf_simps(2) insert_ident list.simps(15) less_irrefl)
  ultimately show ?case
    using Cons m' by simp
qed

end
