(* ===== verification/Reassembly.thy ===== *)
theory Reassembly
  imports Fragment Keyed_Store Transition_System "HOL-Library.Multiset"
begin

text \<open>
  The bounded fragment reassembler of \<open>src/src/packet.rs\<close>: \<open>ReassemblyConfig\<close>, \<open>FragmentSet\<close>
  and \<open>FragmentReassembler\<close>. Instants and durations are numbers of clock ticks. The map of
  datagrams is a hash map, the chunks of a datagram a B-tree map from offsets to bytes.
\<close>

record reassembly_config =
  max_datagrams :: nat
  max_buffered_bytes :: nat
  reassembly_timeout :: nat

definition default_reassembly_config :: reassembly_config where
  "default_reassembly_config = \<lparr>max_datagrams = 1024, max_buffered_bytes = 16 * 1024 * 1024,
     reassembly_timeout = 30 * 10 ^ 9\<rparr>"

type_synonym chunk_map = "(nat, bytes) btree_map"

record fragment_set =
  fs_created :: nat
  fs_ethernet :: "ethernet_header option"
  fs_network :: network_header
  fs_protocol :: byte
  fs_chunks :: chunk_map
  fs_total_length :: "nat option"

record reassembler =
  ra_config :: reassembly_config
  ra_datagrams :: "(fragment_key, fragment_set) hash_map"

definition reassembler_new :: "reassembly_config \<Rightarrow> reassembler" where
  "reassembler_new config = \<lparr>ra_config = config, ra_datagrams = []\<rparr>"

text \<open>\<open>now.checked_duration_since(created).unwrap_or_default()\<close> is truncated subtraction.\<close>

definition live :: "reassembly_config \<Rightarrow> nat \<Rightarrow> fragment_set \<Rightarrow> bool" where
  "live config now fs \<longleftrightarrow> now - fs_created fs \<le> reassembly_timeout config"

definition expire :: "reassembler \<Rightarrow> nat \<Rightarrow> reassembler \<times> nat" where
  "expire r now =
     (let kept = filter (\<lambda>(key, fs). live (ra_config r) now fs) (ra_datagrams r)
      in (r\<lparr>ra_datagrams := kept\<rparr>, length (ra_datagrams r) - length kept))"

definition pending :: "reassembler \<Rightarrow> nat" where
  "pending r = length (ra_datagrams r)"

definition chunk_bytes :: "chunk_map \<Rightarrow> nat" where
  "chunk_bytes chunks = sum_list (map (length \<circ> snd) chunks)"

definition buffered :: "reassembler \<Rightarrow> nat" where
  "buffered r = sum_list (map (chunk_bytes \<circ> fs_chunks \<circ> snd) (ra_datagrams r))"

definition usize_saturating_add :: "nat \<Rightarrow> nat \<Rightarrow> nat" where
  "usize_saturating_add a b = min (a + b) (2 ^ 64 - 1)"

text \<open>The scan over the chunks for the first one that overlaps the new range.\<close>

datatype overlap = NoOverlap | Duplicate | Overlap

fun scan_overlap :: "chunk_map \<Rightarrow> nat \<Rightarrow> nat \<Rightarrow> bytes \<Rightarrow> overlap" where
  "scan_overlap [] off fin payload = NoOverlap"
| "scan_overlap ((existing_offset, existing) # chunks) off fin payload =
     (if off < existing_offset + length existing \<and> existing_offset < fin then
        (if existing_offset = off \<and> existing = payload then Duplicate else Overlap)
      else scan_overlap chunks off fin payload)"

text \<open>The scan with the cursor: the chunks are consecutive from the cursor on.\<close>

fun scan_cursor :: "chunk_map \<Rightarrow> nat \<Rightarrow> nat option" where
  "scan_cursor [] cursor = Some cursor"
| "scan_cursor ((off, bs) # chunks) cursor =
     (if off \<noteq> cursor then None else scan_cursor chunks (cursor + length bs))"

text \<open>The end of \<open>push_at\<close>: return the datagram when it is complete.\<close>

definition finish_datagram ::
  "reassembler \<Rightarrow> fragment_key \<Rightarrow> fragment_set \<Rightarrow> reassembler \<times> packet option pres" where
  "finish_datagram r key fs =
     (let stored = r\<lparr>ra_datagrams := AList.update key fs (ra_datagrams r)\<rparr>;
          removed = r\<lparr>ra_datagrams := AList.delete key (ra_datagrams r)\<rparr> in
      case fs_total_length fs of
        None \<Rightarrow> (stored, Inr None)
      | Some tot \<Rightarrow>
          if scan_cursor (fs_chunks fs) 0 \<noteq> Some tot then (stored, Inr None)
          else
            let bs = concat (map snd (fs_chunks fs));
                network = clear_fragment_header (fs_network fs) (fs_protocol fs) in
            (removed, rbind (decode_transport network (fs_protocol fs) bs False)
               (\<lambda>(transport, payload, _). Inr (Some \<lparr>pkt_ethernet = fs_ethernet fs,
                  pkt_network = network, pkt_transport = transport, pkt_payload = payload\<rparr>))))"

definition store_fragment ::
  "reassembler \<Rightarrow> fragment_key \<Rightarrow> fragment_set \<Rightarrow> decoded_packet \<Rightarrow> nat \<Rightarrow> nat \<Rightarrow> bool
    \<Rightarrow> reassembler \<times> packet option pres" where
  "store_fragment r key fs fragment off fin more_fragments =
     (let payload = dec_network_payload fragment;
          removed = r\<lparr>ra_datagrams := AList.delete key (ra_datagrams r)\<rparr>;
          fs1 = (if off = 0 then fs\<lparr>fs_ethernet := pkt_ethernet (dec_packet fragment),
                   fs_network := pkt_network (dec_packet fragment)\<rparr> else fs) in
      if \<not> more_fragments \<and> (case fs_total_length fs1 of None \<Rightarrow> False | Some tot \<Rightarrow> tot \<noteq> fin)
      then (removed, err ''conflicting final IP fragment lengths'')
      else
        let fs2 = (if more_fragments then fs1 else fs1\<lparr>fs_total_length := Some fin\<rparr>)
        in finish_datagram r key (fs2\<lparr>fs_chunks := bt_insert off payload (fs_chunks fs2)\<rparr>))"

definition push_fragment ::
  "reassembler \<Rightarrow> fragment_key \<Rightarrow> decoded_packet \<Rightarrow> nat \<Rightarrow> bool \<Rightarrow> byte \<Rightarrow> nat
    \<Rightarrow> reassembler \<times> packet option pres" where
  "push_fragment r key fragment off more_fragments protocol now =
     (let payload = dec_network_payload fragment;
          fs = (case map_of (ra_datagrams r) key of
             Some fs \<Rightarrow> fs
           | None \<Rightarrow> \<lparr>fs_created = now, fs_ethernet = pkt_ethernet (dec_packet fragment),
               fs_network = pkt_network (dec_packet fragment), fs_protocol = protocol,
               fs_chunks = [], fs_total_length = None\<rparr>);
          entered = r\<lparr>ra_datagrams := AList.update key fs (ra_datagrams r)\<rparr> in
      case usize_checked_add off (length payload) of
        None \<Rightarrow> (entered, err ''fragment range overflow'')
      | Some fin \<Rightarrow>
          (case scan_overlap (fs_chunks fs) off fin payload of
             Duplicate \<Rightarrow> (entered, Inr None)
           | Overlap \<Rightarrow> (entered\<lparr>ra_datagrams := AList.delete key (ra_datagrams entered)\<rparr>,
               err ''overlapping IP fragments are rejected'')
           | NoOverlap \<Rightarrow> store_fragment entered key fs fragment off fin more_fragments))"

definition push_at :: "reassembler \<Rightarrow> decoded_packet \<Rightarrow> nat \<Rightarrow> reassembler \<times> packet option pres" where
  "push_at r0 fragment now =
     (let r = fst (expire r0 now); payload = dec_network_payload fragment in
      case fragment_identity fragment of
        None \<Rightarrow> (r, Inr (Some (dec_packet fragment)))
      | Some (key, off, more_fragments, protocol) \<Rightarrow>
          if more_fragments \<and> length payload mod 8 \<noteq> 0
          then (r, err ''non-final IP fragment length is not a multiple of 8'')
          else if map_of (ra_datagrams r) key = None \<and>
              length (ra_datagrams r) \<ge> max_datagrams (ra_config r)
          then (r, Inl (Fail (MaxDatagrams (max_datagrams (ra_config r)))))
          else
            let duplicate = (case map_of (ra_datagrams r) key of None \<Rightarrow> False
                  | Some fs \<Rightarrow> map_of (fs_chunks fs) off = Some payload) in
            if \<not> duplicate \<and>
               usize_saturating_add (buffered r) (length payload) > max_buffered_bytes (ra_config r)
            then (r, Inl (Fail (MaxBufferedBytes (max_buffered_bytes (ra_config r)))))
            else push_fragment r key fragment off more_fragments protocol now)"

subsection \<open>Chunks of one datagram\<close>

text \<open>The chunks are sorted by offset and no two of them overlap.\<close>

definition chunks_ok :: "chunk_map \<Rightarrow> bool" where
  "chunks_ok chunks \<longleftrightarrow> bt_wf chunks \<and>
     (\<forall>x \<in> set chunks. \<forall>y \<in> set chunks. fst x < fst y \<longrightarrow> fst x + length (snd x) \<le> fst y)"

lemma chunks_ok_Nil [simp]: "chunks_ok []"
  by (simp add: chunks_ok_def)

lemma scan_overlap_NoOverlap:
  "scan_overlap chunks off fin payload = NoOverlap \<longleftrightarrow>
     (\<forall>x \<in> set chunks. \<not> (off < fst x + length (snd x) \<and> fst x < fin))"
  by (induction chunks off fin payload rule: scan_overlap.induct) auto

lemma chunks_ok_insert:
  assumes "chunks_ok chunks" and "scan_overlap chunks off (off + length payload) payload = NoOverlap"
  shows "chunks_ok (bt_insert off payload chunks)"
  using assms unfolding chunks_ok_def scan_overlap_NoOverlap
  by (fastforce simp: set_bt_insert bt_wf_insert)

lemma chunk_bytes_insert: "chunk_bytes (bt_insert off payload chunks) \<le> chunk_bytes chunks + length payload"
  by (induction chunks) (auto simp: chunk_bytes_def)

lemma scan_overlap_duplicate:
  assumes "map_of chunks off = Some payload"
    and "scan_overlap chunks off (off + length payload) payload = NoOverlap"
  shows "payload = []"
  using map_of_SomeD [OF assms(1)] assms(2) by (fastforce simp: scan_overlap_NoOverlap)

subsection \<open>Accounting of the hash map of datagrams\<close>

abbreviation bytes_in :: "(fragment_key, fragment_set) hash_map \<Rightarrow> nat" where
  "bytes_in m \<equiv> sum_list (map (chunk_bytes \<circ> fs_chunks \<circ> snd) m)"

lemma bytes_in_update:
  "hm_wf m \<Longrightarrow> bytes_in (AList.update key fs m) +
     (case map_of m key of None \<Rightarrow> 0 | Some old \<Rightarrow> chunk_bytes (fs_chunks old)) =
   bytes_in m + chunk_bytes (fs_chunks fs)"
proof (induction m)
  case (Cons kv m)
  obtain k v where "kv = (k, v)" by (cases kv)
  with Cons show ?case by (auto simp: hm_wf_def split: option.splits)
qed simp

lemma bytes_in_filter: "bytes_in (filter P m) \<le> bytes_in m"
  by (induction m) auto

lemma bytes_in_delete: "bytes_in (AList.delete key m) \<le> bytes_in m"
  unfolding AList.delete_eq by (rule bytes_in_filter)

lemma length_update: "length (AList.update key fs m) = length m + (if map_of m key = None then 1 else 0)"
  by (induction m) auto

lemma set_update_subset: "set (AList.update key fs m) \<subseteq> insert (key, fs) (set m)"
  by (induction m) auto

lemma set_delete_subset: "set (AList.delete key m) \<subseteq> set m"
  unfolding AList.delete_eq by auto

lemma length_delete: "length (AList.delete key m) \<le> length m"
  unfolding AList.delete_eq by simp

lemma hm_wf_filter: "hm_wf m \<Longrightarrow> hm_wf (filter P m)"
  by (simp add: hm_wf_def distinct_map_filter)

subsection \<open>The invariant of a reassembler\<close>

definition ra_inv :: "reassembler \<Rightarrow> bool" where
  "ra_inv r \<longleftrightarrow> hm_wf (ra_datagrams r) \<and>
     length (ra_datagrams r) \<le> max_datagrams (ra_config r) \<and>
     buffered r \<le> max_buffered_bytes (ra_config r) \<and>
     (\<forall>(key, fs) \<in> set (ra_datagrams r). chunks_ok (fs_chunks fs))"

lemma ra_inv_filter: "ra_inv r \<Longrightarrow> ra_inv (r\<lparr>ra_datagrams := filter P (ra_datagrams r)\<rparr>)"
  using bytes_in_filter [of P "ra_datagrams r"]
  by (auto simp: ra_inv_def buffered_def hm_wf_filter intro: order_trans [OF length_filter_le])

lemma ra_inv_delete: "ra_inv r \<Longrightarrow> ra_inv (r\<lparr>ra_datagrams := AList.delete key (ra_datagrams r)\<rparr>)"
  unfolding AList.delete_eq by (rule ra_inv_filter)

lemma ra_inv_expire: "ra_inv r \<Longrightarrow> ra_inv (fst (expire r now))"
  by (simp add: expire_def Let_def ra_inv_filter)

lemma ra_inv_update:
  assumes "ra_inv r" and "chunks_ok (fs_chunks fs)"
    and "map_of (ra_datagrams r) key = None \<Longrightarrow> length (ra_datagrams r) < max_datagrams (ra_config r)"
    and "buffered r + chunk_bytes (fs_chunks fs) \<le> max_buffered_bytes (ra_config r) +
      (case map_of (ra_datagrams r) key of None \<Rightarrow> 0 | Some old \<Rightarrow> chunk_bytes (fs_chunks old))"
  shows "ra_inv (r\<lparr>ra_datagrams := AList.update key fs (ra_datagrams r)\<rparr>)"
proof -
  have wf: "hm_wf (ra_datagrams r)" using assms(1) by (simp add: ra_inv_def)
  have "buffered (r\<lparr>ra_datagrams := AList.update key fs (ra_datagrams r)\<rparr>)
      \<le> max_buffered_bytes (ra_config r)"
    using bytes_in_update [OF wf, of key fs] assms(4) by (simp add: buffered_def)
  moreover have "length (AList.update key fs (ra_datagrams r)) \<le> max_datagrams (ra_config r)"
    using assms(1,3) by (auto simp: length_update ra_inv_def)
  moreover have "\<forall>(k, fs') \<in> set (AList.update key fs (ra_datagrams r)). chunks_ok (fs_chunks fs')"
    using set_update_subset [of key fs "ra_datagrams r"] assms(1,2) by (auto simp: ra_inv_def)
  ultimately show ?thesis
    using hm.wf_update [OF wf] by (simp add: ra_inv_def)
qed

text \<open>
  Entering a new key with an empty set, or an unchanged one, keeps the invariant; so does the
  final update, which adds at most the payload.
\<close>

lemma finish_datagram_inv:
  assumes "ra_inv (r\<lparr>ra_datagrams := AList.update key fs (ra_datagrams r)\<rparr>)" and "ra_inv r"
  shows "ra_inv (fst (finish_datagram r key fs))"
  using assms ra_inv_delete [OF assms(2), of key]
  by (auto simp: finish_datagram_def Let_def split: option.splits)

lemma update_update [simp]: "AList.update k v (AList.update k w m) = AList.update k v m"
  by (induction m) auto

lemma store_fragment_inv:
  assumes inv: "ra_inv r" and fs: "map_of (ra_datagrams r) key = Some fs" and ok: "chunks_ok (fs_chunks fs)"
    and no: "scan_overlap (fs_chunks fs) off fin (dec_network_payload d) = NoOverlap"
    and fin: "fin = off + length (dec_network_payload d)"
    and room: "buffered r + length (dec_network_payload d) \<le> max_buffered_bytes (ra_config r)"
  shows "ra_inv (fst (store_fragment r key fs d off fin m))"
proof -
  let ?chunks = "bt_insert off (dec_network_payload d) (fs_chunks fs)"
  have chunks: "chunks_ok ?chunks"
    using chunks_ok_insert [OF ok] no fin by simp
  have "ra_inv (r\<lparr>ra_datagrams := AList.update key fs' (ra_datagrams r)\<rparr>)" if "fs_chunks fs' = ?chunks" for fs'
    using ra_inv_update [OF inv, of fs' key] that chunks fs room
      chunk_bytes_insert [of off "dec_network_payload d" "fs_chunks fs"] by simp
  then have "ra_inv (fst (finish_datagram r key fs'))" if "fs_chunks fs' = ?chunks" for fs'
    using that inv by (intro finish_datagram_inv)
  then show ?thesis
    using ra_inv_delete [OF inv, of key] by (auto simp: store_fragment_def Let_def)
qed

lemma push_fragment_inv:
  assumes inv: "ra_inv r"
    and new: "map_of (ra_datagrams r) key = None \<Longrightarrow> length (ra_datagrams r) < max_datagrams (ra_config r)"
    and room: "(case map_of (ra_datagrams r) key of None \<Rightarrow> False
        | Some fs \<Rightarrow> map_of (fs_chunks fs) off = Some (dec_network_payload d)) \<or>
      buffered r + length (dec_network_payload d) \<le> max_buffered_bytes (ra_config r)"
  shows "ra_inv (fst (push_fragment r key d off m pr now))"
proof -
  define fs where "fs = (case map_of (ra_datagrams r) key of Some fs \<Rightarrow> fs
    | None \<Rightarrow> \<lparr>fs_created = now, fs_ethernet = pkt_ethernet (dec_packet d),
        fs_network = pkt_network (dec_packet d), fs_protocol = pr, fs_chunks = [], fs_total_length = None\<rparr>)"
  define r1 where "r1 = r\<lparr>ra_datagrams := AList.update key fs (ra_datagrams r)\<rparr>"
  have wf: "hm_wf (ra_datagrams r)" using inv by (simp add: ra_inv_def)
  have old: "chunk_bytes (fs_chunks fs) = (case map_of (ra_datagrams r) key of None \<Rightarrow> 0
      | Some old \<Rightarrow> chunk_bytes (fs_chunks old))"
    by (auto simp: fs_def chunk_bytes_def split: option.splits)
  have ok: "chunks_ok (fs_chunks fs)"
    using inv by (auto simp: fs_def ra_inv_def split: option.splits dest!: map_of_SomeD)
  have inv1: "ra_inv r1"
    unfolding r1_def by (rule ra_inv_update [OF inv ok new]) (use inv old in \<open>auto simp: ra_inv_def\<close>)
  have same: "buffered r1 = buffered r"
    using bytes_in_update [OF wf, of key fs] old by (simp add: buffered_def r1_def)
  have lookup: "map_of (ra_datagrams r1) key = Some fs"
    using wf by (simp add: r1_def hm.lookup_update_same)
  have "ra_inv (fst (store_fragment r1 key fs d off (off + length (dec_network_payload d)) m))"
    if no: "scan_overlap (fs_chunks fs) off (off + length (dec_network_payload d)) (dec_network_payload d) = NoOverlap"
  proof (rule store_fragment_inv [OF inv1 lookup ok no refl])
    show "buffered r1 + length (dec_network_payload d) \<le> max_buffered_bytes (ra_config r1)"
    proof (cases "buffered r + length (dec_network_payload d) \<le> max_buffered_bytes (ra_config r)")
      case True
      then show ?thesis unfolding same by (simp add: r1_def)
    next
      case False
      with room have "map_of (fs_chunks fs) off = Some (dec_network_payload d)"
        by (auto simp: fs_def split: option.splits)
      then have "dec_network_payload d = []"
        using scan_overlap_duplicate no by blast
      then show ?thesis using inv1 by (simp add: ra_inv_def)
    qed
  qed
  then show ?thesis
    using inv1 ra_inv_delete [OF inv1, of key]
    unfolding push_fragment_def Let_def fs_def [symmetric] r1_def [symmetric]
    by (auto simp: usize_checked_add_def split: option.splits overlap.splits if_splits)
qed

text \<open>A push either leaves the expired reassembler as it is or passes all guards.\<close>

lemma push_at_cases:
  fixes r d now
  defines "r1 \<equiv> fst (expire r now)"
  obtains (kept) "fst (push_at r d now) = r1"
  | (entered) key off m pr where "fragment_identity d = Some (key, off, m, pr)"
      and "push_at r d now = push_fragment r1 key d off m pr now"
      and "map_of (ra_datagrams r1) key = None \<Longrightarrow> length (ra_datagrams r1) < max_datagrams (ra_config r1)"
      and "(case map_of (ra_datagrams r1) key of None \<Rightarrow> False
          | Some fs \<Rightarrow> map_of (fs_chunks fs) off = Some (dec_network_payload d)) \<or>
        usize_saturating_add (buffered r1) (length (dec_network_payload d)) \<le> max_buffered_bytes (ra_config r1)"
proof (cases "fragment_identity d")
  case None
  then show thesis by (intro kept) (simp add: push_at_def Let_def r1_def)
next
  case (Some identity)
  obtain key off m pr where id: "fragment_identity d = Some (key, off, m, pr)"
    using Some by (cases identity) auto
  let ?dup = "case map_of (ra_datagrams r1) key of None \<Rightarrow> False
    | Some fs \<Rightarrow> map_of (fs_chunks fs) off = Some (dec_network_payload d)"
  have push: "push_at r d now =
      (if m \<and> length (dec_network_payload d) mod 8 \<noteq> 0
       then (r1, err ''non-final IP fragment length is not a multiple of 8'')
       else if map_of (ra_datagrams r1) key = None \<and> max_datagrams (ra_config r1) \<le> length (ra_datagrams r1)
       then (r1, Inl (Fail (MaxDatagrams (max_datagrams (ra_config r1)))))
       else if \<not> ?dup \<and> max_buffered_bytes (ra_config r1) <
           usize_saturating_add (buffered r1) (length (dec_network_payload d))
       then (r1, Inl (Fail (MaxBufferedBytes (max_buffered_bytes (ra_config r1)))))
       else push_fragment r1 key d off m pr now)"
    by (simp add: push_at_def Let_def r1_def id)
  show thesis
  proof (cases "fst (push_at r d now) = r1")
    case False
    then show thesis
      using push by (intro entered [OF id]) (auto simp: not_le not_less split: if_splits)
  qed (rule kept)
qed

lemma expire_config [simp]: "ra_config (fst (expire r now)) = ra_config r"
  by (simp add: expire_def Let_def)

lemma push_at_inv:
  assumes "ra_inv r" and "max_buffered_bytes (ra_config r) < 2 ^ 64 - 1"
  shows "ra_inv (fst (push_at r d now))"
proof (cases rule: push_at_cases [where r = r and d = d and now = now])
  case kept
  then show ?thesis using ra_inv_expire [OF assms(1)] by simp
next
  case (entered key off m pr)
  have "usize_saturating_add a b \<le> max_buffered_bytes (ra_config r) \<Longrightarrow>
      a + b \<le> max_buffered_bytes (ra_config r)" for a b
    using assms(2) by (auto simp: usize_saturating_add_def min_def split: if_splits)
  then show ?thesis
    unfolding entered(2) using entered(3,4)
    by (intro push_fragment_inv [OF ra_inv_expire [OF assms(1)]]) auto
qed

subsection \<open>Sequences of operations\<close>

datatype ra_event = PushFragment decoded_packet nat | Expire nat

fun ra_apply :: "reassembler \<Rightarrow> ra_event \<Rightarrow> reassembler" where
  "ra_apply r (PushFragment d now) = fst (push_at r d now)"
| "ra_apply r (Expire now) = fst (expire r now)"

definition ra_step :: "reassembler \<Rightarrow> ra_event \<Rightarrow> reassembler \<Rightarrow> bool" where
  "ra_step r e r' \<longleftrightarrow> r' = ra_apply r e"

definition ra_init :: "reassembly_config \<Rightarrow> reassembler \<Rightarrow> bool" where
  "ra_init config r \<longleftrightarrow> r = reassembler_new config \<and> max_buffered_bytes config < 2 ^ 64 - 1"

lemma finish_datagram_config [simp]: "ra_config (fst (finish_datagram r key fs)) = ra_config r"
  by (auto simp: finish_datagram_def Let_def split: option.splits)

lemma push_fragment_config [simp]: "ra_config (fst (push_fragment r key d off m pr now)) = ra_config r"
  by (auto simp: push_fragment_def store_fragment_def Let_def split: option.splits overlap.splits)

lemma push_at_config [simp]: "ra_config (fst (push_at r d now)) = ra_config r"
  by (cases rule: push_at_cases [where r = r and d = d and now = now]) auto

interpretation bounded: inductive_invariant "ra_init config" ra_step
    "\<lambda>r. ra_inv r \<and> ra_config r = config \<and> max_buffered_bytes config < 2 ^ 64 - 1"
  for config
proof unfold_locales
  fix r r' :: reassembler and e
  show "ra_init config r \<Longrightarrow>
      ra_inv r \<and> ra_config r = config \<and> max_buffered_bytes config < 2 ^ 64 - 1"
    by (simp add: ra_init_def reassembler_new_def ra_inv_def hm_wf_def buffered_def)
  show "ra_inv r \<and> ra_config r = config \<and> max_buffered_bytes config < 2 ^ 64 - 1 \<Longrightarrow> ra_step r e r' \<Longrightarrow>
      ra_inv r' \<and> ra_config r' = config \<and> max_buffered_bytes config < 2 ^ 64 - 1"
    by (cases e) (auto simp: ra_step_def push_at_inv ra_inv_expire)
qed

subsection \<open>Reassembling the pieces of a cut in any order\<close>

definition chunk_of :: "piece \<Rightarrow> nat \<times> bytes" where
  "chunk_of piece = (fst piece, fst (snd piece))"

definition chunks_of :: "piece list \<Rightarrow> piece set \<Rightarrow> chunk_map" where
  "chunks_of ps A = map chunk_of (filter (\<lambda>x. x \<in> A) ps)"

lemma fragments_from_sorted:
  "fragments_from off ps \<Longrightarrow> (\<forall>x \<in> set ps. fst (snd x) \<noteq> []) \<Longrightarrow>
   sorted_wrt (\<lambda>x y. fst x + length (fst (snd x)) \<le> fst y) ps"
proof (induction ps arbitrary: off)
  case (Cons x ps)
  obtain o1 b m where x: "x = (o1, b, m)" by (cases x)
  show ?case
    using Cons.prems Cons.IH [of "off + length b"] fragments_from_ge [of "off + length b" ps]
    by (auto simp: x)
qed simp

lemma cuts_nonempty: "cuts np 0 ps \<Longrightarrow> x \<in> set ps \<Longrightarrow> 0 < length (fst (snd x))"
  by (cases x) (auto simp: cuts_def)

lemma cuts_sorted:
  "cuts np 0 ps \<Longrightarrow> sorted_wrt (\<lambda>x y. fst x + length (fst (snd x)) \<le> fst y \<and> fst x < fst y) ps"
proof -
  assume cut: "cuts np 0 ps"
  then have "sorted_wrt (\<lambda>x y. fst x + length (fst (snd x)) \<le> fst y) ps"
    using fragments_from_sorted [of 0 ps] cuts_nonempty [OF cut] by (simp add: cuts_def)
  then show ?thesis
  proof (rule sorted_wrt_mono_rel [rotated])
    fix x y :: piece
    assume "x \<in> set ps" and "fst x + length (fst (snd x)) \<le> fst y"
    then show "fst x + length (fst (snd x)) \<le> fst y \<and> fst x < fst y"
      using cuts_nonempty [OF cut, of x] by linarith
  qed
qed

lemma bt_wf_chunks_of: "cuts np 0 ps \<Longrightarrow> bt_wf (chunks_of ps A)"
  unfolding bt_wf_def chunks_of_def
  using sorted_wrt_filter [OF cuts_sorted, of np ps "\<lambda>x. x \<in> A"]
  by (auto simp: sorted_wrt_map chunk_of_def elim: sorted_wrt_mono_rel [rotated])

lemma cuts_disjoint:
  assumes "cuts np 0 ps" and "x \<in> set ps" and "y \<in> set ps" and "x \<noteq> y"
  shows "fst x + length (fst (snd x)) \<le> fst y \<or> fst y + length (fst (snd y)) \<le> fst x"
proof -
  obtain i j where "i < length ps" "x = ps ! i" "j < length ps" "y = ps ! j"
    using assms(2,3) by (auto simp: in_set_conv_nth)
  with assms(4) sorted_wrt_nth_less [OF cuts_sorted [OF assms(1)], of i j]
    sorted_wrt_nth_less [OF cuts_sorted [OF assms(1)], of j i]
  show ?thesis by (cases i j rule: linorder_cases) auto
qed

lemma set_chunks_of: "set (chunks_of ps A) = chunk_of ` (A \<inter> set ps)"
  by (auto simp: chunks_of_def)

lemma chunks_of_insert:
  assumes cut: "cuts np 0 ps" and x: "x \<in> set ps" "x \<notin> A"
  shows "bt_insert (fst x) (fst (snd x)) (chunks_of ps A) = chunks_of ps (insert x A)"
proof (rule bt_eqI)
  show "bt_wf (bt_insert (fst x) (fst (snd x)) (chunks_of ps A))"
    by (rule bt_wf_insert [OF bt_wf_chunks_of [OF cut]])
  show "bt_wf (chunks_of ps (insert x A))" by (rule bt_wf_chunks_of [OF cut])
  have "fst y \<noteq> fst x" if "y \<in> set ps" "y \<in> A" for y
  proof -
    have "x \<noteq> y" using that(2) x(2) by auto
    from cuts_disjoint [OF cut x(1) that(1) this] show ?thesis
      using cuts_nonempty [OF cut x(1)] cuts_nonempty [OF cut that(1)] by linarith
  qed
  then show "set (bt_insert (fst x) (fst (snd x)) (chunks_of ps A)) = set (chunks_of ps (insert x A))"
    using x(1) by (auto simp: set_bt_insert [OF bt_wf_chunks_of [OF cut]] set_chunks_of chunk_of_def)
qed

lemma chunks_of_no_overlap:
  assumes cut: "cuts np 0 ps" and x: "x \<in> set ps" "x \<notin> A"
  shows "scan_overlap (chunks_of ps A) (fst x) (fst x + length (fst (snd x))) (fst (snd x)) = NoOverlap"
  unfolding scan_overlap_NoOverlap set_chunks_of
  using cuts_disjoint [OF cut x(1)] x(2) by (fastforce simp: chunk_of_def)

lemma scan_cursor_sum: "scan_cursor chunks c = Some tot \<Longrightarrow> tot = c + chunk_bytes chunks"
  by (induction chunks c rule: scan_cursor.induct) (auto simp: chunk_bytes_def split: if_splits)

lemma chunk_bytes_chunks_of:
  "chunk_bytes (chunks_of ps A) = sum_list (map (\<lambda>x. if x \<in> A then length (fst (snd x)) else 0) ps)"
  by (induction ps) (auto simp: chunks_of_def chunk_bytes_def chunk_of_def)

lemma length_piece_bytes: "length (piece_bytes ps) = sum_list (map (\<lambda>x. length (fst (snd x))) ps)"
  by (induction ps) (auto simp: piece_bytes_def)

lemma cuts_length: "cuts np 0 ps \<Longrightarrow> length np = sum_list (map (\<lambda>x. length (fst (snd x))) ps)"
  using length_piece_bytes [of ps] by (simp add: cuts_def)

lemma sum_list_strict:
  fixes f g :: "'a \<Rightarrow> nat"
  assumes "\<And>x. x \<in> set xs \<Longrightarrow> f x \<le> g x" and "z \<in> set xs" and "f z < g z"
  shows "sum_list (map f xs) < sum_list (map g xs)"
  using assms
proof (induction xs)
  case (Cons x xs)
  have "sum_list (map f xs) \<le> sum_list (map g xs)"
    using Cons.prems(1) by (intro sum_list_mono) auto
  then show ?case
    using Cons by (cases "z = x") (auto intro: add_le_less_mono add_less_le_mono)
qed simp

lemma scan_cursor_incomplete:
  assumes cut: "cuts np 0 ps" and "\<not> set ps \<subseteq> A"
  shows "scan_cursor (chunks_of ps A) 0 \<noteq> Some (length np)"
proof
  assume "scan_cursor (chunks_of ps A) 0 = Some (length np)"
  then have "length np = chunk_bytes (chunks_of ps A)" using scan_cursor_sum by fastforce
  moreover obtain z where "z \<in> set ps" "z \<notin> A" using assms(2) by blast
  then have "chunk_bytes (chunks_of ps A) < length np"
    unfolding chunk_bytes_chunks_of cuts_length [OF cut]
    by (intro sum_list_strict [of ps _ _ z]) (use cuts_nonempty [OF cut] in auto)
  ultimately show False by simp
qed

lemma scan_cursor_pieces:
  "fragments_from off ps \<Longrightarrow> scan_cursor (map chunk_of ps) off = Some (off + length (piece_bytes ps))"
proof (induction ps arbitrary: off)
  case (Cons x ps)
  obtain o1 b m where "x = (o1, b, m)" by (cases x)
  with Cons show ?case by (auto simp: chunk_of_def piece_bytes_def)
qed (simp add: piece_bytes_def)

lemma chunks_of_all: "set ps \<subseteq> A \<Longrightarrow> chunks_of ps A = map chunk_of ps"
  unfolding chunks_of_def by (subst filter_True) auto

lemma piece_bytes_chunks: "concat (map snd (map chunk_of ps)) = piece_bytes ps"
  by (induction ps) (auto simp: piece_bytes_def chunk_of_def)

lemma scan_cursor_complete:
  assumes "cuts np 0 ps" and "set ps \<subseteq> A"
  shows "scan_cursor (chunks_of ps A) 0 = Some (length np)"
    and "concat (map snd (chunks_of ps A)) = np"
  unfolding chunks_of_all [OF assms(2)] piece_bytes_chunks
  using assms(1) scan_cursor_pieces [of 0 ps] by (simp_all add: cuts_def)

text \<open>Where a piece ends, and which piece is the last.\<close>

lemma fragments_from_end:
  "fragments_from off ps \<Longrightarrow> (o1, b, m) \<in> set ps \<Longrightarrow> (\<forall>x \<in> set ps. fst (snd x) \<noteq> []) \<Longrightarrow>
   o1 + length b \<le> off + length (piece_bytes ps) \<and> (\<not> m \<longrightarrow> o1 + length b = off + length (piece_bytes ps)) \<and>
   (m \<longrightarrow> 8 dvd length b)"
proof (induction ps arbitrary: off)
  case (Cons x ps)
  obtain o' b' m' where x: "x = (o', b', m')" by (cases x)
  show ?case
    using Cons.prems Cons.IH [of "off + length b'"] by (auto simp: x piece_bytes_def)
qed simp

lemma cuts_end_of:
  assumes "cuts np 0 ps" and "(o1, b, m) \<in> set ps"
  shows "o1 + length b \<le> length np" and "\<not> m \<Longrightarrow> o1 + length b = length np" and "m \<Longrightarrow> 8 dvd length b"
  using fragments_from_end [of 0 ps o1 b m] assms cuts_nonempty [OF assms(1)]
  by (auto simp: cuts_def)

text \<open>What the reassembler holds of a packet after the pieces \<open>A\<close> were pushed.\<close>

definition holding ::
  "nat \<Rightarrow> packet \<Rightarrow> byte \<Rightarrow> bytes \<Rightarrow> piece list \<Rightarrow> piece set \<Rightarrow> fragment_set \<Rightarrow> bool" where
  "holding now p pr np ps A fs \<longleftrightarrow> fs_created fs = now \<and> fs_protocol fs = pr \<and>
     fs_chunks fs = chunks_of ps A \<and>
     fs_total_length fs = (if \<exists>x \<in> A. \<not> snd (snd x) then Some (length np) else None) \<and>
     addresses (fs_network fs) = addresses (pkt_network p) \<and>
     ((\<exists>x \<in> A. fst x = 0) \<longrightarrow> strip_eth (fs_ethernet fs) = strip_eth (pkt_ethernet p) \<and>
        strip_network (clear_fragment_header (fs_network fs) pr) = strip_network (pkt_network p))"

definition with_partial :: "reassembler \<Rightarrow> fragment_key \<Rightarrow> fragment_set option \<Rightarrow> reassembler" where
  "with_partial r key fs = (case fs of None \<Rightarrow> r
     | Some fs \<Rightarrow> r\<lparr>ra_datagrams := ra_datagrams r @ [(key, fs)]\<rparr>)"

lemma update_appended: "map_of m key = None \<Longrightarrow> AList.update key fs (m @ [(key, fs')]) = m @ [(key, fs)]"
  by (induction m) auto

lemma delete_appended: "map_of m key = None \<Longrightarrow> AList.delete key (m @ [(key, fs)]) = m"
  by (induction m) (auto simp: AList.delete_eq split: if_splits)

lemma map_of_appended [simp]: "map_of m key = None \<Longrightarrow> map_of (m @ [(key, fs)]) key = Some fs"
  by (simp add: map_add_Some_iff)

lemma filter_id_iff: "filter P xs = xs \<longleftrightarrow> (\<forall>x \<in> set xs. P x)"
  by (simp add: filter_id_conv)

lemma expire_with_partial:
  assumes "fst (expire r now) = r" and "\<And>fs'. fs = Some fs' \<Longrightarrow> fs_created fs' = now"
  shows "fst (expire (with_partial r key fs) now) = with_partial r key fs"
proof -
  have "filter (\<lambda>(key, fs). live (ra_config r) now fs) (ra_datagrams r) = ra_datagrams r"
    using arg_cong [OF assms(1), of ra_datagrams] by (simp add: expire_def Let_def)
  then show ?thesis
    using assms(2) by (cases fs) (auto simp: expire_def Let_def with_partial_def live_def)
qed

text \<open>Storing one more piece of a cut.\<close>

lemma store_piece:
  assumes cut: "cuts np 0 ps" and x: "x \<in> set ps" "x \<notin> A" and good: "good_fragment p pr ident x d"
    and hold: "holding now p pr np ps A fs" and fresh: "map_of (ra_datagrams r) key = None"
  shows "\<exists>fs'. holding now p pr np ps (insert x A) fs' \<and>
    store_fragment (with_partial r key (Some fs)) key fs d (fst x) (fst x + length (fst (snd x))) (snd (snd x)) =
    finish_datagram (with_partial r key (Some fs)) key fs'"
proof -
  obtain o1 b m where xeq: "x = (o1, b, m)" by (cases x)
  have payload: "dec_network_payload d = b" and net: "addresses (pkt_network (dec_packet d)) = addresses (pkt_network p)"
    and zero: "o1 = 0 \<Longrightarrow> strip_eth (pkt_ethernet (dec_packet d)) = strip_eth (pkt_ethernet p) \<and>
      strip_network (clear_fragment_header (pkt_network (dec_packet d)) pr) = strip_network (pkt_network p)"
    using good by (auto simp: good_fragment_def fragment_view_def xeq)
  have fin: "\<not> m \<Longrightarrow> o1 + length b = length np"
    using cuts_end_of(2) [OF cut] x(1) by (simp add: xeq)
  have insert: "bt_insert o1 b (chunks_of ps A) = chunks_of ps (insert x A)"
    using chunks_of_insert [OF cut x] by (simp add: xeq)
  define fs1 where "fs1 = (if o1 = 0 then fs\<lparr>fs_ethernet := pkt_ethernet (dec_packet d),
      fs_network := pkt_network (dec_packet d)\<rparr> else fs)"
  define fs2 where "fs2 = (if m then fs1 else fs1\<lparr>fs_total_length := Some (o1 + length b)\<rparr>)"
  have "store_fragment (with_partial r key (Some fs)) key fs d o1 (o1 + length b) m =
      finish_datagram (with_partial r key (Some fs)) key (fs2\<lparr>fs_chunks := bt_insert o1 b (fs_chunks fs2)\<rparr>)"
    using hold fin by (auto simp: store_fragment_def Let_def payload fs1_def fs2_def holding_def
        split: option.splits if_splits)
  moreover have "holding now p pr np ps (insert x A) (fs2\<lparr>fs_chunks := bt_insert o1 b (fs_chunks fs2)\<rparr>)"
    using hold net zero fin insert by (auto simp: holding_def fs2_def fs1_def xeq)
  ultimately show ?thesis by (auto simp: xeq)
qed

text \<open>The reassembler has no entry for the datagram, no expired one, and room for it.\<close>

definition ready :: "reassembler \<Rightarrow> fragment_key \<Rightarrow> nat \<Rightarrow> bytes \<Rightarrow> bool" where
  "ready r key now np \<longleftrightarrow> fst (expire r now) = r \<and> map_of (ra_datagrams r) key = None \<and>
     length (ra_datagrams r) < max_datagrams (ra_config r) \<and>
     buffered r + length np \<le> max_buffered_bytes (ra_config r) \<and>
     max_buffered_bytes (ra_config r) < 2 ^ 64"

lemma partial_buffered:
  assumes cut: "cuts np 0 ps" and x: "x \<in> set ps" "x \<notin> A"
    and fs: "\<And>fs'. fs = Some fs' \<Longrightarrow> fs_chunks fs' = chunks_of ps A"
  shows "buffered (with_partial r key fs) + length (fst (snd x)) \<le> buffered r + length np"
proof -
  have "chunk_bytes (chunks_of ps A) + length (fst (snd x)) \<le> length np"
  proof -
    have "sum_list (map (\<lambda>y. (if y \<in> A then length (fst (snd y)) else 0) +
        (if y = x then length (fst (snd y)) else 0)) ps) \<le> sum_list (map (\<lambda>y. length (fst (snd y))) ps)"
      using x(2) by (intro sum_list_mono) auto
    moreover have "length (fst (snd x)) \<le> sum_list (map (\<lambda>y. if y = x then length (fst (snd y)) else 0) ps)"
      using x(1) by (induction ps) auto
    ultimately show ?thesis
      unfolding chunk_bytes_chunks_of cuts_length [OF cut] by (simp add: sum_list_addf)
  qed
  then show ?thesis
    using fs by (cases fs) (auto simp: with_partial_def buffered_def)
qed

lemma push_piece:
  assumes ready: "ready r key now np" and cut: "cuts np 0 ps" and x: "x \<in> set ps" "x \<notin> A"
    and good: "good_fragment p pr ident x d" and key: "key = key_of p pr ident"
    and none: "fs = None \<Longrightarrow> A = {}" and hold: "\<And>fs'. fs = Some fs' \<Longrightarrow> holding now p pr np ps A fs'"
  shows "\<exists>fs0 fs'. holding now p pr np ps (insert x A) fs' \<and>
    push_at (with_partial r key fs) d now = finish_datagram (with_partial r key (Some fs0)) key fs'"
proof -
  obtain o1 b m where xeq: "x = (o1, b, m)" by (cases x)
  have fresh: "map_of (ra_datagrams r) key = None" using ready by (simp add: ready_def)
  have id: "fragment_identity d = Some (key, o1, m, pr)" and payload: "dec_network_payload d = b"
    and adr: "addresses (pkt_network (dec_packet d)) = addresses (pkt_network p)"
    using good by (auto simp: good_fragment_def fragment_view_def xeq key)
  have ends: "o1 + length b \<le> length np" and m8: "m \<Longrightarrow> length b mod 8 = 0"
    using cuts_end_of [OF cut] x(1) by (auto simp: xeq)
  have created: "\<And>fs'. fs = Some fs' \<Longrightarrow> fs_created fs' = now"
    using hold by (auto simp: holding_def)
  have exp: "fst (expire (with_partial r key fs) now) = with_partial r key fs"
    by (rule expire_with_partial) (use ready created in \<open>auto simp: ready_def\<close>)
  have buf: "buffered (with_partial r key fs) + length b \<le> max_buffered_bytes (ra_config r)"
    using partial_buffered [OF cut x, of fs r key] hold ready
    by (fastforce simp: ready_def holding_def xeq)
  define fs0 where "fs0 = (case fs of Some fs \<Rightarrow> fs
    | None \<Rightarrow> \<lparr>fs_created = now, fs_ethernet = pkt_ethernet (dec_packet d),
        fs_network = pkt_network (dec_packet d), fs_protocol = pr, fs_chunks = [], fs_total_length = None\<rparr>)"
  have hold0: "holding now p pr np ps A fs0"
    using hold none adr by (cases fs) (auto simp: fs0_def holding_def chunks_of_def)
  have chunks0: "fs_chunks fs0 = chunks_of ps A" using hold0 by (simp add: holding_def)
  have entered: "(with_partial r key fs)\<lparr>ra_datagrams :=
      AList.update key fs0 (ra_datagrams (with_partial r key fs))\<rparr> = with_partial r key (Some fs0)"
    using fresh by (cases fs) (auto simp: with_partial_def update_fresh update_appended)
  have look: "(case map_of (ra_datagrams (with_partial r key fs)) key of Some fs \<Rightarrow> fs
      | None \<Rightarrow> \<lparr>fs_created = now, fs_ethernet = pkt_ethernet (dec_packet d),
        fs_network = pkt_network (dec_packet d), fs_protocol = pr, fs_chunks = [], fs_total_length = None\<rparr>) = fs0"
    using fresh by (cases fs) (auto simp: with_partial_def fs0_def simp del: map_of_append)
  have "push_at (with_partial r key fs) d now = push_fragment (with_partial r key fs) key d o1 m pr now"
    using ready buf m8 fresh exp
    by (cases fs) (auto simp: push_at_def Let_def id payload ready_def usize_saturating_add_def
        with_partial_def min_def simp del: map_of_append)
  also have "\<dots> = store_fragment (with_partial r key (Some fs0)) key fs0 d o1 (o1 + length b) m"
    using ends ready chunks_of_no_overlap [OF cut x]
    by (simp add: push_fragment_def Let_def look entered chunks0 payload usize_checked_add_def ready_def xeq)
  finally show ?thesis
    using store_piece [OF cut x good hold0 fresh] by (auto simp: xeq)
qed

lemma finish_incomplete:
  assumes hold: "holding now p pr np ps A fs'" and cut: "cuts np 0 ps" and "\<not> set ps \<subseteq> A"
    and fresh: "map_of (ra_datagrams r) key = None"
  shows "finish_datagram (with_partial r key (Some fs)) key fs' = (with_partial r key (Some fs'), Inr None)"
  using hold scan_cursor_incomplete [OF cut assms(3)] fresh
  by (auto simp: finish_datagram_def Let_def holding_def with_partial_def update_appended)

lemma finish_complete:
  assumes hold: "holding now p pr np ps (set ps) fs'" and cut: "cuts np 0 ps" and "ps \<noteq> []"
    and fresh: "map_of (ra_datagrams r) key = None"
    and can: "canonical_packet p" and pr: "packet_protocol p = Inr pr" and np: "network_payload p = Inr np"
  shows "\<exists>q. finish_datagram (with_partial r key (Some fs)) key fs' = (r, Inr (Some q)) \<and>
    strip_packet q = strip_packet p"
proof -
  let ?net = "clear_fragment_header (fs_network fs') pr"
  from cuts_head [OF cut \<open>ps \<noteq> []\<close>] obtain b0 m0 qs where "ps = (0, b0, m0) # qs"
    and "np = b0 @ piece_bytes qs" and "\<forall>(o1, b1, m1) \<in> set qs. 0 < o1" .
  then have zero: "\<exists>x \<in> set ps. fst x = 0" by simp
  have "fragments_from off ps \<Longrightarrow> ps \<noteq> [] \<Longrightarrow> \<not> snd (snd (last ps))" for off
  proof (induction ps arbitrary: off)
    case (Cons x ps)
    obtain o1 b m where "x = (o1, b, m)" by (cases x)
    with Cons show ?case by auto
  qed simp
  then have "\<not> snd (snd (last ps))" using cut \<open>ps \<noteq> []\<close> by (auto simp: cuts_def)
  then have tot: "fs_total_length fs' = Some (length np)"
    using hold \<open>ps \<noteq> []\<close> last_in_set [of ps] by (auto simp: holding_def)
  have eth: "strip_eth (fs_ethernet fs') = strip_eth (pkt_ethernet p)"
    and net: "strip_network ?net = strip_network (pkt_network p)"
    and adr: "addresses (fs_network fs') = addresses (pkt_network p)"
    and rest: "fs_protocol fs' = pr" "fs_chunks fs' = chunks_of ps (set ps)"
    using hold zero by (auto simp: holding_def)
  have "addresses ?net = addresses (fs_network fs')" by (cases "fs_network fs'") auto
  moreover from np obtain t where
    "encode_transport (pkt_network p) (pkt_transport p) (pkt_payload p) = Inr t"
    and npt: "np = t @ pkt_payload p"
    by (auto simp: network_payload_def)
  moreover have "canonical_transport (pkt_transport p) pr" using can pr by (simp add: canonical_packet_def)
  ultimately obtain tr' v where dec: "decode_transport ?net pr np False = Inr (tr', pkt_payload p, v)"
    and tr': "map_option strip_transport tr' = map_option strip_transport (pkt_transport p)"
    using decode_encoded_transport [of "pkt_network p" "pkt_transport p" "pkt_payload p" t pr ?net] adr
    by (auto simp: decode_payload_def)
  have "finish_datagram (with_partial r key (Some fs)) key fs' = (r, Inr (Some
      \<lparr>pkt_ethernet = fs_ethernet fs', pkt_network = ?net, pkt_transport = tr', pkt_payload = pkt_payload p\<rparr>))"
    using fresh scan_cursor_complete [OF cut subset_refl] dec
    by (simp add: finish_datagram_def Let_def tot rest with_partial_def delete_appended)
  then show ?thesis
    using eth net tr' by (simp add: strip_packet_def)
qed

fun push_all :: "reassembler \<Rightarrow> decoded_packet list \<Rightarrow> nat \<Rightarrow> reassembler \<times> packet option pres list" where
  "push_all r [] now = (r, [])"
| "push_all r (d # ds) now =
     (let (r1, res) = push_at r d now; (r2, ress) = push_all r1 ds now in (r2, res # ress))"

lemma push_all_pieces:
  assumes ready: "ready r key now np" and cut: "cuts np 0 ps" and key: "key = key_of p pr ident"
    and can: "canonical_packet p" and pr: "packet_protocol p = Inr pr" and np: "network_payload p = Inr np"
  shows "xds \<noteq> [] \<Longrightarrow> distinct (map fst xds) \<Longrightarrow> A \<union> fst ` set xds = set ps \<Longrightarrow>
    (\<forall>(x, d) \<in> set xds. x \<notin> A \<and> good_fragment p pr ident x d) \<Longrightarrow>
    (fs = None \<longrightarrow> A = {}) \<Longrightarrow> (\<forall>fs'. fs = Some fs' \<longrightarrow> holding now p pr np ps A fs') \<Longrightarrow>
    \<exists>q. push_all (with_partial r key fs) (map snd xds) now =
        (r, replicate (length xds - 1) (Inr None) @ [Inr (Some q)]) \<and> strip_packet q = strip_packet p"
proof (induction xds arbitrary: A fs)
  case (Cons xd xds)
  obtain x d where xd: "xd = (x, d)" by (cases xd)
  have fresh: "map_of (ra_datagrams r) key = None" using ready by (simp add: ready_def)
  have x: "x \<in> set ps" "x \<notin> A" and good: "good_fragment p pr ident x d"
    using Cons.prems(3,4) by (auto simp: xd)
  obtain fs0 fs' where hold: "holding now p pr np ps (insert x A) fs'"
    and push: "push_at (with_partial r key fs) d now = finish_datagram (with_partial r key (Some fs0)) key fs'"
    using push_piece [OF ready cut x good key, of fs] Cons.prems(5,6) by blast
  show ?case
  proof (cases xds)
    case Nil
    then have all: "insert x A = set ps" using Cons.prems(3) by (auto simp: xd)
    have "ps \<noteq> []" using x by auto
    from finish_complete [OF hold [unfolded all] cut this fresh can pr np, of fs0]
    show ?thesis using push by (auto simp: xd Nil)
  next
    case (Cons yd yds)
    then have "fst yd \<in> set ps" "fst yd \<notin> insert x A"
      using Cons.prems(2,3,4) by (auto simp: xd)
    then have "\<not> set ps \<subseteq> insert x A" by blast
    note now_partial = finish_incomplete [OF hold cut this fresh, of fs0]
    have "\<exists>q. push_all (with_partial r key (Some fs')) (map snd xds) now =
        (r, replicate (length xds - 1) (Inr None) @ [Inr (Some q)]) \<and> strip_packet q = strip_packet p"
    proof (rule Cons.IH [where A = "insert x A"])
      show "\<forall>(y, e) \<in> set xds. y \<notin> insert x A \<and> good_fragment p pr ident y e"
      proof clarify
        fix o1 b m e assume e: "((o1, b, m), e) \<in> set xds"
        then have "(o1, b, m) \<in> fst ` set xds" by force
        then show "(o1, b, m) \<notin> insert x A \<and> good_fragment p pr ident (o1, b, m) e"
          using Cons.prems(2,4) e by (auto simp: xd)
      qed
      show "insert x A \<union> fst ` set xds = set ps" using Cons.prems(3) by (auto simp: xd)
    qed (use Cons Cons.prems(2) hold in \<open>auto simp: xd\<close>)
    then show ?thesis
      using push now_partial Cons by (auto simp: xd)
  qed
qed simp

lemma cuts_distinct: "cuts np 0 ps \<Longrightarrow> distinct ps"
  using cuts_sorted [of np ps] by (auto simp: distinct_conv_nth sorted_wrt_iff_nth_less) (metis less_irrefl linorder_neqE_nat)

text \<open>The frames of a packet in any order of arrival.\<close>

lemma fragments_reassemble:
  assumes frames: "rmap (decode_frame p) frames = Inr ds" and frag: "fragments_of p pr ident np ps ds"
    and perm: "mset arrived = mset frames" and ready: "ready r (key_of p pr ident) now np"
    and can: "canonical_packet p" and pr: "packet_protocol p = Inr pr" and np: "network_payload p = Inr np"
  shows "\<exists>ds' q. rmap (decode_frame p) arrived = Inr ds' \<and>
    push_all r ds' now = (r, replicate (length arrived - 1) (Inr None) @ [Inr (Some q)]) \<and>
    strip_packet q = strip_packet p"
proof -
  have cut: "cuts np 0 ps" and two: "2 \<le> length ps" and good: "list_all2 (good_fragment p pr ident) ps ds"
    using frag by (auto simp: fragments_of_def)
  let ?emits = "\<lambda>x frame. \<exists>d. decode_frame p frame = Inr d \<and> good_fragment p pr ident x d"
  have "list_all2 ?emits ps frames"
    using good rmap_length [OF frames] rmap_nth [OF frames]
    by (auto simp: list_all2_conv_all_nth)
  then have "list_all2 (\<lambda>frame x. ?emits x frame) frames ps"
    by (simp add: list_all2_conv_all_nth)
  from list_all2_reorder_left_invariance [OF this perm] obtain ps' where
    "list_all2 (\<lambda>frame x. ?emits x frame) arrived ps'" and ps': "mset ps' = mset ps" by blast
  then have all: "list_all2 ?emits ps' arrived"
    by (simp add: list_all2_conv_all_nth)
  have "list_all2 (\<lambda>(o1, b, m). ?emits (o1, b, m)) ps' arrived"
    by (rule list_all2_mono [OF all]) auto
  then obtain ds' where ds': "rmap (decode_frame p) arrived = Inr ds'"
    and good': "list_all2 (good_fragment p pr ident) ps' ds'"
    using decode_frames [where emits = "\<lambda>o1 b m. ?emits (o1, b, m)" and good = "good_fragment p pr ident"] by blast
  have len: "length ds' = length ps'" "length arrived = length ds'"
    using list_all2_lengthD [OF good'] rmap_length [OF ds'] by auto
  have dist: "distinct ps'" using cuts_distinct [OF cut] ps' by (metis mset_eq_imp_distinct_iff)
  have "map fst (zip ps' ds') = ps'" and snd: "map snd (zip ps' ds') = ds'" using len by simp_all
  moreover have "fst ` set (zip ps' ds') = set ps"
    using calculation(1) mset_eq_setD [OF ps'] by (metis list.set_map)
  moreover have "\<forall>(x, d) \<in> set (zip ps' ds'). good_fragment p pr ident x d"
    using good' by (auto simp: list_all2_iff)
  moreover have "zip ps' ds' \<noteq> []"
    using two len ps' by (metis calculation(1) length_0_conv list.map(1) mset_eq_length not_numeral_le_zero)
  ultimately have "\<exists>q. push_all (with_partial r (key_of p pr ident) None) (map snd (zip ps' ds')) now =
      (r, replicate (length (zip ps' ds') - 1) (Inr None) @ [Inr (Some q)]) \<and> strip_packet q = strip_packet p"
    using push_all_pieces [OF ready cut refl can pr np, of "zip ps' ds'" "{}" None] dist by auto
  then show ?thesis
    using ds' len by (auto simp: snd with_partial_def)
qed

subsection \<open>Other datagrams\<close>

lemma finish_datagram_other:
  "hm_wf (ra_datagrams r) \<Longrightarrow> other \<noteq> key \<Longrightarrow>
   map_of (ra_datagrams (fst (finish_datagram r key fs))) other = map_of (ra_datagrams r) other"
  by (auto simp: finish_datagram_def Let_def hm.lookup_update_other hm.lookup_remove_other
      split: option.split)

lemma store_fragment_other:
  "hm_wf (ra_datagrams r) \<Longrightarrow> other \<noteq> key \<Longrightarrow>
   map_of (ra_datagrams (fst (store_fragment r key fs d off fin m))) other = map_of (ra_datagrams r) other"
  unfolding store_fragment_def Let_def
  by (auto simp: finish_datagram_other hm.lookup_remove_other)

lemma push_fragment_other:
  assumes "hm_wf (ra_datagrams r)" and "other \<noteq> key"
  shows "map_of (ra_datagrams (fst (push_fragment r key d off m pr now))) other = map_of (ra_datagrams r) other"
  unfolding push_fragment_def Let_def
  using assms
  by (auto simp: store_fragment_other hm.wf_update hm.lookup_update_other hm.lookup_remove_other
      split: option.split overlap.split)

subsection \<open>Properties\<close>

text \<open>
  C2: IPv4 fragmentation and reassembly are inverse. When a canonical IPv4 packet with a
  non-empty network payload exceeds the MTU and \<open>fragment_ipv4\<close> succeeds, every frame it returns
  fits the MTU (plus the link header), the frames decode, and pushing them into a reassembler
  with room for the datagram, in any order of arrival, returns nothing until the last one and
  then the original packet (up to the computed fields), leaving the reassembler as it was.
\<close>

theorem ipv4_fragments_reassemble:
  assumes "fragment_ipv4 p mtu = Inr frames" and "canonical_packet p"
    and "packet_protocol p = Inr pr" and "network_payload p = Inr np" and "np \<noteq> []"
    and "pkt_network p = NetIpv4 base"
    and "mtu < 20 + pad4 (length (v4_options base)) + length np"
    and "mset arrived = mset frames" and "ready r (key_of p pr ident) now np"
  shows "(\<forall>frame \<in> set frames. length frame \<le> link_len p + mtu) \<and>
    (\<exists>ds q. rmap (decode_frame p) arrived = Inr ds \<and>
      push_all r ds now = (r, replicate (length arrived - 1) (Inr None) @ [Inr (Some q)]) \<and>
      strip_packet q = strip_packet p)"
proof -
  obtain ps ds where "rmap (decode_frame p) frames = Inr ds" and "fragments_of p pr ident np ps ds"
    and "\<forall>frame \<in> set frames. length frame \<le> link_len p + mtu"
    using fragment_ipv4_fragments [OF assms(1-7)] by blast
  then show ?thesis
    using fragments_reassemble [OF _ _ assms(8,9,2,3,4)] by blast
qed

text \<open>A raw IPv4 packet of sixteen payload bytes, cut in two by an MTU of 28.\<close>

definition raw_sample :: packet where
  "raw_sample = \<lparr>pkt_ethernet = None,
     pkt_network = NetIpv4 (default_ipv4_header\<lparr>v4_protocol := Some 99, v4_identification := 7\<rparr>),
     pkt_transport = None, pkt_payload = replicate 16 1\<rparr>"

lemmas raw_sample_simps = raw_sample_def default_ipv4_header_def packet_protocol_def
  network_payload_def canonical_packet_def Let_def packet_consts

lemma raw_sample_fragments: "\<exists>frames. fragment_ipv4 raw_sample 28 = Inr frames"
  by (simp add: fragment_ipv4_def raw_sample_simps padded_ipv4_options_def copied_ipv4_options_def
      pad4_def vec_resize_def fragment_ipv4_loop.simps u16_try_from_def slice_def packet_encode_def
      ipv4_fragment_packet_def encode_ipv4_def usize_checked_add_def)

theorem ipv4_fragments_reassemble_witness:
  "\<exists>frames ds q. fragment_ipv4 raw_sample 28 = Inr frames \<and>
     (\<forall>frame \<in> set frames. length frame \<le> 28) \<and>
     rmap (decode_frame raw_sample) (rev frames) = Inr ds \<and>
     snd (push_all (reassembler_new default_reassembly_config) ds 5) =
       replicate (length frames - 1) (Inr None) @ [Inr (Some q)] \<and>
     strip_packet q = strip_packet raw_sample"
proof -
  obtain frames where frames: "fragment_ipv4 raw_sample 28 = Inr frames"
    using raw_sample_fragments ..
  have "ready (reassembler_new default_reassembly_config) (key_of raw_sample 99 0) 5 (replicate 16 1)"
    by (simp add: ready_def reassembler_new_def default_reassembly_config_def expire_def Let_def buffered_def)
  from ipv4_fragments_reassemble [OF frames, where pr = 99 and np = "replicate 16 1" and
      base = "default_ipv4_header\<lparr>v4_protocol := Some 99, v4_identification := 7\<rparr>" and
      arrived = "rev frames" and r = "reassembler_new default_reassembly_config" and now = 5 and ident = 0,
      OF _ _ _ _ _ _ _ this]
  show ?thesis
    using frames by (fastforce simp: raw_sample_simps pad4_def link_len_def)
qed

text \<open>
  C28: IPv6 fragmentation and reassembly are inverse, in the same sense, with the Fragment
  extension header and the identification given to \<open>fragment_ipv6\<close>.
\<close>

theorem ipv6_fragments_reassemble:
  assumes "fragment_ipv6 p mtu ident = Inr frames" and "canonical_packet p"
    and "packet_protocol p = Inr pr" and "network_payload p = Inr np" and "np \<noteq> []"
    and "pkt_network p = NetIpv6 base" and "mtu < 40 + length np"
    and "mset arrived = mset frames" and "ready r (key_of p pr ident) now np"
  shows "(\<forall>frame \<in> set frames. length frame \<le> link_len p + mtu) \<and>
    (\<exists>ds q. rmap (decode_frame p) arrived = Inr ds \<and>
      push_all r ds now = (r, replicate (length arrived - 1) (Inr None) @ [Inr (Some q)]) \<and>
      strip_packet q = strip_packet p)"
proof -
  obtain ps ds where "rmap (decode_frame p) frames = Inr ds" and "fragments_of p pr ident np ps ds"
    and "\<forall>frame \<in> set frames. length frame \<le> link_len p + mtu"
    using fragment_ipv6_fragments [OF assms(1-7)] by blast
  then show ?thesis
    using fragments_reassemble [OF _ _ assms(8,9,2,3,4)] by blast
qed

definition raw_sample6 :: packet where
  "raw_sample6 = \<lparr>pkt_ethernet = None,
     pkt_network = NetIpv6 (default_ipv6_header\<lparr>v6_next_header := Some 99\<rparr>),
     pkt_transport = None, pkt_payload = replicate 24 1\<rparr>"

lemmas raw_sample6_simps = raw_sample6_def default_ipv6_header_def packet_protocol_def
  network_payload_def canonical_packet_def Let_def packet_consts

lemma raw_sample6_fragments: "\<exists>frames. fragment_ipv6 raw_sample6 56 9 = Inr frames"
  by (simp add: fragment_ipv6_def raw_sample6_simps fragment_ipv6_loop.simps u16_try_from_def slice_def
      packet_encode_def ipv6_fragment_packet_def encode_ipv6_def)

theorem ipv6_fragments_reassemble_witness:
  "\<exists>frames ds q. fragment_ipv6 raw_sample6 56 9 = Inr frames \<and>
     (\<forall>frame \<in> set frames. length frame \<le> 56) \<and>
     rmap (decode_frame raw_sample6) (rev frames) = Inr ds \<and>
     snd (push_all (reassembler_new default_reassembly_config) ds 5) =
       replicate (length frames - 1) (Inr None) @ [Inr (Some q)] \<and>
     strip_packet q = strip_packet raw_sample6"
proof -
  obtain frames where frames: "fragment_ipv6 raw_sample6 56 9 = Inr frames"
    using raw_sample6_fragments ..
  have "ready (reassembler_new default_reassembly_config) (key_of raw_sample6 99 9) 5 (replicate 24 1)"
    by (simp add: ready_def reassembler_new_def default_reassembly_config_def expire_def Let_def buffered_def)
  from ipv6_fragments_reassemble [OF frames, where pr = 99 and np = "replicate 24 1" and
      base = "default_ipv6_header\<lparr>v6_next_header := Some 99\<rparr>" and
      arrived = "rev frames" and r = "reassembler_new default_reassembly_config" and now = 5,
      OF _ _ _ _ _ _ _ this]
  show ?thesis
    using frames by (fastforce simp: raw_sample6_simps link_len_def)
qed

text \<open>
  C35: a reassembler stays within its configured limits. After any sequence of pushes (with
  arbitrary decoded packets and clock readings) and expirations, the number of pending
  datagrams is at most \<open>max_datagrams\<close>, the buffered bytes at most \<open>max_buffered_bytes\<close> (a byte
  limit below the largest \<open>usize\<close>), and the chunks of every pending datagram are sorted by
  offset and do not overlap.
\<close>

theorem reassembler_bounded:
  assumes "reachable (ra_init config) ra_step r"
  shows "pending r \<le> max_datagrams config \<and> buffered r \<le> max_buffered_bytes config \<and>
    (\<forall>(key, fs) \<in> set (ra_datagrams r). chunks_ok (fs_chunks fs))"
  using bounded.reachable_inv [OF assms] by (auto simp: ra_inv_def pending_def)

text \<open>A first fragment of eight bytes at offset zero.\<close>

definition sample_fragment :: "bytes \<Rightarrow> decoded_packet" where
  "sample_fragment payload =
     \<lparr>dec_packet = \<lparr>pkt_ethernet = None,
        pkt_network = NetIpv4 (default_ipv4_header\<lparr>v4_protocol := Some 99, v4_more_fragments := True\<rparr>),
        pkt_transport = None, pkt_payload = payload\<rparr>,
      dec_network_payload = payload, dec_ipv4_checksum_valid = Some True,
      dec_transport_checksum_valid = None, dec_trailing = []\<rparr>"

theorem reassembler_bounded_witness:
  "pending (fst (push_at (reassembler_new default_reassembly_config) (sample_fragment [1, 2, 3, 4, 5, 6, 7, 8]) 3)) \<le> 1024"
proof -
  let ?r0 = "reassembler_new default_reassembly_config"
  have "reachable (ra_init default_reassembly_config) ra_step ?r0"
    by (rule reachable.start) (simp add: ra_init_def default_reassembly_config_def)
  moreover have "ra_step ?r0 (PushFragment (sample_fragment [1, 2, 3, 4, 5, 6, 7, 8]) 3)
      (fst (push_at ?r0 (sample_fragment [1, 2, 3, 4, 5, 6, 7, 8]) 3))"
    by (simp add: ra_step_def)
  ultimately show ?thesis
    using reassembler_bounded [OF reachable.more] by (fastforce simp: default_reassembly_config_def)
qed

text \<open>
  a push for one datagram does not disturb another. The entry of every other key after a
  push is the one it had before, unless it has expired.
\<close>

theorem push_isolates_datagrams:
  assumes "hm_wf (ra_datagrams r)" and "fragment_identity d = Some (key, off, m, pr)" and "other \<noteq> key"
  shows "map_of (ra_datagrams (fst (push_at r d now))) other =
    map_of (ra_datagrams (fst (expire r now))) other"
proof -
  have wf: "hm_wf (ra_datagrams (fst (expire r now)))"
    using assms(1) by (simp add: expire_def Let_def hm_wf_filter)
  show ?thesis
  proof (cases rule: push_at_cases [where r = r and d = d and now = now])
    case (entered key' off' m' pr')
    then show ?thesis
      using assms(2) push_fragment_other [OF wf assms(3)] by simp
  qed simp
qed

theorem push_isolates_datagrams_witness:
  "map_of (ra_datagrams (fst (push_at (reassembler_new default_reassembly_config)
     (sample_fragment [1, 2, 3, 4, 5, 6, 7, 8]) 3))) (KeyIpv4 1 2 3 4) = None"
  using push_isolates_datagrams [of "reassembler_new default_reassembly_config"
      "sample_fragment [1, 2, 3, 4, 5, 6, 7, 8]" "KeyIpv4 0 0 0 99" 0 True 99 "KeyIpv4 1 2 3 4" 3]
  by (simp add: reassembler_new_def hm_wf_def fragment_identity_def sample_fragment_def
      default_ipv4_header_def expire_def Let_def)

text \<open>
  overlapping data is rejected. When a fragment with a non-empty payload shares a byte
  position with a buffered chunk of its datagram that is not byte-identical at the same offset,
  and the fragment passes the size and capacity checks, the push fails with the overlap error
  and drops the whole datagram.
\<close>

theorem overlap_rejected:
  assumes "fst (expire r now) = r" and "fragment_identity d = Some (key, off, m, pr)"
    and "map_of (ra_datagrams r) key = Some fs" and "chunks_ok (fs_chunks fs)"
    and "(eo, b) \<in> set (fs_chunks fs)" and "(eo, b) \<noteq> (off, dec_network_payload d)"
    and "off < eo + length b" and "eo < off + length (dec_network_payload d)"
    and "off + length (dec_network_payload d) < 2 ^ 64"
    and "m \<longrightarrow> length (dec_network_payload d) mod 8 = 0"
    and "buffered r + length (dec_network_payload d) \<le> max_buffered_bytes (ra_config r)"
    and "hm_wf (ra_datagrams r)"
  shows "snd (push_at r d now) = err ''overlapping IP fragments are rejected'' \<and>
    map_of (ra_datagrams (fst (push_at r d now))) key = None"
proof -
  let ?payload = "dec_network_payload d"
  have scan: "scan_overlap chunks off fin ?payload = Overlap"
    if "chunks_ok chunks" "(eo, b) \<in> set chunks" "fin = off + length ?payload" for chunks fin
    using that
  proof (induction chunks)
    case (Cons x chunks)
    obtain o' b' where x: "x = (o', b')" by (cases x)
    show ?case
    proof (cases "off < o' + length b' \<and> o' < fin")
      case True
      have "\<not> (o' = off \<and> b' = ?payload)"
        using Cons.prems assms(6,7,8) unfolding x chunks_ok_def by fastforce
      with True show ?thesis by (simp add: x)
    next
      case False
      then have "(eo, b) \<in> set chunks" using Cons.prems assms(7,8) by (auto simp: x)
      then show ?thesis using Cons False by (auto simp: x chunks_ok_def)
    qed
  qed simp
  have "push_at r d now = push_fragment r key d off m pr now"
    using assms(1,2,3,10,11) by (auto simp: push_at_def Let_def usize_saturating_add_def min_def)
  then show ?thesis
    using assms(3,4,5,9) scan [OF assms(4,5) refl] hm.lookup_remove_same [OF hm.wf_update [OF assms(12)]]
    by (simp add: push_fragment_def Let_def usize_checked_add_def)
qed

text \<open>A reassembler that holds the first eight bytes of a datagram.\<close>

definition sample_reassembler :: reassembler where
  "sample_reassembler = \<lparr>ra_config = default_reassembly_config,
     ra_datagrams = [(KeyIpv4 0 0 0 99, \<lparr>fs_created = 3, fs_ethernet = None,
       fs_network = pkt_network (dec_packet (sample_fragment [])), fs_protocol = 99,
       fs_chunks = [(0, [1, 2, 3, 4, 5, 6, 7, 8])], fs_total_length = None\<rparr>)]\<rparr>"

lemma sample_fragment_identity:
  "fragment_identity (sample_fragment payload) = Some (KeyIpv4 0 0 0 99, 0, True, 99)"
  "dec_network_payload (sample_fragment payload) = payload"
  by (simp_all add: fragment_identity_def sample_fragment_def default_ipv4_header_def)

lemma sample_reassembler_facts:
  "fst (expire sample_reassembler 4) = sample_reassembler"
  "map_of (ra_datagrams sample_reassembler) (KeyIpv4 0 0 0 99) = Some \<lparr>fs_created = 3, fs_ethernet = None,
     fs_network = pkt_network (dec_packet (sample_fragment [])), fs_protocol = 99,
     fs_chunks = [(0, [1, 2, 3, 4, 5, 6, 7, 8])], fs_total_length = None\<rparr>"
  "hm_wf (ra_datagrams sample_reassembler)" "buffered sample_reassembler = 8"
  "max_buffered_bytes (ra_config sample_reassembler) = 16777216"
  by (simp_all add: sample_reassembler_def expire_def Let_def live_def default_reassembly_config_def
      hm_wf_def buffered_def chunk_bytes_def)

theorem overlap_rejected_witness:
  "snd (push_at sample_reassembler (sample_fragment [9, 9, 9, 9, 9, 9, 9, 9]) 4) =
     err ''overlapping IP fragments are rejected''"
  using overlap_rejected [where eo = 0 and b = "[1, 2, 3, 4, 5, 6, 7, 8]" and
      d = "sample_fragment [9, 9, 9, 9, 9, 9, 9, 9]", OF sample_reassembler_facts(1)
      sample_fragment_identity(1) sample_reassembler_facts(2)]
  by (simp add: sample_fragment_identity sample_reassembler_facts chunks_ok_def)

subsection \<open>Empty fragments\<close>

lemma identity_offset: "fragment_identity d = Some (key, off, m, pr) \<Longrightarrow> off < 2 ^ 64"
proof -
  assume d: "fragment_identity d = Some (key, off, m, pr)"
  have "unat w < 2 ^ 16" for w :: u16 by (rule order.strict_trans2 [OF unsigned_less]) simp
  then have "unat w * 8 < 2 ^ 64" for w :: u16 by (rule order.strict_trans1 [OF mult_right_mono [OF less_imp_le]]) simp_all
  with d show ?thesis by (auto simp: fragment_identity_def split: network_header.splits if_splits)
qed

lemma chunk_bytes_replaced:
  "bt_wf chunks \<Longrightarrow> chunk_bytes (bt_insert k v chunks) + length (unwrap_or [] (map_of chunks k)) = chunk_bytes chunks + length v"
proof (induction chunks)
  case (Cons kv chunks)
  obtain j w where kv: "kv = (j, w)" by (cases kv)
  have "k < j \<Longrightarrow> map_of chunks k = None" using Cons.prems by (fastforce simp: kv map_of_eq_None_iff)
  with Cons show ?case by (auto simp: kv chunk_bytes_def)
qed (simp add: chunk_bytes_def)

text \<open>A further fragment of a datagram that is held, as far as \<open>store_fragment\<close>.\<close>

lemma push_held:
  assumes "fst (expire r now) = r" and "fragment_identity d = Some (key, off, m, pr)" and "map_of (ra_datagrams r) key = Some fs"
    and "m \<longrightarrow> 8 dvd length (dec_network_payload d)"
    and "map_of (fs_chunks fs) off = Some (dec_network_payload d) \<or>
      usize_saturating_add (buffered r) (length (dec_network_payload d)) \<le> max_buffered_bytes (ra_config r)"
    and "usize_checked_add off (length (dec_network_payload d)) = Some fin"
    and "scan_overlap (fs_chunks fs) off fin (dec_network_payload d) = NoOverlap"
  shows "push_at r d now = store_fragment (r\<lparr>ra_datagrams := AList.update key fs (ra_datagrams r)\<rparr>) key fs d off fin m"
  using assms by (auto simp: push_at_def push_fragment_def Let_def)

lemma completed_by:
  assumes "snd (push_at r e now) = Inr (Some p)" and "fst (expire r now) = r"
    and "fragment_identity e = Some (key, off, False, pr)" and "map_of (ra_datagrams r) key = Some fs" and "fs_total_length fs = None"
  obtains fin where "usize_checked_add off (length (dec_network_payload e)) = Some fin"
    and "scan_overlap (fs_chunks fs) off fin (dec_network_payload e) = NoOverlap"
    and "map_of (fs_chunks fs) off = Some (dec_network_payload e) \<or>
      usize_saturating_add (buffered r) (length (dec_network_payload e)) \<le> max_buffered_bytes (ra_config r)"
    and "scan_cursor (bt_insert off (dec_network_payload e) (fs_chunks fs)) 0 = Some fin"
  using assms
  by (auto simp: push_at_def push_fragment_def store_fragment_def finish_datagram_def Let_def
      split: if_splits option.splits overlap.splits)

lemma erased_facts:
  assumes r: "ra_inv r" "fst (expire r now) = r" "map_of (ra_datagrams r) key = Some fs" and b: "map_of (fs_chunks fs) off = Some b"
    and fs': "fs' = fs\<lparr>fs_ethernet := eth, fs_network := net, fs_chunks := bt_insert off [] (fs_chunks fs)\<rparr>"
    and r': "r' = r\<lparr>ra_datagrams := AList.update key fs' (ra_datagrams r)\<rparr>"
  shows "chunk_bytes (fs_chunks fs') + length b = chunk_bytes (fs_chunks fs)" and "fst (expire r' now) = r'"
    and "buffered r' + length b = buffered r" and "map_of (ra_datagrams r') key = Some fs'"
proof -
  have wf: "hm_wf (ra_datagrams r)" "bt_wf (fs_chunks fs)"
    using r(1) map_of_SomeD [OF r(3)] by (auto simp: ra_inv_def chunks_ok_def)
  show c: "chunk_bytes (fs_chunks fs') + length b = chunk_bytes (fs_chunks fs)"
    using chunk_bytes_replaced [OF wf(2), of off "[]"] by (simp add: fs' b)
  show "buffered r' + length b = buffered r"
    using bytes_in_update [OF wf(1), of key fs'] c by (simp add: r(3) buffered_def r')
  show "map_of (ra_datagrams r') key = Some fs'" using hm.lookup_update_same [OF wf(1)] by (simp add: r')
  have "filter (\<lambda>(key, fs). live (ra_config r) now fs) (ra_datagrams r) = ra_datagrams r"
    using arg_cong [OF r(2), of ra_datagrams] by (simp add: expire_def Let_def)
  then have "\<forall>x \<in> set (ra_datagrams r). live (ra_config r) now (snd x)" by (auto simp: filter_id_iff)
  then have "\<forall>x \<in> set (AList.update key fs' (ra_datagrams r)). live (ra_config r) now (snd x)"
    using set_update_subset [of key fs' "ra_datagrams r"] map_of_SomeD [OF r(3)] by (fastforce simp: fs' live_def)
  then show "fst (expire r' now) = r'" by (simp add: expire_def Let_def r' filter_id_iff case_prod_unfold)
qed

text \<open>
  C38: an empty fragment erases buffered data. Let a datagram be held whose final fragment has not
  arrived yet, with a non-empty chunk at some offset. A non-final fragment with an empty payload at
  that offset passes the overlap check although it is not byte-identical to the chunk; it is accepted
  without an error and replaces the chunk by the empty one, all other chunks staying as they are.
  The final fragment that would have completed the datagram then no longer does: it is
  accepted, and no datagram is returned.
\<close>

theorem empty_fragment_erases_chunk:
  assumes "ra_inv r" and "fst (expire r now) = r" and "fragment_identity d = Some (key, off, True, pr)"
    and "dec_network_payload d = []" and "map_of (ra_datagrams r) key = Some fs"
    and "map_of (fs_chunks fs) off = Some b" and "b \<noteq> []" and "fs_total_length fs = None"
  shows "\<exists>r' fs'. push_at r d now = (r', Inr None) \<and> map_of (ra_datagrams r') key = Some fs' \<and>
    fs_chunks fs' = bt_insert off [] (fs_chunks fs) \<and>
    (\<forall>e eoff pe p. fragment_identity e = Some (key, eoff, False, pe) \<longrightarrow> off < eoff \<longrightarrow>
       snd (push_at r e now) = Inr (Some p) \<longrightarrow> snd (push_at r' e now) = Inr None)"
proof -
  define fs' where "fs' = fs\<lparr>fs_ethernet := if off = 0 then pkt_ethernet (dec_packet d) else fs_ethernet fs,
    fs_network := if off = 0 then pkt_network (dec_packet d) else fs_network fs, fs_chunks := bt_insert off [] (fs_chunks fs)\<rparr>"
  define r' where "r' = r\<lparr>ra_datagrams := AList.update key fs' (ra_datagrams r)\<rparr>"
  note facts = erased_facts [OF assms(1,2,5,6) fs'_def r'_def]
  have ok: "chunks_ok (fs_chunks fs)" using assms(1) map_of_SomeD [OF assms(5)] by (auto simp: ra_inv_def)
  have "scan_overlap (fs_chunks fs) off off [] = NoOverlap"
    unfolding scan_overlap_NoOverlap using ok map_of_SomeD [OF assms(6)] by (fastforce simp: chunks_ok_def)
  then have "push_at r d now = store_fragment (r\<lparr>ra_datagrams := AList.update key fs (ra_datagrams r)\<rparr>) key fs d off off True"
    using assms(1,4) identity_offset [OF assms(3)]
    by (intro push_held [OF assms(2,3,5)]) (auto simp: ra_inv_def usize_saturating_add_def usize_checked_add_def)
  then have push: "push_at r d now = (r', Inr None)"
    using assms(4,8) by (auto simp: store_fragment_def finish_datagram_def Let_def r'_def fs'_def)
  have "snd (push_at r' e now) = Inr None"
    if e: "fragment_identity e = Some (key, eoff, False, pe)" "off < eoff" "snd (push_at r e now) = Inr (Some p)" for e eoff pe p
  proof -
    let ?pl = "dec_network_payload e"
    obtain fin where fin: "usize_checked_add eoff (length ?pl) = Some fin" "scan_overlap (fs_chunks fs) eoff fin ?pl = NoOverlap"
      "map_of (fs_chunks fs) eoff = Some ?pl \<or> usize_saturating_add (buffered r) (length ?pl) \<le> max_buffered_bytes (ra_config r)"
      "scan_cursor (bt_insert eoff ?pl (fs_chunks fs)) 0 = Some fin"
      using completed_by [OF e(3) assms(2) e(1) assms(5,8)] by blast
    have "scan_overlap (fs_chunks fs') eoff fin ?pl = NoOverlap"
      using fin(2) e(2) ok unfolding scan_overlap_NoOverlap fs'_def chunks_ok_def by (auto simp: set_bt_insert)
    moreover have "map_of (fs_chunks fs') eoff = Some ?pl \<or> usize_saturating_add (buffered r') (length ?pl) \<le> max_buffered_bytes (ra_config r')"
      using fin(3) facts(3) e(2) by (auto simp: fs'_def map_of_bt_insert usize_saturating_add_def r'_def)
    ultimately have st: "push_at r' e now = store_fragment (r'\<lparr>ra_datagrams := AList.update key fs' (ra_datagrams r')\<rparr>) key fs' e eoff fin False"
      using fin(1) by (intro push_held [OF facts(2) e(1) facts(4)]) auto
    have "bt_wf (fs_chunks fs)" "bt_wf (fs_chunks fs')" using ok by (simp_all add: chunks_ok_def fs'_def bt_wf_insert)
    then have "chunk_bytes (bt_insert eoff ?pl (fs_chunks fs')) < chunk_bytes (bt_insert eoff ?pl (fs_chunks fs))"
      using chunk_bytes_replaced [of "fs_chunks fs" eoff ?pl] chunk_bytes_replaced [of "fs_chunks fs'" eoff ?pl] facts(1) e(2) assms(7)
      by (cases b) (auto simp: fs'_def map_of_bt_insert)
    then have "scan_cursor (bt_insert eoff ?pl (fs_chunks fs')) 0 \<noteq> Some fin"
      using scan_cursor_sum [OF fin(4)] by (auto dest: scan_cursor_sum)
    then show ?thesis using e(2) assms(8) by (simp add: st store_fragment_def finish_datagram_def Let_def fs'_def)
  qed
  with push facts(4) show ?thesis by (auto simp: fs'_def)
qed

text \<open>The final fragment of the datagram that \<open>sample_reassembler\<close> holds.\<close>

definition sample_final :: decoded_packet where
  "sample_final =
     \<lparr>dec_packet = \<lparr>pkt_ethernet = None,
        pkt_network = NetIpv4 (default_ipv4_header\<lparr>v4_protocol := Some 99, v4_fragment_offset := 1\<rparr>),
        pkt_transport = None, pkt_payload = [9]\<rparr>,
      dec_network_payload = [9], dec_ipv4_checksum_valid = Some True,
      dec_transport_checksum_valid = None, dec_trailing = []\<rparr>"

lemma sample_final_identity: "fragment_identity sample_final = Some (KeyIpv4 0 0 0 99, 8, False, 99)" "dec_network_payload sample_final = [9]"
  by (simp_all add: fragment_identity_def sample_final_def default_ipv4_header_def)

lemma sample_final_completes: "\<exists>p. snd (push_at sample_reassembler sample_final 4) = Inr (Some p)"
  by (simp add: push_at_def sample_final_identity sample_reassembler_facts Let_def push_fragment_def store_fragment_def
      finish_datagram_def usize_checked_add_def usize_saturating_add_def decode_transport_def packet_consts)

theorem empty_fragment_erases_chunk_witness:
  "\<exists>r'. push_at sample_reassembler (sample_fragment []) 4 = (r', Inr None) \<and> snd (push_at r' sample_final 4) = Inr None"
proof -
  have "ra_inv sample_reassembler"
    using sample_reassembler_facts(3-5)
    by (simp add: ra_inv_def) (simp add: sample_reassembler_def default_reassembly_config_def chunks_ok_def)
  from empty_fragment_erases_chunk [OF this sample_reassembler_facts(1) sample_fragment_identity(1,2) sample_reassembler_facts(2)]
  show ?thesis using sample_final_identity(1) sample_final_completes by fastforce
qed

end
