(* ===== verification/F64.thy ===== *)
theory F64
  imports Prelude
begin

unbundle bit_operations_syntax

text \<open>
  Rust's \<open>f64\<close> as its IEEE 754 bits. A finite number is an integer multiple of
  \<open>2 ^ -1074\<close>; \<open>f64_int\<close> is that multiple, so comparisons, \<open>fract() == 0.0\<close> and the
  conversions to integers are exact integer arithmetic.
\<close>

type_synonym f64 = "64 word"

definition f64_sign :: "f64 \<Rightarrow> bool" where
  "f64_sign w \<longleftrightarrow> bit w 63"

definition f64_exp :: "f64 \<Rightarrow> nat" where
  "f64_exp w = unat (take_bit 11 (drop_bit 52 w))"

definition f64_frac :: "f64 \<Rightarrow> nat" where
  "f64_frac w = unat (take_bit 52 w)"

definition f64_is_finite :: "f64 \<Rightarrow> bool" where
  "f64_is_finite w \<longleftrightarrow> f64_exp w \<noteq> 2047"

definition f64_is_nan :: "f64 \<Rightarrow> bool" where
  "f64_is_nan w \<longleftrightarrow> f64_exp w = 2047 \<and> f64_frac w \<noteq> 0"

definition f64_magnitude :: "f64 \<Rightarrow> nat" where
  "f64_magnitude w =
     (if f64_exp w = 0 then f64_frac w else (2 ^ 52 + f64_frac w) * 2 ^ (f64_exp w - 1))"

definition f64_int :: "f64 \<Rightarrow> int" where
  "f64_int w = (if f64_sign w then - int (f64_magnitude w) else int (f64_magnitude w))"

definition f64_unit :: int where
  "f64_unit = 2 ^ 1074"

definition f64_is_integral :: "f64 \<Rightarrow> bool" where
  "f64_is_integral w \<longleftrightarrow> f64_is_finite w \<and> f64_int w mod f64_unit = 0"

text \<open>Comparisons are false on NaN; infinities have the largest magnitude.\<close>

definition f64_eq :: "f64 \<Rightarrow> f64 \<Rightarrow> bool" where
  "f64_eq v w \<longleftrightarrow> \<not> f64_is_nan v \<and> \<not> f64_is_nan w \<and> f64_int v = f64_int w"

definition f64_le :: "f64 \<Rightarrow> f64 \<Rightarrow> bool" where
  "f64_le v w \<longleftrightarrow> \<not> f64_is_nan v \<and> \<not> f64_is_nan w \<and> f64_int v \<le> f64_int w"

text \<open>\<open>n as f64\<close> for an integer: round to 53 significant bits, ties to even.\<close>

definition round_half_even :: "nat \<Rightarrow> nat \<Rightarrow> nat" where
  "round_half_even n d =
     (let q = n div d; r = n mod d in
      if 2 * r < d then q else if 2 * r > d then q + 1 else if even q then q else q + 1)"

fun bit_length :: "nat \<Rightarrow> nat" where
  "bit_length n = (if n = 0 then 0 else Suc (bit_length (n div 2)))"

declare bit_length.simps [simp del]

definition round53 :: "nat \<Rightarrow> nat" where
  "round53 n = (let k = bit_length n - 53 in round_half_even n (2 ^ k) * 2 ^ k)"

definition f64_of_parts :: "bool \<Rightarrow> nat \<Rightarrow> nat \<Rightarrow> f64" where
  "f64_of_parts neg e f = (if neg then 2 ^ 63 else 0) OR push_bit 52 (of_nat e) OR of_nat f"

text \<open>A rounded positive integer below \<open>2 ^ 1024\<close> with its sign.\<close>

definition f64_of_rounded :: "bool \<Rightarrow> nat \<Rightarrow> f64" where
  "f64_of_rounded neg n =
     (if n = 0 then f64_of_parts neg 0 0
      else let b = bit_length n - 1 in
        f64_of_parts neg (b + 1023) (if b \<le> 52 then n * 2 ^ (52 - b) - 2 ^ 52 else n div 2 ^ (b - 52) - 2 ^ 52))"

definition f64_of_int :: "int \<Rightarrow> f64" where
  "f64_of_int i = f64_of_rounded (i < 0) (round53 (nat \<bar>i\<bar>))"

text \<open>The double nearest to \<open>n / d\<close>, ties to even; too large is infinite.\<close>

definition f64_of_ratio :: "bool \<Rightarrow> nat \<Rightarrow> nat \<Rightarrow> f64" where
  "f64_of_ratio neg n d =
     (let sign = (if neg then 2 ^ 63 else 0) in
      if n = 0 then sign
      else
        let e0 = int (bit_length n) - int (bit_length d);
            ge = (if e0 \<ge> 0 then n \<ge> d * 2 ^ nat e0 else n * 2 ^ nat (- e0) \<ge> d);
            e = max (if ge then e0 else e0 - 1) (- 1022);
            m = (if e \<le> 52 then round_half_even (n * 2 ^ nat (52 - e)) d else round_half_even n (d * 2 ^ nat (e - 52)));
            v = nat (e + 1022) * 2 ^ 52 + m
        in sign OR of_nat (min v (2047 * 2 ^ 52)))"

subsection \<open>Facts\<close>

lemma f64_frac_lt: "f64_frac w < 2 ^ 52"
proof -
  have "unat (take_bit 52 w) = take_bit 52 (unat w)"
    by (simp add: unsigned_take_bit_eq)
  moreover have "take_bit 52 (unat w) < 2 ^ 52" by (rule take_bit_nat_less_exp)
  ultimately show ?thesis by (simp add: f64_frac_def)
qed

lemma f64_exp_le: "f64_exp w \<le> 2047"
proof -
  have "unat (take_bit 11 (drop_bit 52 w)) = take_bit 11 (unat (drop_bit 52 w))"
    by (simp add: unsigned_take_bit_eq)
  moreover have "take_bit 11 (unat (drop_bit 52 w)) < 2 ^ 11" by (rule take_bit_nat_less_exp)
  ultimately show ?thesis by (simp add: f64_exp_def)
qed

lemma f64_eq_sym: "f64_eq v w \<longleftrightarrow> f64_eq w v"
  by (auto simp: f64_eq_def)

lemma f64_eq_trans: "f64_eq u v \<Longrightarrow> f64_eq v w \<Longrightarrow> f64_eq u w"
  by (auto simp: f64_eq_def)

lemma f64_eq_refl_iff: "f64_eq w w \<longleftrightarrow> \<not> f64_is_nan w"
  by (auto simp: f64_eq_def)

lemma bit_length_le: "n < 2 ^ k \<Longrightarrow> bit_length n \<le> k"
proof (induction k arbitrary: n)
  case 0
  then show ?case by (simp add: bit_length.simps)
next
  case (Suc k)
  then have "n div 2 < 2 ^ k" by auto
  with Suc.IH show ?case by (subst bit_length.simps) auto
qed

lemma round53_exact: "n < 2 ^ 53 \<Longrightarrow> round53 n = n"
  using bit_length_le [of n 53] by (simp add: round53_def round_half_even_def Let_def)

lemma bit_length_bounds: "0 < n \<Longrightarrow> 2 ^ (bit_length n - 1) \<le> n \<and> n < 2 ^ bit_length n"
proof (induction n rule: bit_length.induct)
  case (1 n)
  show ?case
  proof (cases "n = 1")
    case True
    then show ?thesis by (simp add: bit_length.simps)
  next
    case False
    with 1 have half: "0 < n div 2" by auto
    with 1 have IH: "2 ^ (bit_length (n div 2) - 1) \<le> n div 2" "n div 2 < 2 ^ bit_length (n div 2)"
      by auto
    have bl: "bit_length n = Suc (bit_length (n div 2))"
      using 1(2) by (simp add: bit_length.simps [of n])
    obtain k where k: "bit_length (n div 2) = Suc k"
      using half by (cases "bit_length (n div 2)") (auto simp: bit_length.simps [of "n div 2"])
    show ?thesis
      using IH unfolding bl k by (auto simp: power_Suc)
  qed
qed

lemma word_of_nat_bit: "bit (of_nat n :: 'a::len word) i \<longleftrightarrow> i < LENGTH('a) \<and> bit n i"
  by (simp add: bit_of_nat_iff)

lemma nat_small_bit: "n < 2 ^ k \<Longrightarrow> bit (n :: nat) i \<Longrightarrow> i < k"
  by (metis bit_take_bit_iff take_bit_nat_eq_self)

lemma f64_of_parts_fields:
  assumes "e < 2048" and "f < 2 ^ 52"
  shows "f64_exp (f64_of_parts neg e f) = e" and "f64_frac (f64_of_parts neg e f) = f"
    and "f64_sign (f64_of_parts neg e f) = neg"
proof -
  let ?w = "f64_of_parts neg e f"
  have eb: "bit e i \<Longrightarrow> i < 11" for i using nat_small_bit [of e 11 i] assms(1) by simp
  have fb: "bit f i \<Longrightarrow> i < 52" for i using nat_small_bit [of f 52 i] assms(2) by simp
  have bits: "bit ?w i \<longleftrightarrow> (neg \<and> i = 63) \<or> (52 \<le> i \<and> i < 64 \<and> bit e (i - 52)) \<or> (i < 52 \<and> bit f i)" for i
  proof -
    have "bit (2 ^ 63 :: f64) i \<longleftrightarrow> i = 63"
      by (simp only: bit_exp_iff) auto
    then show ?thesis
      using eb [of "i - 52"] fb [of i]
      by (cases neg) (auto simp: f64_of_parts_def bit_or_iff bit_push_bit_iff word_of_nat_bit)
  qed
  have "take_bit 11 (drop_bit 52 ?w) = of_nat e"
    by (rule bit_word_eqI) (auto simp: bit_simps bits word_of_nat_bit dest: eb fb)
  then show "f64_exp ?w = e"
    using assms(1) by (simp add: f64_exp_def unat_of_nat)
  have "take_bit 52 ?w = of_nat f"
    by (rule bit_word_eqI) (auto simp: bit_simps bits word_of_nat_bit dest: fb)
  then show "f64_frac ?w = f"
    using assms(2) by (simp add: f64_frac_def unat_of_nat)
  show "f64_sign ?w = neg"
    using eb [of 11] by (auto simp: f64_sign_def bits)
qed

text \<open>Integers of at most 53 bits are represented exactly.\<close>

lemma f64_of_rounded_exact:
  assumes "n < 2 ^ 53"
  shows "f64_is_finite (f64_of_rounded neg n)"
    and "f64_int (f64_of_rounded neg n) = (if neg then - int n else int n) * f64_unit"
proof -
  have "f64_exp (f64_of_rounded neg n) \<noteq> 2047 \<and> f64_magnitude (f64_of_rounded neg n) = n * 2 ^ 1074 \<and>
      f64_sign (f64_of_rounded neg n) = neg"
  proof (cases "n = 0")
    case True
    then show ?thesis
      using f64_of_parts_fields [of 0 0 neg] by (simp add: f64_of_rounded_def f64_magnitude_def)
  next
    case False
    define b where "b = bit_length n - 1"
    have "bit_length n \<le> 53" by (rule bit_length_le [OF assms])
    moreover have "0 < bit_length n" using False by (simp add: bit_length.simps [of n])
    ultimately have b: "b \<le> 52" "bit_length n = Suc b" by (auto simp: b_def)
    from bit_length_bounds [of n] False have lo: "2 ^ b \<le> n" and hi: "n < 2 ^ Suc b"
      unfolding b(2) by auto
    have p: "(2 :: nat) ^ 52 = 2 ^ b * 2 ^ (52 - b)"
      using b(1) by (simp only: power_add [symmetric] le_add_diff_inverse)
    have f1: "2 ^ 52 \<le> n * 2 ^ (52 - b)"
      unfolding p using lo by simp
    have "n * 2 ^ (52 - b) < 2 ^ Suc b * 2 ^ (52 - b)"
      using hi by (rule mult_less_mono1) simp
    also have "\<dots> = 2 * 2 ^ 52" using p by (simp only: power_Suc mult.assoc)
    finally have f2: "n * 2 ^ (52 - b) - 2 ^ 52 < 2 ^ 52"
      using f1 by simp
    have w: "f64_of_rounded neg n = f64_of_parts neg (b + 1023) (n * 2 ^ (52 - b) - 2 ^ 52)"
      unfolding f64_of_rounded_def Let_def b(2) using False b(1) by simp
    have "b + 1023 < 2048" using b(1) by simp
    note fields = f64_of_parts_fields [OF this f2, of neg, folded w]
    have "f64_magnitude (f64_of_rounded neg n) = n * 2 ^ (52 - b) * 2 ^ (b + 1022)"
      using f1 unfolding f64_magnitude_def fields by (simp del: power_Suc)
    also have "\<dots> = n * 2 ^ 1074"
    proof -
      have "52 - b + (b + 1022) = 1074" using b(1) by simp
      then show ?thesis by (simp only: mult.assoc power_add [symmetric])
    qed
    finally have "f64_magnitude (f64_of_rounded neg n) = n * 2 ^ 1074" .
    moreover have "f64_exp (f64_of_rounded neg n) \<noteq> 2047" unfolding fields(1) using b(1) by simp
    ultimately show ?thesis using fields(3) by blast
  qed
  then show "f64_is_finite (f64_of_rounded neg n)"
    and "f64_int (f64_of_rounded neg n) = (if neg then - int n else int n) * f64_unit"
    by (auto simp: f64_is_finite_def f64_int_def f64_unit_def)
qed

end
