(* ===== verification/Text.thy ===== *)
theory Text
  imports Prelude "HOL-Library.Char_ord" "HOL-Library.List_Lexorder"
begin

unbundle bit_operations_syntax

text \<open>
  Rust strings as the list of their UTF-8 bytes, written as characters: \<open>len()\<close> is
  \<open>length\<close>, \<open>as_bytes\<close> is \<open>bytes_of\<close>. Whitespace is Unicode \<open>White_Space\<close>, recognised by its
  encoding. Hexadecimal digits and text are those of \<open>src/src/value.rs\<close>.
\<close>

definition byte_of :: "char \<Rightarrow> byte" where
  "byte_of c = of_nat (of_char c)"

definition char_from :: "byte \<Rightarrow> char" where
  "char_from b = char_of (unat b)"

lemma char_from_byte_of [simp]: "char_from (byte_of c) = c"
  by (simp add: char_from_def byte_of_def unat_of_nat_byte)

lemma byte_of_char_from [simp]: "byte_of (char_from b) = b"
  using unat_byte [of b] by (simp add: char_from_def byte_of_def)

definition bytes_of :: "string \<Rightarrow> bytes" where
  "bytes_of s = map byte_of s"

definition string_of :: "bytes \<Rightarrow> string" where
  "string_of bs = map char_from bs"

lemma string_of_bytes_of [simp]: "string_of (bytes_of s) = s"
  by (simp add: string_of_def bytes_of_def comp_def)

lemma bytes_of_string_of [simp]: "bytes_of (string_of bs) = bs"
  by (simp add: string_of_def bytes_of_def comp_def)

lemma length_bytes_of [simp]: "length (bytes_of s) = length s"
  by (simp add: bytes_of_def)

lemma bytes_of_inj: "bytes_of s = bytes_of t \<longleftrightarrow> s = t"
  by (metis string_of_bytes_of)

subsection \<open>Whitespace\<close>

text \<open>
  The length in bytes of the whitespace character a string starts with, 0 if there is none:
  tab to carriage return, space, U+0085, U+00A0, U+1680, U+2000 to U+200A, U+2028, U+2029,
  U+202F, U+205F and U+3000.
\<close>

definition ws_len :: "string \<Rightarrow> nat" where
  "ws_len s =
     (let bs = bytes_of (take 3 s) in
      if bs = [] then 0
      else if bs ! 0 = 32 \<or> 9 \<le> bs ! 0 \<and> bs ! 0 \<le> 13 then 1
      else if take 2 bs = [0xc2, 0x85] \<or> take 2 bs = [0xc2, 0xa0] then 2
      else if bs = [0xe1, 0x9a, 0x80] \<or> bs = [0xe3, 0x80, 0x80] \<or> bs = [0xe2, 0x81, 0x9f] \<or>
        take 2 bs = [0xe2, 0x80] \<and> length bs = 3 \<and>
          (0x80 \<le> bs ! 2 \<and> bs ! 2 \<le> 0x8a \<or> bs ! 2 = 0xa8 \<or> bs ! 2 = 0xa9 \<or> bs ! 2 = 0xaf)
      then 3 else 0)"

lemma ws_len_le: "ws_len s \<le> length s"
proof -
  consider "s = []" | a where "s = [a]" | a b where "s = [a, b]" | a b c t where "s = a # b # c # t"
    by (metis list.exhaust)
  then show ?thesis
    by cases (auto simp: ws_len_def Let_def bytes_of_def numeral_3_eq_3)
qed

text \<open>\<open>s.chars().filter(|c| !c.is_whitespace()).collect()\<close>.\<close>

function remove_ws :: "string \<Rightarrow> string" where
  "remove_ws [] = []"
| "remove_ws (c # s) =
     (if ws_len (c # s) = 0 then c # remove_ws s else remove_ws (drop (ws_len (c # s)) (c # s)))"
  by pat_completeness auto
termination
  by (relation "measure length") (use ws_len_le in \<open>auto simp: not_less\<close>)

text \<open>\<open>trim_start\<close>, \<open>trim_end\<close> and \<open>trim\<close>: whitespace is cut off at the ends, one character at a time.\<close>

function trim_start :: "string \<Rightarrow> string" where
  "trim_start s = (if ws_len s = 0 then s else trim_start (drop (ws_len s) s))"
  by pat_completeness auto
termination
  by (relation "measure length") (use ws_len_le [of "[]"] in \<open>auto intro!: diff_less\<close>)

declare trim_start.simps [simp del]

definition ws_end_len :: "string \<Rightarrow> nat" where
  "ws_end_len s =
     (case find (\<lambda>k. k \<le> length s \<and> ws_len (drop (length s - k) s) = k) [1, 2, 3] of None \<Rightarrow> 0 | Some k \<Rightarrow> k)"

lemma ws_end_len_le: "ws_end_len s \<le> length s"
  by (auto simp: ws_end_len_def find_Some_iff split: option.split)

function trim_end :: "string \<Rightarrow> string" where
  "trim_end s = (if ws_end_len s = 0 then s else trim_end (take (length s - ws_end_len s) s))"
  by pat_completeness auto
termination
  by (relation "measure length") (use ws_end_len_le [of "[]"] in \<open>auto intro!: diff_less\<close>)

declare trim_end.simps [simp del]

definition trim :: "string \<Rightarrow> string" where
  "trim s = trim_end (trim_start s)"

text \<open>\<open>trim_matches(c)\<close> for one character.\<close>

definition trim_matches :: "char \<Rightarrow> string \<Rightarrow> string" where
  "trim_matches c s = rev (dropWhile (\<lambda>x. x = c) (rev (dropWhile (\<lambda>x. x = c) s)))"

text \<open>\<open>split_once\<close>: the text before and after the first occurrence of a pattern.\<close>

fun split_once :: "string \<Rightarrow> string \<Rightarrow> (string \<times> string) option" where
  "split_once pat [] = (if pat = [] then Some ([], []) else None)"
| "split_once pat (c # s) =
     (if take (length pat) (c # s) = pat then Some ([], drop (length pat) (c # s))
      else map_option (\<lambda>(a, b). (c # a, b)) (split_once pat s))"

definition strip_prefix :: "string \<Rightarrow> string \<Rightarrow> string option" where
  "strip_prefix p s = (if take (length p) s = p then Some (drop (length p) s) else None)"

definition is_ascii :: "bytes \<Rightarrow> bool" where
  "is_ascii bs \<longleftrightarrow> list_all (\<lambda>b. b < 0x80) bs"

subsection \<open>UTF-8\<close>

definition is_cont :: "byte \<Rightarrow> bool" where
  "is_cont b \<longleftrightarrow> 0x80 \<le> b \<and> b \<le> 0xbf"

text \<open>The check of \<open>String::from_utf8\<close>: no overlong forms, no surrogates, at most U+10FFFF.\<close>

fun valid_utf8 :: "bytes \<Rightarrow> bool" where
  "valid_utf8 [] = True"
| "valid_utf8 (b # bs) =
     (if b < 0x80 then valid_utf8 bs
      else case bs of
        [] \<Rightarrow> False
      | c # cs \<Rightarrow>
          if 0xc2 \<le> b \<and> b \<le> 0xdf then is_cont c \<and> valid_utf8 cs
          else case cs of
            [] \<Rightarrow> False
          | d # ds \<Rightarrow>
              if b = 0xe0 then 0xa0 \<le> c \<and> c \<le> 0xbf \<and> is_cont d \<and> valid_utf8 ds
              else if b = 0xed then 0x80 \<le> c \<and> c \<le> 0x9f \<and> is_cont d \<and> valid_utf8 ds
              else if 0xe1 \<le> b \<and> b \<le> 0xef then is_cont c \<and> is_cont d \<and> valid_utf8 ds
              else case ds of
                [] \<Rightarrow> False
              | e # es \<Rightarrow>
                  (if b = 0xf0 then 0x90 \<le> c \<and> c \<le> 0xbf
                   else if b = 0xf4 then 0x80 \<le> c \<and> c \<le> 0x8f
                   else 0xf1 \<le> b \<and> b \<le> 0xf3 \<and> is_cont c) \<and>
                  is_cont d \<and> is_cont e \<and> valid_utf8 es)"

subsection \<open>Decimal numbers and separators\<close>

text \<open>\<open>str::parse::<usize>\<close>: an optional \<open>+\<close>, then digits, within 64 bits.\<close>

definition is_digit :: "char \<Rightarrow> bool" where
  "is_digit c \<longleftrightarrow> 48 \<le> byte_of c \<and> byte_of c \<le> 57"

definition digits_value :: "string \<Rightarrow> nat" where
  "digits_value ds = foldl (\<lambda>n c. 10 * n + (unat (byte_of c) - 48)) 0 ds"

definition parse_usize :: "string \<Rightarrow> nat option" where
  "parse_usize s =
     (let ds = (case s of c # rest \<Rightarrow> if c = CHR ''+'' then rest else s | [] \<Rightarrow> s) in
      if ds = [] \<or> \<not> list_all is_digit ds \<or> digits_value ds \<ge> 2 ^ 64 then None else Some (digits_value ds))"

text \<open>\<open>to_string\<close> of an unsigned number.\<close>

definition digit_char :: "nat \<Rightarrow> char" where
  "digit_char n = char_from (of_nat (48 + n))"

fun decimal :: "nat \<Rightarrow> string" where
  "decimal n = (if n < 10 then [digit_char n] else decimal (n div 10) @ [digit_char (n mod 10)])"

declare decimal.simps [simp del]

text \<open>\<open>str::split\<close> by one character.\<close>

fun split_on :: "char \<Rightarrow> string \<Rightarrow> string list" where
  "split_on c [] = [[]]"
| "split_on c (x # xs) = (if x = c then [] # split_on c xs
     else case split_on c xs of [] \<Rightarrow> [[x]] | part # parts \<Rightarrow> (x # part) # parts)"

fun join :: "string \<Rightarrow> string list \<Rightarrow> string" where
  "join sep [] = []"
| "join sep [x] = x"
| "join sep (x # y # ys) = x @ sep @ join sep (y # ys)"

lemma split_on_no_sep: "c \<notin> set s \<Longrightarrow> split_on c s = [s]"
  by (induction s) auto

lemma split_on_append: "c \<notin> set s \<Longrightarrow> split_on c (s @ c # t) = s # split_on c t"
  by (induction s) auto

lemma split_on_join:
  "parts \<noteq> [] \<Longrightarrow> \<forall>p \<in> set parts. c \<notin> set p \<Longrightarrow> split_on c (join [c] parts) = parts"
  by (induction "[c]" parts rule: join.induct) (simp_all add: split_on_no_sep split_on_append)

subsection \<open>Hexadecimal text\<close>

definition hex_digit :: "byte \<Rightarrow> (string, byte) res" where
  "hex_digit b =
     (if 48 \<le> b \<and> b \<le> 57 then Inr (b - 48)
      else if 97 \<le> b \<and> b \<le> 102 then Inr (b - 97 + 10)
      else if 65 \<le> b \<and> b \<le> 70 then Inr (b - 65 + 10)
      else Inl (Fail ''invalid hex digit''))"

fun hex_pairs :: "bytes \<Rightarrow> (string, bytes) res" where
  "hex_pairs [] = Inr []"
| "hex_pairs [b] = rbind (hex_digit b) (\<lambda>hi. Inl Panic)"
| "hex_pairs (h # l # rest) =
     rbind (hex_digit h) (\<lambda>hi. rbind (hex_digit l) (\<lambda>lo.
       rbind (hex_pairs rest) (\<lambda>out. Inr ((push_bit 4 hi OR lo) # out))))"

definition parse_hex :: "string \<Rightarrow> (string, bytes) res" where
  "parse_hex s =
     (let body = (if take 2 s = ''0x'' then drop 2 s else s); cleaned = remove_ws body in
      if length cleaned mod 2 \<noteq> 0 then Inl (Fail ''hex string has odd number of digits'')
      else hex_pairs (bytes_of cleaned))"

definition hex_char :: "nat \<Rightarrow> char" where
  "hex_char n = ''0123456789abcdef'' ! n"

definition bytes_to_hex :: "bytes \<Rightarrow> string" where
  "bytes_to_hex bs = concat (map (\<lambda>b. [hex_char (unat b div 16), hex_char (unat b mod 16)]) bs)"

text \<open>The sixteen digits, checked one by one.\<close>

lemma less_16_cases:
  "n < 16 \<Longrightarrow> n \<in> {0, 1, 2, 3, 4, 5, 6, 7, 8, 9, 10, 11, 12, 13, 14, 15 :: nat}"
  by (simp only: insert_iff empty_iff) presburger

lemma nibble_less [simp]: "unat (b :: byte) div 16 < 16"
  using unat_byte [of b] by simp

lemma hex_char_digit:
  assumes "n < 16"
  shows "hex_digit (byte_of (hex_char n)) = Inr (of_nat n)" and "hex_char n \<noteq> CHR ''x''"
    and "byte_of (hex_char n) \<in> {48, 49, 50, 51, 52, 53, 54, 55, 56, 57, 97, 98, 99, 100, 101, 102}"
  using less_16_cases [OF assms] by (auto simp: hex_digit_def byte_of_def hex_char_def)

lemma ws_len_plain:
  "byte_of c \<notin> {9..13} \<union> {32, 0xc2, 0xe1, 0xe2, 0xe3} \<Longrightarrow> ws_len (c # s) = 0"
  by (simp add: ws_len_def Let_def bytes_of_def numeral_3_eq_3)

lemma ws_len_hex: "n < 16 \<Longrightarrow> ws_len (hex_char n # s) = 0"
  using hex_char_digit(3) [of n] by (intro ws_len_plain) (auto simp: word_le_nat_alt)

lemma nibbles: "push_bit 4 (of_nat (unat b div 16)) OR of_nat (unat b mod 16) = (b :: byte)"
proof -
  have "push_bit 4 (of_nat (unat b div 16)) OR of_nat (unat b mod 16) =
      push_bit 4 (of_nat (unat b div 16)) + (of_nat (unat b mod 16) :: byte)"
  proof (rule sym, rule disjunctive_add)
    fix i
    have "unat (of_nat (unat b mod 16) :: byte) < 2 ^ 4"
      by (subst unat_of_nat_byte) (auto intro: less_trans [of _ 16])
    then show "\<not> bit (push_bit 4 (of_nat (unat b div 16)) :: byte) i \<or> \<not> bit (of_nat (unat b mod 16) :: byte) i"
      using small_word_bit [of "of_nat (unat b mod 16) :: byte" 4 i] by (auto simp: bit_simps)
  qed
  also have "\<dots> = of_nat (16 * (unat b div 16) + unat b mod 16)"
    by (simp only: push_bit_eq_mult of_nat_add of_nat_mult) simp
  also have "\<dots> = b" by (simp only: mult_div_mod_eq) simp
  finally show ?thesis .
qed

lemma remove_ws_hex: "remove_ws (bytes_to_hex bs) = bytes_to_hex bs"
  by (induction bs) (auto simp: bytes_to_hex_def ws_len_hex)

lemma hex_pairs_hex: "hex_pairs (bytes_of (bytes_to_hex bs)) = Inr bs"
  by (induction bs) (auto simp: bytes_to_hex_def bytes_of_def hex_char_digit nibbles)

lemma length_bytes_to_hex [simp]: "length (bytes_to_hex bs) = 2 * length bs"
  by (induction bs) (auto simp: bytes_to_hex_def)

lemma bytes_to_hex_no_prefix: "take 2 (bytes_to_hex bs) \<noteq> ''0x''"
  using hex_char_digit(2) [of "unat (hd bs) mod 16"]
  by (cases bs) (auto simp: bytes_to_hex_def)

lemma parse_hex_bytes_to_hex: "parse_hex (bytes_to_hex bs) = Inr bs"
  by (simp add: parse_hex_def Let_def bytes_to_hex_no_prefix remove_ws_hex hex_pairs_hex)

lemma hex_digit_no_panic [panic_intros]: "no_panic (hex_digit b)"
  by (simp add: hex_digit_def)

lemma hex_pairs_no_panic: "even (length bs) \<Longrightarrow> no_panic (hex_pairs bs)"
  by (induction bs rule: hex_pairs.induct) (auto intro!: panic_intros)

end
