(* ===== verification/Value.thy ===== *)
theory Value
  imports F64 Text Keyed_Store
begin

unbundle bit_operations_syntax

text \<open>
  The dynamically typed values of \<open>src/src/value.rs\<close> and the syntax blocks of
  \<open>src/src/ast.rs\<close>. A \<open>HashMap<String, Value>\<close> is kept as a B-tree map, the canonical
  representative of its order-independent content. Equality follows \<open>PartialEq\<close>: numbers are
  compared as IEEE numbers, so a value with a NaN in it is not equal to itself.
\<close>

datatype val =
    VNull
  | VBool bool
  | VNumber f64
  | VString string
  | VBytes bytes
  | VArray "val list"
  | VObject "(string \<times> val) list"

type_synonym val_map = "(string, val) btree_map"

text \<open>Insertions into an empty map, in order.\<close>

definition collect_map :: "(string \<times> val) list \<Rightarrow> val_map" where
  "collect_map kvs = fold (\<lambda>(k, v). bt_insert k v) kvs []"

fun as_bool :: "val \<Rightarrow> bool option" where
  "as_bool (VBool b) = Some b"
| "as_bool _ = None"

fun as_str :: "val \<Rightarrow> string option" where
  "as_str (VString s) = Some s"
| "as_str _ = None"

fun as_bytes :: "val \<Rightarrow> bytes option" where
  "as_bytes (VBytes b) = Some b"
| "as_bytes _ = None"

fun as_i64 :: "val \<Rightarrow> int option" where
  "as_i64 (VNumber n) =
     (if f64_is_integral n \<and> - (2 ^ 63) * f64_unit \<le> f64_int n \<and> f64_int n < 2 ^ 63 * f64_unit
      then Some (f64_int n div f64_unit) else None)"
| "as_i64 _ = None"

fun as_u64 :: "val \<Rightarrow> nat option" where
  "as_u64 (VNumber n) =
     (if f64_is_integral n \<and> 0 \<le> f64_int n \<and> f64_int n < 2 ^ 64 * f64_unit
      then Some (nat (f64_int n div f64_unit)) else None)"
| "as_u64 _ = None"

definition as_u32 :: "val \<Rightarrow> nat option" where
  "as_u32 v = Option.bind (as_u64 v) (\<lambda>n. if n < 2 ^ 32 then Some n else None)"

fun as_array :: "val \<Rightarrow> val list option" where
  "as_array (VArray a) = Some a"
| "as_array _ = None"

fun as_object :: "val \<Rightarrow> val_map option" where
  "as_object (VObject m) = Some m"
| "as_object _ = None"

fun all_strings :: "val list \<Rightarrow> string list option" where
  "all_strings [] = Some []"
| "all_strings (v # vs) =
     Option.bind (as_str v) (\<lambda>s. map_option (\<lambda>ss. s # ss) (all_strings vs))"

fun as_string_array :: "val \<Rightarrow> string list option" where
  "as_string_array (VArray a) = all_strings a"
| "as_string_array _ = None"

fun val_eq :: "val \<Rightarrow> val \<Rightarrow> bool" and vals_eq :: "val list \<Rightarrow> val list \<Rightarrow> bool"
and fields_eq :: "(string \<times> val) list \<Rightarrow> (string \<times> val) list \<Rightarrow> bool" where
  "val_eq VNull VNull = True"
| "val_eq (VBool a) (VBool b) = (a = b)"
| "val_eq (VNumber a) (VNumber b) = f64_eq a b"
| "val_eq (VString a) (VString b) = (a = b)"
| "val_eq (VBytes a) (VBytes b) = (a = b)"
| "val_eq (VArray a) (VArray b) = vals_eq a b"
| "val_eq (VObject a) (VObject b) = fields_eq a b"
| "val_eq _ _ = False"
| "vals_eq [] [] = True"
| "vals_eq (a # as) (b # bs) = (val_eq a b \<and> vals_eq as bs)"
| "vals_eq _ _ = False"
| "fields_eq [] [] = True"
| "fields_eq ((k, a) # as) ((l, b) # bs) = (k = l \<and> val_eq a b \<and> fields_eq as bs)"
| "fields_eq _ _ = False"

subsection \<open>Syntax blocks\<close>

datatype block = Block
  (block_name: string)
  (block_labels: "string list")
  (block_attributes: val_map)
  (block_children: "block list")
  (block_source: "string option")
  (block_line: nat)
  (block_column: nat)

definition block_new :: "string \<Rightarrow> block" where
  "block_new name = Block name [] [] [] None 0 0"

definition block_attr :: "block \<Rightarrow> string \<Rightarrow> val option" where
  "block_attr b key = map_of (block_attributes b) key"

definition block_attr_str :: "block \<Rightarrow> string \<Rightarrow> string option" where
  "block_attr_str b key = Option.bind (block_attr b key) as_str"

definition block_child :: "block \<Rightarrow> string \<Rightarrow> block option" where
  "block_child b name = find (\<lambda>c. block_name c = name) (block_children b)"

definition block_all_children :: "block \<Rightarrow> string \<Rightarrow> block list" where
  "block_all_children b name = filter (\<lambda>c. block_name c = name) (block_children b)"

subsection \<open>Numbers as integers\<close>

lemma f64_unit_pos: "0 < f64_unit"
  by (simp add: f64_unit_def)

lemma scaled_range:
  "- (2 ^ 63) * f64_unit \<le> i * f64_unit \<longleftrightarrow> - (2 ^ 63) \<le> i"
  "i * f64_unit < 2 ^ 63 * f64_unit \<longleftrightarrow> i < 2 ^ 63"
  using f64_unit_pos by (simp_all only: mult_le_cancel_right_pos mult_less_cancel_right_pos)

lemma as_i64_exact:
  assumes "\<bar>i\<bar> < 2 ^ 53"
  shows "as_i64 (VNumber (f64_of_int i)) = Some i"
proof -
  have small: "nat \<bar>i\<bar> < 2 ^ 53" using assms by (simp add: nat_less_iff)
  have n: "f64_of_int i = f64_of_rounded (i < 0) (nat \<bar>i\<bar>)"
    by (simp add: f64_of_int_def round53_exact [OF small])
  have int: "f64_int (f64_of_int i) = i * f64_unit"
    unfolding n f64_of_rounded_exact(2) [OF small] by simp
  have "- (2 ^ 63) * f64_unit \<le> i * f64_unit" and "i * f64_unit < 2 ^ 63 * f64_unit"
    using assms unfolding scaled_range by simp_all
  moreover have "f64_is_integral (f64_of_int i)"
    unfolding f64_is_integral_def int using f64_of_rounded_exact(1) [OF small] by (simp add: n)
  ultimately show ?thesis
    using f64_unit_pos by (simp add: int)
qed

lemma as_i64_range: "as_i64 v = Some i \<Longrightarrow> - (2 ^ 63) \<le> i \<and> i < 2 ^ 63"
proof (cases v)
  case (VNumber n)
  assume "as_i64 v = Some i"
  then have i: "i = f64_int n div f64_unit" and r: "- (2 ^ 63) * f64_unit \<le> f64_int n" "f64_int n < 2 ^ 63 * f64_unit"
    and d: "f64_int n mod f64_unit = 0"
    by (auto simp: VNumber f64_is_integral_def split: if_splits)
  have "f64_int n = i * f64_unit" using d i by (metis div_mult_mod_eq add.right_neutral)
  with r show ?thesis by (simp only: scaled_range)
qed auto

lemma as_u64_i64: "as_u64 v = Some n \<Longrightarrow> n < 2 ^ 63 \<Longrightarrow> as_i64 v = Some (int n)"
proof (cases v)
  case (VNumber x)
  assume "as_u64 v = Some n" and n: "n < 2 ^ 63"
  then have eq: "int n = f64_int x div f64_unit" and pos: "0 \<le> f64_int x" and d: "f64_is_integral x"
    using f64_unit_pos by (auto simp: VNumber pos_imp_zdiv_nonneg_iff split: if_splits)
  have x: "f64_int x = int n * f64_unit"
    using d eq by (metis f64_is_integral_def div_mult_mod_eq add.right_neutral)
  have "int n < 2 ^ 63" using n by (metis of_nat_less_numeral_power_cancel_iff)
  then have "f64_int x < 2 ^ 63 * f64_unit" unfolding x scaled_range .
  moreover have "- (2 ^ 63) * f64_unit \<le> f64_int x" unfolding x scaled_range by simp
  ultimately show ?thesis using d eq by (simp add: VNumber)
qed auto

subsection \<open>Properties\<close>

text \<open>
  Printing bytes as hexadecimal text and parsing the text gives the bytes back, also with
  the optional \<open>0x\<close> prefix; and on any input \<open>parse_hex\<close> does not index out of
  bounds.
\<close>

theorem hex_text_roundtrip:
  "parse_hex (bytes_to_hex bs) = Inr bs \<and> parse_hex (''0x'' @ bytes_to_hex bs) = Inr bs \<and> no_panic (parse_hex s)"
proof (intro conjI)
  show "parse_hex (bytes_to_hex bs) = Inr bs" by (rule parse_hex_bytes_to_hex)
  show "parse_hex (''0x'' @ bytes_to_hex bs) = Inr bs"
    by (simp add: parse_hex_def Let_def remove_ws_hex hex_pairs_hex)
  show "no_panic (parse_hex s)"
    by (auto simp: parse_hex_def Let_def even_iff_mod_2_eq_zero intro!: hex_pairs_no_panic)
qed

text \<open>
  An integer of at most 53 bits survives the detour through an \<open>f64\<close> value: \<open>as_i64\<close> reads
  back the integer; an answer of \<open>as_i64\<close> is always in the range of \<open>i64\<close>.
\<close>

theorem integer_values_exact:
  "(\<bar>i\<bar> < 2 ^ 53 \<longrightarrow> as_i64 (VNumber (f64_of_int i)) = Some i) \<and>
   (\<forall>v j. as_i64 v = Some j \<longrightarrow> - (2 ^ 63) \<le> j \<and> j < 2 ^ 63)"
  using as_i64_exact as_i64_range by blast

lemma integer_values_exact_witness: "as_i64 (VNumber (f64_of_int (- 9007199254740991))) = Some (- 9007199254740991)"
  using integer_values_exact [of "- 9007199254740991"] by simp

end
