(* ===== verification/Model.thy ===== *)
theory Model
  imports Value "HOL-Library.Sublist"
begin

text \<open>
  The typed protocol model of \<open>src/src/model.rs\<close>: protocols, steps, expectations, field
  matchers and their defaults, and the two operations that carry meaning of their own,
  \<open>FieldMatch::matches\<close> and \<open>interpret_field_match\<close>. A \<open>HashMap\<close> with string keys is kept
  with its keys sorted (the iteration order of the program's maps is unspecified). An
  \<open>i64\<close> is an integer; \<open>u64\<close>, \<open>u32\<close> and \<open>usize\<close> configuration values are naturals.
  The crate \<open>regex_lite\<close> is represented by two parameters where it is used: which patterns
  compile, and which texts a compiled pattern matches; a compiled regex is identified by
  its pattern.
\<close>

subsection \<open>Errors\<close>

record model_error =
  me_message :: string
  me_source :: "string option"
  me_line :: "nat option"
  me_column :: "nat option"

definition merr :: "string \<Rightarrow> model_error" where
  "merr msg = \<lparr>me_message = msg, me_source = None, me_line = None, me_column = None\<rparr>"

definition at_block :: "model_error \<Rightarrow> block \<Rightarrow> model_error" where
  "at_block e b =
     (if me_source e = None
      then e\<lparr>me_source := block_source b, me_line := Some (block_line b), me_column := Some (block_column b)\<rparr>
      else e)"

subsection \<open>Data\<close>

datatype invariant_kind = NeverState | EventuallyState | StateImplies

record invariant_spec =
  inv_name :: string
  inv_kind :: invariant_kind
  inv_role :: string
  inv_state :: string
  inv_implies_role :: "string option"
  inv_implies_state :: "string option"

datatype header_field_spec = HeaderFieldSpec
  (hf_name: string)
  (hf_order: nat)
  (hf_offset: nat)
  (hf_offset_explicit: bool)
  (hf_length: nat)
  (hf_length_from: "string option")
  (hf_length_adjust: int)
  (hf_repeat: nat)
  (hf_repeat_from: "string option")
  (hf_terminator: "bytes option")
  (hf_when: "string option")
  (hf_bit_offset: byte)
  (hf_bits: byte)
  (hf_format: string)
  (hf_enum_values: val_map)
  (hf_fields: "header_field_spec list")
  (hf_switch_on: "string option")
  (hf_cases: "(string \<times> header_field_spec list) list")
  (hf_transform: "string option")
  (hf_key_from: "string option")
  (hf_nonce_from: "string option")
  (hf_checksum: "string option")
  (hf_checksum_range: "string option")

record header_schema =
  hs_name :: string
  hs_offset :: nat
  hs_endian :: string
  hs_fields :: "header_field_spec list"

datatype clock_mode = ClockReal | ClockVirtual

record retry_policy =
  rp_initial_delay_ms :: nat
  rp_max_delay_ms :: nat
  rp_backoff :: f64
  rp_jitter :: f64
  rp_retry_on :: "string list"

definition default_retry_policy :: retry_policy where
  "default_retry_policy =
     \<lparr>rp_initial_delay_ms = 0, rp_max_delay_ms = 60000, rp_backoff = f64_of_int 1, rp_jitter = 0, rp_retry_on = []\<rparr>"

record resource_limits =
  rl_max_inbox :: nat
  rl_max_trace :: nat
  rl_max_payload :: nat
  rl_max_loop :: nat
  rl_max_retry :: nat
  rl_connect_timeout_ms :: nat
  rl_max_runtime_ms :: nat

definition default_resource_limits :: resource_limits where
  "default_resource_limits =
     \<lparr>rl_max_inbox = 10000, rl_max_trace = 100000, rl_max_payload = 16 * 1024 * 1024,
      rl_max_loop = 10000, rl_max_retry = 1000, rl_connect_timeout_ms = 10000, rl_max_runtime_ms = 300000\<rparr>"

datatype action =
    ASend | ASendRaw | ARecv | ARecvRaw | AAck | ANack | AWait | AClose | AOpen | AReset
  | ADrop | ADuplicate | ACorrupt | AAssert | ASet | ALog | APlugin

fun action_as_str :: "action \<Rightarrow> string" where
  "action_as_str ASend = ''send''"
| "action_as_str ASendRaw = ''send_raw''"
| "action_as_str ARecv = ''recv''"
| "action_as_str ARecvRaw = ''recv_raw''"
| "action_as_str AAck = ''ack''"
| "action_as_str ANack = ''nack''"
| "action_as_str AWait = ''wait''"
| "action_as_str AClose = ''close''"
| "action_as_str AOpen = ''open''"
| "action_as_str AReset = ''reset''"
| "action_as_str ADrop = ''drop''"
| "action_as_str ADuplicate = ''duplicate''"
| "action_as_str ACorrupt = ''corrupt''"
| "action_as_str AAssert = ''assert''"
| "action_as_str ASet = ''set''"
| "action_as_str ALog = ''log''"
| "action_as_str APlugin = ''plugin''"

definition action_names :: "(string \<times> action) list" where
  "action_names =
     [(''send'', ASend), (''send_raw'', ASendRaw), (''recv'', ARecv), (''recv_raw'', ARecvRaw),
      (''ack'', AAck), (''nack'', ANack), (''wait'', AWait), (''close'', AClose),
      (''open'', AOpen), (''connect'', AOpen), (''listen'', AOpen),
      (''reset'', AReset), (''abort'', AReset), (''drop'', ADrop),
      (''duplicate'', ADuplicate), (''dup'', ADuplicate), (''corrupt'', ACorrupt),
      (''assert'', AAssert), (''check'', AAssert), (''set'', ASet),
      (''log'', ALog), (''mark'', ALog), (''plugin'', APlugin)]"

definition parse_action :: "string \<Rightarrow> action option" where
  "parse_action s = map_of action_names s"

record raw_packet_spec =
  raw_ethernet :: "val_map option"
  raw_ipv4 :: "val_map option"
  raw_ipv6 :: "val_map option"
  raw_tcp :: "val_map option"
  raw_udp :: "val_map option"
  raw_mtu :: "nat option"
  raw_fragment_id :: "u32 option"

record segment =
  sg_flags :: "string list"
  sg_seq :: "int option"
  sg_ack :: "int option"
  sg_payload :: "string option"
  sg_hex :: "string option"
  sg_payload_len :: "int option"
  sg_window :: "int option"
  sg_stream :: "int option"
  sg_fields :: val_map
  sg_delay_ms :: nat
  sg_flip_bit :: "nat option"

datatype field_match =
    FMEqual val
  | FMNotEqual val
  | FMContains string
  | FMPrefix string
  | FMSuffix string
  | FMRegex string "string option"
  | FMBytesContains bytes
  | FMMin int
  | FMMax int
  | FMRange "int option" "int option"

record expect =
  ex_flags :: "string list"
  ex_payload :: "string option"
  ex_hex :: "bytes option"
  ex_hex_contains :: "bytes option"
  ex_from :: "string option"
  ex_window :: "int option"
  ex_stream :: "int option"
  ex_fields :: "(string, field_match) btree_map"
  ex_capture :: "(string, string) btree_map"

definition default_expect :: expect where
  "default_expect =
     \<lparr>ex_flags = [], ex_payload = None, ex_hex = None, ex_hex_contains = None, ex_from = None,
      ex_window = None, ex_stream = None, ex_fields = [], ex_capture = []\<rparr>"

record timer =
  tm_timeout_ms :: nat
  tm_retransmit :: nat

record fault_predicate =
  fp_field :: string
  fp_equals :: val

record transport_config =
  tc_loss_rate :: f64
  tc_delay_ms :: nat
  tc_reorder :: bool
  tc_seed :: nat
  tc_jitter_ms :: nat
  tc_bandwidth_bps :: nat
  tc_bandwidth_after_nth :: nat
  tc_bandwidth_after_bps :: nat
  tc_mtu :: nat
  tc_burst_loss :: nat
  tc_duplicate_rate :: f64
  tc_corrupt_rate :: f64
  tc_drop_nth :: nat
  tc_disconnect_nth :: nat
  tc_delay_spike_nth :: nat
  tc_delay_spike_ms :: nat
  tc_mtu_blackhole :: bool
  tc_port_capacity :: nat
  tc_nat_source_ip :: "string option"
  tc_nat_source_port :: "nat option"
  tc_connect_failure :: "string option"
  tc_fault_steps :: "string list"
  tc_fault_flag :: "string option"
  tc_fault_when :: "fault_predicate option"

record plugin_spec =
  pl_manifest :: string
  pl_kind :: string
  pl_name :: string
  pl_input :: val

record step_spec =
  st_name :: string
  st_role :: string
  st_action :: action
  st_depends_on :: "string list"
  st_requirements :: "string list"
  st_from_state :: "string option"
  st_to_state :: "string option"
  st_description :: "string option"
  st_to :: "string option"
  st_mode :: "string option"
  st_message :: "string option"
  st_segment :: "segment option"
  st_expect :: "expect option"
  st_timer :: "timer option"
  st_assert :: "val_map option"
  st_set :: "val_map option"
  st_plugin :: "plugin_spec option"
  st_raw_packet :: "raw_packet_spec option"
  st_retransmit :: nat
  st_when :: "val option"
  st_retry :: nat
  st_on_timeout :: bool
  st_loop_count :: nat
  st_retry_policy :: retry_policy
  st_source :: "string option"
  st_line :: nat
  st_column :: nat

record protocol =
  pr_name :: string
  pr_description :: "string option"
  pr_steps :: "step_spec list"
  pr_transport :: "transport_config option"
  pr_limits :: resource_limits
  pr_clock :: clock_mode
  pr_raw_tcp_stateful :: bool
  pr_header_schemas :: "header_schema list"
  pr_invariants :: "invariant_spec list"

datatype case_outcome = CasePass | CaseFail

fun case_outcome_as_str :: "case_outcome \<Rightarrow> string" where
  "case_outcome_as_str CasePass = ''pass''"
| "case_outcome_as_str CaseFail = ''fail''"

record case_expect =
  ce_outcome :: case_outcome
  ce_asserts :: "(string, val_map) btree_map"

record case_spec =
  cs_name :: string
  cs_tags :: "string list"
  cs_vars :: val_map
  cs_expect :: case_expect

record cases_spec =
  cas_protocol :: string
  cas_cases :: "case_spec list"

subsection \<open>Substring search\<close>

text \<open>\<open>windows(n).any(|w| w == needle)\<close>, for a needle of \<open>n > 0\<close> elements.\<close>

definition windows :: "nat \<Rightarrow> 'a list \<Rightarrow> 'a list list" where
  "windows n xs = map (\<lambda>i. take n (drop i xs)) [0..<Suc (length xs) - n]"

definition has_window :: "'a list \<Rightarrow> 'a list \<Rightarrow> bool" where
  "has_window xs needle \<longleftrightarrow> list_ex (\<lambda>w. w = needle) (windows (length needle) xs)"

lemma has_window_iff: "has_window xs needle \<longleftrightarrow> sublist needle xs"
proof
  assume "has_window xs needle"
  then obtain i where "i < Suc (length xs) - length needle" and "take (length needle) (drop i xs) = needle"
    by (auto simp: has_window_def windows_def list_ex_iff)
  then show "sublist needle xs"
    by (metis sublist_drop sublist_order.order_trans sublist_take)
next
  assume "sublist needle xs"
  then obtain ps ss where xs: "xs = ps @ needle @ ss" by (auto simp: sublist_def)
  have "take (length needle) (drop (length ps) xs) = needle" and "length ps < Suc (length xs) - length needle"
    by (simp_all add: xs)
  then show "has_window xs needle"
    unfolding has_window_def windows_def list_ex_iff by (auto simp del: upt_Suc) (metis atLeast0LessThan imageI lessThan_iff)
qed

subsection \<open>Field matchers\<close>

definition str_contains :: "string \<Rightarrow> string \<Rightarrow> bool" where
  "str_contains s needle \<longleftrightarrow> has_window s needle"

fun number_ge :: "val \<Rightarrow> int \<Rightarrow> bool" where
  "number_ge (VNumber n) lo = f64_le (f64_of_int lo) n"
| "number_ge _ lo = False"

fun number_le :: "val \<Rightarrow> int \<Rightarrow> bool" where
  "number_le (VNumber n) hi = f64_le n (f64_of_int hi)"
| "number_le _ hi = False"

fun is_number :: "val \<Rightarrow> bool" where
  "is_number (VNumber n) = True"
| "is_number _ = False"

fun field_match_matches :: "(string \<Rightarrow> string \<Rightarrow> bool) \<Rightarrow> field_match \<Rightarrow> val \<Rightarrow> bool" where
  "field_match_matches re (FMEqual expected) actual = val_eq expected actual"
| "field_match_matches re (FMNotEqual expected) actual = (\<not> val_eq expected actual)"
| "field_match_matches re (FMContains needle) actual =
     (case as_str actual of Some s \<Rightarrow> str_contains s needle | None \<Rightarrow> False)"
| "field_match_matches re (FMPrefix p) actual =
     (case as_str actual of Some s \<Rightarrow> prefix p s | None \<Rightarrow> False)"
| "field_match_matches re (FMSuffix p) actual =
     (case as_str actual of Some s \<Rightarrow> suffix p s | None \<Rightarrow> False)"
| "field_match_matches re (FMRegex pattern compiled) actual =
     (case as_str actual of
        Some s \<Rightarrow> (case compiled of Some r \<Rightarrow> re r s | None \<Rightarrow> False)
      | None \<Rightarrow> False)"
| "field_match_matches re (FMBytesContains needle) actual =
     (case as_bytes actual of Some b \<Rightarrow> needle \<noteq> [] \<and> has_window b needle | None \<Rightarrow> False)"
| "field_match_matches re (FMMin lo) actual = number_ge actual lo"
| "field_match_matches re (FMMax hi) actual = number_le actual hi"
| "field_match_matches re (FMRange mn mx) actual =
     (is_number actual \<and>
      (case mn of None \<Rightarrow> True | Some lo \<Rightarrow> number_ge actual lo) \<and>
      (case mx of None \<Rightarrow> True | Some hi \<Rightarrow> number_le actual hi))"

text \<open>The keys of an object are checked against an allow-list.\<close>

definition validate_map_keys :: "(string, 'v) btree_map \<Rightarrow> string list \<Rightarrow> string \<Rightarrow> (model_error, unit) res" where
  "validate_map_keys attrs allowed context =
     (case find (\<lambda>kv. fst kv \<notin> set allowed) attrs of
        Some kv \<Rightarrow> Inl (Fail (merr (''unknown attribute `'' @ fst kv @ ''` in '' @ context)))
      | None \<Rightarrow> Inr ())"

fun map_err :: "('e \<Rightarrow> 'f) \<Rightarrow> ('e, 'a) res \<Rightarrow> ('f, 'a) res" where
  "map_err f (Inr x) = Inr x"
| "map_err f (Inl (Fail e)) = Inl (Fail (f e))"
| "map_err f (Inl Panic) = Inl Panic"

definition field_operators :: "string list" where
  "field_operators =
     [''hex'', ''hex_contains'', ''contains'', ''not_equal'', ''prefix'', ''suffix'', ''regex'', ''min'', ''max'']"

text \<open>\<open>o.get(key).and_then(as_str)\<close>.\<close>

definition get_str :: "val_map \<Rightarrow> string \<Rightarrow> string option" where
  "get_str m key = Option.bind (map_of m key) as_str"

text \<open>The numeric operators, tried last.\<close>

definition interpret_bounds :: "val_map \<Rightarrow> (model_error, field_match) res" where
  "interpret_bounds m =
     (case (Option.bind (map_of m ''min'') as_i64, Option.bind (map_of m ''max'') as_i64) of
        (Some lo, Some hi) \<Rightarrow> Inr (FMRange (Some lo) (Some hi))
      | (Some lo, None) \<Rightarrow> Inr (FMMin lo)
      | (None, Some hi) \<Rightarrow> Inr (FMMax hi)
      | (None, None) \<Rightarrow> Inl (Fail (merr (''field matcher object must have `hex`, `hex_contains`, `contains`, '' @
          ''`not_equal`, `prefix`, `suffix`, `regex`, `min`, or `max`''))))"

definition interpret_field_object :: "(string \<Rightarrow> bool) \<Rightarrow> val_map \<Rightarrow> (model_error, field_match) res" where
  "interpret_field_object regex_ok m =
     rbind (validate_map_keys m field_operators ''field matcher'') (\<lambda>_.
     let operator_count = length m;
         is_range = operator_count = 2 \<and> map_of m ''min'' \<noteq> None \<and> map_of m ''max'' \<noteq> None in
     if operator_count \<noteq> 1 \<and> \<not> is_range
     then Inl (Fail (merr ''field matcher must define exactly one operator, except min+max range''))
     else case get_str m ''hex'' of
       Some hs \<Rightarrow> rbind (map_err (\<lambda>e. merr (''field `hex`: '' @ e)) (parse_hex hs)) (\<lambda>bs. Inr (FMEqual (VBytes bs)))
     | None \<Rightarrow> (case get_str m ''hex_contains'' of
       Some hs \<Rightarrow> rbind (map_err (\<lambda>e. merr (''field `hex_contains`: '' @ e)) (parse_hex hs)) (\<lambda>bs.
         if bs = [] then Inl (Fail (merr ''field `hex_contains` must not be empty'')) else Inr (FMBytesContains bs))
     | None \<Rightarrow> (case get_str m ''contains'' of
       Some needle \<Rightarrow> Inr (FMContains needle)
     | None \<Rightarrow> (case map_of m ''not_equal'' of
       Some expected \<Rightarrow> Inr (FMNotEqual expected)
     | None \<Rightarrow> (case get_str m ''prefix'' of
       Some p \<Rightarrow> Inr (FMPrefix p)
     | None \<Rightarrow> (case get_str m ''suffix'' of
       Some p \<Rightarrow> Inr (FMSuffix p)
     | None \<Rightarrow> (case get_str m ''regex'' of
       Some pattern \<Rightarrow>
         if regex_ok pattern then Inr (FMRegex pattern (Some pattern)) else Inl (Fail (merr ''field `regex`: ''))
     | None \<Rightarrow> interpret_bounds m)))))))"

fun interpret_field_match :: "(string \<Rightarrow> bool) \<Rightarrow> val \<Rightarrow> (model_error, field_match) res" where
  "interpret_field_match regex_ok (VObject m) = interpret_field_object regex_ok m"
| "interpret_field_match regex_ok v = Inr (FMEqual v)"

fun interpret_field_matches ::
  "(string \<Rightarrow> bool) \<Rightarrow> val_map \<Rightarrow> (model_error, (string, field_match) btree_map) res" where
  "interpret_field_matches regex_ok [] = Inr []"
| "interpret_field_matches regex_ok ((k, v) # m) =
     rbind (interpret_field_match regex_ok v) (\<lambda>fm.
     rbind (interpret_field_matches regex_ok m) (\<lambda>out. Inr (bt_insert k fm out)))"

subsection \<open>What the matchers decide\<close>

lemma f64_of_int_small:
  assumes "\<bar>i\<bar> < 2 ^ 53"
  shows "f64_int (f64_of_int i) = i * f64_unit" and "\<not> f64_is_nan (f64_of_int i)"
proof -
  have small: "nat \<bar>i\<bar> < 2 ^ 53" using assms by (simp add: nat_less_iff)
  have n: "f64_of_int i = f64_of_rounded (i < 0) (nat \<bar>i\<bar>)"
    by (simp add: f64_of_int_def round53_exact [OF small])
  show "f64_int (f64_of_int i) = i * f64_unit"
    unfolding n f64_of_rounded_exact(2) [OF small] by simp
  show "\<not> f64_is_nan (f64_of_int i)"
    using f64_of_rounded_exact(1) [OF small, of "i < 0"] by (simp add: n f64_is_finite_def f64_is_nan_def)
qed

lemma f64_le_of_int:
  assumes "\<bar>i\<bar> < 2 ^ 53" and "\<bar>j\<bar> < 2 ^ 53"
  shows "f64_le (f64_of_int i) (f64_of_int j) \<longleftrightarrow> i \<le> j"
  unfolding f64_le_def f64_of_int_small(1) [OF assms(1)] f64_of_int_small(1) [OF assms(2)]
  using f64_of_int_small(2) [OF assms(1)] f64_of_int_small(2) [OF assms(2)] f64_unit_pos by simp

definition field_match_wf :: "field_match \<Rightarrow> bool" where
  "field_match_wf fm =
     (case fm of
        FMRegex pattern compiled \<Rightarrow> compiled = Some pattern
      | FMBytesContains needle \<Rightarrow> needle \<noteq> []
      | FMRange mn mx \<Rightarrow> mn \<noteq> None \<and> mx \<noteq> None
      | _ \<Rightarrow> True)"

lemma map_err_eq_Inr [simp]: "map_err f r = Inr x \<longleftrightarrow> r = Inr x"
  by (cases "(f, r)" rule: map_err.cases) auto

lemma map_err_no_panic [simp]: "no_panic (map_err f r) \<longleftrightarrow> no_panic r"
  by (cases "(f, r)" rule: map_err.cases) (auto simp: no_panic_def)

lemma parse_hex_no_panic: "no_panic (parse_hex s)"
  by (auto simp: parse_hex_def Let_def even_iff_mod_2_eq_zero intro!: hex_pairs_no_panic)

lemma interpret_bounds_ok: "ensures field_match_wf (interpret_bounds m)" "no_panic (interpret_bounds m)"
  unfolding interpret_bounds_def
  by (simp_all add: field_match_wf_def ensures_intros del: append.simps split: option.split)

lemma interpret_field_object_wf: "ensures field_match_wf (interpret_field_object ok m)"
  unfolding interpret_field_object_def Let_def
  by (intro ensures_intros interpret_bounds_ok) (simp_all only: field_match_wf_def field_match.case, simp_all only: not_False_eq_True)

lemma validate_map_keys_no_panic [panic_intros]: "no_panic (validate_map_keys m allowed context)"
  unfolding validate_map_keys_def by (intro panic_intros)

lemma interpret_field_object_no_panic: "no_panic (interpret_field_object ok m)"
  unfolding interpret_field_object_def Let_def
  by (intro panic_intros interpret_bounds_ok map_err_no_panic [THEN iffD2] parse_hex_no_panic)

lemma interpret_field_match_ok:
  "ensures field_match_wf (interpret_field_match ok v)" "no_panic (interpret_field_match ok v)"
  by (cases v; simp add: interpret_field_object_wf ensures_Inr field_match_wf_def)
    (cases v; simp add: interpret_field_object_no_panic)

end
