(* ===== verification/Matching.thy ===== *)
theory Matching
  imports Model
begin

text \<open>
  The messages of \<open>src/src/primitives.rs\<close> and \<open>Expect::matches\<close>, the receive matcher, with
  what a match means: each named aspect of the expectation holds of the message. Two more
  facts on field matchers (\<open>src/src/model.rs\<close>) and action names stand here.
\<close>

record message =
  ms_from :: string
  ms_flags :: "string list"
  ms_seq :: int
  ms_ack :: int
  ms_payload :: string
  ms_raw :: bytes
  ms_window :: int
  ms_stream :: "int option"
  ms_fields :: val_map

definition flags_str :: "message \<Rightarrow> string" where
  "flags_str m = (if ms_flags m = [] then ''-'' else join '','' (ms_flags m))"

definition payload_len :: "message \<Rightarrow> nat" where
  "payload_len m = (if ms_raw m \<noteq> [] then length (ms_raw m) else length (ms_payload m))"

fun fields_match ::
  "(string \<Rightarrow> string \<Rightarrow> bool) \<Rightarrow> (string, field_match) btree_map \<Rightarrow> val_map \<Rightarrow> bool" where
  "fields_match re [] kvs = True"
| "fields_match re ((key, matcher) # rest) kvs =
     (case map_of kvs key of
        Some actual \<Rightarrow> if field_match_matches re matcher actual then fields_match re rest kvs else False
      | None \<Rightarrow> False)"

definition expect_matches :: "(string \<Rightarrow> string \<Rightarrow> bool) \<Rightarrow> expect \<Rightarrow> message \<Rightarrow> bool" where
  "expect_matches re e m =
     (if (case ex_from e of Some from \<Rightarrow> from \<noteq> [] \<and> from \<noteq> ms_from m | None \<Rightarrow> False) then False
      else if list_ex (\<lambda>f. \<not> list_ex (\<lambda>g. g = f) (ms_flags m)) (ex_flags e) then False
      else if (case ex_payload e of Some p \<Rightarrow> p \<noteq> ms_payload m | None \<Rightarrow> False) then False
      else if (case ex_hex e of Some hx \<Rightarrow> ms_raw m \<noteq> hx | None \<Rightarrow> False) then False
      else if (case ex_hex_contains e of
          Some needle \<Rightarrow> needle = [] \<or> \<not> has_window (ms_raw m) needle | None \<Rightarrow> False) then False
      else if (case ex_window e of Some w \<Rightarrow> w \<noteq> ms_window m | None \<Rightarrow> False) then False
      else if (case ex_stream e of Some s \<Rightarrow> Some s \<noteq> ms_stream m | None \<Rightarrow> False) then False
      else fields_match re (ex_fields e) (ms_fields m))"

subsection \<open>What a match means\<close>

lemma fields_match_iff:
  "fields_match re ms kvs \<longleftrightarrow>
     (\<forall>(key, matcher) \<in> set ms. \<exists>actual. map_of kvs key = Some actual \<and> field_match_matches re matcher actual)"
  by (induction ms) (auto split: option.splits if_splits)

text \<open>The conditions of an expectation, one per attribute it names.\<close>

definition expect_holds :: "(string \<Rightarrow> string \<Rightarrow> bool) \<Rightarrow> expect \<Rightarrow> message \<Rightarrow> bool" where
  "expect_holds re e m \<longleftrightarrow>
     ex_from e \<in> {None, Some [], Some (ms_from m)} \<and>
     set (ex_flags e) \<subseteq> set (ms_flags m) \<and>
     ex_payload e \<in> {None, Some (ms_payload m)} \<and>
     ex_hex e \<in> {None, Some (ms_raw m)} \<and>
     (\<forall>needle. ex_hex_contains e = Some needle \<longrightarrow> needle \<noteq> [] \<and> sublist needle (ms_raw m)) \<and>
     ex_window e \<in> {None, Some (ms_window m)} \<and>
     (ex_stream e = None \<or> ex_stream e = ms_stream m) \<and>
     (\<forall>(key, matcher) \<in> set (ex_fields e).
        \<exists>actual. map_of (ms_fields m) key = Some actual \<and> field_match_matches re matcher actual)"

lemma flag_check: "list_ex (\<lambda>f. \<not> list_ex (\<lambda>g. g = f) gs) fs \<longleftrightarrow> \<not> set fs \<subseteq> set gs"
  by (auto simp: list_ex_iff)

text \<open>
  \<open>Expect::matches\<close> accepts a message exactly when every attribute the expectation names
  holds of it: the sender (an empty name is a wildcard), a subset of the flags, the exact
  payload and bytes, a byte string contained in the bytes, the window, the stream, and each
  named field by its matcher.
\<close>

theorem expect_matches_iff: "expect_matches re e m \<longleftrightarrow> expect_holds re e m"
proof -
  have opt: "(case x of Some y \<Rightarrow> Some y \<noteq> z | None \<Rightarrow> False) \<longleftrightarrow> x \<noteq> None \<and> x \<noteq> z" for x z :: "int option"
    by (auto split: option.split)
  show ?thesis
    unfolding expect_matches_def expect_holds_def flag_check fields_match_iff has_window_iff opt
    by (auto split: option.split)
qed

subsection \<open>An expectation built from a message\<close>

text \<open>No NaN occurs in the value.\<close>

fun nan_free :: "val \<Rightarrow> bool" where
  "nan_free (VNumber n) = (\<not> f64_is_nan n)"
| "nan_free (VArray vs) = list_all nan_free vs"
| "nan_free (VObject m) = list_all (\<lambda>kv. nan_free (snd kv)) m"
| "nan_free _ = True"

lemma nan_free_refl: "nan_free v \<Longrightarrow> val_eq v v"
proof (induction v)
  case (VArray vs)
  then have "list_all (\<lambda>v. val_eq v v) vs" by (auto simp: list_all_iff)
  then have "vals_eq vs vs" by (induction vs) auto
  then show ?case by simp
next
  case (VObject m)
  then have "list_all (\<lambda>kv. val_eq (snd kv) (snd kv)) m"
    by (auto simp: list_all_iff snds.simps)
  then have "fields_eq m m" by (induction m) auto
  then show ?case by simp
qed (auto simp: f64_eq_refl_iff)

definition expect_of :: "message \<Rightarrow> expect" where
  "expect_of m =
     \<lparr>ex_flags = ms_flags m, ex_payload = Some (ms_payload m), ex_hex = Some (ms_raw m), ex_hex_contains = None,
      ex_from = Some (ms_from m), ex_window = Some (ms_window m), ex_stream = ms_stream m,
      ex_fields = map (\<lambda>(k, v). (k, FMEqual v)) (ms_fields m), ex_capture = []\<rparr>"

text \<open>
  An expectation that names every aspect of a message (sender, flags, payload, bytes,
  window, stream and each field by equality) accepts that message, provided no field holds a
  NaN. A NaN is not equal to itself in Rust, so the proviso is needed.
\<close>

theorem expect_of_accepts:
  assumes "list_all (\<lambda>kv. nan_free (snd kv)) (ms_fields m)" and "bt_wf (ms_fields m)"
  shows "expect_matches re (expect_of m) m"
proof -
  have "\<exists>actual. map_of (ms_fields m) key = Some actual \<and> field_match_matches re matcher actual"
    if "(key, matcher) \<in> set (ex_fields (expect_of m))" for key matcher
  proof -
    from that obtain v where v: "(key, v) \<in> set (ms_fields m)" "matcher = FMEqual v"
      by (auto simp: expect_of_def)
    then have "map_of (ms_fields m) key = Some v"
      using bt_wf_distinct [OF assms(2)] by (simp add: map_of_is_SomeI)
    moreover have "val_eq v v"
      using assms(1) v(1) by (auto simp: list_all_iff intro!: nan_free_refl)
    ultimately show ?thesis by (simp add: v(2))
  qed
  then have "fields_match re (ex_fields (expect_of m)) (ms_fields m)"
    unfolding fields_match_iff by blast
  then show ?thesis
    by (auto simp: expect_matches_def expect_of_def flag_check split: option.splits)
qed

definition sample_message :: message where
  "sample_message =
     \<lparr>ms_from = ''client'', ms_flags = [''SYN''], ms_seq = 1, ms_ack = 0, ms_payload = ''hi'', ms_raw = [],
      ms_window = 0, ms_stream = None, ms_fields = [(''id'', VString ''x'')]\<rparr>"

lemma expect_of_accepts_witness: "expect_matches (\<lambda>_ _. False) (expect_of sample_message) sample_message"
  by (rule expect_of_accepts) (simp_all add: sample_message_def)

subsection \<open>Numeric matchers\<close>

text \<open>
  For integers of at most 53 bits the range matcher is the integer range test: the
  conversion of its \<open>i64\<close> bounds to \<open>f64\<close> loses nothing there.
\<close>

theorem range_matcher_exact:
  assumes "\<bar>i\<bar> < 2 ^ 53" and "\<bar>lo\<bar> < 2 ^ 53" and "\<bar>hi\<bar> < 2 ^ 53"
  shows "field_match_matches re (FMRange (Some lo) (Some hi)) (VNumber (f64_of_int i)) \<longleftrightarrow> lo \<le> i \<and> i \<le> hi"
  using f64_le_of_int [OF assms(2,1)] f64_le_of_int [OF assms(1,3)] by simp

lemma range_matcher_exact_witness:
  "field_match_matches (\<lambda>_ _. False) (FMRange (Some (-5)) (Some 10)) (VNumber (f64_of_int 7))"
  using range_matcher_exact [of 7 "-5" 10 "\<lambda>_ _. False"] by simp

text \<open>
  Interpreting the value of a \<open>fields\<close> attribute never panics, and a matcher it accepts
  is usable: a regex matcher holds its compiled pattern, a byte-search matcher has a
  non-empty needle, a range has both bounds.
\<close>

theorem interpreted_matcher_usable:
  "no_panic (interpret_field_match regex_ok v) \<and>
   (\<forall>fm. interpret_field_match regex_ok v = Inr fm \<longrightarrow> field_match_wf fm)"
  using interpret_field_match_ok [of regex_ok v] by (simp add: ensures_def)

lemma interpreted_matcher_usable_witness:
  "field_match_wf (FMRange (Some 1) (Some 10))"
proof -
  have i: "as_i64 (VNumber (f64_of_int 1)) = Some 1" "as_i64 (VNumber (f64_of_int 10)) = Some 10"
    by (rule as_i64_exact, simp)+
  have "interpret_field_match (\<lambda>_. True)
      (VObject [(''max'', VNumber (f64_of_int 10)), (''min'', VNumber (f64_of_int 1))]) =
      Inr (FMRange (Some 1) (Some 10))"
    by (simp add: interpret_field_object_def validate_map_keys_def field_operators_def get_str_def
        interpret_bounds_def i del: as_i64.simps)
  with interpreted_matcher_usable show ?thesis by blast
qed

subsection \<open>Action names\<close>

lemma action_names_complete: "list_all (\<lambda>a. map_of action_names (action_as_str a) = Some a)
    [ASend, ASendRaw, ARecv, ARecvRaw, AAck, ANack, AWait, AClose, AOpen, AReset,
     ADrop, ADuplicate, ACorrupt, AAssert, ASet, ALog, APlugin]"
  by (simp add: action_names_def)

text \<open>The printed name of every action is parsed back to the action.\<close>

theorem parse_action_as_str: "parse_action (action_as_str a) = Some a"
  using action_names_complete unfolding parse_action_def by (cases a) simp_all

end
