(* ===== verification/Graph.thy ===== *)
theory Graph
  imports Matching "HOL-Library.Multiset"
begin

text \<open>
  The planner of \<open>src/src/graph.rs\<close>: duplicate and unknown step names are rejected, each step
  is made to depend on the previous step of its role, and Kahn's algorithm with a ready queue
  kept sorted by declaration index produces the execution order. The loop may in principle
  run forever, so it is a partial function; that it returns is proved. The iteration order
  of the \<open>HashMap\<close> of dependencies is a parameter, \<open>hash_order\<close>.
\<close>

record plan_error =
  pe_message :: string
  pe_source :: "string option"
  pe_line :: "nat option"
  pe_column :: "nat option"

definition perr :: "string \<Rightarrow> plan_error" where
  "perr msg = \<lparr>pe_message = msg, pe_source = None, pe_line = None, pe_column = None\<rparr>"

definition perr_at :: "step_spec \<Rightarrow> string \<Rightarrow> plan_error" where
  "perr_at s msg =
     \<lparr>pe_message = msg, pe_source = st_source s, pe_line = Some (st_line s), pe_column = Some (st_column s)\<rparr>"

record planned_step =
  ps_step :: step_spec
  ps_deps :: "string list"

record exec_plan =
  plan_protocol_name :: string
  plan_roles :: "string list"
  plan_order :: "planned_step list"

type_synonym dep_map = "(string, string list) hash_map"

text \<open>\<open>map[key]\<close> panics on a missing key.\<close>

definition index_map :: "('k \<rightharpoonup> 'v) \<Rightarrow> 'k \<Rightarrow> ('e, 'v) res" where
  "index_map m k = (case m k of Some v \<Rightarrow> Inr v | None \<Rightarrow> Inl Panic)"

subsection \<open>Names and dependencies\<close>

definition duplicate_error :: "string \<Rightarrow> step_spec \<Rightarrow> plan_error" where
  "duplicate_error pname s =
     perr_at s (''duplicate step name `'' @ st_name s @ ''` in protocol `'' @ pname @ ''`'')"

fun index_names ::
  "string \<Rightarrow> nat \<Rightarrow> step_spec list \<Rightarrow> (string \<rightharpoonup> nat) \<Rightarrow> (plan_error, string \<rightharpoonup> nat) res" where
  "index_names pname i [] by_name = Inr by_name"
| "index_names pname i (s # ss) by_name =
     (if by_name (st_name s) \<noteq> None
      then Inl (Fail (duplicate_error pname s))
      else index_names pname (Suc i) ss (by_name(st_name s \<mapsto> i)))"

fun push_new :: "string list \<Rightarrow> string list \<Rightarrow> string list" where
  "push_new d [] = d"
| "push_new d (e # es) = push_new (if e \<in> set d then d else d @ [e]) es"

record dep_state =
  ds_deps :: dep_map
  ds_prev_in_role :: "string \<rightharpoonup> string"
  ds_roles_seen :: "string list"

definition resolve_step :: "step_spec \<Rightarrow> dep_state \<Rightarrow> dep_state" where
  "resolve_step s ds =
     (let roles = (if ds_prev_in_role ds (st_role s) = None
                   then ds_roles_seen ds @ [st_role s] else ds_roles_seen ds);
          d = (case ds_prev_in_role ds (st_role s) of Some prev \<Rightarrow> [prev] | None \<Rightarrow> []) in
      \<lparr>ds_deps = AList.update (st_name s) (push_new d (st_depends_on s)) (ds_deps ds),
       ds_prev_in_role = (ds_prev_in_role ds)(st_role s \<mapsto> st_name s),
       ds_roles_seen = roles\<rparr>)"

definition resolve_deps :: "step_spec list \<Rightarrow> dep_state" where
  "resolve_deps steps = fold resolve_step steps \<lparr>ds_deps = [], ds_prev_in_role = Map.empty, ds_roles_seen = []\<rparr>"

definition unknown_error :: "step_spec \<Rightarrow> string \<Rightarrow> plan_error" where
  "unknown_error s e = perr_at s (''step `'' @ st_name s @ ''` depends on unknown step `'' @ e @ ''`'')"

fun validate_deps :: "(string \<rightharpoonup> nat) \<Rightarrow> step_spec list \<Rightarrow> (plan_error, unit) res" where
  "validate_deps by_name [] = Inr ()"
| "validate_deps by_name (s # ss) =
     (case find (\<lambda>e. by_name e = None) (st_depends_on s) of
        Some e \<Rightarrow> Inl (Fail (unknown_error s e))
      | None \<Rightarrow> validate_deps by_name ss)"

subsection \<open>Kahn's algorithm\<close>

definition or_insert :: "'k \<Rightarrow> 'v \<Rightarrow> ('k \<rightharpoonup> 'v) \<Rightarrow> ('k \<rightharpoonup> 'v)" where
  "or_insert k v m = (case m k of Some _ \<Rightarrow> m | None \<Rightarrow> m(k \<mapsto> v))"

fun add_dependent :: "string \<Rightarrow> string list \<Rightarrow> (string \<rightharpoonup> string list) \<Rightarrow> (string \<rightharpoonup> string list)" where
  "add_dependent s [] adj = adj"
| "add_dependent s (d # ds) adj =
     add_dependent s ds (adj(d \<mapsto> (case adj d of Some l \<Rightarrow> l | None \<Rightarrow> []) @ [s]))"

fun edges :: "dep_map \<Rightarrow> (string \<rightharpoonup> nat) \<Rightarrow> (string \<rightharpoonup> string list) \<Rightarrow>
    (string \<rightharpoonup> nat) \<times> (string \<rightharpoonup> string list)" where
  "edges [] indeg adj = (indeg, adj)"
| "edges ((s, dlist) # rest) indeg adj =
     edges rest (indeg(s \<mapsto> length dlist)) (add_dependent s dlist adj)"

fun initial_ready :: "(string \<rightharpoonup> nat) \<Rightarrow> nat \<Rightarrow> step_spec list \<Rightarrow> (plan_error, nat list) res" where
  "initial_ready indeg i [] = Inr []"
| "initial_ready indeg i (s # ss) =
     rbind (index_map indeg (st_name s)) (\<lambda>n.
     rbind (initial_ready indeg (Suc i) ss) (\<lambda>is. Inr (if n = 0 then i # is else is)))"

record kahn_state =
  k_ready :: "nat list"
  k_indeg :: "string \<rightharpoonup> nat"
  k_order :: "planned_step list"
  k_done :: "string list"

fun relax :: "(string \<rightharpoonup> nat) \<Rightarrow> string list \<Rightarrow> (string \<rightharpoonup> nat) \<Rightarrow> nat list \<Rightarrow>
    (plan_error, (string \<rightharpoonup> nat) \<times> nat list) res" where
  "relax by_name [] indeg ready = Inr (indeg, ready)"
| "relax by_name (x # xs) indeg ready =
     (let e = (case indeg x of Some n \<Rightarrow> n | None \<Rightarrow> 0) - 1; indeg' = indeg(x \<mapsto> e) in
      if e = 0 then rbind (index_map by_name x) (\<lambda>j. relax by_name xs indeg' (ready @ [j]))
      else relax by_name xs indeg' ready)"

definition kahn_step ::
  "step_spec list \<Rightarrow> dep_map \<Rightarrow> (string \<rightharpoonup> string list) \<Rightarrow> (string \<rightharpoonup> nat) \<Rightarrow> nat \<Rightarrow> nat list \<Rightarrow>
   kahn_state \<Rightarrow> (plan_error, kahn_state) res" where
  "kahn_step steps deps adj by_name i rest k =
     rbind (if i < length steps then Inr (steps ! i) else Inl Panic) (\<lambda>s.
     rbind (index_map (map_of deps) (st_name s)) (\<lambda>d.
     rbind (index_map adj (st_name s)) (\<lambda>dependents.
     rbind (relax by_name dependents (k_indeg k) rest) (\<lambda>(indeg, ready).
       Inr \<lparr>k_ready = sort ready, k_indeg = indeg,
            k_order = k_order k @ [\<lparr>ps_step = s, ps_deps = d\<rparr>], k_done = st_name s # k_done k\<rparr>))))"

partial_function (option) kahn_loop ::
  "step_spec list \<Rightarrow> dep_map \<Rightarrow> (string \<rightharpoonup> string list) \<Rightarrow> (string \<rightharpoonup> nat) \<Rightarrow> kahn_state \<Rightarrow>
   (plan_error, kahn_state) res option" where
  "kahn_loop steps deps adj by_name k =
     (case k_ready k of
        [] \<Rightarrow> Some (Inr k)
      | i # rest \<Rightarrow>
          (case kahn_step steps deps adj by_name i rest k of
             Inl e \<Rightarrow> Some (Inl e)
           | Inr k' \<Rightarrow> kahn_loop steps deps adj by_name k'))"

definition cycle_error :: "step_spec list \<Rightarrow> string list \<Rightarrow> plan_error" where
  "cycle_error steps done_names =
     (let remaining = map st_name (filter (\<lambda>s. st_name s \<notin> set done_names) steps);
          msg = ''dependency cycle detected involving steps: ['' @ join '', '' remaining @ '']'' in
      case find (\<lambda>s. st_name s \<in> set remaining) steps of
        None \<Rightarrow> perr msg
      | Some s \<Rightarrow> perr_at s msg)"

definition kahn_sort ::
  "(dep_map \<Rightarrow> dep_map) \<Rightarrow> step_spec list \<Rightarrow> dep_map \<Rightarrow> (string \<rightharpoonup> nat) \<Rightarrow>
   (plan_error, kahn_state) res option" where
  "kahn_sort hash_order steps deps by_name =
     (let indeg0 = fold (\<lambda>s. or_insert (st_name s) 0) steps Map.empty;
          adj0 = fold (\<lambda>s. or_insert (st_name s) []) steps Map.empty;
          (indeg, adj) = edges (hash_order deps) indeg0 adj0 in
      case initial_ready indeg 0 steps of
        Inl e \<Rightarrow> Some (Inl e)
      | Inr ready \<Rightarrow>
          kahn_loop steps deps adj by_name
            \<lparr>k_ready = sort ready, k_indeg = indeg, k_order = [], k_done = []\<rparr>)"

definition plan :: "(dep_map \<Rightarrow> dep_map) \<Rightarrow> protocol \<Rightarrow> (plan_error, exec_plan) res option" where
  "plan hash_order p =
     (case index_names (pr_name p) 0 (pr_steps p) Map.empty of
        Inl e \<Rightarrow> Some (Inl e)
      | Inr by_name \<Rightarrow>
          let ds = resolve_deps (pr_steps p) in
          (case validate_deps by_name (pr_steps p) of
             Inl e \<Rightarrow> Some (Inl e)
           | Inr _ \<Rightarrow>
               map_option (\<lambda>r. rbind r (\<lambda>k.
                 if length (k_order k) \<noteq> length (pr_steps p)
                 then Inl (Fail (cycle_error (pr_steps p) (k_done k)))
                 else Inr \<lparr>plan_protocol_name = pr_name p, plan_roles = ds_roles_seen ds, plan_order = k_order k\<rparr>))
               (kahn_sort hash_order (pr_steps p) (ds_deps ds) by_name)))"

subsection \<open>The dependencies of a step\<close>

definition last_in_role :: "step_spec list \<Rightarrow> string \<Rightarrow> string option" where
  "last_in_role ss r =
     (let same = filter (\<lambda>s. st_role s = r) ss in if same = [] then None else Some (st_name (last same)))"

definition resolved :: "step_spec list \<Rightarrow> nat \<Rightarrow> string list" where
  "resolved steps i =
     push_new (case last_in_role (take i steps) (st_role (steps ! i)) of Some prev \<Rightarrow> [prev] | None \<Rightarrow> [])
       (st_depends_on (steps ! i))"

lemma last_in_role_snoc:
  "last_in_role (ss @ [s]) r = (if st_role s = r then Some (st_name s) else last_in_role ss r)"
  by (simp add: last_in_role_def Let_def)

lemma resolved_append: "i < length ss \<Longrightarrow> resolved (ss @ ts) i = resolved ss i"
  by (simp add: resolved_def nth_append)

lemma resolve_deps_spec:
  assumes "distinct (map st_name steps)"
  shows "ds_deps (resolve_deps steps) = map (\<lambda>i. (st_name (steps ! i), resolved steps i)) [0..<length steps]"
    and "ds_prev_in_role (resolve_deps steps) = last_in_role steps"
  using assms
proof (induction steps rule: rev_induct)
  case Nil
  { case 1 show ?case by (simp add: resolve_deps_def) }
  { case 2 show ?case by (auto simp: resolve_deps_def last_in_role_def) }
next
  case (snoc s steps)
  let ?ds = "resolve_deps steps"
  have d: "distinct (map st_name steps)" if "distinct (map st_name (steps @ [s]))" using that by simp
  have step: "resolve_deps (steps @ [s]) = resolve_step s ?ds" by (simp add: resolve_deps_def)
  { case 1
    note IH = snoc [OF d [OF 1]]
    have names: "fst ` set (ds_deps ?ds) = set (map st_name steps)"
      unfolding IH(1) by (force simp: in_set_conv_nth image_iff)
    have keep: "map (\<lambda>i. (st_name ((steps @ [s]) ! i), resolved (steps @ [s]) i)) [0..<length steps] = ds_deps ?ds"
      unfolding IH(1) by (rule map_cong) (simp_all add: resolved_append nth_append)
    have "ds_deps (resolve_step s ?ds) = ds_deps ?ds @ [(st_name s, resolved (steps @ [s]) (length steps))]"
      using 1 names by (simp add: resolve_step_def Let_def update_fresh map_of_eq_None_iff IH(2) resolved_def)
    then show ?case unfolding step by (simp add: keep) }
  { case 2
    note IH = snoc [OF d [OF 2]]
    show ?case unfolding step by (rule ext) (auto simp: resolve_step_def Let_def IH(2) last_in_role_snoc) }
qed

lemma set_push_new: "set (push_new d es) = set d \<union> set es"
  by (induction d es rule: push_new.induct) auto

lemma distinct_push_new: "distinct d \<Longrightarrow> distinct (push_new d es)"
  by (induction d es rule: push_new.induct) auto

lemma distinct_resolved: "distinct (resolved steps i)"
  unfolding resolved_def by (rule distinct_push_new) (simp split: option.split)

subsection \<open>The greedy order\<close>

text \<open>
  The reference for the loop: repeatedly emit the first declared step that is not emitted
  yet and whose dependencies are.
\<close>

definition step_name :: "step_spec list \<Rightarrow> nat \<Rightarrow> string" where
  "step_name steps i = st_name (steps ! i)"

definition candidates :: "step_spec list \<Rightarrow> nat list \<Rightarrow> nat list" where
  "candidates steps em =
     filter (\<lambda>i. i \<notin> set em \<and> set (resolved steps i) \<subseteq> step_name steps ` set em) [0..<length steps]"

function greedy :: "step_spec list \<Rightarrow> nat list \<Rightarrow> nat list" where
  "greedy steps em = (case candidates steps em of [] \<Rightarrow> em | i # _ \<Rightarrow> greedy steps (em @ [i]))"
  by auto

lemma candidate_fresh:
  assumes "candidates steps em = i # is"
  shows "i < length steps \<and> i \<notin> set em"
proof -
  have "i \<in> set (candidates steps em)" using assms by simp
  then show ?thesis by (simp add: candidates_def)
qed

termination greedy
proof (relation "measure (\<lambda>(steps, em). card ({0..<length steps} - set em))")
  fix steps em i "is"
  assume "candidates steps em = i # is"
  then have "i \<in> {0..<length steps} - set em" using candidate_fresh by auto
  moreover have "{0..<length steps} - set (em @ [i]) = {0..<length steps} - set em - {i}" by auto
  ultimately show "((steps, em @ [i]), steps, em) \<in> measure (\<lambda>(steps, em). card ({0..<length steps} - set em))"
    by (simp add: card_Diff1_less del: card_Diff_insert)
qed simp

declare greedy.simps [simp del]

text \<open>Every position of the greedy order is the first candidate at that point.\<close>

definition greedy_prefix :: "step_spec list \<Rightarrow> nat list \<Rightarrow> bool" where
  "greedy_prefix steps em \<longleftrightarrow>
     (\<forall>k < length em. \<exists>is. candidates steps (take k em) = em ! k # is)"

lemma greedy_prefix_snoc:
  "greedy_prefix steps em \<Longrightarrow> candidates steps em = i # is \<Longrightarrow> greedy_prefix steps (em @ [i])"
  by (auto simp: greedy_prefix_def nth_append less_Suc_eq)

lemma greedy_correct:
  "greedy_prefix steps em \<Longrightarrow> greedy_prefix steps (greedy steps em) \<and> candidates steps (greedy steps em) = []"
proof (induction steps em rule: greedy.induct)
  case (1 steps em)
  then show ?case
    by (cases "candidates steps em") (simp_all add: greedy.simps [of steps em] greedy_prefix_snoc)
qed

lemma greedy_prefix_wf:
  assumes "greedy_prefix steps em"
  shows "distinct em" and "set em \<subseteq> {0..<length steps}"
    and "k < length em \<Longrightarrow> set (resolved steps (em ! k)) \<subseteq> step_name steps ` set (take k em)"
proof -
  have c: "em ! k < length steps \<and> em ! k \<notin> set (take k em) \<and>
      set (resolved steps (em ! k)) \<subseteq> step_name steps ` set (take k em)" if "k < length em" for k
  proof -
    from assms that obtain "is" where "candidates steps (take k em) = em ! k # is"
      unfolding greedy_prefix_def by blast
    then have "em ! k \<in> set (candidates steps (take k em))" by simp
    then show ?thesis unfolding candidates_def by auto
  qed
  have "em ! i \<noteq> em ! j" if "i < j" "j < length em" for i j
    using c [OF that(2)] that by (auto simp: in_set_conv_nth)
  then show "distinct em" by (metis distinct_conv_nth nat_neq_iff)
  show "set em \<subseteq> {0..<length steps}" using c by (auto simp: in_set_conv_nth)
  show "k < length em \<Longrightarrow> set (resolved steps (em ! k)) \<subseteq> step_name steps ` set (take k em)"
    using c by blast
qed

lemma greedy_prefix_unique:
  assumes "greedy_prefix steps em" and "greedy_prefix steps em'" and "length em = length em'"
  shows "em = em'"
proof -
  have "take k em = take k em'" if "k \<le> length em" for k
    using that
  proof (induction k)
    case (Suc k)
    then have "take k em = take k em'" by simp
    moreover have "em ! k = em' ! k"
      using assms Suc.prems calculation unfolding greedy_prefix_def by (metis Suc_le_lessD list.inject)
    ultimately show ?case using Suc.prems assms(3) by (simp add: take_Suc_conv_app_nth)
  qed simp
  from this [of "length em"] show ?thesis using assms(3) by simp
qed

subsection \<open>The loop computes the greedy order\<close>

definition open_deps :: "step_spec list \<Rightarrow> nat list \<Rightarrow> nat \<Rightarrow> nat" where
  "open_deps steps em i = length (filter (\<lambda>d. d \<notin> step_name steps ` set em) (resolved steps i))"

lemma length_filter_insert:
  assumes "distinct xs" and "y \<in> set xs" and "y \<notin> A"
  shows "length (filter (\<lambda>x. x \<notin> insert y A) xs) = length (filter (\<lambda>x. x \<notin> A) xs) - 1"
    and "0 < length (filter (\<lambda>x. x \<notin> A) xs)"
proof -
  have "set (filter (\<lambda>x. x \<notin> insert y A) xs) = set (filter (\<lambda>x. x \<notin> A) xs) - {y}" by auto
  moreover have "y \<in> set (filter (\<lambda>x. x \<notin> A) xs)" using assms by simp
  ultimately show "length (filter (\<lambda>x. x \<notin> insert y A) xs) = length (filter (\<lambda>x. x \<notin> A) xs) - 1"
    using assms(1) by (metis card_Diff_singleton distinct_card distinct_filter)
  show "0 < length (filter (\<lambda>x. x \<notin> A) xs)"
    using \<open>y \<in> set (filter (\<lambda>x. x \<notin> A) xs)\<close> by (rule length_pos_if_in_set)
qed

definition count_of :: "(string \<rightharpoonup> nat) \<Rightarrow> string \<Rightarrow> nat" where
  "count_of indeg x = (case indeg x of Some n \<Rightarrow> n | None \<Rightarrow> 0)"

lemma relax_spec:
  assumes "distinct xs" and "\<And>x. x \<in> set xs \<Longrightarrow> by_name x \<noteq> None"
  shows "relax by_name xs indeg ready =
    Inr (\<lambda>x. if x \<in> set xs then Some (count_of indeg x - 1) else indeg x,
         ready @ map (\<lambda>x. the (by_name x)) (filter (\<lambda>x. count_of indeg x - 1 = 0) xs))"
  using assms
proof (induction xs arbitrary: indeg ready)
  case Nil
  show ?case by simp
next
  case (Cons x xs)
  define e where "e = count_of indeg x - 1"
  from Cons.prems obtain j where j: "by_name x = Some j" by fastforce
  have same: "y \<in> set xs \<Longrightarrow> count_of (indeg(x \<mapsto> e)) y = count_of indeg y" for y
    using Cons.prems(1) by (auto simp: count_of_def)
  have "relax by_name xs (indeg(x \<mapsto> e)) r =
    Inr (\<lambda>y. if y \<in> set xs then Some (count_of (indeg(x \<mapsto> e)) y - 1) else (indeg(x \<mapsto> e)) y,
         r @ map (\<lambda>x. the (by_name x)) (filter (\<lambda>y. count_of (indeg(x \<mapsto> e)) y - 1 = 0) xs))" for r
    by (rule Cons.IH) (use Cons.prems in auto)
  moreover have "filter (\<lambda>y. count_of (indeg(x \<mapsto> e)) y - 1 = 0) xs = filter (\<lambda>y. count_of indeg y - 1 = 0) xs"
    by (rule filter_cong) (simp_all add: same)
  moreover have "(\<lambda>y. if y \<in> set xs then Some (count_of (indeg(x \<mapsto> e)) y - 1) else (indeg(x \<mapsto> e)) y) =
      (\<lambda>y. if y \<in> set (x # xs) then Some (count_of indeg y - 1) else indeg y)"
    using Cons.prems(1) same by (auto simp: fun_eq_iff e_def)
  moreover have "relax by_name (x # xs) indeg ready =
      (if e = 0 then relax by_name xs (indeg(x \<mapsto> e)) (ready @ [j]) else relax by_name xs (indeg(x \<mapsto> e)) ready)"
    by (simp add: e_def count_of_def Let_def j index_map_def)
  ultimately show ?case
    by (simp only: filter.simps e_def [symmetric]) (simp add: j del: relax.simps)
qed

definition graph_ok ::
  "step_spec list \<Rightarrow> dep_map \<Rightarrow> (string \<rightharpoonup> string list) \<Rightarrow> (string \<rightharpoonup> nat) \<Rightarrow> bool" where
  "graph_ok steps deps adj by_name \<longleftrightarrow>
     inj_on (step_name steps) {..<length steps} \<and>
     (\<forall>i < length steps. by_name (step_name steps i) = Some i \<and>
        map_of deps (step_name steps i) = Some (resolved steps i) \<and>
        (\<exists>xs. adj (step_name steps i) = Some xs \<and> distinct xs \<and>
           set xs = step_name steps ` {j. j < length steps \<and> step_name steps i \<in> set (resolved steps j)}))"

definition planned :: "step_spec list \<Rightarrow> nat \<Rightarrow> planned_step" where
  "planned steps i = \<lparr>ps_step = steps ! i, ps_deps = resolved steps i\<rparr>"

definition kahn_inv :: "step_spec list \<Rightarrow> nat list \<Rightarrow> kahn_state \<Rightarrow> bool" where
  "kahn_inv steps em k \<longleftrightarrow>
     greedy_prefix steps em \<and> k_ready k = candidates steps em \<and>
     (\<forall>i < length steps. k_indeg k (step_name steps i) = Some (open_deps steps em i)) \<and>
     k_order k = map (planned steps) em \<and> k_done k = rev (map (step_name steps) em)"

text \<open>Emitting step \<open>i\<close>: which steps become candidates.\<close>

lemma candidates_snoc:
  assumes inj: "inj_on (step_name steps) {..<length steps}" and pre: "greedy_prefix steps em"
    and c: "candidates steps em = i # rest"
  shows "set (candidates steps (em @ [i])) =
      set rest \<union> {j. j < length steps \<and> step_name steps i \<in> set (resolved steps j) \<and> open_deps steps (em @ [i]) j = 0}"
    and "distinct rest" and "j \<in> set rest \<Longrightarrow> step_name steps i \<notin> set (resolved steps j)"
proof -
  let ?y = "step_name steps i"
  have i: "i < length steps" "i \<notin> set em" using candidate_fresh [OF c] by auto
  have em: "set em \<subseteq> {..<length steps}" using greedy_prefix_wf(2) [OF pre] by auto
  have y: "?y \<notin> step_name steps ` set em"
    using inj i em by (auto simp: inj_on_def)
  have "distinct (candidates steps em)" by (simp add: candidates_def)
  then show "distinct rest" by (simp add: c)
  have rest: "j \<in> set rest \<longleftrightarrow> j \<noteq> i \<and> j < length steps \<and> j \<notin> set em \<and> set (resolved steps j) \<subseteq> step_name steps ` set em" for j
  proof -
    have "j \<in> set (candidates steps em) \<longleftrightarrow> j \<in> set (i # rest)" by (simp add: c)
    moreover have "i \<notin> set rest" using \<open>distinct (candidates steps em)\<close> by (simp add: c)
    ultimately show ?thesis by (auto simp: candidates_def [of steps em])
  qed
  show "j \<in> set rest \<Longrightarrow> ?y \<notin> set (resolved steps j)" using rest y by blast
  have closed: "set (resolved steps j) \<subseteq> step_name steps ` set em" if "j \<in> set (i # em)" for j
  proof (cases "j = i")
    case True
    have "i \<in> set (candidates steps em)" by (simp add: c)
    then show ?thesis by (simp add: candidates_def True)
  next
    case False
    with that obtain k where "k < length em" "em ! k = j" by (auto simp: in_set_conv_nth)
    with greedy_prefix_wf(3) [OF pre] show ?thesis by (meson image_mono order_trans set_take_subset)
  qed
  show "set (candidates steps (em @ [i])) =
      set rest \<union> {j. j < length steps \<and> ?y \<in> set (resolved steps j) \<and> open_deps steps (em @ [i]) j = 0}"
  proof (intro set_eqI iffI)
    fix j assume "j \<in> set (candidates steps (em @ [i]))"
    then show "j \<in> set rest \<union> {j. j < length steps \<and> ?y \<in> set (resolved steps j) \<and> open_deps steps (em @ [i]) j = 0}"
      unfolding candidates_def Un_iff rest by (auto simp: open_deps_def filter_empty_conv)
  next
    fix j assume "j \<in> set rest \<union> {j. j < length steps \<and> ?y \<in> set (resolved steps j) \<and> open_deps steps (em @ [i]) j = 0}"
    then show "j \<in> set (candidates steps (em @ [i]))"
      unfolding candidates_def Un_iff rest using closed [of j] y by (auto simp: open_deps_def filter_empty_conv)
  qed
qed

lemma open_deps_snoc:
  assumes "inj_on (step_name steps) {..<length steps}" and "set em \<subseteq> {..<length steps}"
    and "i < length steps" and "i \<notin> set em"
  shows "step_name steps i \<in> set (resolved steps j) \<Longrightarrow> open_deps steps (em @ [i]) j = open_deps steps em j - 1"
    and "step_name steps i \<notin> set (resolved steps j) \<Longrightarrow> open_deps steps (em @ [i]) j = open_deps steps em j"
proof -
  have y: "step_name steps i \<notin> step_name steps ` set em"
    using assms by (auto simp: inj_on_def)
  show "step_name steps i \<in> set (resolved steps j) \<Longrightarrow> open_deps steps (em @ [i]) j = open_deps steps em j - 1"
    using length_filter_insert(1) [OF distinct_resolved _ y] by (simp add: open_deps_def)
  show "step_name steps i \<notin> set (resolved steps j) \<Longrightarrow> open_deps steps (em @ [i]) j = open_deps steps em j"
    unfolding open_deps_def by (rule arg_cong [of _ _ length], rule filter_cong) auto
qed

lemma kahn_step_ok:
  assumes ok: "graph_ok steps deps adj by_name" and inv: "kahn_inv steps em k"
    and c: "candidates steps em = i # rest"
  shows "\<exists>k'. kahn_step steps deps adj by_name i rest k = Inr k' \<and> kahn_inv steps (em @ [i]) k'"
proof -
  let ?n = "length steps" and ?nm = "step_name steps"
  have inj: "inj_on ?nm {..<?n}" using ok by (simp add: graph_ok_def)
  have pre: "greedy_prefix steps em" using inv by (simp add: kahn_inv_def)
  have i: "i < ?n" "i \<notin> set em" using candidate_fresh [OF c] by auto
  have em: "set em \<subseteq> {..<?n}" using greedy_prefix_wf(2) [OF pre] by auto
  note snoc = open_deps_snoc [OF inj em i] and cs = candidates_snoc [OF inj pre c]
  obtain xs where xs: "adj (?nm i) = Some xs" "distinct xs" "set xs = ?nm ` {j. j < ?n \<and> ?nm i \<in> set (resolved steps j)}"
    using ok i(1) unfolding graph_ok_def by blast
  have bn: "j < ?n \<Longrightarrow> by_name (?nm j) = Some j" for j using ok by (simp add: graph_ok_def)
  have cnt: "j < ?n \<Longrightarrow> count_of (k_indeg k) (?nm j) = open_deps steps em j" for j
    using inv by (simp add: kahn_inv_def count_of_def)
  let ?indeg = "\<lambda>x. if x \<in> set xs then Some (count_of (k_indeg k) x - 1) else k_indeg k x"
  let ?new = "map (\<lambda>x. the (by_name x)) (filter (\<lambda>x. count_of (k_indeg k) x - 1 = 0) xs)"
  have relax: "relax by_name xs (k_indeg k) rest = Inr (?indeg, rest @ ?new)"
    by (rule relax_spec) (use xs bn in auto)
  have new: "set ?new = {j. j < ?n \<and> ?nm i \<in> set (resolved steps j) \<and> open_deps steps (em @ [i]) j = 0}"
    unfolding set_map set_filter xs(3) using snoc(1) cnt bn by (auto simp: image_iff) (metis option.sel)
  have "inj_on (\<lambda>x. the (by_name x)) (set xs)"
    unfolding xs(3) by (rule inj_onI) (auto simp: bn)
  then have "distinct ?new"
    using xs(2) by (auto simp: distinct_map intro: inj_on_subset)
  moreover have "set rest \<inter> set ?new = {}" using cs(3) unfolding new by auto
  ultimately have "distinct (rest @ ?new)" using cs(2) by simp
  moreover have "set (rest @ ?new) = set (candidates steps (em @ [i]))" unfolding cs(1) set_append new by simp
  ultimately have ready: "sort (rest @ ?new) = candidates steps (em @ [i])"
    by (intro sorted_distinct_set_unique) (auto simp: candidates_def intro: sorted_wrt_filter)
  have indeg: "?indeg (?nm j) = Some (open_deps steps (em @ [i]) j)" if "j < ?n" for j
  proof (cases "?nm i \<in> set (resolved steps j)")
    case True
    then have "?nm j \<in> set xs" unfolding xs(3) using that by blast
    then show ?thesis using cnt [OF that] snoc(1) [OF True] by simp
  next
    case False
    then have "?nm j \<notin> set xs" unfolding xs(3) using that inj by (auto simp: inj_on_def)
    then show ?thesis using inv that snoc(2) [OF False] by (simp add: kahn_inv_def)
  qed
  have deps: "map_of deps (?nm i) = Some (resolved steps i)" using ok i(1) by (simp add: graph_ok_def)
  let ?k = "\<lparr>k_ready = candidates steps (em @ [i]), k_indeg = ?indeg,
      k_order = k_order k @ [planned steps i], k_done = ?nm i # k_done k\<rparr>"
  have "kahn_step steps deps adj by_name i rest k = Inr ?k"
    using i(1) xs(1) deps relax ready
    by (simp add: kahn_step_def index_map_def step_name_def planned_def)
  moreover have "kahn_inv steps (em @ [i]) ?k"
    using inv greedy_prefix_snoc [OF pre c] indeg by (simp add: kahn_inv_def)
  ultimately show ?thesis by blast
qed

lemma kahn_loop_greedy:
  assumes "graph_ok steps deps adj by_name" and "kahn_inv steps em k"
  shows "\<exists>k'. kahn_loop steps deps adj by_name k = Some (Inr k') \<and> kahn_inv steps (greedy steps em) k'"
  using assms
proof (induction steps em arbitrary: k rule: greedy.induct)
  case (1 steps em)
  have ready: "k_ready k = candidates steps em" using 1(3) by (simp add: kahn_inv_def)
  show ?case
  proof (cases "candidates steps em")
    case Nil
    then show ?thesis using 1(3) ready by (simp add: kahn_loop.simps greedy.simps [of steps em])
  next
    case (Cons i rest)
    from kahn_step_ok [OF 1(2,3) Cons] obtain k' where
      k': "kahn_step steps deps adj by_name i rest k = Inr k'" "kahn_inv steps (em @ [i]) k'" by blast
    with 1(1) [OF Cons 1(2) k'(2)] show ?thesis
      using ready Cons by (simp add: kahn_loop.simps [of _ _ _ _ k] greedy.simps [of steps em])
  qed
qed

subsection \<open>Setting up the graph\<close>

lemma index_names_ok:
  assumes "distinct (map st_name ss)" and "\<And>s. s \<in> set ss \<Longrightarrow> m (st_name s) = None"
  shows "\<exists>by_name. index_names pname i ss m = Inr by_name \<and>
    (\<forall>k < length ss. by_name (st_name (ss ! k)) = Some (i + k)) \<and>
    (\<forall>x. x \<notin> st_name ` set ss \<longrightarrow> by_name x = m x)"
  using assms
proof (induction ss arbitrary: i m)
  case (Cons s ss)
  have "\<exists>by_name. index_names pname (Suc i) ss (m(st_name s \<mapsto> i)) = Inr by_name \<and>
      (\<forall>k < length ss. by_name (st_name (ss ! k)) = Some (Suc i + k)) \<and>
      (\<forall>x. x \<notin> st_name ` set ss \<longrightarrow> by_name x = (m(st_name s \<mapsto> i)) x)"
    using Cons.prems by (intro Cons.IH) (auto simp: image_iff)
  then obtain b where b: "index_names pname (Suc i) ss (m(st_name s \<mapsto> i)) = Inr b"
    "\<And>k. k < length ss \<Longrightarrow> b (st_name (ss ! k)) = Some (Suc i + k)"
    "\<And>x. x \<notin> st_name ` set ss \<Longrightarrow> b x = (m(st_name s \<mapsto> i)) x" by blast
  have "index_names pname i (s # ss) m = Inr b" using Cons.prems(2) b(1) by simp
  moreover have "b (st_name ((s # ss) ! k)) = Some (i + k)" if "k < length (s # ss)" for k
    using that b(2) [of "k - 1"] b(3) [of "st_name s"] Cons.prems(1) by (cases k) auto
  moreover have "b x = m x" if "x \<notin> st_name ` set (s # ss)" for x using that b(3) [of x] by simp
  ultimately show ?case by blast
qed simp

text \<open>The first repeated name is the one reported.\<close>

lemma index_names_duplicate:
  assumes "\<not> (distinct (map st_name ss) \<and> (\<forall>s \<in> set ss. m (st_name s) = None))"
  shows "\<exists>xs s ys. ss = xs @ s # ys \<and> index_names pname i ss m = Inl (Fail (duplicate_error pname s)) \<and>
    (m (st_name s) \<noteq> None \<or> st_name s \<in> st_name ` set xs) \<and>
    distinct (map st_name xs) \<and> (\<forall>x \<in> set xs. m (st_name x) = None)"
  using assms
proof (induction ss arbitrary: i m)
  case (Cons s ss)
  show ?case
  proof (cases "m (st_name s)")
    case None
    with Cons.prems have "\<not> (distinct (map st_name ss) \<and> (\<forall>t \<in> set ss. (m(st_name s \<mapsto> i)) (st_name t) = None))"
      by (auto split: if_splits)
    from Cons.IH [OF this] obtain xs t ys where t: "ss = xs @ t # ys"
      "index_names pname (Suc i) ss (m(st_name s \<mapsto> i)) = Inl (Fail (duplicate_error pname t))"
      "(m(st_name s \<mapsto> i)) (st_name t) \<noteq> None \<or> st_name t \<in> st_name ` set xs" "distinct (map st_name xs)"
      "\<forall>x \<in> set xs. (m(st_name s \<mapsto> i)) (st_name x) = None" by blast
    with None show ?thesis
      by (intro exI [of _ "s # xs"] exI [of _ t] exI [of _ ys]) (auto split: if_splits)
  next
    case (Some j)
    then show ?thesis
      by (intro exI [of _ "[]"] exI [of _ s] exI [of _ ss]) simp
  qed
qed simp

lemma validate_deps_spec:
  "validate_deps by_name ss = Inr () \<longleftrightarrow> (\<forall>s \<in> set ss. \<forall>e \<in> set (st_depends_on s). by_name e \<noteq> None)"
  "no_panic (validate_deps by_name ss)"
  by (induction ss) (auto simp: find_None_iff find_Some_iff split: option.split)

lemma add_dependent_spec:
  assumes "distinct ds" and "adj y = Some l"
  shows "add_dependent s ds adj y = Some (l @ (if y \<in> set ds then [s] else []))"
  using assms
proof (induction ds arbitrary: adj l)
  case (Cons d ds)
  then show ?case
    using Cons.IH [of "adj(d \<mapsto> (case adj d of Some l \<Rightarrow> l | None \<Rightarrow> []) @ [s])"
        "if d = y then l @ [s] else l"] by (cases "d = y") auto
qed simp

lemma edges_indeg:
  assumes "distinct (map fst dl)"
  shows "fst (edges dl indeg adj) x = (case map_of dl x of Some l \<Rightarrow> Some (length l) | None \<Rightarrow> indeg x)"
  using assms
proof (induction dl arbitrary: indeg adj)
  case (Cons e dl)
  obtain s dlist where e: "e = (s, dlist)" by (cases e)
  have "map_of dl s = None" using Cons.prems by (simp add: e map_of_eq_None_iff)
  with Cons show ?case by (auto simp: e split: option.split)
qed simp

lemma edges_adj:
  assumes "\<And>x l. (x, l) \<in> set dl \<Longrightarrow> distinct l" and "adj y = Some l0"
  shows "snd (edges dl indeg adj) y = Some (l0 @ map fst (filter (\<lambda>(x, l). y \<in> set l) dl))"
  using assms
proof (induction dl arbitrary: indeg adj l0)
  case (Cons e dl)
  obtain s dlist where e: "e = (s, dlist)" by (cases e)
  have "add_dependent s dlist adj y = Some (l0 @ (if y \<in> set dlist then [s] else []))"
    using Cons.prems by (intro add_dependent_spec) (auto simp: e)
  then have "snd (edges dl (indeg(s \<mapsto> length dlist)) (add_dependent s dlist adj)) y =
      Some ((l0 @ (if y \<in> set dlist then [s] else [])) @ map fst (filter (\<lambda>(x, l). y \<in> set l) dl))"
    by (intro Cons.IH) (use Cons.prems(1) in auto)
  then show ?case by (simp add: e)
qed simp

lemma fold_or_insert:
  "fold (\<lambda>s. or_insert (st_name s) v) ss m x =
     (case m x of Some w \<Rightarrow> Some w | None \<Rightarrow> if x \<in> st_name ` set ss then Some v else None)"
  by (induction ss arbitrary: m) (auto simp: or_insert_def split: option.split)

lemma initial_ready_spec:
  "(\<And>k. k < length ss \<Longrightarrow> indeg (st_name (ss ! k)) = Some (c (i + k))) \<Longrightarrow>
   initial_ready indeg i ss = Inr (filter (\<lambda>j. c j = 0) [i..<i + length ss])"
proof (induction ss arbitrary: i)
  case (Cons s ss)
  have "initial_ready indeg (Suc i) ss = Inr (filter (\<lambda>j. c j = 0) [Suc i..<Suc i + length ss])"
    using Cons.prems [of "Suc _"] by (intro Cons.IH) auto
  moreover have "indeg (st_name s) = Some (c i)" using Cons.prems [of 0] by simp
  moreover have "[i..<i + length (s # ss)] = i # [Suc i..<Suc i + length ss]" by (simp add: upt_conv_Cons del: upt_Suc)
  ultimately show ?case by (simp add: index_map_def del: upt_Suc)
qed simp

lemma kahn_sort_greedy:
  assumes names: "distinct (map st_name steps)" and bn: "\<And>i. i < length steps \<Longrightarrow> by_name (st_name (steps ! i)) = Some i"
    and ho: "\<And>d. mset (hash_order d) = mset d"
  shows "\<exists>k. kahn_sort hash_order steps (ds_deps (resolve_deps steps)) by_name = Some (Inr k) \<and>
    kahn_inv steps (greedy steps []) k"
proof -
  let ?n = "length steps" and ?nm = "step_name steps" and ?dl = "ds_deps (resolve_deps steps)"
  let ?indeg0 = "fold (\<lambda>s. or_insert (st_name s) 0) steps Map.empty"
  let ?adj0 = "fold (\<lambda>s. or_insert (st_name s) []) steps Map.empty"
  let ?h = "hash_order ?dl"
  define indeg where "indeg = fst (edges ?h ?indeg0 ?adj0)"
  define adj where "adj = snd (edges ?h ?indeg0 ?adj0)"
  note dl = resolve_deps_spec(1) [OF names]
  have fst_dl: "map fst ?dl = map st_name steps"
    unfolding dl by (rule nth_equalityI) simp_all
  have d_dl: "distinct (map fst ?dl)" using names by (simp add: fst_dl)
  have set_h: "set ?h = set ?dl" using ho by (metis set_mset_mset)
  have d_h: "distinct (map fst ?h)" using d_dl ho by (metis mset_map mset_eq_imp_distinct_iff)
  have inj: "inj_on ?nm {..<?n}"
    using names by (auto simp: inj_on_def step_name_def distinct_conv_nth)
  have of_dl: "map_of ?dl (?nm i) = Some (resolved steps i)" if "i < ?n" for i
    using that d_dl by (intro map_of_is_SomeI) (auto simp: dl step_name_def)
  have of_h: "map_of ?h (?nm i) = Some (resolved steps i)" if "i < ?n" for i
    using map_of_SomeD [OF of_dl [OF that]] d_h by (intro map_of_is_SomeI) (simp_all add: set_h)
  have lists: "distinct l" if "(x, l) \<in> set ?h" for x l
    using that distinct_resolved by (auto simp: set_h) (auto simp: dl)
  have adj0: "?adj0 (?nm i) = Some []" if "i < ?n" for i
    using that by (simp add: fold_or_insert step_name_def)
  have ind: "indeg (?nm i) = Some (open_deps steps [] i)" if "i < ?n" for i
    unfolding indeg_def edges_indeg [OF d_h] of_h [OF that] by (simp add: open_deps_def)
  have adj: "adj (?nm i) = Some (map fst (filter (\<lambda>(x, l). ?nm i \<in> set l) ?h))" if "i < ?n" for i
    using edges_adj [where adj = ?adj0 and dl = ?h and y = "?nm i" and ?l0.0 = "[]", OF lists adj0 [OF that]]
    by (simp add: adj_def)
  have "distinct (map fst (filter (\<lambda>(x, l). y \<in> set l) ?h)) \<and>
      set (map fst (filter (\<lambda>(x, l). y \<in> set l) ?h)) = ?nm ` {j. j < ?n \<and> y \<in> set (resolved steps j)}" for y
    using d_h by (simp add: distinct_map_filter set_h) (force simp: dl step_name_def image_iff)
  then have ok: "graph_ok steps ?dl adj by_name"
    unfolding graph_ok_def using inj bn of_dl adj by (simp add: step_name_def)
  have "initial_ready indeg 0 steps = Inr (filter (\<lambda>j. open_deps steps [] j = 0) [0..<0 + ?n])"
    by (rule initial_ready_spec) (use ind in \<open>simp add: step_name_def\<close>)
  moreover have "filter (\<lambda>j. open_deps steps [] j = 0) [0..<?n] = candidates steps []"
    by (simp add: candidates_def open_deps_def)
  ultimately have "kahn_sort hash_order steps ?dl by_name = kahn_loop steps ?dl adj by_name
      \<lparr>k_ready = sort (candidates steps []), k_indeg = indeg, k_order = [], k_done = []\<rparr>"
    by (simp add: kahn_sort_def Let_def case_prod_beta indeg_def [symmetric] adj_def [symmetric])
  moreover have "sort (candidates steps []) = candidates steps []"
    by (rule sorted_sort_id) (simp add: candidates_def sorted_wrt_filter)
  moreover have "kahn_inv steps [] \<lparr>k_ready = candidates steps [], k_indeg = indeg, k_order = [], k_done = []\<rparr>"
    using ind by (simp add: kahn_inv_def greedy_prefix_def)
  ultimately show ?thesis using kahn_loop_greedy [OF ok] by simp
qed

end
