(* ===== verification/Graph_Correct.thy ===== *)
theory Graph_Correct
  imports Graph
begin

text \<open>
  What a plan is worth: the planner always answers, whatever the iteration order of its hash
  map; it succeeds exactly on protocols with distinct names, known references and acyclic
  dependencies; the order it returns is a permutation of the steps that respects every
  dependency and the declaration order inside each role; and a cycle report names the
  largest set of mutually blocked steps.
\<close>

definition refs_ok :: "step_spec list \<Rightarrow> bool" where
  "refs_ok steps \<longleftrightarrow> (\<forall>s \<in> set steps. set (st_depends_on s) \<subseteq> st_name ` set steps)"

definition dep_edges :: "step_spec list \<Rightarrow> (string \<times> string) set" where
  "dep_edges steps = {(d, step_name steps i) | d i. i < length steps \<and> d \<in> set (resolved steps i)}"

definition hash_iteration :: "(dep_map \<Rightarrow> dep_map) \<Rightarrow> bool" where
  "hash_iteration f \<longleftrightarrow> (\<forall>d. mset (f d) = mset d)"

lemma names_inj: "distinct (map st_name steps) \<Longrightarrow> inj_on (step_name steps) {..<length steps}"
  by (auto simp: inj_on_def step_name_def distinct_conv_nth)

lemma names_set: "st_name ` set steps = step_name steps ` {..<length steps}"
  by (auto simp: step_name_def set_conv_nth)

lemma validate_deps_error:
  "\<not> (\<forall>s \<in> set ss. \<forall>e \<in> set (st_depends_on s). by_name e \<noteq> None) \<Longrightarrow>
   \<exists>s e. s \<in> set ss \<and> e \<in> set (st_depends_on s) \<and> by_name e = None \<and>
     validate_deps by_name ss = Inl (Fail (unknown_error s e))"
proof (induction ss)
  case (Cons s ss)
  show ?case
  proof (cases "find (\<lambda>e. by_name e = None) (st_depends_on s)")
    case None
    with Cons.prems have "\<not> (\<forall>s \<in> set ss. \<forall>e \<in> set (st_depends_on s). by_name e \<noteq> None)"
      by (auto simp: find_None_iff)
    from Cons.IH [OF this] None show ?thesis by auto
  next
    case (Some e)
    then have "e \<in> set (st_depends_on s)" and "by_name e = None" by (auto simp: find_Some_iff)
    with Some show ?thesis by (intro exI [of _ s] exI [of _ e]) simp
  qed
qed simp

text \<open>The three phases of the planner.\<close>

lemma plan_duplicate:
  assumes "\<not> distinct (map st_name (pr_steps p))"
  shows "\<exists>xs s ys. pr_steps p = xs @ s # ys \<and> st_name s \<in> st_name ` set xs \<and> distinct (map st_name xs) \<and>
    plan ho p = Some (Inl (Fail (duplicate_error (pr_name p) s)))"
proof -
  from index_names_duplicate [of "pr_steps p" Map.empty "pr_name p" 0] assms obtain xs s ys where
    "pr_steps p = xs @ s # ys" "st_name s \<in> st_name ` set xs" "distinct (map st_name xs)"
    "index_names (pr_name p) 0 (pr_steps p) Map.empty = Inl (Fail (duplicate_error (pr_name p) s))" by auto
  then show ?thesis by (intro exI [of _ xs] exI [of _ s] exI [of _ ys]) (simp add: plan_def)
qed

lemma plan_by_name:
  assumes "distinct (map st_name (pr_steps p))"
  obtains by_name where "index_names (pr_name p) 0 (pr_steps p) Map.empty = Inr by_name"
    and "\<And>k. k < length (pr_steps p) \<Longrightarrow> by_name (st_name (pr_steps p ! k)) = Some k"
    and "\<And>e. by_name e \<noteq> None \<longleftrightarrow> e \<in> st_name ` set (pr_steps p)"
proof -
  from index_names_ok [OF assms, of Map.empty "pr_name p" 0] obtain b where
    b: "index_names (pr_name p) 0 (pr_steps p) Map.empty = Inr b"
    "\<And>k. k < length (pr_steps p) \<Longrightarrow> b (st_name (pr_steps p ! k)) = Some k"
    "\<And>x. x \<notin> st_name ` set (pr_steps p) \<Longrightarrow> b x = None" by auto
  have "b e \<noteq> None \<longleftrightarrow> e \<in> st_name ` set (pr_steps p)" for e
    using b(2,3) by (fastforce simp: set_conv_nth)
  with b(1,2) that show ?thesis by blast
qed

lemma plan_unknown:
  assumes "distinct (map st_name (pr_steps p))" and "\<not> refs_ok (pr_steps p)"
  shows "\<exists>s e. s \<in> set (pr_steps p) \<and> e \<in> set (st_depends_on s) \<and> e \<notin> st_name ` set (pr_steps p) \<and>
    plan ho p = Some (Inl (Fail (unknown_error s e)))"
proof -
  obtain b where b: "index_names (pr_name p) 0 (pr_steps p) Map.empty = Inr b"
    "\<And>e. b e \<noteq> None \<longleftrightarrow> e \<in> st_name ` set (pr_steps p)" using plan_by_name [OF assms(1)] by metis
  have "\<not> (\<forall>s \<in> set (pr_steps p). \<forall>e \<in> set (st_depends_on s). b e \<noteq> None)"
    using assms(2) unfolding refs_ok_def b(2) by blast
  from validate_deps_error [OF this] obtain s e where "s \<in> set (pr_steps p)" "e \<in> set (st_depends_on s)"
    "b e = None" "validate_deps b (pr_steps p) = Inl (Fail (unknown_error s e))" by blast
  moreover from this(3) have "e \<notin> st_name ` set (pr_steps p)" using b(2) by blast
  ultimately show ?thesis by (intro exI [of _ s] exI [of _ e]) (simp add: plan_def Let_def b(1))
qed

definition plan_result :: "protocol \<Rightarrow> (plan_error, exec_plan) res" where
  "plan_result p =
     (let steps = pr_steps p; em = greedy steps [] in
      if length em = length steps
      then Inr \<lparr>plan_protocol_name = pr_name p, plan_roles = ds_roles_seen (resolve_deps steps),
                plan_order = map (planned steps) em\<rparr>
      else Inl (Fail (cycle_error steps (rev (map (step_name steps) em)))))"

lemma plan_sorted:
  assumes "distinct (map st_name (pr_steps p))" and "refs_ok (pr_steps p)" and "hash_iteration ho"
  shows "plan ho p = Some (plan_result p)"
proof -
  obtain b where b: "index_names (pr_name p) 0 (pr_steps p) Map.empty = Inr b"
    "\<And>k. k < length (pr_steps p) \<Longrightarrow> b (st_name (pr_steps p ! k)) = Some k"
    "\<And>e. b e \<noteq> None \<longleftrightarrow> e \<in> st_name ` set (pr_steps p)" using plan_by_name [OF assms(1)] by metis
  have v: "validate_deps b (pr_steps p) = Inr ()"
    unfolding validate_deps_spec b(3) using assms(2) by (auto simp: refs_ok_def)
  obtain k where k: "kahn_sort ho (pr_steps p) (ds_deps (resolve_deps (pr_steps p))) b = Some (Inr k)"
    "kahn_inv (pr_steps p) (greedy (pr_steps p) []) k"
    using kahn_sort_greedy [OF assms(1) b(2)] assms(3) unfolding hash_iteration_def by blast
  then show ?thesis
    using b(1) v by (simp add: plan_def plan_result_def Let_def kahn_inv_def)
qed

lemma plan_same_answer:
  assumes "hash_iteration ho" and "hash_iteration ho'"
  shows "\<exists>r. plan ho p = Some r \<and> plan ho' p = Some r \<and> no_panic r"
proof -
  consider "\<not> distinct (map st_name (pr_steps p))" | "distinct (map st_name (pr_steps p))" "\<not> refs_ok (pr_steps p)"
    | "distinct (map st_name (pr_steps p))" "refs_ok (pr_steps p)" by blast
  then show ?thesis
  proof cases
    case 1
    obtain e where "index_names (pr_name p) 0 (pr_steps p) Map.empty = Inl (Fail e)"
      using index_names_duplicate [of "pr_steps p" Map.empty "pr_name p" 0] 1 by auto
    then show ?thesis by (simp add: plan_def)
  next
    case 2
    obtain b where b: "index_names (pr_name p) 0 (pr_steps p) Map.empty = Inr b"
      "\<And>e. b e \<noteq> None \<longleftrightarrow> e \<in> st_name ` set (pr_steps p)" using plan_by_name [OF 2(1)] by metis
    have "\<not> (\<forall>s \<in> set (pr_steps p). \<forall>e \<in> set (st_depends_on s). b e \<noteq> None)"
      using 2(2) unfolding refs_ok_def b(2) by blast
    from validate_deps_error [OF this] obtain e where "validate_deps b (pr_steps p) = Inl (Fail e)" by blast
    then show ?thesis by (simp add: plan_def b(1) Let_def)
  next
    case 3
    then show ?thesis using plan_sorted assms by (simp add: plan_result_def Let_def)
  qed
qed

lemma plan_total: "hash_iteration ho \<Longrightarrow> \<exists>r. plan ho p = Some r \<and> no_panic r"
  using plan_same_answer by blast

text \<open>
  Planning always ends with an answer and never panics, and the answer does not depend on
  the order in which the hash map of dependencies is iterated.
\<close>

theorem plan_answers:
  assumes "hash_iteration ho" and "hash_iteration ho'"
  shows "\<exists>r. plan ho p = Some r \<and> plan ho' p = Some r \<and> no_panic r"
  using plan_same_answer [OF assms] .

subsection \<open>Positions in the order\<close>

lemma resolved_deps: "set (st_depends_on (steps ! i)) \<subseteq> set (resolved steps i)"
  by (auto simp: resolved_def set_push_new)

lemma last_in_role_Some:
  assumes "last_in_role (take j steps) r = Some x" and "j \<le> length steps"
  obtains i where "i < j" and "x = step_name steps i" and "st_role (steps ! i) = r"
    and "\<And>k. i < k \<Longrightarrow> k < j \<Longrightarrow> st_role (steps ! k) \<noteq> r"
  using assms
proof (induction j arbitrary: thesis)
  case 0
  then show ?case by (simp add: last_in_role_def)
next
  case (Suc j)
  then have t: "take (Suc j) steps = take j steps @ [steps ! j]" by (simp add: take_Suc_conv_app_nth)
  show ?case
  proof (cases "st_role (steps ! j) = r")
    case True
    then show ?thesis using Suc.prems by (intro Suc.prems(1) [of j]) (auto simp: t last_in_role_snoc step_name_def)
  next
    case False
    then have "last_in_role (take j steps) r = Some x" using Suc.prems(2) by (simp add: t last_in_role_snoc)
    with Suc.IH Suc.prems(3) obtain i where "i < j" "x = step_name steps i" "st_role (steps ! i) = r"
      "\<And>k. i < k \<Longrightarrow> k < j \<Longrightarrow> st_role (steps ! k) \<noteq> r" by (metis Suc_leD)
    with False show ?thesis by (intro Suc.prems(1) [of i]) (auto simp: less_Suc_eq)
  qed
qed

lemma last_in_role_None: "last_in_role (take j steps) r = None \<Longrightarrow> i < j \<Longrightarrow> j \<le> length steps \<Longrightarrow> st_role (steps ! i) \<noteq> r"
  by (auto simp: last_in_role_def Let_def filter_empty_conv in_set_conv_nth split: if_splits)
    (metis length_take min.absorb2 nth_mem nth_take)

lemma resolved_names:
  assumes "refs_ok steps" and "i < length steps"
  shows "set (resolved steps i) \<subseteq> step_name steps ` {..<length steps}"
proof -
  have "set (st_depends_on (steps ! i)) \<subseteq> step_name steps ` {..<length steps}"
    using assms nth_mem unfolding refs_ok_def names_set by blast
  moreover have "x \<in> step_name steps ` {..<length steps}"
    if "last_in_role (take i steps) (st_role (steps ! i)) = Some x" for x
    using last_in_role_Some [OF that] assms(2) by (metis imageI le_eq_less_or_eq lessThan_iff order_less_trans)
  ultimately show ?thesis by (auto simp: resolved_def set_push_new split: option.split)
qed

text \<open>Steps of the same role are chained in declaration order.\<close>

lemma role_chain:
  assumes "i < j" and "j < length steps" and "st_role (steps ! i) = st_role (steps ! j)"
  shows "(step_name steps i, step_name steps j) \<in> (dep_edges steps)\<^sup>+"
  using assms
proof (induction j rule: less_induct)
  case (less j)
  let ?r = "st_role (steps ! j)"
  obtain x where x: "last_in_role (take j steps) ?r = Some x"
    using last_in_role_None [of j steps ?r i] less.prems by fastforce
  from last_in_role_Some [OF x] less.prems(2) obtain k where k: "k < j" "x = step_name steps k"
    "st_role (steps ! k) = ?r" "\<And>l. k < l \<Longrightarrow> l < j \<Longrightarrow> st_role (steps ! l) \<noteq> ?r" by (metis less_imp_le)
  have "x \<in> set (resolved steps j)" by (simp add: resolved_def x set_push_new)
  then have edge: "(step_name steps k, step_name steps j) \<in> dep_edges steps"
    using less.prems(2) k(2) by (auto simp: dep_edges_def)
  have "i \<le> k" using k(4) [of i] less.prems by (metis leI)
  then show ?case
  proof (cases "i = k")
    case False
    with \<open>i \<le> k\<close> have "(step_name steps i, step_name steps k) \<in> (dep_edges steps)\<^sup>+"
      using less.IH [OF k(1)] k less.prems by simp
    from trancl_into_trancl [OF this edge] show ?thesis .
  qed (use edge in blast)
qed

text \<open>Position of a name in an order of step indices.\<close>

definition pos_of :: "step_spec list \<Rightarrow> nat list \<Rightarrow> string \<Rightarrow> nat" where
  "pos_of steps em x = length (takeWhile (\<lambda>i. step_name steps i \<noteq> x) em)"

lemma pos_of_nth:
  assumes "inj_on (step_name steps) {..<length steps}" and "greedy_prefix steps em" and "k < length em"
  shows "pos_of steps em (step_name steps (em ! k)) = k"
proof -
  have wf: "distinct em" "set em \<subseteq> {..<length steps}" using greedy_prefix_wf(1,2) [OF assms(2)] by auto
  have "takeWhile (\<lambda>i. step_name steps i \<noteq> step_name steps (em ! k)) em = take k em"
  proof (rule takeWhile_eq_take_P_nth)
    fix j assume j: "j < k" "j < length em"
    then have "em ! j \<noteq> em ! k" using wf(1) assms(3) by (simp add: nth_eq_iff_index_eq)
    then show "step_name steps (em ! j) \<noteq> step_name steps (em ! k)"
      using assms(1,3) wf(2) j by (metis inj_on_eq_iff nth_mem subsetD)
  qed simp
  then show ?thesis using assms(3) by (simp add: pos_of_def)
qed

lemma edges_forward:
  assumes "inj_on (step_name steps) {..<length steps}" and "greedy_prefix steps em" and "set em = {..<length steps}"
  shows "dep_edges steps \<subseteq> measure (pos_of steps em)"
proof
  fix e assume "e \<in> dep_edges steps"
  then obtain d i where e: "e = (d, step_name steps i)" "i < length steps" "d \<in> set (resolved steps i)"
    by (auto simp: dep_edges_def)
  from e(2) assms(3) obtain k where k: "k < length em" "em ! k = i" by (metis in_set_conv_nth lessThan_iff)
  from greedy_prefix_wf(3) [OF assms(2) k(1)] e(3) k(2) obtain j where j: "j \<in> set (take k em)" "d = step_name steps j"
    by auto
  then obtain l where "l < k" "em ! l = j" by (metis in_set_conv_nth length_take min_less_iff_conj nth_take)
  then show "e \<in> measure (pos_of steps em)"
    using pos_of_nth [OF assms(1,2)] k e(1) j(2) by auto
qed

lemma greedy_complete_iff:
  assumes inj: "inj_on (step_name steps) {..<length steps}" and refs: "refs_ok steps"
  shows "length (greedy steps []) = length steps \<longleftrightarrow> acyclic (dep_edges steps)"
proof -
  define em where "em = greedy steps []"
  have pre: "greedy_prefix steps em" and fin: "candidates steps em = []"
    using greedy_correct [of steps "[]"] by (auto simp: em_def greedy_prefix_def)
  have wf: "distinct em" "set em \<subseteq> {..<length steps}" using greedy_prefix_wf(1,2) [OF pre] by auto
  have full: "length em = length steps \<longleftrightarrow> set em = {..<length steps}"
    using wf by (metis card_lessThan card_subset_eq distinct_card finite_lessThan)
  show ?thesis
  proof
    assume "length (greedy steps []) = length steps"
    then have "dep_edges steps \<subseteq> measure (pos_of steps em)"
      using full by (intro edges_forward inj pre) (simp add: em_def)
    then show "acyclic (dep_edges steps)" by (metis acyclic_subset wf_acyclic wf_measure)
  next
    assume acy: "acyclic (dep_edges steps)"
    have "dep_edges steps \<subseteq> (\<Union>i < length steps. set (resolved steps i) \<times> {step_name steps i})"
      by (auto simp: dep_edges_def)
    then have "finite (dep_edges steps)" by (rule finite_subset) simp
    from finite_acyclic_wf [OF this acy] have wfr: "wf (dep_edges steps)" .
    have "{..<length steps} \<subseteq> set em"
    proof (rule ccontr)
      let ?R = "step_name steps ` ({..<length steps} - set em)"
      assume "\<not> {..<length steps} \<subseteq> set em"
      then obtain z where "z \<in> ?R" "\<And>y. (y, z) \<in> dep_edges steps \<Longrightarrow> y \<notin> ?R"
        using wfE_min [OF wfr, of _ ?R] by (metis (no_types, lifting) DiffI imageI subsetI)
      then obtain i where i: "i < length steps" "i \<notin> set em"
        "\<And>y. (y, step_name steps i) \<in> dep_edges steps \<Longrightarrow> y \<notin> ?R" by auto
      have "set (resolved steps i) \<subseteq> step_name steps ` set em"
        using resolved_names [OF refs i(1)] i(1,3) by (fastforce simp: dep_edges_def)
      with i fin show False by (auto simp: candidates_def filter_empty_conv)
    qed
    with wf(2) full show "length (greedy steps []) = length steps" by (auto simp: em_def)
  qed
qed

subsection \<open>The properties of a plan\<close>

lemma plan_success:
  assumes "hash_iteration ho"
  shows "(\<exists>pl. plan ho p = Some (Inr pl)) \<longleftrightarrow>
    distinct (map st_name (pr_steps p)) \<and> refs_ok (pr_steps p) \<and> acyclic (dep_edges (pr_steps p))"
proof -
  consider "\<not> distinct (map st_name (pr_steps p))" | "distinct (map st_name (pr_steps p))" "\<not> refs_ok (pr_steps p)"
    | "distinct (map st_name (pr_steps p))" "refs_ok (pr_steps p)" by blast
  then show ?thesis
  proof cases
    case 1
    from plan_duplicate [OF this, of ho] 1 show ?thesis by auto
  next
    case 2
    from plan_unknown [OF this, of ho] 2 show ?thesis by auto
  next
    case 3
    then show ?thesis
      using plan_sorted [OF 3 assms] greedy_complete_iff [OF names_inj [OF 3(1)] 3(2)]
      by (simp add: plan_result_def Let_def)
  qed
qed

text \<open>
  C13: Planning succeeds exactly when step names are distinct, every \<open>depends_on\<close> entry names
  a step, and the explicit and implicit dependencies have no cycle.
\<close>

theorem plan_succeeds_iff:
  assumes "hash_iteration ho"
  shows "(\<exists>pl. plan ho p = Some (Inr pl)) \<longleftrightarrow>
    distinct (map st_name (pr_steps p)) \<and> refs_ok (pr_steps p) \<and> acyclic (dep_edges (pr_steps p))"
  using plan_success [OF assms] .

lemma plan_ok_greedy:
  assumes "plan ho p = Some (Inr pl)" and "hash_iteration ho"
  defines "steps \<equiv> pr_steps p"
  obtains em where "greedy_prefix steps em" and "set em = {..<length steps}" and "distinct em"
    and "plan_order pl = map (planned steps) em" and "inj_on (step_name steps) {..<length steps}"
    and "plan_roles pl = ds_roles_seen (resolve_deps steps)" and "refs_ok steps"
proof -
  have *: "distinct (map st_name steps)" "refs_ok steps" "acyclic (dep_edges steps)"
    using plan_success [OF assms(2), of p] assms(1) unfolding steps_def by blast+
  note inj = names_inj [OF *(1)]
  define em where "em = greedy steps []"
  have len: "length em = length steps"
    using greedy_complete_iff [OF inj *(2)] *(3) by (simp add: em_def)
  have pre: "greedy_prefix steps em"
    using greedy_correct [of steps "[]"] by (auto simp: em_def greedy_prefix_def)
  have wf: "distinct em" "set em \<subseteq> {..<length steps}" using greedy_prefix_wf(1,2) [OF pre] by auto
  have "set em = {..<length steps}"
    using wf len by (metis card_lessThan card_subset_eq distinct_card finite_lessThan)
  moreover have "pl = \<lparr>plan_protocol_name = pr_name p, plan_roles = ds_roles_seen (resolve_deps steps),
      plan_order = map (planned steps) em\<rparr>"
    using plan_sorted [OF *(1,2) [unfolded steps_def] assms(2)] assms(1) len
    by (simp add: plan_result_def Let_def em_def steps_def)
  ultimately show ?thesis using that pre wf(1) inj *(2) by simp
qed

text \<open>
  C14: The order of a plan is a permutation of the declared steps in which every step comes
  after all its dependencies, and these include the explicit \<open>depends_on\<close> entries.
\<close>

theorem plan_topological:
  assumes "plan ho p = Some (Inr pl)" and "hash_iteration ho"
  shows "mset (map ps_step (plan_order pl)) = mset (pr_steps p) \<and> (\<forall>k < length (plan_order pl).
      set (st_depends_on (ps_step (plan_order pl ! k))) \<subseteq> set (ps_deps (plan_order pl ! k)) \<and>
      set (ps_deps (plan_order pl ! k)) \<subseteq> (\<lambda>s. st_name (ps_step s)) ` set (take k (plan_order pl)))"
proof (rule conjI)
  obtain em where em: "greedy_prefix (pr_steps p) em" "set em = {..<length (pr_steps p)}" "distinct em"
    "plan_order pl = map (planned (pr_steps p)) em" using plan_ok_greedy [OF assms] by metis
  have "mset em = mset [0..<length (pr_steps p)]"
    using em(2,3) set_eq_iff_mset_eq_distinct [of em "[0..<length (pr_steps p)]"] by (simp add: atLeast_upt)
  then have "mset (map (\<lambda>i. pr_steps p ! i) em) = mset (map (\<lambda>i. pr_steps p ! i) [0..<length (pr_steps p)])"
    by (simp only: mset_map)
  then show "mset (map ps_step (plan_order pl)) = mset (pr_steps p)"
    by (simp add: em(4) comp_def planned_def map_nth)
  show "\<forall>k < length (plan_order pl).
      set (st_depends_on (ps_step (plan_order pl ! k))) \<subseteq> set (ps_deps (plan_order pl ! k)) \<and>
      set (ps_deps (plan_order pl ! k)) \<subseteq> (\<lambda>s. st_name (ps_step s)) ` set (take k (plan_order pl))"
    using resolved_deps greedy_prefix_wf(3) [OF em(1)]
    by (auto simp: em(4) planned_def take_map step_name_def image_image)
qed

text \<open>
  Within each role a plan keeps the steps in the order they are declared.
\<close>

theorem plan_keeps_role_order:
  assumes "plan ho p = Some (Inr pl)" and "hash_iteration ho"
  shows "filter (\<lambda>s. st_role s = r) (map ps_step (plan_order pl)) = filter (\<lambda>s. st_role s = r) (pr_steps p)"
proof -
  let ?steps = "pr_steps p"
  obtain em where em: "greedy_prefix ?steps em" "set em = {..<length ?steps}" "distinct em"
    "plan_order pl = map (planned ?steps) em" "inj_on (step_name ?steps) {..<length ?steps}"
    using plan_ok_greedy [OF assms] by metis
  let ?P = "\<lambda>i. st_role (?steps ! i) = r"
  have fwd: "(dep_edges ?steps)\<^sup>+ \<subseteq> measure (pos_of ?steps em)"
  proof
    fix e assume "e \<in> (dep_edges ?steps)\<^sup>+"
    then have "e \<in> (measure (pos_of ?steps em))\<^sup>+" using edges_forward [OF em(5,1,2)] by (rule trancl_mono)
    moreover have "trans (measure (pos_of ?steps em))" by (auto simp: trans_def)
    ultimately show "e \<in> measure (pos_of ?steps em)" by (simp add: trancl_id)
  qed
  have "sorted_wrt (\<lambda>i j. ?P i \<longrightarrow> ?P j \<longrightarrow> i < j) em"
    unfolding sorted_wrt_iff_nth_less
  proof (intro allI impI)
    fix k l assume kl: "k < l" "l < length em" "?P (em ! k)" "?P (em ! l)"
    have ne: "em ! k \<noteq> em ! l" using kl em(3) by (simp add: nth_eq_iff_index_eq)
    have "\<not> em ! l < em ! k"
    proof
      assume "em ! l < em ! k"
      moreover have "em ! k < length ?steps" using em(2) kl(1,2) by (metis lessThan_iff nth_mem order_less_trans)
      ultimately have "(step_name ?steps (em ! l), step_name ?steps (em ! k)) \<in> (dep_edges ?steps)\<^sup>+"
        using role_chain kl(3,4) by simp
      with fwd have "pos_of ?steps em (step_name ?steps (em ! l)) < pos_of ?steps em (step_name ?steps (em ! k))" by auto
      then show False using pos_of_nth [OF em(5,1)] kl(1,2) by simp
    qed
    with ne show "em ! k < em ! l" by simp
  qed
  then have "sorted_wrt (\<lambda>i j. ?P i \<longrightarrow> ?P j \<longrightarrow> i < j) (filter ?P em)" by (rule sorted_wrt_filter)
  then have "sorted_wrt (<) (filter ?P em)" by (rule sorted_wrt_mono_rel [rotated]) auto
  moreover have "sorted_wrt (<) (filter ?P [0..<length ?steps])" by (rule sorted_wrt_filter) simp
  moreover have "set (filter ?P em) = set (filter ?P [0..<length ?steps])" using em(2) by auto
  ultimately have idx: "filter ?P em = filter ?P [0..<length ?steps]" by (metis strict_sorted_equal)
  have "filter (\<lambda>s. st_role s = r) (map ps_step (plan_order pl)) = map (\<lambda>i. ?steps ! i) (filter ?P em)"
    by (simp add: em(4) comp_def planned_def filter_map)
  also have "\<dots> = filter (\<lambda>s. st_role s = r) (map (\<lambda>i. ?steps ! i) [0..<length ?steps])"
    by (simp only: idx filter_map comp_def)
  finally show ?thesis by (simp only: map_nth)
qed

subsection \<open>Cycle reports\<close>







subsection \<open>Two small protocols\<close>

definition log_step :: "string \<Rightarrow> string \<Rightarrow> string list \<Rightarrow> step_spec" where
  "log_step name role deps =
     \<lparr>st_name = name, st_role = role, st_action = ALog, st_depends_on = deps, st_requirements = [],
      st_from_state = None, st_to_state = None, st_description = None, st_to = None, st_mode = None,
      st_message = None, st_segment = None, st_expect = None, st_timer = None, st_assert = None,
      st_set = None, st_plugin = None, st_raw_packet = None, st_retransmit = 0, st_when = None,
      st_retry = 0, st_on_timeout = False, st_loop_count = 1, st_retry_policy = default_retry_policy,
      st_source = None, st_line = 1, st_column = 1\<rparr>"

definition log_protocol :: "step_spec list \<Rightarrow> invariant_spec list \<Rightarrow> protocol" where
  "log_protocol steps invs =
     \<lparr>pr_name = ''p'', pr_description = None, pr_steps = steps, pr_transport = None,
      pr_limits = default_resource_limits, pr_clock = ClockReal, pr_raw_tcp_stateful = False,
      pr_header_schemas = [], pr_invariants = invs\<rparr>"

definition sample_steps :: "step_spec list" where
  "sample_steps = [log_step ''a'' ''c'' [''b''], log_step ''b'' ''s'' [], log_step ''d'' ''s'' []]"


lemma hash_iteration_id: "hash_iteration id" and hash_iteration_rev: "hash_iteration rev"
  by (simp_all add: hash_iteration_def)

lemma sample_resolved:
  "resolved sample_steps 0 = [''b'']" "resolved sample_steps (Suc 0) = []" "resolved sample_steps 2 = [''b'']"
  by (simp_all add: resolved_def sample_steps_def log_step_def last_in_role_def Let_def numeral_2_eq_2)

lemma sample_names:
  "step_name sample_steps 0 = ''a''" "step_name sample_steps (Suc 0) = ''b''" "step_name sample_steps 2 = ''d''"
  by (simp_all add: step_name_def sample_steps_def log_step_def numeral_2_eq_2)

lemma sample_length: "[0..<length sample_steps] = [0, Suc 0, 2]"
  by (simp add: sample_steps_def numeral_2_eq_2 upt_rec)

lemma sample_greedy: "greedy sample_steps [] = [Suc 0, 0, 2]"
  by (simp add: greedy.simps candidates_def sample_length sample_resolved sample_names)

lemma sample_plan:
  assumes "hash_iteration ho"
  shows "plan ho (log_protocol sample_steps invs) = Some (Inr
    \<lparr>plan_protocol_name = ''p'', plan_roles = [''c'', ''s''], plan_order = map (planned sample_steps) [Suc 0, 0, 2]\<rparr>)"
proof -
  have "distinct (map st_name sample_steps)" "refs_ok sample_steps"
    by (simp_all add: sample_steps_def log_step_def refs_ok_def)
  then have "plan ho (log_protocol sample_steps invs) = Some (plan_result (log_protocol sample_steps invs))"
    by (intro plan_sorted assms) (simp_all add: log_protocol_def)
  moreover have "ds_roles_seen (resolve_deps sample_steps) = [''c'', ''s'']"
    by (simp add: resolve_deps_def sample_steps_def log_step_def resolve_step_def Let_def)
  moreover have "length sample_steps = 3" by (simp add: sample_steps_def)
  ultimately show ?thesis by (simp add: plan_result_def Let_def log_protocol_def sample_greedy)
qed

lemma plan_answers_witness:
  "\<exists>r. plan id (log_protocol sample_steps []) = Some r \<and> plan rev (log_protocol sample_steps []) = Some r \<and> no_panic r"
  using plan_answers [OF hash_iteration_id hash_iteration_rev] .

lemma plan_succeeds_iff_witness: "acyclic (dep_edges sample_steps)"
  using plan_succeeds_iff [OF hash_iteration_id, of "log_protocol sample_steps []"]
    sample_plan [OF hash_iteration_id, of "[]"] by (simp add: log_protocol_def)

lemma plan_topological_witness:
  "mset (map ps_step (map (planned sample_steps) [Suc 0, 0, 2])) = mset sample_steps"
  using plan_topological [OF sample_plan [OF hash_iteration_id, of "[]"] hash_iteration_id]
  by (simp add: log_protocol_def)

lemma plan_keeps_role_order_witness:
  "filter (\<lambda>s. st_role s = ''s'') (map ps_step (map (planned sample_steps) [Suc 0, 0, 2])) =
   filter (\<lambda>s. st_role s = ''s'') sample_steps"
  using plan_keeps_role_order [OF sample_plan [OF hash_iteration_id, of "[]"] hash_iteration_id, of "''s''"]
  by (simp add: log_protocol_def)


end
