(* ===== verification/Explore.thy ===== *)
theory Explore
  imports Transition_System
begin

text \<open>
  Breadth-first exploration of a transition system with a bound on the number of expanded
  configurations, in general: a queue of configurations with the labels that lead to them,
  and a list of those already expanded. The locale relates it to a step relation; what it
  expands, and in which order, is characterised once and used by the model checker.
\<close>

type_synonym ('c, 'a) node = "'c \<times> 'a list"

definition children :: "('c \<Rightarrow> ('a \<times> 'c) list) \<Rightarrow> ('c, 'a) node \<Rightarrow> ('c, 'a) node list" where
  "children succs n = map (\<lambda>(a, c). (c, snd n @ [a])) (succs (fst n))"

function explore ::
  "('c \<Rightarrow> ('a \<times> 'c) list) \<Rightarrow> nat \<Rightarrow> ('c, 'a) node list \<Rightarrow> 'c list \<Rightarrow> ('c, 'a) node list \<times> bool" where
  "explore succs bound [] seen = ([], True)"
| "explore succs bound (n # queue) seen =
     (if fst n \<in> set seen then explore succs bound queue seen
      else if Suc (length seen) > bound then ([], False)
      else let r = explore succs bound (queue @ children succs n) (fst n # seen) in (n # fst r, snd r))"
  by pat_completeness auto
termination
  by (relation "inv_image (less_than <*lex*> less_than)
      (\<lambda>(succs, bound, queue, seen). (bound - length seen, length queue))") auto

definition expanded_ok ::
  "'c \<Rightarrow> ('c \<Rightarrow> 'a \<Rightarrow> 'c \<Rightarrow> bool) \<Rightarrow> ('c, 'a) node list \<Rightarrow> bool" where
  "expanded_ok start step es \<longleftrightarrow>
     (\<forall>k < length es.
        run step start (snd (es ! k)) (fst (es ! k)) \<and>
        fst (es ! k) \<notin> fst ` set (take k es) \<and>
        (\<forall>w c. run step start w c \<longrightarrow> c \<notin> fst ` set (take k es) \<longrightarrow> length (snd (es ! k)) \<le> length w))"

locale explorer =
  fixes succs :: "'c \<Rightarrow> ('a \<times> 'c) list" and step :: "'c \<Rightarrow> 'a \<Rightarrow> 'c \<Rightarrow> bool" and start :: 'c
  assumes step_iff: "step c a c' \<longleftrightarrow> (a, c') \<in> set (succs c)"
begin

definition frontier :: "('c, 'a) node list \<Rightarrow> ('c, 'a) node list \<Rightarrow> bool" where
  "frontier es queue \<longleftrightarrow>
     (\<forall>n \<in> set queue. run step start (snd n) (fst n)) \<and>
     sorted (map (length \<circ> snd) queue) \<and>
     (\<forall>n \<in> set queue. length (snd n) \<le> Suc (length (snd (hd queue)))) \<and>
     (start \<in> fst ` set es \<or> (start, []) \<in> set queue) \<and>
     (\<forall>e \<in> set es. \<forall>a c. step (fst e) a c \<longrightarrow>
        c \<in> fst ` set es \<or> (\<exists>n \<in> set queue. fst n = c \<and> length (snd n) \<le> Suc (length (snd e))))"

text \<open>A run to a configuration that is not expanded leaves the expanded ones through the queue.\<close>

lemma leaves_through_queue:
  assumes f: "frontier es queue" and ok: "expanded_ok start step es"
    and r: "run step start w c" and new: "c \<notin> fst ` set es"
  shows "\<exists>n \<in> set queue. length (snd n) \<le> length w"
  using r new
proof (induction w arbitrary: c rule: rev_induct)
  case Nil
  then have "(start, []) \<in> set queue" using f by (auto simp: frontier_def)
  then show ?case by force
next
  case (snoc a w)
  then obtain b where b: "run step start w b" "step b a c" by (auto simp: run_snoc)
  show ?case
  proof (cases "b \<in> fst ` set es")
    case True
    then obtain k where k: "k < length es" "fst (es ! k) = b" by (auto simp: in_set_conv_nth)
    with b(2) snoc.prems(2) f obtain n where n: "n \<in> set queue" "length (snd n) \<le> Suc (length (snd (es ! k)))"
      unfolding frontier_def by (metis nth_mem)
    have "b \<notin> fst ` set (take k es)" using ok k unfolding expanded_ok_def by metis
    then have "length (snd (es ! k)) \<le> length w"
      using ok k(1) b(1) unfolding expanded_ok_def by blast
    with n show ?thesis by (metis Suc_le_mono le_trans length_append_singleton)
  next
    case False
    from snoc.IH [OF b(1) False] show ?thesis by (metis le_SucI length_append_singleton)
  qed
qed

lemma frontier_hd_least: "frontier es (n # queue) \<Longrightarrow> m \<in> set (n # queue) \<Longrightarrow> length (snd n) \<le> length (snd m)"
  by (auto simp: frontier_def)

lemma frontier_skip: "frontier es (n # queue) \<Longrightarrow> fst n \<in> fst ` set es \<Longrightarrow> frontier es queue"
proof -
  assume f: "frontier es (n # queue)" and seen: "fst n \<in> fst ` set es"
  have "length (snd m) \<le> Suc (length (snd (hd queue)))" if "m \<in> set queue" for m
  proof -
    have "length (snd m) \<le> Suc (length (snd n))" and "length (snd n) \<le> length (snd (hd queue))"
      using f that by (auto simp: frontier_def) (metis hd_in_set list.set(1) empty_iff)
    then show ?thesis by simp
  qed
  moreover have "c \<in> fst ` set es \<or> (\<exists>m \<in> set queue. fst m = c \<and> length (snd m) \<le> Suc (length (snd e)))"
    if "e \<in> set es" "step (fst e) a c" for e a c
    using f that seen unfolding frontier_def by (metis set_ConsD)
  moreover have "start \<in> fst ` set es \<or> (start, []) \<in> set queue"
    using f seen by (auto simp: frontier_def simp del: image_iff) (metis fst_conv image_eqI)
  ultimately show ?thesis using f by (simp add: frontier_def)
qed

lemma expanded_snoc:
  assumes f: "frontier es (n # queue)" and ok: "expanded_ok start step es" and new: "fst n \<notin> fst ` set es"
  shows "expanded_ok start step (es @ [n])"
proof -
  have "length (snd n) \<le> length w" if "run step start w c" "c \<notin> fst ` set es" for w c
    using leaves_through_queue [OF f ok that] frontier_hd_least [OF f] by (meson le_trans)
  moreover have "run step start (snd n) (fst n)" using f by (simp add: frontier_def)
  ultimately show ?thesis
    using ok new unfolding expanded_ok_def by (auto simp: nth_append less_Suc_eq)
qed

lemma children_iff: "m \<in> set (children succs n) \<longleftrightarrow> (\<exists>a. step (fst n) a (fst m) \<and> snd m = snd n @ [a])"
  by (cases m) (auto simp: children_def step_iff)

lemma frontier_expand:
  assumes f: "frontier es (n # queue)"
  shows "frontier (es @ [n]) (queue @ children succs n)"
proof -
  let ?q = "queue @ children succs n"
  have kids: "m \<in> set (children succs n) \<Longrightarrow> length (snd m) = Suc (length (snd n))" for m
    by (auto simp: children_iff)
  have q: "length (snd n) \<le> length (snd m) \<and> length (snd m) \<le> Suc (length (snd n))" if "m \<in> set queue" for m
    using f that by (auto simp: frontier_def)
  have "run step start (snd m) (fst m)" if "m \<in> set ?q" for m
  proof (cases "m \<in> set queue")
    case False
    with that obtain a where "step (fst n) a (fst m)" "snd m = snd n @ [a]" by (auto simp: children_iff)
    moreover have "run step start (snd n) (fst n)" using f by (simp add: frontier_def)
    ultimately show ?thesis by (auto simp: run_snoc)
  qed (use f in \<open>simp add: frontier_def\<close>)
  moreover have "sorted (map (length \<circ> snd) (children succs n))"
    by (simp add: sorted_iff_nth_mono kids)
  then have "sorted (map (length \<circ> snd) ?q)"
    using f q kids by (auto simp: sorted_append frontier_def)
  moreover have "length (snd m) \<le> Suc (length (snd (hd ?q)))" if "m \<in> set ?q" for m
  proof -
    have "hd ?q \<in> set ?q" using that by (intro hd_in_set) auto
    then have "length (snd n) \<le> length (snd (hd ?q))" using q kids by fastforce
    moreover have "length (snd m) \<le> Suc (length (snd n))" using that q kids by fastforce
    ultimately show ?thesis by simp
  qed
  moreover have "start \<in> fst ` set (es @ [n]) \<or> (start, []) \<in> set ?q"
    using f by (auto simp: frontier_def)
  moreover have "c \<in> fst ` set (es @ [n]) \<or> (\<exists>m \<in> set ?q. fst m = c \<and> length (snd m) \<le> Suc (length (snd e)))"
    if e: "e \<in> set (es @ [n])" "step (fst e) a c" for e a c
  proof (cases "e = n")
    case True
    then have "(c, snd n @ [a]) \<in> set (children succs n)" using e(2) by (auto simp: children_iff)
    then show ?thesis using True by force
  next
    case False
    then have "c \<in> fst ` set es \<or> (\<exists>m \<in> set (n # queue). fst m = c \<and> length (snd m) \<le> Suc (length (snd e)))"
      using f e unfolding frontier_def by auto
    then show ?thesis by auto
  qed
  ultimately show ?thesis by (simp add: frontier_def)
qed

lemma explore_expands:
  assumes "frontier es queue" and "expanded_ok start step es" and "set seen = fst ` set es" and "length seen = length es"
    and "length es \<le> bound"
  defines "r \<equiv> explore succs bound queue seen"
  shows "expanded_ok start step (es @ fst r) \<and> length (es @ fst r) \<le> bound \<and>
    (snd r \<longrightarrow> (\<forall>w c. run step start w c \<longrightarrow> c \<in> fst ` set (es @ fst r))) \<and>
    (\<not> snd r \<longrightarrow> length (es @ fst r) = bound \<and> (\<exists>w c. run step start w c \<and> c \<notin> fst ` set (es @ fst r)))"
  using assms(1-5) unfolding r_def
proof (induction s\<equiv>succs bound queue seen arbitrary: es rule: explore.induct)
  case (1 bound seen)
  have "c \<in> fst ` set es" if "run step start w c" for w c
    using leaves_through_queue [OF 1(1,2) that] by auto
  with 1 show ?case by simp
next
  case (2 bound n queue seen)
  note IH_skip = 2(1) and IH_expand = 2(2) and f = 2(3) and prems = 2(4-7)
  show ?case
  proof (cases "fst n \<in> set seen")
    case True
    have "frontier es queue" using frontier_skip [OF f] True prems(2) by simp
    from IH_skip [OF True this prems] show ?thesis using True by simp
  next
    case new: False
    show ?thesis
    proof (cases "bound < Suc (length seen)")
      case True
      have "run step start (snd n) (fst n)" using f by (simp add: frontier_def)
      then show ?thesis using True new prems by auto
    next
      case False
      have "expanded_ok start step (es @ [n])"
        using expanded_snoc [OF f prems(1)] new prems(2) by simp
      from IH_expand [OF new False frontier_expand [OF f] this] show ?thesis
        using new False prems by (simp add: Let_def)
    qed
  qed
qed

text \<open>The exploration from the start.\<close>

lemma explore_start:
  assumes "explore succs bound [(start, [])] [] = (es, complete)"
  shows "expanded_ok start step es" and "length es \<le> bound"
    and "complete \<Longrightarrow> run step start w c \<Longrightarrow> c \<in> fst ` set es"
    and "\<not> complete \<Longrightarrow> length es = bound \<and> (\<exists>w c. run step start w c \<and> c \<notin> fst ` set es)"
proof -
  have "frontier [] [(start, [])]" by (simp add: frontier_def)
  moreover have "expanded_ok start step []" by (simp add: expanded_ok_def)
  ultimately have r: "expanded_ok start step es \<and> length es \<le> bound \<and>
    (complete \<longrightarrow> (\<forall>w c. run step start w c \<longrightarrow> c \<in> fst ` set es)) \<and>
    (\<not> complete \<longrightarrow> length es = bound \<and> (\<exists>w c. run step start w c \<and> c \<notin> fst ` set es))"
    using explore_expands [of "[]" "[(start, [])]" "[]" bound] assms by simp
  then show "expanded_ok start step es" and "length es \<le> bound"
    and "complete \<Longrightarrow> run step start w c \<Longrightarrow> c \<in> fst ` set es"
    and "\<not> complete \<Longrightarrow> length es = bound \<and> (\<exists>w c. run step start w c \<and> c \<notin> fst ` set es)" by blast+
qed

lemma expanded_reachable: "expanded_ok start step es \<Longrightarrow> e \<in> set es \<Longrightarrow> run step start (snd e) (fst e)"
  unfolding expanded_ok_def by (metis in_set_conv_nth)

text \<open>The first expanded configuration with a property is a closest one.\<close>

lemma expanded_first_shortest:
  assumes "expanded_ok start step es" and "find (\<lambda>e. P (fst e)) es = Some e" and "run step start w c" and "P c"
  shows "length (snd e) \<le> length w"
proof -
  from assms(2) obtain k where k: "k < length es" "e = es ! k" "\<And>j. j < k \<Longrightarrow> \<not> P (fst (es ! j))"
    by (auto simp: find_Some_iff)
  then have "c \<notin> fst ` set (take k es)" using assms(4) by (auto simp: in_set_conv_nth) (metis fst_conv)
  then show ?thesis using assms(1,3) k(1,2) unfolding expanded_ok_def by blast
qed

lemma expanded_distinct: "expanded_ok start step es \<Longrightarrow> distinct (map fst es)"
proof (induction es rule: rev_induct)
  case (snoc e es)
  then have "expanded_ok start step es"
    unfolding expanded_ok_def by (auto simp: nth_append split: if_splits) (metis less_SucI)+
  moreover have "fst e \<notin> fst ` set es"
    using snoc.prems unfolding expanded_ok_def by (metis append_eq_conv_conj length_append_singleton lessI nth_append_length)
  ultimately show ?case using snoc.IH by simp
qed simp

end

end
