(* ===== verification/Model_Check.thy ===== *)
theory Model_Check
  imports Graph_Correct Explore
begin

text \<open>
  The bounded model checker of \<open>src/src/model_check.rs\<close>: breadth-first exploration of the
  schedules of a plan, with safety checks in every expanded state, deadlock and liveness
  checks in final ones. Out-of-range indexing and \<open>unwrap\<close> of an absent value are the
  value \<open>Panic\<close>. The strings that key the set of reported violations render the pair of
  kind and invariant name injectively; the pair is used instead.
\<close>

datatype check_error =
    MaxStatesZero
  | PlanFailed plan_error
  | UnknownInvariantRole string string

record violation =
  vio_kind :: string
  vio_invariant :: "string option"
  vio_message :: string
  vio_counterexample :: "string list"
  vio_role_states :: "(string, string) hash_map"

record check_report =
  rep_schema_version :: string
  rep_protocol :: string
  rep_complete :: bool
  rep_states_explored :: nat
  rep_transitions_explored :: nat
  rep_violations :: "violation list"
  rep_unreachable_steps :: "string list"

record mc_state =
  mc_completed :: "bool list"
  mc_role_states :: "string list"
  mc_reached_liveness :: "bool list"
  mc_path :: "nat list"

type_synonym mc_config = "bool list \<times> string list \<times> bool list"

definition mc_key :: "mc_state \<Rightarrow> mc_config" where
  "mc_key st = (mc_completed st, mc_role_states st, mc_reached_liveness st)"

record mc_context =
  cx_invariants :: "invariant_spec list"
  cx_roles :: "string list"
  cx_order :: "planned_step list"
  cx_deps :: "nat list list"

record mc_acc =
  acc_reached :: "nat list"
  acc_violations :: "violation list"
  acc_keys :: "(string \<times> string option) list"
  acc_transitions :: nat

type_synonym 'a mres = "(check_error, 'a) res"

subsection \<open>Indexing\<close>

definition vec_at :: "'a list \<Rightarrow> nat \<Rightarrow> ('e, 'a) res" where
  "vec_at xs i = (if i < length xs then Inr (xs ! i) else Inl Panic)"

definition vec_set :: "'a list \<Rightarrow> nat \<Rightarrow> 'a \<Rightarrow> ('e, 'a list) res" where
  "vec_set xs i x = (if i < length xs then Inr (xs[i := x]) else Inl Panic)"

fun unwrap :: "'a option \<Rightarrow> ('e, 'a) res" where
  "unwrap None = Inl Panic"
| "unwrap (Some x) = Inr x"

text \<open>\<open>iter().enumerate().map(|(i, x)| (x, i)).collect::<HashMap>()\<close>: a later index wins.\<close>

definition hash_index :: "'a list \<Rightarrow> 'a \<rightharpoonup> nat" where
  "hash_index xs = map_of (rev (zip xs [0..<length xs]))"

subsection \<open>Violations\<close>

definition add_violation ::
  "mc_context \<Rightarrow> string \<Rightarrow> string \<Rightarrow> string option \<Rightarrow> mc_state \<Rightarrow> mc_acc \<Rightarrow> mc_acc mres" where
  "add_violation cx kind message invariant st acc =
     (if (kind, invariant) \<in> set (acc_keys acc) then Inr acc
      else rbind (rmap (vec_at (cx_order cx)) (mc_path st)) (\<lambda>planned.
        Inr (acc\<lparr>acc_keys := (kind, invariant) # acc_keys acc,
          acc_violations := acc_violations acc @
            [\<lparr>vio_kind = kind, vio_invariant = invariant, vio_message = message,
              vio_counterexample = map (\<lambda>p. st_name (ps_step p)) planned,
              vio_role_states = zip (cx_roles cx) (mc_role_states st)\<rparr>]\<rparr>)))"

definition safety_failed :: "string list \<Rightarrow> mc_state \<Rightarrow> invariant_spec \<Rightarrow> bool mres" where
  "safety_failed roles st iv =
     rbind (unwrap (position (\<lambda>r. r = inv_role iv) roles)) (\<lambda>role.
     case inv_kind iv of
       NeverState \<Rightarrow> rbind (vec_at (mc_role_states st) role) (\<lambda>s. Inr (s = inv_state iv))
     | StateImplies \<Rightarrow> rbind (vec_at (mc_role_states st) role) (\<lambda>s.
         if s \<noteq> inv_state iv then Inr False else
         rbind (unwrap (position (\<lambda>r. Some r = inv_implies_role iv) roles)) (\<lambda>other.
         rbind (vec_at (mc_role_states st) other) (\<lambda>t.
         rbind (unwrap (inv_implies_state iv)) (\<lambda>required. Inr (t \<noteq> required)))))
     | EventuallyState \<Rightarrow> Inr False)"

fun check_safety :: "mc_context \<Rightarrow> mc_state \<Rightarrow> invariant_spec list \<Rightarrow> mc_acc \<Rightarrow> mc_acc mres" where
  "check_safety cx st [] acc = Inr acc"
| "check_safety cx st (iv # invs) acc =
     rbind (safety_failed (cx_roles cx) st iv) (\<lambda>failed.
     rbind (if failed
            then add_violation cx ''invariant'' (''invariant `'' @ inv_name iv @ ''` is false'')
                   (Some (inv_name iv)) st acc
            else Inr acc) (\<lambda>acc'. check_safety cx st invs acc'))"

fun check_liveness ::
  "mc_context \<Rightarrow> mc_state \<Rightarrow> nat \<Rightarrow> invariant_spec list \<Rightarrow> mc_acc \<Rightarrow> mc_acc mres" where
  "check_liveness cx st liveness [] acc = Inr acc"
| "check_liveness cx st liveness (iv # invs) acc =
     rbind (vec_at (mc_reached_liveness st) liveness) (\<lambda>reached.
     rbind (if \<not> reached
            then add_violation cx ''liveness''
                   (''role `'' @ inv_role iv @ ''` never reaches `'' @ inv_state iv @ ''`'')
                   (Some (inv_name iv)) st acc
            else Inr acc) (\<lambda>acc'. check_liveness cx st (Suc liveness) invs acc'))"

definition eventually_invariants :: "invariant_spec list \<Rightarrow> invariant_spec list" where
  "eventually_invariants invs = filter (\<lambda>i. inv_kind i = EventuallyState) invs"

subsection \<open>Transitions\<close>

fun all_completed :: "bool list \<Rightarrow> nat list \<Rightarrow> bool mres" where
  "all_completed completed [] = Inr True"
| "all_completed completed (d # ds) =
     rbind (vec_at completed d) (\<lambda>done. if done then all_completed completed ds else Inr False)"

definition outcomes :: "val option \<Rightarrow> bool list" where
  "outcomes w =
     (case w of
        None \<Rightarrow> [True]
      | Some v \<Rightarrow> (case v of VBool b \<Rightarrow> [b] | _ \<Rightarrow> [False, True]))"

fun enabled_outcomes ::
  "mc_context \<Rightarrow> mc_state \<Rightarrow> nat \<Rightarrow> step_spec \<Rightarrow> bool list \<Rightarrow> (nat \<times> bool) list mres" where
  "enabled_outcomes cx st i s [] = Inr []"
| "enabled_outcomes cx st i s (execute # outs) =
     rbind (index_map (hash_index (cx_roles cx)) (st_role s)) (\<lambda>role.
     rbind (if \<not> execute then Inr True
            else case st_from_state s of
              None \<Rightarrow> Inr True
            | Some required \<Rightarrow>
                if required = ''*'' then Inr True
                else rbind (vec_at (mc_role_states st) role) (\<lambda>current. Inr (required = current))) (\<lambda>ok.
     rbind (enabled_outcomes cx st i s outs) (\<lambda>rest. Inr (if ok then (i, execute) # rest else rest))))"

fun enabled_from :: "mc_context \<Rightarrow> mc_state \<Rightarrow> nat \<Rightarrow> planned_step list \<Rightarrow> (nat \<times> bool) list mres" where
  "enabled_from cx st i [] = Inr []"
| "enabled_from cx st i (p # ps) =
     rbind (vec_at (mc_completed st) i) (\<lambda>done.
     rbind (if done then Inr False
            else rbind (vec_at (cx_deps cx) i) (\<lambda>ds. all_completed (mc_completed st) ds)) (\<lambda>ok.
     rbind (if ok then enabled_outcomes cx st i (ps_step p) (outcomes (st_when (ps_step p))) else Inr []) (\<lambda>here.
     rbind (enabled_from cx st (Suc i) ps) (\<lambda>rest. Inr (here @ rest)))))"

fun mark_liveness ::
  "step_spec \<Rightarrow> bool \<Rightarrow> invariant_spec list \<Rightarrow> nat \<Rightarrow> bool list \<Rightarrow> bool list mres" where
  "mark_liveness s execute [] liveness reached = Inr reached"
| "mark_liveness s execute (iv # invs) liveness reached =
     (if inv_kind iv = EventuallyState then
        rbind (if execute \<and> st_role s = inv_role iv \<and> st_to_state s = Some (inv_state iv)
               then vec_set reached liveness True else Inr reached) (\<lambda>reached'.
          mark_liveness s execute invs (Suc liveness) reached')
      else mark_liveness s execute invs liveness reached)"

definition take_step :: "mc_context \<Rightarrow> mc_state \<Rightarrow> nat \<times> bool \<Rightarrow> mc_state mres" where
  "take_step cx st l =
     (case l of (i, execute) \<Rightarrow>
       rbind (vec_set (mc_completed st) i True) (\<lambda>completed.
       rbind (vec_at (cx_order cx) i) (\<lambda>p.
       let s = ps_step p in
       rbind (if execute then
                case st_to_state s of
                  None \<Rightarrow> Inr (mc_role_states st)
                | Some target \<Rightarrow> rbind (index_map (hash_index (cx_roles cx)) (st_role s)) (\<lambda>role.
                    vec_set (mc_role_states st) role target)
              else Inr (mc_role_states st)) (\<lambda>role_states.
       rbind (mark_liveness s execute (cx_invariants cx) 0 (mc_reached_liveness st)) (\<lambda>reached.
       Inr \<lparr>mc_completed = completed, mc_role_states = role_states, mc_reached_liveness = reached,
            mc_path = mc_path st @ [i]\<rparr>)))))"

subsection \<open>The exploration\<close>

text \<open>The body of the loop for a state that is expanded: the successors and the results so far.\<close>

definition visit :: "mc_context \<Rightarrow> mc_state \<Rightarrow> mc_acc \<Rightarrow> (mc_state list \<times> mc_acc) mres" where
  "visit cx st acc0 =
     rbind (check_safety cx st (cx_invariants cx) acc0) (\<lambda>acc.
     rbind (enabled_from cx st 0 (cx_order cx)) (\<lambda>enabled.
     if enabled = [] then
       rbind (if list_all (\<lambda>done. done) (mc_completed st)
              then check_liveness cx st 0 (eventually_invariants (cx_invariants cx)) acc
              else add_violation cx ''deadlock'' ''no step is enabled before the protocol completes'' None st acc)
         (\<lambda>acc'. Inr ([], acc'))
     else
       rbind (rmap (take_step cx st) enabled) (\<lambda>next.
         Inr (next, acc\<lparr>acc_reached := rev (map fst enabled) @ acc_reached acc,
                       acc_transitions := acc_transitions acc + length enabled\<rparr>))))"

function mc_loop ::
  "mc_context \<Rightarrow> nat \<Rightarrow> mc_state list \<Rightarrow> mc_config list \<Rightarrow> mc_acc \<Rightarrow> (mc_acc \<times> nat \<times> bool) mres" where
  "mc_loop cx max_states [] visited acc = Inr (acc, length visited, True)"
| "mc_loop cx max_states (st # queue) visited acc =
     (if mc_key st \<in> set visited then mc_loop cx max_states queue visited acc
      else if Suc (length visited) > max_states then Inr (acc, Suc (length visited), False)
      else rbind (visit cx st acc) (\<lambda>(next, acc').
        mc_loop cx max_states (queue @ next) (mc_key st # visited) acc'))"
  by pat_completeness auto
termination
  by (relation "inv_image (less_than <*lex*> less_than)
      (\<lambda>(cx, bound, queue, visited, acc). (bound - length visited, length queue))") auto

fun check_roles :: "(string \<rightharpoonup> nat) \<Rightarrow> invariant_spec list \<Rightarrow> unit mres" where
  "check_roles role_index [] = Inr ()"
| "check_roles role_index (iv # invs) =
     (if role_index (inv_role iv) = None
      then Inl (Fail (UnknownInvariantRole (inv_name iv) (inv_role iv)))
      else case inv_implies_role iv of
        None \<Rightarrow> check_roles role_index invs
      | Some role \<Rightarrow>
          if role_index role = None then Inl (Fail (UnknownInvariantRole (inv_name iv) role))
          else check_roles role_index invs)"

definition initial_state :: "mc_context \<Rightarrow> mc_state" where
  "initial_state cx =
     \<lparr>mc_completed = replicate (length (cx_order cx)) False,
      mc_role_states = replicate (length (cx_roles cx)) ''initial'',
      mc_reached_liveness = map (\<lambda>iv. inv_state iv = ''initial'') (eventually_invariants (cx_invariants cx)),
      mc_path = []\<rparr>"

definition resolve_indices :: "planned_step list \<Rightarrow> nat list list mres" where
  "resolve_indices order =
     rmap (\<lambda>p. rmap (index_map (hash_index (map (\<lambda>q. st_name (ps_step q)) order))) (ps_deps p)) order"

definition check_plan :: "protocol \<Rightarrow> nat \<Rightarrow> exec_plan \<Rightarrow> check_report mres" where
  "check_plan p max_states pl =
     rbind (check_roles (hash_index (plan_roles pl)) (pr_invariants p)) (\<lambda>_.
     rbind (resolve_indices (plan_order pl)) (\<lambda>deps.
     let cx = \<lparr>cx_invariants = pr_invariants p, cx_roles = plan_roles pl, cx_order = plan_order pl, cx_deps = deps\<rparr> in
     rbind (mc_loop cx max_states [initial_state cx] []
         \<lparr>acc_reached = [], acc_violations = [], acc_keys = [], acc_transitions = 0\<rparr>) (\<lambda>(acc, visited, complete).
     Inr \<lparr>rep_schema_version = ''1'', rep_protocol = pr_name p, rep_complete = complete,
          rep_states_explored = min visited max_states, rep_transitions_explored = acc_transitions acc,
          rep_violations = acc_violations acc,
          rep_unreachable_steps = map (\<lambda>i. st_name (ps_step (plan_order pl ! i)))
            (filter (\<lambda>i. i \<notin> set (acc_reached acc)) [0..<length (plan_order pl)])\<rparr>)))"

definition model_check :: "(dep_map \<Rightarrow> dep_map) \<Rightarrow> protocol \<Rightarrow> nat \<Rightarrow> check_report mres option" where
  "model_check hash_order p max_states =
     (if max_states = 0 then Some (Inl (Fail MaxStatesZero))
      else map_option (\<lambda>r. rbind (map_err PlanFailed r) (check_plan p max_states)) (plan hash_order p))"

end
