(* ===== verification/Model_Check_Correct.thy ===== *)
theory Model_Check_Correct
  imports Model_Check
begin

text \<open>
  What a report of the model checker means. The schedules of a plan form a transition system
  on configurations (completed steps, role states, liveness flags); the checker is the
  breadth-first exploration of that system, every reported counterexample is a shortest run
  to a configuration with the reported defect, and a complete report misses no defect and no
  reachable step.
\<close>

subsection \<open>Indices\<close>

lemma hash_index_nth:
  assumes "distinct xs" and "i < length xs"
  shows "hash_index xs (xs ! i) = Some i"
proof -
  have "(xs ! i, i) \<in> set (zip xs [0..<length xs])"
    using assms(2) by (auto simp: set_zip)
  moreover have "distinct (map fst (rev (zip xs [0..<length xs])))"
    using assms(1) by (simp add: rev_map [symmetric])
  ultimately show ?thesis
    unfolding hash_index_def by (intro map_of_is_SomeI) simp_all
qed

lemma hash_index_None: "hash_index xs x = None \<longleftrightarrow> x \<notin> set xs"
  by (simp add: hash_index_def map_of_eq_None_iff image_set del: set_map)

lemma position_nth: "distinct xs \<Longrightarrow> i < length xs \<Longrightarrow> position (\<lambda>x. x = xs ! i) xs = Some i"
proof (induction xs arbitrary: i)
  case (Cons x xs)
  then show ?case by (cases i) auto
qed simp

lemma position_less: "position P xs = Some i \<Longrightarrow> i < length xs"
  by (induction xs arbitrary: i) (auto split: if_splits)

definition role_pos :: "mc_context \<Rightarrow> string \<Rightarrow> nat" where
  "role_pos cx r = the (position (\<lambda>x. x = r) (cx_roles cx))"

lemma role_pos:
  assumes "distinct (cx_roles cx)" and "r \<in> set (cx_roles cx)"
  shows "position (\<lambda>x. x = r) (cx_roles cx) = Some (role_pos cx r)"
    and "hash_index (cx_roles cx) r = Some (role_pos cx r)"
    and "role_pos cx r < length (cx_roles cx)" and "cx_roles cx ! role_pos cx r = r"
proof -
  from assms(2) obtain i where i: "i < length (cx_roles cx)" "cx_roles cx ! i = r" by (auto simp: in_set_conv_nth)
  then have "position (\<lambda>x. x = r) (cx_roles cx) = Some i" using position_nth [OF assms(1) i(1)] by simp
  moreover from this have "role_pos cx r = i" by (simp add: role_pos_def)
  ultimately show "position (\<lambda>x. x = r) (cx_roles cx) = Some (role_pos cx r)"
    and "hash_index (cx_roles cx) r = Some (role_pos cx r)"
    and "role_pos cx r < length (cx_roles cx)" and "cx_roles cx ! role_pos cx r = r"
    using hash_index_nth [OF assms(1) i(1)] i by simp_all
qed

subsection \<open>The transition system\<close>

definition step_at :: "mc_context \<Rightarrow> nat \<Rightarrow> step_spec" where
  "step_at cx i = ps_step (cx_order cx ! i)"

definition role_state :: "mc_context \<Rightarrow> mc_config \<Rightarrow> string \<Rightarrow> string" where
  "role_state cx c r = fst (snd c) ! role_pos cx r"

definition may_start :: "mc_context \<Rightarrow> mc_config \<Rightarrow> nat \<Rightarrow> bool" where
  "may_start cx c i \<longleftrightarrow> \<not> fst c ! i \<and> (\<forall>d \<in> set (cx_deps cx ! i). fst c ! d)"

definition state_allows :: "mc_context \<Rightarrow> mc_config \<Rightarrow> nat \<Rightarrow> bool \<Rightarrow> bool" where
  "state_allows cx c i execute \<longleftrightarrow>
     execute \<longrightarrow> st_from_state (step_at cx i) \<in> {None, Some ''*'', Some (role_state cx c (st_role (step_at cx i)))}"

definition reaches :: "mc_context \<Rightarrow> nat \<Rightarrow> bool \<Rightarrow> invariant_spec \<Rightarrow> bool" where
  "reaches cx i execute iv \<longleftrightarrow>
     execute \<and> st_role (step_at cx i) = inv_role iv \<and> st_to_state (step_at cx i) = Some (inv_state iv)"

definition after_step :: "mc_context \<Rightarrow> mc_config \<Rightarrow> nat \<Rightarrow> bool \<Rightarrow> mc_config" where
  "after_step cx c i execute =
     ((fst c)[i := True],
      (if execute then case st_to_state (step_at cx i) of
         None \<Rightarrow> fst (snd c) | Some t \<Rightarrow> (fst (snd c))[role_pos cx (st_role (step_at cx i)) := t]
       else fst (snd c)),
      map2 (\<lambda>iv reached. reached \<or> reaches cx i execute iv) (eventually_invariants (cx_invariants cx)) (snd (snd c)))"

text \<open>
  A pending step whose dependencies are completed is executed, when its \<open>when\<close> value allows it
  and its role is in the required state, or skipped, when its \<open>when\<close> value allows that.
\<close>

inductive mc_step :: "mc_context \<Rightarrow> mc_config \<Rightarrow> nat \<times> bool \<Rightarrow> mc_config \<Rightarrow> bool" for cx where
  "i < length (cx_order cx) \<Longrightarrow> may_start cx c i \<Longrightarrow> execute \<in> set (outcomes (st_when (step_at cx i))) \<Longrightarrow>
   state_allows cx c i execute \<Longrightarrow> mc_step cx c (i, execute) (after_step cx c i execute)"

inductive_simps mc_step_iff: "mc_step cx c (i, execute) c'"

definition enabled_labels :: "mc_context \<Rightarrow> mc_config \<Rightarrow> (nat \<times> bool) list" where
  "enabled_labels cx c =
     concat (map (\<lambda>i. if may_start cx c i
       then map (Pair i) (filter (state_allows cx c i) (outcomes (st_when (step_at cx i)))) else [])
       [0..<length (cx_order cx)])"

definition mc_succs :: "mc_context \<Rightarrow> mc_config \<Rightarrow> ((nat \<times> bool) \<times> mc_config) list" where
  "mc_succs cx c = map (\<lambda>(i, execute). ((i, execute), after_step cx c i execute)) (enabled_labels cx c)"

definition mc_start :: "mc_context \<Rightarrow> mc_config" where
  "mc_start cx = mc_key (initial_state cx)"

lemma enabled_labels_iff: "(i, execute) \<in> set (enabled_labels cx c) \<longleftrightarrow> mc_step cx c (i, execute) (after_step cx c i execute)"
  by (auto simp: enabled_labels_def mc_step_iff split: if_splits)

interpretation mc: explorer "mc_succs cx" "mc_step cx" "mc_start cx" for cx
proof
  fix c c' :: mc_config and l :: "nat \<times> bool"
  obtain i execute where l: "l = (i, execute)" by (cases l)
  show "mc_step cx c l c' \<longleftrightarrow> (l, c') \<in> set (mc_succs cx c)"
    unfolding mc_succs_def l using enabled_labels_iff [of i execute cx c]
    by (force simp: mc_step_iff image_iff)
qed

definition context_ok :: "mc_context \<Rightarrow> bool" where
  "context_ok cx \<longleftrightarrow>
     distinct (cx_roles cx) \<and> length (cx_deps cx) = length (cx_order cx) \<and>
     (\<forall>ds \<in> set (cx_deps cx). \<forall>d \<in> set ds. d < length (cx_order cx)) \<and>
     (\<forall>p \<in> set (cx_order cx). st_role (ps_step p) \<in> set (cx_roles cx)) \<and>
     (\<forall>iv \<in> set (cx_invariants cx). inv_role iv \<in> set (cx_roles cx) \<and>
        (inv_kind iv = StateImplies \<longrightarrow>
           (\<exists>r t. inv_implies_role iv = Some r \<and> r \<in> set (cx_roles cx) \<and> inv_implies_state iv = Some t)))"

definition config_ok :: "mc_context \<Rightarrow> mc_config \<Rightarrow> bool" where
  "config_ok cx c \<longleftrightarrow>
     length (fst c) = length (cx_order cx) \<and> length (fst (snd c)) = length (cx_roles cx) \<and>
     length (snd (snd c)) = length (eventually_invariants (cx_invariants cx))"

lemma config_ok_start: "config_ok cx (mc_start cx)"
  by (simp add: config_ok_def mc_start_def mc_key_def initial_state_def)

lemma config_ok_after: "config_ok cx c \<Longrightarrow> config_ok cx (after_step cx c i execute)"
  by (auto simp: config_ok_def after_step_def split: option.split)

lemma config_ok_run: "run (mc_step cx) (mc_start cx) w c \<Longrightarrow> config_ok cx c"
proof (induction w arbitrary: c rule: rev_induct)
  case Nil
  then show ?case by (simp add: config_ok_start)
next
  case (snoc l w)
  then show ?case by (cases l) (auto simp: run_snoc mc_step_iff intro: config_ok_after)
qed

subsection \<open>The checker computes with the transition system\<close>

definition state_of :: "(mc_config, nat \<times> bool) node \<Rightarrow> mc_state" where
  "state_of n =
     \<lparr>mc_completed = fst (fst n), mc_role_states = fst (snd (fst n)),
      mc_reached_liveness = snd (snd (fst n)), mc_path = map fst (snd n)\<rparr>"

lemma mc_key_state_of [simp]: "mc_key (state_of n) = fst n"
  by (simp add: mc_key_def state_of_def)

lemma state_of_simps [simp]:
  "mc_completed (state_of n) = fst (fst n)" "mc_role_states (state_of n) = fst (snd (fst n))"
  "mc_reached_liveness (state_of n) = snd (snd (fst n))" "mc_path (state_of n) = map fst (snd n)"
  by (simp_all add: state_of_def)

lemma vec_at_in [simp]: "i < length xs \<Longrightarrow> vec_at xs i = Inr (xs ! i)"
  by (simp add: vec_at_def)

lemma vec_set_in [simp]: "i < length xs \<Longrightarrow> vec_set xs i x = Inr (xs[i := x])"
  by (simp add: vec_set_def)

lemma all_completed_eq: "(\<And>d. d \<in> set ds \<Longrightarrow> d < length done) \<Longrightarrow> all_completed done ds = Inr (\<forall>d \<in> set ds. done ! d)"
  by (induction ds) auto

lemma role_of_step:
  assumes "context_ok cx" and "i < length (cx_order cx)"
  shows "hash_index (cx_roles cx) (st_role (step_at cx i)) = Some (role_pos cx (st_role (step_at cx i)))"
    and "role_pos cx (st_role (step_at cx i)) < length (cx_roles cx)"
proof -
  have "st_role (step_at cx i) \<in> set (cx_roles cx)" "distinct (cx_roles cx)"
    using assms by (auto simp: context_ok_def step_at_def)
  then show "hash_index (cx_roles cx) (st_role (step_at cx i)) = Some (role_pos cx (st_role (step_at cx i)))"
    and "role_pos cx (st_role (step_at cx i)) < length (cx_roles cx)" using role_pos by auto
qed

lemma enabled_outcomes_eq:
  assumes "context_ok cx" and "config_ok cx (fst n)" and "i < length (cx_order cx)"
  shows "enabled_outcomes cx (state_of n) i (step_at cx i) outs =
    Inr (map (Pair i) (filter (state_allows cx (fst n) i) outs))"
proof (induction outs)
  case (Cons execute outs)
  note r = role_of_step [OF assms(1,3)]
  have "role_pos cx (st_role (step_at cx i)) < length (fst (snd (fst n)))"
    using r(2) assms(2) by (simp add: config_ok_def)
  with Cons r show ?case
    by (auto simp: index_map_def state_allows_def role_state_def split: option.split)
qed simp

lemma enabled_from_eq:
  assumes "context_ok cx" and "config_ok cx (fst n)"
  shows "enabled_from cx (state_of n) 0 (cx_order cx) = Inr (enabled_labels cx (fst n))"
proof -
  let ?f = "\<lambda>i. if may_start cx (fst n) i
       then map (Pair i) (filter (state_allows cx (fst n) i) (outcomes (st_when (step_at cx i)))) else []"
  have "enabled_from cx (state_of n) i (drop i (cx_order cx)) = Inr (concat (map ?f [i..<length (cx_order cx)]))"
    if "i \<le> length (cx_order cx)" for i
    using that
  proof (induction "length (cx_order cx) - i" arbitrary: i)
    case 0
    then show ?case by simp
  next
    case (Suc k)
    then have i: "i < length (cx_order cx)" by simp
    have d: "drop i (cx_order cx) = cx_order cx ! i # drop (Suc i) (cx_order cx)"
      using i by (simp add: Cons_nth_drop_Suc)
    have lens: "i < length (fst (fst n))" "i < length (cx_deps cx)" "length (fst (fst n)) = length (cx_order cx)"
      using assms i by (auto simp: config_ok_def context_ok_def)
    have "all_completed (fst (fst n)) (cx_deps cx ! i) = Inr (\<forall>d \<in> set (cx_deps cx ! i). fst (fst n) ! d)"
      using assms(1) lens by (intro all_completed_eq) (auto simp: context_ok_def)
    moreover have "enabled_from cx (state_of n) (Suc i) (drop (Suc i) (cx_order cx)) =
        Inr (concat (map ?f [Suc i..<length (cx_order cx)]))"
      using Suc by simp
    ultimately show ?case
      unfolding d upt_conv_Cons [OF i]
      using lens enabled_outcomes_eq [OF assms i] by (simp add: may_start_def step_at_def)
  qed
  from this [of 0] show ?thesis by (simp add: enabled_labels_def)
qed

lemma mark_liveness_eq:
  "k + length (eventually_invariants ivs) = length reached \<Longrightarrow>
   mark_liveness s execute ivs k reached =
     Inr (take k reached @ map2 (\<lambda>iv r. r \<or> (execute \<and> st_role s = inv_role iv \<and> st_to_state s = Some (inv_state iv)))
       (eventually_invariants ivs) (drop k reached))"
proof (induction ivs arbitrary: k reached)
  case Nil
  then show ?case by (simp add: eventually_invariants_def)
next
  case (Cons iv ivs)
  show ?case
  proof (cases "inv_kind iv = EventuallyState")
    case True
    let ?hit = "execute \<and> st_role s = inv_role iv \<and> st_to_state s = Some (inv_state iv)"
    let ?r = "if ?hit then reached[k := True] else reached"
    have k: "k < length reached" and len: "Suc k + length (eventually_invariants ivs) = length ?r"
      using Cons.prems True by (auto simp: eventually_invariants_def)
    have "take (Suc k) ?r = take k reached @ [reached ! k \<or> ?hit]"
      using k by (auto simp: take_Suc_conv_app_nth)
    moreover have "drop (Suc k) ?r = drop (Suc k) reached" by simp
    moreover have "drop k reached = reached ! k # drop (Suc k) reached" using k by (simp add: Cons_nth_drop_Suc)
    moreover have "mark_liveness s execute (iv # ivs) k reached = mark_liveness s execute ivs (Suc k) ?r"
      using True k by auto
    ultimately show ?thesis
      using True Cons.IH [OF len] by (simp add: eventually_invariants_def del: mark_liveness.simps)
  next
    case False
    then show ?thesis using Cons by (simp add: eventually_invariants_def)
  qed
qed

lemma take_step_eq:
  assumes "context_ok cx" and "config_ok cx (fst n)" and "i < length (cx_order cx)"
  shows "take_step cx (state_of n) (i, execute) =
    Inr (state_of (after_step cx (fst n) i execute, snd n @ [(i, execute)]))"
proof -
  note r = role_of_step [OF assms(1,3)]
  have lens: "i < length (fst (fst n))" "role_pos cx (st_role (step_at cx i)) < length (fst (snd (fst n)))"
    using assms r(2) by (auto simp: config_ok_def)
  have "mark_liveness (step_at cx i) execute (cx_invariants cx) 0 (snd (snd (fst n))) =
      Inr (snd (snd (after_step cx (fst n) i execute)))"
    using assms(2) by (subst mark_liveness_eq) (auto simp: config_ok_def after_step_def reaches_def)
  then show ?thesis
    using lens r(1) assms(3)
    by (auto simp: take_step_def after_step_def step_at_def Let_def index_map_def state_of_def split: option.split)
qed

lemma enabled_less: "(i, execute) \<in> set (enabled_labels cx c) \<Longrightarrow> i < length (cx_order cx)"
  by (simp add: enabled_labels_iff mc_step_iff)

lemma take_steps_eq:
  assumes "context_ok cx" and "config_ok cx (fst n)"
  shows "rmap (take_step cx (state_of n)) (enabled_labels cx (fst n)) =
    Inr (map state_of (children (mc_succs cx) n))"
proof -
  have "rmap (take_step cx (state_of n)) (enabled_labels cx (fst n)) =
      Inr (map (\<lambda>(i, execute). state_of (after_step cx (fst n) i execute, snd n @ [(i, execute)])) (enabled_labels cx (fst n)))"
  proof (rule rmap_all)
    fix l assume l: "l \<in> set (enabled_labels cx (fst n))"
    obtain i execute where "l = (i, execute)" by (cases l)
    with l show "take_step cx (state_of n) l =
        Inr (case l of (i, execute) \<Rightarrow> state_of (after_step cx (fst n) i execute, snd n @ [(i, execute)]))"
      using take_step_eq [OF assms enabled_less] by simp
  qed
  then show ?thesis by (simp add: children_def mc_succs_def comp_def split_beta)
qed

subsection \<open>Defects of a configuration\<close>

fun violates :: "mc_context \<Rightarrow> mc_config \<Rightarrow> invariant_spec \<Rightarrow> bool" where
  "violates cx c iv =
     (case inv_kind iv of
        NeverState \<Rightarrow> role_state cx c (inv_role iv) = inv_state iv
      | StateImplies \<Rightarrow> role_state cx c (inv_role iv) = inv_state iv \<and>
          Some (role_state cx c (the (inv_implies_role iv))) \<noteq> inv_implies_state iv
      | EventuallyState \<Rightarrow> False)"

declare violates.simps [simp del]

text \<open>A defect is its kind, the message reported for it and the invariant concerned.\<close>

type_synonym defect = "string \<times> string \<times> string option"

definition defect_key :: "defect \<Rightarrow> string \<times> string option" where
  "defect_key d = (fst d, snd (snd d))"

definition safety_defect :: "invariant_spec \<Rightarrow> defect" where
  "safety_defect iv = (''invariant'', ''invariant `'' @ inv_name iv @ ''` is false'', Some (inv_name iv))"

definition liveness_defect :: "invariant_spec \<Rightarrow> defect" where
  "liveness_defect iv =
     (''liveness'', ''role `'' @ inv_role iv @ ''` never reaches `'' @ inv_state iv @ ''`'', Some (inv_name iv))"

definition deadlock_defect :: defect where
  "deadlock_defect = (''deadlock'', ''no step is enabled before the protocol completes'', None)"

definition missed :: "mc_context \<Rightarrow> mc_config \<Rightarrow> invariant_spec list" where
  "missed cx c = map fst (filter (\<lambda>(iv, reached). \<not> reached) (zip (eventually_invariants (cx_invariants cx)) (snd (snd c))))"

definition defects :: "mc_context \<Rightarrow> mc_config \<Rightarrow> defect list" where
  "defects cx c =
     map safety_defect (filter (violates cx c) (cx_invariants cx)) @
     (if enabled_labels cx c \<noteq> [] then []
      else if list_all (\<lambda>done. done) (fst c) then map liveness_defect (missed cx c)
      else [deadlock_defect])"

definition violation_of :: "mc_context \<Rightarrow> (mc_config, nat \<times> bool) node \<Rightarrow> defect \<Rightarrow> violation" where
  "violation_of cx n d =
     \<lparr>vio_kind = fst d, vio_invariant = snd (snd d), vio_message = fst (snd d),
      vio_counterexample = map (\<lambda>l. st_name (step_at cx (fst l))) (snd n),
      vio_role_states = zip (cx_roles cx) (fst (snd (fst n)))\<rparr>"

definition record_defect :: "mc_context \<Rightarrow> (mc_config, nat \<times> bool) node \<Rightarrow> defect \<Rightarrow> mc_acc \<Rightarrow> mc_acc" where
  "record_defect cx n d acc =
     (if defect_key d \<in> set (acc_keys acc) then acc
      else acc\<lparr>acc_keys := defect_key d # acc_keys acc, acc_violations := acc_violations acc @ [violation_of cx n d]\<rparr>)"

definition node_ok :: "mc_context \<Rightarrow> (mc_config, nat \<times> bool) node \<Rightarrow> bool" where
  "node_ok cx n \<longleftrightarrow> config_ok cx (fst n) \<and> (\<forall>l \<in> set (snd n). fst l < length (cx_order cx))"

lemma add_violation_eq:
  assumes "node_ok cx n"
  shows "add_violation cx kind msg iv (state_of n) acc = Inr (record_defect cx n (kind, msg, iv) acc)"
proof -
  have "rmap (vec_at (cx_order cx)) (map fst (snd n)) =
      (Inr (map (\<lambda>i. cx_order cx ! i) (map fst (snd n))) :: planned_step list mres)"
    by (rule rmap_all) (use assms in \<open>auto simp: node_ok_def\<close>)
  then show ?thesis
    by (simp add: add_violation_def record_defect_def defect_key_def violation_of_def step_at_def comp_def)
qed

lemma safety_failed_eq:
  assumes cx: "context_ok cx" and n: "config_ok cx (fst n)" and iv: "iv \<in> set (cx_invariants cx)"
  shows "safety_failed (cx_roles cx) (state_of n) iv = Inr (violates cx (fst n) iv)"
proof -
  have d: "distinct (cx_roles cx)" and r: "inv_role iv \<in> set (cx_roles cx)"
    using cx iv by (auto simp: context_ok_def)
  note p = role_pos [OF d r]
  have len: "length (fst (snd (fst n))) = length (cx_roles cx)" using n by (simp add: config_ok_def)
  show ?thesis
  proof (cases "inv_kind iv")
    case StateImplies
    with cx iv obtain s t where s: "inv_implies_role iv = Some s" "s \<in> set (cx_roles cx)" "inv_implies_state iv = Some t"
      by (auto simp: context_ok_def)
    note q = role_pos [OF d s(2)]
    have "position (\<lambda>x. Some x = inv_implies_role iv) (cx_roles cx) = Some (role_pos cx s)"
      using q(1) by (simp add: s(1))
    then show ?thesis
      using StateImplies p q s len by (simp add: safety_failed_def violates.simps role_state_def)
  qed (use p len in \<open>simp_all add: safety_failed_def violates.simps role_state_def\<close>)
qed

lemma check_safety_eq:
  assumes "context_ok cx" and "node_ok cx n" and "set ivs \<subseteq> set (cx_invariants cx)"
  shows "check_safety cx (state_of n) ivs acc =
    Inr (fold (record_defect cx n) (map safety_defect (filter (violates cx (fst n)) ivs)) acc)"
  using assms(3)
proof (induction ivs arbitrary: acc)
  case (Cons iv ivs)
  have "config_ok cx (fst n)" using assms(2) by (simp add: node_ok_def)
  with Cons.prems have "safety_failed (cx_roles cx) (state_of n) iv = Inr (violates cx (fst n) iv)"
    by (intro safety_failed_eq assms(1)) auto
  with Cons show ?case
    by (simp add: add_violation_eq [OF assms(2)] safety_defect_def)
qed simp

lemma check_liveness_eq:
  assumes "node_ok cx n" and "k + length ivs = length (snd (snd (fst n)))"
  shows "check_liveness cx (state_of n) k ivs acc =
    Inr (fold (record_defect cx n) (map liveness_defect
      (map fst (filter (\<lambda>(iv, reached). \<not> reached) (zip ivs (drop k (snd (snd (fst n)))))))) acc)"
  using assms(2)
proof (induction ivs arbitrary: k acc)
  case (Cons iv ivs)
  let ?r = "snd (snd (fst n))"
  have k: "k < length ?r" using Cons.prems by simp
  then have "drop k ?r = ?r ! k # drop (Suc k) ?r" by (simp add: Cons_nth_drop_Suc)
  with k Cons.IH [of "Suc k"] Cons.prems show ?case
    by (simp add: add_violation_eq [OF assms(1)] liveness_defect_def)
qed simp

definition visit_acc :: "mc_context \<Rightarrow> (mc_config, nat \<times> bool) node \<Rightarrow> mc_acc \<Rightarrow> mc_acc" where
  "visit_acc cx n acc0 =
     (let acc = fold (record_defect cx n) (defects cx (fst n)) acc0; ls = enabled_labels cx (fst n) in
      acc\<lparr>acc_reached := rev (map fst ls) @ acc_reached acc, acc_transitions := acc_transitions acc + length ls\<rparr>)"

lemma visit_eq:
  assumes cx: "context_ok cx" and n: "node_ok cx n"
  shows "visit cx (state_of n) acc = Inr (map state_of (children (mc_succs cx) n), visit_acc cx n acc)"
proof -
  have c: "config_ok cx (fst n)" using n by (simp add: node_ok_def)
  show ?thesis
  proof (cases "enabled_labels cx (fst n) = []")
    case True
    then have kids: "children (mc_succs cx) n = []" by (simp add: children_def mc_succs_def)
    have "0 + length (eventually_invariants (cx_invariants cx)) = length (snd (snd (fst n)))"
      using c by (simp add: config_ok_def)
    from check_liveness_eq [OF n this] show ?thesis
      unfolding visit_def check_safety_eq [OF cx n order_refl] rbind.simps enabled_from_eq [OF cx c]
      using True kids
      by (simp add: add_violation_eq [OF n] visit_acc_def defects_def missed_def deadlock_defect_def)
  next
    case False
    then show ?thesis
      unfolding visit_def check_safety_eq [OF cx n order_refl] rbind.simps enabled_from_eq [OF cx c]
        take_steps_eq [OF cx c]
      by (simp add: visit_acc_def defects_def Let_def)
  qed
qed

lemma node_ok_children: "node_ok cx n \<Longrightarrow> m \<in> set (children (mc_succs cx) n) \<Longrightarrow> node_ok cx m"
  by (auto simp: mc.children_iff node_ok_def mc_step.simps config_ok_after)

lemma mc_loop_eq:
  assumes "context_ok cx" and "\<forall>n \<in> set queue. node_ok cx n"
  shows "mc_loop cx bound (map state_of queue) seen acc =
    (let (es, complete) = explore (mc_succs cx) bound queue seen in
     Inr (fold (visit_acc cx) es acc,
       (if complete then length seen + length es else Suc (length seen + length es)), complete))"
  using assms(2)
proof (induction s\<equiv>"mc_succs cx" bound queue seen arbitrary: acc rule: explore.induct)
  case (2 bound n queue seen)
  have n: "node_ok cx n" using 2(3) by simp
  have q: "\<forall>m \<in> set (queue @ children (mc_succs cx) n). node_ok cx m"
    using 2(3) node_ok_children [OF n] by auto
  show ?case
    using 2(1) 2(2) [OF _ _ q] 2(3) by (simp add: visit_eq [OF assms(1) n] Let_def split_beta)
qed simp

subsection \<open>What is recorded\<close>

definition has_defect :: "mc_context \<Rightarrow> mc_config \<Rightarrow> string \<times> string option \<Rightarrow> bool" where
  "has_defect cx c key \<longleftrightarrow> key \<in> defect_key ` set (defects cx c)"

definition first_defect ::
  "mc_context \<Rightarrow> (mc_config, nat \<times> bool) node list \<Rightarrow> violation \<Rightarrow> bool" where
  "first_defect cx es v \<longleftrightarrow>
     (\<exists>e d. d \<in> set (defects cx (fst e)) \<and> v = violation_of cx e d \<and>
        find (\<lambda>e. has_defect cx (fst e) (defect_key d)) es = Some e)"

definition recorded ::
  "mc_context \<Rightarrow> (mc_config, nat \<times> bool) node list \<Rightarrow> (string \<times> string option) set \<Rightarrow> mc_acc \<Rightarrow> bool" where
  "recorded cx es keys acc \<longleftrightarrow>
     set (acc_keys acc) = keys \<and>
     (\<lambda>v. (vio_kind v, vio_invariant v)) ` set (acc_violations acc) = keys \<and>
     (\<forall>v \<in> set (acc_violations acc). first_defect cx es v)"

lemma find_append: "find P (xs @ ys) = (case find P xs of Some x \<Rightarrow> Some x | None \<Rightarrow> find P ys)"
  by (induction xs) auto

lemma first_defect_later: "first_defect cx es v \<Longrightarrow> first_defect cx (es @ fs) v"
  unfolding first_defect_def find_append by (metis option.simps(5))

lemma recorded_later: "recorded cx es keys acc \<Longrightarrow> recorded cx (es @ fs) keys acc"
  by (simp add: recorded_def first_defect_later)

lemma record_defects:
  assumes "recorded cx (es @ [n]) (K \<union> defect_key ` D) acc" and "K = {k. \<exists>e \<in> set es. has_defect cx (fst e) k}"
    and "set ds \<subseteq> set (defects cx (fst n))"
  shows "recorded cx (es @ [n]) (K \<union> defect_key ` (D \<union> set ds)) (fold (record_defect cx n) ds acc)"
  using assms(1,3)
proof (induction ds arbitrary: acc D)
  case (Cons d ds)
  have "recorded cx (es @ [n]) (K \<union> defect_key ` (insert d D)) (record_defect cx n d acc)"
  proof (cases "defect_key d \<in> set (acc_keys acc)")
    case True
    then have "K \<union> defect_key ` insert d D = K \<union> defect_key ` D"
      using Cons.prems(1) by (auto simp: recorded_def)
    with True Cons.prems(1) show ?thesis by (simp add: record_defect_def)
  next
    case False
    then have "defect_key d \<notin> K" using Cons.prems(1) by (auto simp: recorded_def)
    then have "find (\<lambda>e. has_defect cx (fst e) (defect_key d)) es = None"
      by (auto simp: find_None_iff assms(2))
    moreover have "d \<in> set (defects cx (fst n))" using Cons.prems(2) by simp
    ultimately have "find (\<lambda>e. has_defect cx (fst e) (defect_key d)) (es @ [n]) = Some n"
      by (auto simp: find_append has_defect_def)
    with \<open>d \<in> set (defects cx (fst n))\<close> have "first_defect cx (es @ [n]) (violation_of cx n d)"
      unfolding first_defect_def by blast
    moreover have "(vio_kind (violation_of cx n d), vio_invariant (violation_of cx n d)) = defect_key d"
      by (simp add: violation_of_def defect_key_def)
    ultimately show ?thesis
      using False Cons.prems(1) by (simp add: record_defect_def recorded_def)
  qed
  from Cons.IH [OF this] Cons.prems(2) show ?case by simp
qed simp

definition explored :: "mc_context \<Rightarrow> (mc_config, nat \<times> bool) node list \<Rightarrow> mc_acc \<Rightarrow> bool" where
  "explored cx es acc \<longleftrightarrow>
     recorded cx es {k. \<exists>e \<in> set es. has_defect cx (fst e) k} acc \<and>
     set (acc_reached acc) = (\<Union>e \<in> set es. fst ` set (enabled_labels cx (fst e))) \<and>
     acc_transitions acc = sum_list (map (\<lambda>e. length (enabled_labels cx (fst e))) es)"

lemma fold_record_other:
  "acc_reached (fold (record_defect cx n) ds acc) = acc_reached acc"
  "acc_transitions (fold (record_defect cx n) ds acc) = acc_transitions acc"
  by (induction ds arbitrary: acc) (simp_all add: record_defect_def)

lemma explored_visit: "explored cx es acc \<Longrightarrow> explored cx (es @ [n]) (visit_acc cx n acc)"
proof -
  assume e: "explored cx es acc"
  let ?K = "{k. \<exists>e \<in> set es. has_defect cx (fst e) k}"
  have "recorded cx (es @ [n]) (?K \<union> defect_key ` {}) acc"
    using e by (simp add: explored_def recorded_later)
  from record_defects [OF this refl order_refl]
  have "recorded cx (es @ [n]) (?K \<union> defect_key ` set (defects cx (fst n)))
      (fold (record_defect cx n) (defects cx (fst n)) acc)" by simp
  moreover have "?K \<union> defect_key ` set (defects cx (fst n)) = {k. \<exists>e \<in> set (es @ [n]). has_defect cx (fst e) k}"
    by (auto simp: has_defect_def)
  ultimately have "recorded cx (es @ [n]) {k. \<exists>e \<in> set (es @ [n]). has_defect cx (fst e) k} (visit_acc cx n acc)"
    by (simp only: visit_acc_def Let_def recorded_def) simp
  moreover have "set (acc_reached (visit_acc cx n acc)) =
      fst ` set (enabled_labels cx (fst n)) \<union> set (acc_reached acc)"
    by (simp add: visit_acc_def Let_def fold_record_other)
  then have "set (acc_reached (visit_acc cx n acc)) =
      (\<Union>e \<in> set (es @ [n]). fst ` set (enabled_labels cx (fst e)))"
    using e by (simp add: explored_def Un_commute)
  moreover have "acc_transitions (visit_acc cx n acc) = sum_list (map (\<lambda>e. length (enabled_labels cx (fst e))) (es @ [n]))"
    using e by (simp add: explored_def visit_acc_def Let_def fold_record_other)
  ultimately show ?thesis by (simp only: explored_def)
qed

lemma explored_fold: "explored cx es acc \<Longrightarrow> explored cx (es @ fs) (fold (visit_acc cx) fs acc)"
proof (induction fs arbitrary: es acc)
  case (Cons f fs)
  from Cons.IH [OF explored_visit [OF Cons.prems]] show ?case by simp
qed simp

subsection \<open>From the protocol to the context\<close>

definition invariants_ok :: "protocol \<Rightarrow> bool" where
  "invariants_ok p \<longleftrightarrow>
     (\<forall>iv \<in> set (pr_invariants p). inv_kind iv = StateImplies \<longrightarrow>
        inv_implies_role iv \<noteq> None \<and> inv_implies_state iv \<noteq> None)"

definition context_of :: "protocol \<Rightarrow> exec_plan \<Rightarrow> mc_context" where
  "context_of p pl =
     \<lparr>cx_invariants = pr_invariants p, cx_roles = plan_roles pl, cx_order = plan_order pl,
      cx_deps = map (\<lambda>s. map (\<lambda>d. the (hash_index (map (\<lambda>q. st_name (ps_step q)) (plan_order pl)) d)) (ps_deps s))
        (plan_order pl)\<rparr>"

lemma roles_seen:
  "distinct (ds_roles_seen (resolve_deps steps)) \<and> set (ds_roles_seen (resolve_deps steps)) = st_role ` set steps \<and>
   (\<forall>r. ds_prev_in_role (resolve_deps steps) r = None \<longleftrightarrow> r \<notin> st_role ` set steps)"
proof (induction steps rule: rev_induct)
  case Nil
  then show ?case by (simp add: resolve_deps_def)
next
  case (snoc s steps)
  have "resolve_deps (steps @ [s]) = resolve_step s (resolve_deps steps)" by (simp add: resolve_deps_def)
  with snoc show ?case by (auto simp: resolve_step_def Let_def)
qed

lemma check_roles_eq:
  "check_roles ri ivs = Inr () \<longleftrightarrow>
     (\<forall>iv \<in> set ivs. ri (inv_role iv) \<noteq> None \<and> (\<forall>r. inv_implies_role iv = Some r \<longrightarrow> ri r \<noteq> None))"
  "no_panic (check_roles ri ivs)"
  by (induction ivs) (auto split: option.split)

end
