(* ===== verification/Model_Check_Report.thy ===== *)
theory Model_Check_Report
  imports Model_Check_Correct
begin

text \<open>
  The properties of the reports of \<open>model_check\<close>, over the transition system of the plan.
\<close>

subsection \<open>Reports and explorations\<close>

lemma plan_names:
  assumes "plan ho p = Some (Inr pl)" and "hash_iteration ho"
  shows "distinct (map (\<lambda>q. st_name (ps_step q)) (plan_order pl))"
    and "s \<in> set (plan_order pl) \<Longrightarrow> set (ps_deps s) \<subseteq> (\<lambda>q. st_name (ps_step q)) ` set (plan_order pl)"
    and "distinct (plan_roles pl)" and "s \<in> set (plan_order pl) \<Longrightarrow> st_role (ps_step s) \<in> set (plan_roles pl)"
proof -
  let ?steps = "pr_steps p"
  obtain em where em: "set em = {..<length ?steps}" "distinct em" "plan_order pl = map (planned ?steps) em"
    "inj_on (step_name ?steps) {..<length ?steps}" "plan_roles pl = ds_roles_seen (resolve_deps ?steps)" "refs_ok ?steps"
    using plan_ok_greedy [OF assms] by metis
  have names: "map (\<lambda>q. st_name (ps_step q)) (plan_order pl) = map (step_name ?steps) em"
    by (simp add: em(3) planned_def step_name_def)
  show "distinct (map (\<lambda>q. st_name (ps_step q)) (plan_order pl))"
    unfolding names using em(1,2,4) by (simp add: distinct_map)
  have set_names: "(\<lambda>q. st_name (ps_step q)) ` set (plan_order pl) = step_name ?steps ` {..<length ?steps}"
    using arg_cong [OF names, of set] em(1) by simp
  show "s \<in> set (plan_order pl) \<Longrightarrow> set (ps_deps s) \<subseteq> (\<lambda>q. st_name (ps_step q)) ` set (plan_order pl)"
    unfolding set_names using resolved_names [OF em(6)] em(1,3) by (fastforce simp: planned_def)
  show "distinct (plan_roles pl)" using roles_seen [of ?steps] by (simp add: em(5))
  show "s \<in> set (plan_order pl) \<Longrightarrow> st_role (ps_step s) \<in> set (plan_roles pl)"
    using roles_seen [of ?steps] em(1,3) by (auto simp: em(5) planned_def)
qed

lemma plan_context_ok:
  assumes pl: "plan ho p = Some (Inr pl)" and ho: "hash_iteration ho" and "invariants_ok p"
    and roles: "check_roles (hash_index (plan_roles pl)) (pr_invariants p) = Inr ()"
  shows "context_ok (context_of p pl)" and "resolve_indices (plan_order pl) = Inr (cx_deps (context_of p pl))"
proof -
  note names = plan_names [OF pl ho]
  let ?names = "map (\<lambda>q. st_name (ps_step q)) (plan_order pl)"
  have idx: "\<exists>i < length (plan_order pl). hash_index ?names d = Some i"
    if "s \<in> set (plan_order pl)" "d \<in> set (ps_deps s)" for s d
  proof -
    have "d \<in> set ?names" using names(2) [OF that(1)] that(2) by auto
    then obtain i where "i < length ?names" "?names ! i = d" by (meson in_set_conv_nth)
    with hash_index_nth [OF names(1)] show ?thesis by auto
  qed
  have inv: "\<forall>iv \<in> set (pr_invariants p). inv_role iv \<in> set (plan_roles pl) \<and>
      (\<forall>r. inv_implies_role iv = Some r \<longrightarrow> r \<in> set (plan_roles pl))"
    using roles unfolding check_roles_eq hash_index_None by blast
  have "\<forall>ds \<in> set (cx_deps (context_of p pl)). \<forall>d \<in> set ds. d < length (plan_order pl)"
    using idx by (fastforce simp: context_of_def)
  then show "context_ok (context_of p pl)"
    using inv names(3,4) assms(3) by (fastforce simp: context_ok_def context_of_def invariants_ok_def)
  have "rmap (index_map (hash_index ?names)) (ps_deps s) = (Inr (map (\<lambda>d. the (hash_index ?names d)) (ps_deps s)) :: nat list mres)"
    if "s \<in> set (plan_order pl)" for s
    using idx [OF that] by (intro rmap_all) (fastforce simp: index_map_def)
  then show "resolve_indices (plan_order pl) = Inr (cx_deps (context_of p pl))"
    unfolding resolve_indices_def by (subst rmap_all) (auto simp: context_of_def)
qed

lemma explored_empty: "explored cx [] \<lparr>acc_reached = [], acc_violations = [], acc_keys = [], acc_transitions = 0\<rparr>"
  by (simp add: explored_def recorded_def)

lemma state_of_start: "state_of (mc_start cx, []) = initial_state cx"
  by (simp add: state_of_def mc_start_def mc_key_def initial_state_def)

lemma loop_explored:
  assumes "context_ok cx"
  obtains es complete acc where "explore (mc_succs cx) bound [(mc_start cx, [])] [] = (es, complete)"
    and "mc_loop cx bound [initial_state cx] [] \<lparr>acc_reached = [], acc_violations = [], acc_keys = [], acc_transitions = 0\<rparr> =
      Inr (acc, (if complete then length es else Suc (length es)), complete)"
    and "explored cx es acc"
proof -
  obtain es complete where e: "explore (mc_succs cx) bound [(mc_start cx, [])] [] = (es, complete)" by fastforce
  have "\<forall>n \<in> set [(mc_start cx, [])]. node_ok cx n" by (simp add: node_ok_def config_ok_start)
  from mc_loop_eq [OF assms this, of bound "[]"] e show ?thesis
    using explored_fold [OF explored_empty, of cx es] by (intro that [OF e]) (auto simp: state_of_start)
qed

definition report_from ::
  "protocol \<Rightarrow> exec_plan \<Rightarrow> nat \<Rightarrow> (mc_config, nat \<times> bool) node list \<Rightarrow> mc_acc \<Rightarrow> check_report \<Rightarrow> bool" where
  "report_from p pl bound es acc rep \<longleftrightarrow>
     (let cx = context_of p pl in
      explore (mc_succs cx) bound [(mc_start cx, [])] [] = (es, rep_complete rep) \<and>
      explored cx es acc \<and> rep_violations rep = acc_violations acc \<and>
      rep_states_explored rep = min (if rep_complete rep then length es else Suc (length es)) bound \<and>
      rep_transitions_explored rep = acc_transitions acc \<and>
      rep_unreachable_steps rep = map (\<lambda>i. st_name (step_at cx i))
        (filter (\<lambda>i. i \<notin> set (acc_reached acc)) [0..<length (plan_order pl)]))"

lemma check_plan_report:
  assumes "plan ho p = Some (Inr pl)" and "hash_iteration ho" and "invariants_ok p"
    and roles: "check_roles (hash_index (plan_roles pl)) (pr_invariants p) = Inr ()"
  shows "\<exists>es acc rep. check_plan p bound pl = Inr rep \<and> report_from p pl bound es acc rep"
proof -
  let ?cx = "context_of p pl" let ?start = "\<lparr>acc_reached = [], acc_violations = [], acc_keys = [], acc_transitions = 0\<rparr>"
  note cx = plan_context_ok [OF assms]
  obtain es complete acc where e: "explore (mc_succs ?cx) bound [(mc_start ?cx, [])] [] = (es, complete)"
    "mc_loop ?cx bound [initial_state ?cx] [] ?start =
      Inr (acc, (if complete then length es else Suc (length es)), complete)" "explored ?cx es acc"
    using loop_explored [OF cx(1)] by metis
  have "\<lparr>cx_invariants = pr_invariants p, cx_roles = plan_roles pl, cx_order = plan_order pl,
      cx_deps = cx_deps ?cx\<rparr> = ?cx" by (simp add: context_of_def)
  then have "check_plan p bound pl = Inr
      \<lparr>rep_schema_version = ''1'', rep_protocol = pr_name p, rep_complete = complete,
       rep_states_explored = min (if complete then length es else Suc (length es)) bound,
       rep_transitions_explored = acc_transitions acc, rep_violations = acc_violations acc,
       rep_unreachable_steps = map (\<lambda>i. st_name (ps_step (plan_order pl ! i)))
         (filter (\<lambda>i. i \<notin> set (acc_reached acc)) [0..<length (plan_order pl)])\<rparr>"
    unfolding check_plan_def roles cx(2) rbind.simps Let_def by (simp only: e(2) rbind.simps prod.case)
  moreover have "step_at ?cx = (\<lambda>i. ps_step (plan_order pl ! i))" by (simp add: step_at_def context_of_def fun_eq_iff)
  ultimately show ?thesis
    using e(1,3) by (intro exI [of _ es] exI [of _ acc]) (simp add: report_from_def Let_def del: explore.simps)
qed

lemma report_explored:
  assumes "model_check ho p bound = Some (Inr rep)" and "hash_iteration ho" and "invariants_ok p"
  obtains pl es acc where "plan ho p = Some (Inr pl)" and "report_from p pl bound es acc rep"
proof -
  from assms(1) obtain pl where pl: "plan ho p = Some (Inr pl)" and c: "check_plan p bound pl = Inr rep"
    by (auto simp: model_check_def rbind_eq_Inr split: if_splits)
  from c have roles: "check_roles (hash_index (plan_roles pl)) (pr_invariants p) = Inr ()"
    by (auto simp: check_plan_def)
  from check_plan_report [OF pl assms(2,3) roles, of bound] c that [OF pl] show ?thesis by auto
qed

subsection \<open>Defects, declaratively\<close>

definition stuck :: "mc_context \<Rightarrow> mc_config \<Rightarrow> bool" where
  "stuck cx c \<longleftrightarrow> (\<forall>l c'. \<not> mc_step cx c l c')"

definition finished :: "mc_config \<Rightarrow> bool" where
  "finished c \<longleftrightarrow> (\<forall>done \<in> set (fst c). done)"

definition defective :: "mc_context \<Rightarrow> mc_config \<Rightarrow> string \<times> string option \<Rightarrow> bool" where
  "defective cx c key \<longleftrightarrow>
     (\<exists>iv \<in> set (cx_invariants cx). key = (''invariant'', Some (inv_name iv)) \<and> violates cx c iv) \<or>
     (key = (''deadlock'', None) \<and> stuck cx c \<and> \<not> finished c) \<or>
     (\<exists>i < length (eventually_invariants (cx_invariants cx)).
        key = (''liveness'', Some (inv_name (eventually_invariants (cx_invariants cx) ! i))) \<and>
        stuck cx c \<and> finished c \<and> \<not> snd (snd c) ! i)"

lemma stuck_iff: "stuck cx c \<longleftrightarrow> enabled_labels cx c = []"
proof -
  have "stuck cx c \<longleftrightarrow> set (mc_succs cx c) = {}"
    unfolding stuck_def mc.step_iff by (metis equals0D equals0I surj_pair)
  then show ?thesis by (simp add: mc_succs_def)
qed

lemma missed_iff:
  "config_ok cx c \<Longrightarrow> set (missed cx c) =
    {eventually_invariants (cx_invariants cx) ! i | i. i < length (eventually_invariants (cx_invariants cx)) \<and> \<not> snd (snd c) ! i}"
  by (force simp: missed_def config_ok_def set_zip image_iff)

lemma defect_keys:
  "defect_key (safety_defect iv) = (''invariant'', Some (inv_name iv))"
  "defect_key (liveness_defect iv) = (''liveness'', Some (inv_name iv))"
  "defect_key deadlock_defect = (''deadlock'', None)"
  by (simp_all add: defect_key_def safety_defect_def liveness_defect_def deadlock_defect_def)

lemma has_defect_iff:
  assumes "config_ok cx c"
  shows "has_defect cx c key \<longleftrightarrow> defective cx c key"
proof -
  let ?late = "if enabled_labels cx c \<noteq> [] then []
      else if list_all (\<lambda>done. done) (fst c) then map liveness_defect (missed cx c) else [deadlock_defect]"
  have safety: "key \<in> defect_key ` set (map safety_defect (filter (violates cx c) (cx_invariants cx))) \<longleftrightarrow>
      (\<exists>iv \<in> set (cx_invariants cx). key = (''invariant'', Some (inv_name iv)) \<and> violates cx c iv)"
    unfolding set_map image_image defect_keys set_filter by blast
  have "key \<in> defect_key ` set (map liveness_defect (missed cx c)) \<longleftrightarrow>
      (\<exists>i < length (eventually_invariants (cx_invariants cx)).
        key = (''liveness'', Some (inv_name (eventually_invariants (cx_invariants cx) ! i))) \<and> \<not> snd (snd c) ! i)"
    unfolding set_map image_image defect_keys missed_iff [OF assms] by blast
  moreover have "list_all (\<lambda>done. done) (fst c) \<longleftrightarrow> finished c" by (simp add: finished_def list_all_iff)
  ultimately have "key \<in> defect_key ` set ?late \<longleftrightarrow>
     (key = (''deadlock'', None) \<and> stuck cx c \<and> \<not> finished c) \<or>
     (\<exists>i < length (eventually_invariants (cx_invariants cx)).
        key = (''liveness'', Some (inv_name (eventually_invariants (cx_invariants cx) ! i))) \<and>
        stuck cx c \<and> finished c \<and> \<not> snd (snd c) ! i)"
    by (cases "enabled_labels cx c = []"; cases "finished c") (simp_all add: stuck_iff defect_keys(3) del: image_iff)
  with safety show ?thesis
    unfolding has_defect_def defects_def set_append image_Un Un_iff defective_def by blast
qed

subsection \<open>The properties of a report\<close>

text \<open>
  C31: The model checker always returns, and does not panic on protocols whose implication
  invariants name the implied role and state, as the interpreter guarantees.
\<close>

theorem model_check_answers:
  assumes "hash_iteration ho" and "invariants_ok p"
  shows "\<exists>r. model_check ho p bound = Some r \<and> no_panic r"
proof -
  obtain r where r: "plan ho p = Some r" "no_panic r"
    using plan_total [OF assms(1)] by blast
  show ?thesis
  proof (cases r)
    case (Inl e)
    then show ?thesis using r by (cases e) (auto simp: model_check_def)
  next
    case (Inr pl)
    have "no_panic (check_plan p bound pl)"
    proof (cases "check_roles (hash_index (plan_roles pl)) (pr_invariants p)")
      case (Inl e)
      then show ?thesis
        using check_roles_eq(2) [of "hash_index (plan_roles pl)" "pr_invariants p"]
        by (auto simp: check_plan_def no_panic_def)
    next
      case (Inr u)
      then show ?thesis
        using check_plan_report [OF r(1) [unfolded \<open>r = Inr pl\<close>] assms, of bound] by auto
    qed
    then show ?thesis using r Inr by (auto simp: model_check_def)
  qed
qed

text \<open>
  C3: Every reported violation is real and its counterexample is shortest: the steps it lists
  are a run of the plan's transition system to a configuration with the role states shown
  and with the reported defect (a violated invariant, a deadlock, or a completed run that
  missed a liveness goal), and no shorter run reaches that defect.
\<close>

theorem violations_are_shortest_runs:
  assumes "model_check ho p bound = Some (Inr rep)" and "hash_iteration ho" and "invariants_ok p"
    and "v \<in> set (rep_violations rep)"
  shows "\<exists>pl cx w c. plan ho p = Some (Inr pl) \<and> cx = context_of p pl \<and>
    run (mc_step cx) (mc_start cx) w c \<and>
    vio_counterexample v = map (\<lambda>l. st_name (step_at cx (fst l))) w \<and>
    vio_role_states v = zip (cx_roles cx) (fst (snd c)) \<and>
    defective cx c (vio_kind v, vio_invariant v) \<and>
    (\<forall>w' c'. run (mc_step cx) (mc_start cx) w' c' \<longrightarrow> defective cx c' (vio_kind v, vio_invariant v) \<longrightarrow>
       length (vio_counterexample v) \<le> length w')"
proof -
  obtain pl es acc where pl: "plan ho p = Some (Inr pl)" and rep: "report_from p pl bound es acc rep"
    using report_explored [OF assms(1-3)] .
  let ?cx = "context_of p pl"
  have r: "explore (mc_succs ?cx) bound [(mc_start ?cx, [])] [] = (es, rep_complete rep)" "first_defect ?cx es v"
    using rep assms(4) by (simp_all add: report_from_def Let_def explored_def recorded_def)
  from r(2) obtain e d where e: "d \<in> set (defects ?cx (fst e))" "v = violation_of ?cx e d"
    "find (\<lambda>e. has_defect ?cx (fst e) (defect_key d)) es = Some e"
    unfolding first_defect_def by blast
  have key: "(vio_kind v, vio_invariant v) = defect_key d" by (simp add: e(2) violation_of_def defect_key_def)
  have ok: "expanded_ok (mc_start ?cx) (mc_step ?cx) es" using mc.explore_start(1) [OF r(1)] .
  have "e \<in> set es" using e(3) by (metis find_Some_iff nth_mem)
  then have run: "run (mc_step ?cx) (mc_start ?cx) (snd e) (fst e)" by (rule mc.expanded_reachable [OF ok])
  have "has_defect ?cx (fst e) (defect_key d)" using e(1) by (simp add: has_defect_def)
  then have "defective ?cx (fst e) (vio_kind v, vio_invariant v)"
    unfolding key using has_defect_iff [OF config_ok_run [OF run]] by blast
  moreover have "length (snd e) \<le> length w'"
    if "run (mc_step ?cx) (mc_start ?cx) w' c'" "defective ?cx c' (vio_kind v, vio_invariant v)" for w' c'
    using mc.expanded_first_shortest [OF ok e(3) that(1)] has_defect_iff [OF config_ok_run [OF that(1)]] that(2)
    unfolding key by blast
  ultimately show ?thesis
    using run pl by (intro exI [of _ pl] exI [of _ ?cx] exI [of _ "snd e"] exI [of _ "fst e"])
      (auto simp: e(2) violation_of_def)
qed

lemma complete_report_exact:
  assumes "model_check ho p bound = Some (Inr rep)" and "hash_iteration ho" and "invariants_ok p"
    and "rep_complete rep"
  shows "\<exists>pl. plan ho p = Some (Inr pl) \<and> (\<forall>key.
    key \<in> (\<lambda>v. (vio_kind v, vio_invariant v)) ` set (rep_violations rep) \<longleftrightarrow>
    (\<exists>w c. run (mc_step (context_of p pl)) (mc_start (context_of p pl)) w c \<and> defective (context_of p pl) c key))"
proof -
  obtain pl es acc where pl: "plan ho p = Some (Inr pl)" and rep: "report_from p pl bound es acc rep"
    using report_explored [OF assms(1-3)] .
  then have r: "plan ho p = Some (Inr pl)"
    "explore (mc_succs (context_of p pl)) bound [(mc_start (context_of p pl), [])] [] = (es, True)"
    "explored (context_of p pl) es acc" "rep_violations rep = acc_violations acc"
    using assms(4) by (simp_all add: report_from_def Let_def)
  let ?cx = "context_of p pl" let ?run = "run (mc_step ?cx) (mc_start ?cx)"
  have ok: "expanded_ok (mc_start ?cx) (mc_step ?cx) es" using mc.explore_start(1) [OF r(2)] .
  have "(\<exists>e \<in> set es. has_defect ?cx (fst e) key) \<longleftrightarrow> (\<exists>w c. ?run w c \<and> defective ?cx c key)" for key
  proof
    assume "\<exists>e \<in> set es. has_defect ?cx (fst e) key"
    then obtain e where "e \<in> set es" "has_defect ?cx (fst e) key" by blast
    with mc.expanded_reachable [OF ok, of e] show "\<exists>w c. ?run w c \<and> defective ?cx c key"
      using has_defect_iff config_ok_run by blast
  next
    assume "\<exists>w c. ?run w c \<and> defective ?cx c key"
    then obtain w c where c: "?run w c" "defective ?cx c key" by blast
    then have "c \<in> fst ` set es" using mc.explore_start(3) [OF r(2)] by blast
    with c show "\<exists>e \<in> set es. has_defect ?cx (fst e) key"
      using has_defect_iff [OF config_ok_run [OF c(1)]] by blast
  qed
  then show ?thesis
    using r by (intro exI [of _ pl]) (simp add: explored_def recorded_def)
qed

lemma report_context_ok:
  assumes "model_check ho p bound = Some (Inr rep)" and "hash_iteration ho" and "invariants_ok p" and "plan ho p = Some (Inr pl)"
  shows "context_ok (context_of p pl)"
proof -
  have "check_plan p bound pl = Inr rep"
    using assms(1,4) by (auto simp: model_check_def rbind_eq_Inr split: if_splits)
  then have "check_roles (hash_index (plan_roles pl)) (pr_invariants p) = Inr ()" by (auto simp: check_plan_def)
  from plan_context_ok(1) [OF assms(4,2,3) this] show ?thesis .
qed

text \<open>
  C4: A complete report misses nothing: a defect is reported exactly when some run of the
  plan's transition system reaches it.
\<close>

theorem complete_report_misses_nothing:
  assumes "model_check ho p bound = Some (Inr rep)" and "hash_iteration ho" and "invariants_ok p"
    and "rep_complete rep"
  shows "\<exists>pl. plan ho p = Some (Inr pl) \<and> (\<forall>key.
    key \<in> (\<lambda>v. (vio_kind v, vio_invariant v)) ` set (rep_violations rep) \<longleftrightarrow>
    (\<exists>w c. run (mc_step (context_of p pl)) (mc_start (context_of p pl)) w c \<and> defective (context_of p pl) c key))"
  using complete_report_exact [OF assms] .

text \<open>
  The bound is respected and reported: a complete report has counted exactly the reachable
  configurations; an incomplete one has expanded the maximal number and some reachable
  configuration is not among them.
\<close>

theorem explored_states_counted:
  assumes "model_check ho p bound = Some (Inr rep)" and "hash_iteration ho" and "invariants_ok p"
  shows "\<exists>pl. plan ho p = Some (Inr pl) \<and> (let R = {c. \<exists>w. run (mc_step (context_of p pl)) (mc_start (context_of p pl)) w c} in
    rep_states_explored rep \<le> bound \<and>
    (if rep_complete rep then finite R \<and> rep_states_explored rep = card R
     else rep_states_explored rep = bound \<and> (finite R \<longrightarrow> bound < card R)))"
proof -
  obtain pl es acc where pl: "plan ho p = Some (Inr pl)" and rep: "report_from p pl bound es acc rep"
    using report_explored [OF assms] .
  define complete where "complete = rep_complete rep"
  have r: "plan ho p = Some (Inr pl)"
    "explore (mc_succs (context_of p pl)) bound [(mc_start (context_of p pl), [])] [] = (es, complete)"
    "rep_complete rep = complete" "rep_states_explored rep = min (if complete then length es else Suc (length es)) bound"
    using pl rep by (simp_all add: report_from_def Let_def complete_def)
  let ?cx = "context_of p pl" let ?R = "{c. \<exists>w. run (mc_step ?cx) (mc_start ?cx) w c}"
  note e = mc.explore_start [OF r(2)]
  have sub: "fst ` set es \<subseteq> ?R" using mc.expanded_reachable [OF e(1)] by blast
  have card: "card (fst ` set es) = length es"
    using distinct_card [OF mc.expanded_distinct [OF e(1)]] by simp
  show ?thesis
  proof (cases complete)
    case True
    then have "?R = fst ` set es" using sub e(3) by blast
    then show ?thesis using True r e(2) card by (simp add: Let_def)
  next
    case False
    then have "length es = bound" and "fst ` set es \<noteq> ?R" using e(4) by auto
    moreover have "finite ?R \<Longrightarrow> card (fst ` set es) < card ?R"
      using sub \<open>fst ` set es \<noteq> ?R\<close> by (intro psubset_card_mono) auto
    ultimately show ?thesis using False r card by (simp add: Let_def)
  qed
qed

text \<open>
  In a complete report the unreachable steps are exactly the steps that no run takes,
  listed in plan order.
\<close>

theorem unreachable_steps_exact:
  assumes "model_check ho p bound = Some (Inr rep)" and "hash_iteration ho" and "invariants_ok p"
    and "rep_complete rep"
  shows "\<exists>pl. plan ho p = Some (Inr pl) \<and> rep_unreachable_steps rep = map (\<lambda>i. st_name (step_at (context_of p pl) i))
    (filter (\<lambda>i. \<not> (\<exists>w c execute c'. run (mc_step (context_of p pl)) (mc_start (context_of p pl)) w c \<and>
        mc_step (context_of p pl) c (i, execute) c')) [0..<length (plan_order pl)])"
proof -
  obtain pl es acc where pl: "plan ho p = Some (Inr pl)" and rep: "report_from p pl bound es acc rep"
    using report_explored [OF assms(1-3)] .
  then have r: "plan ho p = Some (Inr pl)"
    "explore (mc_succs (context_of p pl)) bound [(mc_start (context_of p pl), [])] [] = (es, True)"
    "explored (context_of p pl) es acc"
    "rep_unreachable_steps rep = map (\<lambda>i. st_name (step_at (context_of p pl) i))
      (filter (\<lambda>i. i \<notin> set (acc_reached acc)) [0..<length (plan_order pl)])"
    using assms(4) by (simp_all add: report_from_def Let_def)
  let ?cx = "context_of p pl"
  have ok: "expanded_ok (mc_start ?cx) (mc_step ?cx) es" using mc.explore_start(1) [OF r(2)] .
  have "i \<in> set (acc_reached acc) \<longleftrightarrow>
      (\<exists>w c execute c'. run (mc_step ?cx) (mc_start ?cx) w c \<and> mc_step ?cx c (i, execute) c')" for i
  proof
    assume "i \<in> set (acc_reached acc)"
    then obtain e where e: "e \<in> set es" "i \<in> fst ` set (enabled_labels ?cx (fst e))"
      using r(3) unfolding explored_def by blast
    then obtain execute where "(i, execute) \<in> set (enabled_labels ?cx (fst e))" by force
    with e(1) show "\<exists>w c execute c'. run (mc_step ?cx) (mc_start ?cx) w c \<and> mc_step ?cx c (i, execute) c'"
      using mc.expanded_reachable [OF ok] enabled_labels_iff by blast
  next
    assume "\<exists>w c execute c'. run (mc_step ?cx) (mc_start ?cx) w c \<and> mc_step ?cx c (i, execute) c'"
    then obtain w c execute c' where c: "run (mc_step ?cx) (mc_start ?cx) w c" "mc_step ?cx c (i, execute) c'" by blast
    then obtain e where "e \<in> set es" "fst e = c" using mc.explore_start(3) [OF r(2)] by blast
    moreover have "(i, execute) \<in> set (enabled_labels ?cx c)"
      using c(2) by (simp add: enabled_labels_iff mc_step_iff)
    then have "i \<in> fst ` set (enabled_labels ?cx c)" by force
    ultimately show "i \<in> set (acc_reached acc)" using r(3) unfolding explored_def by blast
  qed
  with r show ?thesis by simp
qed

subsection \<open>Liveness flags\<close>

lemma role_pos_inj:
  assumes "context_ok cx" and "r \<in> set (cx_roles cx)" and "r' \<in> set (cx_roles cx)" and "role_pos cx r = role_pos cx r'"
  shows "r = r'"
proof -
  have "distinct (cx_roles cx)" using assms(1) by (simp add: context_ok_def)
  then show ?thesis using role_pos(4) assms(2-4) by metis
qed

lemma role_state_after:
  assumes cx: "context_ok cx" and c: "config_ok cx c" and i: "i < length (cx_order cx)" and r: "r \<in> set (cx_roles cx)"
  shows "role_state cx (after_step cx c i execute) r =
    (if execute \<and> st_role (step_at cx i) = r \<and> st_to_state (step_at cx i) \<noteq> None
     then the (st_to_state (step_at cx i)) else role_state cx c r)"
proof -
  have s: "st_role (step_at cx i) \<in> set (cx_roles cx)"
    using cx i by (auto simp: context_ok_def step_at_def)
  have "role_pos cx (st_role (step_at cx i)) < length (fst (snd c))"
    using role_of_step(2) [OF cx i] c by (simp add: config_ok_def)
  moreover have "role_pos cx (st_role (step_at cx i)) = role_pos cx r \<longleftrightarrow> st_role (step_at cx i) = r"
    using role_pos_inj [OF cx s r] by blast
  ultimately show ?thesis
    by (auto simp: role_state_def after_step_def nth_list_update split: option.split)
qed

definition has_been ::
  "mc_context \<Rightarrow> (nat \<times> bool) list \<Rightarrow> mc_config \<Rightarrow> string \<Rightarrow> string \<Rightarrow> bool" where
  "has_been cx w c r s \<longleftrightarrow>
     (\<exists>w1 w2 b. w = w1 @ w2 \<and> run (mc_step cx) (mc_start cx) w1 b \<and> run (mc_step cx) b w2 c \<and> role_state cx b r = s)"

lemma run_mc_det: "run (mc_step cx) a w b \<Longrightarrow> run (mc_step cx) a w b' \<Longrightarrow> b = b'"
proof (induction w arbitrary: a)
  case (Cons l w)
  have "mc_step cx a l c \<Longrightarrow> mc_step cx a l c' \<Longrightarrow> c = c'" for c c'
    by (cases l) (simp add: mc_step_iff)
  with Cons show ?case unfolding run_Cons by blast
qed simp

lemma has_been_now: "run (mc_step cx) (mc_start cx) w c \<Longrightarrow> role_state cx c r = s \<Longrightarrow> has_been cx w c r s"
  unfolding has_been_def by (intro exI [of _ w] exI [of _ "[]"] exI [of _ c]) simp

lemma has_been_Nil: "has_been cx [] (mc_start cx) r s \<longleftrightarrow> role_state cx (mc_start cx) r = s"
  by (auto simp: has_been_def simp del: split_paired_Ex)

lemma has_been_snoc:
  assumes b: "run (mc_step cx) (mc_start cx) w b" and l: "mc_step cx b l c"
  shows "has_been cx (w @ [l]) c r s \<longleftrightarrow> has_been cx w b r s \<or> role_state cx c r = s"
proof
  assume "has_been cx (w @ [l]) c r s"
  then obtain w1 w2 a where a: "w @ [l] = w1 @ w2" "run (mc_step cx) (mc_start cx) w1 a" "run (mc_step cx) a w2 c"
    "role_state cx a r = s" unfolding has_been_def by blast
  show "has_been cx w b r s \<or> role_state cx c r = s"
  proof (cases w2 rule: rev_cases)
    case Nil
    then show ?thesis using a by simp
  next
    case (snoc w3 l')
    then have w: "w = w1 @ w3" "l' = l" using a(1) by auto
    from a(3) obtain d where d: "run (mc_step cx) a w3 d" unfolding snoc run_snoc by blast
    have "run (mc_step cx) (mc_start cx) w d" unfolding w(1) run_append using a(2) d by blast
    then have "d = b" using run_mc_det [OF b] by blast
    then have "has_been cx w b r s" unfolding has_been_def using a(2,4) d w(1) by blast
    then show ?thesis ..
  qed
next
  assume "has_been cx w b r s \<or> role_state cx c r = s"
  moreover have "run (mc_step cx) (mc_start cx) (w @ [l]) c" unfolding run_snoc using b l by blast
  moreover have "has_been cx (w @ [l]) c r s" if "has_been cx w b r s"
  proof -
    from that obtain w1 w2 a where "w = w1 @ w2" "run (mc_step cx) (mc_start cx) w1 a" "run (mc_step cx) a w2 b"
      "role_state cx a r = s" unfolding has_been_def by blast
    moreover from this(3) l have "run (mc_step cx) a (w2 @ [l]) c" unfolding run_snoc by blast
    ultimately show ?thesis unfolding has_been_def
      by (intro exI [of _ w1] exI [of _ "w2 @ [l]"] exI [of _ a]) simp
  qed
  ultimately show "has_been cx (w @ [l]) c r s" using has_been_now by blast
qed

text \<open>
  The liveness flag of an \<open>eventually\<close> invariant is set in a reachable configuration exactly
  when its role has been in the target state at some point of the run, the start included.
\<close>

theorem liveness_flags_correct:
  assumes "context_ok cx" and "run (mc_step cx) (mc_start cx) w c"
    and "j < length (eventually_invariants (cx_invariants cx))"
  shows "snd (snd c) ! j \<longleftrightarrow> has_been cx w c (inv_role (eventually_invariants (cx_invariants cx) ! j))
    (inv_state (eventually_invariants (cx_invariants cx) ! j))"
proof -
  define iv where "iv = eventually_invariants (cx_invariants cx) ! j"
  have iv: "inv_role iv \<in> set (cx_roles cx)"
    using assms(1) nth_mem [OF assms(3)] by (auto simp: context_ok_def eventually_invariants_def iv_def)
  have d: "distinct (cx_roles cx)" using assms(1) by (simp add: context_ok_def)
  have start: "role_state cx (mc_start cx) (inv_role iv) = ''initial''" "snd (snd (mc_start cx)) ! j \<longleftrightarrow> inv_state iv = ''initial''"
    using role_pos(3) [OF d iv] assms(3)
    by (simp_all add: role_state_def mc_start_def mc_key_def initial_state_def iv_def)
  have "snd (snd c) ! j \<longleftrightarrow> has_been cx w c (inv_role iv) (inv_state iv)"
    using assms(2)
  proof (induction w arbitrary: c rule: rev_induct)
    case Nil
    then have "c = mc_start cx" by simp
    then show ?case unfolding has_been_Nil start by (auto simp: has_been_Nil start)
  next
    case (snoc l w)
    obtain i execute where l: "l = (i, execute)" by (cases l)
    from snoc.prems obtain b where b: "run (mc_step cx) (mc_start cx) w b" "mc_step cx b l c"
      unfolding run_snoc by blast
    have i: "i < length (cx_order cx)" and c: "c = after_step cx b i execute"
      using b(2) unfolding l mc_step_iff by blast+
    have ok: "config_ok cx b" using config_ok_run [OF b(1)] .
    have flag: "snd (snd c) ! j \<longleftrightarrow> snd (snd b) ! j \<or> reaches cx i execute iv"
      using ok assms(3) by (simp add: c after_step_def config_ok_def iv_def)
    have "reaches cx i execute iv \<Longrightarrow> role_state cx c (inv_role iv) = inv_state iv"
      and "role_state cx c (inv_role iv) = inv_state iv \<Longrightarrow>
        reaches cx i execute iv \<or> role_state cx b (inv_role iv) = inv_state iv"
      unfolding c role_state_after [OF assms(1) ok i iv] reaches_def by (auto split: if_splits)
    then show ?case
      unfolding flag has_been_snoc [OF b] snoc.IH [OF b(1)] using has_been_now [OF b(1)] by blast
  qed
  then show ?thesis by (simp add: iv_def)
qed

subsection \<open>A protocol with a defect\<close>

definition bad_step :: step_spec where
  "bad_step = (log_step ''a'' ''c'' [])\<lparr>st_to_state := Some ''error''\<rparr>"

definition never_error :: invariant_spec where
  "never_error = \<lparr>inv_name = ''safe'', inv_kind = NeverState, inv_role = ''c'', inv_state = ''error'',
     inv_implies_role = None, inv_implies_state = None\<rparr>"

definition bad_protocol :: protocol where
  "bad_protocol = log_protocol [bad_step] [never_error]"

definition bad_plan :: exec_plan where
  "bad_plan = \<lparr>plan_protocol_name = ''p'', plan_roles = [''c''], plan_order = [\<lparr>ps_step = bad_step, ps_deps = []\<rparr>]\<rparr>"

lemma bad_plan: "plan id bad_protocol = Some (Inr bad_plan)"
proof -
  have "resolved [bad_step] 0 = []"
    by (simp add: resolved_def last_in_role_def bad_step_def log_step_def)
  then have "greedy [bad_step] [] = [0]"
    by (simp add: greedy.simps candidates_def)
  moreover have "ds_roles_seen (resolve_deps [bad_step]) = [''c'']"
    by (simp add: resolve_deps_def resolve_step_def bad_step_def log_step_def Let_def)
  moreover have "refs_ok [bad_step]" by (simp add: refs_ok_def bad_step_def log_step_def)
  ultimately show ?thesis
    using plan_sorted [of bad_protocol id] hash_iteration_id \<open>resolved [bad_step] 0 = []\<close>
    by (simp add: bad_protocol_def log_protocol_def plan_result_def Let_def planned_def bad_plan_def)
qed

definition bad_report :: check_report where
  "bad_report = \<lparr>rep_schema_version = ''1'', rep_protocol = ''p'', rep_complete = True,
     rep_states_explored = 2, rep_transitions_explored = 1,
     rep_violations = [\<lparr>vio_kind = ''invariant'', vio_invariant = Some ''safe'',
       vio_message = ''invariant `safe` is false'', vio_counterexample = [''a''], vio_role_states = [(''c'', ''error'')]\<rparr>],
     rep_unreachable_steps = []\<rparr>"

lemma bad_report: "model_check id bad_protocol 5 = Some (Inr bad_report)"
proof -
  have "check_plan bad_protocol 5 bad_plan = Inr bad_report"
    by (simp add: check_plan_def bad_plan_def bad_protocol_def log_protocol_def resolve_indices_def
        hash_index_def never_error_def Let_def initial_state_def eventually_invariants_def)
      (simp add: visit_def safety_failed_def mc_key_def outcomes_def index_map_def hash_index_def
        take_step_def bad_step_def log_step_def add_violation_def Let_def eventually_invariants_def bad_report_def)
  then show ?thesis by (simp add: model_check_def bad_plan)
qed

lemma bad_invariants_ok: "invariants_ok bad_protocol"
  by (simp add: invariants_ok_def bad_protocol_def log_protocol_def never_error_def)

lemmas bad_case = bad_report hash_iteration_id bad_invariants_ok

lemma model_check_answers_witness: "\<exists>r. model_check id bad_protocol 1 = Some r \<and> no_panic r"
  using model_check_answers [OF hash_iteration_id bad_invariants_ok] .

lemma violations_are_shortest_runs_witness:
  "\<exists>w c. run (mc_step (context_of bad_protocol bad_plan)) (mc_start (context_of bad_protocol bad_plan)) w c \<and>
    defective (context_of bad_protocol bad_plan) c (''invariant'', Some ''safe'')"
proof -
  obtain v where v: "v \<in> set (rep_violations bad_report)" "(vio_kind v, vio_invariant v) = (''invariant'', Some ''safe'')"
    by (simp add: bad_report_def)
  from violations_are_shortest_runs [OF bad_case v(1)] v(2) bad_plan show ?thesis by auto
qed

lemma complete_report_misses_nothing_witness:
  "\<not> (\<exists>w c. run (mc_step (context_of bad_protocol bad_plan)) (mc_start (context_of bad_protocol bad_plan)) w c \<and>
    defective (context_of bad_protocol bad_plan) c (''deadlock'', None))"
proof -
  have c: "rep_complete bad_report" by (simp add: bad_report_def)
  have "(''deadlock'', None) \<notin> (\<lambda>v. (vio_kind v, vio_invariant v)) ` set (rep_violations bad_report)"
    by (simp add: bad_report_def)
  with complete_report_misses_nothing [OF bad_case c] bad_plan show ?thesis by auto
qed

lemma explored_states_counted_witness:
  "card {c. \<exists>w. run (mc_step (context_of bad_protocol bad_plan)) (mc_start (context_of bad_protocol bad_plan)) w c} = 2"
  using explored_states_counted [OF bad_case] bad_plan by (auto simp: bad_report_def Let_def)

lemma unreachable_steps_exact_witness:
  "\<exists>w c execute c'. run (mc_step (context_of bad_protocol bad_plan)) (mc_start (context_of bad_protocol bad_plan)) w c \<and>
    mc_step (context_of bad_protocol bad_plan) c (0, execute) c'"
proof -
  have "rep_complete bad_report" "rep_unreachable_steps bad_report = []" "length (plan_order bad_plan) = 1"
    by (simp_all add: bad_report_def bad_plan_def)
  with unreachable_steps_exact [OF bad_case] bad_plan show ?thesis by (auto split: if_splits)
qed

definition reach_error :: invariant_spec where
  "reach_error = never_error\<lparr>inv_kind := EventuallyState\<rparr>"

definition live_context :: mc_context where
  "live_context = \<lparr>cx_invariants = [reach_error], cx_roles = [''c''],
     cx_order = [\<lparr>ps_step = bad_step, ps_deps = []\<rparr>], cx_deps = [[]]\<rparr>"

lemma liveness_flags_correct_witness: "\<not> has_been live_context [] (mc_start live_context) ''c'' ''error''"
proof -
  have ev: "eventually_invariants (cx_invariants live_context) = [reach_error]"
    by (simp add: live_context_def eventually_invariants_def reach_error_def)
  have ok: "context_ok live_context"
    by (simp add: context_ok_def live_context_def bad_step_def log_step_def reach_error_def never_error_def)
  have "\<not> snd (snd (mc_start live_context)) ! 0"
    by (simp add: mc_start_def mc_key_def initial_state_def ev) (simp add: reach_error_def never_error_def)
  with liveness_flags_correct [OF ok run.stop, of 0] show ?thesis
    by (simp add: ev) (simp add: reach_error_def never_error_def)
qed

end
