(* ===== verification/Live_Codec.thy ===== *)
theory Live_Codec
  imports Matching
begin

unbundle bit_operations_syntax

text \<open>
  The binary message format of live transports (\<open>src/src/transport.rs\<close>, from
  \<open>encode_message\<close> on): length-prefixed strings, tagged values, and the cursor that decodes
  them with bounds checks. Nested values are decoded with fuel for the nesting depth; each
  level consumes at least its tag, so one more than the number of bytes left is enough. The
  entries of a map are written in key order, the order in which they are kept here.
\<close>

datatype live_error =
    TooLarge
  | LengthOverflow
  | Truncated
  | InvalidUtf8
  | InvalidStreamTag byte
  | InvalidBoolTag byte
  | InvalidValueTag byte
  | TrailingBytes
  | OutOfFuel

type_synonym 'a lres = "(live_error, 'a) res"

subsection \<open>Encoding\<close>

definition put_u32 :: "nat \<Rightarrow> bytes lres" where
  "put_u32 n = (if n < 2 ^ 32 then Inr (be_bytes 4 (of_nat n :: u32)) else Inl (Fail TooLarge))"

definition put_bytes :: "bytes \<Rightarrow> bytes lres" where
  "put_bytes bs = rbind (put_u32 (length bs)) (\<lambda>len. Inr (len @ bs))"

definition put_string :: "string \<Rightarrow> bytes lres" where
  "put_string s = put_bytes (bytes_of s)"

definition i64_bytes :: "int \<Rightarrow> bytes" where
  "i64_bytes i = be_bytes 8 (word_of_int i :: u64)"

fun encode_value :: "val \<Rightarrow> bytes lres"
and encode_values :: "val list \<Rightarrow> bytes lres"
and encode_fields :: "(string \<times> val) list \<Rightarrow> bytes lres" where
  "encode_value VNull = Inr [0]"
| "encode_value (VBool b) = Inr [1, if b then 1 else 0]"
| "encode_value (VNumber n) = Inr (2 # be_bytes 8 n)"
| "encode_value (VString s) = rbind (put_string s) (\<lambda>bs. Inr (3 # bs))"
| "encode_value (VBytes b) = rbind (put_bytes b) (\<lambda>bs. Inr (4 # bs))"
| "encode_value (VArray vs) =
     rbind (put_u32 (length vs)) (\<lambda>len. rbind (encode_values vs) (\<lambda>bs. Inr (5 # len @ bs)))"
| "encode_value (VObject m) =
     rbind (put_u32 (length m)) (\<lambda>len. rbind (encode_fields m) (\<lambda>bs. Inr (6 # len @ bs)))"
| "encode_values [] = Inr []"
| "encode_values (v # vs) = rbind (encode_value v) (\<lambda>b. rbind (encode_values vs) (\<lambda>bs. Inr (b @ bs)))"
| "encode_fields [] = Inr []"
| "encode_fields ((k, v) # m) =
     rbind (put_string k) (\<lambda>kb. rbind (encode_value v) (\<lambda>vb. rbind (encode_fields m) (\<lambda>bs. Inr (kb @ vb @ bs))))"

definition encode_message :: "message \<Rightarrow> bytes lres" where
  "encode_message m =
     rbind (put_string (ms_from m)) (\<lambda>from.
     rbind (put_u32 (length (ms_flags m))) (\<lambda>flags_len.
     rbind (rmap put_string (ms_flags m)) (\<lambda>flags.
     rbind (put_string (ms_payload m)) (\<lambda>payload.
     rbind (put_bytes (ms_raw m)) (\<lambda>raw.
     rbind (put_u32 (length (ms_fields m))) (\<lambda>fields_len.
     rbind (encode_fields (ms_fields m)) (\<lambda>kvs.
     Inr (from @ flags_len @ concat flags @ i64_bytes (ms_seq m) @ i64_bytes (ms_ack m) @ payload @ raw @
          i64_bytes (ms_window m) @
          (case ms_stream m of Some s \<Rightarrow> 1 # i64_bytes s | None \<Rightarrow> [0]) @
          fields_len @ kvs))))))))"

subsection \<open>The cursor\<close>

record cursor =
  cu_bytes :: bytes
  cu_position :: nat

definition cursor_new :: "bytes \<Rightarrow> cursor" where
  "cursor_new bs = \<lparr>cu_bytes = bs, cu_position = 0\<rparr>"

definition cursor_take :: "nat \<Rightarrow> cursor \<Rightarrow> (bytes \<times> cursor) lres" where
  "cursor_take n c =
     (let fin = cu_position c + n in
      if fin \<ge> 2 ^ 64 then Inl (Fail LengthOverflow)
      else if fin \<le> length (cu_bytes c)
      then Inr (take n (drop (cu_position c) (cu_bytes c)), c\<lparr>cu_position := fin\<rparr>)
      else Inl (Fail Truncated))"

definition cursor_byte :: "cursor \<Rightarrow> (byte \<times> cursor) lres" where
  "cursor_byte c = rbind (cursor_take 1 c) (\<lambda>(bs, c'). rbind (byte_at bs 0) (\<lambda>b. Inr (b, c')))"

definition cursor_u32 :: "cursor \<Rightarrow> (u32 \<times> cursor) lres" where
  "cursor_u32 c = rbind (cursor_take 4 c) (\<lambda>(bs, c'). Inr (be_word bs, c'))"

definition cursor_i64 :: "cursor \<Rightarrow> (int \<times> cursor) lres" where
  "cursor_i64 c = rbind (cursor_take 8 c) (\<lambda>(bs, c'). Inr (sint (be_word bs :: u64), c'))"

definition cursor_bytes :: "cursor \<Rightarrow> (bytes \<times> cursor) lres" where
  "cursor_bytes c = rbind (cursor_u32 c) (\<lambda>(n, c'). cursor_take (unat n) c')"

definition cursor_string :: "cursor \<Rightarrow> (string \<times> cursor) lres" where
  "cursor_string c =
     rbind (cursor_bytes c) (\<lambda>(bs, c'). if valid_utf8 bs then Inr (string_of bs, c') else Inl (Fail InvalidUtf8))"

definition cursor_is_empty :: "cursor \<Rightarrow> bool" where
  "cursor_is_empty c \<longleftrightarrow> cu_position c = length (cu_bytes c)"

text \<open>\<open>for _ in 0..n { out.push(read()?) }\<close>.\<close>

primrec cursor_repeat :: "(cursor \<Rightarrow> ('a \<times> cursor) lres) \<Rightarrow> nat \<Rightarrow> cursor \<Rightarrow> ('a list \<times> cursor) lres" where
  "cursor_repeat rd 0 c = Inr ([], c)"
| "cursor_repeat rd (Suc n) c =
     rbind (rd c) (\<lambda>(x, c'). rbind (cursor_repeat rd n c') (\<lambda>(xs, c''). Inr (x # xs, c'')))"

definition cursor_entry ::
  "(cursor \<Rightarrow> (val \<times> cursor) lres) \<Rightarrow> cursor \<Rightarrow> ((string \<times> val) \<times> cursor) lres" where
  "cursor_entry rd c =
     rbind (cursor_string c) (\<lambda>(k, c'). rbind (rd c') (\<lambda>(v, c''). Inr ((k, v), c'')))"

primrec cursor_value :: "nat \<Rightarrow> cursor \<Rightarrow> (val \<times> cursor) lres" where
  "cursor_value 0 c = Inl (Fail OutOfFuel)"
| "cursor_value (Suc fuel) c =
     rbind (cursor_byte c) (\<lambda>(tag, c).
     if tag = 0 then Inr (VNull, c)
     else if tag = 1 then rbind (cursor_byte c) (\<lambda>(b, c).
       if b = 0 then Inr (VBool False, c) else if b = 1 then Inr (VBool True, c) else Inl (Fail (InvalidBoolTag b)))
     else if tag = 2 then rbind (cursor_take 8 c) (\<lambda>(bs, c). Inr (VNumber (be_word bs), c))
     else if tag = 3 then rbind (cursor_string c) (\<lambda>(s, c). Inr (VString s, c))
     else if tag = 4 then rbind (cursor_bytes c) (\<lambda>(b, c). Inr (VBytes b, c))
     else if tag = 5 then rbind (cursor_u32 c) (\<lambda>(n, c).
       rbind (cursor_repeat (cursor_value fuel) (unat n) c) (\<lambda>(vs, c). Inr (VArray vs, c)))
     else if tag = 6 then rbind (cursor_u32 c) (\<lambda>(n, c).
       rbind (cursor_repeat (cursor_entry (cursor_value fuel)) (unat n) c) (\<lambda>(kvs, c). Inr (VObject (collect_map kvs), c)))
     else Inl (Fail (InvalidValueTag tag)))"

definition decode_stream :: "cursor \<Rightarrow> (int option \<times> cursor) lres" where
  "decode_stream c =
     rbind (cursor_byte c) (\<lambda>(tag, c).
     if tag = 0 then Inr (None, c)
     else if tag = 1 then rbind (cursor_i64 c) (\<lambda>(s, c). Inr (Some s, c))
     else Inl (Fail (InvalidStreamTag tag)))"

definition decode_message :: "bytes \<Rightarrow> message lres" where
  "decode_message payload =
     (let rd = cursor_value (Suc (length payload)) in
     rbind (cursor_string (cursor_new payload)) (\<lambda>(from, c).
     rbind (cursor_u32 c) (\<lambda>(flags_len, c).
     rbind (cursor_repeat cursor_string (unat flags_len) c) (\<lambda>(flags, c).
     rbind (cursor_i64 c) (\<lambda>(seq, c).
     rbind (cursor_i64 c) (\<lambda>(ack, c).
     rbind (cursor_string c) (\<lambda>(txt, c).
     rbind (cursor_bytes c) (\<lambda>(raw, c).
     rbind (cursor_i64 c) (\<lambda>(window, c).
     rbind (decode_stream c) (\<lambda>(stream, c).
     rbind (cursor_u32 c) (\<lambda>(fields_len, c).
     rbind (cursor_repeat (cursor_entry rd) (unat fields_len) c) (\<lambda>(kvs, c).
     if \<not> cursor_is_empty c then Inl (Fail TrailingBytes)
     else Inr \<lparr>ms_from = from, ms_flags = flags, ms_seq = seq, ms_ack = ack, ms_payload = txt, ms_raw = raw,
               ms_window = window, ms_stream = stream, ms_fields = collect_map kvs\<rparr>))))))))))))"

end
