(* ===== verification/Live_Codec_Correct.thy ===== *)
theory Live_Codec_Correct
  imports Live_Codec
begin

unbundle bit_operations_syntax

text \<open>
  The live message format loses nothing: decoding an encoded message gives the message back.
  The law of a reader for its encoder is a locale; sequences and map entries inherit it. The
  decoder is total: no input makes it index out of range or run out of fuel.
\<close>

subsection \<open>Readers\<close>

definition at_bytes :: "cursor \<Rightarrow> bytes \<Rightarrow> bool" where
  "at_bytes c bs \<longleftrightarrow>
     cu_position c \<le> length (cu_bytes c) \<and> length (cu_bytes c) < 2 ^ 64 \<and> drop (cu_position c) (cu_bytes c) = bs"

definition advance :: "nat \<Rightarrow> cursor \<Rightarrow> cursor" where
  "advance n c = c\<lparr>cu_position := cu_position c + n\<rparr>"

definition reads :: "(cursor \<Rightarrow> ('a \<times> cursor) lres) \<Rightarrow> bytes \<Rightarrow> 'a \<Rightarrow> bool" where
  "reads rd bs x \<longleftrightarrow> (\<forall>c rest. at_bytes c (bs @ rest) \<longrightarrow> rd c = Inr (x, advance (length bs) c))"

lemma advance_advance [simp]: "advance n (advance m c) = advance (m + n) c"
  by (simp add: advance_def ac_simps)

lemma advance_0 [simp]: "advance 0 c = c"
  by (simp add: advance_def)

lemma at_bytes_advance: "at_bytes c (bs @ rest) \<Longrightarrow> at_bytes (advance (length bs) c) rest"
proof -
  assume a: "at_bytes c (bs @ rest)"
  then have "length (cu_bytes c) - cu_position c = length bs + length rest"
    unfolding at_bytes_def by (metis length_append length_drop)
  with a show ?thesis by (auto simp: at_bytes_def advance_def drop_drop [symmetric] add.commute [of _ "length bs"]
      simp del: drop_drop)
qed

lemma readsI: "(\<And>c rest. at_bytes c (bs @ rest) \<Longrightarrow> rd c = Inr (x, advance (length bs) c)) \<Longrightarrow> reads rd bs x"
  by (simp add: reads_def)

lemma readsD: "reads rd bs x \<Longrightarrow> at_bytes c (bs @ rest) \<Longrightarrow> rd c = Inr (x, advance (length bs) c)"
  unfolding reads_def by blast

text \<open>Reading one thing after another.\<close>

lemma reads_bind:
  assumes "reads rd bs x" and "reads (k x) bs' y"
  shows "reads (\<lambda>c. rbind (rd c) (\<lambda>(x, c). k x c)) (bs @ bs') y"
proof (rule readsI)
  fix c rest assume a: "at_bytes c ((bs @ bs') @ rest)"
  have "at_bytes (advance (length bs) c) (bs' @ rest)" using at_bytes_advance [of c bs] a by simp
  with readsD [OF assms(1), of c] readsD [OF assms(2)] a
  show "rbind (rd c) (\<lambda>(x, c). k x c) = Inr (y, advance (length (bs @ bs')) c)" by simp
qed

lemma reads_return: "reads (\<lambda>c. Inr (x, c)) [] x"
  by (simp add: reads_def)

lemma reads_result: "x = y \<Longrightarrow> reads (\<lambda>c. Inr (x, c)) [] y"
  by (simp add: reads_return)

lemma reads_map: "reads rd bs x \<Longrightarrow> reads (\<lambda>c. rbind (rd c) (\<lambda>(x, c). Inr (f x, c))) bs (f x)"
  using reads_bind [of rd bs x "\<lambda>x c. Inr (f x, c)" "[]" "f x", OF _ reads_return] by simp

lemma reads_take: "n = length bs \<Longrightarrow> reads (cursor_take n) bs bs"
proof (rule readsI)
  fix c rest assume n: "n = length bs" and a: "at_bytes c (bs @ rest)"
  then have "length (cu_bytes c) - cu_position c = length bs + length rest"
    unfolding at_bytes_def by (metis length_append length_drop)
  with a n show "cursor_take n c = Inr (bs, advance (length bs) c)"
    by (auto simp: cursor_take_def Let_def at_bytes_def advance_def)
qed

lemma reads_byte: "reads cursor_byte [b] b"
  using reads_bind [OF reads_take [of 1 "[b]"], of "\<lambda>bs c. rbind (byte_at bs 0) (\<lambda>b. Inr (b, c))" "[]" b]
  by (simp add: cursor_byte_def [abs_def] reads_def byte_at_def)

lemma reads_u32: "n < 2 ^ 32 \<Longrightarrow> reads cursor_u32 (be_bytes 4 (of_nat n :: u32)) (of_nat n)"
  using reads_map [OF reads_take [of 4 "be_bytes 4 (of_nat n :: u32)"], of "be_word :: bytes \<Rightarrow> u32"]
  by (simp add: cursor_u32_def [abs_def] be_word_be_bytes)

lemma reads_i64: "- (2 ^ 63) \<le> i \<Longrightarrow> i < 2 ^ 63 \<Longrightarrow> reads cursor_i64 (i64_bytes i) i"
proof -
  assume i: "- (2 ^ 63) \<le> i" "i < 2 ^ 63"
  have "sint (word_of_int i :: u64) = i"
    using i by (simp add: sint_sbintrunc' signed_take_bit_int_eq_self)
  then show ?thesis
    using reads_map [OF reads_take [of 8 "i64_bytes i"], of "\<lambda>bs. sint (be_word bs :: u64)"]
    by (simp add: cursor_i64_def [abs_def] be_word_be_bytes i64_bytes_def)
qed

lemma reads_bytes: "put_bytes bs = Inr out \<Longrightarrow> reads cursor_bytes out bs"
proof -
  assume "put_bytes bs = Inr out"
  then have n: "length bs < 2 ^ 32" and out: "out = be_bytes 4 (of_nat (length bs) :: u32) @ bs"
    by (auto simp: put_bytes_def put_u32_def split: if_splits)
  have "unat (of_nat (length bs) :: u32) = length bs" using n by (simp add: unat_of_nat)
  then have "reads (cursor_take (unat (of_nat (length bs) :: u32))) bs bs" by (intro reads_take) simp
  from reads_bind [OF reads_u32 [OF n], of "\<lambda>n. cursor_take (unat n)", OF this] show ?thesis
    by (simp add: cursor_bytes_def [abs_def] out)
qed

subsection \<open>Codecs\<close>

locale cursor_codec =
  fixes enc :: "'a \<Rightarrow> bytes lres" and rd :: "cursor \<Rightarrow> ('a \<times> cursor) lres" and ok :: "'a \<Rightarrow> bool"
  assumes reads_enc: "ok x \<Longrightarrow> enc x = Inr bs \<Longrightarrow> reads rd bs x"
begin

lemma reads_repeat:
  assumes "\<forall>x \<in> set xs. ok x" and "rmap enc xs = Inr bss"
  shows "reads (cursor_repeat rd (length xs)) (concat bss) xs"
  using assms
proof (induction xs arbitrary: bss)
  case Nil
  then show ?case by (simp add: reads_return)
next
  case (Cons x xs)
  from Cons.prems(2) obtain b bs where b: "enc x = Inr b" "rmap enc xs = Inr bs" "bss = b # bs" by auto
  have "reads (\<lambda>c. rbind (cursor_repeat rd (length xs) c) (\<lambda>(xs, c). Inr (x # xs, c))) (concat bs) (x # xs)"
    using Cons b by (intro reads_map) simp
  from reads_bind [OF reads_enc [OF _ b(1)], of "\<lambda>x c. rbind (cursor_repeat rd (length xs) c) (\<lambda>(xs, c). Inr (x # xs, c))", OF _ this]
  show ?case using Cons.prems(1) by (simp add: b(3))
qed

text \<open>A counted sequence: the number of elements, then the elements.\<close>

lemma reads_counted:
  assumes "\<forall>x \<in> set xs. ok x" and "rmap enc xs = Inr bss" and "put_u32 (length xs) = Inr len"
  shows "reads (\<lambda>c. rbind (cursor_u32 c) (\<lambda>(n, c). cursor_repeat rd (unat n) c)) (len @ concat bss) xs"
proof -
  have n: "length xs < 2 ^ 32" and len: "len = be_bytes 4 (of_nat (length xs) :: u32)"
    using assms(3) by (auto simp: put_u32_def split: if_splits)
  have "unat (of_nat (length xs) :: u32) = length xs" using n by (simp add: unat_of_nat)
  then have "reads (cursor_repeat rd (unat (of_nat (length xs) :: u32))) (concat bss) xs"
    using reads_repeat [OF assms(1,2)] by simp
  from reads_bind [OF reads_u32 [OF n], of "\<lambda>n. cursor_repeat rd (unat n)", OF this] show ?thesis
    by (simp add: len)
qed

end

definition string_ok :: "string \<Rightarrow> bool" where
  "string_ok s \<longleftrightarrow> valid_utf8 (bytes_of s)"

interpretation text_codec: cursor_codec put_string cursor_string string_ok
proof
  fix s bs assume s: "string_ok s" and "put_string s = Inr bs"
  then have r: "reads cursor_bytes bs (bytes_of s)" by (intro reads_bytes) (simp add: put_string_def)
  have "reads (\<lambda>c. if valid_utf8 (bytes_of s) then Inr (string_of (bytes_of s), c) else Inl (Fail InvalidUtf8)) [] s"
    using s by (simp add: string_ok_def reads_return)
  from reads_bind [OF r, of "\<lambda>bs c. if valid_utf8 bs then Inr (string_of bs, c) else Inl (Fail InvalidUtf8)", OF this]
  show "reads cursor_string bs s" by (simp add: cursor_string_def [abs_def])
qed

subsection \<open>Values\<close>

fun value_ok :: "val \<Rightarrow> bool" where
  "value_ok (VString s) = string_ok s"
| "value_ok (VArray vs) = (\<forall>v \<in> set vs. value_ok v)"
| "value_ok (VObject m) = (bt_wf m \<and> (\<forall>kv \<in> set m. string_ok (fst kv) \<and> value_ok (snd kv)))"
| "value_ok _ = True"

definition encode_entry :: "string \<times> val \<Rightarrow> bytes lres" where
  "encode_entry kv = rbind (put_string (fst kv)) (\<lambda>k. rbind (encode_value (snd kv)) (\<lambda>v. Inr (k @ v)))"

lemma encode_values_rmap: "encode_values vs = rbind (rmap encode_value vs) (\<lambda>bss. Inr (concat bss))"
  by (induction vs) (simp_all add: rbind_assoc)

lemma encode_fields_rmap: "encode_fields m = rbind (rmap encode_entry m) (\<lambda>bss. Inr (concat bss))"
  by (induction m) (auto simp: encode_entry_def rbind_assoc)

text \<open>The values whose encoding fits into \<open>n\<close> bytes; each nesting level takes at least its tag.\<close>

definition fits :: "nat \<Rightarrow> val \<Rightarrow> bool" where
  "fits n v \<longleftrightarrow> value_ok v \<and> (\<forall>bs. encode_value v = Inr bs \<longrightarrow> length bs \<le> n)"

lemma rmap_member_length:
  "rmap f xs = Inr bss \<Longrightarrow> x \<in> set xs \<Longrightarrow> \<exists>bs. f x = Inr bs \<and> length bs \<le> length (concat bss)"
  by (induction xs arbitrary: bss) (force simp: rbind_eq_Inr)+

lemma fits_elem:
  assumes "rmap encode_value vs = Inr bss" and "length (concat bss) \<le> n" and "v \<in> set vs" and "value_ok v"
  shows "fits n v"
  using rmap_member_length [OF assms(1,3)] assms(2,4) by (auto simp: fits_def)

lemma fits_entry:
  assumes "rmap encode_entry m = Inr bss" and "length (concat bss) \<le> n" and "kv \<in> set m" and "value_ok (snd kv)"
  shows "fits n (snd kv)"
  using rmap_member_length [OF assms(1,3)] assms(2,4) by (auto simp: fits_def encode_entry_def rbind_eq_Inr)

lemma collect_map_wf:
  assumes "bt_wf m"
  shows "collect_map m = m"
proof -
  have ins: "bt_insert k v xs = xs @ [(k, v)]" if "\<forall>x \<in> set xs. fst x < k" for k v and xs :: "(string \<times> val) list"
    using that by (induction xs) auto
  have "fold (\<lambda>(k, v). bt_insert k v) m xs = xs @ m"
    if "bt_wf m" "\<forall>x \<in> set xs. \<forall>y \<in> set m. fst x < fst y" for m and xs :: "(string \<times> val) list"
    using that by (induction m arbitrary: xs) (auto simp: ins)
  from this [of m "[]"] assms show ?thesis by (simp add: collect_map_def)
qed

lemma entry_codec:
  assumes "cursor_codec encode_value rd ok"
  shows "cursor_codec encode_entry (cursor_entry rd) (\<lambda>kv. string_ok (fst kv) \<and> ok (snd kv))"
proof
  fix kv bs assume kv: "string_ok (fst kv) \<and> ok (snd kv)" and "encode_entry kv = Inr bs"
  then obtain kb vb where b: "put_string (fst kv) = Inr kb" "encode_value (snd kv) = Inr vb" "bs = kb @ vb"
    by (auto simp: encode_entry_def rbind_eq_Inr)
  have "reads (\<lambda>c. rbind (rd c) (\<lambda>(v, c). Inr ((fst kv, v), c))) vb (fst kv, snd kv)"
    using kv b(2) by (intro reads_map cursor_codec.reads_enc [OF assms]) simp_all
  from reads_bind [OF text_codec.reads_enc [OF _ b(1)], of "\<lambda>k c. rbind (rd c) (\<lambda>(v, c). Inr ((k, v), c))", OF _ this]
  show "reads (cursor_entry rd) bs kv" using kv by (simp add: cursor_entry_def [abs_def] b(3))
qed

text \<open>A value is read as its tag, then its body.\<close>

lemma reads_tagged:
  assumes "reads body bs v" and "\<And>c. cursor_value (Suc fuel) c = rbind (cursor_byte c) (\<lambda>(t, c). k t c)" and "k tag = body"
  shows "reads (cursor_value (Suc fuel)) (tag # bs) v"
proof -
  have "reads (\<lambda>c. rbind (cursor_byte c) (\<lambda>(t, c). k t c)) ([tag] @ bs) v"
    by (rule reads_bind [OF reads_byte]) (simp add: assms)
  then show ?thesis by (simp add: assms(2) [abs_def])
qed

lemmas reads_tag = reads_tagged [OF _ cursor_value.simps(2)]

lemma reads_counted_map:
  assumes "cursor_codec enc rd ok" and "\<forall>x \<in> set xs. ok x" and "rmap enc xs = Inr bss" and "put_u32 (length xs) = Inr len"
  shows "reads (\<lambda>c. rbind (cursor_u32 c) (\<lambda>(n, c). rbind (cursor_repeat rd (unat n) c) (\<lambda>(ys, c). Inr (f ys, c))))
    (len @ concat bss) (f xs)"
proof -
  have eq: "(\<lambda>c. rbind (cursor_u32 c) (\<lambda>(n, c). rbind (cursor_repeat rd (unat n) c) (\<lambda>(ys, c). Inr (f ys, c)))) =
    (\<lambda>c. rbind (rbind (cursor_u32 c) (\<lambda>(n, c). cursor_repeat rd (unat n) c)) (\<lambda>(ys, c). Inr (f ys, c)))"
    by (simp add: rbind_assoc case_prod_unfold)
  show ?thesis unfolding eq by (rule reads_map [OF cursor_codec.reads_counted [OF assms]])
qed

lemma value_codec: "cursor_codec encode_value (cursor_value n) (fits n)"
proof (induction n)
  case 0
  have "encode_value v \<noteq> Inr []" for v
    by (cases v) (auto simp: rbind_eq_Inr)
  then show ?case by unfold_locales (auto simp: fits_def)
next
  case (Suc n)
  show ?case
  proof
    fix v bs assume f: "fits (Suc n) v" and e: "encode_value v = Inr bs"
    then have ok: "value_ok v" and len: "length bs \<le> Suc n" by (auto simp: fits_def)
    show "reads (cursor_value (Suc n)) bs v"
    proof (cases v)
      case VNull
      with e show ?thesis by (auto intro!: reads_tag simp: reads_return)
    next
      case (VBool b)
      have "reads (\<lambda>c. rbind (cursor_byte c) (\<lambda>(b, c). if b = 0 then Inr (VBool False, c)
          else if b = 1 then Inr (VBool True, c) else Inl (Fail (InvalidBoolTag b)))) ([if b then 1 else 0] @ []) (VBool b)"
        by (rule reads_bind [OF reads_byte]) (simp add: reads_return)
      with e VBool show ?thesis by (auto intro!: reads_tag)
    next
      case (VNumber x)
      have "reads (\<lambda>c. rbind (cursor_take 8 c) (\<lambda>(bs, c). Inr (VNumber (be_word bs), c))) (be_bytes 8 x)
          (VNumber (be_word (be_bytes 8 x)))"
        by (rule reads_map [OF reads_take]) simp
      with e VNumber show ?thesis by (auto intro!: reads_tag simp: be_word_be_bytes)
    next
      case (VString s)
      with e ok show ?thesis
        by (auto intro!: reads_tag reads_map text_codec.reads_enc simp: rbind_eq_Inr)
    next
      case (VBytes b)
      with e show ?thesis by (auto intro!: reads_tag reads_map reads_bytes simp: rbind_eq_Inr)
    next
      case (VArray vs)
      with e obtain l bss where b: "put_u32 (length vs) = Inr l" "rmap encode_value vs = Inr bss" "bs = 5 # l @ concat bss"
        by (auto simp: encode_values_rmap rbind_eq_Inr)
      with len have "length (concat bss) \<le> n" by simp
      then have "\<forall>v \<in> set vs. fits n v" using VArray ok fits_elem [OF b(2)] by auto
      from reads_counted_map [OF Suc this b(2,1), of VArray] show ?thesis
        unfolding b(3) VArray by (intro reads_tag) simp_all
    next
      case (VObject m)
      with e obtain l bss where b: "put_u32 (length m) = Inr l" "rmap encode_entry m = Inr bss" "bs = 6 # l @ concat bss"
        by (auto simp: encode_fields_rmap rbind_eq_Inr)
      with len have "length (concat bss) \<le> n" by simp
      then have "\<forall>kv \<in> set m. string_ok (fst kv) \<and> fits n (snd kv)" using VObject ok fits_entry [OF b(2)] by auto
      from reads_counted_map [OF entry_codec [OF Suc] this b(2,1), of "\<lambda>m. VObject (collect_map m)"] show ?thesis
        using ok unfolding b(3) VObject by (intro reads_tag) (simp_all add: collect_map_wf)
    qed
  qed
qed

interpretation vals: cursor_codec encode_value "cursor_value n" "fits n" for n
  by (rule value_codec)

interpretation entries: cursor_codec encode_entry "cursor_entry (cursor_value n)"
  "\<lambda>kv. string_ok (fst kv) \<and> fits n (snd kv)" for n
  by (rule entry_codec [OF value_codec])

subsection \<open>Messages\<close>

definition i64_ok :: "int \<Rightarrow> bool" where
  "i64_ok i \<longleftrightarrow> - (2 ^ 63) \<le> i \<and> i < 2 ^ 63"

definition message_ok :: "message \<Rightarrow> bool" where
  "message_ok m \<longleftrightarrow>
     string_ok (ms_from m) \<and> list_all string_ok (ms_flags m) \<and> string_ok (ms_payload m) \<and>
     i64_ok (ms_seq m) \<and> i64_ok (ms_ack m) \<and> i64_ok (ms_window m) \<and>
     (case ms_stream m of None \<Rightarrow> True | Some s \<Rightarrow> i64_ok s) \<and> value_ok (VObject (ms_fields m))"

lemma reads_i64_ok: "i64_ok i \<Longrightarrow> reads cursor_i64 (i64_bytes i) i"
  by (rule reads_i64) (simp_all add: i64_ok_def)

lemma reads_stream:
  assumes "case s of None \<Rightarrow> True | Some i \<Rightarrow> i64_ok i"
  shows "reads decode_stream (case s of Some i \<Rightarrow> 1 # i64_bytes i | None \<Rightarrow> [0]) s"
proof (cases s)
  case None
  have "reads (\<lambda>c. rbind (cursor_byte c) (\<lambda>(tag, c).
     if tag = 0 then Inr (None, c)
     else if tag = 1 then rbind (cursor_i64 c) (\<lambda>(s, c). Inr (Some s, c))
     else Inl (Fail (InvalidStreamTag tag)))) ([0] @ []) s"
    by (rule reads_bind [OF reads_byte]) (simp add: None reads_return)
  with None show ?thesis by (simp add: decode_stream_def [abs_def])
next
  case (Some i)
  have "reads (\<lambda>c. rbind (cursor_byte c) (\<lambda>(tag, c).
     if tag = 0 then Inr (None, c)
     else if tag = 1 then rbind (cursor_i64 c) (\<lambda>(s, c). Inr (Some s, c))
     else Inl (Fail (InvalidStreamTag tag)))) ([1] @ i64_bytes i) s"
    using Some assms by (intro reads_bind [OF reads_byte]) (simp add: reads_map reads_i64_ok)
  with Some show ?thesis by (simp add: decode_stream_def [abs_def])
qed

text \<open>Everything the decoder does before it checks for trailing bytes.\<close>

definition read_message :: "nat \<Rightarrow> cursor \<Rightarrow> (message \<times> cursor) lres" where
  "read_message fuel c =
     rbind (cursor_string c) (\<lambda>(from, c).
     rbind (rbind (cursor_u32 c) (\<lambda>(n, c). cursor_repeat cursor_string (unat n) c)) (\<lambda>(flags, c).
     rbind (cursor_i64 c) (\<lambda>(seq, c).
     rbind (cursor_i64 c) (\<lambda>(ack, c).
     rbind (cursor_string c) (\<lambda>(txt, c).
     rbind (cursor_bytes c) (\<lambda>(raw, c).
     rbind (cursor_i64 c) (\<lambda>(window, c).
     rbind (decode_stream c) (\<lambda>(stream, c).
     rbind (rbind (cursor_u32 c) (\<lambda>(n, c). cursor_repeat (cursor_entry (cursor_value fuel)) (unat n) c)) (\<lambda>(kvs, c).
     Inr (\<lparr>ms_from = from, ms_flags = flags, ms_seq = seq, ms_ack = ack, ms_payload = txt, ms_raw = raw,
           ms_window = window, ms_stream = stream, ms_fields = collect_map kvs\<rparr>, c))))))))))"

lemma decode_message_read:
  "decode_message bs = rbind (read_message (Suc (length bs)) (cursor_new bs)) (\<lambda>(m, c).
     if \<not> cursor_is_empty c then Inl (Fail TrailingBytes) else Inr m)"
  by (simp add: decode_message_def read_message_def rbind_assoc case_prod_unfold Let_def cong: if_cong)

lemma reads_message:
  assumes ok: "message_ok m" and enc: "encode_message m = Inr bs" and n: "length bs \<le> n"
  shows "reads (read_message n) bs m"
proof -
  from enc obtain a b bss pl r l kvs where parts:
    "put_string (ms_from m) = Inr a" "put_u32 (length (ms_flags m)) = Inr b" "rmap put_string (ms_flags m) = Inr bss"
    "put_string (ms_payload m) = Inr pl" "put_bytes (ms_raw m) = Inr r" "put_u32 (length (ms_fields m)) = Inr l"
    "rmap encode_entry (ms_fields m) = Inr kvs"
    "bs = a @ (b @ concat bss) @ i64_bytes (ms_seq m) @ i64_bytes (ms_ack m) @ pl @ r @ i64_bytes (ms_window m) @
       (case ms_stream m of Some s \<Rightarrow> 1 # i64_bytes s | None \<Rightarrow> [0]) @ (l @ concat kvs) @ []"
    by (auto simp: encode_message_def encode_fields_rmap rbind_eq_Inr)
  have wf: "bt_wf (ms_fields m)" and vals: "\<forall>kv \<in> set (ms_fields m). string_ok (fst kv) \<and> fits n (snd kv)"
    using ok n fits_entry [OF parts(7)] by (auto simp: message_ok_def parts(8))
  have flags: "\<forall>s \<in> set (ms_flags m). string_ok s" using ok by (simp add: message_ok_def list_all_iff)
  have strs: "string_ok (ms_from m)" "string_ok (ms_payload m)" and ints: "i64_ok (ms_seq m)" "i64_ok (ms_ack m)" "i64_ok (ms_window m)"
    and stream: "case ms_stream m of None \<Rightarrow> True | Some s \<Rightarrow> i64_ok s"
    using ok by (simp_all add: message_ok_def)
  show ?thesis
    unfolding parts(8) read_message_def
    by (rule reads_bind [OF text_codec.reads_enc [OF strs(1) parts(1)]],
        rule reads_bind [OF text_codec.reads_counted [OF flags parts(3,2)]],
        rule reads_bind [OF reads_i64_ok [OF ints(1)]], rule reads_bind [OF reads_i64_ok [OF ints(2)]],
        rule reads_bind [OF text_codec.reads_enc [OF strs(2) parts(4)]], rule reads_bind [OF reads_bytes [OF parts(5)]],
        rule reads_bind [OF reads_i64_ok [OF ints(3)]], rule reads_bind [OF reads_stream [OF stream]],
        rule reads_bind [OF entries.reads_counted [OF vals parts(7,6)]], rule reads_result)
      (simp add: collect_map_wf [OF wf])
qed

text \<open>
  C16: the live message format loses nothing. For every message a transport can hold (strings
  are valid UTF-8, the counters are 64-bit integers, maps are keyed), when \<open>encode_message\<close>
  succeeds with bytes \<open>bs\<close>, \<open>decode_message\<close> answers exactly that message, whatever the depth
  of its nested values.
\<close>

theorem live_message_roundtrip:
  assumes "message_ok m" and "encode_message m = Inr bs" and "length bs < 2 ^ 64"
  shows "decode_message bs = Inr m"
proof -
  have "at_bytes (cursor_new bs) (bs @ [])" using assms(3) by (simp add: at_bytes_def cursor_new_def)
  from readsD [OF reads_message [OF assms(1,2)] this, of "Suc (length bs)"] show ?thesis
    by (simp add: decode_message_read cursor_is_empty_def advance_def cursor_new_def)
qed

text \<open>A message with every kind of value, nested; the \<open>\<mu>\<close> of the payload takes two bytes.\<close>

definition sample_message :: message where
  "sample_message =
     \<lparr>ms_from = ''client'', ms_flags = [''SYN'', ''ACK''], ms_seq = -1, ms_ack = 7,
      ms_payload = string_of [0xce, 0xbc], ms_raw = [0, 255], ms_window = 65535, ms_stream = Some 3,
      ms_fields = [(''a'', VArray [VNull, VBool True, VObject [(''n'', VNumber 1)]]), (''b'', VBytes [1, 2])]\<rparr>"

theorem live_message_roundtrip_witness:
  "\<exists>bs. encode_message sample_message = Inr bs \<and> decode_message bs = Inr sample_message"
proof -
  have ok: "message_ok sample_message" by code_simp
  have "\<exists>bs. encode_message sample_message = Inr bs \<and> length bs < 2 ^ 64"
    by (simp add: sample_message_def encode_message_def put_string_def put_bytes_def put_u32_def i64_bytes_def)
  then show ?thesis using live_message_roundtrip [OF ok] by blast
qed

subsection \<open>The decoder is total\<close>

definition left :: "cursor \<Rightarrow> nat" where
  "left c = length (cu_bytes c) - cu_position c"

text \<open>A reader that answers or reports an error of the format on every input of fewer than \<open>n\<close> bytes.\<close>

definition total_below :: "nat \<Rightarrow> (cursor \<Rightarrow> ('a \<times> cursor) lres) \<Rightarrow> bool" where
  "total_below n rd \<longleftrightarrow> (\<forall>c. left c < n \<longrightarrow>
     (case rd c of Inl e \<Rightarrow> e \<noteq> Panic \<and> e \<noteq> Fail OutOfFuel | Inr (_, c') \<Rightarrow> left c' \<le> left c))"

lemma total_return [simp]: "total_below n (\<lambda>c. Inr (x, c))"
  and total_error [simp]: "e \<noteq> OutOfFuel \<Longrightarrow> total_below n (\<lambda>c. Inl (Fail e))"
  by (simp_all add: total_below_def)

lemma total_belowD:
  assumes "total_below n rd" and "left c < n"
  shows "rd c \<noteq> Inl Panic" "rd c \<noteq> Inl (Fail OutOfFuel)" "rd c = Inr (x, c') \<Longrightarrow> left c' \<le> left c"
  using assms unfolding total_below_def by (auto dest!: spec [of _ c])

lemma total_belowI:
  assumes "\<And>c. left c < n \<Longrightarrow> rd c \<noteq> Inl Panic \<and> rd c \<noteq> Inl (Fail OutOfFuel)"
    and "\<And>c x c'. left c < n \<Longrightarrow> rd c = Inr (x, c') \<Longrightarrow> left c' \<le> left c"
  shows "total_below n rd"
  using assms unfolding total_below_def by (auto split: sum.split)

lemma total_bind:
  assumes "total_below n rd" and "\<And>x. total_below n (k x)"
  shows "total_below n (\<lambda>c. rbind (rd c) (\<lambda>(x, c). k x c))"
proof (rule total_belowI)
  fix c assume c: "left c < n"
  show "rbind (rd c) (\<lambda>(x, c). k x c) \<noteq> Inl Panic \<and> rbind (rd c) (\<lambda>(x, c). k x c) \<noteq> Inl (Fail OutOfFuel)"
  proof (cases "rd c")
    case (Inl e)
    then show ?thesis using total_belowD(1,2) [OF assms(1) c] by simp
  next
    case (Inr xc)
    then obtain x c' where xc: "rd c = Inr (x, c')" by (cases xc) simp
    then have "left c' < n" using total_belowD(3) [OF assms(1) c] c by fastforce
    from total_belowD(1,2) [OF assms(2) this, of x] show ?thesis by (simp add: xc)
  qed
next
  fix c y c'' assume c: "left c < n" and "rbind (rd c) (\<lambda>(x, c). k x c) = Inr (y, c'')"
  then obtain x c' where xc: "rd c = Inr (x, c')" "k x c' = Inr (y, c'')" by (auto simp: rbind_eq_Inr)
  from total_belowD(3) [OF assms(1) c xc(1)] have "left c' \<le> left c" .
  with total_belowD(3) [OF assms(2) _ xc(2)] c show "left c'' \<le> left c" by linarith
qed

lemma total_if: "total_below n f \<Longrightarrow> total_below n g \<Longrightarrow> total_below n (\<lambda>c. if b then f c else g c)"
  by (cases b) simp_all

lemma total_take: "total_below n (cursor_take k)"
  by (auto simp: total_below_def cursor_take_def Let_def left_def)

text \<open>Reading the tag leaves strictly fewer bytes.\<close>

lemma byte_progress:
  "left c < n \<Longrightarrow> (case cursor_byte c of Inl e \<Rightarrow> e \<noteq> Panic \<and> e \<noteq> Fail OutOfFuel | Inr (_, c') \<Rightarrow> left c' < left c)"
  by (auto simp: cursor_byte_def cursor_take_def Let_def left_def byte_at_def)

lemma total_byte: "total_below n cursor_byte"
  using byte_progress by (fastforce simp: total_below_def split: sum.splits)

lemma total_u32: "total_below n cursor_u32" and total_i64: "total_below n cursor_i64"
  by (simp_all add: cursor_u32_def [abs_def] cursor_i64_def [abs_def] total_bind total_take)

lemma total_bytes: "total_below n cursor_bytes"
  by (simp add: cursor_bytes_def [abs_def] total_bind total_u32 total_take)

lemma total_string: "total_below n cursor_string"
  by (simp add: cursor_string_def [abs_def] total_bind total_bytes total_if)

lemma total_repeat: "total_below n rd \<Longrightarrow> total_below n (cursor_repeat rd k)"
  by (induction k) (simp_all add: total_bind cursor_repeat.simps [abs_def] cong: option.case_cong)

lemma total_entry: "total_below n rd \<Longrightarrow> total_below n (cursor_entry rd)"
  by (simp add: cursor_entry_def [abs_def] total_bind total_string)

lemma total_tag:
  assumes "\<And>t. total_below n (k t)"
  shows "total_below (Suc n) (\<lambda>c. rbind (cursor_byte c) (\<lambda>(t, c). k t c))"
proof (rule total_belowI)
  fix c assume c: "left c < Suc n"
  show "rbind (cursor_byte c) (\<lambda>(t, c). k t c) \<noteq> Inl Panic \<and> rbind (cursor_byte c) (\<lambda>(t, c). k t c) \<noteq> Inl (Fail OutOfFuel)"
  proof (cases "cursor_byte c")
    case (Inl e)
    then show ?thesis using byte_progress [OF c] by simp
  next
    case (Inr tc)
    then obtain t c' where tc: "cursor_byte c = Inr (t, c')" by (cases tc) simp
    then have "left c' < n" using byte_progress [OF c] c by simp
    from total_belowD(1,2) [OF assms this, of t] show ?thesis by (simp add: tc)
  qed
next
  fix c y c'' assume c: "left c < Suc n" and "rbind (cursor_byte c) (\<lambda>(t, c). k t c) = Inr (y, c'')"
  then obtain t c' where tc: "cursor_byte c = Inr (t, c')" "k t c' = Inr (y, c'')" by (auto simp: rbind_eq_Inr)
  have "left c' < left c" using byte_progress [OF c] tc by simp
  with total_belowD(3) [OF assms _ tc(2)] c show "left c'' \<le> left c" by linarith
qed

lemma total_value: "total_below n (cursor_value n)"
proof (induction n)
  case 0
  show ?case by (simp add: total_below_def)
next
  case (Suc n)
  show ?case
    unfolding cursor_value.simps(2) [abs_def]
    by (rule total_tag) (auto intro!: total_if total_bind total_byte total_take total_string total_bytes total_u32
        total_repeat total_entry Suc)
qed

lemma total_stream: "total_below n decode_stream"
  by (auto intro!: total_if total_bind total_byte total_i64 simp: decode_stream_def [abs_def])

lemma total_message: "total_below n (read_message n)"
  unfolding read_message_def [abs_def]
  by (intro total_bind total_string total_u32 total_repeat total_i64 total_bytes total_stream total_entry total_value total_return)

text \<open>
  decoding a live message is total. On every byte string, however malformed, \<open>decode_message\<close>
  neither indexes out of range nor recurses more often than there are bytes: it answers a
  message, or one of the errors of the format.
\<close>

theorem decode_message_total: "decode_message bs \<noteq> Inl Panic \<and> decode_message bs \<noteq> Inl (Fail OutOfFuel)"
proof -
  have "left (cursor_new bs) < Suc (length bs)" by (simp add: left_def cursor_new_def)
  from total_belowD(1,2) [OF total_message this] show ?thesis
    by (cases "read_message (Suc (length bs)) (cursor_new bs)") (auto simp: decode_message_read split: if_splits)
qed

end
