(* ===== verification/Framing.thy ===== *)
theory Framing
  imports Live_Codec
begin

text \<open>
  Message boundaries on external byte streams (\<open>src/src/transport.rs\<close>): \<open>frame_outbound\<close>,
  \<open>drain_frames\<close> and the loop of \<open>spawn_stream_raw_reader\<close>, which appends what a read returns
  to the pending bytes, drains the complete frames and queues each as a message. A read is an
  event: bytes, end of stream, a timeout, or an error.
\<close>

datatype framing = FrRaw | FrLengthPrefix | FrDelimiter bytes | FrFixed nat

datatype transport_error_kind = KTransport | KResourceLimit

datatype transport_error =
    FrameSize nat nat
  | DelimitedFrame nat
  | InboxFull nat
  | DestinationFull string nat
  | PayloadSize nat nat
  | MtuExceeded nat nat
  | PortsExhausted nat nat
  | LinkDisconnect nat
  | UnknownDestination string
  | NoSocket string
  | SocketFailed string

fun te_kind :: "transport_error \<Rightarrow> transport_error_kind" where
  "te_kind (LinkDisconnect _) = KTransport"
| "te_kind (UnknownDestination _) = KTransport"
| "te_kind (NoSocket _) = KTransport"
| "te_kind (SocketFailed _) = KTransport"
| "te_kind _ = KResourceLimit"

type_synonym 'a tres = "(transport_error, 'a) res"

datatype frame_error = FrameTooLarge | EmptyDelimiter | FixedSize nat nat

definition frame_outbound :: "bytes \<Rightarrow> framing \<Rightarrow> (frame_error, bytes) res" where
  "frame_outbound bs framing =
     (case framing of
        FrRaw \<Rightarrow> Inr bs
      | FrLengthPrefix \<Rightarrow>
          if length bs < 2 ^ 32 then Inr (be_bytes 4 (of_nat (length bs) :: u32) @ bs) else Inl (Fail FrameTooLarge)
      | FrDelimiter delimiter \<Rightarrow> if delimiter = [] then Inl (Fail EmptyDelimiter) else Inr (bs @ delimiter)
      | FrFixed sz \<Rightarrow> if length bs \<noteq> sz then Inl (Fail (FixedSize sz (length bs))) else Inr bs)"

datatype framing_error = EmptyFramingDelimiter | InvalidFixedFraming string | ZeroFixedFraming | UnknownFraming string

text \<open>The command line's \<open>parse_framing\<close> (\<open>src/src/main.rs\<close>).\<close>

definition parse_framing :: "string \<Rightarrow> (framing_error, framing) res" where
  "parse_framing spec =
     (if spec = ''raw'' then Inr FrRaw
      else if spec = ''length'' \<or> spec = ''length-prefix'' then Inr FrLengthPrefix
      else if spec = ''line'' then Inr (FrDelimiter [10])
      else if prefix ''delimiter:'' spec then
        (let delimiter = drop (length ''delimiter:'') spec in
         if delimiter = [] then Inl (Fail EmptyFramingDelimiter) else Inr (FrDelimiter (bytes_of delimiter)))
      else if prefix ''fixed:'' spec then
        (case parse_usize (drop (length ''fixed:'') spec) of
           None \<Rightarrow> Inl (Fail (InvalidFixedFraming spec))
         | Some sz \<Rightarrow> if sz = 0 then Inl (Fail ZeroFixedFraming) else Inr (FrFixed sz))
      else Inl (Fail (UnknownFraming spec)))"

text \<open>\<open>pending.windows(n).position(|window| window == delimiter)\<close>, for \<open>n > 0\<close>.\<close>

fun find_window :: "bytes \<Rightarrow> bytes \<Rightarrow> nat option" where
  "find_window d bs =
     (if length bs < length d then None
      else if take (length d) bs = d then Some 0
      else case bs of [] \<Rightarrow> None | _ # rest \<Rightarrow> map_option Suc (find_window d rest))"

declare find_window.simps [simp del]

text \<open>One round of the loop: the next frame and what stays pending, or no frame.\<close>

definition next_frame :: "framing \<Rightarrow> nat \<Rightarrow> bytes \<Rightarrow> (bytes \<times> bytes) option tres" where
  "next_frame framing max_payload pending =
     (case framing of
        FrRaw \<Rightarrow> Inr (if pending = [] then None else Some (pending, []))
      | FrLengthPrefix \<Rightarrow>
          if length pending < 4 then Inr None
          else let n = unat (be_word (take 4 pending) :: u32) in
            if n > max_payload then Inl (Fail (FrameSize n max_payload))
            else if length pending < n + 4 then Inr None
            else Inr (Some (take n (drop 4 pending), drop (4 + n) pending))
      | FrDelimiter delimiter \<Rightarrow>
          if delimiter = [] then Inl Panic
          else (case find_window delimiter pending of
              Some p \<Rightarrow> Inr (Some (take p pending, drop (p + length delimiter) pending))
            | None \<Rightarrow>
                if length pending > min (max_payload + length delimiter) (2 ^ 64 - 1)
                then Inl (Fail (DelimitedFrame max_payload))
                else Inr None)
      | FrFixed sz \<Rightarrow>
          Inr (if sz > 0 \<and> length pending \<ge> sz then Some (take sz pending, drop sz pending) else None))"

lemma find_window_bound: "find_window d bs = Some p \<Longrightarrow> p + length d \<le> length bs"
proof (induction bs arbitrary: p)
  case Nil
  then show ?case by (subst (asm) find_window.simps) (auto split: if_splits)
next
  case (Cons b bs)
  then show ?case by (subst (asm) (2) find_window.simps) (auto split: if_splits)
qed

lemma next_frame_shrinks:
  "next_frame framing mx pending = Inr (Some (f, rest)) \<Longrightarrow> length rest < length pending"
  by (auto simp: next_frame_def Let_def neq_Nil_conv split: framing.splits if_splits option.splits dest!: find_window_bound)

text \<open>\<open>drain_frames\<close>: the frames, and the bytes left pending.\<close>

function drain_frames :: "framing \<Rightarrow> nat \<Rightarrow> bytes \<Rightarrow> (bytes list \<times> bytes) tres" where
  "drain_frames framing max_payload pending =
     (case next_frame framing max_payload pending of
        Inl e \<Rightarrow> Inl e
      | Inr None \<Rightarrow> Inr ([], pending)
      | Inr (Some (frame, rest)) \<Rightarrow>
          rbind (drain_frames framing max_payload rest) (\<lambda>(frames, pending'). Inr (frame # frames, pending')))"
  by pat_completeness auto
termination
  by (relation "measure (\<lambda>(_, _, pending). length pending)") (auto dest: next_frame_shrinks)

declare drain_frames.simps [simp del]

subsection \<open>Lossy text\<close>

definition second_ok :: "byte \<Rightarrow> byte \<Rightarrow> bool" where
  "second_ok b c =
     (if b = 0xe0 then 0xa0 \<le> c \<and> c \<le> 0xbf
      else if b = 0xed then 0x80 \<le> c \<and> c \<le> 0x9f
      else if b = 0xf0 then 0x90 \<le> c \<and> c \<le> 0xbf
      else if b = 0xf4 then 0x80 \<le> c \<and> c \<le> 0x8f
      else is_cont c)"

definition byte_or_zero :: "bytes \<Rightarrow> nat \<Rightarrow> byte" where
  "byte_or_zero bs i = (if i < length bs then bs ! i else 0)"

text \<open>
  The first character of \<open>bs\<close> when it is well formed, or else the length of its longest prefix
  that could start one (at least 1), which \<open>from_utf8_lossy\<close> replaces by one U+FFFD.
\<close>

definition utf8_chunk :: "bytes \<Rightarrow> bool \<times> nat" where
  "utf8_chunk bs =
     (let b = byte_or_zero bs 0; c = byte_or_zero bs 1; d = byte_or_zero bs 2; e = byte_or_zero bs 3 in
      if b < 0x80 then (True, 1)
      else if 0xc2 \<le> b \<and> b \<le> 0xdf then (if is_cont c then (True, 2) else (False, 1))
      else if 0xe0 \<le> b \<and> b \<le> 0xef then
        (if \<not> second_ok b c then (False, 1) else if \<not> is_cont d then (False, 2) else (True, 3))
      else if 0xf0 \<le> b \<and> b \<le> 0xf4 then
        (if \<not> second_ok b c then (False, 1) else if \<not> is_cont d then (False, 2)
         else if \<not> is_cont e then (False, 3) else (True, 4))
      else (False, 1))"

lemma utf8_chunk_pos: "0 < snd (utf8_chunk bs)"
  by (simp add: utf8_chunk_def Let_def)

function from_utf8_lossy :: "bytes \<Rightarrow> bytes" where
  "from_utf8_lossy bs =
     (if bs = [] then []
      else let (good, n) = utf8_chunk bs in
        (if good then take n bs else [0xef, 0xbf, 0xbd]) @ from_utf8_lossy (drop n bs))"
  by pat_completeness auto
termination
proof (relation "measure length", simp)
  fix bs :: bytes and x y n
  assume "bs \<noteq> []" "x = utf8_chunk bs" "(y, n) = x"
  then show "(drop n bs, bs) \<in> measure length" using utf8_chunk_pos [of bs] by (cases "utf8_chunk bs") (auto simp: neq_Nil_conv)
qed

declare from_utf8_lossy.simps [simp del]

subsection \<open>Queues and the reader\<close>

definition push_message_limited :: "message list \<Rightarrow> message \<Rightarrow> u64 option \<Rightarrow> nat \<Rightarrow> message list tres" where
  "push_message_limited q msg reorder_value max_inbox =
     (if length q \<ge> max_inbox then Inl (Fail (InboxFull max_inbox))
      else case reorder_value of
          Some random \<Rightarrow>
            if q = [] then Inr (q @ [msg])
            else let p = unat random mod (length q + 1) in
              if p = length q then Inr (q @ [msg]) else Inr (take p q @ msg # drop p q)
        | None \<Rightarrow> Inr (q @ [msg]))"

definition raw_message :: "string \<Rightarrow> bytes \<Rightarrow> message" where
  "raw_message peer_role raw =
     \<lparr>ms_from = peer_role, ms_flags = [], ms_seq = 0, ms_ack = 0, ms_payload = string_of (from_utf8_lossy raw),
      ms_raw = raw, ms_window = 0, ms_stream = None, ms_fields = []\<rparr>"

definition push_raw_message :: "message list \<Rightarrow> string \<Rightarrow> bytes \<Rightarrow> nat \<Rightarrow> message list tres" where
  "push_raw_message q peer_role raw max_inbox = push_message_limited q (raw_message peer_role raw) None max_inbox"

record external_reader =
  er_peer_role :: string
  er_max_payload :: nat
  er_max_inbox :: nat
  er_framing :: framing

text \<open>The reader thread: what it shares with the transport, its pending bytes, and how it stands.\<close>

datatype thread_status = Running | Returned | Panicked

record reader_state =
  rs_inbox :: "message list"
  rs_alive :: bool
  rs_errors :: "transport_error list"
  rs_pending :: bytes
  rs_status :: thread_status

definition record_worker_error :: "transport_error \<Rightarrow> reader_state \<Rightarrow> reader_state" where
  "record_worker_error e s = (if rs_alive s then s\<lparr>rs_errors := rs_errors s @ [e]\<rparr> else s)"

definition thread_failed :: "transport_error fault \<Rightarrow> reader_state \<Rightarrow> reader_state" where
  "thread_failed f s =
     (case f of
        Fail e \<Rightarrow> (record_worker_error e s)\<lparr>rs_status := Returned\<rparr>
      | Panic \<Rightarrow> s\<lparr>rs_status := Panicked\<rparr>)"

text \<open>\<open>for raw in frames { if let Err(error) = push_raw_message(..) { record; return } }\<close>.\<close>

fun push_frames :: "external_reader \<Rightarrow> bytes list \<Rightarrow> reader_state \<Rightarrow> reader_state" where
  "push_frames r [] s = s"
| "push_frames r (raw # frames) s =
     (case push_raw_message (rs_inbox s) (er_peer_role r) raw (er_max_inbox r) of
        Inr q \<Rightarrow> push_frames r frames (s\<lparr>rs_inbox := q\<rparr>)
      | Inl f \<Rightarrow> thread_failed f s)"

datatype read_event = ReadBytes bytes | ReadTimeout | ReadError

definition read_bytes :: "external_reader \<Rightarrow> bytes \<Rightarrow> reader_state \<Rightarrow> reader_state" where
  "read_bytes r bs s =
     (case drain_frames (er_framing r) (er_max_payload r) (rs_pending s @ bs) of
        Inl f \<Rightarrow> thread_failed f s
      | Inr (frames, pending) \<Rightarrow> push_frames r frames (s\<lparr>rs_pending := pending\<rparr>))"

text \<open>After the loop: what is left of an unframed stream is one more message.\<close>

definition flush_raw :: "external_reader \<Rightarrow> reader_state \<Rightarrow> reader_state" where
  "flush_raw r s =
     (if er_framing r = FrRaw \<and> rs_pending s \<noteq> []
      then (case push_raw_message (rs_inbox s) (er_peer_role r) (rs_pending s) (er_max_inbox r) of
          Inr q \<Rightarrow> s\<lparr>rs_inbox := q, rs_status := Returned\<rparr>
        | Inl f \<Rightarrow> thread_failed f s)
      else s\<lparr>rs_status := Returned\<rparr>)"

text \<open>One iteration of \<open>while alive\<close> of \<open>spawn_stream_raw_reader\<close>.\<close>

definition stream_reader_step :: "external_reader \<Rightarrow> reader_state \<Rightarrow> read_event \<Rightarrow> reader_state" where
  "stream_reader_step r s ev =
     (if rs_status s \<noteq> Running then s
      else if \<not> rs_alive s then flush_raw r s
      else case ev of
          ReadBytes bs \<Rightarrow> if bs = [] then flush_raw r s else read_bytes r bs s
        | ReadTimeout \<Rightarrow> s
        | ReadError \<Rightarrow> flush_raw r s)"

text \<open>The same of \<open>spawn_tls_reader\<close>, which does not flush.\<close>

definition tls_reader_step :: "external_reader \<Rightarrow> reader_state \<Rightarrow> read_event \<Rightarrow> reader_state" where
  "tls_reader_step r s ev =
     (if rs_status s \<noteq> Running then s
      else if \<not> rs_alive s then s\<lparr>rs_status := Returned\<rparr>
      else case ev of
          ReadBytes bs \<Rightarrow> if bs = [] then s\<lparr>rs_status := Returned\<rparr> else read_bytes r bs s
        | ReadTimeout \<Rightarrow> s
        | ReadError \<Rightarrow> s\<lparr>rs_status := Returned\<rparr>)"

definition start_reader :: "message list \<Rightarrow> reader_state" where
  "start_reader q = \<lparr>rs_inbox = q, rs_alive = True, rs_errors = [], rs_pending = [], rs_status = Running\<rparr>"

definition run_reader :: "(reader_state \<Rightarrow> read_event \<Rightarrow> reader_state) \<Rightarrow> read_event list \<Rightarrow> reader_state \<Rightarrow> reader_state" where
  "run_reader step evs s = foldl step s evs"

end
