(* ===== verification/Framing_Correct.thy ===== *)
theory Framing_Correct
  imports Framing
begin

text \<open>
  Framed streams: whatever the pieces in which a stream arrives, the reader queues exactly the
  frames that were sent, in order. What a framing has to promise for that is a locale, and
  each of the three framings that mark boundaries is an instance. An unframed stream keeps
  only the bytes. Limits: which frames \<open>max_payload\<close> bounds, and which it does not.
\<close>

subsection \<open>The delimiter search\<close>

lemma find_window_append: "d \<noteq> [] \<Longrightarrow> find_window d a = Some i \<Longrightarrow> find_window d (a @ b) = Some i"
proof (induction a arbitrary: i)
  case Nil
  then show ?case by (subst (asm) find_window.simps) (auto split: if_splits)
next
  case (Cons x a)
  show ?case
  proof (cases "take (length d) (x # a) = d \<and> length d \<le> length (x # a)")
    case True
    then have "take (length d) ((x # a) @ b) = d" by (metis append_Nil2 diff_is_0_eq take0 take_append)
    with True Cons.prems show ?thesis
      by (subst (asm) find_window.simps, subst find_window.simps) (auto split: if_splits)
  next
    case False
    with Cons.prems obtain j where j: "length d \<le> length (x # a)" "find_window d a = Some j" "i = Suc j"
      by (subst (asm) (2) find_window.simps) (auto split: if_splits)
    then have "take (length d) ((x # a) @ b) \<noteq> d" using False by (simp only: take_append) simp
    with j Cons.IH [OF Cons.prems(1) j(2)] show ?thesis
      by (subst find_window.simps) auto
  qed
qed

lemma find_window_proper_prefix:
  assumes "d \<noteq> []" and "find_window d (a @ b) = Some i" and "length a < i + length d"
  shows "find_window d a = None"
proof (rule ccontr)
  assume "find_window d a \<noteq> None"
  then obtain j where j: "find_window d a = Some j" by auto
  from find_window_append [OF assms(1) this] assms(2) have "j = i" by simp
  with find_window_bound [OF j] assms(3) show False by simp
qed

text \<open>What is left pending holds no further frame.\<close>

lemma drain_frames_done: "drain_frames fr mx p = Inr (fs, rest) \<Longrightarrow> next_frame fr mx rest = Inr None"
proof (induction fr mx p arbitrary: fs rule: drain_frames.induct)
  case (1 fr mx p)
  from "1.prems" show ?case
  proof (cases "next_frame fr mx p")
    case (Inr out)
    show ?thesis
    proof (cases out)
      case None
      with Inr "1.prems" show ?thesis by (subst (asm) drain_frames.simps) simp
    next
      case (Some fp)
      then obtain f p' where fp: "out = Some (f, p')" by (cases fp) simp
      with Inr "1.prems" obtain gs where "drain_frames fr mx p' = Inr (gs, rest)"
        by (subst (asm) drain_frames.simps) (auto simp: rbind_eq_Inr)
      with "1.IH" Inr fp show ?thesis by blast
    qed
  qed (simp add: drain_frames.simps)
qed

subsection \<open>What a framing promises\<close>

locale stream_framing =
  fixes fr :: framing and mx :: nat and ok :: "bytes \<Rightarrow> bool"
  assumes sends: "ok p \<Longrightarrow> \<exists>bs. frame_outbound p fr = Inr bs"
    and whole: "ok p \<Longrightarrow> frame_outbound p fr = Inr bs \<Longrightarrow> next_frame fr mx (bs @ rest) = Inr (Some (p, rest))"
    and partial: "ok p \<Longrightarrow> frame_outbound p fr = Inr (a @ b) \<Longrightarrow> b \<noteq> [] \<Longrightarrow> next_frame fr mx a = Inr None"
    and idle: "next_frame fr mx [] = Inr None"
begin

lemma drain_part:
  assumes "list_all ok ps" and "rmap (\<lambda>p. frame_outbound p fr) ps = Inr bss" and "a @ rest = concat bss"
  shows "\<exists>k a' bss'. drain_frames fr mx a = Inr (take k ps, a') \<and>
    rmap (\<lambda>p. frame_outbound p fr) (drop k ps) = Inr bss' \<and> a' @ rest = concat bss'"
  using assms
proof (induction ps arbitrary: a bss)
  case Nil
  then have "drain_frames fr mx a = Inr ([], a)" by (simp add: drain_frames.simps idle)
  with Nil show ?case by auto
next
  case (Cons p ps)
  from Cons.prems obtain b bs where b: "frame_outbound p fr = Inr b" "rmap (\<lambda>p. frame_outbound p fr) ps = Inr bs" "bss = b # bs"
    by (auto simp: rbind_eq_Inr)
  then have eq: "a @ rest = b @ concat bs" using Cons.prems(3) by simp
  show ?case
  proof (cases "length b \<le> length a")
    case True
    with eq obtain a2 where a2: "a = b @ a2" "a2 @ rest = concat bs" by (auto simp: append_eq_append_conv2)
    from Cons.IH [OF _ b(2) a2(2)] Cons.prems(1) obtain k a' bss' where
      IH: "drain_frames fr mx a2 = Inr (take k ps, a')" "rmap (\<lambda>p. frame_outbound p fr) (drop k ps) = Inr bss'" "a' @ rest = concat bss'"
      by auto
    have "next_frame fr mx a = Inr (Some (p, a2))" using whole [OF _ b(1)] Cons.prems(1) a2(1) by simp
    then have "drain_frames fr mx a = Inr (take (Suc k) (p # ps), a')" by (simp add: drain_frames.simps [of fr mx a] IH(1))
    with IH show ?thesis by (intro exI [of _ "Suc k"]) auto
  next
    case False
    with eq obtain c where c: "b = a @ c" "c \<noteq> []" by (auto simp: append_eq_append_conv2)
    then have "next_frame fr mx a = Inr None" using partial [of p a c] b(1) Cons.prems(1) by simp
    then have "drain_frames fr mx a = Inr ([], a)" by (simp add: drain_frames.simps)
    with Cons.prems(2,3) show ?thesis by (intro exI [of _ 0]) auto
  qed
qed

end

text \<open>Queueing frames in order, while the inbox has room.\<close>

lemma push_frames_room:
  "length (rs_inbox s) + length fs \<le> er_max_inbox r \<Longrightarrow>
   push_frames r fs s = s\<lparr>rs_inbox := rs_inbox s @ map (raw_message (er_peer_role r)) fs\<rparr>"
  by (induction fs arbitrary: s) (simp_all add: push_raw_message_def push_message_limited_def)

context stream_framing
begin

lemma read_chunks:
  assumes fr: "er_framing r = fr" "er_max_payload r = mx"
    and "list_all ok ps" and "rmap (\<lambda>p. frame_outbound p fr) ps = Inr bss"
    and "rs_pending s @ concat chunks = concat bss" and "\<forall>c \<in> set chunks. c \<noteq> []"
    and "rs_status s = Running" "rs_alive s" and "length (rs_inbox s) + length ps \<le> er_max_inbox r"
    and "next_frame fr mx (rs_pending s) = Inr None"
  shows "run_reader (stream_reader_step r) (map ReadBytes chunks) s =
    s\<lparr>rs_inbox := rs_inbox s @ map (raw_message (er_peer_role r)) ps, rs_pending := []\<rparr>"
  using assms(3-)
proof (induction chunks arbitrary: s ps bss)
  case Nil
  have "ps = []"
  proof (rule ccontr)
    assume "ps \<noteq> []"
    then obtain p ps' where p: "ps = p # ps'" by (cases ps) auto
    with Nil obtain b bs where b: "frame_outbound p fr = Inr b" "rs_pending s = b @ concat bs" by (auto simp: rbind_eq_Inr)
    from whole [OF _ b(1), of "concat bs"] p Nil b(2) show False by simp
  qed
  with Nil show ?case by (simp add: run_reader_def)
next
  case (Cons c cs)
  have "(rs_pending s @ c) @ concat cs = concat bss" using Cons.prems by simp
  from drain_part [OF Cons.prems(1,2) this] obtain k a' bss' where
    d: "drain_frames fr mx (rs_pending s @ c) = Inr (take k ps, a')"
      "rmap (\<lambda>p. frame_outbound p fr) (drop k ps) = Inr bss'" "a' @ concat cs = concat bss'"
    by blast
  let ?s = "s\<lparr>rs_inbox := rs_inbox s @ map (raw_message (er_peer_role r)) (take k ps), rs_pending := a'\<rparr>"
  have step: "stream_reader_step r s (ReadBytes c) = ?s"
    using Cons.prems d(1) fr by (auto simp: stream_reader_step_def read_bytes_def push_frames_room)
  have "list_all ok (drop k ps)" using Cons.prems(1) by (auto simp: list_all_iff dest: in_set_dropD)
  moreover have "next_frame fr mx a' = Inr None" by (rule drain_frames_done [OF d(1)])
  moreover have "length (take k ps) + length (drop k ps) = length ps" by (metis append_take_drop_id length_append)
  ultimately have "run_reader (stream_reader_step r) (map ReadBytes cs) ?s =
    ?s\<lparr>rs_inbox := rs_inbox ?s @ map (raw_message (er_peer_role r)) (drop k ps), rs_pending := []\<rparr>"
    using Cons.prems d by (intro Cons.IH) auto
  moreover have "map (raw_message (er_peer_role r)) (take k ps) @ map (raw_message (er_peer_role r)) (drop k ps) =
      map (raw_message (er_peer_role r)) ps"
    by (metis append_take_drop_id map_append)
  ultimately show ?case by (simp add: run_reader_def step)
qed

end

subsection \<open>The three framings with boundaries\<close>

lemma be_word_prefix [simp]: "be_word (be_bytes 4 (of_nat n :: u32)) = (of_nat n :: u32)"
  by (simp add: be_word_be_bytes)

interpretation length_prefix: stream_framing FrLengthPrefix mx "\<lambda>p. length p \<le> mx \<and> length p < 2 ^ 32" for mx
proof
  fix p a b assume p: "length p \<le> mx \<and> length p < 2 ^ 32" and f: "frame_outbound p FrLengthPrefix = Inr (a @ b)" and b: "b \<noteq> []"
  let ?len = "be_bytes 4 (of_nat (length p) :: u32)"
  from p f have ab: "a @ b = ?len @ p" by (simp add: frame_outbound_def)
  then have len: "length a + length b = 4 + length p" by (metis length_append length_be_bytes)
  show "next_frame FrLengthPrefix mx a = Inr None"
  proof (cases "length a < 4")
    case False
    then have "take 4 a = ?len"
      using arg_cong [OF ab, of "take 4"] by simp
    then show ?thesis using False len b p by (simp add: next_frame_def Let_def unat_of_nat neq_Nil_conv) auto
  qed (simp add: next_frame_def)
qed (auto simp: frame_outbound_def next_frame_def Let_def unat_of_nat)

interpretation delimited: stream_framing "FrDelimiter (x # d)" mx
  "\<lambda>p. find_window (x # d) (p @ x # d) = Some (length p) \<and> length p \<le> mx \<and> length p + length (x # d) < 2 ^ 64" for x d mx
proof
  fix p a b
  assume p: "find_window (x # d) (p @ x # d) = Some (length p) \<and> length p \<le> mx \<and> length p + length (x # d) < 2 ^ 64"
    and f: "frame_outbound p (FrDelimiter (x # d)) = Inr (a @ b)" and b: "b \<noteq> []"
  from f have ab: "a @ b = p @ x # d" by (simp add: frame_outbound_def)
  from arg_cong [OF this, of length] b have len: "length a < length p + length (x # d)" by (cases b) auto
  have "find_window (x # d) a = None"
    by (rule find_window_proper_prefix [of _ _ b "length p"]) (use p ab len in auto)
  then show "next_frame (FrDelimiter (x # d)) mx a = Inr None" using len p by (simp add: next_frame_def min_def)
next
  fix p bs rest
  assume p: "find_window (x # d) (p @ x # d) = Some (length p) \<and> length p \<le> mx \<and> length p + length (x # d) < 2 ^ 64"
    and f: "frame_outbound p (FrDelimiter (x # d)) = Inr bs"
  then show "next_frame (FrDelimiter (x # d)) mx (bs @ rest) = Inr (Some (p, rest))"
    using find_window_append [of "x # d" "p @ x # d" "length p" rest] by (auto simp: frame_outbound_def next_frame_def)
next
  show "next_frame (FrDelimiter (x # d)) mx [] = Inr None" by (simp add: next_frame_def find_window.simps)
qed (auto simp: frame_outbound_def)

interpretation fixed: stream_framing "FrFixed (Suc n)" mx "\<lambda>p. length p = Suc n" for n mx
  by unfold_locales (auto simp: frame_outbound_def next_frame_def neq_Nil_conv)

text \<open>The payloads a framing carries.\<close>

fun frame_ok :: "framing \<Rightarrow> nat \<Rightarrow> bytes \<Rightarrow> bool" where
  "frame_ok FrRaw mx p = False"
| "frame_ok FrLengthPrefix mx p = (length p \<le> mx \<and> length p < 2 ^ 32)"
| "frame_ok (FrDelimiter d) mx p =
     (d \<noteq> [] \<and> find_window d (p @ d) = Some (length p) \<and> length p \<le> mx \<and> length p + length d < 2 ^ 64)"
| "frame_ok (FrFixed n) mx p = (n > 0 \<and> length p = n)"

definition usable_framing :: "framing \<Rightarrow> bool" where
  "usable_framing fr \<longleftrightarrow> fr \<noteq> FrRaw \<and> fr \<noteq> FrDelimiter [] \<and> fr \<noteq> FrFixed 0"

lemma usable_stream_framing:
  assumes "usable_framing fr"
  shows "stream_framing fr mx (frame_ok fr mx)"
proof (cases fr)
  case FrLengthPrefix
  with length_prefix.stream_framing_axioms [of mx] show ?thesis by (simp add: frame_ok.simps [abs_def])
next
  case (FrDelimiter d)
  with assms obtain x ds where "d = x # ds" by (auto simp: usable_framing_def neq_Nil_conv)
  with FrDelimiter delimited.stream_framing_axioms [of x ds mx] show ?thesis by (simp add: frame_ok.simps [abs_def])
next
  case (FrFixed n)
  with assms obtain k where "n = Suc k" by (cases n) (auto simp: usable_framing_def)
  with FrFixed fixed.stream_framing_axioms [of k mx] show ?thesis by (simp add: frame_ok.simps [abs_def])
qed (use assms in \<open>simp add: usable_framing_def\<close>)

text \<open>
  C15: a framed stream delivers what was sent, in whatever pieces it arrives. Let payloads \<open>ps\<close>
  that the framing carries be framed with \<open>frame_outbound\<close> and written one after the other, and
  let the reads return that stream cut into arbitrary non-empty chunks, in the middle of a
  length prefix or of a delimiter too. When the inbox has room for all of them, the reader thread
  queues exactly one message per payload, in order, keeps nothing pending, records no error and
  is still running.
\<close>

theorem framed_stream_delivered:
  assumes "usable_framing (er_framing r)" and "list_all (frame_ok (er_framing r) (er_max_payload r)) ps"
    and "rmap (\<lambda>p. frame_outbound p (er_framing r)) ps = Inr framed" and "concat chunks = concat framed"
    and "list_all (\<lambda>c. c \<noteq> []) chunks" and "length q + length ps \<le> er_max_inbox r"
  shows "run_reader (stream_reader_step r) (map ReadBytes chunks) (start_reader q) =
    start_reader (q @ map (raw_message (er_peer_role r)) ps)"
proof -
  note sf = usable_stream_framing [OF assms(1), of "er_max_payload r"]
  from stream_framing.read_chunks [OF sf refl refl assms(2,3), of "start_reader q" chunks]
  show ?thesis using assms stream_framing.idle [OF sf] by (simp add: start_reader_def list_all_iff)
qed

theorem framed_stream_delivered_witness:
  "run_reader (stream_reader_step \<lparr>er_peer_role = ''peer'', er_max_payload = 8, er_max_inbox = 2, er_framing = FrDelimiter [13, 10]\<rparr>)
     (map ReadBytes [[104, 105, 13], [10, 13], [13, 10]]) (start_reader []) =
   start_reader (map (raw_message ''peer'') [[104, 105], [13]])"
  using framed_stream_delivered [of "\<lparr>er_peer_role = ''peer'', er_max_payload = 8, er_max_inbox = 2,
        er_framing = FrDelimiter [13, 10]\<rparr>" "[[104, 105], [13]]" "[[104, 105, 13, 10], [13, 13, 10]]"
        "[[104, 105, 13], [10, 13], [13, 10]]" "[]"]
  by (simp add: usable_framing_def frame_outbound_def find_window.simps)

subsection \<open>Draining keeps every byte\<close>

lemma find_window_hit: "find_window d bs = Some p \<Longrightarrow> take (length d) (drop p bs) = d \<and> find_window d (take p bs) = None"
  if d: "d \<noteq> []"
proof (induction bs arbitrary: p)
  case Nil
  then show ?case using d by (subst (asm) find_window.simps) (auto split: if_splits)
next
  case (Cons b bs)
  show ?case
  proof (cases p)
    case 0
    with Cons.prems have "take (length d) (b # bs) = d" by (subst (asm) find_window.simps) (auto split: if_splits)
    moreover have "find_window d [] = None" using d by (simp add: find_window.simps)
    ultimately show ?thesis using 0 by simp
  next
    case (Suc n)
    with Cons.prems have n: "find_window d bs = Some n" and no: "take (length d) (b # bs) \<noteq> d" "length d \<le> length (b # bs)"
      by (subst (asm) find_window.simps; auto split: if_splits)+
    have "find_window d (b # take n bs) = None"
    proof (cases "length d \<le> Suc n \<and> n \<le> length bs")
      case True
      then have "take (length d) (b # take n bs) = take (length d) (b # bs)"
        by (cases "length d") (auto simp: min_def)
      with no Cons.IH [OF n] show ?thesis by (subst find_window.simps) auto
    next
      case False
      with find_window_bound [OF n] show ?thesis by (subst find_window.simps) auto
    qed
    with Cons.IH [OF n] Suc show ?thesis by simp
  qed
qed

text \<open>A frame as the wire had it, and what the framing says of its size.\<close>

definition frame_bound :: "framing \<Rightarrow> nat \<Rightarrow> bytes \<Rightarrow> bool" where
  "frame_bound fr mx f =
     (case fr of
        FrRaw \<Rightarrow> f \<noteq> []
      | FrLengthPrefix \<Rightarrow> length f \<le> mx
      | FrDelimiter d \<Rightarrow> find_window d f = None
      | FrFixed n \<Rightarrow> length f = n)"

lemma next_frame_reframe:
  assumes "next_frame fr mx p = Inr (Some (f, rest))"
  shows "frame_bound fr mx f \<and> (\<exists>bs. frame_outbound f fr = Inr bs \<and> bs @ rest = p)"
proof (cases fr)
  case FrRaw
  with assms show ?thesis by (auto simp: next_frame_def frame_outbound_def frame_bound_def split: if_splits)
next
  case FrLengthPrefix
  define n where "n = unat (be_word (take 4 p) :: u32)"
  from assms FrLengthPrefix have n: "4 \<le> length p" "n \<le> mx" "n + 4 \<le> length p" "f = take n (drop 4 p)" "rest = drop (4 + n) p"
    by (auto simp: next_frame_def Let_def n_def split: if_splits)
  have len: "length f = n" using n by simp
  have "n < 2 ^ 32" using unsigned_less [of "be_word (take 4 p) :: u32", where ?'a = nat] by (simp add: n_def)
  moreover have "be_bytes 4 (of_nat n :: u32) = take 4 p"
    using be_bytes_be_word [of "take 4 p", where 'a = 32] n(1) by (simp add: n_def)
  moreover have "take 4 p @ f @ rest = p" using n by (metis append_take_drop_id drop_drop add.commute)
  ultimately show ?thesis using FrLengthPrefix n(2) len by (simp add: frame_outbound_def frame_bound_def)
next
  case (FrDelimiter d)
  from assms FrDelimiter obtain i where i: "d \<noteq> []" "find_window d p = Some i" "f = take i p" "rest = drop (i + length d) p"
    by (auto simp: next_frame_def split: if_splits option.splits)
  note hit = find_window_hit [OF i(1,2)]
  have "f @ d @ rest = take i p @ take (length d) (drop i p) @ drop (length d) (drop i p)"
    using hit i(3,4) by (simp add: add.commute)
  then have "f @ d @ rest = p" by (simp only: append_take_drop_id)
  then show ?thesis using i hit FrDelimiter by (simp add: frame_outbound_def frame_bound_def)
next
  case (FrFixed n)
  with assms show ?thesis by (auto simp: next_frame_def frame_outbound_def frame_bound_def split: if_splits)
qed

text \<open>
  Draining neither loses nor invents bytes, and its frames keep to the framing. The frames
  \<open>drain_frames\<close> returns, framed again, followed by what it leaves pending, are the bytes it was
  given; nothing more can be drained from what is left. A length-prefixed frame has at most
  \<open>max_payload\<close> bytes, a fixed frame exactly its size, a delimited frame no delimiter inside.
\<close>

theorem drain_frames_reframe:
  assumes "drain_frames fr mx p = Inr (fs, rest)"
  shows "list_all (frame_bound fr mx) fs \<and> next_frame fr mx rest = Inr None \<and>
    (\<exists>bss. rmap (\<lambda>f. frame_outbound f fr) fs = Inr bss \<and> concat bss @ rest = p)"
proof -
  have "list_all (frame_bound fr mx) fs \<and> (\<exists>bss. rmap (\<lambda>f. frame_outbound f fr) fs = Inr bss \<and> concat bss @ rest = p)"
    using assms
  proof (induction fr mx p arbitrary: fs rule: drain_frames.induct)
    case (1 fr mx p)
    from "1.prems" consider "next_frame fr mx p = Inr None" "fs = []" "rest = p"
      | f p' gs where "next_frame fr mx p = Inr (Some (f, p'))" "drain_frames fr mx p' = Inr (gs, rest)" "fs = f # gs"
      by (subst (asm) drain_frames.simps) (auto simp: rbind_eq_Inr split: sum.splits option.splits)
    then show ?case
    proof cases
      case 1
      then show ?thesis by simp
    next
      case 2
      from "1.IH" [OF 2(1) refl refl 2(2)] next_frame_reframe [OF 2(1)] 2(3) show ?thesis
        by (auto simp del: append_assoc simp flip: append_assoc)
    qed
  qed
  with drain_frames_done [OF assms] show ?thesis by blast
qed

theorem drain_frames_reframe_witness:
  "drain_frames FrLengthPrefix 5 [0, 0, 0, 2, 7, 8, 0, 0, 0, 0, 0, 0] = Inr ([[7, 8], []], [0, 0]) \<and>
   list_all (frame_bound FrLengthPrefix 5) [[7, 8], []]"
proof -
  have d: "drain_frames FrLengthPrefix 5 [0, 0, 0, 2, 7, 8, 0, 0, 0, 0, 0, 0] = Inr ([[7, 8], []], [0, 0])"
    by code_simp
  from drain_frames_reframe [OF d] d show ?thesis by blast
qed

subsection \<open>Framings from the command line\<close>

text \<open>
  a framing the command line accepts is usable: its delimiter is not empty and its fixed
  size is positive, so that draining never panics whatever bytes arrive, and every frame takes
  at least one byte off the pending ones. (A delimiter framing built with an empty delimiter
  would panic on the first read.)
\<close>

theorem parsed_framing_drains:
  assumes "parse_framing spec = Inr fr"
  shows "(fr = FrRaw \<or> usable_framing fr) \<and> drain_frames fr mx pending \<noteq> Inl Panic \<and>
    drain_frames (FrDelimiter []) mx pending = Inl Panic"
proof -
  have fr: "fr = FrRaw \<or> usable_framing fr"
    using assms by (auto simp: parse_framing_def usable_framing_def Let_def bytes_of_def split: if_splits option.splits)
  then have "next_frame fr mx q \<noteq> Inl Panic" for q
    by (cases fr) (auto simp: usable_framing_def next_frame_def Let_def split: option.splits)
  then have "drain_frames fr mx pending \<noteq> Inl Panic"
  proof (induction fr mx pending rule: drain_frames.induct)
    case (1 fr mx p)
    show ?case
    proof (cases "next_frame fr mx p")
      case (Inl e)
      with "1.prems" [of p] show ?thesis by (simp add: drain_frames.simps [of _ _ p])
    next
      case (Inr out)
      show ?thesis
      proof (cases out)
        case (Some fp)
        then obtain f p' where fp: "next_frame fr mx p = Inr (Some (f, p'))" using Inr by (cases fp) simp
        from "1.IH" [OF this refl refl] "1.prems" have "drain_frames fr mx p' \<noteq> Inl Panic" by blast
        then show ?thesis by (cases "drain_frames fr mx p'") (auto simp: drain_frames.simps [of _ _ p] fp)
      qed (simp add: drain_frames.simps [of _ _ p] Inr)
    qed
  qed
  moreover have "drain_frames (FrDelimiter []) mx pending = Inl Panic"
    by (simp add: drain_frames.simps next_frame_def)
  ultimately show ?thesis using fr by blast
qed

theorem parsed_framing_drains_witness:
  "parse_framing ''fixed:16'' = Inr (FrFixed 16) \<and> drain_frames (FrFixed 16) 4 [1, 2, 3] \<noteq> Inl Panic"
proof -
  have p: "parse_framing ''fixed:16'' = Inr (FrFixed 16)"
    by (simp add: parse_framing_def parse_usize_def digits_value_def is_digit_def byte_of_def of_char_def)
  from parsed_framing_drains [OF p, of 4 "[1, 2, 3]"] p show ?thesis by blast
qed

subsection \<open>What a payload limit does not bound\<close>

text \<open>
  with delimiter framing, \<open>max_payload\<close> is checked only while no delimiter has been seen, so
  the same stream is accepted or refused according to the pieces in which it arrives: cut as
  \<open>abcd\<close>, \<open>ef;\<close> (each read fits the buffer of \<open>max_payload = 4\<close> bytes) the reader queues a frame of six
  bytes, cut as \<open>abcd\<close>, \<open>ef\<close>, \<open>;\<close> it stops with a resource-limit error.
\<close>

theorem delimited_limit_depends_on_cuts:
  "let r = \<lparr>er_peer_role = ''peer'', er_max_payload = 4, er_max_inbox = 9, er_framing = FrDelimiter [59]\<rparr>;
       run = (\<lambda>chunks. run_reader (stream_reader_step r) (map ReadBytes chunks) (start_reader []))
   in map ms_raw (rs_inbox (run [[97, 98, 99, 100], [101, 102, 59]])) = [[97, 98, 99, 100, 101, 102]] \<and>
      rs_errors (run [[97, 98, 99, 100], [101, 102, 59]]) = [] \<and>
      rs_inbox (run [[97, 98, 99, 100], [101, 102], [59]]) = [] \<and>
      rs_errors (run [[97, 98, 99, 100], [101, 102], [59]]) = [DelimitedFrame 4]"
proof -
  let ?next = "next_frame (FrDelimiter [59]) 4" and ?drain = "drain_frames (FrDelimiter [59]) 4"
  have "?next [97, 98, 99, 100] = Inr None" "?next [] = Inr None"
    "?next [97, 98, 99, 100, 101, 102, 59] = Inr (Some ([97, 98, 99, 100, 101, 102], []))"
    "?next [97, 98, 99, 100, 101, 102] = Inl (Fail (DelimitedFrame 4))"
    by (simp_all add: next_frame_def find_window.simps)
  then have "?drain [97, 98, 99, 100] = Inr ([], [97, 98, 99, 100])" and e: "?drain [] = Inr ([], [])"
    and "?drain [97, 98, 99, 100, 101, 102] = Inl (Fail (DelimitedFrame 4))"
    by (simp_all add: drain_frames.simps)
  moreover have "?drain [97, 98, 99, 100, 101, 102, 59] = Inr ([[97, 98, 99, 100, 101, 102]], [])"
    by (subst drain_frames.simps) (simp add: e next_frame_def find_window.simps)
  ultimately show ?thesis
    by (simp add: run_reader_def start_reader_def stream_reader_step_def read_bytes_def push_raw_message_def
        push_message_limited_def raw_message_def thread_failed_def record_worker_error_def Let_def)
qed

end
