(* ===== verification/Packet_Fields.thy ===== *)
theory Packet_Fields
  imports Packet_Decode Tcp_State Value
begin

unbundle bit_operations_syntax

text \<open>
  The textual side of packets (\<open>src/src/packet.rs\<close>): printing and parsing of hardware
  addresses, and \<open>decoded_fields\<close>, the map of named values of a decoded packet that receive
  matchers and fault predicates consult. Addresses print as the standard library prints them.
\<close>

subsection \<open>Addresses as text\<close>

definition hex2 :: "byte \<Rightarrow> string" where
  "hex2 b = [hex_char (unat b div 16), hex_char (unat b mod 16)]"

definition mac_to_string :: "mac_addr \<Rightarrow> string" where
  "mac_to_string m = join '':'' (map hex2 (be_bytes 6 m))"

text \<open>\<open>u8::from_str_radix(part, 16)\<close> on two bytes: a \<open>+\<close> may stand before one digit.\<close>

definition u8_from_hex2 :: "string \<Rightarrow> byte option" where
  "u8_from_hex2 part =
     (case bytes_of part of
        [h, l] \<Rightarrow>
          (case hex_digit l of
             Inl _ \<Rightarrow> None
           | Inr lo \<Rightarrow> if h = 43 then Some lo
               else (case hex_digit h of Inl _ \<Rightarrow> None | Inr hi \<Rightarrow> Some (push_bit 4 hi OR lo)))
      | _ \<Rightarrow> None)"

definition mac_from_str :: "string \<Rightarrow> mac_addr pres" where
  "mac_from_str value =
     (let parts = split_on (CHR '':'') value in
      if length parts \<noteq> 6 then Inl (Fail (InvalidMac value))
      else rbind (rmap (\<lambda>part. if length part \<noteq> 2 then Inl (Fail (InvalidMac value))
                               else ok_or (InvalidMac value) (u8_from_hex2 part)) parts)
        (\<lambda>bytes. Inr (be_word bytes)))"

definition ipv4_to_string :: "ipv4_addr \<Rightarrow> string" where
  "ipv4_to_string a = join ''.'' (map (\<lambda>b. decimal (unat b)) (be_bytes 4 a))"

definition ipv6_segments :: "ipv6_addr \<Rightarrow> u16 list" where
  "ipv6_segments a = map (\<lambda>i. ucast (drop_bit (112 - 16 * i) a)) [0..<8]"

fun hex_number :: "nat \<Rightarrow> string" where
  "hex_number n = (if n < 16 then [hex_char n] else hex_number (n div 16) @ [hex_char (n mod 16)])"

declare hex_number.simps [simp del]

text \<open>The first longest run of zero segments, as start and length.\<close>

fun longest_zeroes :: "nat \<Rightarrow> u16 list \<Rightarrow> nat \<times> nat \<Rightarrow> nat \<times> nat \<Rightarrow> nat \<times> nat" where
  "longest_zeroes i [] longest current = longest"
| "longest_zeroes i (s # ss) longest current =
     (if s = 0 then
        (let current' = (if snd current = 0 then i else fst current, snd current + 1) in
         longest_zeroes (Suc i) ss (if snd current' > snd longest then current' else longest) current')
      else longest_zeroes (Suc i) ss longest (0, 0))"

definition fmt_segments :: "u16 list \<Rightarrow> string" where
  "fmt_segments ss = join '':'' (map (\<lambda>s. hex_number (unat s)) ss)"

definition ipv6_to_string :: "ipv6_addr \<Rightarrow> string" where
  "ipv6_to_string a =
     (let ss = ipv6_segments a in
      if take 6 ss = [0, 0, 0, 0, 0, 0xffff] then ''::ffff:'' @ ipv4_to_string (ucast a)
      else let (start, len) = longest_zeroes 0 ss (0, 0) (0, 0) in
        if len > 1 then fmt_segments (take start ss) @ ''::'' @ fmt_segments (drop (start + len) ss)
        else fmt_segments ss)"

subsection \<open>Named fields of a decoded packet\<close>

definition nat_val :: "nat \<Rightarrow> val" where
  "nat_val n = VNumber (f64_of_int (int n))"

definition num :: "'a::len word \<Rightarrow> val" where
  "num w = nat_val (unat w)"

definition opt_num :: "'a::len word option \<Rightarrow> val" where
  "opt_num w = num (unwrap_or 0 w)"

definition ethernet_fields :: "ethernet_header \<Rightarrow> (string \<times> val) list" where
  "ethernet_fields e =
     [(''ethernet.source'', VString (mac_to_string (eth_source e))),
      (''ethernet.destination'', VString (mac_to_string (eth_destination e))),
      (''ethernet.ether_type'', opt_num (eth_ether_type e))] @
     (case eth_vlan e of
        None \<Rightarrow> []
      | Some v \<Rightarrow>
          [(''ethernet.vlan_id'', num (vlan_id v)), (''ethernet.vlan_priority'', num (vlan_priority v)),
           (''ethernet.vlan_drop_eligible'', VBool (vlan_drop_eligible v))])"

definition ipv4_fields :: "ipv4_header \<Rightarrow> bool option \<Rightarrow> (string \<times> val) list" where
  "ipv4_fields h valid =
     [(''ip.version'', nat_val 4),
      (''ipv4.source'', VString (ipv4_to_string (v4_source h))),
      (''ipv4.destination'', VString (ipv4_to_string (v4_destination h))),
      (''ipv4.ttl'', num (v4_ttl h)), (''ipv4.dscp'', num (v4_dscp h)), (''ipv4.ecn'', num (v4_ecn h)),
      (''ipv4.id'', num (v4_identification h)), (''ipv4.fragment_offset'', num (v4_fragment_offset h)),
      (''ipv4.more_fragments'', VBool (v4_more_fragments h)), (''ipv4.dont_fragment'', VBool (v4_dont_fragment h)),
      (''ipv4.protocol'', opt_num (v4_protocol h)), (''ipv4.ihl'', opt_num (v4_ihl h)),
      (''ipv4.total_length'', opt_num (v4_total_length h)), (''ipv4.options'', VBytes (v4_options h)),
      (''ipv4.checksum'', num (checksum_number (v4_checksum h)))] @
     (case valid of None \<Rightarrow> [] | Some b \<Rightarrow> [(''ipv4.checksum_valid'', VBool b)])"

definition ipv6_fields :: "ipv6_header \<Rightarrow> (string \<times> val) list" where
  "ipv6_fields h =
     [(''ip.version'', nat_val 6),
      (''ipv6.source'', VString (ipv6_to_string (v6_source h))),
      (''ipv6.destination'', VString (ipv6_to_string (v6_destination h))),
      (''ipv6.hop_limit'', num (v6_hop_limit h)), (''ipv6.flow_label'', num (v6_flow_label h)),
      (''ipv6.traffic_class'', num (v6_traffic_class h)), (''ipv6.payload_length'', opt_num (v6_payload_length h)),
      (''ipv6.next_header'', opt_num (v6_next_header h))] @
     (case v6_fragment h of
        None \<Rightarrow> []
      | Some f \<Rightarrow>
          [(''ipv6.fragment_offset'', num (frag_offset f)), (''ipv6.more_fragments'', VBool (frag_more_fragments f)),
           (''ipv6.fragment_id'', num (frag_identification f)), (''ipv6.fragment_next_header'', num (frag_next_header f))])"

definition tcp_flag_fields :: "(string \<times> u16) list" where
  "tcp_flag_fields =
     [(''fin'', tcp_FIN), (''syn'', tcp_SYN), (''rst'', tcp_RST), (''psh'', tcp_PSH), (''ack_flag'', tcp_ACK),
      (''urg'', tcp_URG), (''ece'', tcp_ECE), (''cwr'', tcp_CWR), (''ns'', tcp_NS)]"

definition tcp_fields :: "tcp_header \<Rightarrow> (string \<times> val) list" where
  "tcp_fields h =
     [(''tcp.source_port'', num (tcp_source_port h)), (''tcp.destination_port'', num (tcp_destination_port h)),
      (''tcp.seq'', num (tcp_sequence h)), (''tcp.ack'', num (tcp_acknowledgment h)), (''tcp.window'', num (tcp_window h)),
      (''tcp.urgent_pointer'', num (tcp_urgent_pointer h)), (''tcp.data_offset'', opt_num (tcp_data_offset h)),
      (''tcp.checksum'', num (checksum_number (tcp_checksum h))),
      (''tcp.options_count'', nat_val (length (tcp_options h))),
      (''tcp.flags'', VArray (map VString (tcp_flag_names (tcp_flags h))))] @
     map (\<lambda>(name, flag). (''tcp.'' @ name, VBool (tcp_flags h AND flag \<noteq> 0))) tcp_flag_fields"

definition udp_fields :: "udp_header \<Rightarrow> (string \<times> val) list" where
  "udp_fields h =
     [(''udp.source_port'', num (udp_source_port h)), (''udp.destination_port'', num (udp_destination_port h)),
      (''udp.length'', opt_num (udp_length h)), (''udp.checksum'', num (checksum_number (udp_checksum h)))]"

definition decoded_fields :: "decoded_packet \<Rightarrow> val_map" where
  "decoded_fields d =
     collect_map
       ((''packet.length'', nat_val (length (dec_network_payload d))) #
        (case pkt_ethernet (dec_packet d) of None \<Rightarrow> [] | Some e \<Rightarrow> ethernet_fields e) @
        (case pkt_network (dec_packet d) of
           NetIpv4 h \<Rightarrow> ipv4_fields h (dec_ipv4_checksum_valid d)
         | NetIpv6 h \<Rightarrow> ipv6_fields h) @
        (case pkt_transport (dec_packet d) of
           None \<Rightarrow> []
         | Some (TransTcp h) \<Rightarrow> tcp_fields h
         | Some (TransUdp h) \<Rightarrow> udp_fields h) @
        (case dec_transport_checksum_valid d of None \<Rightarrow> [] | Some b \<Rightarrow> [(''transport.checksum_valid'', VBool b)]) @
        [(''raw.payload'', VBytes (pkt_payload (dec_packet d)))])"

subsection \<open>Hardware addresses\<close>

lemma hex2_parse: "u8_from_hex2 (hex2 b) = Some b"
proof -
  have d: "hex_digit (byte_of (hex_char (unat b div 16))) = Inr (of_nat (unat b div 16))"
    "hex_digit (byte_of (hex_char (unat b mod 16))) = Inr (of_nat (unat b mod 16))"
    by (simp_all add: hex_char_digit)
  have "byte_of (hex_char (unat b div 16)) \<noteq> 43"
    using hex_char_digit(3) [of "unat b div 16"] by auto
  then show ?thesis
    using nibbles [of b] by (simp add: u8_from_hex2_def hex2_def bytes_of_def d)
qed

lemma length_hex2: "length (hex2 b) = 2"
  by (simp add: hex2_def)

lemma hex2_no_colon: "CHR '':'' \<notin> set (hex2 b)"
proof -
  have "hex_char n \<noteq> CHR '':''" if "n < 16" for n
    using hex_char_digit(3) [OF that] by (auto simp: byte_of_def)
  from this [of "unat b div 16"] this [of "unat b mod 16"] show ?thesis by (auto simp: hex2_def)
qed

text \<open>
  Printing a hardware address and parsing the text gives the address back. The parser also
  accepts texts no address prints as: a part may be a plus sign and one digit.
\<close>

theorem mac_text_roundtrip:
  "mac_from_str (mac_to_string m) = Inr m \<and> mac_from_str ''+a:00:00:00:00:01'' = Inr 0x0a0000000001"
proof
  let ?parts = "map hex2 (be_bytes 6 m)"
  have "be_bytes 6 m \<noteq> []" by (metis length_be_bytes list.size(3) zero_neq_numeral)
  then have split: "split_on (CHR '':'') (mac_to_string m) = ?parts"
    unfolding mac_to_string_def by (intro split_on_join) (auto simp: hex2_no_colon)
  have "rmap (\<lambda>part. if length part \<noteq> 2 then Inl (Fail (InvalidMac v)) else ok_or (InvalidMac v) (u8_from_hex2 part)) (map hex2 bs)
      = (Inr bs :: bytes pres)" for v bs
    by (induction bs) (simp_all add: hex2_parse length_hex2)
  then show "mac_from_str (mac_to_string m) = Inr m"
    unfolding mac_from_str_def split Let_def by (simp add: be_word_be_bytes)
  show "mac_from_str ''+a:00:00:00:00:01'' = Inr 0x0a0000000001" by code_simp
qed

end
