(* ===== verification/Sim_Transport.thy ===== *)
theory Sim_Transport
  imports Framing Packet_Fields
begin

unbundle bit_operations_syntax

text \<open>
  The simulated transport of \<open>src/src/transport.rs\<close>: one inbox per role, and \<open>send_scoped\<close>, which
  applies the configured faults (loss, bursts, capacity, disconnects, address translation,
  corruption, duplication, delay, reordering, size limits) in the order of the code. Random
  numbers are SplitMix64 outputs of a counter, so a seeded run is a function. A delivery after
  a delay is a job of a worker thread, which runs at some later time. The socket of a role in
  a live transport is a parameter: what sending a message on it answers. Unsigned counters
  of the configuration are natural numbers with their saturation written out.
\<close>

subsection \<open>Random numbers\<close>

definition splitmix_gamma :: u64 where
  "splitmix_gamma = 0x9e3779b97f4a7c15"

definition splitmix_mix :: "u64 \<Rightarrow> u64" where
  "splitmix_mix z0 =
     (let z1 = (z0 XOR drop_bit 30 z0) * 0xbf58476d1ce4e5b9;
          z2 = (z1 XOR drop_bit 27 z1) * 0x94d049bb133111eb
      in z2 XOR drop_bit 31 z2)"

text \<open>The advanced counter and the output.\<close>

definition next_random_u64 :: "u64 \<Rightarrow> u64 \<times> u64" where
  "next_random_u64 counter = (counter + splitmix_gamma, splitmix_mix (counter + splitmix_gamma))"

text \<open>\<open>(x >> 11) as f64 / (1u64 << 53) as f64\<close>: the quotient of a 53-bit integer by a power of two is exact.\<close>

definition f64_scale_down :: "nat \<Rightarrow> f64 \<Rightarrow> f64" where
  "f64_scale_down k w = (if f64_magnitude w = 0 then w else f64_of_parts (f64_sign w) (f64_exp w - k) (f64_frac w))"

definition next_random :: "u64 \<Rightarrow> u64 \<times> f64" where
  "next_random counter =
     (let (counter', x) = next_random_u64 counter in (counter', f64_scale_down 53 (f64_of_int (int (unat (drop_bit 11 x))))))"

definition f64_lt :: "f64 \<Rightarrow> f64 \<Rightarrow> bool" where
  "f64_lt v w \<longleftrightarrow> \<not> f64_is_nan v \<and> \<not> f64_is_nan w \<and> f64_int v < f64_int w"

text \<open>\<open>rate > 0.0 && self.next_random() < rate\<close>: the counter advances only for a positive rate.\<close>

definition chance :: "f64 \<Rightarrow> u64 \<Rightarrow> u64 \<times> bool" where
  "chance rate counter =
     (if f64_lt 0 rate then (let (counter', x) = next_random counter in (counter', f64_lt x rate)) else (counter, False))"

subsection \<open>State\<close>

record delivery_report =
  dr_dropped :: bool
  dr_delay_ms :: nat
  dr_reordered :: bool
  dr_duplicated :: bool
  dr_corrupted :: bool

record delayed_delivery =
  dd_to :: string
  dd_msg :: message
  dd_reorder :: "u64 option"
  dd_duplicated :: bool

record transport =
  tr_inboxes :: "(string, message list) hash_map"
  tr_config :: transport_config
  tr_random_counter :: u64
  tr_send_counter :: u64
  tr_burst_remaining :: nat
  tr_live :: "string list option"
  tr_workers :: "delayed_delivery list"
  tr_worker_errors :: "transport_error list"
  tr_limits :: resource_limits
  tr_virtual_time :: bool

text \<open>The derived default: no faults.\<close>

definition default_transport_config :: transport_config where
  "default_transport_config =
     \<lparr>tc_loss_rate = 0, tc_delay_ms = 0, tc_reorder = False, tc_seed = 0, tc_jitter_ms = 0, tc_bandwidth_bps = 0,
      tc_bandwidth_after_nth = 0, tc_bandwidth_after_bps = 0, tc_mtu = 0, tc_burst_loss = 0, tc_duplicate_rate = 0,
      tc_corrupt_rate = 0, tc_drop_nth = 0, tc_disconnect_nth = 0, tc_delay_spike_nth = 0, tc_delay_spike_ms = 0,
      tc_mtu_blackhole = False, tc_port_capacity = 0, tc_nat_source_ip = None, tc_nat_source_port = None,
      tc_connect_failure = None, tc_fault_steps = [], tc_fault_flag = None, tc_fault_when = None\<rparr>"

text \<open>\<open>with_options\<close>; a zero seed is replaced by the wall clock, which is the argument \<open>now\<close>.\<close>

definition with_options :: "u64 \<Rightarrow> string list \<Rightarrow> transport_config \<Rightarrow> resource_limits \<Rightarrow> bool \<Rightarrow> transport" where
  "with_options now roles config limits virtual_time =
     \<lparr>tr_inboxes = fold (\<lambda>r. AList.update r []) roles [], tr_config = config,
      tr_random_counter = (if tc_seed config = 0 then now else of_nat (tc_seed config)),
      tr_send_counter = 0, tr_burst_remaining = 0, tr_live = None, tr_workers = [], tr_worker_errors = [],
      tr_limits = limits, tr_virtual_time = virtual_time\<rparr>"

definition u64_sat :: "nat \<Rightarrow> nat" where
  "u64_sat n = min n (2 ^ 64 - 1)"

subsection \<open>Which messages faults apply to\<close>

definition i64_val :: "int \<Rightarrow> val" where
  "i64_val i = VNumber (f64_of_int i)"

definition decoded_field :: "bytes \<Rightarrow> string \<Rightarrow> val option" where
  "decoded_field raw field =
     (case (case decode_ethernet raw of Inr d \<Rightarrow> Inr d | Inl Panic \<Rightarrow> Inl Panic | Inl (Fail _) \<Rightarrow> decode_ip raw) of
        Inr d \<Rightarrow> map_of (decoded_fields d) field
      | Inl _ \<Rightarrow> None)"

definition fault_predicate_matches :: "message \<Rightarrow> fault_predicate \<Rightarrow> bool" where
  "fault_predicate_matches msg predicate =
     (let field = fp_field predicate;
          actual =
            (if field = ''seq'' then Some (i64_val (ms_seq msg))
             else if field = ''ack'' then Some (i64_val (ms_ack msg))
             else if field = ''window'' then Some (i64_val (ms_window msg))
             else if field = ''stream'' then map_option i64_val (ms_stream msg)
             else if field = ''from'' then Some (VString (ms_from msg))
             else if field = ''payload'' then Some (VString (ms_payload msg))
             else if prefix ''fields.'' field then map_of (ms_fields msg) (drop 7 field)
             else decoded_field (ms_raw msg) field)
      in case actual of None \<Rightarrow> False | Some v \<Rightarrow> val_eq v (fp_equals predicate))"

definition eligible :: "transport_config \<Rightarrow> message \<Rightarrow> string option \<Rightarrow> bool" where
  "eligible config msg step \<longleftrightarrow>
     (tc_fault_steps config = [] \<or>
      (case step of Some name \<Rightarrow> list_ex (\<lambda>item. item = name) (tc_fault_steps config) | None \<Rightarrow> False)) \<and>
     (case tc_fault_flag config of Some flag \<Rightarrow> list_ex (\<lambda>item. item = flag) (ms_flags msg) | None \<Rightarrow> True) \<and>
     (case tc_fault_when config of Some predicate \<Rightarrow> fault_predicate_matches msg predicate | None \<Rightarrow> True)"

subsection \<open>Losing a message\<close>

datatype loss = Passes | Lost | Fails transport_error

text \<open>Capacity, burst, random and ordinal loss, and the disconnect, for one send with its ordinal.\<close>

definition loss_phase :: "bool \<Rightarrow> nat \<Rightarrow> transport \<Rightarrow> transport \<times> loss" where
  "loss_phase el ordinal t =
     (let config = tr_config t in
      if el \<and> tc_port_capacity config > 0 \<and> ordinal > tc_port_capacity config
      then (t, Fails (PortsExhausted (tc_port_capacity config) ordinal))
      else
        let continuing_burst = el \<and> tr_burst_remaining t > 0;
            t = (if continuing_burst then t\<lparr>tr_burst_remaining := tr_burst_remaining t - 1\<rparr> else t);
            (counter, random_drop) = (if el then chance (tc_loss_rate config) (tr_random_counter t) else (tr_random_counter t, False));
            t = t\<lparr>tr_random_counter := counter\<rparr>;
            nth_drop = (el \<and> tc_drop_nth config > 0 \<and> ordinal = tc_drop_nth config)
        in if el \<and> tc_disconnect_nth config > 0 \<and> ordinal = tc_disconnect_nth config
           then (t, Fails (LinkDisconnect ordinal))
           else
             let t = (if random_drop \<and> tc_burst_loss config > 1 then t\<lparr>tr_burst_remaining := tc_burst_loss config - 1\<rparr> else t)
             in (t, if continuing_burst \<or> random_drop \<or> nth_drop then Lost else Passes))"

subsection \<open>Shaping a message\<close>

definition overwrite_present :: "val \<Rightarrow> string list \<Rightarrow> val_map \<Rightarrow> val_map" where
  "overwrite_present v keys m = fold (\<lambda>key m. if map_of m key \<noteq> None then bt_insert key v m else m) keys m"

definition nat_rewrite :: "transport_config \<Rightarrow> message \<Rightarrow> message" where
  "nat_rewrite config msg =
     (let msg = (case tc_nat_source_ip config of
          Some address \<Rightarrow>
            msg\<lparr>ms_fields := bt_insert ''nat.original_role'' (VString (ms_from msg))
              (overwrite_present (VString address) [''ip.source'', ''ipv4.source'', ''ipv6.source''] (ms_fields msg))\<rparr>
        | None \<Rightarrow> msg)
      in case tc_nat_source_port config of
          Some port \<Rightarrow> msg\<lparr>ms_fields := overwrite_present (VNumber (f64_of_int (int port))) [''tcp.source_port'', ''udp.source_port''] (ms_fields msg)\<rparr>
        | None \<Rightarrow> msg)"

text \<open>The length in bytes of the first character of a text.\<close>

definition first_char_len :: "string \<Rightarrow> nat" where
  "first_char_len s =
     (case s of
        [] \<Rightarrow> 0
      | c # _ \<Rightarrow> let b = byte_of c in if b < 0x80 then 1 else if b < 0xe0 then 2 else if b < 0xf0 then 3 else 4)"

definition corrupt_message :: "message \<Rightarrow> message" where
  "corrupt_message msg =
     (case ms_raw msg of
        first # rest \<Rightarrow> msg\<lparr>ms_raw := (first XOR 0x80) # rest\<rparr>
      | [] \<Rightarrow>
          if ms_payload msg \<noteq> []
          then msg\<lparr>ms_payload := string_of [0xef, 0xbf, 0xbd] @ drop (first_char_len (ms_payload msg)) (ms_payload msg)\<rparr>
          else msg)"

definition jitter_of :: "nat \<Rightarrow> u64 \<Rightarrow> u64 \<times> int" where
  "jitter_of jitter_ms counter =
     (if jitter_ms = 0 then (counter, 0)
      else let span = u64_sat (u64_sat (jitter_ms * 2) + 1); (counter', x) = next_random_u64 counter
        in (counter', int (unat x mod span) - int jitter_ms))"

definition serialization_delay :: "transport_config \<Rightarrow> nat \<Rightarrow> message \<Rightarrow> nat" where
  "serialization_delay config ordinal msg =
     (let bandwidth = (if tc_bandwidth_after_nth config > 0 \<and> ordinal \<ge> tc_bandwidth_after_nth config
                       then tc_bandwidth_after_bps config else tc_bandwidth_bps config)
      in if bandwidth = 0 then 0
         else let n = u64_sat (u64_sat (payload_len msg * 8) * 1000) in (n + bandwidth - 1) div bandwidth)"

definition total_delay :: "transport_config \<Rightarrow> bool \<Rightarrow> nat \<Rightarrow> nat \<Rightarrow> int \<Rightarrow> message \<Rightarrow> nat" where
  "total_delay config el ordinal extra_delay_ms jitter msg =
     (let spike = (if el \<and> tc_delay_spike_nth config > 0 \<and> ordinal = tc_delay_spike_nth config then tc_delay_spike_ms config else 0);
          base = u64_sat (u64_sat (tc_delay_ms config + extra_delay_ms) + spike)
      in u64_sat (nat (min (max (int base + jitter) 0) (2 ^ 64 - 1)) + serialization_delay config ordinal msg))"

record shaped =
  sh_msg :: message
  sh_corrupted :: bool
  sh_duplicated :: bool
  sh_delay :: nat
  sh_reorder :: "u64 option"

text \<open>Translation, corruption, duplication, delay and the insertion value, with the advanced counter.\<close>

definition shape :: "transport_config \<Rightarrow> bool \<Rightarrow> nat \<Rightarrow> nat \<Rightarrow> message \<Rightarrow> u64 \<Rightarrow> u64 \<times> shaped" where
  "shape config el ordinal extra_delay_ms msg counter =
     (let msg = nat_rewrite config msg;
          (counter, corrupted) = (if el then chance (tc_corrupt_rate config) counter else (counter, False));
          msg = (if corrupted then corrupt_message msg else msg);
          (counter, duplicated) = (if el then chance (tc_duplicate_rate config) counter else (counter, False));
          (counter, jitter) = jitter_of (tc_jitter_ms config) counter;
          delay = total_delay config el ordinal extra_delay_ms jitter msg;
          (counter, reorder) = (if tc_reorder config then (let (c, x) = next_random_u64 counter in (c, Some x)) else (counter, None))
      in (counter, \<lparr>sh_msg = msg, sh_corrupted = corrupted, sh_duplicated = duplicated, sh_delay = delay, sh_reorder = reorder\<rparr>))"

subsection \<open>Delivery\<close>

definition deliver :: "message list \<Rightarrow> message \<Rightarrow> u64 option \<Rightarrow> (message \<Rightarrow> string option) option \<Rightarrow> nat \<Rightarrow> message list tres" where
  "deliver q msg reorder_value live_socket max_inbox =
     (case live_socket of
        Some sock \<Rightarrow> (case sock msg of None \<Rightarrow> Inr q | Some e \<Rightarrow> Inl (Fail (SocketFailed e)))
      | None \<Rightarrow> push_message_limited q msg reorder_value max_inbox)"

text \<open>The inbox is what the first copy made of it when only the second one fails.\<close>

definition deliver_copies ::
  "message list \<Rightarrow> message \<Rightarrow> u64 option \<Rightarrow> (message \<Rightarrow> string option) option \<Rightarrow> nat \<Rightarrow> bool \<Rightarrow> message list \<times> transport_error fault option" where
  "deliver_copies q msg reorder_value live_socket max_inbox duplicated =
     (let once = (\<lambda>q. case deliver q msg reorder_value live_socket max_inbox of Inr q' \<Rightarrow> (q', None) | Inl e \<Rightarrow> (q, Some e))
      in if duplicated
         then (case once q of (q', None) \<Rightarrow> once q' | (q', Some e) \<Rightarrow> (q', Some e))
         else once q)"

definition inbox :: "transport \<Rightarrow> string \<Rightarrow> message list option" where
  "inbox t role = map_of (tr_inboxes t) role"

definition set_inbox :: "string \<Rightarrow> message list \<Rightarrow> transport \<Rightarrow> transport" where
  "set_inbox role q t = t\<lparr>tr_inboxes := AList.update role q (tr_inboxes t)\<rparr>"

text \<open>The limits checked before delivery; \<open>Inr True\<close> is a packet swallowed by a black hole.\<close>

definition admit :: "transport \<Rightarrow> string \<Rightarrow> message list \<Rightarrow> message \<Rightarrow> bool tres" where
  "admit t to q msg =
     (let mtu = tc_mtu (tr_config t); n = payload_len msg in
      if n > rl_max_payload (tr_limits t) then Inl (Fail (PayloadSize n (rl_max_payload (tr_limits t))))
      else if mtu > 0 \<and> n > mtu \<and> tc_mtu_blackhole (tr_config t) then Inr True
      else if mtu > 0 \<and> n > mtu then Inl (Fail (MtuExceeded n mtu))
      else if tr_live t = None \<and> length q \<ge> rl_max_inbox (tr_limits t)
      then Inl (Fail (DestinationFull to (rl_max_inbox (tr_limits t))))
      else Inr False)"

definition live_socket :: "(string \<Rightarrow> message \<Rightarrow> string option) \<Rightarrow> transport \<Rightarrow> message \<Rightarrow> (message \<Rightarrow> string option) option tres" where
  "live_socket sock t msg =
     (case tr_live t of
        None \<Rightarrow> Inr None
      | Some senders \<Rightarrow> if ms_from msg \<in> set senders then Inr (Some (sock (ms_from msg))) else Inl (Fail (NoSocket (ms_from msg))))"

definition finish_send :: "(string \<Rightarrow> message \<Rightarrow> string option) \<Rightarrow> transport \<Rightarrow> string \<Rightarrow> message list \<Rightarrow> shaped \<Rightarrow> transport \<times> delivery_report tres" where
  "finish_send sock t to q sh =
     (case live_socket sock t (sh_msg sh) of
        Inl e \<Rightarrow> (t, Inl e)
      | Inr live \<Rightarrow>
          (case admit t to q (sh_msg sh) of
             Inl e \<Rightarrow> (t, Inl e)
           | Inr True \<Rightarrow>
               (t, Inr \<lparr>dr_dropped = True, dr_delay_ms = sh_delay sh, dr_reordered = False, dr_duplicated = False, dr_corrupted = sh_corrupted sh\<rparr>)
           | Inr False \<Rightarrow>
               (let report = \<lparr>dr_dropped = False, dr_delay_ms = sh_delay sh, dr_reordered = sh_reorder sh \<noteq> None,
                              dr_duplicated = sh_duplicated sh, dr_corrupted = sh_corrupted sh\<rparr> in
                if sh_delay sh > 0 \<and> \<not> tr_virtual_time t \<and> live = None
                then (t\<lparr>tr_workers := tr_workers t @
                         [\<lparr>dd_to = to, dd_msg = sh_msg sh, dd_reorder = sh_reorder sh, dd_duplicated = sh_duplicated sh\<rparr>]\<rparr>, Inr report)
                else (case deliver_copies q (sh_msg sh) (sh_reorder sh) live (rl_max_inbox (tr_limits t)) (sh_duplicated sh) of
                    (q', None) \<Rightarrow> (set_inbox to q' t, Inr report)
                  | (q', Some e) \<Rightarrow> (set_inbox to q' t, Inl e)))))"

text \<open>Whether faults apply, and the ordinal of an eligible send (0 otherwise).\<close>

definition count_send :: "transport \<Rightarrow> message \<Rightarrow> string option \<Rightarrow> transport \<times> bool \<times> nat" where
  "count_send t msg step =
     (if eligible (tr_config t) msg step
      then (t\<lparr>tr_send_counter := tr_send_counter t + 1\<rparr>, True, unat (tr_send_counter t + 1))
      else (t, False, 0))"

definition send_scoped ::
  "(string \<Rightarrow> message \<Rightarrow> string option) \<Rightarrow> transport \<Rightarrow> string \<Rightarrow> message \<Rightarrow> nat \<Rightarrow> string option \<Rightarrow> transport \<times> delivery_report tres" where
  "send_scoped sock t to msg extra_delay_ms step =
     (case inbox t to of
        None \<Rightarrow> (t, Inl (Fail (UnknownDestination to)))
      | Some q \<Rightarrow>
          (case count_send t msg step of (t, el, ordinal) \<Rightarrow>
             (case loss_phase el ordinal t of
                (t, Fails e) \<Rightarrow> (t, Inl (Fail e))
              | (t, Lost) \<Rightarrow>
                  (t, Inr \<lparr>dr_dropped = True, dr_delay_ms = u64_sat (tc_delay_ms (tr_config t) + extra_delay_ms),
                           dr_reordered = False, dr_duplicated = False, dr_corrupted = False\<rparr>)
              | (t, Passes) \<Rightarrow>
                  (case shape (tr_config t) el ordinal extra_delay_ms msg (tr_random_counter t) of
                     (counter, sh) \<Rightarrow> finish_send sock (t\<lparr>tr_random_counter := counter\<rparr>) to q sh))))"

text \<open>A worker wakes up and delivers; its errors are kept for \<open>finish\<close>.\<close>

definition run_worker :: "transport \<Rightarrow> nat \<Rightarrow> transport" where
  "run_worker t i =
     (let job = tr_workers t ! i; t' = t\<lparr>tr_workers := take i (tr_workers t) @ drop (Suc i) (tr_workers t)\<rparr> in
      case inbox t (dd_to job) of
        None \<Rightarrow> t'
      | Some q \<Rightarrow>
          (case deliver_copies q (dd_msg job) (dd_reorder job) None (rl_max_inbox (tr_limits t)) (dd_duplicated job) of
             (q', None) \<Rightarrow> set_inbox (dd_to job) q' t'
           | (q', Some (Fail e)) \<Rightarrow> set_inbox (dd_to job) q' (t'\<lparr>tr_worker_errors := tr_worker_errors t' @ [e]\<rparr>)
           | (q', Some Panic) \<Rightarrow> set_inbox (dd_to job) q' t'))"

text \<open>The answer of \<open>finish\<close> once every worker has been joined: all errors, of the gravest kind.\<close>

definition finish_result :: "transport_error list \<Rightarrow> (transport_error_kind \<times> transport_error list) option" where
  "finish_result errors =
     (if errors = [] then None
      else Some (if list_ex (\<lambda>e. te_kind e = KResourceLimit) errors then KResourceLimit else KTransport, errors))"

end
