(* ===== verification/Sim_Transport_Correct.thy ===== *)
theory Sim_Transport_Correct
  imports Sim_Transport Transition_System "HOL-Library.Multiset"
begin

text \<open>
  What the simulated transport promises: a send adds to the network exactly the copies its
  report says; a link without faults is a first-in-first-out network; a burst loses the
  configured number of messages.
\<close>

subsection \<open>Queues\<close>

lemma push_splits:
  assumes "push_message_limited q msg r mx = Inr q'"
  shows "length q < mx" "\<exists>a b. q = a @ b \<and> q' = a @ msg # b" "r = None \<Longrightarrow> q' = q @ [msg]"
proof -
  from assms show "length q < mx" "r = None \<Longrightarrow> q' = q @ [msg]"
    by (auto simp: push_message_limited_def split: if_splits)
  from assms consider "q' = q @ [msg]" | p where "q' = take p q @ msg # drop p q"
    by (auto simp: push_message_limited_def Let_def split: if_splits option.splits)
  then show "\<exists>a b. q = a @ b \<and> q' = a @ msg # b"
  proof cases
    case 2
    then show ?thesis by (intro exI [of _ "take p q"] exI [of _ "drop p q"]) simp
  qed auto
qed

lemma push_mset: "push_message_limited q msg r mx = Inr q' \<Longrightarrow> mset q' = add_mset msg (mset q) \<and> length q' \<le> mx"
  using push_splits [of q msg r mx q'] by auto

lemma push_never_panics: "push_message_limited q msg r mx \<noteq> Inl Panic"
  by (auto simp: push_message_limited_def Let_def split: option.splits)

definition copies :: "bool \<Rightarrow> nat" where
  "copies duplicated = (if duplicated then 2 else 1)"

lemma deliver_copies_ok:
  "deliver_copies q msg r None mx dup = (q', None) \<Longrightarrow>
   mset q' = mset q + replicate_mset (copies dup) msg \<and> length q' \<le> mx"
  by (auto simp: deliver_copies_def deliver_def Let_def copies_def numeral_2_eq_2 split: if_splits sum.splits
      prod.splits option.splits dest!: push_mset)

lemma deliver_copies_bounded: "length (fst (deliver_copies q msg r None mx dup)) \<le> max (length q) mx"
  by (auto simp: deliver_copies_def deliver_def Let_def split: if_splits sum.splits prod.splits option.splits dest: push_mset)

lemma deliver_live_queue: "fst (deliver_copies q msg r (Some sock) mx dup) = q"
  by (auto simp: deliver_copies_def deliver_def Let_def split: if_splits sum.splits prod.splits option.splits)

lemma inbox_set [simp]: "inbox (set_inbox role q t) r = (if r = role then Some q else inbox t r)"
  by (simp add: inbox_def set_inbox_def update_conv')

lemma inbox_upd [simp]:
  "inbox (t\<lparr>tr_random_counter := c\<rparr>) = inbox t" "inbox (t\<lparr>tr_send_counter := s\<rparr>) = inbox t"
  "inbox (t\<lparr>tr_burst_remaining := b\<rparr>) = inbox t" "inbox (t\<lparr>tr_workers := w\<rparr>) = inbox t"
  "inbox (t\<lparr>tr_worker_errors := es\<rparr>) = inbox t"
  by (simp_all add: inbox_def fun_eq_iff)

lemma set_inbox_fields [simp]:
  "tr_config (set_inbox role q t) = tr_config t" "tr_limits (set_inbox role q t) = tr_limits t"
  "tr_workers (set_inbox role q t) = tr_workers t" "tr_live (set_inbox role q t) = tr_live t"
  "tr_virtual_time (set_inbox role q t) = tr_virtual_time t"
  by (simp_all add: set_inbox_def)

text \<open>The loss phase only advances counters.\<close>

definition same_network :: "transport \<Rightarrow> transport \<Rightarrow> bool" where
  "same_network t t' \<longleftrightarrow>
     tr_inboxes t' = tr_inboxes t \<and> tr_config t' = tr_config t \<and> tr_limits t' = tr_limits t \<and>
     tr_workers t' = tr_workers t \<and> tr_live t' = tr_live t \<and> tr_virtual_time t' = tr_virtual_time t"

lemma same_networkD:
  "same_network t t' \<Longrightarrow> inbox t' = inbox t" "same_network t t' \<Longrightarrow> tr_config t' = tr_config t"
  "same_network t t' \<Longrightarrow> tr_limits t' = tr_limits t" "same_network t t' \<Longrightarrow> tr_workers t' = tr_workers t"
  "same_network t t' \<Longrightarrow> tr_live t' = tr_live t" "same_network t t' \<Longrightarrow> tr_virtual_time t' = tr_virtual_time t"
  by (simp_all add: same_network_def inbox_def fun_eq_iff)

lemma loss_phase_network: "same_network t (fst (loss_phase el ordinal t))"
  by (simp add: loss_phase_def Let_def same_network_def split: prod.split)

text \<open>How a send can end.\<close>

lemma send_scoped_cases:
  assumes "send_scoped sock t to msg extra step = (t', r)"
  obtains (unknown) "inbox t to = None" "t' = t" "r = Inl (Fail (UnknownDestination to))"
  | (fails) t1 el ord e where "count_send t msg step = (t1, el, ord)" "loss_phase el ord t1 = (t', Fails e)"
      "same_network t t'" "r = Inl (Fail e)"
  | (lost) t1 el ord where "count_send t msg step = (t1, el, ord)" "loss_phase el ord t1 = (t', Lost)" "same_network t t'"
      "r = Inr \<lparr>dr_dropped = True, dr_delay_ms = u64_sat (tc_delay_ms (tr_config t) + extra), dr_reordered = False,
                dr_duplicated = False, dr_corrupted = False\<rparr>"
  | (passes) t1 el ord t2 q c sh where "inbox t to = Some q" "count_send t msg step = (t1, el, ord)"
      "loss_phase el ord t1 = (t2\<lparr>tr_random_counter := c\<rparr>, Passes)" "same_network t t2"
      "shape (tr_config t) el ord extra msg c = (tr_random_counter t2, sh)" "finish_send sock t2 to q sh = (t', r)"
proof (cases "inbox t to")
  case None
  show thesis by (rule that(1)) (use assms None in \<open>auto simp: send_scoped_def\<close>)
next
  case (Some q)
  obtain t1 el ord where c: "count_send t msg step = (t1, el, ord)" by (cases "count_send t msg step")
  obtain t2 l where l: "loss_phase el ord t1 = (t2, l)" by (cases "loss_phase el ord t1")
  have "same_network t t1" using c by (auto simp: count_send_def same_network_def split: if_splits)
  moreover have "same_network t1 t2" using loss_phase_network [of t1 el ord] l by simp
  ultimately have n: "same_network t t2" by (simp add: same_network_def)
  then have cfg: "tr_config t2 = tr_config t" by (rule same_networkD)
  show thesis
  proof (cases l)
    case Passes
    obtain c' sh where sh: "shape (tr_config t) el ord extra msg (tr_random_counter t2) = (c', sh)"
      by (cases "shape (tr_config t) el ord extra msg (tr_random_counter t2)")
    let ?t = "t2\<lparr>tr_random_counter := c'\<rparr>"
    show thesis
    proof (rule that(4) [of q t1 el ord "tr_random_counter t2" ?t sh])
      show "same_network t ?t" using n by (simp add: same_network_def)
      show "finish_send sock ?t to q sh = (t', r)" using assms by (simp add: send_scoped_def Some c l Passes cfg sh)
    qed (use Some c l Passes sh in simp_all)
  next
    case Lost
    with assms n show thesis by (intro that(3) [OF c]) (auto simp: send_scoped_def Some c l n cfg)
  next
    case (Fails e)
    with assms n show thesis by (intro that(2) [OF c]) (auto simp: send_scoped_def Some c l n)
  qed
qed

subsection \<open>What a send adds to the network\<close>

definition job_copies :: "string \<Rightarrow> delayed_delivery \<Rightarrow> message multiset" where
  "job_copies role job = (if dd_to job = role then replicate_mset (copies (dd_duplicated job)) (dd_msg job) else {#})"

definition in_flight :: "transport \<Rightarrow> string \<Rightarrow> message multiset" where
  "in_flight t role = mset (unwrap_or [] (inbox t role)) + sum_list (map (job_copies role) (tr_workers t))"

text \<open>The message as it leaves the sender's side.\<close>

definition sent_form :: "transport_config \<Rightarrow> bool \<Rightarrow> message \<Rightarrow> message" where
  "sent_form config corrupted msg =
     (if corrupted then corrupt_message (nat_rewrite config msg) else nat_rewrite config msg)"

lemma in_flight_same: "same_network t t' \<Longrightarrow> in_flight t' role = in_flight t role"
  by (simp add: in_flight_def same_networkD)

lemma in_flight_worker:
  "in_flight (t\<lparr>tr_workers := tr_workers t @ [job]\<rparr>) role = in_flight t role + job_copies role job"
  by (simp add: in_flight_def)

lemma in_flight_set:
  "inbox t to = Some q \<Longrightarrow> mset q' = mset q + add \<Longrightarrow>
   in_flight (set_inbox to q' t) role = in_flight t role + (if role = to then add else {#})"
  by (simp add: in_flight_def)

lemma shape_facts:
  assumes "shape config el ord extra msg c = (c', sh)"
  shows "sh_msg sh = sent_form config (sh_corrupted sh) msg" "\<not> el \<Longrightarrow> \<not> sh_corrupted sh \<and> \<not> sh_duplicated sh"
  using assms by (auto simp: shape_def sent_form_def Let_def split: prod.splits if_splits)

text \<open>How a send that passed the loss phase can succeed, without live sockets.\<close>

lemma finish_send_cases:
  assumes "finish_send sock t to q sh = (t', Inr rep)" and "tr_live t = None"
  obtains (hole) "t' = t" "dr_dropped rep" "dr_corrupted rep = sh_corrupted sh" "\<not> dr_duplicated rep"
  | (later) "t' = t\<lparr>tr_workers := tr_workers t @
        [\<lparr>dd_to = to, dd_msg = sh_msg sh, dd_reorder = sh_reorder sh, dd_duplicated = sh_duplicated sh\<rparr>]\<rparr>"
      "\<not> dr_dropped rep" "dr_corrupted rep = sh_corrupted sh" "dr_duplicated rep = sh_duplicated sh"
  | (now) q' where "deliver_copies q (sh_msg sh) (sh_reorder sh) None (rl_max_inbox (tr_limits t)) (sh_duplicated sh) = (q', None)"
      "t' = set_inbox to q' t" "\<not> dr_dropped rep" "dr_corrupted rep = sh_corrupted sh" "dr_duplicated rep = sh_duplicated sh"
proof (cases "admit t to q (sh_msg sh)")
  case (Inl e)
  then show thesis using assms by (simp add: finish_send_def live_socket_def)
next
  case (Inr swallowed)
  note unf = finish_send_def live_socket_def assms(2) Inr Let_def
  show thesis
  proof (cases swallowed)
    case True
    with assms(1) show thesis by (intro hole) (auto simp: unf)
  next
    case False
    note unf = unf False
    show thesis
    proof (cases "sh_delay sh > 0 \<and> \<not> tr_virtual_time t")
      case True
      with assms(1) show thesis by (intro later) (auto simp: unf)
    next
      case now: False
      obtain q' e where d: "deliver_copies q (sh_msg sh) (sh_reorder sh) None (rl_max_inbox (tr_limits t)) (sh_duplicated sh) = (q', e)"
        by (cases "deliver_copies q (sh_msg sh) (sh_reorder sh) None (rl_max_inbox (tr_limits t)) (sh_duplicated sh)")
      with assms(1) now have "e = None" by (cases e) (auto simp: unf)
      with d assms(1) now show thesis by (intro that(3)) (auto simp: unf)
    qed
  qed
qed

lemma finish_send_accounts:
  assumes "finish_send sock t to q sh = (t', Inr rep)" and "tr_live t = None" and "inbox t to = Some q"
  shows "in_flight t' role = in_flight t role +
      (if dr_dropped rep \<or> role \<noteq> to then {#} else replicate_mset (copies (dr_duplicated rep)) (sh_msg sh))"
    and "dr_corrupted rep = sh_corrupted sh" and "dr_duplicated rep \<longrightarrow> sh_duplicated sh"
proof -
  show "in_flight t' role = in_flight t role +
      (if dr_dropped rep \<or> role \<noteq> to then {#} else replicate_mset (copies (dr_duplicated rep)) (sh_msg sh))"
    using assms(1,2)
  proof (cases rule: finish_send_cases)
    case hole
    then show ?thesis by simp
  next
    case later
    then show ?thesis by (simp add: in_flight_worker job_copies_def)
  next
    case (now q')
    from deliver_copies_ok [OF now(1)] have "mset q' = mset q + replicate_mset (copies (sh_duplicated sh)) (sh_msg sh)" by simp
    from in_flight_set [OF assms(3) this] now(2-) show ?thesis by simp
  qed
  show "dr_corrupted rep = sh_corrupted sh" "dr_duplicated rep \<longrightarrow> sh_duplicated sh"
    using assms(1,2) by (cases rule: finish_send_cases; simp)+
qed

text \<open>
  C12: the report of a send is the truth about the network. When \<open>send_scoped\<close> on a simulated
  transport answers a report, the messages queued or on their way to the destination grow by
  exactly the copies reported (none if dropped, two if duplicated), each the message with its
  source addresses translated and its first byte or character damaged only if reported; no
  other destination changes. A message the fault scope excludes is neither damaged nor doubled.
\<close>

theorem send_report_accounts:
  assumes "send_scoped sock t to msg extra step = (t', Inr rep)" and "tr_live t = None"
  shows "in_flight t' role = in_flight t role +
      (if dr_dropped rep \<or> role \<noteq> to then {#}
       else replicate_mset (copies (dr_duplicated rep)) (sent_form (tr_config t) (dr_corrupted rep) msg)) \<and>
    (eligible (tr_config t) msg step \<or> \<not> dr_corrupted rep \<and> \<not> dr_duplicated rep)"
  using assms(1)
proof (cases rule: send_scoped_cases)
  case (lost t1 el ord)
  then show ?thesis by (simp add: in_flight_same)
next
  case (passes t1 el ord t2 q c sh)
  have live: "tr_live t2 = None" and q: "inbox t2 to = Some q" using passes assms(2) by (simp_all add: same_networkD)
  note sh = shape_facts [OF passes(5)] and acc = finish_send_accounts [OF passes(6) live q]
  have "el = eligible (tr_config t) msg step" using passes(2) by (auto simp: count_send_def split: if_splits)
  then show ?thesis using acc sh in_flight_same [OF passes(4)] by auto
qed simp_all

subsection \<open>A link without faults is a first-in-first-out network\<close>

definition fault_free :: "transport_config \<Rightarrow> bool" where
  "fault_free config \<longleftrightarrow>
     \<not> f64_lt 0 (tc_loss_rate config) \<and> \<not> f64_lt 0 (tc_corrupt_rate config) \<and> \<not> f64_lt 0 (tc_duplicate_rate config) \<and>
     tc_delay_ms config = 0 \<and> \<not> tc_reorder config \<and> tc_jitter_ms config = 0 \<and> tc_bandwidth_bps config = 0 \<and>
     tc_bandwidth_after_nth config = 0 \<and> tc_mtu config = 0 \<and> tc_drop_nth config = 0 \<and> tc_disconnect_nth config = 0 \<and>
     tc_delay_spike_nth config = 0 \<and> tc_port_capacity config = 0 \<and> tc_nat_source_ip config = None \<and> tc_nat_source_port config = None"

text \<open>The abstract network: a queue per role, bounded, with no other behaviour.\<close>

definition fifo_send :: "resource_limits \<Rightarrow> string \<times> message \<Rightarrow> (string \<rightharpoonup> message list) \<Rightarrow> (string \<rightharpoonup> message list)" where
  "fifo_send limits sm net =
     (case net (fst sm) of
        None \<Rightarrow> net
      | Some q \<Rightarrow> if payload_len (snd sm) \<le> rl_max_payload limits \<and> length q < rl_max_inbox limits
                  then net(fst sm \<mapsto> q @ [snd sm]) else net)"

definition perfect_link :: "transport \<Rightarrow> bool" where
  "perfect_link t \<longleftrightarrow> fault_free (tr_config t) \<and> tr_live t = None \<and> tr_burst_remaining t = 0"

lemma fault_free_loss:
  "fault_free (tr_config t) \<Longrightarrow> tr_burst_remaining t = 0 \<Longrightarrow> loss_phase el ord t = (t, Passes)"
  by (simp add: loss_phase_def fault_free_def chance_def Let_def)

lemma fault_free_shape:
  assumes "fault_free config"
  shows "shape config el ord 0 msg c =
    (c, \<lparr>sh_msg = msg, sh_corrupted = False, sh_duplicated = False, sh_delay = 0, sh_reorder = None\<rparr>)"
  using assms
  by (simp add: shape_def fault_free_def chance_def nat_rewrite_def jitter_of_def total_delay_def serialization_delay_def u64_sat_def)

lemma perfect_send_eq:
  assumes "perfect_link t" and "count_send t msg step = (t1, el, ord)"
  shows "send_scoped sock t to msg 0 step =
    (case inbox t to of
       None \<Rightarrow> (t, Inl (Fail (UnknownDestination to)))
     | Some q \<Rightarrow>
         if payload_len msg > rl_max_payload (tr_limits t)
         then (t1, Inl (Fail (PayloadSize (payload_len msg) (rl_max_payload (tr_limits t)))))
         else if length q \<ge> rl_max_inbox (tr_limits t)
         then (t1, Inl (Fail (DestinationFull to (rl_max_inbox (tr_limits t)))))
         else (set_inbox to (q @ [msg]) t1,
           Inr \<lparr>dr_dropped = False, dr_delay_ms = 0, dr_reordered = False, dr_duplicated = False, dr_corrupted = False\<rparr>))"
proof (cases "inbox t to")
  case None
  then show ?thesis by (simp add: send_scoped_def)
next
  case (Some q)
  have t1: "tr_config t1 = tr_config t" "tr_burst_remaining t1 = tr_burst_remaining t" "tr_limits t1 = tr_limits t" "tr_live t1 = tr_live t"
    using assms(2) by (auto simp: count_send_def split: if_splits)
  then have ff: "fault_free (tr_config t1)" "tr_burst_remaining t1 = 0" "tr_live t1 = None" "tc_mtu (tr_config t1) = 0"
    using assms(1) by (auto simp: perfect_link_def fault_free_def)
  show ?thesis
    by (simp add: send_scoped_def Some assms(2) fault_free_loss [OF ff(1,2)] fault_free_shape [OF ff(1)] finish_send_def
        live_socket_def admit_def ff(3,4) t1(3) Let_def deliver_copies_def deliver_def push_message_limited_def)
qed

lemma perfect_send:
  assumes "perfect_link t" and "send_scoped sock t to msg 0 step = (t', r)"
  shows "inbox t' = fifo_send (tr_limits t) (to, msg) (inbox t)" and "perfect_link t'" and "tr_limits t' = tr_limits t"
    and "tr_workers t' = tr_workers t" and "(\<exists>rep. r = Inr rep) \<longleftrightarrow> fifo_send (tr_limits t) (to, msg) (inbox t) \<noteq> inbox t"
proof -
  obtain t1 el ord where c: "count_send t msg step = (t1, el, ord)" by (cases "count_send t msg step")
  then have t1: "inbox t1 = inbox t" "tr_config t1 = tr_config t" "tr_burst_remaining t1 = tr_burst_remaining t"
    "tr_live t1 = tr_live t" "tr_limits t1 = tr_limits t" "tr_workers t1 = tr_workers t"
    by (auto simp: count_send_def split: if_splits)
  note eq = assms(2) [unfolded perfect_send_eq [OF assms(1) c]]
  show "inbox t' = fifo_send (tr_limits t) (to, msg) (inbox t)"
    using eq t1(1) by (auto simp: fifo_send_def fun_eq_iff split: option.splits if_splits)
  show "perfect_link t'"
    using eq assms(1) t1 by (auto simp: perfect_link_def set_inbox_def split: option.splits if_splits)
  show "tr_limits t' = tr_limits t" "tr_workers t' = tr_workers t"
    using eq t1 by (auto split: option.splits if_splits)
  show "(\<exists>rep. r = Inr rep) \<longleftrightarrow> fifo_send (tr_limits t) (to, msg) (inbox t) \<noteq> inbox t"
    using eq by (auto simp: fifo_send_def fun_eq_iff split: option.splits if_splits)
qed

text \<open>
  C11: a transport without faults refines a first-in-first-out network. From any state of a
  simulated transport whose configuration has no fault, delay, translation or reordering, a
  sequence of sends leaves in every inbox exactly what the abstract network of bounded queues
  holds after the same sends: each accepted message at the end of its destination's queue,
  unknown destinations, oversized messages and full queues changing nothing. Nothing is delayed.
\<close>

theorem fault_free_is_fifo:
  assumes "perfect_link t"
  shows "inbox (fold (\<lambda>(to, msg) t. fst (send_scoped sock t to msg 0 step)) sends t) =
      fold (fifo_send (tr_limits t)) sends (inbox t) \<and>
    tr_workers (fold (\<lambda>(to, msg) t. fst (send_scoped sock t to msg 0 step)) sends t) = tr_workers t"
  using assms
proof (induction sends arbitrary: t)
  case Nil
  then show ?case by simp
next
  case (Cons sm sends)
  obtain to msg where sm: "sm = (to, msg)" by (cases sm)
  obtain t' r where t': "send_scoped sock t to msg 0 step = (t', r)" by (cases "send_scoped sock t to msg 0 step")
  from perfect_send [OF Cons.prems t'] Cons.IH [of t'] show ?case by (simp add: sm t')
qed

definition sample_transport :: transport where
  "sample_transport =
     with_options 1 [''a'', ''b''] default_transport_config default_resource_limits True"

definition ping :: message where
  "ping = \<lparr>ms_from = ''a'', ms_flags = [], ms_seq = 0, ms_ack = 0, ms_payload = ''hi'', ms_raw = [], ms_window = 0,
     ms_stream = None, ms_fields = []\<rparr>"

lemma sample_perfect: "perfect_link sample_transport"
  by (simp add: perfect_link_def fault_free_def sample_transport_def with_options_def default_transport_config_def f64_lt_def)

lemma sample_send:
  "send_scoped (\<lambda>_ _. None) sample_transport ''b'' ping 0 None =
   (set_inbox ''b'' [ping] (sample_transport\<lparr>tr_send_counter := 1\<rparr>),
    Inr \<lparr>dr_dropped = False, dr_delay_ms = 0, dr_reordered = False, dr_duplicated = False, dr_corrupted = False\<rparr>)"
proof -
  have c: "count_send sample_transport ping None = (sample_transport\<lparr>tr_send_counter := 1\<rparr>, True, 1)"
    by (simp add: count_send_def eligible_def sample_transport_def with_options_def default_transport_config_def)
  have "inbox sample_transport ''b'' = Some []" "tr_limits sample_transport = default_resource_limits"
    by (simp_all add: sample_transport_def with_options_def inbox_def)
  moreover have "payload_len ping = 2" by (simp add: ping_def payload_len_def)
  ultimately show ?thesis
    by (simp add: perfect_send_eq [OF sample_perfect c] default_resource_limits_def)
qed

theorem send_report_accounts_witness:
  "in_flight (fst (send_scoped (\<lambda>_ _. None) sample_transport ''b'' ping 0 None)) ''b'' = {#ping#}"
proof -
  have "tr_live sample_transport = None" "in_flight sample_transport ''b'' = {#}"
    by (simp_all add: sample_transport_def with_options_def in_flight_def inbox_def)
  moreover have "sent_form (tr_config sample_transport) False ping = ping"
    by (simp add: sent_form_def nat_rewrite_def sample_transport_def with_options_def default_transport_config_def)
  ultimately show ?thesis
    using send_report_accounts [OF sample_send, of "''b''"] by (simp add: sample_send copies_def)
qed

theorem fault_free_is_fifo_witness:
  "inbox (fold (\<lambda>(to, msg) t. fst (send_scoped (\<lambda>_ _. None) t to msg 0 None)) [(''b'', ping), (''c'', ping), (''b'', ping)] sample_transport) ''b'' =
   Some [ping, ping]"
proof -
  have "inbox sample_transport = [''a'' \<mapsto> [], ''b'' \<mapsto> []]" and l: "tr_limits sample_transport = default_resource_limits"
    by (auto simp: sample_transport_def with_options_def inbox_def)
  with fault_free_is_fifo [OF sample_perfect, of "\<lambda>_ _. None" None "[(''b'', ping), (''c'', ping), (''b'', ping)]"] show ?thesis
    by (simp add: fifo_send_def default_resource_limits_def ping_def payload_len_def)
qed

subsection \<open>Bursts\<close>

fun send_each :: "(string \<Rightarrow> message \<Rightarrow> string option) \<Rightarrow> string option \<Rightarrow> (string \<times> message) list \<Rightarrow> transport \<Rightarrow> transport \<times> delivery_report tres list" where
  "send_each sock step [] t = (t, [])"
| "send_each sock step ((to, msg) # sends) t =
     (case send_scoped sock t to msg 0 step of
        (t', r) \<Rightarrow> (case send_each sock step sends t' of (t'', rs) \<Rightarrow> (t'', r # rs)))"

definition in_burst :: "nat \<Rightarrow> transport \<Rightarrow> bool" where
  "in_burst n t \<longleftrightarrow>
     n \<le> tr_burst_remaining t \<and> tr_burst_remaining t < tc_burst_loss (tr_config t) \<and>
     tc_port_capacity (tr_config t) = 0 \<and> tc_disconnect_nth (tr_config t) = 0"

text \<open>A random loss inside a burst starts the burst anew.\<close>

lemma loss_phase_burst:
  assumes "in_burst (Suc n) t"
  shows "\<exists>t'. loss_phase True ord t = (t', Lost) \<and> in_burst n t'"
proof -
  obtain c b where c: "chance (tc_loss_rate (tr_config t)) (tr_random_counter t) = (c, b)"
    by (cases "chance (tc_loss_rate (tr_config t)) (tr_random_counter t)")
  from assms show ?thesis by (auto simp: in_burst_def loss_phase_def Let_def c)
qed

text \<open>
  a burst loses the configured number of messages. When a random loss has left \<open>k\<close> further
  losses to come, the next \<open>k\<close> eligible messages are all dropped, whatever the random numbers
  are, and no inbox and no delayed delivery changes.
\<close>

theorem burst_loses_consecutive:
  assumes "in_burst (length sends) t"
    and "\<forall>(to, msg) \<in> set sends. inbox t to \<noteq> None \<and> eligible (tr_config t) msg step"
    and "send_each sock step sends t = (t', rs)"
  shows "same_network t t' \<and> list_all (\<lambda>r. \<exists>rep. r = Inr rep \<and> dr_dropped rep) rs \<and> length rs = length sends"
  using assms
proof (induction sends arbitrary: t rs)
  case Nil
  then show ?case by (simp add: same_network_def)
next
  case (Cons sm sends)
  obtain to msg where sm: "sm = (to, msg)" by (cases sm)
  then have el: "inbox t to \<noteq> None" "eligible (tr_config t) msg step" using Cons.prems(2) by auto
  let ?t = "t\<lparr>tr_send_counter := tr_send_counter t + 1\<rparr>"
  have "in_burst (Suc (length sends)) ?t" using Cons.prems(1) by (simp add: in_burst_def)
  from loss_phase_burst [OF this, of "unat (tr_send_counter t + 1)"] obtain t1 where
    t1: "loss_phase True (unat (tr_send_counter t + 1)) ?t = (t1, Lost)" "in_burst (length sends) t1" by blast
  then obtain rep where rep: "send_scoped sock t to msg 0 step = (t1, Inr rep)" "dr_dropped rep"
    using el by (auto simp: send_scoped_def count_send_def)
  have net: "same_network t t1" using loss_phase_network [of ?t True "unat (tr_send_counter t + 1)"] t1(1) by (simp add: same_network_def)
  obtain rs' where rs': "send_each sock step sends t1 = (t', rs')" "rs = Inr rep # rs'"
    using Cons.prems(3) rep by (auto simp: sm split: prod.splits)
  have "\<forall>(to, msg) \<in> set sends. inbox t1 to \<noteq> None \<and> eligible (tr_config t1) msg step"
    using Cons.prems(2) net by (auto simp: same_networkD)
  from Cons.IH [OF t1(2) this rs'(1)] net rep(2) rs'(2) show ?case by (auto simp: same_network_def)
qed

theorem burst_loses_consecutive_witness:
  "let t = sample_transport\<lparr>tr_config := default_transport_config\<lparr>tc_burst_loss := 3\<rparr>, tr_burst_remaining := 2\<rparr>
   in same_network t (fst (send_each (\<lambda>_ _. None) None [(''b'', ping), (''a'', ping)] t))"
proof -
  let ?t = "sample_transport\<lparr>tr_config := default_transport_config\<lparr>tc_burst_loss := 3\<rparr>, tr_burst_remaining := 2\<rparr>"
  have b: "in_burst (length [(''b'', ping), (''a'', ping)]) ?t" by (simp add: in_burst_def default_transport_config_def)
  have e: "\<forall>(to, msg) \<in> set [(''b'', ping), (''a'', ping)]. inbox ?t to \<noteq> None \<and> eligible (tr_config ?t) msg None"
    by (simp add: inbox_def sample_transport_def with_options_def eligible_def default_transport_config_def)
  obtain t' rs where r: "send_each (\<lambda>_ _. None) None [(''b'', ping), (''a'', ping)] ?t = (t', rs)"
    by (cases "send_each (\<lambda>_ _. None) None [(''b'', ping), (''a'', ping)] ?t")
  from burst_loses_consecutive [OF b e r] show ?thesis unfolding Let_def r fst_conv by blast
qed

end
