(* ===== verification/Receive.thy ===== *)
theory Receive
  imports Sim_Transport Reassembly
begin

text \<open>
  Receiving (\<open>src/src/engine.rs\<close>): \<open>recv_match\<close> takes the first queued message that an
  expectation accepts, \<open>recv_raw_match\<close> does the same for raw frames and reassembles
  fragments on the way. What happens while a receive waits on the condition variable is a
  list of events: the deadline is found to have passed, or the wait returns with the contents
  the queue has then and whether it timed out. A receive that is still waiting when the
  events end is \<open>None\<close>.
\<close>

subsection \<open>Frames as messages\<close>

datatype failure_kind = FkTimeout | FkTransport | FkAssertion | FkValidation | FkResourceLimit | FkPanic | FkRuntime

datatype step_failure = RecvTimeout "string list" nat "string option" | RawInvalid packet_error

fun sf_kind :: "step_failure \<Rightarrow> failure_kind" where
  "sf_kind (RecvTimeout _ _ _) = FkTimeout"
| "sf_kind (RawInvalid _) = FkValidation"

type_synonym 'a sres = "(step_failure, 'a) res"

definition decode_raw_wire :: "bytes \<Rightarrow> decoded_packet pres" where
  "decode_raw_wire bytes =
     (let ether_type = (be_word (take 2 (drop 12 bytes)) :: u16) in
      if length bytes \<ge> 14 \<and> ether_type \<in> {ETHERTYPE_IPV4, ETHERTYPE_IPV6, ETHERTYPE_VLAN} then decode_ethernet bytes
      else decode_ip bytes)"

text \<open>The fields the engine assigns over those of the codec, under the same names.\<close>

definition legacy_network_fields :: "decoded_packet \<Rightarrow> (string \<times> val) list" where
  "legacy_network_fields d =
     (case pkt_network (dec_packet d) of
        NetIpv4 h \<Rightarrow>
          [(''ip.version'', nat_val 4),
           (''ipv4.source'', VString (ipv4_to_string (v4_source h))),
           (''ipv4.destination'', VString (ipv4_to_string (v4_destination h))),
           (''ipv4.ttl'', num (v4_ttl h)), (''ipv4.id'', num (v4_identification h)),
           (''ipv4.fragment_offset'', num (v4_fragment_offset h)), (''ipv4.more_fragments'', VBool (v4_more_fragments h))] @
          (case dec_ipv4_checksum_valid d of None \<Rightarrow> [] | Some b \<Rightarrow> [(''ipv4.checksum_valid'', VBool b)])
      | NetIpv6 h \<Rightarrow>
          [(''ip.version'', nat_val 6),
           (''ipv6.source'', VString (ipv6_to_string (v6_source h))),
           (''ipv6.destination'', VString (ipv6_to_string (v6_destination h))),
           (''ipv6.hop_limit'', num (v6_hop_limit h)), (''ipv6.flow_label'', num (v6_flow_label h))] @
          (case v6_fragment h of
             None \<Rightarrow> []
           | Some f \<Rightarrow>
               [(''ipv6.fragment_offset'', num (frag_offset f)), (''ipv6.more_fragments'', VBool (frag_more_fragments f)),
                (''ipv6.fragment_id'', num (frag_identification f))]))"

definition legacy_transport_fields :: "transport_header option \<Rightarrow> (string \<times> val) list" where
  "legacy_transport_fields th =
     (case th of
        None \<Rightarrow> []
      | Some (TransTcp h) \<Rightarrow>
          [(''tcp.source_port'', num (tcp_source_port h)), (''tcp.destination_port'', num (tcp_destination_port h)),
           (''tcp.seq'', num (tcp_sequence h)), (''tcp.ack'', num (tcp_acknowledgment h)), (''tcp.window'', num (tcp_window h)),
           (''tcp.flags'', VArray (map VString (tcp_flag_names (tcp_flags h))))]
      | Some (TransUdp h) \<Rightarrow>
          [(''udp.source_port'', num (udp_source_port h)), (''udp.destination_port'', num (udp_destination_port h)),
           (''udp.length'', opt_num (udp_length h))])"

definition legacy_ethernet_fields :: "ethernet_header option \<Rightarrow> (string \<times> val) list" where
  "legacy_ethernet_fields eth =
     (case eth of
        None \<Rightarrow> []
      | Some e \<Rightarrow>
          [(''ethernet.source'', VString (mac_to_string (eth_source e))),
           (''ethernet.destination'', VString (mac_to_string (eth_destination e))),
           (''ethernet.ether_type'', opt_num (eth_ether_type e))] @
          (case eth_vlan e of
             None \<Rightarrow> []
           | Some v \<Rightarrow> [(''ethernet.vlan_id'', num (vlan_id v)), (''ethernet.vlan_priority'', num (vlan_priority v))]))"

definition raw_packet_fields :: "decoded_packet \<Rightarrow> val_map" where
  "raw_packet_fields d =
     fold (\<lambda>(k, v). bt_insert k v)
       ((''packet.length'', nat_val (length (dec_network_payload d))) #
        legacy_ethernet_fields (pkt_ethernet (dec_packet d)) @ legacy_network_fields d @
        legacy_transport_fields (pkt_transport (dec_packet d)) @
        (case dec_transport_checksum_valid d of None \<Rightarrow> [] | Some b \<Rightarrow> [(''transport.checksum_valid'', VBool b)]) @
        [(''raw.payload'', VBytes (pkt_payload (dec_packet d)))])
       (decoded_fields d)"

definition message_from_raw_wire :: "string \<Rightarrow> bytes \<Rightarrow> val_map \<Rightarrow> message sres" where
  "message_from_raw_wire from bytes kvs =
     rbind (map_err RawInvalid (decode_raw_wire bytes)) (\<lambda>d.
     let (flags, seq, ack, window) =
       (case pkt_transport (dec_packet d) of
          Some (TransTcp h) \<Rightarrow> (tcp_flag_names (tcp_flags h), uint (tcp_sequence h), uint (tcp_acknowledgment h), uint (tcp_window h))
        | _ \<Rightarrow> ([], 0, 0, 0))
     in Inr \<lparr>ms_from = from, ms_flags = flags, ms_seq = seq, ms_ack = ack,
             ms_payload = string_of (from_utf8_lossy (pkt_payload (dec_packet d))), ms_raw = bytes, ms_window = window,
             ms_stream = None, ms_fields = fold (\<lambda>(k, v). bt_insert k v) (raw_packet_fields d) kvs\<rparr>)"

text \<open>The strict lifecycle check of raw TCP segments: the tracker and the state it reports.\<close>

definition observe_raw_tcp_state :: "tcp_state_tracker \<times> tcp_state \<Rightarrow> tcp_direction \<Rightarrow> bytes \<Rightarrow> (tcp_state_tracker \<times> tcp_state) \<times> unit sres" where
  "observe_raw_tcp_state st direction bytes =
     (case decode_raw_wire bytes of
        Inl Panic \<Rightarrow> (st, Inl Panic)
      | Inl (Fail e) \<Rightarrow> (st, Inl (Fail (RawInvalid e)))
      | Inr d \<Rightarrow>
          (case pkt_transport (dec_packet d) of
             Some (TransTcp h) \<Rightarrow>
               (case observe (fst st) direction (tcp_flags h) of
                  (tracker, Inr state) \<Rightarrow> ((tracker, state), Inr ())
                | (tracker, Inl Panic) \<Rightarrow> ((tracker, snd st), Inl Panic)
                | (tracker, Inl (Fail e)) \<Rightarrow> ((tracker, snd st), Inl (Fail (RawInvalid e))))
           | _ \<Rightarrow> (st, Inr ())))"

subsection \<open>Waiting for a message\<close>

datatype wake = DeadlinePassed | Woken "message list" bool

definition remove_at :: "nat \<Rightarrow> 'a list \<Rightarrow> 'a list" where
  "remove_at i xs = take i xs @ drop (Suc i) xs"

definition timeout_failure :: "expect \<Rightarrow> nat \<Rightarrow> step_failure" where
  "timeout_failure e timeout_ms = RecvTimeout (ex_flags e) timeout_ms (ex_from e)"

text \<open>The queue afterwards, the virtual time that passed, and the outcome.\<close>

type_synonym received = "message list \<times> nat \<times> message sres"

fun recv_match :: "(string \<Rightarrow> string \<Rightarrow> bool) \<Rightarrow> expect \<Rightarrow> nat \<Rightarrow> message list \<Rightarrow> wake list \<Rightarrow> received option" where
  "recv_match re e timeout_ms q wakes =
     (case position (expect_matches re e) q of
        Some i \<Rightarrow> Some (remove_at i q, 0, Inr (q ! i))
      | None \<Rightarrow>
          (case wakes of
             [] \<Rightarrow> None
           | DeadlinePassed # _ \<Rightarrow> Some (q, timeout_ms, Inl (Fail (timeout_failure e timeout_ms)))
           | Woken q' timed_out # rest \<Rightarrow>
               if timed_out then
                 (case position (expect_matches re e) q' of
                    Some i \<Rightarrow> Some (remove_at i q', 0, Inr (q' ! i))
                  | None \<Rightarrow> Some (q', timeout_ms, Inl (Fail (timeout_failure e timeout_ms))))
               else recv_match re e timeout_ms q' rest))"

declare recv_match.simps [simp del]

definition restore_deferred :: "message list \<Rightarrow> message list \<Rightarrow> message list" where
  "restore_deferred q deferred = fold (\<lambda>m q. m # q) (rev deferred) q"

definition is_fragment :: "decoded_packet \<Rightarrow> bool" where
  "is_fragment d =
     (case pkt_network (dec_packet d) of
        NetIpv4 h \<Rightarrow> v4_fragment_offset h \<noteq> 0 \<or> v4_more_fragments h
      | NetIpv6 h \<Rightarrow> v6_fragment h \<noteq> None)"

definition raw_reassembly_config :: "nat \<Rightarrow> nat \<Rightarrow> nat \<Rightarrow> reassembly_config" where
  "raw_reassembly_config max_inbox max_payload timeout_ms =
     \<lparr>max_datagrams = min (max max_inbox 1) 4096, max_buffered_bytes = max_payload, reassembly_timeout = max timeout_ms 1\<rparr>"

text \<open>One frame: accepted, kept for later, absorbed by the reassembler, or an error.\<close>

datatype frame_outcome = Accepted message | Deferred | Absorbed | Broken "step_failure fault"

definition handle_frame :: "(string \<Rightarrow> string \<Rightarrow> bool) \<Rightarrow> expect \<Rightarrow> nat \<Rightarrow> reassembler \<Rightarrow> message \<Rightarrow> reassembler \<times> frame_outcome" where
  "handle_frame re e now r m =
     (if expect_matches re e m then (r, Accepted m)
      else case decode_raw_wire (ms_raw m) of
        Inl Panic \<Rightarrow> (r, Broken Panic)
      | Inl (Fail _) \<Rightarrow> (r, Deferred)
      | Inr d \<Rightarrow>
          (case push_at r d now of
             (r', Inl Panic) \<Rightarrow> (r', Broken Panic)
           | (r', Inl (Fail why)) \<Rightarrow> (r', Broken (Fail (RawInvalid why)))
           | (r', Inr None) \<Rightarrow> (r', Absorbed)
           | (r', Inr (Some packet)) \<Rightarrow>
               (case rbind (if is_fragment d then map_err RawInvalid (packet_encode packet) else Inr (ms_raw m))
                       (\<lambda>wire. message_from_raw_wire (ms_from m) wire []) of
                  Inl f \<Rightarrow> (r', Broken f)
                | Inr normalized \<Rightarrow> (r', if expect_matches re e normalized then Accepted normalized else Deferred))))"

definition wanted_sender :: "expect \<Rightarrow> message \<Rightarrow> bool" where
  "wanted_sender e m = (case ex_from e of None \<Rightarrow> True | Some from \<Rightarrow> from = ms_from m)"

text \<open>\<open>clock n\<close> is the instant at which the \<open>n\<close>-th frame is looked at.\<close>

function recv_raw_loop ::
  "(string \<Rightarrow> string \<Rightarrow> bool) \<Rightarrow> expect \<Rightarrow> nat \<Rightarrow> (nat \<Rightarrow> nat) \<Rightarrow> nat \<Rightarrow> reassembler \<Rightarrow> message list \<Rightarrow> message list \<Rightarrow> wake list \<Rightarrow> received option" where
  "recv_raw_loop re e timeout_ms clock n r deferred q wakes =
     (case position (wanted_sender e) q of
        Some i \<Rightarrow>
          (case handle_frame re e (clock n) r (q ! i) of
             (r', Accepted m) \<Rightarrow> Some (restore_deferred (remove_at i q) deferred, 0, Inr m)
           | (r', Deferred) \<Rightarrow> recv_raw_loop re e timeout_ms clock (Suc n) r' (deferred @ [q ! i]) (remove_at i q) wakes
           | (r', Absorbed) \<Rightarrow> recv_raw_loop re e timeout_ms clock (Suc n) r' deferred (remove_at i q) wakes
           | (r', Broken f) \<Rightarrow> Some (remove_at i q, 0, Inl f))
      | None \<Rightarrow>
          (case wakes of
             [] \<Rightarrow> None
           | DeadlinePassed # _ \<Rightarrow> Some (restore_deferred q deferred, timeout_ms, Inl (Fail (timeout_failure e timeout_ms)))
           | Woken q' timed_out # rest \<Rightarrow>
               if timed_out then Some (restore_deferred q' deferred, timeout_ms, Inl (Fail (timeout_failure e timeout_ms)))
               else recv_raw_loop re e timeout_ms clock n r deferred q' rest))"
  by pat_completeness auto

lemma position_Some: "position P xs = Some i \<Longrightarrow> i < length xs \<and> P (xs ! i) \<and> (\<forall>j < i. \<not> P (xs ! j))"
proof (induction xs arbitrary: i)
  case (Cons x xs)
  show ?case
  proof (cases "P x")
    case False
    with Cons.prems obtain k where "i = Suc k" "position P xs = Some k" by auto
    with Cons.IH False show ?thesis by (auto simp: less_Suc_eq_0_disj)
  qed (use Cons.prems in auto)
qed simp

lemma position_None: "position P xs = None \<longleftrightarrow> (\<forall>x \<in> set xs. \<not> P x)"
  by (induction xs) auto

lemma length_remove_at: "i < length xs \<Longrightarrow> Suc (length (remove_at i xs)) = length xs"
  by (simp add: remove_at_def)

termination recv_raw_loop
  by (relation "inv_image (less_than <*lex*> less_than) (\<lambda>(re, e, timeout_ms, clock, n, r, deferred, q, wakes). (length wakes, length q))")
    (auto dest!: position_Some simp: remove_at_def)

declare recv_raw_loop.simps [simp del]

definition recv_raw_match ::
  "(string \<Rightarrow> string \<Rightarrow> bool) \<Rightarrow> expect \<Rightarrow> nat \<Rightarrow> nat \<Rightarrow> nat \<Rightarrow> (nat \<Rightarrow> nat) \<Rightarrow> message list \<Rightarrow> wake list \<Rightarrow> received option" where
  "recv_raw_match re e timeout_ms max_inbox max_payload clock q wakes =
     recv_raw_loop re e timeout_ms clock 0 (reassembler_new (raw_reassembly_config max_inbox max_payload timeout_ms)) [] q wakes"

end
