(* ===== verification/Receive_Correct.thy ===== *)
theory Receive_Correct
  imports Receive
begin

text \<open>
  What receiving guarantees: a receive takes the first matching message and leaves the others
  in their order; the engine's own naming of packet fields adds nothing to the codec's; what
  a raw receive sets aside comes back to the front of the queue, except when it fails.
\<close>

subsection \<open>The first match\<close>

definition seen_queues :: "message list \<Rightarrow> wake list \<Rightarrow> message list list" where
  "seen_queues q wakes = q # concat (map (\<lambda>w. case w of Woken q' _ \<Rightarrow> [q'] | DeadlinePassed \<Rightarrow> []) wakes)"

text \<open>\<open>m\<close> is the first element of \<open>q\<close> with \<open>P\<close>, and \<open>q'\<close> is \<open>q\<close> without it.\<close>

definition takes_first :: "('a \<Rightarrow> bool) \<Rightarrow> 'a list \<Rightarrow> 'a \<Rightarrow> 'a list \<Rightarrow> bool" where
  "takes_first P q m q' \<longleftrightarrow> P m \<and> (\<exists>before after. q = before @ m # after \<and> q' = before @ after \<and> (\<forall>x \<in> set before. \<not> P x))"

lemma position_takes_first:
  assumes "position P q = Some i"
  shows "takes_first P q (q ! i) (remove_at i q)"
proof -
  note i = position_Some [OF assms]
  have "q = take i q @ q ! i # drop (Suc i) q" using i by (simp add: id_take_nth_drop)
  moreover have "\<forall>m \<in> set (take i q). \<not> P m" using i by (auto simp: in_set_conv_nth)
  ultimately show ?thesis using i unfolding remove_at_def takes_first_def by blast
qed

text \<open>
  C33: a receive takes the first queued message that its expectation accepts and nothing else.
  When \<open>recv_match\<close> returns a message, some contents the queue had while it waited are
  \<open>before @ m # after\<close> with \<open>m\<close> accepted and nothing in \<open>before\<close> accepted, and the queue is left as
  \<open>before @ after\<close>, so that messages for other receives keep their order. When it times out, no
  queued message is accepted, none is removed, and the virtual clock advances by the timeout.
\<close>

theorem receive_takes_first_match:
  assumes "recv_match re e timeout_ms q wakes = Some (q', adv, out)"
  shows "case out of
      Inr m \<Rightarrow> adv = 0 \<and> (\<exists>p \<in> set (seen_queues q wakes). takes_first (expect_matches re e) p m q')
    | Inl f \<Rightarrow> f = Fail (timeout_failure e timeout_ms) \<and> adv = timeout_ms \<and> q' \<in> set (seen_queues q wakes) \<and>
        (\<forall>x \<in> set q'. \<not> expect_matches re e x)"
  using assms
proof (induction wakes arbitrary: q)
  case Nil
  show ?case
  proof (cases "position (expect_matches re e) q")
    case (Some i)
    with Nil position_takes_first [OF Some] show ?thesis by (auto simp: recv_match.simps [of _ _ _ q] seen_queues_def)
  qed (use Nil in \<open>simp add: recv_match.simps\<close>)
next
  case (Cons w wakes)
  show ?case
  proof (cases "position (expect_matches re e) q")
    case (Some i)
    with Cons.prems position_takes_first [OF Some] show ?thesis by (auto simp: recv_match.simps [of _ _ _ q] seen_queues_def)
  next
    case none: None
    show ?thesis
    proof (cases w)
      case DeadlinePassed
      with Cons.prems position_None [THEN iffD1, OF none] show ?thesis
        by (auto simp: recv_match.simps [of _ _ _ q] none seen_queues_def)
    next
      case (Woken p timed)
      show ?thesis
      proof (cases timed)
        case False
        with none Woken Cons.prems have "recv_match re e timeout_ms p wakes = Some (q', adv, out)"
          by (simp add: recv_match.simps [of _ _ _ q])
        from Cons.IH [OF this] show ?thesis by (cases out) (auto simp: seen_queues_def Woken)
      next
        case True
        show ?thesis
        proof (cases "position (expect_matches re e) p")
          case (Some i)
          with none Woken True Cons.prems position_takes_first [OF Some] show ?thesis
            by (auto simp: recv_match.simps [of _ _ _ q] seen_queues_def)
        next
          case None
          with Woken True Cons.prems position_None [THEN iffD1, OF None] show ?thesis
            by (auto simp: recv_match.simps [of _ _ _ q] none seen_queues_def)
        qed
      qed
    qed
  qed
qed

subsection \<open>Fields of raw packets\<close>

lemma bt_insert_same: "bt_wf m \<Longrightarrow> map_of m k = Some v \<Longrightarrow> bt_insert k v m = m"
proof (induction m)
  case (Cons kv m)
  show ?case
  proof (cases "k = fst kv")
    case False
    with Cons.prems have "(k, v) \<in> set m" by (auto dest: map_of_SomeD)
    with Cons.prems have "fst kv < k" by fastforce
    with Cons False show ?thesis by (cases kv) auto
  qed (use Cons.prems in \<open>cases kv, simp\<close>)
qed simp

lemma fold_insert_same:
  "bt_wf m \<Longrightarrow> \<forall>(k, v) \<in> set kvs. map_of m k = Some v \<Longrightarrow> fold (\<lambda>(k, v). bt_insert k v) kvs m = m"
  by (induction kvs) (auto simp: bt_insert_same)

lemma bt_wf_collect: "bt_wf (collect_map kvs)"
  unfolding collect_map_def by (rule bt.wf_fold_update) simp

lemma map_of_collect: "distinct (map fst kvs) \<Longrightarrow> (k, v) \<in> set kvs \<Longrightarrow> map_of (collect_map kvs) k = Some v"
proof -
  assume "distinct (map fst kvs)" and "(k, v) \<in> set kvs"
  then have "map_of (rev kvs) k = Some v" by (intro map_of_is_SomeI) (simp_all add: rev_map [symmetric])
  then show ?thesis by (simp add: collect_map_def bt.lookup_fold_update)
qed

text \<open>No name is used twice.\<close>

definition tagged :: "string set \<Rightarrow> (string \<times> val) list \<Rightarrow> bool" where
  "tagged tags kvs \<longleftrightarrow> distinct (map fst kvs) \<and> (\<forall>kv \<in> set kvs. take 3 (fst kv) \<in> tags)"

lemma tagged_append: "tagged a xs \<Longrightarrow> tagged b ys \<Longrightarrow> a \<inter> b = {} \<Longrightarrow> tagged (a \<union> b) (xs @ ys)"
  by (auto simp: tagged_def) fastforce

lemma tagged_fields:
  "tagged {''eth''} (ethernet_fields e)" "tagged {''ip.'', ''ipv''} (ipv4_fields h4 valid)" "tagged {''ip.'', ''ipv''} (ipv6_fields h6)"
  "tagged {''tcp'', ''udp''} (tcp_fields t)" "tagged {''tcp'', ''udp''} (udp_fields u)" "tagged tags []"
  "take 3 k \<in> tags \<Longrightarrow> tagged tags [(k, v)]"
  by (auto simp: tagged_def ethernet_fields_def ipv4_fields_def ipv6_fields_def tcp_fields_def tcp_flag_fields_def udp_fields_def
      split: option.split)

text \<open>The entries of \<open>decoded_fields\<close>, of which those of the engine are some.\<close>

definition decoded_entries :: "decoded_packet \<Rightarrow> (string \<times> val) list" where
  "decoded_entries d =
     [(''packet.length'', nat_val (length (dec_network_payload d)))] @
     (case pkt_ethernet (dec_packet d) of None \<Rightarrow> [] | Some e \<Rightarrow> ethernet_fields e) @
     (case pkt_network (dec_packet d) of NetIpv4 h \<Rightarrow> ipv4_fields h (dec_ipv4_checksum_valid d) | NetIpv6 h \<Rightarrow> ipv6_fields h) @
     (case pkt_transport (dec_packet d) of None \<Rightarrow> [] | Some (TransTcp h) \<Rightarrow> tcp_fields h | Some (TransUdp h) \<Rightarrow> udp_fields h) @
     (case dec_transport_checksum_valid d of None \<Rightarrow> [] | Some b \<Rightarrow> [(''transport.checksum_valid'', VBool b)]) @
     [(''raw.payload'', VBytes (pkt_payload (dec_packet d)))]"

lemma decoded_entries_distinct: "distinct (map fst (decoded_entries d))"
proof -
  have "tagged ({''pac''} \<union> ({''eth''} \<union> ({''ip.'', ''ipv''} \<union> ({''tcp'', ''udp''} \<union> ({''tra''} \<union> {''raw''}))))) (decoded_entries d)"
    unfolding decoded_entries_def
    by (intro tagged_append)
      (auto simp: tagged_fields split: option.split network_header.split transport_header.split)
  then show ?thesis by (simp add: tagged_def)
qed

lemma decoded_field_entry: "(k, v) \<in> set (decoded_entries d) \<Longrightarrow> map_of (decoded_fields d) k = Some v"
  using map_of_collect [OF decoded_entries_distinct, of k v d] by (simp add: decoded_fields_def decoded_entries_def)

lemma legacy_ethernet_subset:
  "set (legacy_ethernet_fields eth) \<subseteq> set (case eth of None \<Rightarrow> [] | Some e \<Rightarrow> ethernet_fields e)"
proof (cases eth)
  case (Some e)
  then show ?thesis by (cases "eth_vlan e") (simp_all add: legacy_ethernet_fields_def ethernet_fields_def)
qed (simp add: legacy_ethernet_fields_def)

lemma legacy_network_subset:
  "set (legacy_network_fields d) \<subseteq>
     set (case pkt_network (dec_packet d) of NetIpv4 h \<Rightarrow> ipv4_fields h (dec_ipv4_checksum_valid d) | NetIpv6 h \<Rightarrow> ipv6_fields h)"
proof (cases "pkt_network (dec_packet d)")
  case (NetIpv4 h)
  then show ?thesis by (cases "dec_ipv4_checksum_valid d") (simp_all add: legacy_network_fields_def ipv4_fields_def)
next
  case (NetIpv6 h)
  then show ?thesis by (cases "v6_fragment h") (simp_all add: legacy_network_fields_def ipv6_fields_def)
qed

lemma legacy_transport_subset:
  "set (legacy_transport_fields th) \<subseteq>
     set (case th of None \<Rightarrow> [] | Some (TransTcp h) \<Rightarrow> tcp_fields h | Some (TransUdp h) \<Rightarrow> udp_fields h)"
proof (cases th)
  case (Some h)
  then show ?thesis by (cases h) (simp_all add: legacy_transport_fields_def tcp_fields_def udp_fields_def)
qed (simp add: legacy_transport_fields_def)

text \<open>
  C34: the engine names the fields of a raw packet exactly as the codec does: the assignments
  \<open>raw_packet_fields\<close> makes over \<open>decoded_fields\<close> for compatibility store, under every name, the
  value that is there already. Expectations on raw receives and fault predicates of the
  transport therefore see the same fields.
\<close>

theorem raw_fields_are_decoded_fields: "raw_packet_fields d = decoded_fields d"
proof -
  have "bt_wf (decoded_fields d)" by (simp add: decoded_fields_def bt_wf_collect)
  moreover have "set ((''packet.length'', nat_val (length (dec_network_payload d))) #
      legacy_ethernet_fields (pkt_ethernet (dec_packet d)) @ legacy_network_fields d @
      legacy_transport_fields (pkt_transport (dec_packet d)) @
      (case dec_transport_checksum_valid d of None \<Rightarrow> [] | Some b \<Rightarrow> [(''transport.checksum_valid'', VBool b)]) @
      [(''raw.payload'', VBytes (pkt_payload (dec_packet d)))]) \<subseteq> set (decoded_entries d)"
    unfolding decoded_entries_def set_append set_simps
    using legacy_ethernet_subset legacy_network_subset legacy_transport_subset by blast
  ultimately show ?thesis
    unfolding raw_packet_fields_def by (intro fold_insert_same) (use decoded_field_entry in blast)+
qed

subsection \<open>Frames a raw receive sets aside\<close>

lemma restore_deferred_append: "restore_deferred q deferred = deferred @ q"
  by (induction deferred) (simp_all add: restore_deferred_def)

lemma map_err_eq_Inl: "map_err f r = Inl e \<longleftrightarrow> r = Inl Panic \<and> e = Panic \<or> (\<exists>x. r = Inl (Fail x) \<and> e = Fail (f x))"
  by (cases "(f, r)" rule: map_err.cases) auto

lemma message_from_raw_wire_error:
  "message_from_raw_wire from bs kvs = Inl f \<Longrightarrow> f \<noteq> Fail (timeout_failure e timeout_ms)"
  by (auto simp: message_from_raw_wire_def rbind_eq_Inl map_err_eq_Inl Let_def case_prod_unfold timeout_failure_def)

lemma handle_frame_broken: "handle_frame re e now r m = (r', Broken f) \<Longrightarrow> f \<noteq> Fail (timeout_failure e' timeout_ms)"
  by (auto simp: handle_frame_def rbind_eq_Inl map_err_eq_Inl timeout_failure_def
      split: if_splits sum.splits fault.splits prod.splits option.splits
      dest!: message_from_raw_wire_error [where e = e' and timeout_ms = timeout_ms])

text \<open>Unless it fails, a raw receive puts what it has set aside back in front, in order.\<close>

lemma raw_loop_restores:
  assumes "recv_raw_loop re e timeout_ms clock n r deferred q wakes = Some (q', adv, out)"
    and "out = Inr m \<or> out = Inl (Fail (timeout_failure e timeout_ms))"
  shows "\<exists>rest. q' = deferred @ rest"
  using assms
proof (induction re e timeout_ms clock n r deferred q wakes rule: recv_raw_loop.induct)
  case (1 re e timeout_ms clock n r deferred q wakes)
  show ?case
  proof (cases "position (wanted_sender e) q")
    case (Some i)
    obtain r' o' where h: "handle_frame re e (clock n) r (q ! i) = (r', o')" by (cases "handle_frame re e (clock n) r (q ! i)")
    show ?thesis
    proof (cases o')
      case (Accepted x)
      with 1(4) Some h show ?thesis by (auto simp: recv_raw_loop.simps [of _ _ _ _ _ _ _ q] restore_deferred_append)
    next
      case Deferred
      with 1(4) Some h have "recv_raw_loop re e timeout_ms clock (Suc n) r' (deferred @ [q ! i]) (remove_at i q) wakes = Some (q', adv, out)"
        by (simp add: recv_raw_loop.simps [of _ _ _ _ _ _ _ q])
      from 1(2) [OF Some h [symmetric] Deferred this 1(5)] show ?thesis by auto
    next
      case Absorbed
      with 1(4) Some h have "recv_raw_loop re e timeout_ms clock (Suc n) r' deferred (remove_at i q) wakes = Some (q', adv, out)"
        by (simp add: recv_raw_loop.simps [of _ _ _ _ _ _ _ q])
      from 1(3) [OF Some h [symmetric] Absorbed this 1(5)] show ?thesis .
    next
      case (Broken f)
      with 1(4,5) Some h handle_frame_broken [of re e "clock n" r "q ! i" r' f e timeout_ms] show ?thesis by (auto simp: recv_raw_loop.simps [of _ _ _ _ _ _ _ q])
    qed
  next
    case None
    note none = None
    show ?thesis
    proof (cases wakes)
      case Nil
      with 1(4) None show ?thesis by (simp add: recv_raw_loop.simps [of _ _ _ _ _ _ _ q])
    next
      case (Cons w ws)
      show ?thesis
      proof (cases w)
        case DeadlinePassed
        with 1(4) None Cons show ?thesis by (auto simp: recv_raw_loop.simps [of _ _ _ _ _ _ _ q] restore_deferred_append)
      next
        case (Woken p timed)
        show ?thesis
        proof (cases timed)
          case True
          with 1(4) None Cons Woken show ?thesis by (auto simp: recv_raw_loop.simps [of _ _ _ _ _ _ _ q] restore_deferred_append)
        next
          case False
          with 1(4) None Cons Woken have "recv_raw_loop re e timeout_ms clock n r deferred p ws = Some (q', adv, out)"
            by (simp add: recv_raw_loop.simps [of _ _ _ _ _ _ _ q])
          from 1(1) [OF None Cons Woken False this 1(5)] show ?thesis .
        qed
      qed
    qed
  qed
qed

definition junk_frame :: message where
  "junk_frame = \<lparr>ms_from = ''peer'', ms_flags = [], ms_seq = 0, ms_ack = 0, ms_payload = [], ms_raw = [0], ms_window = 0,
     ms_stream = None, ms_fields = []\<rparr>"

definition odd_fragment :: message where
  "odd_fragment = junk_frame\<lparr>ms_raw := [0x45, 0, 0, 21, 0, 9, 0x20, 0, 64, 253, 0, 0, 10, 0, 0, 1, 10, 0, 0, 2, 7]\<rparr>"

definition syn_expect :: expect where
  "syn_expect = default_expect\<lparr>ex_flags := [''SYN'']\<rparr>"

lemma junk_undecodable: "\<exists>err. decode_raw_wire (ms_raw junk_frame) = Inl (Fail err)"
proof -
  have "(case decode_raw_wire (ms_raw junk_frame) of Inl (Fail _) \<Rightarrow> True | _ \<Rightarrow> False)" by code_simp
  then show ?thesis by (auto split: sum.splits fault.splits)
qed
lemma odd_decodes:
  "\<exists>d k off pr. decode_raw_wire (ms_raw odd_fragment) = Inr d \<and>
     fragment_identity d = Some (k, off, True, pr) \<and> length (dec_network_payload d) = 1"
  by (simp add: odd_fragment_def decode_raw_wire_def packet_consts decode_ip_def decode_ip_inner_def decode_ipv4_def byte_at_def
      be_at_def slice_def be_word_def decode_payload_def complete_transport_header_def fragment_identity_def decode_transport_def Let_def)

lemma sample_no_match: "\<not> expect_matches re syn_expect junk_frame" "\<not> expect_matches re syn_expect odd_fragment"
  by (simp_all add: expect_matches_def syn_expect_def default_expect_def junk_frame_def odd_fragment_def)

lemma handle_junk: "handle_frame re syn_expect now r junk_frame = (r, Deferred)"
  using junk_undecodable by (auto simp: handle_frame_def sample_no_match)

lemma handle_odd:
  "handle_frame re syn_expect now (reassembler_new config) odd_fragment =
   (reassembler_new config, Broken (Fail (RawInvalid (Msg ''non-final IP fragment length is not a multiple of 8''))))"
proof -
  obtain d k off pr where d: "decode_raw_wire (ms_raw odd_fragment) = Inr d" "fragment_identity d = Some (k, off, True, pr)"
      "length (dec_network_payload d) = 1"
    using odd_decodes by blast
  have "push_at (reassembler_new config) d now = (reassembler_new config, err ''non-final IP fragment length is not a multiple of 8'')"
    by (simp add: push_at_def d(2,3) expire_def reassembler_new_def Let_def)
  then show ?thesis by (simp add: handle_frame_def sample_no_match d(1))
qed

text \<open>
  a raw receive that fails loses frames it had only set aside. Looking for a SYN, the
  receive defers an undecodable frame (for a later receive), then meets a malformed fragment
  and fails with a validation error: the queue is empty afterwards, the deferred frame gone.
  The same receive without the malformed fragment times out and leaves the deferred frame
  in the queue.
\<close>

theorem raw_receive_error_drops_deferred:
  "recv_raw_match re syn_expect 5 10 100 clock [junk_frame, odd_fragment] [DeadlinePassed] =
     Some ([], 0, Inl (Fail (RawInvalid (Msg ''non-final IP fragment length is not a multiple of 8'')))) \<and>
   recv_raw_match re syn_expect 5 10 100 clock [junk_frame] [DeadlinePassed] =
     Some ([junk_frame], 5, Inl (Fail (timeout_failure syn_expect 5)))"
proof -
  have w: "wanted_sender syn_expect m" for m by (simp add: wanted_sender_def syn_expect_def default_expect_def)
  show ?thesis
    by (simp add: recv_raw_match_def recv_raw_loop.simps w handle_junk handle_odd remove_at_def restore_deferred_def)
qed

theorem receive_takes_first_match_witness:
  "recv_match (\<lambda>_ _. False) default_expect 5 [junk_frame, odd_fragment] [] = Some ([odd_fragment], 0, Inr junk_frame) \<and>
   takes_first (expect_matches (\<lambda>_ _. False) default_expect) [junk_frame, odd_fragment] junk_frame [odd_fragment]"
proof -
  have "expect_matches (\<lambda>_ _. False) default_expect junk_frame" by (simp add: expect_matches_def default_expect_def)
  then have r: "recv_match (\<lambda>_ _. False) default_expect 5 [junk_frame, odd_fragment] [] = Some ([odd_fragment], 0, Inr junk_frame)"
    by (simp add: recv_match.simps remove_at_def)
  from receive_takes_first_match [OF r] r show ?thesis by (simp add: seen_queues_def)
qed

end
