(* ===== verification/Inbox_Bounds.thy ===== *)
theory Inbox_Bounds
  imports Sim_Transport_Correct Receive_Correct
begin

text \<open>
  How long the inboxes of the in-process transport can get. Sends and delayed deliveries respect
  \<open>max_inbox\<close>; a raw receive sets frames aside and puts them back with \<open>restore_deferred\<close>, which does
  not. The steps are those of the transport together with the frames each role has set aside.
\<close>

subsection \<open>The network with its receivers\<close>

record net_state =
  ns_transport :: transport
  ns_deferred :: "string \<Rightarrow> message list"

datatype net_event =
    EvSend string message nat "string option"
  | EvWorker nat
  | EvTake string nat
  | EvDefer string nat
  | EvRestore string nat
  | EvAbandon string

text \<open>
  A receive takes one message of the queue (\<open>EvTake\<close>). A raw receive may set aside frames
  (\<open>EvDefer\<close>); on a match or a timeout it puts them back, the event says how many
  (\<open>EvRestore\<close>), and on an error they are gone (\<open>EvAbandon\<close>).
\<close>

inductive net_step :: "(string \<Rightarrow> message \<Rightarrow> string option) \<Rightarrow> net_state \<Rightarrow> net_event \<Rightarrow> net_state \<Rightarrow> bool"
  for sock :: "string \<Rightarrow> message \<Rightarrow> string option" where
  send: "net_step sock n (EvSend to msg extra step) (n\<lparr>ns_transport := fst (send_scoped sock (ns_transport n) to msg extra step)\<rparr>)"
| worker: "i < length (tr_workers (ns_transport n)) \<Longrightarrow> net_step sock n (EvWorker i) (n\<lparr>ns_transport := run_worker (ns_transport n) i\<rparr>)"
| receive: "inbox (ns_transport n) role = Some q \<Longrightarrow> i < length q \<Longrightarrow>
    net_step sock n (EvTake role i) (n\<lparr>ns_transport := set_inbox role (remove_at i q) (ns_transport n)\<rparr>)"
| defer_frame: "inbox (ns_transport n) role = Some q \<Longrightarrow> i < length q \<Longrightarrow>
    net_step sock n (EvDefer role i)
      \<lparr>ns_transport = set_inbox role (remove_at i q) (ns_transport n),
       ns_deferred = (ns_deferred n)(role := ns_deferred n role @ [q ! i])\<rparr>"
| restore: "inbox (ns_transport n) role = Some q \<Longrightarrow>
    net_step sock n (EvRestore role (length (ns_deferred n role)))
      \<lparr>ns_transport = set_inbox role (restore_deferred q (ns_deferred n role)) (ns_transport n),
       ns_deferred = (ns_deferred n)(role := [])\<rparr>"
| abandon: "net_step sock n (EvAbandon role) (n\<lparr>ns_deferred := (ns_deferred n)(role := [])\<rparr>)"

inductive_cases net_stepE: "net_step sock n ev n'"

fun put_back :: "string \<Rightarrow> net_event list \<Rightarrow> nat" where
  "put_back role [] = 0"
| "put_back role (EvRestore r k # evs) = (if r = role then k else 0) + put_back role evs"
| "put_back role (_ # evs) = put_back role evs"

lemma put_back_snoc: "put_back role (evs @ [ev]) = put_back role evs + put_back role [ev]"
  by (induction evs rule: put_back.induct) auto

definition net_start :: "transport \<Rightarrow> net_state" where
  "net_start t = \<lparr>ns_transport = t, ns_deferred = \<lambda>_. []\<rparr>"

subsection \<open>Every step keeps within the bound\<close>

definition inboxes_within :: "nat \<Rightarrow> (string \<Rightarrow> nat) \<Rightarrow> transport \<Rightarrow> bool" where
  "inboxes_within mx extra t \<longleftrightarrow> rl_max_inbox (tr_limits t) = mx \<and> (\<forall>role q. inbox t role = Some q \<longrightarrow> length q \<le> mx + extra role)"

lemma within_same: "same_network t t' \<Longrightarrow> inboxes_within mx x t \<Longrightarrow> inboxes_within mx x t'"
  by (simp add: inboxes_within_def same_networkD)

lemma within_set: "inboxes_within mx x t \<Longrightarrow> length q \<le> mx + x role \<Longrightarrow> inboxes_within mx x (set_inbox role q t)"
  by (auto simp: inboxes_within_def)

lemma within_mono: "inboxes_within mx x t \<Longrightarrow> (\<And>role. x role \<le> y role) \<Longrightarrow> inboxes_within mx y t"
  by (auto simp: inboxes_within_def) (meson add_le_cancel_left order_trans)

lemma deliver_within:
  assumes "deliver_copies q msg r ls mx dup = (q', e)" and "length q \<le> mx + k"
  shows "length q' \<le> mx + k"
proof (cases ls)
  case None
  then show ?thesis using assms deliver_copies_bounded [of q msg r mx dup] by simp
next
  case (Some sock)
  then show ?thesis using assms deliver_live_queue [of q msg r sock mx dup] by simp
qed

lemma finish_send_within:
  assumes "inboxes_within mx x t" and "inbox t to = Some q"
  shows "inboxes_within mx x (fst (finish_send sock t to q sh))"
proof -
  have q: "length q \<le> mx + x to" and mx: "rl_max_inbox (tr_limits t) = mx" using assms by (auto simp: inboxes_within_def)
  have w: "inboxes_within mx x (t\<lparr>tr_workers := ws\<rparr>)" for ws using assms(1) by (simp add: inboxes_within_def)
  show ?thesis
    unfolding finish_send_def mx
    by (auto simp: assms(1) w Let_def within_set deliver_within [OF _ q] split: sum.splits bool.splits prod.splits option.splits)
qed

lemma send_within:
  assumes "inboxes_within mx x t"
  shows "inboxes_within mx x (fst (send_scoped sock t to msg extra step))"
proof -
  obtain t' r where s: "send_scoped sock t to msg extra step = (t', r)" by (cases "send_scoped sock t to msg extra step")
  then have "inboxes_within mx x t'"
  proof (cases rule: send_scoped_cases)
    case (passes t1 el ord t2 q c sh)
    have "inboxes_within mx x t2" using within_same [OF passes(4) assms] .
    with finish_send_within [of mx x t2 to q sock sh] passes show ?thesis by (simp add: same_networkD)
  qed (use assms within_same in auto)
  with s show ?thesis by simp
qed

lemma worker_within: "inboxes_within mx x t \<Longrightarrow> inboxes_within mx x (run_worker t i)"
proof -
  assume w: "inboxes_within mx x t"
  have t': "inboxes_within mx x (t\<lparr>tr_workers := ws\<rparr>)" "inboxes_within mx x (t\<lparr>tr_workers := ws, tr_worker_errors := es\<rparr>)" for ws es
    using w by (simp_all add: inboxes_within_def)
  have upd: "inbox t role = Some q \<Longrightarrow> deliver_copies q m r None (rl_max_inbox (tr_limits t)) d = (q', e) \<Longrightarrow> length q' \<le> mx + x role"
    for role q m r d q' e
    using w by (intro deliver_within [of q m r None mx d q' e]) (auto simp: inboxes_within_def)
  show ?thesis
    unfolding run_worker_def
    by (auto simp: Let_def t' within_set upd split: option.splits prod.splits fault.splits)
qed

lemma taken_within: "inboxes_within mx x t \<Longrightarrow> inbox t role = Some q \<Longrightarrow> inboxes_within mx x (set_inbox role (remove_at i q) t)"
  by (rule within_set) (auto simp: inboxes_within_def remove_at_def min_def intro: le_trans [OF diff_le_self])

lemma restored_within:
  assumes "inboxes_within mx x t" and "inbox t role = Some q"
  shows "inboxes_within mx (\<lambda>r. x r + (if role = r then length ds else 0)) (set_inbox role (restore_deferred q ds) t)"
  using assms by (intro within_set within_mono [OF assms(1)]) (auto simp: inboxes_within_def restore_deferred_append)

lemma step_within_bound:
  assumes "inboxes_within mx x (ns_transport n)" and "net_step sock n ev n'"
  shows "inboxes_within mx (\<lambda>role. x role + put_back role [ev]) (ns_transport n')"
  using assms(2,1)
proof (cases rule: net_step.cases)
  case (restore role q)
  then show ?thesis using restored_within [OF assms(1) restore(3)] by (simp add: eq_commute)
qed (auto simp: send_within worker_within taken_within)

lemma run_within_bound:
  assumes "run (net_step sock) n evs n'" and "inboxes_within mx (\<lambda>_. 0) (ns_transport n)"
  shows "inboxes_within mx (\<lambda>role. put_back role evs) (ns_transport n')"
  using assms(1)
proof (induction evs arbitrary: n' rule: rev_induct)
  case Nil
  then show ?case using assms(2) by simp
next
  case (snoc ev evs)
  then obtain m where "run (net_step sock) n evs m" "net_step sock m ev n'" by (auto simp: run_snoc)
  from step_within_bound [OF snoc.IH [OF this(1)] this(2)] show ?case by (simp add: put_back_snoc [abs_def])
qed

lemma new_transport_within: "inboxes_within (rl_max_inbox limits) (\<lambda>_. 0) (with_options now roles config limits vt)"
proof -
  have "map_of (fold (\<lambda>r. AList.update r []) roles m) role = Some q \<Longrightarrow> q = [] \<or> map_of m role = Some q"
    for role and q :: "message list" and m
    by (induction roles arbitrary: m) (simp, fastforce simp: update_conv' split: if_splits)
  then show ?thesis by (fastforce simp: inboxes_within_def with_options_def inbox_def)
qed

text \<open>
  C27: how far an inbox can exceed \<open>max_inbox\<close>. From a new in-process transport, under every
  interleaving of sends by all roles, wake-ups of delayed deliveries in any order, receives of any
  queued message, and raw receives that set frames aside and put them back or lose them, an inbox
  holds at most \<open>max_inbox\<close> messages more than have been put back into it so far. So sends,
  duplicates and reordering never exceed the limit, while \<open>restore_deferred\<close>, which does not check
  it, can.
\<close>

theorem inboxes_bounded:
  assumes "run (net_step sock) (net_start (with_options now roles config limits vt)) evs n" and "inbox (ns_transport n) role = Some q"
  shows "length q \<le> rl_max_inbox limits + put_back role evs"
  using run_within_bound [OF assms(1), of "rl_max_inbox limits"] new_transport_within [of limits] assms(2)
  by (simp add: net_start_def inboxes_within_def)

text \<open>
  With room for one message: the frame is set aside, another one is sent meanwhile, and putting the
  first back makes two.
\<close>

definition tight_limits :: resource_limits where
  "tight_limits = default_resource_limits\<lparr>rl_max_inbox := 1\<rparr>"

definition tight_transport :: transport where
  "tight_transport = with_options 1 [''a'', ''b''] default_transport_config tight_limits True"

lemma tight_facts: "perfect_link tight_transport" "inbox tight_transport ''b'' = Some []" "tr_limits tight_transport = tight_limits"
  by (simp_all add: perfect_link_def fault_free_def tight_transport_def with_options_def default_transport_config_def f64_lt_def inbox_def)

lemma tight_send:
  assumes "perfect_link t" and "inbox t ''b'' = Some []" and "tr_limits t = tight_limits"
  defines "t' \<equiv> fst (send_scoped (\<lambda>_ _. None) t ''b'' ping 0 None)"
  shows "perfect_link t' \<and> inbox t' ''b'' = Some [ping] \<and> tr_limits t' = tight_limits"
proof -
  obtain r where r: "send_scoped (\<lambda>_ _. None) t ''b'' ping 0 None = (t', r)"
    unfolding t'_def by (metis prod.collapse)
  have "payload_len ping = 2" by (simp add: ping_def payload_len_def)
  then show ?thesis
    using perfect_send [OF assms(1) r] assms(2,3) by (simp add: fifo_send_def tight_limits_def default_resource_limits_def)
qed

theorem inboxes_bounded_witness:
  "\<exists>n. run (net_step (\<lambda>_ _. None)) (net_start tight_transport)
       [EvSend ''b'' ping 0 None, EvDefer ''b'' 0, EvSend ''b'' ping 0 None, EvRestore ''b'' 1] n \<and>
     inbox (ns_transport n) ''b'' = Some [ping, ping] \<and> length [ping, ping] \<le> rl_max_inbox tight_limits + 1"
proof -
  let ?send = "\<lambda>t. fst (send_scoped (\<lambda>_ _. None) t ''b'' ping 0 None)"
  define t1 where "t1 = ?send tight_transport"
  have t1: "perfect_link t1 \<and> inbox t1 ''b'' = Some [ping] \<and> tr_limits t1 = tight_limits"
    unfolding t1_def by (rule tight_send [OF tight_facts])
  define t2 where "t2 = set_inbox ''b'' (remove_at 0 [ping]) t1"
  have "perfect_link t2" "inbox t2 ''b'' = Some []" "tr_limits t2 = tight_limits"
    using t1 by (simp_all add: t2_def perfect_link_def remove_at_def set_inbox_def inbox_def update_conv')
  note t3 = tight_send [OF this]
  define n where "n = \<lparr>ns_transport = set_inbox ''b'' (restore_deferred [ping] [ping]) (?send t2), ns_deferred = \<lambda>_. []\<rparr>"
  have run: "run (net_step (\<lambda>_ _. None)) (net_start tight_transport)
       [EvSend ''b'' ping 0 None, EvDefer ''b'' 0, EvSend ''b'' ping 0 None, EvRestore ''b'' 1] n"
  proof (intro run.next_step)
    show "net_step (\<lambda>_ _. None) (net_start tight_transport) (EvSend ''b'' ping 0 None) \<lparr>ns_transport = t1, ns_deferred = \<lambda>_. []\<rparr>"
      using net_step.send [of _ "net_start tight_transport"] by (simp add: net_start_def t1_def)
    show "net_step (\<lambda>_ _. None) \<lparr>ns_transport = t1, ns_deferred = \<lambda>_. []\<rparr> (EvDefer ''b'' 0)
        \<lparr>ns_transport = t2, ns_deferred = (\<lambda>_. [])(''b'' := [ping])\<rparr>"
      using net_step.defer_frame [of "\<lparr>ns_transport = t1, ns_deferred = \<lambda>_. []\<rparr>" "''b''" "[ping]" 0] t1 by (simp add: t2_def)
    show "net_step (\<lambda>_ _. None) \<lparr>ns_transport = t2, ns_deferred = (\<lambda>_. [])(''b'' := [ping])\<rparr> (EvSend ''b'' ping 0 None)
        \<lparr>ns_transport = ?send t2, ns_deferred = (\<lambda>_. [])(''b'' := [ping])\<rparr>"
      using net_step.send [of _ "\<lparr>ns_transport = t2, ns_deferred = (\<lambda>_. [])(''b'' := [ping])\<rparr>"] by simp
    show "net_step (\<lambda>_ _. None) \<lparr>ns_transport = ?send t2, ns_deferred = (\<lambda>_. [])(''b'' := [ping])\<rparr> (EvRestore ''b'' 1) n"
      using net_step.restore [of "\<lparr>ns_transport = ?send t2, ns_deferred = (\<lambda>_. [])(''b'' := [ping])\<rparr>" "''b''" "[ping]"] t3
      by (simp add: n_def fun_upd_idem)
  qed simp
  have q: "inbox (ns_transport n) ''b'' = Some [ping, ping]" by (simp add: n_def restore_deferred_append)
  from inboxes_bounded [OF run [unfolded tight_transport_def] q] run q show ?thesis by auto
qed

end
