(* ===== verification/Parser.thy ===== *)
theory Parser
  imports Value
begin

unbundle bit_operations_syntax

text \<open>
  The lexer and the recursive-descent parser of \<open>src/src/parser.rs\<close>. The lexer works on the
  bytes that are left of the source; \<open>bump\<close> keeps line and column. The parser walks over the
  vector of tokens by position, and indexing beyond its end is \<open>Panic\<close>; its recursion takes
  fuel. Number literals become the nearest double, ties to even, as \<open>str::parse\<close> has it.
\<close>

subsection \<open>Errors and tokens\<close>

datatype tok =
    TIdent string
  | TString string
  | TNumber f64
  | TBool bool
  | TLBrace
  | TRBrace
  | TLBracket
  | TRBracket
  | TEquals
  | TComma
  | TEof

record token =
  tk_kind :: tok
  tk_line :: nat
  tk_column :: nat

datatype parse_message =
    UnexpectedChar byte
  | UnterminatedString
  | UnterminatedEscape
  | InvalidNumber
  | ExpectedBlockName
  | ExpectedBrace string
  | MissingBrace
  | DuplicateAttribute string
  | ExpectedEqualsQuoted
  | ExpectedIdentifier tok
  | ExpectedValue tok
  | ExpectedCommaBracket tok
  | ExpectedEqualsObject
  | DuplicateKey string
  | ExpectedIdentObject tok
  | OutOfParserFuel

record parse_error =
  pe_source :: "string option"
  pe_line :: nat
  pe_column :: nat
  pe_message :: parse_message

type_synonym 'a pares = "(parse_error, 'a) res"

definition parse_err :: "nat \<Rightarrow> nat \<Rightarrow> parse_message \<Rightarrow> 'a pares" where
  "parse_err line column message =
     Inl (Fail \<lparr>pe_source = None, pe_line = line, pe_column = column, pe_message = message\<rparr>)"

subsection \<open>The lexer\<close>

record lexer =
  lx_rest :: bytes
  lx_line :: nat
  lx_column :: nat

definition lexer_new :: "string \<Rightarrow> lexer" where
  "lexer_new src = \<lparr>lx_rest = bytes_of src, lx_line = 1, lx_column = 1\<rparr>"

definition lx_bump :: "lexer \<Rightarrow> lexer" where
  "lx_bump l =
     (case lx_rest l of
        [] \<Rightarrow> l
      | b # bs \<Rightarrow>
          if b = 10 then \<lparr>lx_rest = bs, lx_line = lx_line l + 1, lx_column = 1\<rparr>
          else \<lparr>lx_rest = bs, lx_line = lx_line l, lx_column = lx_column l + 1\<rparr>)"

text \<open>\<open>while let Some(c) = self.peek() { if p(c) { self.bump() } else { break } }\<close>, with the bytes passed over.\<close>

function lx_while :: "(byte \<Rightarrow> bool) \<Rightarrow> lexer \<Rightarrow> bytes \<times> lexer" where
  "lx_while p l =
     (case lx_rest l of
        [] \<Rightarrow> ([], l)
      | b # _ \<Rightarrow> if p b then (let (bs, l') = lx_while p (lx_bump l) in (b # bs, l')) else ([], l))"
  by pat_completeness auto
termination
  by (relation "measure (\<lambda>(_, l). length (lx_rest l))") (auto simp: lx_bump_def)

declare lx_while.simps [simp del]

function skip_ws_and_comments :: "lexer \<Rightarrow> lexer" where
  "skip_ws_and_comments l =
     (case lx_rest l of
        [] \<Rightarrow> l
      | b # bs \<Rightarrow>
          if b = 32 \<or> b = 9 \<or> b = 13 \<or> b = 10 then skip_ws_and_comments (lx_bump l)
          else if b = 35 \<or> b = 47 \<and> bs \<noteq> [] \<and> hd bs = 47
          then skip_ws_and_comments (snd (lx_while (\<lambda>c. c \<noteq> 10) (lx_bump l)))
          else l)"
  by pat_completeness auto

lemma length_lx_bump: "length (lx_rest (lx_bump l)) = length (lx_rest l) - 1"
  by (simp add: lx_bump_def split: list.split)

lemma length_lx_while: "length (lx_rest (snd (lx_while p l))) \<le> length (lx_rest l)"
proof (induction p l rule: lx_while.induct)
  case (1 p l)
  then show ?case
    by (subst lx_while.simps) (auto simp: length_lx_bump split: list.splits prod.splits)
qed

termination skip_ws_and_comments
proof (relation "measure (\<lambda>l. length (lx_rest l))", simp_all add: length_lx_bump)
  fix l b bs
  have "length (lx_rest (snd (lx_while (\<lambda>c. c \<noteq> 10) (lx_bump l)))) \<le> length (lx_rest l) - 1"
    using length_lx_while [of "\<lambda>c. c \<noteq> 10" "lx_bump l"] by (simp add: length_lx_bump)
  moreover assume "lx_rest l = b # bs"
  ultimately show "length (lx_rest (snd (lx_while (\<lambda>c. c \<noteq> 10) (lx_bump l)))) < Suc (length bs)" by simp
qed

declare skip_ws_and_comments.simps [simp del]

text \<open>\<open>s.push(b as char)\<close>: the byte is taken for a character number and encoded again.\<close>

definition push_byte_char :: "byte \<Rightarrow> string" where
  "push_byte_char b =
     string_of (if b < 0x80 then [b] else [0xc0 OR drop_bit 6 b, 0x80 OR (b AND 0x3f)])"

definition escape_char :: "byte \<Rightarrow> string" where
  "escape_char b =
     (if b = 110 then string_of [10] else if b = 116 then string_of [9] else if b = 114 then string_of [13]
      else push_byte_char b)"

text \<open>The loop of \<open>read_string\<close> after the opening quote.\<close>

function read_string_body :: "nat \<Rightarrow> nat \<Rightarrow> lexer \<Rightarrow> (string \<times> lexer) pares" where
  "read_string_body line column l =
     (case lx_rest l of
        [] \<Rightarrow> parse_err line column UnterminatedString
      | b # bs \<Rightarrow>
          if b = 34 then Inr ([], lx_bump l)
          else if b = 92 then
            (case bs of
               [] \<Rightarrow> parse_err line column UnterminatedEscape
             | e # _ \<Rightarrow> rbind (read_string_body line column (lx_bump (lx_bump l))) (\<lambda>(s, l'). Inr (escape_char e @ s, l')))
          else rbind (read_string_body line column (lx_bump l)) (\<lambda>(s, l'). Inr (push_byte_char b @ s, l')))"
  by pat_completeness auto
termination
  by (relation "measure (\<lambda>(_, _, l). length (lx_rest l))") (auto simp: length_lx_bump)

declare read_string_body.simps [simp del]

definition read_string :: "nat \<Rightarrow> nat \<Rightarrow> lexer \<Rightarrow> (string \<times> lexer) pares" where
  "read_string line column l = read_string_body line column (lx_bump l)"

definition digit_byte :: "byte \<Rightarrow> bool" where
  "digit_byte b \<longleftrightarrow> 48 \<le> b \<and> b \<le> 57"

definition digits_nat :: "bytes \<Rightarrow> nat" where
  "digits_nat ds = foldl (\<lambda>n b. 10 * n + (unat b - 48)) 0 ds"

definition read_number :: "nat \<Rightarrow> nat \<Rightarrow> lexer \<Rightarrow> (tok \<times> lexer) pares" where
  "read_number line column l =
     (let neg = (lx_rest l \<noteq> [] \<and> hd (lx_rest l) = 45);
          l1 = (if neg then lx_bump l else l);
          (whole, l2) = lx_while digit_byte l1;
          point = (lx_rest l2 \<noteq> [] \<and> hd (lx_rest l2) = 46);
          (frac, l3) = (if point then lx_while digit_byte (lx_bump l2) else ([], l2))
      in if whole = [] \<and> frac = [] then parse_err line column InvalidNumber
         else Inr (TNumber (f64_of_ratio neg (digits_nat (whole @ frac)) (10 ^ length frac)), l3))"

definition ident_start :: "byte \<Rightarrow> bool" where
  "ident_start b \<longleftrightarrow> 65 \<le> b \<and> b \<le> 90 \<or> 97 \<le> b \<and> b \<le> 122 \<or> b = 95"

definition ident_byte :: "byte \<Rightarrow> bool" where
  "ident_byte b \<longleftrightarrow> ident_start b \<or> digit_byte b \<or> b = 45"

definition read_ident :: "lexer \<Rightarrow> tok \<times> lexer" where
  "read_ident l =
     (let (bs, l') = lx_while ident_byte l; txt = string_of bs in
      (if txt = ''true'' then TBool True else if txt = ''false'' then TBool False else TIdent txt, l'))"

text \<open>One token, from a position that is not white space.\<close>

definition punctuation :: "byte \<Rightarrow> tok option" where
  "punctuation b =
     (if b = 123 then Some TLBrace else if b = 125 then Some TRBrace else if b = 91 then Some TLBracket
      else if b = 93 then Some TRBracket else if b = 61 then Some TEquals else if b = 44 then Some TComma else None)"

definition next_token :: "lexer \<Rightarrow> byte \<Rightarrow> (tok \<times> lexer) pares" where
  "next_token l b =
     (case punctuation b of
        Some t \<Rightarrow> Inr (t, lx_bump l)
      | None \<Rightarrow>
          if b = 34 then rbind (read_string (lx_line l) (lx_column l) l) (\<lambda>(s, l'). Inr (TString s, l'))
          else if digit_byte b \<or> b = 45 then read_number (lx_line l) (lx_column l) l
          else if ident_start b then Inr (read_ident l)
          else parse_err (lx_line l) (lx_column l) (UnexpectedChar b))"

lemma length_read_string_body: "read_string_body line column l = Inr (s, l') \<Longrightarrow> length (lx_rest l') < length (lx_rest l)"
proof (induction line column l arbitrary: s l' rule: read_string_body.induct)
  case (1 line column l)
  show ?case
  proof (cases "lx_rest l")
    case Nil
    with "1.prems" show ?thesis by (simp add: read_string_body.simps [of _ _ l] parse_err_def)
  next
    case (Cons b bs)
    note unf = read_string_body.simps [of line column l] Cons
    consider "b = 34" | "b = 92" "bs = []" | e es where "b = 92" "bs = e # es" | "b \<noteq> 34" "b \<noteq> 92" by (cases bs) auto
    then show ?thesis
    proof cases
      case 1
      with "1.prems" Cons show ?thesis by (auto simp: unf length_lx_bump)
    next
      case 2
      with "1.prems" show ?thesis by (simp add: unf parse_err_def)
    next
      case 3
      with "1.prems" obtain t where "read_string_body line column (lx_bump (lx_bump l)) = Inr (t, l')"
        by (auto simp: unf rbind_eq_Inr)
      from "1.IH"(1) [OF Cons _ 3(1) 3(2) this] 3 Cons show ?thesis by (simp add: length_lx_bump)
    next
      case 4
      with "1.prems" obtain t where "read_string_body line column (lx_bump l) = Inr (t, l')"
        by (auto simp: unf rbind_eq_Inr)
      from "1.IH"(2) [OF Cons 4 this] Cons show ?thesis by (simp add: length_lx_bump)
    qed
  qed
qed

lemma lx_while_progress:
  "lx_rest l = b # bs \<Longrightarrow> p b \<Longrightarrow> lx_while p l = (out, l') \<Longrightarrow> length (lx_rest l') < length (lx_rest l)"
  using length_lx_while [of p "lx_bump l"]
  by (subst (asm) lx_while.simps) (auto simp: length_lx_bump split: prod.splits)

lemma read_number_progress:
  assumes "read_number line column l = Inr (t, l')" and "lx_rest l = b # bs" and "digit_byte b \<or> b = 45"
  shows "length (lx_rest l') < length (lx_rest l)"
proof -
  define l1 where "l1 = (if b = 45 then lx_bump l else l)"
  obtain whole l2 where w: "lx_while digit_byte l1 = (whole, l2)" by (cases "lx_while digit_byte l1")
  define l3 where "l3 = (if lx_rest l2 \<noteq> [] \<and> hd (lx_rest l2) = 46 then snd (lx_while digit_byte (lx_bump l2)) else l2)"
  have l': "l' = l3"
    using assms(1,2) w
    by (auto simp: read_number_def Let_def l1_def [symmetric] l3_def parse_err_def split: prod.splits if_splits)
  have "length (lx_rest l3) \<le> length (lx_rest l2)"
    using length_lx_while [of digit_byte "lx_bump l2"] by (auto simp: l3_def length_lx_bump)
  moreover have "length (lx_rest l2) < length (lx_rest l)"
  proof (cases "b = 45")
    case True
    have "length (lx_rest l2) \<le> length (lx_rest l1)" using length_lx_while [of digit_byte l1] w by simp
    with True show ?thesis by (simp add: l1_def length_lx_bump assms(2))
  next
    case False
    then have "l1 = l" by (simp add: l1_def)
    with lx_while_progress [OF assms(2) _ w [unfolded \<open>l1 = l\<close>]] assms(3) False show ?thesis by simp
  qed
  ultimately show ?thesis by (simp add: l')
qed

lemma next_token_progress:
  assumes "next_token l b = Inr (t, l')" and "lx_rest l = b # bs"
  shows "length (lx_rest l') < length (lx_rest l)"
proof (cases "punctuation b")
  case (Some p)
  with assms show ?thesis by (auto simp: next_token_def length_lx_bump)
next
  case None
  consider "b = 34" | "b \<noteq> 34" "digit_byte b \<or> b = 45" | "b \<noteq> 34" "\<not> (digit_byte b \<or> b = 45)" "ident_start b"
    | "b \<noteq> 34" "\<not> (digit_byte b \<or> b = 45)" "\<not> ident_start b" by blast
  then show ?thesis
  proof cases
    case 1
    with assms None obtain s where "read_string_body (lx_line l) (lx_column l) (lx_bump l) = Inr (s, l')"
      by (auto simp: next_token_def read_string_def rbind_eq_Inr)
    from length_read_string_body [OF this] show ?thesis by (simp add: length_lx_bump assms(2))
  next
    case 2
    with assms None show ?thesis by (intro read_number_progress [of "lx_line l" "lx_column l" l t l' b bs]) (auto simp: next_token_def)
  next
    case 3
    with assms None obtain out where "lx_while ident_byte l = (out, l')"
      by (auto simp: next_token_def read_ident_def Let_def split: prod.splits)
    from lx_while_progress [OF assms(2) _ this] 3 show ?thesis by (simp add: ident_byte_def)
  next
    case 4
    with assms None show ?thesis by (auto simp: next_token_def parse_err_def)
  qed
qed

lemma length_skip: "length (lx_rest (skip_ws_and_comments l)) \<le> length (lx_rest l)"
proof (induction l rule: skip_ws_and_comments.induct)
  case (1 l)
  show ?case
  proof (cases "lx_rest l")
    case Nil
    then show ?thesis by (simp add: skip_ws_and_comments.simps [of l])
  next
    case (Cons b bs)
    have "length (lx_rest (snd (lx_while (\<lambda>c. c \<noteq> 10) (lx_bump l)))) \<le> length bs"
      using length_lx_while [of "\<lambda>c. c \<noteq> 10" "lx_bump l"] by (simp add: length_lx_bump Cons)
    with 1 Cons show ?thesis by (subst skip_ws_and_comments.simps) (auto simp: length_lx_bump Cons)
  qed
qed

function tokenize_from :: "lexer \<Rightarrow> token list pares" where
  "tokenize_from l0 =
     (let l = skip_ws_and_comments l0 in
      case lx_rest l of
        [] \<Rightarrow> Inr [\<lparr>tk_kind = TEof, tk_line = lx_line l, tk_column = lx_column l\<rparr>]
      | b # _ \<Rightarrow>
          (case next_token l b of
             Inl e \<Rightarrow> Inl e
           | Inr (t, l') \<Rightarrow>
               rbind (tokenize_from l') (\<lambda>ts. Inr (\<lparr>tk_kind = t, tk_line = lx_line l, tk_column = lx_column l\<rparr> # ts))))"
  by pat_completeness auto
termination
proof (relation "measure (\<lambda>l. length (lx_rest l))", simp)
  fix l0 l b bs out t l'
  assume "l = skip_ws_and_comments l0" "lx_rest l = b # bs" "next_token l b = Inr out" "(t, l') = out"
  then have "length (lx_rest l') < length (lx_rest l)" "length (lx_rest l) \<le> length (lx_rest l0)"
    using next_token_progress [of l b t l' bs] length_skip [of l0] by simp_all
  then show "(l', l0) \<in> measure (\<lambda>l. length (lx_rest l))" by simp
qed

declare tokenize_from.simps [simp del]

definition tokenize :: "string \<Rightarrow> token list pares" where
  "tokenize src = tokenize_from (lexer_new src)"

subsection \<open>The parser\<close>

definition tok_at :: "token list \<Rightarrow> nat \<Rightarrow> token pares" where
  "tok_at ts i = (if i < length ts then Inr (ts ! i) else Inl Panic)"

definition peek :: "token list \<Rightarrow> nat \<Rightarrow> tok pares" where
  "peek ts i = rbind (tok_at ts i) (\<lambda>t. Inr (tk_kind t))"

text \<open>\<open>self.err(line, msg)\<close>: the column is that of the current token.\<close>

definition perror_at :: "token list \<Rightarrow> nat \<Rightarrow> nat \<Rightarrow> parse_message \<Rightarrow> 'a pares" where
  "perror_at ts i line message = rbind (tok_at ts i) (\<lambda>t. parse_err line (tk_column t) message)"

text \<open>\<open>self.err(self.peek_line(), msg)\<close>.\<close>

definition perror_here :: "token list \<Rightarrow> nat \<Rightarrow> parse_message \<Rightarrow> 'a pares" where
  "perror_here ts i message = rbind (tok_at ts i) (\<lambda>t. perror_at ts i (tk_line t) message)"

text \<open>\<open>self.tokens.get(self.pos + 1).map(|t| &t.kind) == Some(&Tok::Equals)\<close>.\<close>

definition equals_next :: "token list \<Rightarrow> nat \<Rightarrow> bool" where
  "equals_next ts i \<longleftrightarrow> i + 1 < length ts \<and> tk_kind (ts ! (i + 1)) = TEquals"

fun parse_labels :: "token list \<Rightarrow> nat \<Rightarrow> nat \<Rightarrow> (string list \<times> nat) pares" where
  "parse_labels ts 0 i = parse_err 0 0 OutOfParserFuel"
| "parse_labels ts (Suc f) i =
     rbind (peek ts i) (\<lambda>t.
     case t of
       TString s \<Rightarrow> rbind (parse_labels ts f (i + 1)) (\<lambda>(ss, j). Inr (s # ss, j))
     | _ \<Rightarrow> Inr ([], i))"

fun parse_expr :: "token list \<Rightarrow> nat \<Rightarrow> nat \<Rightarrow> (val \<times> nat) pares"
and parse_array_items :: "token list \<Rightarrow> nat \<Rightarrow> nat \<Rightarrow> (val list \<times> nat) pares"
and parse_object_items :: "token list \<Rightarrow> nat \<Rightarrow> val_map \<Rightarrow> nat \<Rightarrow> (val_map \<times> nat) pares" where
  "parse_expr ts 0 i = parse_err 0 0 OutOfParserFuel"
| "parse_expr ts (Suc f) i =
     rbind (tok_at ts i) (\<lambda>t.
     case tk_kind t of
       TString s \<Rightarrow> Inr (VString s, i + 1)
     | TNumber n \<Rightarrow> Inr (VNumber n, i + 1)
     | TBool b \<Rightarrow> Inr (VBool b, i + 1)
     | TLBracket \<Rightarrow> rbind (parse_array_items ts f (i + 1)) (\<lambda>(vs, j). Inr (VArray vs, j))
     | TLBrace \<Rightarrow> rbind (parse_object_items ts f [] (i + 1)) (\<lambda>(m, j). Inr (VObject m, j))
     | TIdent name \<Rightarrow> if name = ''null'' then Inr (VNull, i + 1) else perror_at ts i (tk_line t) (ExpectedValue (tk_kind t))
     | _ \<Rightarrow> perror_at ts i (tk_line t) (ExpectedValue (tk_kind t)))"
| "parse_array_items ts 0 i = parse_err 0 0 OutOfParserFuel"
| "parse_array_items ts (Suc f) i =
     rbind (peek ts i) (\<lambda>t.
     if t = TRBracket then Inr ([], i + 1)
     else rbind (parse_expr ts f i) (\<lambda>(v, j).
       rbind (peek ts j) (\<lambda>u.
       if u = TComma then rbind (parse_array_items ts f (j + 1)) (\<lambda>(vs, k). Inr (v # vs, k))
       else if u = TRBracket then Inr ([v], j + 1)
       else perror_here ts j (ExpectedCommaBracket u))))"
| "parse_object_items ts 0 m i = parse_err 0 0 OutOfParserFuel"
| "parse_object_items ts (Suc f) m i =
     rbind (peek ts i) (\<lambda>t.
     case (case t of TIdent name \<Rightarrow> Some name | TString name \<Rightarrow> Some name | _ \<Rightarrow> None) of
       Some name \<Rightarrow>
         if \<not> equals_next ts i then perror_here ts i ExpectedEqualsObject
         else rbind (parse_expr ts f (i + 2)) (\<lambda>(v, j).
           if map_of m name \<noteq> None then perror_here ts j (DuplicateKey name)
           else parse_object_items ts f (bt_insert name v m) j)
     | None \<Rightarrow> if t = TRBrace then Inr (m, i + 1) else perror_here ts i (ExpectedIdentObject t))"

fun parse_block :: "token list \<Rightarrow> nat \<Rightarrow> nat \<Rightarrow> (block \<times> nat) pares"
and parse_body :: "token list \<Rightarrow> nat \<Rightarrow> val_map \<Rightarrow> block list \<Rightarrow> nat \<Rightarrow> (val_map \<times> block list \<times> nat) pares" where
  "parse_block ts 0 i = parse_err 0 0 OutOfParserFuel"
| "parse_block ts (Suc f) i =
     rbind (tok_at ts i) (\<lambda>t.
     case tk_kind t of
       TIdent name \<Rightarrow>
         rbind (parse_labels ts (Suc (length ts)) (i + 1)) (\<lambda>(labels, j).
         rbind (peek ts j) (\<lambda>u.
         if name = ''import'' \<and> (length labels = 1 \<or> length labels = 2) \<and> u \<noteq> TLBrace
         then Inr (Block name labels [] [] None (tk_line t) (tk_column t), j)
         else if u \<noteq> TLBrace then perror_at ts j (tk_line t) (ExpectedBrace name)
         else rbind (parse_body ts f [] [] (j + 1)) (\<lambda>(attrs, blocks, k).
           Inr (Block name labels attrs blocks None (tk_line t) (tk_column t), k))))
     | _ \<Rightarrow> perror_at ts (i + 1) (tk_line t) ExpectedBlockName)"
| "parse_body ts 0 attrs blocks i = parse_err 0 0 OutOfParserFuel"
| "parse_body ts (Suc f) attrs blocks i =
     rbind (peek ts i) (\<lambda>t.
     case t of
       TRBrace \<Rightarrow> Inr (attrs, blocks, i + 1)
     | TEof \<Rightarrow> perror_here ts i MissingBrace
     | TIdent name \<Rightarrow>
         if equals_next ts i then
           rbind (parse_expr ts f (i + 2)) (\<lambda>(v, j).
             if map_of attrs name \<noteq> None then perror_here ts j (DuplicateAttribute name)
             else parse_body ts f (bt_insert name v attrs) blocks j)
         else rbind (parse_block ts f i) (\<lambda>(child, j). parse_body ts f attrs (blocks @ [child]) j)
     | TString name \<Rightarrow>
         if \<not> equals_next ts i then perror_here ts i ExpectedEqualsQuoted
         else rbind (parse_expr ts f (i + 2)) (\<lambda>(v, j).
             if map_of attrs name \<noteq> None then perror_here ts j (DuplicateAttribute name)
             else parse_body ts f (bt_insert name v attrs) blocks j)
     | _ \<Rightarrow> perror_here ts i (ExpectedIdentifier t))"

fun set_source :: "string option \<Rightarrow> block \<Rightarrow> block" where
  "set_source source (Block name labels attrs blocks src line column) =
     Block name labels attrs (map (set_source source) blocks) source line column"

definition parser_fuel :: "token list \<Rightarrow> nat" where
  "parser_fuel ts = 3 * length ts + 3"

text \<open>\<open>while !p.at_end() { blocks.push(p.parse_block()?) }\<close>; every block takes at least one token.\<close>

fun parse_blocks :: "token list \<Rightarrow> nat \<Rightarrow> nat \<Rightarrow> block list pares" where
  "parse_blocks ts 0 i = parse_err 0 0 OutOfParserFuel"
| "parse_blocks ts (Suc f) i =
     rbind (peek ts i) (\<lambda>t.
     if t = TEof then Inr []
     else rbind (parse_block ts (parser_fuel ts) i) (\<lambda>(b, j). rbind (parse_blocks ts f j) (\<lambda>bs. Inr (b # bs))))"

fun attach_source :: "string option \<Rightarrow> 'a pares \<Rightarrow> 'a pares" where
  "attach_source source (Inl (Fail e)) = Inl (Fail (e\<lparr>pe_source := source\<rparr>))"
| "attach_source source r = r"

definition parse_file_named :: "string \<Rightarrow> string option \<Rightarrow> block list pares" where
  "parse_file_named src source =
     rbind (attach_source source (tokenize src)) (\<lambda>ts.
     rbind (attach_source source (parse_blocks ts (Suc (length ts)) 0)) (\<lambda>blocks.
     Inr (map (set_source source) blocks)))"

definition parse_file :: "string \<Rightarrow> block list pares" where
  "parse_file src = parse_file_named src None"

end
