(* ===== verification/Parser_Correct.thy ===== *)
theory Parser_Correct
  imports Parser
begin

text \<open>
  The parser answers on every text: the lexer ends with its one end-of-file token, and the
  parser never reads past it nor needs more steps than its fuel. A grammar over
  token kinds, given as inductive relations between token lists and the trees they stand for,
  describes exactly what the parser accepts and what it returns. String literals keep
  their text as long as it is ASCII.
\<close>

subsection \<open>The lexer's result\<close>

definition tokens_ok :: "token list \<Rightarrow> bool" where
  "tokens_ok ts \<longleftrightarrow> ts \<noteq> [] \<and> tk_kind (last ts) = TEof \<and> (\<forall>t \<in> set (butlast ts). tk_kind t \<noteq> TEof)"

lemma tokens_ok_next: "tokens_ok ts \<Longrightarrow> i < length ts \<Longrightarrow> tk_kind (ts ! i) \<noteq> TEof \<Longrightarrow> i + 1 < length ts"
  unfolding tokens_ok_def
  by (metis One_nat_def Suc_eq_plus1 Suc_lessI diff_Suc_1 last_conv_nth)

lemma parse_err_no_panic [simp]: "parse_err l c m \<noteq> Inl Panic" "parse_err l c m \<noteq> Inr x" "no_panic (parse_err l c m)"
  by (simp_all add: parse_err_def no_panic_def)

text \<open>A result that is neither a panic nor an exhausted fuel.\<close>

definition answers :: "'a pares \<Rightarrow> bool" where
  "answers r \<longleftrightarrow> r \<noteq> Inl Panic \<and> (\<forall>e. r = Inl (Fail e) \<longrightarrow> pe_message e \<noteq> OutOfParserFuel)"

lemma answers_Inr [simp]: "answers (Inr x)"
  by (simp add: answers_def)

lemma answers_err [simp]: "answers (parse_err l c m) \<longleftrightarrow> m \<noteq> OutOfParserFuel"
  by (simp add: answers_def parse_err_def)

lemma answers_bind: "answers m \<Longrightarrow> (\<And>x. m = Inr x \<Longrightarrow> answers (f x)) \<Longrightarrow> answers (rbind m f)"
  by (cases m) (auto simp: answers_def)

lemma read_string_body_answers: "answers (read_string_body line column l)"
proof (induction line column l rule: read_string_body.induct)
  case (1 line column l)
  show ?case
  proof (cases "lx_rest l")
    case (Cons b bs)
    with 1 show ?thesis
      by (subst read_string_body.simps) (auto intro!: answers_bind split: list.split)
  qed (simp add: read_string_body.simps [of _ _ l])
qed

lemma read_number_answers: "answers (read_number line column l)"
  by (simp add: read_number_def Let_def case_prod_unfold)

lemma next_token_answers: "answers (next_token l b)"
proof -
  have "answers (rbind (read_string_body line column k) (\<lambda>(s, l'). Inr (TString s, l')))" for line column k
    by (intro answers_bind read_string_body_answers) (simp add: case_prod_unfold)
  then show ?thesis by (simp add: next_token_def read_string_def read_number_answers split: option.split)
qed

lemma next_token_not_eof: "next_token l b = Inr (t, l') \<Longrightarrow> t \<noteq> TEof"
  by (auto simp: next_token_def punctuation_def read_number_def read_ident_def Let_def rbind_eq_Inr parse_err_def
      split: option.splits if_splits prod.splits)

lemma tokenize_answers: "answers (tokenize_from l)"
proof (induction l rule: tokenize_from.induct)
  case (1 l0)
  show ?case
  proof (cases "lx_rest (skip_ws_and_comments l0)")
    case (Cons b bs)
    show ?thesis
    proof (cases "next_token (skip_ws_and_comments l0) b")
      case (Inl e)
      with next_token_answers [of "skip_ws_and_comments l0" b] Cons show ?thesis
        by (subst tokenize_from.simps) (simp add: Let_def answers_def)
    next
      case (Inr out)
      obtain t l' where out: "out = (t, l')" by (cases out)
      with 1 Cons Inr show ?thesis by (subst tokenize_from.simps) (auto simp: Let_def intro!: answers_bind)
    qed
  qed (simp add: tokenize_from.simps Let_def)
qed

lemma tokenize_ok: "tokenize_from l = Inr ts \<Longrightarrow> tokens_ok ts"
proof (induction l arbitrary: ts rule: tokenize_from.induct)
  case (1 l0)
  show ?case
  proof (cases "lx_rest (skip_ws_and_comments l0)")
    case Nil
    with "1.prems" show ?thesis by (auto simp: tokenize_from.simps [of l0] Let_def tokens_ok_def)
  next
    case (Cons b bs)
    with "1.prems" obtain t l' ts' where t: "next_token (skip_ws_and_comments l0) b = Inr (t, l')" "tokenize_from l' = Inr ts'"
      "ts = \<lparr>tk_kind = t, tk_line = lx_line (skip_ws_and_comments l0), tk_column = lx_column (skip_ws_and_comments l0)\<rparr> # ts'"
      by (auto simp: tokenize_from.simps [of l0] Let_def rbind_eq_Inr split: sum.splits)
    from "1.IH" [OF refl Cons t(1) refl t(2)] next_token_not_eof [OF t(1)] show ?thesis
      by (auto simp: tokens_ok_def t(3))
  qed
qed

subsection \<open>The parser answers\<close>

text \<open>From position \<open>i\<close> the parser answers, and on success stops at a later token.\<close>

definition steps_on :: "token list \<Rightarrow> nat \<Rightarrow> ('a \<Rightarrow> nat) \<Rightarrow> 'a pares \<Rightarrow> bool" where
  "steps_on ts i at r \<longleftrightarrow> answers r \<and> (\<forall>x. r = Inr x \<longrightarrow> i < at x \<and> at x < length ts)"

lemma steps_on_Inr [simp]: "steps_on ts i at (Inr x) \<longleftrightarrow> i < at x \<and> at x < length ts"
  by (simp add: steps_on_def)

lemma steps_on_bind:
  assumes "steps_on ts i at m" and "\<And>x. m = Inr x \<Longrightarrow> i < at x \<Longrightarrow> at x < length ts \<Longrightarrow> steps_on ts i at' (f x)"
  shows "steps_on ts i at' (rbind m f)"
  using assms by (cases m) (auto simp: steps_on_def answers_def)

lemma steps_on_weaken: "steps_on ts j at r \<Longrightarrow> i \<le> j \<Longrightarrow> steps_on ts i at r"
  by (auto simp: steps_on_def)

lemma tok_at_in [simp]: "i < length ts \<Longrightarrow> tok_at ts i = Inr (ts ! i)"
  by (simp add: tok_at_def)

lemma peek_in [simp]: "i < length ts \<Longrightarrow> peek ts i = Inr (tk_kind (ts ! i))"
  by (simp add: peek_def)

lemma perror_in [simp]:
  "j < length ts \<Longrightarrow> m \<noteq> OutOfParserFuel \<Longrightarrow> steps_on ts i at (perror_at ts j l m)"
  "j < length ts \<Longrightarrow> m \<noteq> OutOfParserFuel \<Longrightarrow> steps_on ts i at (perror_here ts j m)"
  by (simp_all add: steps_on_def perror_at_def perror_here_def)

lemma equals_next_in: "tokens_ok ts \<Longrightarrow> equals_next ts i \<Longrightarrow> i + 2 < length ts"
  using tokens_ok_next [of ts "i + 1"] by (auto simp: equals_next_def)

lemma steps_on_map: "steps_on ts i snd m \<Longrightarrow> steps_on ts i snd (rbind m (\<lambda>(x, j). Inr (f x, j)))"
  by (rule steps_on_bind) auto

lemma expr_steps:
  assumes ts: "tokens_ok ts"
  shows "(\<forall>i < length ts. 3 * (length ts - i) + 1 \<le> n \<longrightarrow> steps_on ts i snd (parse_expr ts n i)) \<and>
    (\<forall>i < length ts. 3 * (length ts - i) + 2 \<le> n \<longrightarrow> steps_on ts i snd (parse_array_items ts n i)) \<and>
    (\<forall>i < length ts. \<forall>m. 3 * (length ts - i) + 2 \<le> n \<longrightarrow> steps_on ts i snd (parse_object_items ts n m i))"
proof (induction n)
  case 0
  then show ?case by simp
next
  case (Suc n)
  have E: "steps_on ts i snd (parse_expr ts n i)" if "i < length ts" "3 * (length ts - i) + 1 \<le> n" for i
    using Suc.IH that by blast
  have A: "steps_on ts i snd (parse_array_items ts n i)" if "i < length ts" "3 * (length ts - i) + 2 \<le> n" for i
    using Suc.IH that by blast
  have O: "steps_on ts i snd (parse_object_items ts n m i)" if "i < length ts" "3 * (length ts - i) + 2 \<le> n" for i m
    using Suc.IH that by blast
  have expr: "steps_on ts i snd (parse_expr ts (Suc n) i)" if i: "i < length ts" "3 * (length ts - i) + 1 \<le> Suc n" for i
  proof (cases "tk_kind (ts ! i) = TEof")
    case True
    then show ?thesis using i by simp
  next
    case False
    then have nx: "Suc i < length ts" using tokens_ok_next [OF ts i(1)] by simp
    have "steps_on ts i snd (parse_array_items ts n (Suc i))"
      by (rule steps_on_weaken [of ts "Suc i"], rule A) (use i nx in auto)
    moreover have "steps_on ts i snd (parse_object_items ts n [] (Suc i))"
      by (rule steps_on_weaken [of ts "Suc i"], rule O) (use i nx in auto)
    ultimately show ?thesis using i nx by (auto simp: steps_on_map split: tok.split)
  qed
  have arr: "steps_on ts i snd (parse_array_items ts (Suc n) i)" if i: "i < length ts" "3 * (length ts - i) + 2 \<le> Suc n" for i
  proof (cases "tk_kind (ts ! i) = TRBracket")
    case True
    then show ?thesis using i tokens_ok_next [OF ts i(1)] by simp
  next
    case False
    have "steps_on ts i snd (parse_expr ts n i)" using i by (intro E) auto
    moreover have "steps_on ts i snd (rbind (peek ts j) (\<lambda>u.
         if u = TComma then rbind (parse_array_items ts n (j + 1)) (\<lambda>(vs, k). Inr (v # vs, k))
         else if u = TRBracket then Inr ([v], j + 1)
         else perror_here ts j (ExpectedCommaBracket u)))" if j: "i < j" "j < length ts" for v j
    proof -
      have "Suc j < length ts" if "tk_kind (ts ! j) \<noteq> TEof" using tokens_ok_next [OF ts j(2) that] by simp
      moreover have "steps_on ts i snd (rbind (parse_array_items ts n (Suc j)) (\<lambda>(vs, k). Inr (v # vs, k)))" if "Suc j < length ts"
        by (rule steps_on_map, rule steps_on_weaken [of ts "Suc j"], rule A) (use i j that in auto)
      ultimately show ?thesis using j by auto
    qed
    ultimately show ?thesis using i False by (auto intro!: steps_on_bind [where at = snd])
  qed
  have obj: "steps_on ts i snd (parse_object_items ts (Suc n) m i)" if i: "i < length ts" "3 * (length ts - i) + 2 \<le> Suc n" for i m
  proof -
    have item: "steps_on ts i snd (rbind (parse_expr ts n (i + 2)) (\<lambda>(v, j).
           if map_of m name \<noteq> None then perror_here ts j (DuplicateKey name)
           else parse_object_items ts n (bt_insert name v m) j))" if eq: "equals_next ts i" for name
    proof (rule steps_on_bind [where at = snd])
      show "steps_on ts i snd (parse_expr ts n (i + 2))"
        by (rule steps_on_weaken [of ts "i + 2"], rule E) (use equals_next_in [OF ts eq] i in auto)
      fix x :: "val \<times> nat" assume x: "i < snd x" "snd x < length ts"
      have "steps_on ts i snd (parse_object_items ts n (bt_insert name (fst x) m) (snd x))"
        by (rule steps_on_weaken [of ts "snd x"], rule O) (use i x in auto)
      with x show "steps_on ts i snd (case x of (v, j) \<Rightarrow> if map_of m name \<noteq> None then perror_here ts j (DuplicateKey name)
           else parse_object_items ts n (bt_insert name v m) j)"
        by (simp add: case_prod_unfold)
    qed
    show ?thesis using i item tokens_ok_next [OF ts i(1)] by (auto split: tok.split)
  qed
  from expr arr obj show ?case by blast
qed

lemma labels_steps:
  assumes ts: "tokens_ok ts"
  shows "i < length ts \<Longrightarrow> length ts - i \<le> n \<Longrightarrow>
    answers (parse_labels ts n i) \<and> (\<forall>ss j. parse_labels ts n i = Inr (ss, j) \<longrightarrow> i \<le> j \<and> j < length ts)"
proof (induction n arbitrary: i)
  case 0
  then show ?case by simp
next
  case (Suc n)
  show ?case
  proof (cases "\<exists>s. tk_kind (ts ! i) = TString s")
    case True
    then obtain s where s: "tk_kind (ts ! i) = TString s" by blast
    then have "i + 1 < length ts" using tokens_ok_next [OF ts Suc.prems(1)] by simp
    with Suc.IH [of "i + 1"] Suc.prems s show ?thesis by (auto simp: rbind_eq_Inr intro!: answers_bind) force+
  next
    case False
    with Suc.prems show ?thesis by (cases "tk_kind (ts ! i)") auto
  qed
qed

lemma block_steps:
  assumes ts: "tokens_ok ts"
  shows "(\<forall>i < length ts. tk_kind (ts ! i) \<noteq> TEof \<longrightarrow> 3 * (length ts - i) \<le> n \<longrightarrow> steps_on ts i snd (parse_block ts n i)) \<and>
    (\<forall>i < length ts. \<forall>attrs blocks. 3 * (length ts - i) + 2 \<le> n \<longrightarrow>
      steps_on ts i (\<lambda>x. snd (snd x)) (parse_body ts n attrs blocks i))"
proof (induction n)
  case 0
  then show ?case by simp
next
  case (Suc n)
  have B: "steps_on ts i snd (parse_block ts n i)" if "i < length ts" "tk_kind (ts ! i) \<noteq> TEof" "3 * (length ts - i) \<le> n" for i
    using Suc.IH that by blast
  have D: "steps_on ts i (\<lambda>x. snd (snd x)) (parse_body ts n attrs blocks i)" if "i < length ts" "3 * (length ts - i) + 2 \<le> n" for i attrs blocks
    using Suc.IH that by blast
  have D': "steps_on ts i (\<lambda>x. snd (snd x)) (parse_body ts n attrs blocks j)"
    if "i < j" "j < length ts" "3 * (length ts - i) + 2 \<le> Suc n" for i j attrs blocks
    by (rule steps_on_weaken [of ts j], rule D) (use that in auto)
  have block: "steps_on ts i snd (parse_block ts (Suc n) i)"
    if i: "i < length ts" "tk_kind (ts ! i) \<noteq> TEof" "3 * (length ts - i) \<le> Suc n" for i
  proof -
    have nx: "i + 1 < length ts" using tokens_ok_next [OF ts i(1,2)] .
    let ?rest = "\<lambda>name l c (labels :: string list, j). rbind (peek ts j) (\<lambda>u.
         if name = ''import'' \<and> (length labels = 1 \<or> length labels = 2) \<and> u \<noteq> TLBrace
         then Inr (Block name labels [] [] None l c, j)
         else if u \<noteq> TLBrace then perror_at ts j l (ExpectedBrace name)
         else rbind (parse_body ts n [] [] (j + 1)) (\<lambda>(attrs, blocks, k).
           Inr (Block name labels attrs blocks None l c, k)))"
    have rest: "steps_on ts i snd (?rest name l c x)" if j: "i < snd x" "snd x < length ts" for name l c x
    proof -
      obtain labels j where x: "x = (labels, j)" by (cases x)
      have "steps_on ts i snd (rbind (parse_body ts n [] [] (j + 1)) (\<lambda>(attrs, blocks, k).
           Inr (Block name labels attrs blocks None l c, k)))" if "j + 1 < length ts"
      proof (rule steps_on_bind [where at = "\<lambda>x. snd (snd x)"])
        show "steps_on ts i (\<lambda>x. snd (snd x)) (parse_body ts n [] [] (j + 1))"
          by (rule steps_on_weaken [of ts "j + 1"], rule D) (use i j that x in auto)
      qed auto
      with j tokens_ok_next [OF ts j(2)] show ?thesis by (auto simp: x)
    qed
    have "steps_on ts i snd (parse_labels ts (Suc (length ts)) (i + 1))"
      using labels_steps [OF ts nx, of "Suc (length ts)"] by (force simp: steps_on_def simp del: parse_labels.simps)
    then have "steps_on ts i snd (rbind (parse_labels ts (Suc (length ts)) (i + 1)) (?rest name l c))" for name l c
      by (rule steps_on_bind) (rule rest)
    with i nx show ?thesis by (auto simp del: parse_labels.simps split: tok.split)
  qed
  have body: "steps_on ts i (\<lambda>x. snd (snd x)) (parse_body ts (Suc n) attrs blocks i)"
    if i: "i < length ts" "3 * (length ts - i) + 2 \<le> Suc n" for i attrs blocks
  proof -
    have item: "steps_on ts i (\<lambda>x. snd (snd x)) (rbind (parse_expr ts n (i + 2)) (\<lambda>(v, j).
           if map_of attrs name \<noteq> None then perror_here ts j (DuplicateAttribute name)
           else parse_body ts n (bt_insert name v attrs) blocks j))" if eq: "equals_next ts i" for name
    proof (rule steps_on_bind [where at = snd])
      show "steps_on ts i snd (parse_expr ts n (i + 2))"
        by (rule steps_on_weaken [of ts "i + 2"], rule expr_steps [OF ts, THEN conjunct1, rule_format])
          (use equals_next_in [OF ts eq] i in auto)
      show "steps_on ts i (\<lambda>x. snd (snd x)) (case x of (v, j) \<Rightarrow> if map_of attrs name \<noteq> None then perror_here ts j (DuplicateAttribute name)
           else parse_body ts n (bt_insert name v attrs) blocks j)" if x: "i < snd x" "snd x < length ts" for x
        using x D' [OF x i(2)] by (simp add: case_prod_unfold)
    qed
    have child: "steps_on ts i (\<lambda>x. snd (snd x)) (rbind (parse_block ts n i) (\<lambda>(child, j). parse_body ts n attrs (blocks @ [child]) j))"
      if "tk_kind (ts ! i) \<noteq> TEof"
    proof (rule steps_on_bind [where at = snd])
      show "steps_on ts i snd (parse_block ts n i)" by (rule B) (use i that in auto)
    qed (use D' i in \<open>auto simp: case_prod_unfold\<close>)
    show ?thesis using i item child tokens_ok_next [OF ts i(1)] by (auto split: tok.split)
  qed
  from block body show ?case by blast
qed

lemma blocks_answer:
  assumes ts: "tokens_ok ts"
  shows "i < length ts \<Longrightarrow> length ts - i \<le> n \<Longrightarrow> answers (parse_blocks ts n i)"
proof (induction n arbitrary: i)
  case 0
  then show ?case by simp
next
  case (Suc n)
  show ?case
  proof (cases "tk_kind (ts ! i) = TEof")
    case False
    have step: "steps_on ts i snd (parse_block ts (parser_fuel ts) i)"
      using block_steps [OF ts] Suc.prems False by (auto simp: parser_fuel_def)
    have "answers (parse_blocks ts n j)" if "i < j" "j < length ts" for j
      using that Suc.prems by (intro Suc.IH) auto
    with step False Suc.prems show ?thesis
      by (auto simp: steps_on_def intro!: answers_bind)
  qed (use Suc.prems in simp)
qed

lemma attach_source_answers [simp]: "answers (attach_source source r) \<longleftrightarrow> answers r"
  by (cases "(source, r)" rule: attach_source.cases) (auto simp: answers_def)

lemma attach_source_Inr [simp]: "attach_source source r = Inr x \<longleftrightarrow> r = Inr x"
  by (cases "(source, r)" rule: attach_source.cases) auto

text \<open>
  C21: parsing ends with an answer on every text: the lexer and the parser never index beyond
  the tokens, the recursion never exceeds the number of tokens, and the result is either the
  blocks of the file or an error with a position.
\<close>

theorem parse_file_total: "answers (parse_file_named src source)"
proof -
  have "answers (parse_blocks ts (Suc (length ts)) 0)" if "tokenize src = Inr ts" for ts
    using tokenize_ok [of "lexer_new src" ts] that
    by (intro blocks_answer) (auto simp: tokenize_def tokens_ok_def)
  then show ?thesis
    unfolding parse_file_named_def by (auto intro!: answers_bind simp: tokenize_def tokenize_answers)
qed

subsection \<open>The grammar\<close>

text \<open>
  The grammar of the head of \<open>src/src/parser.rs\<close>, as relations between token sequences and what
  they denote; tokens may stand anywhere in the source. Beyond the documented grammar the parser
  also takes \<open>null\<close>, a comma after the last element of an array (\<open>more_items\<close> before no
  items), quoted names of attributes, and \<open>import\<close> without braces, which is a rule of its own that
  the parameter \<open>braceless\<close> switches on. A name may be given once.
\<close>

inductive expr_of :: "token list \<Rightarrow> val \<Rightarrow> bool"
  and items_of :: "token list \<Rightarrow> val list \<Rightarrow> bool"
  and entries_of :: "token list \<Rightarrow> val_map \<Rightarrow> val_map \<Rightarrow> bool" where
  string: "tk_kind t = TString s \<Longrightarrow> expr_of [t] (VString s)"
| number: "tk_kind t = TNumber n \<Longrightarrow> expr_of [t] (VNumber n)"
| bool: "tk_kind t = TBool b \<Longrightarrow> expr_of [t] (VBool b)"
| null: "tk_kind t = TIdent ''null'' \<Longrightarrow> expr_of [t] VNull"
| array: "tk_kind t = TLBracket \<Longrightarrow> items_of ts vs \<Longrightarrow> expr_of (t # ts) (VArray vs)"
| object: "tk_kind t = TLBrace \<Longrightarrow> entries_of ts [] m \<Longrightarrow> expr_of (t # ts) (VObject m)"
| no_items: "tk_kind t = TRBracket \<Longrightarrow> items_of [t] []"
| last_item: "expr_of e v \<Longrightarrow> tk_kind t = TRBracket \<Longrightarrow> items_of (e @ [t]) [v]"
| more_items: "expr_of e v \<Longrightarrow> tk_kind c = TComma \<Longrightarrow> items_of ts vs \<Longrightarrow> items_of (e @ c # ts) (v # vs)"
| no_entries: "tk_kind t = TRBrace \<Longrightarrow> entries_of [t] m m"
| entry: "tk_kind k = TIdent name \<or> tk_kind k = TString name \<Longrightarrow> tk_kind q = TEquals \<Longrightarrow> expr_of e v \<Longrightarrow> map_of m name = None \<Longrightarrow>
    entries_of ts (bt_insert name v m) m' \<Longrightarrow> entries_of (k # q # e @ ts) m m'"

inductive block_of :: "bool \<Rightarrow> token list \<Rightarrow> block \<Rightarrow> bool"
  and body_of :: "bool \<Rightarrow> token list \<Rightarrow> val_map \<Rightarrow> block list \<Rightarrow> val_map \<Rightarrow> block list \<Rightarrow> bool" for braceless :: bool where
  block: "tk_kind t = TIdent name \<Longrightarrow> map tk_kind ls = map TString labels \<Longrightarrow> tk_kind b = TLBrace \<Longrightarrow> body_of braceless ts [] [] attrs blocks \<Longrightarrow>
    block_of braceless (t # ls @ b # ts) (Block name labels attrs blocks None (tk_line t) (tk_column t))"
| bare_import: "braceless \<Longrightarrow> tk_kind t = TIdent ''import'' \<Longrightarrow> map tk_kind ls = map TString labels \<Longrightarrow> length labels = 1 \<or> length labels = 2 \<Longrightarrow>
    block_of braceless (t # ls) (Block ''import'' labels [] [] None (tk_line t) (tk_column t))"
| body_end: "tk_kind t = TRBrace \<Longrightarrow> body_of braceless [t] attrs blocks attrs blocks"
| attribute: "tk_kind k = TIdent name \<or> tk_kind k = TString name \<Longrightarrow> tk_kind q = TEquals \<Longrightarrow> expr_of e v \<Longrightarrow> map_of attrs name = None \<Longrightarrow>
    body_of braceless ts (bt_insert name v attrs) blocks attrs' blocks' \<Longrightarrow> body_of braceless (k # q # e @ ts) attrs blocks attrs' blocks'"
| child: "block_of braceless e c \<Longrightarrow> body_of braceless ts attrs (blocks @ [c]) attrs' blocks' \<Longrightarrow> body_of braceless (e @ ts) attrs blocks attrs' blocks'"

fun tokens_at :: "token list \<Rightarrow> nat \<Rightarrow> token list \<Rightarrow> bool" where
  "tokens_at ts i [] \<longleftrightarrow> True"
| "tokens_at ts i (t # r) \<longleftrightarrow> i < length ts \<and> ts ! i = t \<and> tokens_at ts (Suc i) r"

lemma tokens_at_append [simp]: "tokens_at ts i (r @ r') \<longleftrightarrow> tokens_at ts i r \<and> tokens_at ts (i + length r) r'"
  by (induction r arbitrary: i) auto

lemma tokens_at_suffix: "tokens_at (pre @ r @ post) (length pre) r"
proof (induction r arbitrary: pre)
  case (Cons t r)
  from Cons [of "pre @ [t]"] show ?case by simp
qed simp

lemma expr_start: "expr_of e v \<Longrightarrow> \<exists>t r. e = t # r \<and> tk_kind t \<noteq> TRBracket"
  by (cases rule: expr_of.cases) auto

lemma expr_starts_at: "expr_of e v \<Longrightarrow> tokens_at ts i e \<Longrightarrow> i < length ts \<and> tk_kind (ts ! i) \<noteq> TRBracket"
  by (auto dest!: expr_start)

lemma items_length: "items_of e vs \<Longrightarrow> 0 < length e"
  by (cases rule: items_of.cases) auto

lemma entries_length: "entries_of e m m' \<Longrightarrow> 0 < length e"
  by (cases rule: entries_of.cases) auto

lemma read_expr:
  "expr_of e v \<Longrightarrow> tokens_at ts i e \<Longrightarrow> 3 * length e \<le> n \<Longrightarrow> parse_expr ts n i = Inr (v, i + length e)"
  "items_of e vs \<Longrightarrow> tokens_at ts i e \<Longrightarrow> 3 * length e \<le> n + 2 \<Longrightarrow> parse_array_items ts n i = Inr (vs, i + length e)"
  "entries_of e m m' \<Longrightarrow> tokens_at ts i e \<Longrightarrow> 3 * length e \<le> n + 2 \<Longrightarrow> parse_object_items ts n m i = Inr (m', i + length e)"
proof (induction e v and e vs and e m m' arbitrary: i n and i n and i n rule: expr_of_items_of_entries_of.inducts)
  case (last_item e v t)
  obtain f where n: "n = Suc f" using last_item.prems(2) expr_start [OF last_item.hyps(1)] by (cases n) auto
  have "parse_expr ts f i = Inr (v, i + length e)" using last_item.prems by (intro last_item.IH) (simp_all add: n)
  moreover have "tokens_at ts i e" "ts ! (i + length e) = t" "i + length e < length ts" using last_item.prems by simp_all
  ultimately show ?case using last_item.hyps(2) expr_starts_at [OF last_item.hyps(1)] by (simp add: n peek_def tok_at_def)
next
  case (more_items e v c es vs)
  obtain f where n: "n = Suc f" using more_items.prems(2) expr_start [OF more_items.hyps(1)] by (cases n) auto
  have "parse_expr ts f i = Inr (v, i + length e)" using more_items.prems by (intro more_items.IH(1)) (simp_all add: n)
  moreover have "parse_array_items ts f (Suc (i + length e)) = Inr (vs, Suc (i + length e) + length es)"
    using more_items.prems by (intro more_items.IH(2)) (simp_all add: n)
  moreover have "tokens_at ts i e" "ts ! (i + length e) = c" "i + length e < length ts" using more_items.prems by simp_all
  ultimately show ?case using more_items.hyps(2) expr_starts_at [OF more_items.hyps(1)] by (simp add: n peek_def tok_at_def)
next
  case (entry k name q e v m es m')
  obtain f where n: "n = Suc f" using entry.prems(2) by (cases n) auto
  have "parse_expr ts f (i + 2) = Inr (v, i + 2 + length e)" using entry.prems by (intro entry.IH(1)) (simp_all add: n)
  moreover have "parse_object_items ts f (bt_insert name v m) (i + 2 + length e) = Inr (m', i + 2 + length e + length es)"
    using entry.prems by (intro entry.IH(2)) (simp_all add: n)
  moreover have "i < length ts" "ts ! i = k" "equals_next ts i" using entry.prems entry.hyps(2) by (simp_all add: equals_next_def)
  ultimately show ?case using entry.hyps(1,4) by (elim disjE) (simp_all add: n peek_def tok_at_def add.assoc)
next
  case (array t es vs)
  obtain f where n: "n = Suc f" using array.prems(2) by (cases n) auto
  have "parse_array_items ts f (Suc i) = Inr (vs, Suc i + length es)" using array.prems by (intro array.IH) (simp_all add: n)
  then show ?case using array.prems array.hyps by (simp add: n tok_at_def)
next
  case (object t es m)
  obtain f where n: "n = Suc f" using object.prems(2) by (cases n) auto
  have "parse_object_items ts f [] (Suc i) = Inr (m, Suc i + length es)" using object.prems by (intro object.IH) (simp_all add: n)
  then show ?case using object.prems object.hyps by (simp add: n tok_at_def)
next
  case (no_items t)
  then show ?case by (cases n) (auto simp: peek_def tok_at_def)
next
  case (no_entries t m)
  then show ?case by (cases n) (auto simp: peek_def tok_at_def)
next
  case (string t s)
  then show ?case by (cases n) (auto simp: tok_at_def)
next
  case (number t x)
  then show ?case by (cases n) (auto simp: tok_at_def)
next
  case (bool t b)
  then show ?case by (cases n) (auto simp: tok_at_def)
next
  case (null t)
  then show ?case by (cases n) (auto simp: tok_at_def)
qed

lemma read_labels:
  assumes "tokens_at ts i (ls @ [b])" and "map tk_kind ls = map TString labels" and "tk_kind b = TLBrace" and "length ls < n"
  shows "parse_labels ts n i = Inr (labels, i + length ls)"
  using assms
proof (induction ls arbitrary: labels i n)
  case Nil
  then show ?case by (cases n) (auto simp: peek_def tok_at_def)
next
  case (Cons l ls)
  then obtain s labels' where "labels = s # labels'" "tk_kind l = TString s" "map tk_kind ls = map TString labels'" by (cases labels) auto
  moreover obtain f where "n = Suc f" using Cons.prems by (cases n) auto
  ultimately show ?case using Cons.prems Cons.IH [of "Suc i" labels' f] by (simp add: peek_def tok_at_def)
qed

lemma block_start:
  assumes "block_of False e b" and "tokens_at ts i e"
  shows "i < length ts \<and> (\<exists>name. tk_kind (ts ! i) = TIdent name) \<and> \<not> equals_next ts i \<and> 2 \<le> length e"
  using assms
proof (cases rule: block_of.cases)
  case (block t name ls labels b es attrs blocks)
  then show ?thesis using assms(2) by (cases ls; cases labels) (auto simp: equals_next_def)
qed simp

lemma body_length: "body_of braceless e a bs a' bs' \<Longrightarrow> 0 < length e"
  by (induction rule: block_of_body_of.inducts(2)) (auto intro: TrueI)

lemma read_block:
  "block_of False e c \<Longrightarrow> tokens_at ts i e \<Longrightarrow> 3 * length e \<le> n \<Longrightarrow> parse_block ts n i = Inr (c, i + length e)"
  "body_of False e a bs a' bs' \<Longrightarrow> tokens_at ts i e \<Longrightarrow> 3 * length e \<le> n + 2 \<Longrightarrow> parse_body ts n a bs i = Inr (a', bs', i + length e)"
proof (induction e c and e a bs a' bs' arbitrary: i n and i n rule: block_of_body_of.inducts)
  case (block t name ls labels b es attrs blocks)
  obtain f where n: "n = Suc f" using block.prems(2) by (cases n) auto
  have "i + Suc (length ls) < length ts" using block.prems by simp
  then have "parse_labels ts (Suc (length ts)) (Suc i) = Inr (labels, Suc i + length ls)"
    using block.prems block.hyps by (intro read_labels [where b = b]) auto
  moreover have "parse_body ts f [] [] (Suc i + length ls + 1) = Inr (attrs, blocks, Suc i + length ls + 1 + length es)"
    using block.prems by (intro block.IH) (simp_all add: n)
  ultimately show ?case using block.prems block.hyps by (simp add: n tok_at_def peek_def del: parse_labels.simps)
next
  case (body_end t a bs)
  then show ?case by (cases n) (auto simp: peek_def tok_at_def)
next
  case (attribute k name q e v a es bs a' bs')
  obtain f where n: "n = Suc f" using attribute.prems(2) by (cases n) auto
  have "parse_expr ts f (i + 2) = Inr (v, i + 2 + length e)"
    using attribute.prems by (intro read_expr(1) [OF attribute.hyps(3)]) (simp_all add: n)
  moreover have "parse_body ts f (bt_insert name v a) bs (i + 2 + length e) = Inr (a', bs', i + 2 + length e + length es)"
    using attribute.prems by (intro attribute.IH) (simp_all add: n)
  moreover have "i < length ts" "ts ! i = k" "equals_next ts i" using attribute.prems attribute.hyps(2) by (simp_all add: equals_next_def)
  ultimately show ?case using attribute.hyps(1,4) by (elim disjE) (simp_all add: n peek_def tok_at_def add.assoc)
next
  case (child e c es a bs a' bs')
  have le: "0 < length es" using body_length [OF child(3)] .
  have st: "i < length ts" "\<exists>name. tk_kind (ts ! i) = TIdent name" "\<not> equals_next ts i" "2 \<le> length e"
    using block_start [OF child(1), of ts i] child.prems by auto
  obtain f where n: "n = Suc f" using child.prems st(4) le by (cases n) auto
  have "3 * (length e + length es) \<le> Suc f + 2" using child.prems(2) by (simp add: n)
  then have fuel: "3 * length e \<le> f" "3 * length es \<le> f + 2" using le st(4) by presburger+
  have "parse_block ts f i = Inr (c, i + length e)" using child.prems(1) fuel(1) by (intro child(2)) simp_all
  moreover have "parse_body ts f a (bs @ [c]) (i + length e) = Inr (a', bs', i + length e + length es)"
    using child.prems(1) fuel(2) by (intro child(4)) simp_all
  ultimately show ?case using st by (auto simp: n peek_def tok_at_def)
qed simp

lemma read_blocks:
  assumes "list_all2 (block_of False) es bs" and "tokens_at ts i (concat es @ [eof])" and "tk_kind eof = TEof" and "length bs < n"
  shows "parse_blocks ts n i = Inr bs"
  using assms
proof (induction es bs arbitrary: i n rule: list_all2_induct)
  case Nil
  then show ?case by (cases n) (auto simp: peek_def tok_at_def)
next
  case (Cons e es b bs)
  obtain f where n: "n = Suc f" using Cons.prems by (cases n) auto
  have st: "i < length ts" "\<exists>name. tk_kind (ts ! i) = TIdent name" using block_start [OF Cons.hyps(1), of ts i] Cons.prems by auto
  have "i + length e \<le> length ts" using Cons.prems by (cases es) (auto simp: less_imp_le)
  then have "parse_block ts (parser_fuel ts) i = Inr (b, i + length e)"
    using Cons.prems by (intro read_block(1) [OF Cons.hyps(1)]) (auto simp: parser_fuel_def)
  moreover have "parse_blocks ts f (i + length e) = Inr bs" using Cons.prems by (intro Cons.IH) (auto simp: n)
  ultimately show ?case using st by (auto simp: n peek_def tok_at_def)
qed

lemma blocks_within: "list_all2 (block_of False) es bs \<Longrightarrow> length bs \<le> length (concat es)"
proof (induction rule: list_all2_induct)
  case (Cons e es b bs)
  from Cons.hyps(1) have "0 < length e" by (cases rule: block_of.cases) simp_all
  with Cons.IH show ?case unfolding concat.simps length_append length_Cons by linarith
qed simp

lemma parse_file_tokens:
  assumes "tokenize src = Inr ts" and "parse_blocks ts (Suc (length ts)) 0 = Inr bs"
  shows "parse_file_named src source = Inr (map (set_source source) bs)"
  using assms unfolding parse_file_named_def by simp

lemma tok_at_Inr: "tok_at ts i = Inr t \<longleftrightarrow> i < length ts \<and> t = ts ! i"
  by (auto simp: tok_at_def)

lemma peek_Inr: "peek ts i = Inr k \<longleftrightarrow> i < length ts \<and> k = tk_kind (ts ! i)"
  by (auto simp: peek_def tok_at_def)

lemma perror_Inr [simp]: "perror_at ts i l m \<noteq> Inr x" "perror_here ts i m \<noteq> Inr x"
  by (auto simp: perror_at_def perror_here_def tok_at_def)

text \<open>Between two positions stand the tokens of something.\<close>

definition derived :: "token list \<Rightarrow> nat \<Rightarrow> nat \<Rightarrow> (token list \<Rightarrow> bool) \<Rightarrow> bool" where
  "derived ts i j P \<longleftrightarrow> (\<exists>e. P e \<and> tokens_at ts i e \<and> j = i + length e)"

lemma derivedI: "P e \<Longrightarrow> tokens_at ts i e \<Longrightarrow> j = i + length e \<Longrightarrow> derived ts i j P"
  by (auto simp: derived_def)

lemma derived_one: "i < length ts \<Longrightarrow> P [ts ! i] \<Longrightarrow> derived ts i (i + 1) P"
  by (rule derivedI) auto

lemma derived_before: "i < length ts \<Longrightarrow> derived ts (i + 1) j Q \<Longrightarrow> (\<And>e. Q e \<Longrightarrow> P (ts ! i # e)) \<Longrightarrow> derived ts i j P"
  unfolding derived_def by (metis Suc_eq_plus1 add_Suc_shift length_Cons tokens_at.simps(2))

lemma derived_then: "derived ts i k Q \<Longrightarrow> derived ts k j Q' \<Longrightarrow> (\<And>e e'. Q e \<Longrightarrow> Q' e' \<Longrightarrow> P (e @ e')) \<Longrightarrow> derived ts i j P"
  unfolding derived_def by (metis add.assoc length_append tokens_at_append)

lemma derived_named:
  assumes "i < length ts" and "equals_next ts i" and "derived ts (i + 2) k Q" and "derived ts k j Q'"
    and "\<And>e e'. Q e \<Longrightarrow> Q' e' \<Longrightarrow> P (ts ! i # ts ! (i + 1) # e @ e')"
  shows "derived ts i j P"
proof -
  have "derived ts (i + 2) j (\<lambda>x. \<exists>e e'. Q e \<and> Q' e' \<and> x = e @ e')" by (rule derived_then [OF assms(3,4)]) blast
  then have "derived ts (i + 1) j (\<lambda>x. \<exists>e e'. Q e \<and> Q' e' \<and> x = ts ! (i + 1) # e @ e')"
    using assms(2) by (intro derived_before [of "i + 1"]) (auto simp: equals_next_def)
  then show ?thesis by (rule derived_before [OF assms(1)]) (elim exE conjE, hypsubst, rule assms(5))
qed

lemma parsed_expr:
  "(\<forall>i v j. parse_expr ts n i = Inr (v, j) \<longrightarrow> derived ts i j (\<lambda>e. expr_of e v)) \<and>
   (\<forall>i vs j. parse_array_items ts n i = Inr (vs, j) \<longrightarrow> derived ts i j (\<lambda>e. items_of e vs)) \<and>
   (\<forall>i m m' j. parse_object_items ts n m i = Inr (m', j) \<longrightarrow> derived ts i j (\<lambda>e. entries_of e m m'))"
proof (induction n)
  case 0
  then show ?case by simp
next
  case (Suc n)
  have E: "derived ts i j (\<lambda>e. expr_of e v)" if "parse_expr ts n i = Inr (v, j)" for i v j using Suc that by blast
  have A: "derived ts i j (\<lambda>e. items_of e vs)" if "parse_array_items ts n i = Inr (vs, j)" for i vs j using Suc that by blast
  have O: "derived ts i j (\<lambda>e. entries_of e m m')" if "parse_object_items ts n m i = Inr (m', j)" for i m m' j using Suc that by blast
  have "derived ts i j (\<lambda>e. expr_of e v)" if p: "parse_expr ts (Suc n) i = Inr (v, j)" for i v j
  proof -
    have i: "i < length ts" using p by (auto simp: rbind_eq_Inr tok_at_Inr)
    note one = derived_one [OF i, where P = "\<lambda>e. expr_of e v"] and before = derived_before [OF i, where P = "\<lambda>e. expr_of e v"]
    show ?thesis
    proof (cases "tk_kind (ts ! i)")
      case TLBracket
      then obtain vs where "parse_array_items ts n (i + 1) = Inr (vs, j)" "v = VArray vs" using p i by (auto simp: rbind_eq_Inr)
      then show ?thesis using TLBracket by (intro before [OF A]) (auto intro: array)
    next
      case TLBrace
      then obtain m where "parse_object_items ts n [] (i + 1) = Inr (m, j)" "v = VObject m" using p i by (auto simp: rbind_eq_Inr)
      then show ?thesis using TLBrace by (intro before [OF O]) (auto intro: object)
    next
      case (TIdent name)
      then have "name = ''null''" "v = VNull" "j = i + 1" using p i by (auto split: if_splits)
      then show ?thesis using TIdent one null by simp
    qed (use p i one in \<open>auto intro: string number bool\<close>)
  qed
  moreover have "derived ts i j (\<lambda>e. items_of e vs)" if p: "parse_array_items ts (Suc n) i = Inr (vs, j)" for i vs j
  proof (cases "i < length ts \<and> tk_kind (ts ! i) = TRBracket")
    case True
    then show ?thesis using p derived_one [of i ts "\<lambda>e. items_of e vs"] no_items by auto
  next
    case False
    then obtain v k where k: "parse_expr ts n i = Inr (v, k)" "k < length ts"
      "(if tk_kind (ts ! k) = TComma then rbind (parse_array_items ts n (k + 1)) (\<lambda>(vs, l). Inr (v # vs, l))
        else if tk_kind (ts ! k) = TRBracket then Inr ([v], k + 1) else perror_here ts k (ExpectedCommaBracket (tk_kind (ts ! k)))) = Inr (vs, j)"
      using p by (auto simp: rbind_eq_Inr peek_Inr)
    note e = E [OF k(1)]
    show ?thesis
    proof (cases "tk_kind (ts ! k) = TComma")
      case True
      then obtain ws where "parse_array_items ts n (k + 1) = Inr (ws, j)" "vs = v # ws" using k(3) by (auto simp: rbind_eq_Inr)
      moreover from this have "derived ts k j (\<lambda>x. \<exists>r. items_of r ws \<and> x = ts ! k # r)" by (intro derived_before [OF k(2) A]) auto
      ultimately show ?thesis using True more_items by (auto elim!: derived_then [OF e])
    next
      case False
      then have "tk_kind (ts ! k) = TRBracket" "vs = [v]" "j = k + 1" using k(3) by (auto split: if_splits)
      moreover have "derived ts k (k + 1) (\<lambda>x. x = [ts ! k])" using k(2) by (intro derived_one) auto
      ultimately show ?thesis using last_item by (auto elim!: derived_then [OF e])
    qed
  qed
  moreover have "derived ts i j (\<lambda>e. entries_of e m m')" if p: "parse_object_items ts (Suc n) m i = Inr (m', j)" for i m m' j
  proof -
    have i: "i < length ts" using p by (auto simp: rbind_eq_Inr peek_Inr)
    show ?thesis
    proof (cases "tk_kind (ts ! i) = TRBrace")
      case True
      then show ?thesis using p i derived_one [of i ts "\<lambda>e. entries_of e m m'"] no_entries by auto
    next
      case False
      then obtain name v k where k: "tk_kind (ts ! i) = TIdent name \<or> tk_kind (ts ! i) = TString name" "equals_next ts i"
        "parse_expr ts n (i + 2) = Inr (v, k)" "map_of m name = None" "parse_object_items ts n (bt_insert name v m) k = Inr (m', j)"
        using p i by (cases "tk_kind (ts ! i)") (auto simp: rbind_eq_Inr split: if_splits)
      have q: "tk_kind (ts ! (i + 1)) = TEquals" using k(2) by (simp add: equals_next_def)
      show ?thesis by (rule derived_named [OF i k(2) E [OF k(3)] O [OF k(5)]]) (rule entry [OF k(1) q _ k(4)])
    qed
  qed
  ultimately show ?case by blast
qed

lemma parsed_labels:
  "parse_labels ts n i = Inr (labels, j) \<Longrightarrow> derived ts i j (\<lambda>ls. map tk_kind ls = map TString labels)"
proof (induction n arbitrary: i labels)
  case (Suc n)
  have i: "i < length ts" using Suc.prems by (auto simp: rbind_eq_Inr peek_Inr)
  show ?case
  proof (cases "\<exists>s. tk_kind (ts ! i) = TString s")
    case True
    then obtain s ss where s: "tk_kind (ts ! i) = TString s" "parse_labels ts n (i + 1) = Inr (ss, j)" "labels = s # ss"
      using Suc.prems i by (auto simp: rbind_eq_Inr)
    then show ?thesis by (intro derived_before [OF i Suc.IH [OF s(2)]]) auto
  next
    case False
    then have "labels = []" "j = i" using Suc.prems i by (auto split: tok.splits)
    then show ?thesis by (intro derivedI [of _ "[]"]) auto
  qed
qed simp

lemma parsed_block:
  "(\<forall>i c j. parse_block ts n i = Inr (c, j) \<longrightarrow> derived ts i j (\<lambda>e. block_of True e c)) \<and>
   (\<forall>i a bs a' bs' j. parse_body ts n a bs i = Inr (a', bs', j) \<longrightarrow> derived ts i j (\<lambda>e. body_of True e a bs a' bs'))"
proof (induction n)
  case 0
  then show ?case by simp
next
  case (Suc n)
  have B: "derived ts i j (\<lambda>e. block_of True e c)" if "parse_block ts n i = Inr (c, j)" for i c j using Suc that by blast
  have D: "derived ts i j (\<lambda>e. body_of True e a bs a' bs')" if "parse_body ts n a bs i = Inr (a', bs', j)" for i a bs a' bs' j
    using Suc that by blast
  have "derived ts i j (\<lambda>e. block_of True e c)" if p: "parse_block ts (Suc n) i = Inr (c, j)" for i c j
  proof -
    have i: "i < length ts" using p by (auto simp: rbind_eq_Inr tok_at_Inr)
    obtain name where name: "tk_kind (ts ! i) = TIdent name" using p i by (cases "tk_kind (ts ! i)") auto
    obtain labels k where l: "parse_labels ts (Suc (length ts)) (i + 1) = Inr (labels, k)" "k < length ts"
      and r: "(if name = ''import'' \<and> (length labels = 1 \<or> length labels = 2) \<and> tk_kind (ts ! k) \<noteq> TLBrace
         then Inr (Block name labels [] [] None (tk_line (ts ! i)) (tk_column (ts ! i)), k)
         else if tk_kind (ts ! k) \<noteq> TLBrace then perror_at ts k (tk_line (ts ! i)) (ExpectedBrace name)
         else rbind (parse_body ts n [] [] (k + 1)) (\<lambda>(attrs, blocks, k).
           Inr (Block name labels attrs blocks None (tk_line (ts ! i)) (tk_column (ts ! i)), k))) = Inr (c, j)"
      using p i name by (auto simp: rbind_eq_Inr peek_Inr simp del: parse_labels.simps)
    note ls = parsed_labels [OF l(1)]
    show ?thesis
    proof (cases "tk_kind (ts ! k) = TLBrace")
      case False
      then have "name = ''import''" "length labels = 1 \<or> length labels = 2" "j = k"
        "c = Block ''import'' labels [] [] None (tk_line (ts ! i)) (tk_column (ts ! i))" using r by (auto split: if_splits)
      with name show ?thesis by (auto intro!: derived_before [OF i ls] bare_import)
    next
      case True
      then obtain attrs blocks where body: "parse_body ts n [] [] (k + 1) = Inr (attrs, blocks, j)"
        and c: "c = Block name labels attrs blocks None (tk_line (ts ! i)) (tk_column (ts ! i))"
        using r by (auto simp: rbind_eq_Inr)
      have "derived ts k j (\<lambda>x. \<exists>e. body_of True e [] [] attrs blocks \<and> x = ts ! k # e)"
        by (rule derived_before [OF l(2) D [OF body]]) blast
      then have "derived ts (i + 1) j (\<lambda>x. \<exists>ls e. map tk_kind ls = map TString labels \<and> body_of True e [] [] attrs blocks \<and> x = ls @ ts ! k # e)"
        by (rule derived_then [OF ls]) blast
      then show ?thesis unfolding c by (rule derived_before [OF i]) (use block name True in blast)
    qed
  qed
  moreover have "derived ts i j (\<lambda>e. body_of True e a bs a' bs')" if p: "parse_body ts (Suc n) a bs i = Inr (a', bs', j)" for i a bs a' bs' j
  proof -
    have i: "i < length ts" using p by (auto simp: rbind_eq_Inr peek_Inr)
    consider (over) "tk_kind (ts ! i) = TRBrace" "a' = a" "bs' = bs" "j = i + 1"
      | (attr) name v k where "tk_kind (ts ! i) = TIdent name \<or> tk_kind (ts ! i) = TString name" "equals_next ts i"
        "parse_expr ts n (i + 2) = Inr (v, k)" "map_of a name = None" "parse_body ts n (bt_insert name v a) bs k = Inr (a', bs', j)"
      | (child) c k where "parse_block ts n i = Inr (c, k)" "parse_body ts n a (bs @ [c]) k = Inr (a', bs', j)"
      using p i by (cases "tk_kind (ts ! i)") (auto simp: rbind_eq_Inr split: if_splits)
    then show ?thesis
    proof cases
      case over
      then show ?thesis using i derived_one [of i ts "\<lambda>e. body_of True e a bs a' bs'"] body_end by simp
    next
      case attr
      have q: "tk_kind (ts ! (i + 1)) = TEquals" using attr(2) by (simp add: equals_next_def)
      have "derived ts (i + 2) k (\<lambda>e. expr_of e v)" using parsed_expr attr(3) by blast
      then show ?thesis by (rule derived_named [OF i attr(2) _ D [OF attr(5)]]) (rule attribute [OF attr(1) q _ attr(4)])
    next
      case child
      then show ?thesis by (intro derived_then [OF B D]) (auto intro: block_of_body_of.child)
    qed
  qed
  ultimately show ?case by blast
qed

lemma parsed_blocks:
  "parse_blocks ts n i = Inr bs \<Longrightarrow> \<exists>es eof. list_all2 (block_of True) es bs \<and> tokens_at ts i (concat es @ [eof]) \<and> tk_kind eof = TEof"
proof (induction n arbitrary: i bs)
  case (Suc n)
  have i: "i < length ts" using Suc.prems by (auto simp: rbind_eq_Inr peek_Inr)
  show ?case
  proof (cases "tk_kind (ts ! i) = TEof")
    case True
    then have "bs = []" using Suc.prems i by simp
    with i True show ?thesis by (intro exI [of _ "[]"] exI [of _ "ts ! i"]) simp
  next
    case False
    then obtain b j rest where b: "parse_block ts (parser_fuel ts) i = Inr (b, j)" "parse_blocks ts n j = Inr rest" "bs = b # rest"
      using Suc.prems i by (auto simp: rbind_eq_Inr)
    obtain e where e: "block_of True e b" "tokens_at ts i e" "j = i + length e" using parsed_block b(1) unfolding derived_def by blast
    obtain es eof where "list_all2 (block_of True) es rest" "tokens_at ts j (concat es @ [eof])" "tk_kind eof = TEof"
      using Suc.IH [OF b(2)] by blast
    with b e show ?thesis by (intro exI [of _ "e # es"] exI [of _ eof]) auto
  qed
qed simp

lemma tokens_at_prefix: "tokens_at ts i e \<Longrightarrow> e = take (length e) (drop i ts)"
proof (induction e arbitrary: i)
  case (Cons t e)
  then show ?case using Cons_nth_drop_Suc [of i ts] by (metis length_Cons take_Suc_Cons tokens_at.simps(2))
qed simp

lemma tokens_at_all:
  assumes "tokens_ok ts" and "tokens_at ts 0 (e @ [eof])" and "tk_kind eof = TEof"
  shows "ts = e @ [eof]"
proof -
  have "length e < length ts" "ts ! length e = eof" using assms(2) by simp_all
  then have "\<not> length e + 1 < length ts" using assms(1,3) unfolding tokens_ok_def by (metis add_diff_cancel_right' in_set_conv_nth length_butlast less_diff_conv nth_butlast)
  then have "length ts = length (e @ [eof])" using \<open>length e < length ts\<close> by simp
  then show ?thesis using tokens_at_prefix [OF assms(2)] by simp
qed

text \<open>
  C22: the parser implements its grammar. A file whose tokens are derived by the grammar documented at the
  head of \<open>parser.rs\<close> (blocks with labels; attributes and nested blocks in any order; strings, numbers,
  booleans, arrays and objects nested to any depth) is parsed into exactly the blocks it denotes, with the
  positions of their names and the name of the file; the grammar also has the forms the parser takes
  beyond the documented ones: \<open>null\<close>, quoted names, a comma after the last element of an array; it gives
  every name of a body or an object once. Conversely, whatever the parser accepts is derived by that
  grammar together with the braceless form of \<open>import\<close>, and the blocks it returns are those it denotes.
\<close>

theorem grammar_parsed:
  assumes "tokenize src = Inr ts"
  shows "(\<forall>es eof bs. ts = concat es @ [eof] \<and> tk_kind eof = TEof \<and> list_all2 (block_of False) es bs \<longrightarrow>
      parse_file_named src source = Inr (map (set_source source) bs)) \<and>
    (\<forall>out. parse_file_named src source = Inr out \<longrightarrow>
      (\<exists>es eof bs. ts = concat es @ [eof] \<and> tk_kind eof = TEof \<and> list_all2 (block_of True) es bs \<and> out = map (set_source source) bs))"
proof (intro conjI allI impI)
  fix es eof bs
  assume a: "ts = concat es @ [eof] \<and> tk_kind eof = TEof \<and> list_all2 (block_of False) es bs"
  then have "parse_blocks ts (Suc (length ts)) 0 = Inr bs"
    using tokens_at_suffix [of "[]" "concat es @ [eof]" "[]"] blocks_within [of es bs]
    by (intro read_blocks [where es = es and eof = eof]) auto
  with assms show "parse_file_named src source = Inr (map (set_source source) bs)" by (rule parse_file_tokens)
next
  fix out
  assume "parse_file_named src source = Inr out"
  then obtain bs where bs: "parse_blocks ts (Suc (length ts)) 0 = Inr bs" "out = map (set_source source) bs"
    using assms by (auto simp: parse_file_named_def rbind_eq_Inr attach_source_Inr)
  from parsed_blocks [OF bs(1)] obtain es eof where e: "list_all2 (block_of True) es bs" "tokens_at ts 0 (concat es @ [eof])" "tk_kind eof = TEof"
    by blast
  have "tokens_ok ts" using tokenize_ok assms by (simp add: tokenize_def)
  from tokens_at_all [OF this e(2,3)] e bs(2)
  show "\<exists>es eof bs. ts = concat es @ [eof] \<and> tk_kind eof = TEof \<and> list_all2 (block_of True) es bs \<and> out = map (set_source source) bs" by blast
qed

text \<open>\<open>role "client" { a = ["x", null] "b" = {k = true} step {} }\<close>, all of it on one line.\<close>

definition tok_on :: "nat \<Rightarrow> tok \<Rightarrow> token" where
  "tok_on column t = \<lparr>tk_kind = t, tk_line = 1, tk_column = column\<rparr>"

definition sample_tokens :: "token list" where
  "sample_tokens =
     [tok_on 1 (TIdent ''role''), tok_on 6 (TString ''client''), tok_on 15 TLBrace,
      tok_on 17 (TIdent ''a''), tok_on 19 TEquals,
      tok_on 21 TLBracket, tok_on 22 (TString ''x''), tok_on 25 TComma, tok_on 27 (TIdent ''null''), tok_on 31 TRBracket,
      tok_on 33 (TString ''b''), tok_on 37 TEquals,
      tok_on 39 TLBrace, tok_on 40 (TIdent ''k''), tok_on 42 TEquals, tok_on 44 (TBool True), tok_on 48 TRBrace,
      tok_on 50 (TIdent ''step''), tok_on 55 TLBrace, tok_on 56 TRBrace, tok_on 58 TRBrace]"

definition sample_tree :: block where
  "sample_tree = Block ''role'' [''client''] [(''a'', VArray [VString ''x'', VNull]), (''b'', VObject [(''k'', VBool True)])]
     [Block ''step'' [] [] [] None 1 50] None 1 1"

lemma tok_on_simps [simp]: "tk_kind (tok_on c t) = t" "tk_line (tok_on c t) = 1" "tk_column (tok_on c t) = c"
  by (simp_all add: tok_on_def)

lemma sample_derived: "block_of False sample_tokens sample_tree"
proof -
  have "items_of ([tok_on 22 (TString ''x'')] @ tok_on 25 TComma # [tok_on 27 (TIdent ''null'')] @ [tok_on 31 TRBracket]) [VString ''x'', VNull]"
    by (intro more_items last_item string null) simp_all
  then have arr: "expr_of (tok_on 21 TLBracket # [tok_on 22 (TString ''x'')] @ tok_on 25 TComma # [tok_on 27 (TIdent ''null'')] @ [tok_on 31 TRBracket])
      (VArray [VString ''x'', VNull])"
    by (intro array) simp_all
  have "entries_of (tok_on 40 (TIdent ''k'') # tok_on 42 TEquals # [tok_on 44 (TBool True)] @ [tok_on 48 TRBrace]) [] [(''k'', VBool True)]"
    by (intro entry [where name = "''k''" and v = "VBool True"] bool) (simp_all add: no_entries)
  then have obj: "expr_of (tok_on 39 TLBrace # tok_on 40 (TIdent ''k'') # tok_on 42 TEquals # [tok_on 44 (TBool True)] @ [tok_on 48 TRBrace])
      (VObject [(''k'', VBool True)])"
    by (intro object) simp_all
  have step: "block_of False (tok_on 50 (TIdent ''step'') # [] @ tok_on 55 TLBrace # [tok_on 56 TRBrace]) (Block ''step'' [] [] [] None 1 50)"
    using block [where braceless = False, of "tok_on 50 (TIdent ''step'')" "''step''" "[]" "[]" "tok_on 55 TLBrace" "[tok_on 56 TRBrace]" "[]" "[]"] by (simp add: body_end)
  have tail: "body_of False ((tok_on 50 (TIdent ''step'') # [] @ tok_on 55 TLBrace # [tok_on 56 TRBrace]) @ [tok_on 58 TRBrace]) m [] m
      [Block ''step'' [] [] [] None 1 50]" for m
    by (rule child [OF step]) (simp add: body_end)
  have "body_of False (tok_on 33 (TString ''b'') # tok_on 37 TEquals # (tok_on 39 TLBrace # tok_on 40 (TIdent ''k'') # tok_on 42 TEquals # [tok_on 44 (TBool True)] @ [tok_on 48 TRBrace]) @
      ((tok_on 50 (TIdent ''step'') # [] @ tok_on 55 TLBrace # [tok_on 56 TRBrace]) @ [tok_on 58 TRBrace]))
      [(''a'', VArray [VString ''x'', VNull])] [] [(''a'', VArray [VString ''x'', VNull]), (''b'', VObject [(''k'', VBool True)])] [Block ''step'' [] [] [] None 1 50]"
    by (rule attribute [OF _ _ obj, where name = "''b''"]) (use tail in \<open>simp_all\<close>)
  then have "body_of False (tok_on 17 (TIdent ''a'') # tok_on 19 TEquals #
      (tok_on 21 TLBracket # [tok_on 22 (TString ''x'')] @ tok_on 25 TComma # [tok_on 27 (TIdent ''null'')] @ [tok_on 31 TRBracket]) @
      (tok_on 33 (TString ''b'') # tok_on 37 TEquals # (tok_on 39 TLBrace # tok_on 40 (TIdent ''k'') # tok_on 42 TEquals # [tok_on 44 (TBool True)] @ [tok_on 48 TRBrace]) @
      ((tok_on 50 (TIdent ''step'') # [] @ tok_on 55 TLBrace # [tok_on 56 TRBrace]) @ [tok_on 58 TRBrace])))
      [] [] [(''a'', VArray [VString ''x'', VNull]), (''b'', VObject [(''k'', VBool True)])] [Block ''step'' [] [] [] None 1 50]"
    by (intro attribute [OF _ _ arr, where name = "''a''"]) simp_all
  from block [OF _ _ _ this, of "tok_on 1 (TIdent ''role'')" "''role''" "[tok_on 6 (TString ''client'')]" "[''client'']" "tok_on 15 TLBrace"]
  show ?thesis by (simp add: sample_tokens_def sample_tree_def)
qed

definition sample_source :: string where
  "sample_source = ''role '' @ string_of [34] @ ''client'' @ string_of [34] @ '' { a = ['' @ string_of [34] @ ''x'' @ string_of [34] @ '', null] '' @
     string_of [34] @ ''b'' @ string_of [34] @ '' = {k = true} step {} }''"

lemma sample_tokenized: "tokenize sample_source = Inr (sample_tokens @ [tok_on 59 TEof])"
  by code_simp

lemma grammar_parsed_witness: "parse_file_named sample_source (Some ''lab'') = Inr [set_source (Some ''lab'') sample_tree]"
proof -
  have "sample_tokens @ [tok_on 59 TEof] = concat [sample_tokens] @ [tok_on 59 TEof] \<and> tk_kind (tok_on 59 TEof) = TEof \<and>
      list_all2 (block_of False) [sample_tokens] [sample_tree]" using sample_derived by simp
  from conjunct1 [OF grammar_parsed [OF sample_tokenized, of "Some ''lab''"], rule_format, OF this] show ?thesis by simp
qed

subsection \<open>String literals\<close>

text \<open>The text of a literal: quotes and backslashes are escaped.\<close>

fun quote_body :: "string \<Rightarrow> bytes" where
  "quote_body [] = [34]"
| "quote_body (c # s) = (if byte_of c = 34 \<or> byte_of c = 92 then [92, byte_of c] else [byte_of c]) @ quote_body s"

lemma lx_rest_bump [simp]: "lx_rest (lx_bump l) = tl (lx_rest l)"
  by (simp add: lx_bump_def split: list.split)

lemma escape_quote: "b = 34 \<or> b = 92 \<Longrightarrow> escape_char b = push_byte_char b"
  by (auto simp: escape_char_def)

lemma read_quoted:
  "lx_rest l = quote_body s @ rest \<Longrightarrow> \<exists>l'. lx_rest l' = rest \<and>
     read_string_body line column l = Inr (concat (map (\<lambda>c. push_byte_char (byte_of c)) s), l')"
proof (induction s arbitrary: l)
  case Nil
  then show ?case by (subst read_string_body.simps) simp
next
  case (Cons c s)
  show ?case
  proof (cases "byte_of c = 34 \<or> byte_of c = 92")
    case True
    then have "lx_rest (lx_bump (lx_bump l)) = quote_body s @ rest" using Cons.prems by simp
    from Cons.IH [OF this] True Cons.prems show ?thesis
      by (subst read_string_body.simps) (auto simp: escape_quote)
  next
    case False
    then have "lx_rest (lx_bump l) = quote_body s @ rest" using Cons.prems by simp
    from Cons.IH [OF this] False Cons.prems show ?thesis
      by (subst read_string_body.simps) auto
  qed
qed

lemma push_ascii: "byte_of c < 0x80 \<Longrightarrow> push_byte_char (byte_of c) = [c]"
  using string_of_bytes_of [of "[c]"] by (simp add: push_byte_char_def bytes_of_def)

lemma length_push: "length (push_byte_char b) = (if b < 0x80 then 1 else 2)"
  by (simp add: push_byte_char_def string_of_def)

lemma pushed_length: "length (concat (map (\<lambda>c. push_byte_char (byte_of c)) s)) = length s + length (filter (\<lambda>c. 0x80 \<le> byte_of c) s)"
  by (induction s) (auto simp: length_push not_less)

lemma pushed_ascii: "\<forall>c \<in> set s. byte_of c < 0x80 \<Longrightarrow> concat (map (\<lambda>c. push_byte_char (byte_of c)) s) = s"
  by (induction s) (auto simp: push_ascii)

text \<open>
  a quoted literal, quotes and backslashes escaped, is read to its end, and the string that
  is read has one byte per ASCII byte of the literal and two per other byte. So the text comes
  back unchanged exactly when it is ASCII: the lexer pushes each byte of a multi-byte character
  as a character of its own.
\<close>

theorem string_literal_text:
  assumes "lx_rest l = 34 # quote_body s @ rest"
  shows "\<exists>t l'. read_string line column l = Inr (t, l') \<and> lx_rest l' = rest \<and>
    length t = length s + length (filter (\<lambda>c. 0x80 \<le> byte_of c) s) \<and>
    (t = s \<longleftrightarrow> (\<forall>c \<in> set s. byte_of c < 0x80))"
proof -
  let ?t = "concat (map (\<lambda>c. push_byte_char (byte_of c)) s)"
  obtain l' where l': "lx_rest l' = rest" "read_string line column l = Inr (?t, l')"
    using read_quoted [of "lx_bump l" s rest line column] assms by (auto simp: read_string_def)
  moreover have "?t = s \<longleftrightarrow> (\<forall>c \<in> set s. byte_of c < 0x80)"
  proof
    assume eq: "?t = s"
    then have "filter (\<lambda>c. 0x80 \<le> byte_of c) s = []" using pushed_length [of s] by simp
    then show "\<forall>c \<in> set s. byte_of c < 0x80" by (auto simp: filter_empty_conv not_le)
  qed (rule pushed_ascii)
  ultimately show ?thesis using pushed_length [of s] by blast
qed

lemma string_literal_text_witness:
  "\<exists>t l'. read_string 1 1 \<lparr>lx_rest = [34, 0xc2, 0xb5, 34, 10], lx_line = 1, lx_column = 1\<rparr> = Inr (t, l') \<and> lx_rest l' = [10] \<and>
     length t = 4 \<and> t \<noteq> string_of [0xc2, 0xb5]"
  using string_literal_text [of "\<lparr>lx_rest = [34, 0xc2, 0xb5, 34, 10], lx_line = 1, lx_column = 1\<rparr>" "string_of [0xc2, 0xb5]" "[10]" 1 1]
  by (auto simp: string_of_def)

end
