(* ===== verification/Number_Text.thy ===== *)
theory Number_Text
  imports Value
begin

text \<open>
  Text of numbers and values: \<open>str::parse::<f64>\<close>, the shortest decimal that \<open>Display\<close> prints
  for an \<open>f64\<close>, the cast to \<open>i64\<close>, and \<open>Value::to_display\<close> of \<open>src/src/value.rs\<close>. Which
  characters outside ASCII \<open>Debug\<close> prints as they are is a table of the Unicode standard and
  a parameter here.
\<close>

subsection \<open>Reading numbers\<close>

definition f64_nan :: f64 where
  "f64_nan = 0x7ff8000000000000"

definition f64_inf :: f64 where
  "f64_inf = 0x7ff0000000000000"

definition f64_negate :: "bool \<Rightarrow> f64 \<Rightarrow> f64" where
  "f64_negate neg w = (if neg then w XOR 0x8000000000000000 else w)"

definition f64_of_decimal :: "bool \<Rightarrow> nat \<Rightarrow> int \<Rightarrow> f64" where
  "f64_of_decimal neg m e =
     (if 0 \<le> e then f64_of_ratio neg (m * 10 ^ nat e) 1 else f64_of_ratio neg m (10 ^ nat (- e)))"

definition ascii_lower :: "string \<Rightarrow> string" where
  "ascii_lower s = map (\<lambda>c. if 65 \<le> byte_of c \<and> byte_of c \<le> 90 then char_from (byte_of c + 32) else c) s"

text \<open>The digits of an exponent stop counting at 65536.\<close>

definition exponent_value :: "string \<Rightarrow> nat" where
  "exponent_value ds = foldl (\<lambda>e c. if e < 65536 then 10 * e + (unat (byte_of c) - 48) else e) 0 ds"

definition parse_exponent :: "string \<Rightarrow> int option" where
  "parse_exponent s =
     (case s of
        [] \<Rightarrow> Some 0
      | c # rest \<Rightarrow>
          if c = CHR ''e'' \<or> c = CHR ''E'' then
            (let neg = (rest \<noteq> [] \<and> hd rest = CHR ''-'');
                 ds = (if rest \<noteq> [] \<and> (hd rest = CHR ''-'' \<or> hd rest = CHR ''+'') then tl rest else rest) in
             if ds = [] \<or> \<not> list_all is_digit ds then None
             else Some (if neg then - int (exponent_value ds) else int (exponent_value ds)))
          else None)"

definition parse_f64_number :: "bool \<Rightarrow> string \<Rightarrow> f64 option" where
  "parse_f64_number neg s =
     (let whole = takeWhile is_digit s;
          s1 = dropWhile is_digit s;
          point = (s1 \<noteq> [] \<and> hd s1 = CHR ''.'');
          frac = (if point then takeWhile is_digit (tl s1) else []);
          s2 = (if point then dropWhile is_digit (tl s1) else s1)
      in if whole = [] \<and> frac = [] then None
         else map_option (\<lambda>e. f64_of_decimal neg (digits_value (whole @ frac)) (e - int (length frac))) (parse_exponent s2))"

definition parse_f64 :: "string \<Rightarrow> f64 option" where
  "parse_f64 s =
     (let neg = (s \<noteq> [] \<and> hd s = CHR ''-'');
          body = (if s \<noteq> [] \<and> (hd s = CHR ''-'' \<or> hd s = CHR ''+'') then tl s else s)
      in if body = [] then None
         else case parse_f64_number neg body of
           Some w \<Rightarrow> Some w
         | None \<Rightarrow>
             (let l = ascii_lower body in
              if l = ''nan'' then Some (f64_negate neg f64_nan)
              else if l = ''inf'' \<or> l = ''infinity'' then Some (f64_negate neg f64_inf)
              else None))"

subsection \<open>Printing numbers\<close>

text \<open>\<open>w as i64\<close>: towards zero, saturating, zero for NaN.\<close>

definition f64_as_i64 :: "f64 \<Rightarrow> int" where
  "f64_as_i64 w =
     (if f64_is_nan w then 0
      else let t = (if f64_sign w then - (int (f64_magnitude w) div f64_unit) else int (f64_magnitude w) div f64_unit)
           in max (- (2 ^ 63)) (min (2 ^ 63 - 1) t))"

definition decimal_int :: "int \<Rightarrow> string" where
  "decimal_int i = (if i < 0 then CHR ''-'' # decimal (nat (- i)) else decimal (nat i))"

text \<open>The least \<open>p\<close> with \<open>n / d < 10 ^ p\<close>, for positive doubles.\<close>

definition below_pow10 :: "nat \<Rightarrow> nat \<Rightarrow> int \<Rightarrow> bool" where
  "below_pow10 n d p \<longleftrightarrow> (if 0 \<le> p then n < d * 10 ^ nat p else n * 10 ^ nat (- p) < d)"

definition decimal_exponent :: "nat \<Rightarrow> nat \<Rightarrow> int" where
  "decimal_exponent n d = unwrap_or 0 (find (below_pow10 n d) (map (\<lambda>i. int i - 330) [0..<650]))"

text \<open>
  The shortest digits of a positive double, the closest to its value among them, a tie up:
  with \<open>k\<close> digits the candidates are the value cut off and the next one, and those count that
  read as the same double.
\<close>

definition digits_of_length :: "f64 \<Rightarrow> int \<Rightarrow> nat \<Rightarrow> nat option" where
  "digits_of_length w p k =
     (let n = f64_magnitude w; d = nat f64_unit; s = int k - p;
          num = (if 0 \<le> s then n * 10 ^ nat s else n); den = (if 0 \<le> s then d else d * 10 ^ nat (- s));
          q = num div den; r = num mod den;
          down = (f64_of_decimal False q (p - int k) = w); up = (f64_of_decimal False (q + 1) (p - int k) = w)
      in if up \<and> (\<not> down \<or> den \<le> 2 * r) then Some (q + 1) else if down then Some q else None)"

definition shortest_digits :: "f64 \<Rightarrow> nat \<times> int" where
  "shortest_digits w =
     (let p = decimal_exponent (f64_magnitude w) (nat f64_unit) in
      case find (\<lambda>k. digits_of_length w p k \<noteq> None) [1..<18] of
        Some k \<Rightarrow> (the (digits_of_length w p k), p - int k)
      | None \<Rightarrow> (0, 0))"

text \<open>Digits \<open>m\<close> at exponent \<open>e\<close>, without an exponent in the text.\<close>

definition positional :: "nat \<Rightarrow> int \<Rightarrow> string" where
  "positional m e =
     (if 0 \<le> e then decimal m @ replicate (nat e) CHR ''0''
      else let ds = decimal m; k = nat (- e) in
        if k < length ds then take (length ds - k) ds @ ''.'' @ drop (length ds - k) ds
        else ''0.'' @ replicate (k - length ds) CHR ''0'' @ ds)"

definition display_f64 :: "f64 \<Rightarrow> string" where
  "display_f64 w =
     (if f64_is_nan w then ''NaN''
      else (if f64_sign w then ''-'' else []) @
        (let a = f64_negate (f64_sign w) w in
         if \<not> f64_is_finite w then ''inf''
         else if f64_magnitude w = 0 then ''0''
         else case shortest_digits a of (m, e) \<Rightarrow> positional m e))"

subsection \<open>Displayed values\<close>

fun bool_text :: "bool \<Rightarrow> string" where
  "bool_text True = ''true''"
| "bool_text False = ''false''"

text \<open>\<open>Debug\<close> of a string: quoted, with the special and the unprintable characters escaped.\<close>

definition utf8_len :: "byte \<Rightarrow> nat" where
  "utf8_len b = (if b < 0x80 then 1 else if b < 0xe0 then 2 else if b < 0xf0 then 3 else 4)"

fun hex_text :: "nat \<Rightarrow> string" where
  "hex_text n = (if n < 16 then [hex_char n] else hex_text (n div 16) @ [hex_char (n mod 16)])"

declare hex_text.simps [simp del]

definition code_point :: "bytes \<Rightarrow> nat" where
  "code_point bs =
     (case bs of
        [] \<Rightarrow> 0
      | b # cs \<Rightarrow>
          foldl (\<lambda>n c. n * 64 + unat c mod 64)
            (if length cs = 0 then unat b else if length cs = 1 then unat b mod 32
             else if length cs = 2 then unat b mod 16 else unat b mod 8) cs)"

definition debug_char :: "(nat \<Rightarrow> bool) \<Rightarrow> bytes \<Rightarrow> string" where
  "debug_char printable bs =
     (let n = code_point bs in
      if n = 0 then [char_from 92, CHR ''0'']
      else if n = 9 then [char_from 92, CHR ''t'']
      else if n = 10 then [char_from 92, CHR ''n'']
      else if n = 13 then [char_from 92, CHR ''r'']
      else if n = 34 \<or> n = 92 then [char_from 92, char_from (of_nat n)]
      else if (if n < 128 then 32 \<le> n \<and> n < 127 else printable n) then string_of bs
      else [char_from 92] @ ''u{'' @ hex_text n @ ''}'')"

function debug_body :: "(nat \<Rightarrow> bool) \<Rightarrow> bytes \<Rightarrow> string" where
  "debug_body printable [] = []"
| "debug_body printable (b # bs) =
     debug_char printable (take (utf8_len b) (b # bs)) @ debug_body printable (drop (utf8_len b) (b # bs))"
  by pat_completeness auto
termination
  by (relation "measure (\<lambda>(_, bs). length bs)") (auto simp: utf8_len_def)

definition debug_str :: "(nat \<Rightarrow> bool) \<Rightarrow> string \<Rightarrow> string" where
  "debug_str printable s = [char_from 34] @ debug_body printable (bytes_of s) @ [char_from 34]"

fun to_display :: "(nat \<Rightarrow> bool) \<Rightarrow> val \<Rightarrow> string" where
  "to_display pr VNull = ''null''"
| "to_display pr (VBool b) = bool_text b"
| "to_display pr (VNumber n) = (if f64_is_integral n then decimal_int (f64_as_i64 n) else display_f64 n)"
| "to_display pr (VString s) = debug_str pr s"
| "to_display pr (VBytes b) = ''hex:'' @ [char_from 34] @ bytes_to_hex b @ [char_from 34]"
| "to_display pr (VArray a) = ''['' @ join '', '' (map (to_display pr) a) @ '']''"
| "to_display pr (VObject m) = ''{ '' @ join '', '' (map (\<lambda>(k, v). k @ '' = '' @ to_display pr v) m) @ '' }''"

end
