(* ===== verification/Interpret_Attrs.thy ===== *)
theory Interpret_Attrs
  imports Model Number_Text "HOL-Library.Product_Lexorder"
begin

text \<open>
  Typed access to the attributes of a block, and the interpretation of the parts of a
  protocol that are not steps: limits, retry policies, transport configuration and header
  schemas (\<open>src/src/model.rs\<close>). What the code takes from elsewhere is the record
  \<open>interpret_env\<close>: which patterns \<open>regex_lite\<close> compiles and the Unicode table behind
  \<open>Debug\<close>. Where several entries of a map are wrong the code reports the first one in the
  iteration order of its \<open>HashMap\<close>; here it is the least key.
\<close>

record interpret_env =
  ie_regex :: "string \<Rightarrow> bool"
  ie_printable :: "nat \<Rightarrow> bool"

type_synonym 'a mres = "(model_error, 'a) res"

subsection \<open>Attributes\<close>

definition bq :: "string \<Rightarrow> string" where
  "bq s = ''`'' @ s @ ''`''"

definition merror :: "string \<Rightarrow> 'a mres" where
  "merror msg = Inl (Fail (merr msg))"

definition type_error :: "interpret_env \<Rightarrow> string \<Rightarrow> string \<Rightarrow> string \<Rightarrow> val \<Rightarrow> 'a mres" where
  "type_error env context key expected actual =
     merror (context @ '' '' @ bq key @ '' must be '' @ expected @ '', got '' @ to_display (ie_printable env) actual)"

text \<open>An optional attribute read by a partial conversion.\<close>

definition typed_attr ::
  "interpret_env \<Rightarrow> val_map \<Rightarrow> string \<Rightarrow> string \<Rightarrow> string \<Rightarrow> (val \<Rightarrow> 'a option) \<Rightarrow> 'a option mres" where
  "typed_attr env attrs context key expected conv =
     (case map_of attrs key of
        None \<Rightarrow> Inr None
      | Some v \<Rightarrow> (case conv v of Some x \<Rightarrow> Inr (Some x) | None \<Rightarrow> type_error env context key expected v))"

definition optional_u32 :: "interpret_env \<Rightarrow> val_map \<Rightarrow> string \<Rightarrow> string \<Rightarrow> nat \<Rightarrow> nat mres" where
  "optional_u32 env attrs context key dflt =
     rbind (typed_attr env attrs context key ''a non-negative integer up to u32'' as_u32) (\<lambda>v. Inr (unwrap_or dflt v))"

definition optional_u64 :: "interpret_env \<Rightarrow> val_map \<Rightarrow> string \<Rightarrow> string \<Rightarrow> nat \<Rightarrow> nat mres" where
  "optional_u64 env attrs context key dflt =
     rbind (typed_attr env attrs context key ''a non-negative integer'' as_u64) (\<lambda>v. Inr (unwrap_or dflt v))"

definition optional_optional_u64 :: "interpret_env \<Rightarrow> val_map \<Rightarrow> string \<Rightarrow> string \<Rightarrow> nat option mres" where
  "optional_optional_u64 env attrs context key = typed_attr env attrs context key ''a non-negative integer'' as_u64"

definition optional_optional_i64 :: "interpret_env \<Rightarrow> val_map \<Rightarrow> string \<Rightarrow> string \<Rightarrow> int option mres" where
  "optional_optional_i64 env attrs context key = typed_attr env attrs context key ''an integer'' as_i64"

definition optional_string :: "interpret_env \<Rightarrow> val_map \<Rightarrow> string \<Rightarrow> string \<Rightarrow> string option mres" where
  "optional_string env attrs context key = typed_attr env attrs context key ''a string'' as_str"

definition optional_string_array :: "interpret_env \<Rightarrow> val_map \<Rightarrow> string \<Rightarrow> string \<Rightarrow> string list mres" where
  "optional_string_array env attrs context key =
     rbind (typed_attr env attrs context key ''an array of strings'' as_string_array) (\<lambda>v. Inr (unwrap_or [] v))"

definition optional_bool :: "interpret_env \<Rightarrow> val_map \<Rightarrow> string \<Rightarrow> string \<Rightarrow> bool \<Rightarrow> bool mres" where
  "optional_bool env attrs context key dflt =
     rbind (typed_attr env attrs context key ''a boolean'' as_bool) (\<lambda>v. Inr (unwrap_or dflt v))"

definition optional_usize :: "interpret_env \<Rightarrow> val_map \<Rightarrow> string \<Rightarrow> string \<Rightarrow> nat \<Rightarrow> nat mres" where
  "optional_usize env attrs context key dflt =
     rbind (typed_attr env attrs context key ''a positive platform-sized integer''
         (\<lambda>v. Option.bind (as_u64 v) (\<lambda>n. if n > 0 then Some n else None)))
       (\<lambda>v. Inr (unwrap_or dflt v))"

fun finite_number :: "val \<Rightarrow> f64 option" where
  "finite_number (VNumber n) = (if f64_is_finite n then Some n else None)"
| "finite_number _ = None"

definition optional_f64 :: "interpret_env \<Rightarrow> val_map \<Rightarrow> string \<Rightarrow> string \<Rightarrow> f64 \<Rightarrow> f64 mres" where
  "optional_f64 env attrs context key dflt =
     rbind (typed_attr env attrs context key ''a finite number'' finite_number) (\<lambda>v. Inr (unwrap_or dflt v))"

definition f64_one :: f64 where
  "f64_one = f64_of_int 1"

definition unit_interval :: "f64 \<Rightarrow> bool" where
  "unit_interval x \<longleftrightarrow> f64_le 0 x \<and> f64_le x f64_one"

definition en_dash :: string where
  "en_dash = string_of [0xe2, 0x80, 0x93]"

definition optional_probability :: "interpret_env \<Rightarrow> val_map \<Rightarrow> string \<Rightarrow> string \<Rightarrow> f64 mres" where
  "optional_probability env attrs context key =
     rbind (typed_attr env attrs context key ''number'' finite_number) (\<lambda>v.
     let value = unwrap_or 0 v in
     if unit_interval value then Inr value
     else merror (context @ '' '' @ bq key @ '' must be 0.0'' @ en_dash @ ''1.0, got '' @ display_f64 value))"

subsection \<open>Durations\<close>

text \<open>\<open>"100ms"\<close>, \<open>"2s"\<close>, \<open>"500"\<close>; the number stops at the first character that is no digit.\<close>

definition parse_duration_ms :: "string \<Rightarrow> nat mres" where
  "parse_duration_ms s0 =
     (let s = trim s0 in
      if s = [] then merror ''empty duration''
      else let num = takeWhile is_digit s; u = trim (dropWhile is_digit s) in
        case parse_usize num of
          None \<Rightarrow> merror (''invalid duration number in '' @ bq s)
        | Some n \<Rightarrow>
            (case (if u = [] \<or> u = ''ms'' then Some 1 else if u = ''s'' then Some 1000 else None) of
               None \<Rightarrow> merror (''unknown duration unit '' @ bq u @ '' (use ms or s)'')
             | Some mult \<Rightarrow>
                 if n * mult < 2 ^ 64 then Inr (n * mult) else merror (''duration '' @ bq s @ '' overflows milliseconds'')))"

definition optional_duration :: "interpret_env \<Rightarrow> val_map \<Rightarrow> string \<Rightarrow> string \<Rightarrow> nat \<Rightarrow> nat mres" where
  "optional_duration env attrs context key dflt =
     rbind (typed_attr env attrs context key ''a duration string'' as_str) (\<lambda>v.
     case v of None \<Rightarrow> Inr dflt | Some s \<Rightarrow> parse_duration_ms s)"

subsection \<open>Structure of blocks\<close>

definition validate_attributes :: "block \<Rightarrow> string list \<Rightarrow> unit mres" where
  "validate_attributes b allowed = validate_map_keys (block_attributes b) allowed (block_name b @ '' block'')"

definition validate_children :: "block \<Rightarrow> (string \<Rightarrow> bool) \<Rightarrow> string \<Rightarrow> unit mres" where
  "validate_children b allowed context =
     (case find (\<lambda>c. \<not> allowed (block_name c)) (block_children b) of
        Some c \<Rightarrow> merror (''unknown child block '' @ bq (block_name c) @ '' in '' @ context)
      | None \<Rightarrow> Inr ())"

definition ensure_single_child :: "block \<Rightarrow> string \<Rightarrow> string \<Rightarrow> unit mres" where
  "ensure_single_child b name context =
     (if length (block_all_children b name) > 1 then merror (''duplicate '' @ bq name @ '' block in '' @ context) else Inr ())"

definition guard_m :: "bool \<Rightarrow> string \<Rightarrow> unit mres" where
  "guard_m ok msg = (if ok then Inr () else merror msg)"

text \<open>The single label of a block.\<close>

definition one_label :: "block \<Rightarrow> string \<Rightarrow> string \<Rightarrow> string mres" where
  "one_label b missing many =
     (case block_labels b of
        [] \<Rightarrow> merror missing
      | [name] \<Rightarrow> Inr name
      | _ \<Rightarrow> merror many)"

text \<open>\<open>Option::map(f).transpose()\<close>.\<close>

definition transpose_map :: "('a \<Rightarrow> 'b mres) \<Rightarrow> 'a option \<Rightarrow> 'b option mres" where
  "transpose_map f v = (case v of None \<Rightarrow> Inr None | Some x \<Rightarrow> rbind (f x) (\<lambda>y. Inr (Some y)))"

subsection \<open>Limits and retry policies\<close>

definition limit_keys :: "string list" where
  "limit_keys = [''max_inbox'', ''max_trace'', ''max_payload'', ''max_loop'', ''max_retry'', ''connect_timeout'', ''max_runtime'']"

definition interpret_limits :: "interpret_env \<Rightarrow> block \<Rightarrow> resource_limits mres" where
  "interpret_limits env b =
     (let a = block_attributes b; d = default_resource_limits in
      rbind (validate_attributes b limit_keys) (\<lambda>_.
      rbind (validate_children b (\<lambda>_. False) ''limits'') (\<lambda>_.
      rbind (optional_usize env a ''limits'' ''max_inbox'' (rl_max_inbox d)) (\<lambda>max_inbox.
      rbind (optional_usize env a ''limits'' ''max_trace'' (rl_max_trace d)) (\<lambda>max_trace.
      rbind (optional_usize env a ''limits'' ''max_payload'' (rl_max_payload d)) (\<lambda>max_payload.
      rbind (optional_u32 env a ''limits'' ''max_loop'' (rl_max_loop d)) (\<lambda>max_loop.
      rbind (optional_u32 env a ''limits'' ''max_retry'' (rl_max_retry d)) (\<lambda>max_retry.
      rbind (optional_duration env a ''limits'' ''connect_timeout'' (rl_connect_timeout_ms d)) (\<lambda>connect_timeout.
      rbind (optional_duration env a ''limits'' ''max_runtime'' (rl_max_runtime_ms d)) (\<lambda>max_runtime.
      Inr \<lparr>rl_max_inbox = max_inbox, rl_max_trace = max_trace, rl_max_payload = max_payload, rl_max_loop = max_loop,
            rl_max_retry = max_retry, rl_connect_timeout_ms = connect_timeout, rl_max_runtime_ms = max_runtime\<rparr>))))))))))"

definition failure_names :: "string list" where
  "failure_names = [''timeout'', ''transport'', ''assertion'', ''validation'', ''resource_limit'', ''panic'', ''runtime'']"

definition interpret_retry_policy :: "interpret_env \<Rightarrow> val_map \<Rightarrow> string \<Rightarrow> retry_policy mres" where
  "interpret_retry_policy env a context =
     (let d = default_retry_policy in
      rbind (typed_attr env a context ''retry_on'' ''an array of failure names'' as_string_array) (\<lambda>names.
      let retry_on = unwrap_or [] names in
      rbind (case find (\<lambda>k. k \<notin> set failure_names) retry_on of
               Some k \<Rightarrow> merror (context @ '' retry_on has unknown failure '' @ bq k)
             | None \<Rightarrow> Inr ()) (\<lambda>_.
      rbind (optional_f64 env a context ''retry_backoff'' (rp_backoff d)) (\<lambda>backoff.
      rbind (guard_m (f64_le f64_one backoff) (context @ '' retry_backoff must be >= 1.0'')) (\<lambda>_.
      rbind (optional_f64 env a context ''retry_jitter'' (rp_jitter d)) (\<lambda>jitter.
      rbind (guard_m (unit_interval jitter) (context @ '' retry_jitter must be 0.0'' @ en_dash @ ''1.0'')) (\<lambda>_.
      rbind (optional_duration env a context ''retry_delay'' (rp_initial_delay_ms d)) (\<lambda>initial_delay.
      rbind (optional_duration env a context ''retry_max_delay'' (rp_max_delay_ms d)) (\<lambda>max_delay.
      Inr \<lparr>rp_initial_delay_ms = initial_delay, rp_max_delay_ms = max_delay, rp_backoff = backoff, rp_jitter = jitter,
            rp_retry_on = retry_on\<rparr>)))))))))"

subsection \<open>Transport configuration\<close>

definition interpret_fault_predicate :: "interpret_env \<Rightarrow> block \<Rightarrow> fault_predicate mres" where
  "interpret_fault_predicate env b =
     rbind (validate_attributes b [''field'', ''equals'']) (\<lambda>_.
     rbind (validate_children b (\<lambda>_. False) ''fault_when'') (\<lambda>_.
     rbind (optional_string env (block_attributes b) ''fault_when'' ''field'') (\<lambda>field.
     case field of
       None \<Rightarrow> merror ''fault_when requires non-empty `field`''
     | Some f \<Rightarrow>
         if trim f = [] then merror ''fault_when requires non-empty `field`''
         else (case block_attr b ''equals'' of
             None \<Rightarrow> merror ''fault_when requires `equals`''
           | Some v \<Rightarrow> Inr \<lparr>fp_field = f, fp_equals = v\<rparr>))))"

definition transport_keys :: "string list" where
  "transport_keys =
     [''loss_rate'', ''delay'', ''jitter'', ''bandwidth_bps'', ''bandwidth_after_nth'', ''bandwidth_after_bps'', ''mtu'',
      ''burst_loss'', ''duplicate_rate'', ''corrupt_rate'', ''drop_nth'', ''disconnect_nth'', ''delay_spike_nth'',
      ''delay_spike'', ''mtu_blackhole'', ''port_capacity'', ''nat_source_ip'', ''nat_source_port'', ''connect_failure'',
      ''fault_steps'', ''fault_flag'', ''reorder'', ''seed'']"

fun port_number :: "val \<Rightarrow> nat option" where
  "port_number (VNumber n) =
     (if f64_is_integral n \<and> f64_le f64_one n \<and> f64_le n (f64_of_int 65535) then Some (nat (f64_int n div f64_unit)) else None)"
| "port_number _ = None"

definition interpret_transport_config :: "interpret_env \<Rightarrow> block \<Rightarrow> transport_config mres" where
  "interpret_transport_config env b =
     (let a = block_attributes b; c = ''transport'' in
      rbind (validate_attributes b transport_keys) (\<lambda>_.
      rbind (validate_children b (\<lambda>name. name = ''fault_when'') c) (\<lambda>_.
      rbind (guard_m (length (block_all_children b ''fault_when'') \<le> 1) ''transport allows at most one fault_when block'') (\<lambda>_.
      rbind (optional_probability env a c ''loss_rate'') (\<lambda>loss_rate.
      rbind (optional_duration env a c ''delay'' 0) (\<lambda>delay_ms.
      rbind (optional_bool env a c ''reorder'' False) (\<lambda>reorder.
      rbind (optional_u64 env a c ''seed'' 0) (\<lambda>seed.
      rbind (optional_duration env a c ''jitter'' 0) (\<lambda>jitter_ms.
      rbind (optional_u64 env a c ''bandwidth_bps'' 0) (\<lambda>bandwidth_bps.
      rbind (optional_u64 env a c ''bandwidth_after_nth'' 0) (\<lambda>bandwidth_after_nth.
      rbind (optional_u64 env a c ''bandwidth_after_bps'' 0) (\<lambda>bandwidth_after_bps.
      rbind (guard_m ((bandwidth_after_nth = 0) = (bandwidth_after_bps = 0))
          ''transport `bandwidth_after_nth` and `bandwidth_after_bps` must be configured together'') (\<lambda>_.
      rbind (optional_usize env a c ''mtu'' 0) (\<lambda>mtu.
      rbind (optional_u32 env a c ''burst_loss'' 1) (\<lambda>burst_loss.
      rbind (optional_probability env a c ''duplicate_rate'') (\<lambda>duplicate_rate.
      rbind (optional_probability env a c ''corrupt_rate'') (\<lambda>corrupt_rate.
      rbind (optional_u64 env a c ''drop_nth'' 0) (\<lambda>drop_nth.
      rbind (optional_u64 env a c ''disconnect_nth'' 0) (\<lambda>disconnect_nth.
      rbind (optional_u64 env a c ''delay_spike_nth'' 0) (\<lambda>delay_spike_nth.
      rbind (optional_duration env a c ''delay_spike'' 0) (\<lambda>delay_spike_ms.
      rbind (guard_m ((delay_spike_nth = 0) = (delay_spike_ms = 0))
          ''transport `delay_spike_nth` and non-zero `delay_spike` must be configured together'') (\<lambda>_.
      rbind (optional_bool env a c ''mtu_blackhole'' False) (\<lambda>mtu_blackhole.
      rbind (guard_m (\<not> (mtu_blackhole \<and> mtu = 0)) ''transport `mtu_blackhole` requires a non-zero `mtu`'') (\<lambda>_.
      rbind (optional_u64 env a c ''port_capacity'' 0) (\<lambda>port_capacity.
      rbind (optional_string env a c ''nat_source_ip'') (\<lambda>nat_source_ip.
      rbind (typed_attr env a c ''nat_source_port'' (''port number 1'' @ en_dash @ ''65535'') port_number) (\<lambda>nat_source_port.
      rbind (optional_string env a c ''connect_failure'') (\<lambda>connect_failure.
      rbind (guard_m (\<forall>f \<in> set_option connect_failure. f \<in> {''dns'', ''refused'', ''tls_handshake''})
          ''transport `connect_failure` must be dns, refused or tls_handshake'') (\<lambda>_.
      rbind (optional_string_array env a c ''fault_steps'') (\<lambda>fault_steps.
      rbind (optional_string env a c ''fault_flag'') (\<lambda>fault_flag.
      rbind (transpose_map (interpret_fault_predicate env) (block_child b ''fault_when'')) (\<lambda>fault_when.
      Inr \<lparr>tc_loss_rate = loss_rate, tc_delay_ms = delay_ms, tc_reorder = reorder, tc_seed = seed, tc_jitter_ms = jitter_ms,
            tc_bandwidth_bps = bandwidth_bps, tc_bandwidth_after_nth = bandwidth_after_nth,
            tc_bandwidth_after_bps = bandwidth_after_bps, tc_mtu = mtu, tc_burst_loss = burst_loss,
            tc_duplicate_rate = duplicate_rate, tc_corrupt_rate = corrupt_rate, tc_drop_nth = drop_nth,
            tc_disconnect_nth = disconnect_nth, tc_delay_spike_nth = delay_spike_nth, tc_delay_spike_ms = delay_spike_ms,
            tc_mtu_blackhole = mtu_blackhole, tc_port_capacity = port_capacity, tc_nat_source_ip = nat_source_ip,
            tc_nat_source_port = nat_source_port, tc_connect_failure = connect_failure, tc_fault_steps = fault_steps,
            tc_fault_flag = fault_flag, tc_fault_when = fault_when\<rparr>))))))))))))))))))))))))))))))))"

end
