(* ===== verification/Interpret_Schema.thy ===== *)
theory Interpret_Schema
  imports Interpret_Attrs
begin

text \<open>
  Header schemas: \<open>interpret_header_schema\<close>, \<open>parse_header_fields\<close> and
  \<open>sort_header_fields\<close> of \<open>src/src/model.rs\<close>. Fields that tie in the sort keep the order in
  which the map yields them, here that of their names. \<open>usize\<close> has 64 bits and
  \<open>length * 8\<close> beyond it is a panic.
\<close>

definition usize_max :: nat where
  "usize_max = 2 ^ 64 - 1"

definition header_sort_key :: "header_field_spec \<Rightarrow> nat \<times> nat \<times> nat" where
  "header_sort_key f =
     (if hf_order f \<noteq> usize_max then (0, hf_order f, unat (hf_bit_offset f)) else (1, hf_offset f, unat (hf_bit_offset f)))"

definition sort_header_fields :: "header_field_spec list \<Rightarrow> header_field_spec list" where
  "sort_header_fields fs = sort_key header_sort_key fs"

definition header_field_keys :: "string list" where
  "header_field_keys =
     [''offset'', ''order'', ''length'', ''length_from'', ''length_adjust'', ''repeat'', ''repeat_from'', ''terminator'',
      ''when'', ''bit_offset'', ''bits'', ''format'', ''enum'', ''fields'', ''switch_on'', ''cases'', ''transform'',
      ''key_from'', ''nonce_from'', ''checksum'', ''checksum_range'']"

definition header_formats :: "string list" where
  "header_formats = [''uint'', ''int'', ''hex'', ''bytes'', ''ascii'', ''utf8'', ''ipv4'', ''bool'']"

definition has_key :: "val_map \<Rightarrow> string \<Rightarrow> bool" where
  "has_key m k \<longleftrightarrow> map_of m k \<noteq> None"

text \<open>The terminator of a field, in hexadecimal and not empty.\<close>

definition header_terminator :: "interpret_env \<Rightarrow> val_map \<Rightarrow> string \<Rightarrow> bytes option mres" where
  "header_terminator env obj context =
     rbind (optional_string env obj context ''terminator'') (\<lambda>t.
     rbind (transpose_map (\<lambda>s. map_err (\<lambda>e. merr (context @ '' terminator: '' @ e)) (parse_hex s)) t) (\<lambda>terminator.
     rbind (guard_m (terminator \<noteq> Some []) (context @ '' terminator cannot be empty'')) (\<lambda>_.
     Inr terminator)))"

text \<open>The bit range of a field of \<open>n\<close> bytes.\<close>

definition header_bits :: "interpret_env \<Rightarrow> val_map \<Rightarrow> string \<Rightarrow> nat \<Rightarrow> (nat \<times> nat) mres" where
  "header_bits env obj context n =
     rbind (optional_u64 env obj context ''bit_offset'' 0) (\<lambda>bit_offset.
     if n * 8 > usize_max then Inl Panic
     else rbind (optional_u64 env obj context ''bits'' (min (n * 8) 64)) (\<lambda>bits.
     rbind (guard_m (\<not> (bit_offset > 7 \<or> bits = 0 \<or> bits > 64 \<or> bit_offset + bits > n * 8))
         (context @ '' bit range exceeds its byte length'')) (\<lambda>_.
     Inr (bit_offset, bits))))"

definition header_format :: "interpret_env \<Rightarrow> val_map \<Rightarrow> string \<Rightarrow> nat \<Rightarrow> string mres" where
  "header_format env obj context n =
     rbind (optional_string env obj context ''format'') (\<lambda>given.
     let format = unwrap_or
         (if has_key obj ''fields'' \<or> has_key obj ''cases'' \<or> has_key obj ''transform'' \<or> n > 8 then ''bytes'' else ''uint'') given in
     rbind (guard_m (format \<in> set header_formats) (context @ '' has unsupported format '' @ bq format)) (\<lambda>_.
     rbind (guard_m (\<not> (format \<in> {''uint'', ''int'', ''bool'', ''ipv4''} \<and> n > 8)) (context @ '' numeric length must be 1..=8'')) (\<lambda>_.
     Inr format)))"

definition object_attr :: "interpret_env \<Rightarrow> val_map \<Rightarrow> string \<Rightarrow> string \<Rightarrow> val_map option mres" where
  "object_attr env obj context key = typed_attr env obj context key ''an object'' as_object"

text \<open>The attributes of a field up to its nested fields.\<close>

definition header_field_head :: "interpret_env \<Rightarrow> string \<Rightarrow> val_map \<Rightarrow> string \<Rightarrow> header_field_spec mres" where
  "header_field_head env name obj context =
     rbind (optional_usize env obj context ''order'' usize_max) (\<lambda>order.
     rbind (optional_u64 env obj context ''offset'' 0) (\<lambda>offset.
     rbind (optional_usize env obj context ''length'' 1) (\<lambda>n.
     rbind (guard_m (n \<noteq> 0) (context @ '' length must be positive'')) (\<lambda>_.
     rbind (optional_string env obj context ''length_from'') (\<lambda>length_from.
     rbind (case map_of obj ''length_adjust'' of
              None \<Rightarrow> Inr 0
            | Some v \<Rightarrow> (case as_i64 v of Some i \<Rightarrow> Inr i | None \<Rightarrow> merror (context @ '' length_adjust must be an integer''))) (\<lambda>adjust.
     rbind (optional_usize env obj context ''repeat'' 1) (\<lambda>rep.
     rbind (guard_m (rep \<noteq> 0) (context @ '' repeat must be positive'')) (\<lambda>_.
     rbind (optional_string env obj context ''repeat_from'') (\<lambda>repeat_from.
     rbind (guard_m (\<not> (repeat_from \<noteq> None \<and> has_key obj ''repeat''))
         (context @ '' cannot use repeat and repeat_from together'')) (\<lambda>_.
     rbind (header_terminator env obj context) (\<lambda>terminator.
     rbind (optional_string env obj context ''when'') (\<lambda>condition.
     rbind (header_bits env obj context n) (\<lambda>(bit_offset, bits).
     rbind (header_format env obj context n) (\<lambda>format.
     rbind (object_attr env obj context ''enum'') (\<lambda>enum_values.
     Inr (HeaderFieldSpec name order offset (has_key obj ''offset'') n length_from adjust rep repeat_from terminator condition
       (of_nat bit_offset) (of_nat bits) format (unwrap_or [] enum_values) [] None [] None None None None None))))))))))))))))"

text \<open>The attributes after the nested fields and the cases.\<close>

definition header_field_tail ::
  "interpret_env \<Rightarrow> val_map \<Rightarrow> string \<Rightarrow> header_field_spec \<Rightarrow> header_field_spec list \<Rightarrow> string option \<Rightarrow>
   (string \<times> header_field_spec list) list \<Rightarrow> header_field_spec mres" where
  "header_field_tail env obj context h nested switch_on cases =
     rbind (guard_m ((switch_on \<noteq> None) = (cases \<noteq> [])) (context @ '' switch_on and cases must be supplied together'')) (\<lambda>_.
     rbind (optional_string env obj context ''transform'') (\<lambda>transform.
     rbind (guard_m (\<forall>t \<in> set_option transform. t = ''zlib'' \<or> t = ''aes-gcm'' \<or> prefix ''plugin:'' t)
         (context @ '' transform must be zlib, aes-gcm, or plugin:<name>'')) (\<lambda>_.
     rbind (optional_string env obj context ''key_from'') (\<lambda>key_from.
     rbind (optional_string env obj context ''nonce_from'') (\<lambda>nonce_from.
     rbind (guard_m (\<not> (transform = Some ''aes-gcm'' \<and> (key_from = None \<or> nonce_from = None)))
         (context @ '' aes-gcm requires key_from and nonce_from'')) (\<lambda>_.
     rbind (optional_string env obj context ''checksum'') (\<lambda>checksum.
     rbind (guard_m (\<forall>c \<in> set_option checksum. c \<in> {''crc16'', ''crc32'', ''internet''})
         (context @ '' checksum must be crc16, crc32, or internet'')) (\<lambda>_.
     rbind (optional_string env obj context ''checksum_range'') (\<lambda>checksum_range.
     Inr (HeaderFieldSpec (hf_name h) (hf_order h) (hf_offset h) (hf_offset_explicit h) (hf_length h) (hf_length_from h)
       (hf_length_adjust h) (hf_repeat h) (hf_repeat_from h) (hf_terminator h) (hf_when h) (hf_bit_offset h) (hf_bits h)
       (hf_format h) (hf_enum_values h) nested switch_on cases transform key_from nonce_from checksum checksum_range))))))))))"

text \<open>\<open>case.get("fields")\<close> when that is an object, else the case itself.\<close>

definition case_fields :: "val_map \<Rightarrow> val_map" where
  "case_fields m = (case map_of m ''fields'' of Some (VObject inner) \<Rightarrow> inner | _ \<Rightarrow> m)"

lemma size_map_of_object: "map_of m k = Some (VObject o') \<Longrightarrow> size_list (size_prod (\<lambda>_. 0) size) o' < size_list (size_prod (\<lambda>_. 0) size) m"
  by (induction m) (auto split: if_splits)

lemma size_case_fields: "size_list (size_prod (\<lambda>_. 0) size) (case_fields m) \<le> size_list (size_prod (\<lambda>_. 0) size) m"
  using size_map_of_object [of m "''fields''"] by (auto simp: case_fields_def less_imp_le split: option.split val.split)

function (sequential) header_fields :: "interpret_env \<Rightarrow> val_map \<Rightarrow> string \<Rightarrow> header_field_spec list mres"
and header_cases :: "interpret_env \<Rightarrow> val_map \<Rightarrow> string \<Rightarrow> (string \<times> header_field_spec list) list mres" where
  "header_fields env [] parent = Inr []"
| "header_fields env ((name, value) # rest) parent =
     (case value of
        VObject obj \<Rightarrow>
          let context = parent @ '' field '' @ bq name in
          rbind (case find (\<lambda>kv. fst kv \<notin> set header_field_keys) obj of
                   Some kv \<Rightarrow> merror (parent @ '' field '' @ bq name @ '' has unknown attribute '' @ bq (fst kv))
                 | None \<Rightarrow> Inr ()) (\<lambda>_.
          rbind (header_field_head env name obj context) (\<lambda>h.
          rbind (case map_of obj ''fields'' of
                   Some (VObject inner) \<Rightarrow> rbind (header_fields env inner context) (\<lambda>fs. Inr (sort_header_fields fs))
                 | Some v \<Rightarrow> type_error env context ''fields'' ''an object'' v
                 | None \<Rightarrow> Inr []) (\<lambda>nested.
          rbind (optional_string env obj context ''switch_on'') (\<lambda>switch_on.
          rbind (case map_of obj ''cases'' of
                   Some (VObject inner) \<Rightarrow> header_cases env inner context
                 | Some v \<Rightarrow> type_error env context ''cases'' ''an object'' v
                 | None \<Rightarrow> Inr []) (\<lambda>cases.
          rbind (header_field_tail env obj context h nested switch_on cases) (\<lambda>f.
          rbind (header_fields env rest parent) (\<lambda>fs. Inr (f # fs))))))))
      | _ \<Rightarrow> merror (parent @ '' field '' @ bq name @ '' must be an object''))"
| "header_cases env [] context = Inr []"
| "header_cases env ((selector, value) # rest) context =
     (case value of
        VObject m \<Rightarrow>
          rbind (header_fields env (case_fields m) (context @ '' case '' @ bq selector)) (\<lambda>fs.
          rbind (header_cases env rest context) (\<lambda>cs. Inr ((selector, sort_header_fields fs) # cs)))
      | v \<Rightarrow> type_error env context ''cases'' ''an object'' v)"
  by pat_completeness auto
termination
  by (relation "measure (\<lambda>x. case x of Inl (_, m, _) \<Rightarrow> size_list (size_prod (\<lambda>_. 0) size) m
        | Inr (_, m, _) \<Rightarrow> size_list (size_prod (\<lambda>_. 0) size) m)")
    (auto dest!: size_map_of_object intro: le_less_trans [OF size_case_fields])

declare header_fields.simps [simp del] header_cases.simps [simp del]

definition parse_header_fields :: "interpret_env \<Rightarrow> val_map \<Rightarrow> string \<Rightarrow> header_field_spec list mres" where
  "parse_header_fields env m parent = rbind (header_fields env m parent) (\<lambda>fs. Inr (sort_header_fields fs))"

definition interpret_header_schema :: "interpret_env \<Rightarrow> block \<Rightarrow> header_schema mres" where
  "interpret_header_schema env b =
     rbind (one_label b ''header_schema needs a name label'' ''header_schema requires exactly one name label'') (\<lambda>name.
     let context = ''header_schema '' @ bq name in
     rbind (validate_attributes b [''offset'', ''endian'', ''fields'']) (\<lambda>_.
     rbind (validate_children b (\<lambda>_. False) context) (\<lambda>_.
     rbind (optional_u64 env (block_attributes b) context ''offset'' 0) (\<lambda>offset.
     rbind (optional_string env (block_attributes b) context ''endian'') (\<lambda>given.
     let endian = unwrap_or ''big'' given in
     rbind (guard_m (endian = ''big'' \<or> endian = ''little'') (context @ '' endian must be big or little'')) (\<lambda>_.
     rbind (object_attr env (block_attributes b) context ''fields'') (\<lambda>values.
     case values of
       None \<Rightarrow> merror (context @ '' requires fields'')
     | Some m \<Rightarrow>
         rbind (parse_header_fields env m context) (\<lambda>fs0.
         let fs = sort_header_fields fs0 in
         if fs = [] then merror (context @ '' requires at least one field'')
         else Inr \<lparr>hs_name = name, hs_offset = offset, hs_endian = endian, hs_fields = fs\<rparr>))))))))"

end
