(* ===== verification/Interpret.thy ===== *)
theory Interpret
  imports Interpret_Schema
begin

text \<open>
  From blocks to the typed model, \<open>src/src/model.rs\<close>: steps with their sections, invariants,
  protocols, case suites and the expansion of modules. The checks come in the order of the
  code.
\<close>

subsection \<open>Sections of a step\<close>

text \<open>Objects \<open>{ hex = ".." }\<close> become bytes; text that is no hexadecimal stays as it is.\<close>

definition resolve_hex_value :: "val \<Rightarrow> val" where
  "resolve_hex_value v =
     (case v of
        VObject m \<Rightarrow> (case get_str m ''hex'' of Some hs \<Rightarrow> (case parse_hex hs of Inr bs \<Rightarrow> VBytes bs | Inl _ \<Rightarrow> v) | None \<Rightarrow> v)
      | _ \<Rightarrow> v)"

definition resolve_hex_values :: "val_map \<Rightarrow> val_map" where
  "resolve_hex_values attrs = map (\<lambda>(k, v). (k, resolve_hex_value v)) attrs"

definition deferred :: "string \<Rightarrow> bool" where
  "deferred s \<longleftrightarrow> str_contains s ''${''"

definition interpret_field_value :: "string \<Rightarrow> val \<Rightarrow> val mres" where
  "interpret_field_value k v =
     (case v of
        VObject m \<Rightarrow>
          if map_of m ''hex'' = None then Inr v
          else (case get_str m ''hex'' of
              None \<Rightarrow> merror (''field '' @ bq k @ '' hex must be a string'')
            | Some hs \<Rightarrow>
                if deferred hs then Inr (VString (''__hex__:'' @ hs))
                else rbind (map_err (\<lambda>e. merr (''field '' @ bq k @ '' hex: '' @ e)) (parse_hex hs)) (\<lambda>bs. Inr (VBytes bs)))
      | _ \<Rightarrow> Inr v)"

definition interpret_field_values :: "val_map \<Rightarrow> val_map mres" where
  "interpret_field_values m =
     rmap (\<lambda>(k, v). rbind (interpret_field_value k v) (\<lambda>w. Inr (k, w))) m"

definition segment_keys :: "string list" where
  "segment_keys =
     [''flags'', ''seq'', ''ack'', ''payload'', ''hex'', ''payload_len'', ''window'', ''stream'', ''fields'', ''delay'', ''flip'']"

definition interpret_segment :: "interpret_env \<Rightarrow> val_map \<Rightarrow> segment mres" where
  "interpret_segment env a =
     rbind (validate_map_keys a segment_keys ''segment'') (\<lambda>_.
     rbind (optional_string env a ''segment'' ''hex'') (\<lambda>hex.
     rbind (case hex of
              Some s \<Rightarrow>
                if deferred s then Inr ()
                else rbind (map_err (\<lambda>e. merr (''segment `hex`: '' @ e)) (parse_hex s)) (\<lambda>_. Inr ())
            | None \<Rightarrow> Inr ()) (\<lambda>_.
     rbind (object_attr env a ''segment'' ''fields'') (\<lambda>given.
     rbind (interpret_field_values (unwrap_or [] given)) (\<lambda>fields.
     rbind (optional_duration env a ''segment'' ''delay'' 0) (\<lambda>delay_ms.
     rbind (optional_optional_u64 env a ''segment'' ''flip'') (\<lambda>flip_bit.
     rbind (optional_string_array env a ''segment'' ''flags'') (\<lambda>flags.
     rbind (optional_optional_i64 env a ''segment'' ''seq'') (\<lambda>seq.
     rbind (optional_optional_i64 env a ''segment'' ''ack'') (\<lambda>ack.
     rbind (optional_string env a ''segment'' ''payload'') (\<lambda>payload.
     rbind (optional_optional_i64 env a ''segment'' ''payload_len'') (\<lambda>payload_len.
     rbind (optional_optional_i64 env a ''segment'' ''window'') (\<lambda>window.
     rbind (optional_optional_i64 env a ''segment'' ''stream'') (\<lambda>stream.
     Inr \<lparr>sg_flags = flags, sg_seq = seq, sg_ack = ack, sg_payload = payload, sg_hex = hex, sg_payload_len = payload_len,
           sg_window = window, sg_stream = stream, sg_fields = fields, sg_delay_ms = delay_ms, sg_flip_bit = flip_bit\<rparr>))))))))))))))"

definition expect_keys :: "string list" where
  "expect_keys = [''flags'', ''payload'', ''hex'', ''hex_contains'', ''from'', ''window'', ''stream'', ''fields'', ''capture'']"

definition hex_attr :: "interpret_env \<Rightarrow> val_map \<Rightarrow> string \<Rightarrow> bytes option mres" where
  "hex_attr env a key =
     rbind (optional_string env a ''expect'' key) (\<lambda>s.
     transpose_map (\<lambda>hs. map_err (\<lambda>e. merr (''expect '' @ bq key @ '': '' @ e)) (parse_hex hs)) s)"

definition interpret_expect :: "interpret_env \<Rightarrow> val_map \<Rightarrow> expect mres" where
  "interpret_expect env a =
     rbind (validate_map_keys a expect_keys ''expect'') (\<lambda>_.
     rbind (hex_attr env a ''hex'') (\<lambda>hex.
     rbind (hex_attr env a ''hex_contains'') (\<lambda>hex_contains.
     rbind (guard_m (hex_contains \<noteq> Some []) ''expect `hex_contains` must not be empty'') (\<lambda>_.
     rbind (object_attr env a ''expect'' ''fields'') (\<lambda>given.
     rbind (interpret_field_matches (ie_regex env) (unwrap_or [] given)) (\<lambda>fields.
     rbind (optional_string_array env a ''expect'' ''flags'') (\<lambda>flags.
     rbind (optional_string env a ''expect'' ''payload'') (\<lambda>payload.
     rbind (optional_string env a ''expect'' ''from'') (\<lambda>from_role.
     rbind (optional_optional_i64 env a ''expect'' ''window'') (\<lambda>window.
     rbind (optional_optional_i64 env a ''expect'' ''stream'') (\<lambda>stream.
     Inr \<lparr>ex_flags = flags, ex_payload = payload, ex_hex = hex, ex_hex_contains = hex_contains, ex_from = from_role,
           ex_window = window, ex_stream = stream, ex_fields = fields, ex_capture = []\<rparr>)))))))))))"

definition interpret_timer :: "interpret_env \<Rightarrow> val_map \<Rightarrow> timer mres" where
  "interpret_timer env a =
     rbind (validate_map_keys a [''timeout'', ''retransmit''] ''timer'') (\<lambda>_.
     rbind (optional_duration env a ''timer'' ''timeout'' 1000) (\<lambda>timeout_ms.
     rbind (optional_u32 env a ''timer'' ''retransmit'' 0) (\<lambda>retransmit.
     Inr \<lparr>tm_timeout_ms = timeout_ms, tm_retransmit = retransmit\<rparr>)))"

definition section_attrs :: "interpret_env \<Rightarrow> block \<Rightarrow> string \<Rightarrow> val_map option mres" where
  "section_attrs env b name =
     (case block_child b name of
        Some c \<Rightarrow> Inr (Some (block_attributes c))
      | None \<Rightarrow> typed_attr env (block_attributes b) ''step section'' name ''an object'' as_object)"

definition capture_names :: "interpret_env \<Rightarrow> val_map \<Rightarrow> (string, string) btree_map mres" where
  "capture_names env m =
     rmap (\<lambda>(k, v). (case as_str v of Some s \<Rightarrow> Inr (k, s) | None \<Rightarrow> type_error env ''expect capture'' k ''a string'' v)) m"

text \<open>The block form, and when that gives nothing the object form.\<close>

definition extract_capture :: "interpret_env \<Rightarrow> block \<Rightarrow> (string, string) btree_map mres" where
  "extract_capture env b =
     rbind (case Option.bind (block_child b ''expect'') (\<lambda>e. block_child e ''capture'') of
              Some c \<Rightarrow> capture_names env (block_attributes c)
            | None \<Rightarrow> Inr []) (\<lambda>out.
     if out \<noteq> [] then Inr out
     else case Option.bind (Option.bind (block_attr b ''expect'') as_object) (\<lambda>m. Option.bind (map_of m ''capture'') as_object) of
       Some m \<Rightarrow> capture_names env m
     | None \<Rightarrow> Inr [])"

text \<open>A string attribute that is required and not blank.\<close>

definition required_text :: "interpret_env \<Rightarrow> val_map \<Rightarrow> string \<Rightarrow> string \<Rightarrow> string mres" where
  "required_text env a context key =
     rbind (optional_string env a context key) (\<lambda>v.
     case v of
       Some s \<Rightarrow> if trim s = [] then merror (context @ '' requires non-empty '' @ bq key) else Inr s
     | None \<Rightarrow> merror (context @ '' requires non-empty '' @ bq key))"

definition interpret_plugin_spec :: "interpret_env \<Rightarrow> block \<Rightarrow> plugin_spec mres" where
  "interpret_plugin_spec env b =
     rbind (validate_attributes b [''manifest'', ''kind'', ''name'', ''input'']) (\<lambda>_.
     rbind (validate_children b (\<lambda>_. False) ''plugin'') (\<lambda>_.
     rbind (required_text env (block_attributes b) ''plugin'' ''manifest'') (\<lambda>manifest.
     rbind (required_text env (block_attributes b) ''plugin'' ''kind'') (\<lambda>kind.
     rbind (guard_m (kind \<in> {''action'', ''matcher'', ''decoder'', ''report''})
         ''plugin kind must be action, matcher, decoder or report'') (\<lambda>_.
     rbind (required_text env (block_attributes b) ''plugin'' ''name'') (\<lambda>name.
     Inr \<lparr>pl_manifest = manifest, pl_kind = kind, pl_name = name, pl_input = unwrap_or (VObject []) (block_attr b ''input'')\<rparr>))))))"

definition raw_header_keys :: "(string \<times> string list) list" where
  "raw_header_keys =
     [(''ethernet'', [''source'', ''destination'', ''ether_type'', ''vlan_id'', ''vlan_priority'', ''vlan_drop_eligible'']),
      (''ipv4'', [''source'', ''destination'', ''dscp'', ''ecn'', ''id'', ''dont_fragment'', ''more_fragments'',
         ''fragment_offset'', ''ttl'', ''protocol'', ''options'', ''ihl'', ''total_length'', ''checksum'']),
      (''ipv6'', [''source'', ''destination'', ''traffic_class'', ''flow_label'', ''payload_length'', ''next_header'',
         ''hop_limit'', ''fragment_offset'', ''more_fragments'', ''fragment_id'']),
      (''tcp'', [''source_port'', ''destination_port'', ''seq'', ''ack'', ''flags'', ''window'', ''urgent_pointer'',
         ''options'', ''data_offset'', ''checksum'']),
      (''udp'', [''source_port'', ''destination_port'', ''length'', ''checksum''])]"

fun validate_raw_headers :: "block \<Rightarrow> (string \<times> string list) list \<Rightarrow> unit mres" where
  "validate_raw_headers b [] = Inr ()"
| "validate_raw_headers b ((name, allowed) # rest) =
     rbind (case block_child b name of
              Some c \<Rightarrow> validate_map_keys (block_attributes c) allowed (name @ '' header'')
            | None \<Rightarrow> Inr ()) (\<lambda>_. validate_raw_headers b rest)"

definition interpret_raw_packet_spec :: "interpret_env \<Rightarrow> block \<Rightarrow> string \<Rightarrow> raw_packet_spec option mres" where
  "interpret_raw_packet_spec env b step_name =
     (let section = (\<lambda>name. map_option block_attributes (block_child b name)); context = ''step '' @ bq step_name in
      if list_all (\<lambda>h. section (fst h) = None) raw_header_keys then
        (if block_attr b ''mtu'' \<noteq> None \<or> block_attr b ''fragment_id'' \<noteq> None
         then merror (context @ '' mtu/fragment_id require raw header blocks'') else Inr None)
      else rbind (validate_raw_headers b raw_header_keys) (\<lambda>_.
        rbind (guard_m ((section ''ipv4'' \<noteq> None) \<noteq> (section ''ipv6'' \<noteq> None))
            (context @ '' raw packet requires exactly one of ipv4/ipv6'')) (\<lambda>_.
        rbind (guard_m (\<not> (section ''tcp'' \<noteq> None \<and> section ''udp'' \<noteq> None))
            (context @ '' raw packet cannot contain both tcp and udp'')) (\<lambda>_.
        rbind (if block_attr b ''mtu'' \<noteq> None
               then rbind (optional_usize env (block_attributes b) context ''mtu'' 0) (\<lambda>n. Inr (Some n)) else Inr None) (\<lambda>mtu.
        rbind (case mtu of
                 Some n \<Rightarrow>
                   (let least = (if section ''ipv6'' \<noteq> None then 1280 else 68) in
                    guard_m (least \<le> n) (context @ '' MTU '' @ decimal n @ '' is below the protocol minimum '' @ decimal least))
               | None \<Rightarrow> Inr ()) (\<lambda>_.
        rbind (optional_optional_u64 env (block_attributes b) context ''fragment_id'') (\<lambda>id.
        rbind (transpose_map (\<lambda>n. if n < 2 ^ 32 then Inr (of_nat n) else merror (context @ '' fragment_id exceeds u32'')) id) (\<lambda>fragment_id.
        Inr (Some \<lparr>raw_ethernet = section ''ethernet'', raw_ipv4 = section ''ipv4'', raw_ipv6 = section ''ipv6'',
              raw_tcp = section ''tcp'', raw_udp = section ''udp'', raw_mtu = mtu, raw_fragment_id = fragment_id\<rparr>)))))))))"

text \<open>Which sections an action allows: segment, expect, timer, assert, set.\<close>

fun allowed_sections :: "action \<Rightarrow> bool \<times> bool \<times> bool \<times> bool \<times> bool" where
  "allowed_sections ADuplicate = (True, False, True, False, False)"
| "allowed_sections ACorrupt = (True, False, True, False, False)"
| "allowed_sections AReset = (True, False, True, False, False)"
| "allowed_sections ASend = (True, True, True, False, False)"
| "allowed_sections AAck = (True, True, True, False, False)"
| "allowed_sections ANack = (True, True, True, False, False)"
| "allowed_sections ASendRaw = (True, False, True, False, False)"
| "allowed_sections ARecv = (False, True, True, False, False)"
| "allowed_sections ARecvRaw = (False, True, True, False, False)"
| "allowed_sections ADrop = (False, True, True, False, False)"
| "allowed_sections AWait = (False, False, True, False, False)"
| "allowed_sections AAssert = (False, False, False, True, False)"
| "allowed_sections ASet = (False, False, False, False, True)"
| "allowed_sections _ = (False, False, False, False, False)"

definition validate_action_sections ::
  "string \<Rightarrow> action \<Rightarrow> bool \<Rightarrow> bool \<Rightarrow> bool \<Rightarrow> bool \<Rightarrow> bool \<Rightarrow> bool \<Rightarrow> bool \<Rightarrow> unit mres" where
  "validate_action_sections name action seg ex tim asr st raw plug =
     (let (seg_ok, ex_ok, tim_ok, asr_ok, st_ok) = allowed_sections action; context = ''step '' @ bq name in
      rbind (case find (\<lambda>(present, permitted, _). present \<and> \<not> permitted)
               [(seg, seg_ok, ''segment''), (ex, ex_ok, ''expect''), (tim, tim_ok, ''timer''), (asr, asr_ok, ''assert''), (st, st_ok, ''set'')] of
               Some (_, _, section) \<Rightarrow>
                 merror (context @ '' action '' @ bq (action_as_str action) @ '' does not allow '' @ bq section)
             | None \<Rightarrow> Inr ()) (\<lambda>_.
      rbind (guard_m (\<not> (action = ACorrupt \<and> \<not> seg)) (context @ '' corrupt requires `segment`'')) (\<lambda>_.
      rbind (guard_m (\<not> (action = AAssert \<and> \<not> asr)) (context @ '' assert requires `assert` section'')) (\<lambda>_.
      rbind (guard_m (\<not> (action = ASet \<and> \<not> st)) (context @ '' set requires `set` section'')) (\<lambda>_.
      rbind (guard_m (\<not> (action = ASendRaw \<and> \<not> raw)) (context @ '' send_raw requires raw header blocks'')) (\<lambda>_.
      rbind (guard_m (\<not> (action \<noteq> ASendRaw \<and> raw)) (context @ '' raw header blocks require action `send_raw`'')) (\<lambda>_.
      rbind (guard_m (\<not> (action = APlugin \<and> \<not> plug)) (context @ '' plugin requires `plugin` section'')) (\<lambda>_.
      guard_m (\<not> (action \<noteq> APlugin \<and> plug)) (context @ '' plugin section requires action `plugin`'')))))))))"

subsection \<open>Steps\<close>

definition step_keys :: "string list" where
  "step_keys =
     [''role'', ''action'', ''depends_on'', ''requirements'', ''from_state'', ''to_state'', ''description'', ''to'', ''mode'',
      ''message'', ''retransmit'', ''when'', ''retry'', ''on_timeout'', ''loop'', ''retry_delay'', ''retry_max_delay'',
      ''retry_backoff'', ''retry_jitter'', ''retry_on'', ''segment'', ''expect'', ''timer'', ''assert'', ''set'', ''mtu'',
      ''fragment_id'']"

definition step_sections :: "string list" where
  "step_sections = [''segment'', ''expect'', ''timer'', ''assert'', ''set'', ''plugin'']"

definition step_children :: "string list" where
  "step_children = step_sections @ [''ethernet'', ''ipv4'', ''ipv6'', ''tcp'', ''udp'']"

text \<open>Each check of a list in turn, up to the first that fails.\<close>

fun each_m :: "('a \<Rightarrow> unit mres) \<Rightarrow> 'a list \<Rightarrow> unit mres" where
  "each_m f [] = Inr ()"
| "each_m f (x # xs) = rbind (f x) (\<lambda>_. each_m f xs)"

definition check_section :: "block \<Rightarrow> string \<Rightarrow> string \<Rightarrow> unit mres" where
  "check_section b context section =
     rbind (ensure_single_child b section context) (\<lambda>_.
     guard_m (\<not> (block_child b section \<noteq> None \<and> block_attr b section \<noteq> None))
       (context @ '' defines '' @ bq section @ '' as both block and attribute''))"

definition check_step_child :: "string \<Rightarrow> block \<Rightarrow> unit mres" where
  "check_step_child name child =
     rbind (validate_children child (\<lambda>nested. block_name child = ''expect'' \<and> nested = ''capture'')
         (block_name child @ '' section of step '' @ bq name)) (\<lambda>_.
     if block_name child = ''expect'' then ensure_single_child child ''capture'' (''expect section of step '' @ bq name)
     else Inr ())"

definition check_step_shape :: "block \<Rightarrow> string \<Rightarrow> unit mres" where
  "check_step_shape b name =
     (let context = ''step '' @ bq name in
      rbind (validate_attributes b step_keys) (\<lambda>_.
      rbind (validate_children b (\<lambda>c. c \<in> set step_children) context) (\<lambda>_.
      rbind (each_m (check_section b context) step_sections) (\<lambda>_.
      rbind (each_m (\<lambda>s. ensure_single_child b s context) [''ethernet'', ''ipv4'', ''ipv6'', ''tcp'', ''udp'']) (\<lambda>_.
      each_m (check_step_child name) (block_children b))))))"

definition array_attr :: "interpret_env \<Rightarrow> block \<Rightarrow> string \<Rightarrow> string \<Rightarrow> string list mres" where
  "array_attr env b context key =
     rbind (typed_attr env (block_attributes b) context key ''array of strings'' as_string_array) (\<lambda>v. Inr (unwrap_or [] v))"

definition not_blank :: "string option \<Rightarrow> bool" where
  "not_blank v \<longleftrightarrow> (\<forall>s \<in> set_option v. trim s \<noteq> [])"

definition interpret_step :: "interpret_env \<Rightarrow> block \<Rightarrow> step_spec mres" where
  "interpret_step env b =
     rbind (one_label b ''step block needs a name label'' ''step block requires exactly one name label'') (\<lambda>name.
     let context = ''step '' @ bq name; a = block_attributes b in
     rbind (check_step_shape b name) (\<lambda>_.
     rbind (case block_attr_str b ''role'' of Some r \<Rightarrow> Inr r | None \<Rightarrow> merror (context @ '' is missing `role`'')) (\<lambda>role.
     rbind (case block_attr_str b ''action'' of Some s \<Rightarrow> Inr s | None \<Rightarrow> merror (context @ '' is missing `action`'')) (\<lambda>action_str.
     rbind (case parse_action action_str of Some act \<Rightarrow> Inr act | None \<Rightarrow> merror (context @ '' has unknown action '' @ bq action_str)) (\<lambda>act.
     rbind (array_attr env b context ''depends_on'') (\<lambda>depends_on.
     rbind (array_attr env b context ''requirements'') (\<lambda>requirements.
     rbind (guard_m (list_all (\<lambda>r. trim r \<noteq> []) requirements) (context @ '' requirement IDs must not be empty'')) (\<lambda>_.
     rbind (optional_string env a context ''from_state'') (\<lambda>from_state.
     rbind (optional_string env a context ''to_state'') (\<lambda>to_state.
     rbind (guard_m (not_blank from_state) (context @ '' `from_state` must not be empty'')) (\<lambda>_.
     rbind (guard_m (not_blank to_state) (context @ '' `to_state` must not be empty'')) (\<lambda>_.
     rbind (optional_string env a context ''description'') (\<lambda>description.
     rbind (optional_string env a context ''to'') (\<lambda>to_role.
     rbind (optional_string env a context ''mode'') (\<lambda>given.
     let mode = unwrap_or (if action_str = ''listen'' then ''passive'' else ''active'') given in
     rbind (guard_m (mode = ''active'' \<or> mode = ''passive'') (context @ '' mode must be active or passive'')) (\<lambda>_.
     rbind (optional_string env a context ''message'') (\<lambda>message.
     rbind (optional_u32 env a context ''retransmit'' 0) (\<lambda>retransmit.
     rbind (optional_u32 env a context ''retry'' 0) (\<lambda>retry.
     rbind (optional_bool env a context ''on_timeout'' False) (\<lambda>on_timeout.
     rbind (optional_u32 env a context ''loop'' 1) (\<lambda>loop_count.
     rbind (interpret_retry_policy env a context) (\<lambda>retry_policy.
     rbind (section_attrs env b ''segment'') (\<lambda>seg_attrs.
     rbind (transpose_map (interpret_segment env) seg_attrs) (\<lambda>seg.
     rbind (section_attrs env b ''expect'') (\<lambda>ex_attrs.
     rbind (transpose_map (interpret_expect env) ex_attrs) (\<lambda>ex0.
     rbind (case ex0 of None \<Rightarrow> Inr None | Some e \<Rightarrow> rbind (extract_capture env b) (\<lambda>c. Inr (Some (e\<lparr>ex_capture := c\<rparr>)))) (\<lambda>ex.
     rbind (section_attrs env b ''timer'') (\<lambda>tim_attrs.
     rbind (transpose_map (interpret_timer env) tim_attrs) (\<lambda>tim.
     rbind (section_attrs env b ''assert'') (\<lambda>asr.
     rbind (section_attrs env b ''set'') (\<lambda>st.
     rbind (transpose_map (interpret_plugin_spec env) (block_child b ''plugin'')) (\<lambda>plug.
     rbind (interpret_raw_packet_spec env b name) (\<lambda>raw.
     rbind (validate_action_sections name act (seg \<noteq> None) (ex \<noteq> None) (tim \<noteq> None) (asr \<noteq> None) (st \<noteq> None) (raw \<noteq> None) (plug \<noteq> None)) (\<lambda>_.
     Inr \<lparr>st_name = name, st_role = role, st_action = act, st_depends_on = depends_on, st_requirements = requirements,
           st_from_state = from_state, st_to_state = to_state, st_description = description, st_to = to_role, st_mode = Some mode,
           st_message = message, st_segment = seg, st_expect = ex, st_timer = tim, st_assert = map_option resolve_hex_values asr,
           st_set = st, st_plugin = plug, st_raw_packet = raw, st_retransmit = retransmit, st_when = block_attr b ''when'',
           st_retry = retry, st_on_timeout = on_timeout, st_loop_count = loop_count, st_retry_policy = retry_policy,
           st_source = block_source b, st_line = block_line b, st_column = block_column b\<rparr>))))))))))))))))))))))))))))))))))"

subsection \<open>Invariants\<close>

definition required_string :: "interpret_env \<Rightarrow> val_map \<Rightarrow> string \<Rightarrow> string \<Rightarrow> string mres" where
  "required_string env a context key =
     rbind (optional_string env a context key) (\<lambda>v.
     case v of Some s \<Rightarrow> Inr s | None \<Rightarrow> merror (context @ '' requires '' @ bq key))"

definition invariant_kind_of :: "string \<Rightarrow> invariant_kind option" where
  "invariant_kind_of s =
     (if s = ''never_state'' then Some NeverState else if s = ''eventually_state'' then Some EventuallyState
      else if s = ''state_implies'' then Some StateImplies else None)"

definition interpret_invariant :: "interpret_env \<Rightarrow> block \<Rightarrow> invariant_spec mres" where
  "interpret_invariant env b =
     rbind (one_label b ''invariant block needs a name label'' ''invariant block requires exactly one name label'') (\<lambda>name.
     let context = ''invariant '' @ bq name; a = block_attributes b in
     rbind (validate_attributes b [''kind'', ''role'', ''state'', ''implies_role'', ''implies_state'']) (\<lambda>_.
     rbind (validate_children b (\<lambda>_. False) context) (\<lambda>_.
     rbind (required_string env a context ''kind'') (\<lambda>given.
     rbind (case invariant_kind_of given of Some k \<Rightarrow> Inr k | None \<Rightarrow> merror (context @ '' has unknown kind '' @ bq given)) (\<lambda>kind.
     rbind (required_string env a context ''role'') (\<lambda>role.
     rbind (required_string env a context ''state'') (\<lambda>state.
     rbind (optional_string env a context ''implies_role'') (\<lambda>implies_role.
     rbind (optional_string env a context ''implies_state'') (\<lambda>implies_state.
     rbind (guard_m (\<not> (kind = StateImplies \<and> (implies_role = None \<or> implies_state = None)))
         (context @ '' state_implies requires implies_role and implies_state'')) (\<lambda>_.
     rbind (guard_m (\<not> (kind \<noteq> StateImplies \<and> (implies_role \<noteq> None \<or> implies_state \<noteq> None)))
         (context @ '' only permits implies_* with state_implies'')) (\<lambda>_.
     Inr \<lparr>inv_name = name, inv_kind = kind, inv_role = role, inv_state = state, inv_implies_role = implies_role,
           inv_implies_state = implies_state\<rparr>)))))))))))"

subsection \<open>Protocols\<close>

definition at_error :: "block \<Rightarrow> 'a mres \<Rightarrow> 'a mres" where
  "at_error b r = map_err (\<lambda>e. at_block e b) r"

definition check_step_limits :: "resource_limits \<Rightarrow> step_spec \<Rightarrow> unit mres" where
  "check_step_limits limits s =
     rbind (guard_m (st_loop_count s \<le> rl_max_loop limits)
         (''step '' @ bq (st_name s) @ '' loop='' @ decimal (st_loop_count s) @ '' exceeds limits.max_loop='' @ decimal (rl_max_loop limits))) (\<lambda>_.
     guard_m (st_retry s \<le> rl_max_retry limits \<and> st_retransmit s \<le> rl_max_retry limits)
         (''step '' @ bq (st_name s) @ '' retry/retransmit exceeds limits.max_retry='' @ decimal (rl_max_retry limits)))"

fun interpret_steps :: "interpret_env \<Rightarrow> resource_limits \<Rightarrow> block list \<Rightarrow> step_spec list mres" where
  "interpret_steps env limits [] = Inr []"
| "interpret_steps env limits (b # bs) =
     rbind (at_error b (interpret_step env b)) (\<lambda>s.
     rbind (check_step_limits limits s) (\<lambda>_.
     rbind (interpret_steps env limits bs) (\<lambda>rest. Inr (s # rest))))"

text \<open>Blocks with a name each; a name seen before is an error.\<close>

fun interpret_named :: "(block \<Rightarrow> 'a mres) \<Rightarrow> ('a \<Rightarrow> string) \<Rightarrow> string \<Rightarrow> string list \<Rightarrow> block list \<Rightarrow> 'a list mres" where
  "interpret_named f name_of what seen [] = Inr []"
| "interpret_named f name_of what seen (b # bs) =
     rbind (at_error b (f b)) (\<lambda>x.
     if name_of x \<in> set seen then merror (''duplicate '' @ what @ '' '' @ bq (name_of x))
     else rbind (interpret_named f name_of what (name_of x # seen) bs) (\<lambda>xs. Inr (x # xs)))"

definition invariant_roles :: "invariant_spec \<Rightarrow> string list" where
  "invariant_roles i = inv_role i # case_option [] (\<lambda>r. [r]) (inv_implies_role i)"

definition check_invariant_roles :: "step_spec list \<Rightarrow> invariant_spec \<Rightarrow> unit mres" where
  "check_invariant_roles steps i =
     (case find (\<lambda>r. r \<notin> st_role ` set steps) (invariant_roles i) of
        Some r \<Rightarrow> merror (''invariant '' @ bq (inv_name i) @ '' references unknown role '' @ bq r)
      | None \<Rightarrow> Inr ())"

definition interpret_clock :: "interpret_env \<Rightarrow> string \<Rightarrow> val option \<Rightarrow> clock_mode mres" where
  "interpret_clock env name v =
     (case v of
        None \<Rightarrow> Inr ClockReal
      | Some w \<Rightarrow>
          if as_str w = Some ''real'' then Inr ClockReal
          else if as_str w = Some ''virtual'' then Inr ClockVirtual
          else merror (''protocol '' @ bq name @ '' clock must be '' @ [char_from 34] @ ''real'' @ [char_from 34] @ '' or '' @
            [char_from 34] @ ''virtual'' @ [char_from 34] @ '', got '' @ to_display (ie_printable env) w))"

definition interpret_protocol :: "interpret_env \<Rightarrow> block \<Rightarrow> protocol mres" where
  "interpret_protocol env b =
     rbind (one_label b ''protocol block needs a name label'' ''protocol block requires exactly one name label'') (\<lambda>name.
     let context = ''protocol '' @ bq name; a = block_attributes b in
     rbind (validate_attributes b [''description'', ''clock'', ''raw_tcp_stateful'']) (\<lambda>_.
     rbind (validate_children b (\<lambda>c. c \<in> {''step'', ''transport'', ''limits'', ''header_schema'', ''invariant''}) context) (\<lambda>_.
     rbind (ensure_single_child b ''transport'' context) (\<lambda>_.
     rbind (ensure_single_child b ''limits'' context) (\<lambda>_.
     rbind (transpose_map (interpret_limits env) (block_child b ''limits'')) (\<lambda>given.
     let limits = unwrap_or default_resource_limits given in
     rbind (interpret_clock env name (block_attr b ''clock'')) (\<lambda>clock.
     rbind (optional_string env a context ''description'') (\<lambda>description.
     rbind (optional_bool env a context ''raw_tcp_stateful'' False) (\<lambda>raw_tcp_stateful.
     rbind (interpret_steps env limits (block_all_children b ''step'')) (\<lambda>steps.
     rbind (guard_m (steps \<noteq> []) (context @ '' has no steps; add at least one `step` block'')) (\<lambda>_.
     rbind (at_error (unwrap_or b (block_child b ''transport''))
         (transpose_map (interpret_transport_config env) (block_child b ''transport''))) (\<lambda>transport.
     rbind (interpret_named (interpret_header_schema env) hs_name ''header_schema'' [] (block_all_children b ''header_schema'')) (\<lambda>schemas.
     rbind (interpret_named (interpret_invariant env) inv_name ''invariant'' [] (block_all_children b ''invariant'')) (\<lambda>invariants.
     rbind (each_m (check_invariant_roles steps) invariants) (\<lambda>_.
     Inr \<lparr>pr_name = name, pr_description = description, pr_steps = steps, pr_transport = transport, pr_limits = limits,
           pr_clock = clock, pr_raw_tcp_stateful = raw_tcp_stateful, pr_header_schemas = schemas, pr_invariants = invariants\<rparr>)))))))))))))))"

subsection \<open>Cases\<close>

text \<open>The role assertions of a case; a later block for the same role wins.\<close>

definition case_asserts :: "block list \<Rightarrow> (string, val_map) btree_map" where
  "case_asserts bs = fold (\<lambda>c m.
     case strip_prefix ''assert_'' (block_name c) of
       Some role \<Rightarrow> if role \<noteq> [] then bt_insert role (resolve_hex_values (block_attributes c)) m else m
     | None \<Rightarrow> m) bs []"

fun check_tags :: "string \<Rightarrow> string list \<Rightarrow> string list \<Rightarrow> unit mres" where
  "check_tags name seen [] = Inr ()"
| "check_tags name seen (t # ts) =
     (if t = [] then merror (''case '' @ bq name @ '' tags must not contain an empty tag'')
      else if t \<in> set seen then merror (''case '' @ bq name @ '' contains duplicate tag '' @ bq t)
      else check_tags name (t # seen) ts)"

definition case_vars :: "interpret_env \<Rightarrow> block \<Rightarrow> string \<Rightarrow> val_map mres" where
  "case_vars env b context =
     (case block_child b ''vars'' of
        Some c \<Rightarrow> rbind (validate_children c (\<lambda>_. False) ''vars'') (\<lambda>_. Inr (resolve_hex_values (block_attributes c)))
      | None \<Rightarrow> rbind (object_attr env (block_attributes b) context ''vars'') (\<lambda>m. Inr (resolve_hex_values (unwrap_or [] m))))"

definition case_outcome_attr :: "interpret_env \<Rightarrow> string \<Rightarrow> val option \<Rightarrow> case_outcome mres" where
  "case_outcome_attr env name v =
     (case v of
        None \<Rightarrow> Inr CasePass
      | Some w \<Rightarrow>
          if as_str w = Some ''pass'' then Inr CasePass
          else if as_str w = Some ''fail'' then Inr CaseFail
          else merror (''case '' @ bq name @ '' expect must be '' @ [char_from 34] @ ''pass'' @ [char_from 34] @ '' or '' @
            [char_from 34] @ ''fail'' @ [char_from 34] @ '', got '' @ to_display (ie_printable env) w))"

definition interpret_case :: "interpret_env \<Rightarrow> block \<Rightarrow> case_spec mres" where
  "interpret_case env b =
     rbind (one_label b ''case block needs a name label'' ''case block requires exactly one name label'') (\<lambda>name.
     let context = ''case '' @ bq name in
     rbind (validate_attributes b [''vars'', ''expect'', ''tags'']) (\<lambda>_.
     rbind (validate_children b (\<lambda>c. c = ''vars'' \<or> prefix ''assert_'' c) context) (\<lambda>_.
     rbind (guard_m (\<not> (block_child b ''vars'' \<noteq> None \<and> block_attr b ''vars'' \<noteq> None))
         (context @ '' defines vars as both block and attribute'')) (\<lambda>_.
     rbind (ensure_single_child b ''vars'' context) (\<lambda>_.
     rbind (case_vars env b context) (\<lambda>vars.
     rbind (case_outcome_attr env name (block_attr b ''expect'')) (\<lambda>outcome.
     rbind (optional_string_array env (block_attributes b) context ''tags'') (\<lambda>tags.
     rbind (check_tags name [] tags) (\<lambda>_.
     Inr \<lparr>cs_name = name, cs_tags = tags, cs_vars = vars,
           cs_expect = \<lparr>ce_outcome = outcome, ce_asserts = case_asserts (block_children b)\<rparr>\<rparr>)))))))))"

definition interpret_cases_block :: "interpret_env \<Rightarrow> block \<Rightarrow> cases_spec mres" where
  "interpret_cases_block env b =
     rbind (guard_m (length (block_labels b) = 1) ''cases block requires exactly one protocol label'') (\<lambda>_.
     rbind (validate_attributes b []) (\<lambda>_.
     rbind (validate_children b (\<lambda>c. c = ''case'') ''cases'') (\<lambda>_.
     let protocol = hd (block_labels b) in
     rbind (rmap (interpret_case env) (block_all_children b ''case'')) (\<lambda>cases.
     if cases = [] then merror (''cases block for '' @ bq protocol @ '' has no `case` blocks'')
     else Inr \<lparr>cas_protocol = protocol, cas_cases = cases\<rparr>))))"

subsection \<open>Files\<close>

definition validate_top_level :: "block list \<Rightarrow> unit mres" where
  "validate_top_level bs =
     (case find (\<lambda>b. block_name b \<notin> {''protocol'', ''cases'', ''module'', ''import'', ''tcpform''}) bs of
        Some b \<Rightarrow> Inl (Fail (at_block (merr (''unknown top-level block '' @ bq (block_name b))) b))
      | None \<Rightarrow> Inr ())"

definition prefixed :: "string \<Rightarrow> block \<Rightarrow> block" where
  "prefixed pre b =
     (if pre \<noteq> [] \<and> (block_name b = ''protocol'' \<or> block_name b = ''cases'') then
        (case block_labels b of
           label # rest \<Rightarrow>
             Block (block_name b) ((pre @ ''.'' @ label) # rest) (block_attributes b) (block_children b) (block_source b)
               (block_line b) (block_column b)
         | [] \<Rightarrow> b)
      else b)"

function (sequential) visit_modules :: "block list \<Rightarrow> string \<Rightarrow> block list mres" where
  "visit_modules [] pre = Inr []"
| "visit_modules (b # bs) pre =
     (if block_name b = ''module'' then
        rbind (validate_attributes b []) (\<lambda>_.
        case block_labels b of
          [label] \<Rightarrow>
            rbind (visit_modules (block_children b) (if pre = [] then label else pre @ ''.'' @ label)) (\<lambda>inner.
            rbind (visit_modules bs pre) (\<lambda>rest. Inr (inner @ rest)))
        | _ \<Rightarrow> merror ''module block requires exactly one name label'')
      else rbind (visit_modules bs pre) (\<lambda>rest. Inr (prefixed pre b # rest)))"
  by pat_completeness auto

lemma size_children: "size_list size (block_children b) < size b"
  by (cases b) simp

termination visit_modules
  by (relation "measure (\<lambda>(bs, _). size_list size bs)")
    (use size_children in \<open>auto simp: less_SucI trans_less_add1 less_imp_le add_strict_mono\<close>)

declare visit_modules.simps [simp del]

definition expand_modules :: "block list \<Rightarrow> block list mres" where
  "expand_modules bs = visit_modules bs []"

fun interpret_protocols :: "interpret_env \<Rightarrow> string list \<Rightarrow> block list \<Rightarrow> protocol list mres" where
  "interpret_protocols env seen [] = Inr []"
| "interpret_protocols env seen (b # bs) =
     (if block_name b = ''protocol'' then
        rbind (at_error b (interpret_protocol env b)) (\<lambda>p.
        if pr_name p \<in> set seen then merror (''duplicate protocol definition '' @ bq (pr_name p))
        else rbind (interpret_protocols env (pr_name p # seen) bs) (\<lambda>ps. Inr (p # ps)))
      else interpret_protocols env seen bs)"

definition interpret_blocks :: "interpret_env \<Rightarrow> block list \<Rightarrow> protocol list mres" where
  "interpret_blocks env bs =
     rbind (validate_top_level bs) (\<lambda>_. rbind (expand_modules bs) (\<lambda>expanded. interpret_protocols env [] expanded))"

definition interpret_cases :: "interpret_env \<Rightarrow> block list \<Rightarrow> cases_spec list mres" where
  "interpret_cases env bs =
     rbind (validate_top_level bs) (\<lambda>_. rbind (expand_modules bs) (\<lambda>expanded.
     rmap (\<lambda>b. at_error b (interpret_cases_block env b)) (filter (\<lambda>b. block_name b = ''cases'') expanded)))"

end
