(* ===== verification/Schema.thy ===== *)
theory Schema
  imports Model Number_Text Checksum
begin

unbundle bit_operations_syntax

text \<open>
  The bidirectional codec for declarative message schemas, \<open>src/src/dynamic_schema.rs\<close>. What
  the code takes from elsewhere is the record \<open>schema_env\<close>: the compressor and the cipher of
  the crates \<open>flate2\<close> and \<open>aes_gcm\<close>, the size of a \<open>Value\<close> in bytes, which bounds the
  capacity of a vector, and the Unicode table behind \<open>Debug\<close>. Positions are
  naturals; where the code adds with \<open>checked_add\<close> the limit of 64 bits is written out.
\<close>

datatype schema_error =
    OffsetExceedsInput string
  | OffsetOverflow string
  | LengthOverflow string
  | FieldTruncated string nat
  | SwitchUnknown string string
  | NoCase string string
  | MissingField string
  | MustBeArray string
  | WrongItemCount string nat nat
  | MustBeObject string
  | EncodedLength string nat nat
  | TerminatorStart
  | TerminatorNotFound string
  | InvalidLength string
  | BadReference string string
  | ConditionUnknown string
  | ConditionNotBoolean string
  | NotAscii string
  | NotUtf8 string
  | Ipv4Length string
  | UnsupportedFormat string
  | MustBe string string
  | ExceedsBits string nat
  | HexError string
  | InvalidIpv4
  | IntegerTooWide
  | IntegerDoesNotFit
  | TransformFailed string string
  | TransformPlugin string string
  | LacksMaterial string string
  | UnknownMaterial string string
  | MaterialType string string
  | MaterialSize string nat
  | ChecksumRange
  | UnsupportedChecksum string

type_synonym 'a scres = "(schema_error, 'a) res"

record schema_env =
  zlib_compress :: "bytes \<Rightarrow> bytes option"
  zlib_decompress :: "bytes \<Rightarrow> bytes option"
  aes_encrypt :: "bytes \<Rightarrow> bytes \<Rightarrow> bytes \<Rightarrow> bytes option"
  aes_decrypt :: "bytes \<Rightarrow> bytes \<Rightarrow> bytes \<Rightarrow> bytes option"
  value_size :: nat
  env_printable :: "nat \<Rightarrow> bool"

text \<open>
  The number of values a vector can be created for: \<open>Vec::with_capacity\<close> panics when the
  capacity is more than \<open>isize::MAX\<close> bytes. \<open>value_size\<close> is the size of a \<open>Value\<close> in bytes, and
  an allocation within the limit is taken to succeed.
\<close>

definition vec_limit :: "schema_env \<Rightarrow> nat" where
  "vec_limit env = (2 ^ 63 - 1) div value_size env"

subsection \<open>Values\<close>

definition underlying_value :: "val \<Rightarrow> val" where
  "underlying_value v = unwrap_or v (Option.bind (as_object v) (\<lambda>m. map_of m ''value''))"

text \<open>The recursion of \<open>scalar_key\<close> is into a part of its argument.\<close>

lemma size_map_of_val: "map_of m k = Some v \<Longrightarrow> size v < size (VObject m)"
  by (induction m) (auto split: if_splits)

function scalar_key :: "(nat \<Rightarrow> bool) \<Rightarrow> val \<Rightarrow> string" where
  "scalar_key pr v =
     (case v of
        VObject m \<Rightarrow> (case map_of m ''value'' of Some w \<Rightarrow> scalar_key pr w | None \<Rightarrow> to_display pr v)
      | VNumber n \<Rightarrow> if f64_is_integral n then decimal_int (f64_as_i64 n) else to_display pr v
      | VString s \<Rightarrow> s
      | VBool b \<Rightarrow> bool_text b
      | _ \<Rightarrow> to_display pr v)"
  by pat_completeness auto
termination
  by (relation "measure (\<lambda>(_, v). size v)") (simp_all only: in_measure wf_measure case_prod_conv size_map_of_val)

declare scalar_key.simps [simp del]

definition literal :: "string \<Rightarrow> val" where
  "literal s =
     (if s = ''true'' then VBool True
      else if s = ''false'' then VBool False
      else case parse_f64 s of Some n \<Rightarrow> VNumber n | None \<Rightarrow> VString (trim_matches (char_from 34) s))"

definition as_condition :: "string \<Rightarrow> val option \<Rightarrow> bool scres" where
  "as_condition expression v =
     ok_or (ConditionNotBoolean expression) (Option.bind v (\<lambda>w. as_bool (underlying_value w)))"

text \<open>\<open>!=\<close> is tried before \<open>==\<close>, each at its first occurrence.\<close>

definition compare_condition :: "val_map \<Rightarrow> string \<times> string \<Rightarrow> bool \<Rightarrow> bool scres" where
  "compare_condition values sides equal =
     (case map_of values (trim (fst sides)) of
        None \<Rightarrow> Inl (Fail (ConditionUnknown (trim (fst sides))))
      | Some actual \<Rightarrow> Inr (val_eq (underlying_value actual) (literal (trim (snd sides))) = equal))"

definition predicate :: "string option \<Rightarrow> val_map \<Rightarrow> bool scres" where
  "predicate condition values =
     (case map_option trim condition of
        None \<Rightarrow> Inr True
      | Some expression \<Rightarrow>
          (case split_once ''!='' expression of
             Some sides \<Rightarrow> compare_condition values sides False
           | None \<Rightarrow>
               (case split_once ''=='' expression of
                  Some sides \<Rightarrow> compare_condition values sides True
                | None \<Rightarrow>
                    (case strip_prefix ''!'' expression of
                       Some name \<Rightarrow> rbind (as_condition expression (map_of values (trim name))) (\<lambda>b. Inr (\<not> b))
                     | None \<Rightarrow> as_condition expression (map_of values expression)))))"

subsection \<open>Lengths and counts\<close>

definition reference_usize :: "val_map \<Rightarrow> string \<Rightarrow> string \<Rightarrow> nat scres" where
  "reference_usize values name kind =
     ok_or (BadReference kind name)
       (Option.bind (map_of values name) (\<lambda>v.
        opt_or (as_u64 v) (Option.bind (as_object v) (\<lambda>m. Option.bind (map_of m ''value'') as_u64))))"

definition resolve_count :: "header_field_spec \<Rightarrow> val_map \<Rightarrow> nat scres" where
  "resolve_count f values =
     (case hf_repeat_from f of None \<Rightarrow> Inr (hf_repeat f) | Some name \<Rightarrow> reference_usize values name ''repeat_from'')"

definition resolve_declared_length :: "header_field_spec \<Rightarrow> val_map \<Rightarrow> nat scres" where
  "resolve_declared_length f values =
     rbind (case hf_length_from f of None \<Rightarrow> Inr (hf_length f) | Some name \<Rightarrow> reference_usize values name ''length_from'')
       (\<lambda>base. let n = int base + hf_length_adjust f in
          if 0 \<le> n \<and> n < 2 ^ 64 then Inr (nat n) else Inl (Fail (InvalidLength (hf_name f))))"

text \<open>\<open>input.get(i..j)\<close>.\<close>

definition get_range :: "bytes \<Rightarrow> nat \<Rightarrow> nat \<Rightarrow> bytes option" where
  "get_range bs i j = (if i \<le> j \<and> j \<le> length bs then Some (take (j - i) (drop i bs)) else None)"

text \<open>\<open>windows\<close> of length zero panics.\<close>

definition resolve_length :: "header_field_spec \<Rightarrow> val_map \<Rightarrow> bytes \<Rightarrow> nat \<Rightarrow> nat scres" where
  "resolve_length f values input start =
     (case hf_terminator f of
        Some terminator \<Rightarrow>
          if length input < start then Inl (Fail TerminatorStart)
          else if terminator = [] then Inl Panic
          else rbind (ok_or (TerminatorNotFound (hf_name f))
              (position (\<lambda>w. w = terminator) (windows (length terminator) (drop start input))))
            (\<lambda>p. Inr (p + length terminator))
      | None \<Rightarrow> resolve_declared_length f values)"

definition resolve_length_for_encode :: "header_field_spec \<Rightarrow> val_map \<Rightarrow> nat \<Rightarrow> nat scres" where
  "resolve_length_for_encode f values actual =
     (if hf_terminator f \<noteq> None then Inr actual else resolve_declared_length f values)"

subsection \<open>Integers\<close>

text \<open>Shifts by 64 and more panic; \<open>field.bits\<close> and \<open>field.bit_offset\<close> are bytes.\<close>

definition low_mask :: "nat \<Rightarrow> u64" where
  "low_mask bits = (if bits = 64 then - 1 else push_bit bits 1 - 1)"

definition integer_from_bytes :: "bytes \<Rightarrow> string \<Rightarrow> nat \<Rightarrow> nat \<Rightarrow> u64 scres" where
  "integer_from_bytes bs endian bit_offset bits =
     (if length bs > 8 \<or> bits = 0 \<or> bits > 64 then Inl (Fail IntegerTooWide)
      else if bit_offset \<ge> 64 then Inl Panic
      else let value = (if endian = ''little'' then be_word (rev bs) else be_word bs) in
        Inr (drop_bit bit_offset value AND low_mask bits))"

definition integer_bytes :: "u64 \<Rightarrow> nat \<Rightarrow> string \<Rightarrow> bytes scres" where
  "integer_bytes value n endian =
     (if n = 0 \<or> n > 8 \<or> n < 8 \<and> unat value \<ge> 2 ^ (n * 8) then Inl (Fail IntegerDoesNotFit)
      else Inr (if endian = ''little'' then take n (rev (be_bytes 8 value)) else drop (8 - n) (be_bytes 8 value)))"

definition shift_left :: "u64 \<Rightarrow> nat \<Rightarrow> u64 scres" where
  "shift_left w n = (if n < 64 then Inr (push_bit n w) else Inl Panic)"

subsection \<open>Scalars\<close>

definition signed_value :: "nat \<Rightarrow> u64 \<Rightarrow> int" where
  "signed_value bits w =
     (if bits < 64 \<and> bit w (bits - 1) then int (unat w) - 2 ^ bits else sint w)"

definition decode_scalar :: "header_field_spec \<Rightarrow> bytes \<Rightarrow> string \<Rightarrow> val scres" where
  "decode_scalar f bs endian =
     rbind (case hf_terminator f of
              Some terminator \<Rightarrow>
                if length terminator \<le> length bs then Inr (take (length bs - length terminator) bs) else Inl Panic
            | None \<Rightarrow> Inr bs) (\<lambda>payload.
     let integer = integer_from_bytes payload endian (unat (hf_bit_offset f)) (unat (hf_bits f)) in
     if hf_format f = ''uint'' then rbind integer (\<lambda>w. Inr (VNumber (f64_of_int (uint w))))
     else if hf_format f = ''int'' then
       rbind integer (\<lambda>w. Inr (VNumber (f64_of_int (signed_value (unat (hf_bits f)) w))))
     else if hf_format f = ''bool'' then rbind integer (\<lambda>w. Inr (VBool (w \<noteq> 0)))
     else if hf_format f = ''hex'' then Inr (VString (bytes_to_hex payload))
     else if hf_format f = ''bytes'' then Inr (VBytes payload)
     else if hf_format f = ''ascii'' then
       (if is_ascii payload then Inr (VString (string_of payload)) else Inl (Fail (NotAscii (hf_name f))))
     else if hf_format f = ''utf8'' then
       (if valid_utf8 payload then Inr (VString (string_of payload)) else Inl (Fail (NotUtf8 (hf_name f))))
     else if hf_format f = ''ipv4'' then
       (if length payload = 4 then Inr (VString (join ''.'' (map (\<lambda>b. decimal (unat b)) payload)))
        else Inl (Fail (Ipv4Length (hf_name f))))
     else Inl (Fail (UnsupportedFormat (hf_format f))))"

definition reverse_enum :: "header_field_spec \<Rightarrow> val \<Rightarrow> val" where
  "reverse_enum f v =
     (case find (\<lambda>(key, mapped). val_eq mapped v) (hf_enum_values f) of
        Some (key, _) \<Rightarrow> literal key
      | None \<Rightarrow> v)"

definition apply_enum :: "(nat \<Rightarrow> bool) \<Rightarrow> header_field_spec \<Rightarrow> val \<Rightarrow> val" where
  "apply_enum pr f v =
     (case map_of (hf_enum_values f) (scalar_key pr v) of
        Some name \<Rightarrow> VObject (collect_map [(''value'', v), (''name'', name)])
      | None \<Rightarrow> v)"

fun hex_res :: "(string, bytes) res \<Rightarrow> bytes scres" where
  "hex_res (Inr bs) = Inr bs"
| "hex_res (Inl Panic) = Inl Panic"
| "hex_res (Inl (Fail e)) = Inl (Fail (HexError e))"

definition parse_u8 :: "string \<Rightarrow> byte option" where
  "parse_u8 s = Option.bind (parse_usize s) (\<lambda>n. if n < 256 then Some (of_nat n) else None)"

definition encode_uint :: "header_field_spec \<Rightarrow> val \<Rightarrow> string \<Rightarrow> bytes scres" where
  "encode_uint f v endian =
     rbind (ok_or (MustBe (hf_name f) ''a non-negative integer'') (as_u64 v)) (\<lambda>number.
     let bits = unat (hf_bits f) in
     if bits > 64 then Inl Panic
     else if number > unat (low_mask bits) then Inl (Fail (ExceedsBits (hf_name f) bits))
     else rbind (shift_left (of_nat number) (unat (hf_bit_offset f))) (\<lambda>w. integer_bytes w (hf_length f) endian))"

text \<open>\<open>1i128 << (bits - 1)\<close> panics for \<open>bits = 0\<close> and beyond 128; \<open>1u64 << bits\<close> beyond 64.\<close>

definition encode_int :: "header_field_spec \<Rightarrow> val \<Rightarrow> string \<Rightarrow> bytes scres" where
  "encode_int f v endian =
     rbind (ok_or (MustBe (hf_name f) ''an integer'') (as_i64 v)) (\<lambda>number.
     let bits = unat (hf_bits f) in
     if bits = 0 \<or> bits > 128 then Inl Panic
     else if number < - (2 ^ (bits - 1)) \<or> number > 2 ^ (bits - 1) - 1 then Inl (Fail (ExceedsBits (hf_name f) bits))
     else if bits > 64 then Inl Panic
     else rbind (shift_left (of_int number AND low_mask bits) (unat (hf_bit_offset f)))
       (\<lambda>w. integer_bytes w (hf_length f) endian))"

definition encode_scalar :: "header_field_spec \<Rightarrow> val \<Rightarrow> string \<Rightarrow> bytes scres" where
  "encode_scalar f v0 endian =
     (let v = reverse_enum f v0 in
      rbind
       (if hf_format f = ''uint'' then encode_uint f v endian
        else if hf_format f = ''int'' then encode_int f v endian
        else if hf_format f = ''bool'' then
          rbind (ok_or (MustBe (hf_name f) ''boolean'') (as_bool v)) (\<lambda>b.
          rbind (shift_left (if b then 1 else 0) (unat (hf_bit_offset f))) (\<lambda>w. integer_bytes w (hf_length f) endian))
        else if hf_format f = ''hex'' then
          rbind (ok_or (MustBe (hf_name f) ''hex text'') (as_str v)) (\<lambda>s. hex_res (parse_hex s))
        else if hf_format f = ''bytes'' then
          (case v of
             VBytes bs \<Rightarrow> Inr bs
           | VString s \<Rightarrow> hex_res (parse_hex s)
           | _ \<Rightarrow> Inl (Fail (MustBe (hf_name f) ''bytes or hex text'')))
        else if hf_format f = ''ascii'' then
          rbind (ok_or (MustBe (hf_name f) ''text'') (as_str v)) (\<lambda>s.
            if is_ascii (bytes_of s) then Inr (bytes_of s) else Inl (Fail (NotAscii (hf_name f))))
        else if hf_format f = ''utf8'' then
          rbind (ok_or (MustBe (hf_name f) ''text'') (as_str v)) (\<lambda>s. Inr (bytes_of s))
        else if hf_format f = ''ipv4'' then
          rbind (ok_or (MustBe (hf_name f) ''IPv4 text'') (as_str v)) (\<lambda>s.
            rmap (\<lambda>part. ok_or InvalidIpv4 (parse_u8 part)) (split_on (CHR ''.'') s))
        else Inl (Fail (UnsupportedFormat (hf_format f))))
       (\<lambda>bs. Inr (bs @ unwrap_or [] (hf_terminator f))))"

subsection \<open>Transforms\<close>

definition material :: "header_field_spec \<Rightarrow> val_map \<Rightarrow> string option \<Rightarrow> nat \<Rightarrow> string \<Rightarrow> bytes scres" where
  "material f values reference n kind =
     rbind (ok_or (LacksMaterial (hf_name f) kind) reference) (\<lambda>name.
     rbind (ok_or (UnknownMaterial kind name) (map_of values name)) (\<lambda>v.
     rbind (case v of
              VBytes bs \<Rightarrow> Inr bs
            | VString s \<Rightarrow> hex_res (parse_hex s)
            | _ \<Rightarrow> Inl (Fail (MaterialType kind name))) (\<lambda>bs.
     if length bs = n then Inr bs else Inl (Fail (MaterialSize kind n)))))"

definition encryption_material :: "header_field_spec \<Rightarrow> val_map \<Rightarrow> (bytes \<times> bytes) scres" where
  "encryption_material f values =
     rbind (material f values (hf_key_from f) 32 ''key'') (\<lambda>key.
     rbind (material f values (hf_nonce_from f) 12 ''nonce'') (\<lambda>nonce. Inr (key, nonce)))"

definition transform_with ::
  "(bytes \<Rightarrow> bytes option) \<Rightarrow> (bytes \<Rightarrow> bytes \<Rightarrow> bytes \<Rightarrow> bytes option) \<Rightarrow> header_field_spec \<Rightarrow> bytes \<Rightarrow> val_map \<Rightarrow> bytes scres" where
  "transform_with zlib aes f bs values =
     (case hf_transform f of
        None \<Rightarrow> Inr bs
      | Some t \<Rightarrow>
          if t = ''zlib'' then ok_or (TransformFailed (hf_name f) t) (zlib bs)
          else if t = ''aes-gcm'' then
            rbind (encryption_material f values) (\<lambda>(key, nonce). ok_or (TransformFailed (hf_name f) t) (aes key nonce bs))
          else Inl (Fail (TransformPlugin (hf_name f) t)))"

definition decode_transform :: "schema_env \<Rightarrow> header_field_spec \<Rightarrow> bytes \<Rightarrow> val_map \<Rightarrow> bytes scres" where
  "decode_transform env = transform_with (zlib_decompress env) (aes_decrypt env)"

definition encode_transform :: "schema_env \<Rightarrow> header_field_spec \<Rightarrow> bytes \<Rightarrow> val_map \<Rightarrow> bytes scres" where
  "encode_transform env = transform_with (zlib_compress env) (aes_encrypt env)"

subsection \<open>Checksums\<close>

definition crc16_bit :: "u16 \<Rightarrow> u16" where
  "crc16_bit crc = (if crc AND 0x8000 \<noteq> 0 then push_bit 1 crc XOR 0x1021 else push_bit 1 crc)"

definition crc16_byte :: "byte \<Rightarrow> u16 \<Rightarrow> u16" where
  "crc16_byte b crc = (crc16_bit ^^ 8) (crc XOR push_bit 8 (ucast b))"

definition crc32_bit :: "u32 \<Rightarrow> u32" where
  "crc32_bit crc = (if crc AND 1 \<noteq> 0 then drop_bit 1 crc XOR 0xedb88320 else drop_bit 1 crc)"

definition crc32_byte :: "byte \<Rightarrow> u32 \<Rightarrow> u32" where
  "crc32_byte b crc = (crc32_bit ^^ 8) (crc XOR ucast b)"

definition schema_checksum :: "string \<Rightarrow> bytes \<Rightarrow> u64 scres" where
  "schema_checksum algorithm bs =
     (if algorithm = ''crc16'' then Inr (ucast (fold crc16_byte bs 0xffff))
      else if algorithm = ''crc32'' then Inr (ucast (NOT (fold crc32_byte bs 0xffffffff)))
      else if algorithm = ''internet'' then Inr (ucast (internet_checksum bs))
      else Inl (Fail (UnsupportedChecksum algorithm)))"

definition checksum_slice :: "header_field_spec \<Rightarrow> bytes \<Rightarrow> nat \<Rightarrow> nat \<Rightarrow> bytes scres" where
  "checksum_slice f bs base current =
     (let range = unwrap_or ''all_before'' (hf_checksum_range f) in
      if range = ''all_before'' then ok_or ChecksumRange (get_range bs base current)
      else rbind (ok_or ChecksumRange (split_once ''..'' range)) (\<lambda>(a, b).
        rbind (ok_or ChecksumRange (parse_usize a)) (\<lambda>start.
        if base + start \<ge> 2 ^ 64 then Inl Panic
        else rbind (ok_or ChecksumRange (parse_usize b)) (\<lambda>last.
          if base + last \<ge> 2 ^ 64 then Inl Panic
          else ok_or ChecksumRange (get_range bs (base + start) (base + last))))))"

subsection \<open>Decoding\<close>

lemma size_map_of_case: "map_of cs k = Some fs \<Longrightarrow> size_list size fs < Suc (size_list (size_prod (\<lambda>x. 0) (size_list size)) cs)"
  by (induction cs) (auto split: if_splits)

lemma size_list_fields [simp]: "2 * size_list size (hf_fields f) < Suc (2 * size f)"
  by (cases f) simp

lemma size_list_case: "map_of (hf_cases f) k = Some fs \<Longrightarrow> size_list size fs < size f"
  using size_map_of_case [of "hf_cases f" k fs] by (cases f) simp

definition select_case :: "header_field_spec \<Rightarrow> string \<Rightarrow> header_field_spec list option" where
  "select_case f key = opt_or (map_of (hf_cases f) key) (map_of (hf_cases f) ''default'')"

lemma size_select_case: "select_case f key = Some fs \<Longrightarrow> size_list size fs < size f"
  unfolding select_case_def by (cases "map_of (hf_cases f) key") (auto intro: size_list_case)

definition field_start :: "header_field_spec \<Rightarrow> nat \<Rightarrow> nat \<Rightarrow> nat scres" where
  "field_start f base cursor =
     (if \<not> hf_offset_explicit f then Inr cursor
      else if base + hf_offset f < 2 ^ 64 then Inr (base + hf_offset f)
      else Inl (Fail (OffsetOverflow (hf_name f))))"

definition item_raw :: "header_field_spec \<Rightarrow> bytes \<Rightarrow> val_map \<Rightarrow> nat \<Rightarrow> (bytes \<times> nat) scres" where
  "item_raw f input values at =
     rbind (resolve_length f values input at) (\<lambda>n.
     if at + n \<ge> 2 ^ 64 then Inl (Fail (LengthOverflow (hf_name f)))
     else rbind (ok_or (FieldTruncated (hf_name f) at) (get_range input at (at + n))) (\<lambda>raw. Inr (raw, at + n)))"

definition check_item ::
  "header_field_spec \<Rightarrow> bytes \<Rightarrow> nat \<Rightarrow> nat \<Rightarrow> bytes \<Rightarrow> string \<Rightarrow> (string, bool) btree_map \<Rightarrow> (string, bool) btree_map scres" where
  "check_item f input base at raw endian checksums =
     (case hf_checksum f of
        None \<Rightarrow> Inr checksums
      | Some algorithm \<Rightarrow>
          rbind (checksum_slice f input base at) (\<lambda>covered.
          rbind (integer_from_bytes raw endian 0 (length raw * 8)) (\<lambda>expected.
          rbind (schema_checksum algorithm covered) (\<lambda>actual.
          Inr (bt_insert (hf_name f) (actual = expected) checksums)))))"

definition decoded_value :: "nat \<Rightarrow> val list \<Rightarrow> val" where
  "decoded_value count decoded = (if count = 1 then last decoded else VArray decoded)"

text \<open>
  The loop over the fields and, within it, the loop over the items of one field. The values
  decoded so far are in scope of the conditions and references of later fields; a nested
  group starts with none. All checksum results share one map.
\<close>

function (sequential) decode_fields ::
  "schema_env \<Rightarrow> header_field_spec list \<Rightarrow> bytes \<Rightarrow> nat \<Rightarrow> nat \<Rightarrow> string \<Rightarrow> val_map \<Rightarrow> (string, bool) btree_map \<Rightarrow>
   (nat \<times> val_map \<times> (string, bool) btree_map) scres"
and decode_items ::
  "schema_env \<Rightarrow> header_field_spec \<Rightarrow> nat \<Rightarrow> bytes \<Rightarrow> nat \<Rightarrow> nat \<Rightarrow> string \<Rightarrow> val_map \<Rightarrow> (string, bool) btree_map \<Rightarrow>
   (val list \<times> nat \<times> (string, bool) btree_map) scres" where
  "decode_fields env [] input base cursor endian values checksums = Inr (cursor, values, checksums)"
| "decode_fields env (f # fs) input base cursor endian values checksums =
     rbind (predicate (hf_when f) values) (\<lambda>present.
     if \<not> present then decode_fields env fs input base cursor endian values checksums
     else rbind (field_start f base cursor) (\<lambda>start.
       rbind (resolve_count f values) (\<lambda>count.
       if count > vec_limit env then Inl Panic
       else rbind (decode_items env f count input base start endian values checksums) (\<lambda>(decoded, at, checksums').
         decode_fields env fs input base (max cursor at) endian
           (bt_insert (hf_name f) (decoded_value count decoded) values) checksums'))))"
| "decode_items env f 0 input base at endian values checksums = Inr ([], at, checksums)"
| "decode_items env f (Suc n) input base at endian values checksums =
     rbind (item_raw f input values at) (\<lambda>(raw, end_at).
     rbind (decode_transform env f raw values) (\<lambda>transformed.
     rbind (if hf_fields f \<noteq> [] then
              rbind (decode_fields env (hf_fields f) transformed 0 0 endian [] checksums)
                (\<lambda>(_, nested, checksums'). Inr (VObject nested, checksums'))
            else case hf_switch_on f of
              Some selector \<Rightarrow>
                rbind (ok_or (SwitchUnknown (hf_name f) selector) (map_of values selector)) (\<lambda>v.
                (case select_case f (scalar_key (env_printable env) v) of
                   None \<Rightarrow> Inl (Fail (NoCase (hf_name f) (scalar_key (env_printable env) v)))
                 | Some selected \<Rightarrow>
                     rbind (decode_fields env selected transformed 0 0 endian [] checksums)
                       (\<lambda>(_, nested, checksums'). Inr (VObject nested, checksums'))))
            | None \<Rightarrow> rbind (decode_scalar f transformed endian) (\<lambda>v. Inr (v, checksums)))
       (\<lambda>(v, checksums1).
     rbind (check_item f input base at raw endian checksums1) (\<lambda>checksums2.
     rbind (decode_items env f n input base end_at endian values checksums2) (\<lambda>(vs, at', checksums3).
     Inr (apply_enum (env_printable env) f v # vs, at', checksums3))))))"
  by pat_completeness auto
termination
  by (relation "measures [\<lambda>x. case x of Inl (_, fs, _) \<Rightarrow> 2 * size_list size fs | Inr (_, f, _) \<Rightarrow> 2 * size f + 1,
      \<lambda>x. case x of Inl _ \<Rightarrow> 0 | Inr (_, _, n, _) \<Rightarrow> n]")
    (auto dest: size_select_case)

declare decode_fields.simps [simp del] decode_items.simps [simp del]

record decoded_schema =
  ds_fields :: val_map
  ds_checksum_valid :: "(string, bool) btree_map"
  ds_consumed :: nat
  ds_unknown :: bytes

definition decode_schema_with_context :: "schema_env \<Rightarrow> header_schema \<Rightarrow> bytes \<Rightarrow> val_map \<Rightarrow> decoded_schema scres" where
  "decode_schema_with_context env schema bs context =
     (if hs_offset schema > length bs then Inl (Fail (OffsetExceedsInput (hs_name schema)))
      else rbind (decode_fields env (hs_fields schema) bs (hs_offset schema) (hs_offset schema) (hs_endian schema) context [])
        (\<lambda>(consumed, values, checksums).
        Inr \<lparr>ds_fields = fold (\<lambda>(k, _). bt_remove k) context values, ds_checksum_valid = checksums,
              ds_consumed = consumed, ds_unknown = drop consumed bs\<rparr>))"

definition decode_schema :: "schema_env \<Rightarrow> header_schema \<Rightarrow> bytes \<Rightarrow> decoded_schema scres" where
  "decode_schema env schema bs = decode_schema_with_context env schema bs []"

subsection \<open>Encoding\<close>

definition supplied_items :: "schema_env \<Rightarrow> header_field_spec \<Rightarrow> nat \<Rightarrow> val_map \<Rightarrow> val list scres" where
  "supplied_items env f count values =
     (if hf_checksum f \<noteq> None then (if count > vec_limit env then Inl Panic else Inr (replicate count VNull))
      else if count = 1 then rbind (ok_or (MissingField (hf_name f)) (map_of values (hf_name f))) (\<lambda>v. Inr [v])
      else ok_or (MustBeArray (hf_name f)) (Option.bind (map_of values (hf_name f)) as_array))"

definition or_bytes :: "bytes \<Rightarrow> bytes \<Rightarrow> bytes" where
  "or_bytes xs ys = map2 (OR) xs ys"

text \<open>Writing one item at its position: a partial bit field is combined with what is there.\<close>

definition write_item :: "header_field_spec \<Rightarrow> bytes \<Rightarrow> nat \<Rightarrow> bytes \<Rightarrow> bytes" where
  "write_item f out at raw =
     (let out1 = (if length out < at + length raw then vec_resize (at + length raw) out else out);
          old = take (length raw) (drop at out1);
          new = (if unat (hf_bits f) < hf_length f * 8 then or_bytes old raw else raw)
      in take at out1 @ new @ drop (at + length raw) out1)"

function (sequential) encode_list ::
  "schema_env \<Rightarrow> header_field_spec list \<Rightarrow> val_map \<Rightarrow> string \<Rightarrow> nat \<Rightarrow> nat \<Rightarrow> bytes \<Rightarrow> (nat \<times> bytes) scres"
and encode_items ::
  "schema_env \<Rightarrow> header_field_spec \<Rightarrow> val list \<Rightarrow> val_map \<Rightarrow> string \<Rightarrow> nat \<Rightarrow> nat \<Rightarrow> bytes \<Rightarrow> (nat \<times> bytes) scres" where
  "encode_list env [] values endian base cursor out = Inr (cursor, out)"
| "encode_list env (f # fs) values endian base cursor out =
     rbind (predicate (hf_when f) values) (\<lambda>present.
     if \<not> present then encode_list env fs values endian base cursor out
     else if hf_offset_explicit f \<and> base + hf_offset f \<ge> 2 ^ 64 then Inl Panic
     else let start = (if hf_offset_explicit f then base + hf_offset f else cursor);
              out1 = (if length out < start then vec_resize start out else out) in
       rbind (resolve_count f values) (\<lambda>count.
       rbind (supplied_items env f count values) (\<lambda>items.
       if length items \<noteq> count then Inl (Fail (WrongItemCount (hf_name f) count (length items)))
       else rbind (encode_items env f items values endian base start out1) (\<lambda>(at, out2).
         encode_list env fs values endian base (max cursor at) out2))))"
| "encode_items env f [] values endian base at out = Inr (at, out)"
| "encode_items env f (v # vs) values endian base at out =
     rbind (if hf_fields f \<noteq> [] then
              rbind (ok_or (MustBeObject (hf_name f)) (as_object v)) (\<lambda>nested.
              rbind (encode_list env (hf_fields f) nested endian 0 0 []) (\<lambda>(_, bs). Inr bs))
            else case hf_switch_on f of
              Some selector \<Rightarrow>
                rbind (ok_or (SwitchUnknown (hf_name f) selector) (map_of values selector)) (\<lambda>w.
                (case select_case f (scalar_key (env_printable env) w) of
                   None \<Rightarrow> Inl (Fail (NoCase (hf_name f) (scalar_key (env_printable env) w)))
                 | Some selected \<Rightarrow>
                     rbind (ok_or (MustBeObject (hf_name f)) (as_object v)) (\<lambda>nested.
                     rbind (encode_list env selected nested endian 0 0 []) (\<lambda>(_, bs). Inr bs))))
            | None \<Rightarrow>
                (case hf_checksum f of
                   Some algorithm \<Rightarrow>
                     rbind (checksum_slice f out base at) (\<lambda>covered.
                     rbind (schema_checksum algorithm covered) (\<lambda>w. integer_bytes w (hf_length f) endian))
                 | None \<Rightarrow> encode_scalar f v endian))
       (\<lambda>bs.
     rbind (encode_transform env f bs values) (\<lambda>raw.
     rbind (resolve_length_for_encode f values (length raw)) (\<lambda>expected.
     if length raw \<noteq> expected then Inl (Fail (EncodedLength (hf_name f) (length raw) expected))
     else encode_items env f vs values endian base (at + length raw) (write_item f out at raw))))"
  by pat_completeness auto
termination
  by (relation "measures [\<lambda>x. case x of Inl (_, fs, _) \<Rightarrow> 2 * size_list size fs | Inr (_, f, _) \<Rightarrow> 2 * size f + 1,
      \<lambda>x. case x of Inl _ \<Rightarrow> 0 | Inr (_, _, vs, _) \<Rightarrow> length vs]")
    (auto dest: size_select_case)

declare encode_list.simps [simp del] encode_items.simps [simp del]

definition encode_fields ::
  "schema_env \<Rightarrow> header_field_spec list \<Rightarrow> val_map \<Rightarrow> string \<Rightarrow> nat \<Rightarrow> bytes \<Rightarrow> (nat \<times> bytes) scres" where
  "encode_fields env fs values endian base out = encode_list env fs values endian base (max (length out) base) out"

definition encode_schema :: "schema_env \<Rightarrow> header_schema \<Rightarrow> val_map \<Rightarrow> bytes scres" where
  "encode_schema env schema values =
     rbind (encode_fields env (hs_fields schema) values (hs_endian schema) (hs_offset schema) (replicate (hs_offset schema) 0))
       (\<lambda>(_, out). Inr out)"

end
