(* ===== verification/Schema_Correct.thy ===== *)
theory Schema_Correct
  imports Schema
begin

unbundle bit_operations_syntax

text \<open>
  What the schema codec guarantees: the cyclic checksums tell apart messages that differ in
  one byte, integers and scalars come back from their encoding, and so does a whole message
  of consecutive fields, with every checksum valid.
\<close>

subsection \<open>Cyclic checksums\<close>

lemma crc16_bit_alt: "crc16_bit x = push_bit 1 x XOR (if bit x 15 then 0x1021 else 0)"
proof -
  have "x AND 0x8000 = 0 \<longleftrightarrow> \<not> bit x 15"
    using and_exp_eq_0_iff_not_bit [of x 15] by simp
  then show ?thesis by (simp add: crc16_bit_def)
qed

lemma crc32_bit_alt: "crc32_bit x = drop_bit 1 x XOR (if bit x 0 then 0xedb88320 else 0)"
proof -
  have "x AND 1 = 0 \<longleftrightarrow> \<not> bit x 0"
    using and_exp_eq_0_iff_not_bit [of x 0] by simp
  then show ?thesis by (simp add: crc32_bit_def)
qed

text \<open>The bit that is shifted out is still seen: it is bit 0 of the one and bit 31 of the other result.\<close>

lemma inj_crc16_bit: "inj crc16_bit"
proof (rule injI)
  fix x y assume eq: "crc16_bit x = crc16_bit y"
  have top: "bit (crc16_bit z) 0 \<longleftrightarrow> bit z 15" for z
    unfolding crc16_bit_alt bit_xor_iff bit_push_bit_iff by simp
  have low: "bit z i \<longleftrightarrow> bit (crc16_bit z XOR (if bit z 15 then 0x1021 else 0)) (Suc i)" if "i < 15" for z i
    using that unfolding crc16_bit_alt bit_xor_iff bit_push_bit_iff by auto
  have msb: "bit x 15 = bit y 15" using eq top by metis
  show "x = y"
  proof (rule bit_word_eqI)
    fix i assume "i < LENGTH(16)"
    then consider "i = 15" | "i < 15" by fastforce
    then show "bit x i = bit y i" using msb low [of i x] low [of i y] eq by cases auto
  qed
qed

lemma inj_crc32_bit: "inj crc32_bit"
proof (rule injI)
  fix x y assume eq: "crc32_bit x = crc32_bit y"
  have bottom: "bit (crc32_bit z) 31 \<longleftrightarrow> bit z 0" for z
    using bit_imp_le_length [of z 32] by (auto simp: crc32_bit_alt bit_simps)
  have high: "bit z (Suc i) \<longleftrightarrow> bit (crc32_bit z XOR (if bit z 0 then 0xedb88320 else 0)) i" for z i
    by (simp add: crc32_bit_alt bit_simps xor.assoc)
  have lsb: "bit x 0 = bit y 0" using eq bottom by metis
  show "x = y"
  proof (rule bit_word_eqI)
    fix i assume "i < LENGTH(32)"
    show "bit x i = bit y i" using lsb high [of x "i - 1"] high [of y "i - 1"] eq by (cases i) auto
  qed
qed

lemma xor_cancel: "x XOR z = y XOR z \<Longrightarrow> x = y" for x :: "'a::len word"
  by (metis xor.assoc xor.right_neutral xor_self_eq)

lemma inj_crc16_byte: "inj (crc16_byte b)" and inj_crc32_byte: "inj (crc32_byte b)"
  using inj_fn [OF inj_crc16_bit, of 8] inj_fn [OF inj_crc32_bit, of 8]
  unfolding crc16_byte_def crc32_byte_def by (auto intro!: injI dest!: injD simp: xor_cancel)

lemma crc_byte_differs: "b \<noteq> c \<Longrightarrow> crc16_byte b x \<noteq> crc16_byte c x" "b \<noteq> c \<Longrightarrow> crc32_byte b y \<noteq> crc32_byte c y"
proof -
  assume ne: "b \<noteq> c"
  then obtain i where i: "bit b i \<noteq> bit c i" by (auto simp: bit_eq_iff)
  then have lt: "i < 8" using bit_imp_le_length [of b i] bit_imp_le_length [of c i] by auto
  have "bit (x XOR push_bit 8 (ucast b)) (i + 8) \<noteq> bit (x XOR push_bit 8 (ucast c)) (i + 8)"
    using i lt by (simp add: bit_simps)
  then have "x XOR push_bit 8 (ucast b) \<noteq> x XOR push_bit 8 (ucast c)" by metis
  then show "crc16_byte b x \<noteq> crc16_byte c x"
    unfolding crc16_byte_def using inj_fn [OF inj_crc16_bit, of 8] by (metis injD)
  have "bit (y XOR ucast b) i \<noteq> bit (y XOR ucast c) i"
    using i lt by (simp add: bit_simps)
  then have "y XOR ucast b \<noteq> y XOR ucast c" by metis
  then show "crc32_byte b y \<noteq> crc32_byte c y"
    unfolding crc32_byte_def using inj_fn [OF inj_crc32_bit, of 8] by (metis injD)
qed

lemma inj_fold: "(\<And>b. inj (f b)) \<Longrightarrow> inj (fold f bs)"
  by (induction bs) (auto intro!: inj_compose)

lemma ucast_up_inj: "LENGTH('a::len) \<le> LENGTH('b::len) \<Longrightarrow> (ucast x :: 'b word) = ucast y \<longleftrightarrow> (x :: 'a word) = y"
  by (metis ucast_up_ucast_id is_up)

text \<open>
  C26: a cyclic checksum detects every change of a single byte: two messages that differ in
  exactly one byte never have the same CRC-16 or the same CRC-32.
\<close>

theorem crc_detects_byte_change:
  assumes "algorithm = ''crc16'' \<or> algorithm = ''crc32''" and "b \<noteq> c"
  shows "schema_checksum algorithm (xs @ b # ys) \<noteq> schema_checksum algorithm (xs @ c # ys)"
  using assms(1)
proof
  assume "algorithm = ''crc16''"
  moreover have "fold crc16_byte ys (crc16_byte b z) \<noteq> fold crc16_byte ys (crc16_byte c z)" for z
    using crc_byte_differs(1) [OF assms(2), of z] injD [OF inj_fold [of crc16_byte, OF inj_crc16_byte]] by blast
  ultimately show ?thesis by (simp add: schema_checksum_def ucast_up_inj [where 'b = 64 and 'a = 16])
next
  assume "algorithm = ''crc32''"
  moreover have "fold crc32_byte ys (crc32_byte b z) \<noteq> fold crc32_byte ys (crc32_byte c z)" for z
    using crc_byte_differs(2) [OF assms(2), of z] injD [OF inj_fold [of crc32_byte, OF inj_crc32_byte]] by blast
  ultimately show ?thesis by (simp add: schema_checksum_def ucast_up_inj [where 'b = 64 and 'a = 32])
qed

lemma crc_detects_byte_change_witness: "schema_checksum ''crc32'' [1, 2, 3] \<noteq> schema_checksum ''crc32'' [1, 4, 3]"
  using crc_detects_byte_change [of "''crc32''" 2 4 "[1]" "[3]"] by simp

subsection \<open>Integers\<close>

lemma be_word_drop_zeroes:
  assumes "unat (w :: u64) < 2 ^ (n * 8)" and "n \<le> 8"
  shows "be_word (drop (8 - n) (be_bytes 8 w)) = w"
proof (rule bit_word_eqI)
  fix i assume i: "i < LENGTH(64)"
  show "bit (be_word (drop (8 - n) (be_bytes 8 w)) :: u64) i = bit w i"
  proof (cases "i div 8 < n")
    case True
    then have "8 - n + (n - 1 - i div 8) = 8 - 1 - i div 8" using assms(2) by simp
    then show ?thesis
      using True i assms(2) by (simp add: bit_be_word be_bytes_nth bit_simps)
  next
    case False
    then have "n * 8 \<le> i" by (simp add: not_less less_eq_div_iff_mult_less_eq)
    then have "\<not> bit w i" using small_word_bit [OF assms(1), of i] by auto
    then show ?thesis using False assms(2) by (simp add: bit_be_word)
  qed
qed

lemma integer_bytes_length: "integer_bytes w n endian = Inr bs \<Longrightarrow> length bs = n \<and> 0 < n \<and> n \<le> 8"
  by (auto simp: integer_bytes_def split: if_splits)

text \<open>Reading back all the bits of an integer that was written.\<close>

lemma integer_bytes_word:
  assumes "integer_bytes w n endian = Inr bs"
  shows "(if endian = ''little'' then be_word (rev bs) else be_word bs) = w"
proof -
  have small: "unat w < 2 ^ (n * 8)" and n: "n \<le> 8"
    using assms unat_bound [of w] by (auto simp: integer_bytes_def not_less le_less split: if_splits)
  have "rev (take n (rev (be_bytes 8 w))) = drop (8 - n) (be_bytes 8 w)" using n by (simp add: rev_take)
  with assms be_word_drop_zeroes [OF small n] show ?thesis
    by (auto simp: integer_bytes_def split: if_splits)
qed

lemma low_mask_bit: "bits \<le> 64 \<Longrightarrow> bit (low_mask bits) i \<longleftrightarrow> i < bits \<and> i < 64"
  by (auto simp: low_mask_def bit_mask_iff mask_eq_exp_minus_1 [symmetric] push_bit_of_1 bit_simps)

lemma shifted_field:
  assumes "unat (w :: u64) < 2 ^ bits" and "k + bits \<le> 64"
  shows "drop_bit k (push_bit k w) AND low_mask bits = w"
proof (rule bit_word_eqI)
  fix i assume "i < LENGTH(64)"
  have "bit w i \<Longrightarrow> i < bits" using small_word_bit [OF assms(1)] .
  then show "bit (drop_bit k (push_bit k w) AND low_mask bits) i = bit w i"
    using assms(2) by (auto simp: bit_simps low_mask_bit)
qed

lemma integer_roundtrip:
  assumes "integer_bytes (push_bit k w) n endian = Inr bs" and "unat w < 2 ^ bits" and "k + bits \<le> 64" and "0 < bits" and "k < 64"
  shows "integer_from_bytes bs endian k bits = Inr w"
  using integer_bytes_word [OF assms(1)] integer_bytes_length [OF assms(1)] shifted_field [OF assms(2,3)] assms(3-5)
  by (auto simp: integer_from_bytes_def)

subsection \<open>Decimal text\<close>

lemma byte_of_digit: "n < 10 \<Longrightarrow> unat (byte_of (digit_char n)) = 48 + n"
  unfolding digit_char_def byte_of_char_from by (rule unat_of_nat_byte) simp

lemma digit_char_digit: "n < 10 \<Longrightarrow> is_digit (digit_char n)"
  using byte_of_digit [of n] by (simp add: is_digit_def word_le_nat_alt)

lemma digits_value_snoc: "digits_value (ds @ [c]) = 10 * digits_value ds + (unat (byte_of c) - 48)"
  by (simp add: digits_value_def)

lemma decimal_value: "digits_value (decimal n) = n \<and> list_all is_digit (decimal n) \<and> decimal n \<noteq> []"
proof (induction n rule: decimal.induct)
  case (1 n)
  show ?case
  proof (cases "n < 10")
    case True
    then have "decimal n = [digit_char n]" by (simp add: decimal.simps [of n])
    with True show ?thesis by (simp add: digit_char_digit digits_value_def byte_of_digit)
  next
    case False
    then have "decimal n = decimal (n div 10) @ [digit_char (n mod 10)]" by (simp add: decimal.simps [of n])
    with 1 False show ?thesis by (simp add: digits_value_snoc byte_of_digit digit_char_digit)
  qed
qed

lemma digit_not: "is_digit c \<Longrightarrow> c \<noteq> CHR ''+'' \<and> c \<noteq> CHR ''.'' \<and> c \<noteq> CHR ''-''"
  by (auto simp: is_digit_def byte_of_def)

lemma parse_usize_decimal: "n < 2 ^ 64 \<Longrightarrow> parse_usize (decimal n) = Some n"
proof -
  assume "n < 2 ^ 64"
  moreover obtain c ds where "decimal n = c # ds" using decimal_value [of n] by (cases "decimal n") auto
  moreover have "c \<noteq> CHR ''+''" using decimal_value [of n] digit_not [of c] calculation(2) by simp
  ultimately show ?thesis using decimal_value [of n] by (simp add: parse_usize_def)
qed

lemma parse_u8_decimal: "parse_u8 (decimal (unat b)) = Some (b :: byte)"
proof -
  have "unat b < 2 ^ 64" using unat_byte [of b] by (rule less_trans) simp
  then show ?thesis using unat_byte [of b] by (simp add: parse_u8_def parse_usize_decimal)
qed

lemma dotted_roundtrip:
  assumes "bs \<noteq> []"
  shows "rmap (\<lambda>part. ok_or InvalidIpv4 (parse_u8 part)) (split_on (CHR ''.'') (join ''.'' (map (\<lambda>b. decimal (unat b)) bs))) = Inr bs"
proof -
  have "CHR ''.'' \<notin> set (decimal n)" for n
    using decimal_value [of n] digit_not by (auto simp: list_all_iff)
  then have "split_on (CHR ''.'') (join ''.'' (map (\<lambda>b. decimal (unat b)) bs)) = map (\<lambda>b. decimal (unat b)) bs"
    using assms by (intro split_on_join) auto
  moreover have "rmap (\<lambda>part. ok_or InvalidIpv4 (parse_u8 part)) (map (\<lambda>b. decimal (unat b)) bs) = Inr bs"
    by (induction bs) (simp_all add: parse_u8_decimal)
  ultimately show ?thesis by simp
qed

subsection \<open>Scalars\<close>

text \<open>What \<open>parse_header_fields\<close> checks of the numbers of a field.\<close>

definition field_checked :: "header_field_spec \<Rightarrow> bool" where
  "field_checked f \<longleftrightarrow> 0 < hf_length f \<and> hf_terminator f \<noteq> Some [] \<and> unat (hf_bit_offset f) \<le> 7 \<and>
     0 < unat (hf_bits f) \<and> unat (hf_bits f) \<le> 64 \<and> unat (hf_bit_offset f) + unat (hf_bits f) \<le> hf_length f * 8"

text \<open>The values a field of each format decodes to: numbers are integers an \<open>f64\<close> holds exactly.\<close>

definition scalar_ok :: "header_field_spec \<Rightarrow> val \<Rightarrow> bool" where
  "scalar_ok f v \<longleftrightarrow>
     (hf_format f = ''uint'' \<longrightarrow> (\<exists>n < 2 ^ 53. v = VNumber (f64_of_int (int n)))) \<and>
     (hf_format f = ''int'' \<longrightarrow> (\<exists>i. \<bar>i\<bar> < 2 ^ 53 \<and> v = VNumber (f64_of_int i))) \<and>
     (hf_format f = ''bool'' \<longrightarrow> (\<exists>b. v = VBool b)) \<and>
     (hf_format f = ''hex'' \<longrightarrow> (\<exists>bs. v = VString (bytes_to_hex bs))) \<and>
     (hf_format f = ''bytes'' \<longrightarrow> (\<exists>bs. v = VBytes bs)) \<and>
     (hf_format f = ''utf8'' \<longrightarrow> (\<forall>s. v = VString s \<longrightarrow> valid_utf8 (bytes_of s))) \<and>
     (hf_format f = ''ipv4'' \<longrightarrow> (\<exists>bs :: bytes. length bs = 4 \<and> v = VString (join ''.'' (map (\<lambda>b. decimal (unat b)) bs))))"

lemma as_u64_exact:
  assumes "n < 2 ^ 53"
  shows "as_u64 (VNumber (f64_of_int (int n))) = Some n"
proof -
  have "as_i64 (VNumber (f64_of_int (int n))) = Some (int n)" using assms by (intro as_i64_exact) simp
  then have i: "f64_is_integral (f64_of_int (int n))" "f64_int (f64_of_int (int n)) div f64_unit = int n"
    "f64_int (f64_of_int (int n)) < 2 ^ 63 * f64_unit"
    by (auto split: if_splits)
  have "0 \<le> f64_int (f64_of_int (int n))"
    using i(2) f64_unit_pos pos_imp_zdiv_nonneg_iff [of f64_unit "f64_int (f64_of_int (int n))"] by simp
  moreover have "f64_int (f64_of_int (int n)) < 2 ^ 64 * f64_unit"
    using i(3) f64_unit_pos by (rule_tac less_le_trans) (auto intro: mult_right_mono)
  ultimately show ?thesis using i(1,2) by simp
qed

lemma unat_low_mask: "bits \<le> 64 \<Longrightarrow> unat (low_mask bits) = 2 ^ bits - 1"
proof -
  assume b: "bits \<le> 64"
  have "unat (low_mask bits) = mask bits"
    by (rule bit_eqI) (use b in \<open>auto simp: low_mask_bit bit_unsigned_iff bit_mask_iff\<close>)
  then show ?thesis by (simp add: mask_eq_exp_minus_1)
qed

lemma uint_masked: "bits \<le> 64 \<Longrightarrow> uint (of_int i AND low_mask bits) = take_bit bits i"
  by (rule bit_eqI) (auto simp: bit_simps low_mask_bit)

lemma signed_masked:
  assumes "0 < bits" and "bits \<le> 64" and "- (2 ^ (bits - 1)) \<le> i" and "i < 2 ^ (bits - 1)"
  shows "signed_value bits (of_int i AND low_mask bits) = i"
proof -
  let ?w = "of_int i AND low_mask bits"
  have self: "signed_take_bit (bits - 1) i = i" using assms(3,4) by (simp add: signed_take_bit_int_eq_self)
  have suc: "Suc (bits - 1) = bits" using assms(1) by simp
  have u: "uint ?w = take_bit bits i" by (rule uint_masked [OF assms(2)])
  have b: "bit ?w (bits - 1) = bit i (bits - 1)" using assms(1,2) by (auto simp: bit_simps low_mask_bit)
  have split: "i = take_bit bits i - 2 ^ bits * of_bool (bit i (bits - 1))"
    using signed_take_bit_eq_take_bit_minus [of "bits - 1" i] self suc by simp
  show ?thesis
  proof (cases "bits = 64")
    case True
    then have "?w = of_int i" by (simp add: low_mask_def)
    then have "sint ?w = signed_take_bit 63 i" by (simp add: signed_of_int)
    with True self show ?thesis by (simp add: signed_value_def)
  next
    case False
    show ?thesis
    proof (cases "bit ?w (bits - 1)")
      case True
      have "int (unat ?w) = take_bit bits i" using u by simp
      moreover have "i = take_bit bits i - 2 ^ bits" using split True b by simp
      ultimately show ?thesis using True False assms(2) unfolding signed_value_def by (simp only: simp_thms if_True) simp
    next
      case clear: False
      have "\<not> bit ?w 63" using False assms(2) by (simp add: bit_simps low_mask_bit)
      moreover have "take_bit 64 (uint ?w) = uint ?w" using uint_bounded [of ?w] by (intro take_bit_int_eq_self) simp_all
      ultimately have "sint ?w = uint ?w" by (simp add: sint_uint signed_take_bit_eq_take_bit_minus bit_uint_iff)
      then show ?thesis using u split clear b unfolding signed_value_def by simp
    qed
  qed
qed

lemma rbind_Inr_right [simp]: "rbind m Inr = m"
  by (cases m) simp_all

lemma scalar_roundtrip:
  assumes f: "field_checked f" "hf_terminator f = None" "hf_enum_values f = []"
    and v: "scalar_ok f v" and enc: "encode_scalar f v endian = Inr bs"
  shows "decode_scalar f bs endian = Inr v"
proof -
  let ?bits = "unat (hf_bits f)" and ?k = "unat (hf_bit_offset f)"
  have bits: "0 < ?bits" "?bits \<le> 64" "?k < 64" "hf_length f \<le> 8 \<Longrightarrow> ?k + ?bits \<le> 64"
    using f(1) by (auto simp: field_checked_def)
  have int: "integer_from_bytes bs endian ?k ?bits = Inr w"
    if "integer_bytes (push_bit ?k w) (hf_length f) endian = Inr bs" "unat w < 2 ^ ?bits" for w
    using integer_roundtrip [OF that] integer_bytes_length [OF that(1)] bits by simp
  consider "hf_format f = ''uint''" | "hf_format f = ''int''" | "hf_format f = ''bool''" | "hf_format f = ''hex''"
    | "hf_format f = ''bytes''" | "hf_format f = ''ascii''" | "hf_format f = ''utf8''" | "hf_format f = ''ipv4''"
    using enc by (simp add: encode_scalar_def Let_def split: if_splits)
  then show ?thesis
  proof cases
    case 1
    then obtain n where n: "n < 2 ^ 53" "v = VNumber (f64_of_int (int n))" using v by (auto simp: scalar_ok_def)
    have "n < 2 ^ 64" using n(1) by simp
    then have u: "unat (of_nat n :: u64) = n" by (simp add: unat_of_nat)
    have "encode_uint f v endian = Inr bs" using enc f 1 by (simp add: encode_scalar_def reverse_enum_def)
    then have w: "integer_bytes (push_bit ?k (of_nat n)) (hf_length f) endian = Inr bs" "n < 2 ^ ?bits"
      using bits as_u64_exact [OF n(1)] by (auto simp: encode_uint_def n(2) Let_def unat_low_mask shift_left_def not_less less_eq_Suc_le split: if_splits)
    have "uint (of_nat n :: u64) = int n" using u by (metis uint_nat)
    moreover have "integer_from_bytes bs endian ?k ?bits = Inr (of_nat n)" using w u by (intro int) simp_all
    ultimately show ?thesis using f 1 by (simp add: decode_scalar_def n(2))
  next
    case 2
    then obtain i where i: "\<bar>i\<bar> < 2 ^ 53" "v = VNumber (f64_of_int i)" using v by (auto simp: scalar_ok_def)
    have "encode_int f v endian = Inr bs" using enc f 2 by (simp add: encode_scalar_def reverse_enum_def)
    then have w: "integer_bytes (push_bit ?k (of_int i AND low_mask ?bits)) (hf_length f) endian = Inr bs"
      "- (2 ^ (?bits - 1)) \<le> i" "i < 2 ^ (?bits - 1)"
      using bits as_i64_exact [OF i(1)] by (auto simp: encode_int_def i(2) Let_def shift_left_def not_less split: if_splits)
    have "int (unat (of_int i AND low_mask ?bits)) < int (2 ^ ?bits)"
      using uint_masked [OF bits(2), of i] take_bit_int_less_exp [of ?bits i] by simp
    then have "unat (of_int i AND low_mask ?bits) < 2 ^ ?bits" by (simp only: of_nat_less_iff)
    from int [OF w(1) this] signed_masked [OF bits(1,2) w(2,3)] f 2 show ?thesis by (simp add: decode_scalar_def i(2))
  next
    case 3
    then obtain b where b: "v = VBool b" using v by (auto simp: scalar_ok_def)
    have "integer_bytes (push_bit ?k (if b then 1 else 0)) (hf_length f) endian = Inr bs"
      using enc f 3 bits by (auto simp: encode_scalar_def reverse_enum_def b shift_left_def)
    moreover have "(1::nat) < 2 ^ ?bits" using bits(1) by (rule one_less_power [rotated]) simp
    ultimately have "integer_from_bytes bs endian ?k ?bits = Inr (if b then 1 else 0)" by (intro int) (cases b; simp)+
    with f 3 show ?thesis by (cases b) (simp_all add: decode_scalar_def b)
  next
    case 4
    then obtain hs where "v = VString (bytes_to_hex hs)" using v by (auto simp: scalar_ok_def)
    with enc f 4 show ?thesis by (simp add: encode_scalar_def decode_scalar_def reverse_enum_def parse_hex_bytes_to_hex)
  next
    case 5
    then obtain hs where "v = VBytes hs" using v by (auto simp: scalar_ok_def)
    with enc f 5 show ?thesis by (simp add: encode_scalar_def decode_scalar_def reverse_enum_def)
  next
    case 6
    with enc f v show ?thesis by (cases v) (auto simp: encode_scalar_def decode_scalar_def reverse_enum_def split: if_splits)
  next
    case 7
    with enc f v show ?thesis by (cases v) (auto simp: encode_scalar_def decode_scalar_def reverse_enum_def scalar_ok_def)
  next
    case 8
    then obtain hs :: bytes where hs: "length hs = 4" "v = VString (join ''.'' (map (\<lambda>b. decimal (unat b)) hs))"
      using v by (auto simp: scalar_ok_def)
    then have "hs \<noteq> []" by auto
    with enc f 8 hs show ?thesis
      by (simp add: encode_scalar_def decode_scalar_def reverse_enum_def dotted_roundtrip)
  qed
qed

subsection \<open>Messages of consecutive fields\<close>

text \<open>
  The fields of the round trip follow one another: no explicit offset, condition, terminator
  or enumeration. A checksum field holds an unsigned number. What a field refers to (its
  length, its count, the selector of its cases, key and nonce) is known before it is read.
\<close>

definition consecutive :: "header_field_spec \<Rightarrow> bool" where
  "consecutive f \<longleftrightarrow> field_checked f \<and> \<not> hf_offset_explicit f \<and> hf_when f = None \<and> hf_terminator f = None \<and>
     hf_enum_values f = [] \<and>
     (hf_checksum f \<noteq> None \<longrightarrow> hf_format f = ''uint'' \<and> hf_transform f = None \<and> hf_fields f = [] \<and> hf_switch_on f = None)"

definition field_refs :: "header_field_spec \<Rightarrow> string list" where
  "field_refs f = concat (map (case_option [] (\<lambda>x. [x]))
     [hf_length_from f, hf_repeat_from f, hf_switch_on f, hf_key_from f, hf_nonce_from f])"

definition field_items :: "header_field_spec \<Rightarrow> val_map \<Rightarrow> val list" where
  "field_items f values =
     (case resolve_count f values of
        Inr n \<Rightarrow> (case map_of values (hf_name f) of Some v \<Rightarrow> if n = 1 then [v] else unwrap_or [] (as_array v) | None \<Rightarrow> [])
      | Inl _ \<Rightarrow> [])"

definition group_fits :: "header_field_spec list \<Rightarrow> val_map \<Rightarrow> bool" where
  "group_fits fs m \<longleftrightarrow> bt_wf m \<and> set (map fst m) = set (map hf_name fs) \<and> list_all (\<lambda>f. hf_checksum f = None) fs"

function (sequential) fields_fit :: "schema_env \<Rightarrow> string list \<Rightarrow> header_field_spec list \<Rightarrow> val_map \<Rightarrow> bool"
and item_fits :: "schema_env \<Rightarrow> header_field_spec \<Rightarrow> val_map \<Rightarrow> val \<Rightarrow> bool" where
  "fields_fit env ns [] values \<longleftrightarrow> True"
| "fields_fit env ns (f # fs) values \<longleftrightarrow>
     consecutive f \<and> set (field_refs f) \<subseteq> set ns \<and>
     (\<forall>n. resolve_count f values = Inr n \<longrightarrow> n \<le> vec_limit env) \<and>
     (if hf_checksum f = None
      then (\<forall>v \<in> set (field_items f values). item_fits env f values v) \<and> fields_fit env (hf_name f # ns) fs values
      else hf_name f \<notin> set ns \<and> fields_fit env ns fs values)"
| "item_fits env f values v \<longleftrightarrow>
     (if hf_fields f \<noteq> [] then
        (case v of VObject m \<Rightarrow> group_fits (hf_fields f) m \<and> fields_fit env [] (hf_fields f) m | _ \<Rightarrow> False)
      else case hf_switch_on f of
        Some selector \<Rightarrow>
          (case map_of values selector of
             Some w \<Rightarrow>
               (case select_case f (scalar_key (env_printable env) w) of
                  Some fs \<Rightarrow> (case v of VObject m \<Rightarrow> group_fits fs m \<and> fields_fit env [] fs m | _ \<Rightarrow> False)
                | None \<Rightarrow> False)
           | None \<Rightarrow> False)
      | None \<Rightarrow> scalar_ok f v)"
  by pat_completeness auto
termination
  by (relation "measure (\<lambda>x. case x of Inl (_, _, fs, _) \<Rightarrow> 2 * size_list size fs | Inr (_, f, _) \<Rightarrow> 2 * size f + 1)")
    (auto dest: size_select_case)

declare fields_fit.simps [simp del] item_fits.simps [simp del]

text \<open>The laws of compression and encryption, on byte strings whose length is a \<open>usize\<close>.\<close>

definition transforms_invert :: "schema_env \<Rightarrow> bool" where
  "transforms_invert env \<longleftrightarrow>
     (\<forall>b c. zlib_compress env b = Some c \<longrightarrow> zlib_decompress env c = Some b \<and> length b < 2 ^ 64) \<and>
     (\<forall>k n b c. aes_encrypt env k n b = Some c \<longrightarrow> aes_decrypt env k n c = Some b \<and> length b < 2 ^ 64)"

definition agree :: "string list \<Rightarrow> val_map \<Rightarrow> val_map \<Rightarrow> bool" where
  "agree ns d v \<longleftrightarrow> (\<forall>k \<in> set ns. map_of d k = map_of v k)"

definition all_true :: "(string, bool) btree_map \<Rightarrow> bool" where
  "all_true m \<longleftrightarrow> (\<forall>k b. map_of m k = Some b \<longrightarrow> b)"

lemma agree_refs:
  assumes "agree ns d v" and "set (field_refs f) \<subseteq> set ns"
  shows "resolve_count f d = resolve_count f v" and "resolve_declared_length f d = resolve_declared_length f v"
    and "encryption_material f d = encryption_material f v"
    and "hf_switch_on f = Some s \<Longrightarrow> map_of d s = map_of v s"
proof -
  have known: "map_of d k = map_of v k" if "k \<in> set (field_refs f)" for k using assms that by (auto simp: agree_def)
  show "resolve_count f d = resolve_count f v" "resolve_declared_length f d = resolve_declared_length f v"
    using known by (auto simp: resolve_count_def resolve_declared_length_def reference_usize_def field_refs_def split: option.splits)
  have "material f d r n kind = material f v r n kind" if "r = hf_key_from f \<or> r = hf_nonce_from f" for r n kind
    using known that by (cases r) (auto simp: material_def field_refs_def)
  then show "encryption_material f d = encryption_material f v" by (simp add: encryption_material_def)
  show "hf_switch_on f = Some s \<Longrightarrow> map_of d s = map_of v s" using known by (simp add: field_refs_def)
qed

lemma transform_roundtrip:
  assumes "transforms_invert env" and "encode_transform env f bs v = Inr raw" and "encryption_material f d = encryption_material f v"
  shows "decode_transform env f raw d = Inr bs \<and> (length raw < 2 ^ 64 \<longrightarrow> length bs < 2 ^ 64)"
  using assms
  by (auto simp: encode_transform_def decode_transform_def transform_with_def transforms_invert_def split: option.splits if_splits)

lemma write_item_end: "length out = at \<Longrightarrow> write_item f out at raw = out @ raw"
proof -
  have "or_bytes (replicate (length raw) 0) raw = raw"
    unfolding or_bytes_def by (induction raw) auto
  then show "length out = at \<Longrightarrow> ?thesis" by (auto simp: write_item_def vec_resize_ge Let_def or_bytes_def)
qed

lemma all_true_insert: "all_true m \<Longrightarrow> all_true (bt_insert k True m)"
  by (auto simp: all_true_def map_of_bt_insert)

lemma get_range_prefix: "get_range out i j = Some c \<Longrightarrow> get_range (out @ rest) i j = Some c"
  by (auto simp: get_range_def split: if_splits)

lemma checksum_slice_prefix: "checksum_slice f out base at = Inr c \<Longrightarrow> checksum_slice f (out @ rest) base at = Inr c"
  by (auto simp: checksum_slice_def Let_def get_range_prefix split: if_splits)

lemma integer_full:
  assumes "integer_bytes w n endian = Inr bs"
  shows "integer_from_bytes bs endian 0 (length bs * 8) = Inr w"
proof -
  have n: "0 < n" "n \<le> 8" "length bs = n" using integer_bytes_length [OF assms] by auto
  have "unat w < 2 ^ (n * 8)"
    using assms unat_bound [of w] n by (auto simp: integer_bytes_def not_less le_less split: if_splits)
  then show ?thesis using integer_roundtrip [of 0 w n endian bs "n * 8"] assms n by simp
qed

text \<open>The bytes of one item before its transform.\<close>

definition item_bytes :: "schema_env \<Rightarrow> header_field_spec \<Rightarrow> val \<Rightarrow> val_map \<Rightarrow> string \<Rightarrow> nat \<Rightarrow> nat \<Rightarrow> bytes \<Rightarrow> bytes scres" where
  "item_bytes env f v values endian base at out =
     (if hf_fields f \<noteq> [] then
        rbind (ok_or (MustBeObject (hf_name f)) (as_object v)) (\<lambda>nested.
        rbind (encode_list env (hf_fields f) nested endian 0 0 []) (\<lambda>(_, bs). Inr bs))
      else case hf_switch_on f of
        Some selector \<Rightarrow>
          rbind (ok_or (SwitchUnknown (hf_name f) selector) (map_of values selector)) (\<lambda>w.
          (case select_case f (scalar_key (env_printable env) w) of
             None \<Rightarrow> Inl (Fail (NoCase (hf_name f) (scalar_key (env_printable env) w)))
           | Some selected \<Rightarrow>
               rbind (ok_or (MustBeObject (hf_name f)) (as_object v)) (\<lambda>nested.
               rbind (encode_list env selected nested endian 0 0 []) (\<lambda>(_, bs). Inr bs))))
      | None \<Rightarrow>
          (case hf_checksum f of
             Some algorithm \<Rightarrow>
               rbind (checksum_slice f out base at) (\<lambda>covered.
               rbind (schema_checksum algorithm covered) (\<lambda>w. integer_bytes w (hf_length f) endian))
           | None \<Rightarrow> encode_scalar f v endian))"

definition item_value :: "schema_env \<Rightarrow> header_field_spec \<Rightarrow> bytes \<Rightarrow> val_map \<Rightarrow> string \<Rightarrow> (string, bool) btree_map \<Rightarrow>
    (val \<times> (string, bool) btree_map) scres" where
  "item_value env f bs values endian checksums =
     (if hf_fields f \<noteq> [] then
        rbind (decode_fields env (hf_fields f) bs 0 0 endian [] checksums)
          (\<lambda>(_, nested, checksums'). Inr (VObject nested, checksums'))
      else case hf_switch_on f of
        Some selector \<Rightarrow>
          rbind (ok_or (SwitchUnknown (hf_name f) selector) (map_of values selector)) (\<lambda>v.
          (case select_case f (scalar_key (env_printable env) v) of
             None \<Rightarrow> Inl (Fail (NoCase (hf_name f) (scalar_key (env_printable env) v)))
           | Some selected \<Rightarrow>
               rbind (decode_fields env selected bs 0 0 endian [] checksums)
                 (\<lambda>(_, nested, checksums'). Inr (VObject nested, checksums'))))
      | None \<Rightarrow> rbind (decode_scalar f bs endian) (\<lambda>v. Inr (v, checksums)))"

lemma encode_items_Cons:
  "encode_items env f (v # vs) values endian base at out =
     rbind (item_bytes env f v values endian base at out) (\<lambda>bs.
     rbind (encode_transform env f bs values) (\<lambda>raw.
     rbind (resolve_length_for_encode f values (length raw)) (\<lambda>expected.
     if length raw \<noteq> expected then Inl (Fail (EncodedLength (hf_name f) (length raw) expected))
     else encode_items env f vs values endian base (at + length raw) (write_item f out at raw))))"
  by (simp only: encode_items.simps item_bytes_def)

lemma decode_items_Suc:
  "decode_items env f (Suc n) input base at endian values checksums =
     rbind (item_raw f input values at) (\<lambda>(raw, end_at).
     rbind (decode_transform env f raw values) (\<lambda>transformed.
     rbind (item_value env f transformed values endian checksums) (\<lambda>(v, checksums1).
     rbind (check_item f input base at raw endian checksums1) (\<lambda>checksums2.
     rbind (decode_items env f n input base end_at endian values checksums2) (\<lambda>(vs, at', checksums3).
     Inr (apply_enum (env_printable env) f v # vs, at', checksums3))))))"
  by (simp only: decode_items.simps item_value_def)

text \<open>A nested group that comes back from its encoding.\<close>

definition group_returns :: "schema_env \<Rightarrow> string \<Rightarrow> header_field_spec list \<Rightarrow> bool" where
  "group_returns env endian fs \<longleftrightarrow>
     (\<forall>m c bs cks. encode_list env fs m endian 0 0 [] = Inr (c, bs) \<longrightarrow> length bs < 2 ^ 64 \<longrightarrow>
        group_fits fs m \<longrightarrow> fields_fit env [] fs m \<longrightarrow> all_true cks \<longrightarrow>
        (\<exists>c' cks'. decode_fields env fs bs 0 0 endian [] cks = Inr (c', m, cks') \<and> all_true cks'))"

lemma item_returns:
  assumes agree: "agree ns d values" "set (field_refs f) \<subseteq> set ns" and f: "consecutive f"
    and enc: "item_bytes env f v values endian base at out = Inr bs" and len: "length bs < 2 ^ 64"
    and fits: "hf_checksum f = None \<longrightarrow> item_fits env f values v"
    and groups: "group_returns env endian (hf_fields f)" "\<And>k fs. select_case f k = Some fs \<Longrightarrow> group_returns env endian fs"
    and cks: "all_true cks"
  shows "\<exists>v' cks'. item_value env f bs d endian cks = Inr (v', cks') \<and> all_true cks' \<and> (hf_checksum f = None \<longrightarrow> v' = v)"
proof (cases "hf_checksum f")
  case (Some algorithm)
  then have plain: "hf_format f = ''uint''" "hf_fields f = []" "hf_switch_on f = None" "hf_terminator f = None" "field_checked f"
    using f by (auto simp: consecutive_def)
  have "length bs \<le> 8" using enc Some plain by (auto simp: item_bytes_def dest: integer_bytes_length)
  then have "\<exists>w. decode_scalar f bs endian = Inr w"
    using plain by (auto simp: decode_scalar_def integer_from_bytes_def field_checked_def Let_def)
  with cks Some plain show ?thesis by (auto simp: item_value_def)
next
  case None
  note fits = fits [rule_format, OF None]
  show ?thesis
  proof (cases "hf_fields f \<noteq> []")
    case True
    then obtain m where m: "v = VObject m" "group_fits (hf_fields f) m" "fields_fit env [] (hf_fields f) m"
      using fits by (auto simp: item_fits.simps split: val.splits)
    then obtain c where "encode_list env (hf_fields f) m endian 0 0 [] = Inr (c, bs)"
      using enc True by (auto simp: item_bytes_def)
    with groups(1) m len cks obtain c' cks' where "decode_fields env (hf_fields f) bs 0 0 endian [] cks = Inr (c', m, cks')" "all_true cks'"
      unfolding group_returns_def by blast
    with True m show ?thesis by (simp add: item_value_def)
  next
    case flat: False
    show ?thesis
    proof (cases "hf_switch_on f")
      case (Some selector)
      then obtain w fs m where w: "map_of values selector = Some w" "select_case f (scalar_key (env_printable env) w) = Some fs"
        "v = VObject m" "group_fits fs m" "fields_fit env [] fs m"
        using fits flat by (cases v) (auto simp: item_fits.simps split: option.splits)
      then obtain c where "encode_list env fs m endian 0 0 [] = Inr (c, bs)"
        using enc flat Some by (auto simp: item_bytes_def)
      with groups(2) [OF w(2)] w len cks obtain c' cks' where "decode_fields env fs bs 0 0 endian [] cks = Inr (c', m, cks')" "all_true cks'"
        unfolding group_returns_def by blast
      moreover have "map_of d selector = Some w" using agree_refs(4) [OF agree Some] w(1) by simp
      ultimately show ?thesis using flat Some w by (simp add: item_value_def)
    next
      case no_switch: None
      then have "scalar_ok f v" "encode_scalar f v endian = Inr bs"
        using fits enc flat None by (auto simp: item_fits.simps item_bytes_def)
      then have "decode_scalar f bs endian = Inr v" using f by (intro scalar_roundtrip) (auto simp: consecutive_def)
      then show ?thesis using flat no_switch cks by (simp add: item_value_def)
    qed
  qed
qed

lemma check_item_true:
  assumes "item_bytes env f v values endian base at out = Inr bs" and "consecutive f" and "all_true cks"
    and "encode_transform env f bs values = Inr raw"
  shows "\<exists>cks'. check_item f (out @ rest) base at raw endian cks = Inr cks' \<and> all_true cks'"
proof (cases "hf_checksum f")
  case (Some algorithm)
  then have "hf_fields f = []" "hf_switch_on f = None" "hf_transform f = None" using assms(2) by (auto simp: consecutive_def)
  with assms(1,4) Some obtain covered w where w: "checksum_slice f out base at = Inr covered"
    "schema_checksum algorithm covered = Inr w" "integer_bytes w (hf_length f) endian = Inr raw"
    by (auto simp: item_bytes_def encode_transform_def transform_with_def)
  then show ?thesis
    using Some integer_full [OF w(3)] checksum_slice_prefix [OF w(1)] all_true_insert [OF assms(3)] by (simp add: check_item_def)
qed (use assms(3) in \<open>simp add: check_item_def\<close>)

lemma items_return:
  assumes agree: "agree ns d values" "set (field_refs f) \<subseteq> set ns" and f: "consecutive f" and laws: "transforms_invert env"
    and groups: "group_returns env endian (hf_fields f)" "\<And>k fs. select_case f k = Some fs \<Longrightarrow> group_returns env endian fs"
  shows "encode_items env f vs values endian base (length out) out = Inr (at', out') \<Longrightarrow> length out' < 2 ^ 64 \<Longrightarrow>
    (hf_checksum f = None \<longrightarrow> (\<forall>v \<in> set vs. item_fits env f values v)) \<Longrightarrow> all_true cks \<Longrightarrow>
    \<exists>new. out' = out @ new \<and> at' = length out' \<and>
      (\<exists>ds cks'. decode_items env f (length vs) (out' @ rest) base (length out) endian d cks = Inr (ds, at', cks') \<and>
        all_true cks' \<and> (hf_checksum f = None \<longrightarrow> ds = vs))"
proof (induction vs arbitrary: out cks)
  case Nil
  then show ?case by (auto simp: encode_items.simps decode_items.simps)
next
  case (Cons v vs)
  from Cons.prems(1) obtain bs raw where b: "item_bytes env f v values endian base (length out) out = Inr bs"
    "encode_transform env f bs values = Inr raw" "resolve_length_for_encode f values (length raw) = Inr (length raw)"
    "encode_items env f vs values endian base (length (out @ raw)) (out @ raw) = Inr (at', out')"
    by (auto simp: encode_items_Cons write_item_end split: if_splits)
  have prefix: "\<exists>new. out' = (out @ raw) @ new" using Cons.IH [OF b(4) Cons.prems(2) _ Cons.prems(4)] Cons.prems(3) by auto
  then have raw: "length out + length raw < 2 ^ 64" using Cons.prems(2) by auto
  obtain new where new: "out' = out @ raw @ new" using prefix by auto
  have declared: "resolve_declared_length f d = Inr (length raw)"
    using b(3) f agree_refs(2) [OF agree] by (simp add: resolve_length_for_encode_def consecutive_def)
  have it: "item_raw f (out' @ rest) d (length out) = Inr (raw, length out + length raw)"
    using declared f raw by (simp add: item_raw_def resolve_length_def consecutive_def get_range_def new)
  have tr: "decode_transform env f raw d = Inr bs" "length bs < 2 ^ 64"
    using transform_roundtrip [OF laws b(2) agree_refs(3) [OF agree]] raw by auto
  obtain v' cks1 where v': "item_value env f bs d endian cks = Inr (v', cks1)" "all_true cks1" "hf_checksum f = None \<longrightarrow> v' = v"
    using item_returns [OF agree f b(1) tr(2) _ groups(1) _ Cons.prems(4)] groups(2) Cons.prems(3) by auto
  obtain cks2 where c2: "check_item f (out' @ rest) base (length out) raw endian cks1 = Inr cks2" "all_true cks2"
    using check_item_true [OF b(1) f v'(2) b(2), of "raw @ new @ rest"] by (auto simp: new)
  obtain ds cks3 where ds: "at' = length out'"
    "decode_items env f (length vs) (out' @ rest) base (length out + length raw) endian d cks2 = Inr (ds, at', cks3)"
    "all_true cks3" "hf_checksum f = None \<longrightarrow> ds = vs"
    using Cons.IH [OF b(4) Cons.prems(2) _ c2(2)] Cons.prems(3) by auto
  have "apply_enum (env_printable env) f v' = v'" using f by (simp add: apply_enum_def consecutive_def)
  with it tr v' c2 ds new show ?case by (auto simp: decode_items_Suc)
qed

lemma bt_ext: "bt_wf m \<Longrightarrow> bt_wf m' \<Longrightarrow> (\<And>k. map_of m k = map_of m' k) \<Longrightarrow> m = m'"
  using map_of_eq_Some_iff [OF bt_wf_distinct, of m] map_of_eq_Some_iff [OF bt_wf_distinct, of m']
  by (intro bt_eqI) auto

text \<open>The fields that are not checksums come back with the values supplied, the others are untouched.\<close>

definition delivers :: "header_field_spec list \<Rightarrow> val_map \<Rightarrow> val_map \<Rightarrow> val_map \<Rightarrow> bool" where
  "delivers fs values d d' \<longleftrightarrow> bt_wf d' \<and>
     (\<forall>f \<in> set fs. hf_checksum f = None \<longrightarrow> map_of d' (hf_name f) = map_of values (hf_name f)) \<and>
     (\<forall>k. k \<notin> hf_name ` set fs \<longrightarrow> map_of d' k = map_of d k)"

lemma supplied_value:
  assumes "supplied_items env f count values = Inr items" and "length items = count" and "hf_checksum f = None"
    and "resolve_count f values = Inr count"
  shows "map_of values (hf_name f) = Some (decoded_value count items)" and "field_items f values = items"
  using assms
  by (auto simp: supplied_items_def decoded_value_def field_items_def Option.bind_eq_Some_conv elim!: as_array.elims split: if_splits)

lemma fit_names: "fields_fit env ns fs values \<Longrightarrow> g \<in> set fs \<Longrightarrow> hf_name g \<in> set ns \<Longrightarrow> hf_checksum g = None"
  by (induction fs arbitrary: ns) (auto simp: fields_fit.simps split: if_splits)

lemma delivers_Cons:
  assumes del: "delivers fs values (bt_insert (hf_name f) v d) d'" and fit: "fields_fit env ns fs values"
    and f: "hf_checksum f = None \<Longrightarrow> map_of values (hf_name f) = Some v \<and> hf_name f \<in> set ns"
  shows "delivers (f # fs) values d d'"
proof -
  have "map_of d' (hf_name f) = map_of values (hf_name f)" if none: "hf_checksum f = None"
  proof (cases "hf_name f \<in> hf_name ` set fs")
    case True
    then obtain g where "g \<in> set fs" "hf_name g = hf_name f" by auto
    with del fit_names [OF fit] f none show ?thesis by (metis delivers_def)
  next
    case False
    with del f [OF none] show ?thesis by (simp add: delivers_def map_of_bt_insert)
  qed
  with del show ?thesis by (auto simp: delivers_def map_of_bt_insert)
qed

lemma group_returnsI:
  assumes "\<And>m c bs cks. encode_list env fs m endian 0 (length []) [] = Inr (c, bs) \<Longrightarrow> length bs < 2 ^ 64 \<Longrightarrow>
      fields_fit env [] fs m \<Longrightarrow> agree [] [] m \<Longrightarrow> bt_wf [] \<Longrightarrow> all_true cks \<Longrightarrow>
      \<exists>new. bs = [] @ new \<and> c = length bs \<and>
        (\<exists>d' cks'. decode_fields env fs (bs @ []) 0 (length []) endian [] cks = Inr (c, d', cks') \<and> all_true cks' \<and> delivers fs m [] d')"
  shows "group_returns env endian fs"
  unfolding group_returns_def
proof (intro allI impI)
  fix m c bs cks
  assume "encode_list env fs m endian 0 0 [] = Inr (c, bs)" "length bs < 2 ^ 64" and g: "group_fits fs m"
    and "fields_fit env [] fs m" "all_true cks"
  with assms [of m c bs cks] obtain d' cks' where d': "decode_fields env fs bs 0 0 endian [] cks = Inr (c, d', cks')"
    "all_true cks'" "delivers fs m [] d'" by (auto simp: agree_def)
  have "d' = m"
  proof (rule bt_ext)
    show "bt_wf d'" "bt_wf m" using d'(3) g by (auto simp: delivers_def group_fits_def)
    fix k
    show "map_of d' k = map_of m k"
    proof (cases "k \<in> hf_name ` set fs")
      case True
      with d'(3) g show ?thesis by (auto simp: delivers_def group_fits_def list_all_iff)
    next
      case False
      with d'(3) g have "map_of d' k = None" "k \<notin> fst ` set m" by (auto simp: delivers_def group_fits_def)
      then show ?thesis by (metis map_of_eq_None_iff)
    qed
  qed
  with d' show "\<exists>c' cks'. decode_fields env fs bs 0 0 endian [] cks = Inr (c', m, cks') \<and> all_true cks'" by blast
qed

lemma write_item_grows: "length out \<le> length (write_item f out at raw)"
  by (auto simp: write_item_def Let_def or_bytes_def)

lemma encode_items_grows: "encode_items env f vs values endian base at out = Inr (at', out') \<Longrightarrow> length out \<le> length out'"
proof (induction vs arbitrary: at out)
  case (Cons v vs)
  then obtain k raw where "encode_items env f vs values endian base k (write_item f out at raw) = Inr (at', out')"
    by (auto simp: encode_items_Cons split: if_splits)
  with Cons.IH write_item_grows [of out f at raw] show ?case by (meson order_trans)
qed (simp add: encode_items.simps)

lemma encode_list_grows: "encode_list env fs values endian base cursor out = Inr (c', out') \<Longrightarrow> length out \<le> length out'"
proof (induction fs arbitrary: cursor out)
  case (Cons f fs)
  obtain present where p: "predicate (hf_when f) values = Inr present" using Cons.prems by (auto simp: encode_list.simps)
  show ?case
  proof (cases present)
    case True
    define start where "start = (if hf_offset_explicit f then base + hf_offset f else cursor)"
    define out1 where "out1 = (if length out < start then vec_resize start out else out)"
    from True p Cons.prems obtain items at out2 where "encode_items env f items values endian base start out1 = Inr (at, out2)"
      "encode_list env fs values endian base (max cursor at) out2 = Inr (c', out')"
      by (auto simp: encode_list.simps Let_def start_def [symmetric] simp del: if_split split: if_split_asm)
        (auto simp: out1_def)
    moreover have "length out \<le> length out1" by (simp add: out1_def)
    ultimately show ?thesis using Cons.IH encode_items_grows by (meson order_trans)
  next
    case False
    with p Cons show ?thesis by (simp add: encode_list.simps)
  qed
qed (simp add: encode_list.simps)

lemma fields_return:
  assumes laws: "transforms_invert env"
  shows "encode_list env fs values endian base (length out) out = Inr (c', out') \<Longrightarrow> length out' < 2 ^ 64 \<Longrightarrow>
    fields_fit env ns fs values \<Longrightarrow> agree ns d values \<Longrightarrow> bt_wf d \<Longrightarrow> all_true cks \<Longrightarrow>
    \<exists>new. out' = out @ new \<and> c' = length out' \<and>
      (\<exists>d' cks'. decode_fields env fs (out' @ rest) base (length out) endian d cks = Inr (c', d', cks') \<and>
        all_true cks' \<and> delivers fs values d d')"
proof (induction "size_list size fs" arbitrary: fs "values" base out c' out' ns d cks rest rule: less_induct)
  case less
  show ?case
  proof (cases fs)
    case Nil
    with less.prems show ?thesis by (auto simp: encode_list.simps decode_fields.simps delivers_def)
  next
    case (Cons f gs)
    have sizes: "size_list size gs < size_list size fs" "size_list size (hf_fields f) < size_list size fs"
      "\<And>k hs. select_case f k = Some hs \<Longrightarrow> size_list size hs < size_list size fs"
      using size_list_fields [of f] by (simp_all add: Cons less_Suc_eq_le) (auto dest!: size_select_case)
    have fit: "consecutive f" "set (field_refs f) \<subseteq> set ns" "\<And>n. resolve_count f values = Inr n \<Longrightarrow> n \<le> vec_limit env"
      using less.prems(3) by (auto simp: Cons fields_fit.simps)
    have c: "hf_when f = None" "\<not> hf_offset_explicit f" using fit(1) by (auto simp: consecutive_def)
    from less.prems(1) obtain count items at out2 where e: "resolve_count f values = Inr count"
      "supplied_items env f count values = Inr items" "length items = count"
      "encode_items env f items values endian base (length out) out = Inr (at, out2)"
      "encode_list env gs values endian base (max (length out) at) out2 = Inr (c', out')"
      using c by (auto simp: Cons encode_list.simps predicate_def Let_def split: if_splits)
    have groups: "group_returns env endian hs" if "size_list size hs < size_list size fs" for hs
      by (rule group_returnsI) (rule less.hyps [OF that]; assumption)
    have items: "hf_checksum f = None \<longrightarrow> (\<forall>v \<in> set items. item_fits env f values v)"
      using less.prems(3) supplied_value(2) [OF e(2,3) _ e(1)] by (auto simp: Cons fields_fit.simps)
    have out2: "length out2 < 2 ^ 64" using encode_list_grows [OF e(5)] less.prems(2) by simp
    have its: "\<exists>new. out2 = out @ new \<and> at = length out2 \<and>
        (\<exists>ds cks'. decode_items env f (length items) (out2 @ more) base (length out) endian d cks = Inr (ds, at, cks') \<and>
          all_true cks' \<and> (hf_checksum f = None \<longrightarrow> ds = items))" for more
      by (rule items_return [OF less.prems(4) fit(2,1) laws _ _ e(4) out2 items less.prems(6)]) (use groups sizes in auto)
    then obtain new where new: "out2 = out @ new" "at = length out2" by auto
    define ms where "ms = (if hf_checksum f = None then hf_name f # ns else ns)"
    have gs: "fields_fit env ms gs values" using less.prems(3) by (auto simp: Cons fields_fit.simps ms_def split: if_splits)
    have e5: "encode_list env gs values endian base (length out2) out2 = Inr (c', out')" using e(5) by (simp add: new max_def)
    have ag: "agree ms (bt_insert (hf_name f) v d) values" if "hf_checksum f = None \<Longrightarrow> map_of values (hf_name f) = Some v" for v
      using less.prems(3,4) that by (auto simp: agree_def ms_def map_of_bt_insert Cons fields_fit.simps)
    note IH = less.hyps [OF sizes(1) e5 less.prems(2) gs ag bt_wf_insert [OF less.prems(5)]]
    obtain new' where new': "out' = out2 @ new'"
      using IH [of "decoded_value count items" cks rest] supplied_value(1) [OF e(2,3) _ e(1)] less.prems(6) by auto
    obtain ds cks1 where ds: "decode_items env f count (out' @ rest) base (length out) endian d cks = Inr (ds, at, cks1)"
      "all_true cks1" "hf_checksum f = None \<longrightarrow> ds = items"
      using its [of "new' @ rest"] e(3) by (auto simp: new')
    define d1 where "d1 = bt_insert (hf_name f) (decoded_value count ds) d"
    have none: "map_of values (hf_name f) = Some (decoded_value count ds) \<and> hf_name f \<in> set ms" if "hf_checksum f = None"
      using supplied_value(1) [OF e(2,3) that e(1)] ds(3) that by (simp add: ms_def)
    obtain d' cks' where d': "decode_fields env gs (out' @ rest) base (length out2) endian d1 cks1 = Inr (c', d', cks')"
      "all_true cks'" "delivers gs values d1 d'" "c' = length out'"
      using IH [OF _ ds(2), of "decoded_value count ds" rest] none by (auto simp: d1_def)
    have "delivers fs values d d'"
      unfolding Cons by (rule delivers_Cons [OF d'(3) [unfolded d1_def] gs none])
    moreover have "resolve_count f d = Inr count" using agree_refs(1) [OF less.prems(4) fit(2)] e(1) by simp
    then have "decode_fields env fs (out' @ rest) base (length out) endian d cks = Inr (c', d', cks')"
      using c ds(1) d'(1) fit(3) [OF e(1)]
      by (simp add: Cons decode_fields.simps predicate_def field_start_def new max_def d1_def [symmetric])
    ultimately show ?thesis using d' new new' by auto
  qed
qed

lemma lookup_without: "map_of (fold (\<lambda>(k, _). bt_remove k) ctx m) j = (if j \<in> fst ` set ctx then None else map_of m j)"
  by (induction ctx arbitrary: m) (auto simp: bt_remove_def map_of_filter_key)

text \<open>
  C23: what is encoded with a schema of consecutive fields is decoded again: on the encoded
  bytes, whatever follows them, decoding succeeds, consumes exactly these bytes and reports
  the rest as unknown, finds every checksum valid, and returns for every field that is not a
  checksum the value supplied, through references, repetition, nested groups, cases and
  transforms. Keys and nonces are passed as context. The schema has no explicit offsets, no
  \<open>when\<close>, no terminators and no enumerations (which decode to an object); checksums are unsigned
  numbers of the schema itself, not of a nested group; a field refers to the context or to fields
  before it only, and counts are within what a vector can hold. The values are in the form that
  decoding returns: integers below \<open>2^53\<close> in magnitude, hexadecimal in lower case, IPv4
  addresses in dotted decimal, UTF-8 text, and an object with exactly the fields of its group.
  Compression and encryption are parameters that invert each other.
\<close>

theorem schema_roundtrip:
  assumes "transforms_invert env" and "encode_schema env schema values = Inr wire" and "length wire < 2 ^ 64"
    and "bt_wf context" and "agree (map fst context) context values"
    and "fields_fit env (map fst context) (hs_fields schema) values"
  shows "\<exists>d. decode_schema_with_context env schema (wire @ rest) context = Inr d \<and>
    ds_consumed d = length wire \<and> ds_unknown d = rest \<and> all_true (ds_checksum_valid d) \<and>
    (\<forall>f \<in> set (hs_fields schema). hf_checksum f = None \<and> hf_name f \<notin> set (map fst context) \<longrightarrow>
       map_of (ds_fields d) (hf_name f) = map_of values (hf_name f))"
proof -
  let ?out = "replicate (hs_offset schema) 0 :: bytes"
  from assms(2) obtain c where "encode_list env (hs_fields schema) values (hs_endian schema) (hs_offset schema) (length ?out) ?out = Inr (c, wire)"
    by (auto simp: encode_schema_def encode_fields_def)
  from fields_return [OF assms(1) this assms(3,6,5,4), of "[]" rest]
  obtain new d' cks' where w: "wire = ?out @ new" "c = length wire"
    "decode_fields env (hs_fields schema) (wire @ rest) (hs_offset schema) (hs_offset schema) (hs_endian schema) context [] = Inr (c, d', cks')"
    "all_true cks'" "delivers (hs_fields schema) values context d'"
    by (auto simp: all_true_def)
  then show ?thesis
    by (auto simp: decode_schema_with_context_def lookup_without delivers_def)
qed

subsection \<open>An example message\<close>

definition plain_spec :: "string \<Rightarrow> string \<Rightarrow> nat \<Rightarrow> string option \<Rightarrow> string option \<Rightarrow> header_field_spec" where
  "plain_spec name format n length_from check =
     HeaderFieldSpec name 0 0 False n length_from 0 1 None None None 0 (of_nat (8 * n)) format [] [] None [] None None None check None"

definition sample_schema :: header_schema where
  "sample_schema = \<lparr>hs_name = ''m'', hs_offset = 0, hs_endian = ''big'',
     hs_fields = [plain_spec ''n'' ''uint'' 1 None None, plain_spec ''text'' ''ascii'' 1 (Some ''n'') None,
       plain_spec ''crc'' ''uint'' 2 None (Some ''crc16'')]\<rparr>"

definition sample_env :: schema_env where
  "sample_env = \<lparr>zlib_compress = \<lambda>b. if length b < 2 ^ 64 then Some b else None, zlib_decompress = Some,
     aes_encrypt = \<lambda>k n b. if length b < 2 ^ 64 then Some (rev b) else None, aes_decrypt = \<lambda>k n b. Some (rev b),
     value_size = 32, env_printable = \<lambda>_. True\<rparr>"

definition sample_values :: val_map where
  "sample_values = [(''n'', VNumber (f64_of_int 2)), (''text'', VString ''hi'')]"

lemma sample_u64: "as_u64 (VNumber (f64_of_int 2)) = Some 2"
  using as_u64_exact [of 2] by simp

lemma sample_crc: "schema_checksum ''crc16'' [2, 104, 105] = Inr 56816"
  by code_simp

lemma sample_encodes: "encode_schema sample_env sample_schema sample_values = Inr [2, 104, 105, 221, 240]"
  unfolding encode_schema_def encode_fields_def sample_schema_def sample_values_def sample_env_def plain_spec_def
  by (simp add: encode_list.simps encode_items.simps predicate_def resolve_count_def supplied_items_def encode_scalar_def
      reverse_enum_def encode_uint_def shift_left_def low_mask_def integer_bytes_def encode_transform_def transform_with_def
      resolve_length_for_encode_def resolve_declared_length_def reference_usize_def write_item_def vec_resize_def or_bytes_def
      is_ascii_def checksum_slice_def get_range_def Let_def be_bytes_numeral bytes_of_def byte_of_def vec_limit_def
      sample_u64 sample_crc [unfolded One_nat_def] del: as_u64.simps)

lemma sample_laws: "transforms_invert sample_env"
  by (auto simp: transforms_invert_def sample_env_def split: if_splits)

lemma sample_number: "\<exists>n < 9007199254740992. f64_of_int 2 = f64_of_int (int n)"
  by (rule exI [of _ 2]) simp

lemma sample_fits: "fields_fit sample_env [] (hs_fields sample_schema) sample_values"
  using sample_number
  by (simp add: sample_schema_def plain_spec_def sample_values_def fields_fit.simps item_fits.simps consecutive_def
      field_checked_def field_refs_def resolve_count_def sample_env_def vec_limit_def field_items_def scalar_ok_def)

lemma schema_roundtrip_witness:
  "\<exists>d. decode_schema_with_context sample_env sample_schema ([2, 104, 105, 221, 240] @ [7]) [] = Inr d \<and>
     ds_consumed d = 5 \<and> ds_unknown d = [7] \<and> map_of (ds_fields d) ''text'' = Some (VString ''hi'')"
proof -
  have "plain_spec ''text'' ''ascii'' 1 (Some ''n'') None \<in> set (hs_fields sample_schema)" by (simp add: sample_schema_def)
  with schema_roundtrip [OF sample_laws sample_encodes, of "[]" "[7]"] sample_fits show ?thesis
    by (fastforce simp: agree_def plain_spec_def sample_values_def)
qed

end
