(* ===== verification/Schema_Safe.thy ===== *)
theory Schema_Safe
  imports Schema_Correct
begin

text \<open>
  When decoding with a schema cannot panic.
\<close>

subsection \<open>Safe schemas\<close>

lemma size_nested: "g \<in> set (hf_fields f) \<Longrightarrow> size g < size f"
proof -
  assume "g \<in> set (hf_fields f)"
  then have "size g \<le> size_list size (hf_fields f)" by (intro size_list_estimation') auto
  also have "\<dots> < size f" by (cases f) simp
  finally show ?thesis .
qed

lemma size_in_case: "c \<in> set (hf_cases f) \<Longrightarrow> g \<in> set (snd c) \<Longrightarrow> size g < size f"
proof -
  assume c: "c \<in> set (hf_cases f)" "g \<in> set (snd c)"
  have "size_list size (snd c) \<le> size_prod (\<lambda>x. 0) (size_list size) c" by (cases c) simp
  moreover have "size g \<le> size_list size (snd c)" using c(2) by (intro size_list_estimation') auto
  moreover have "size_prod (\<lambda>x. 0) (size_list size) c \<le> size_list (size_prod (\<lambda>x. 0) (size_list size)) (hf_cases f)"
    using c(1) by (intro size_list_estimation') auto
  moreover have "size_list (size_prod (\<lambda>x. 0) (size_list size)) (hf_cases f) < size f" by (cases f) simp
  ultimately show ?thesis by simp
qed

text \<open>
  The conditions on one field, at a base position: a terminator is not empty and not combined
  with a transform, the bits are within 64, the number of repetitions is fixed and within the
  capacity, and an explicit checksum range is used at position 0 only.
\<close>

definition safe_spec :: "schema_env \<Rightarrow> nat \<Rightarrow> header_field_spec \<Rightarrow> bool" where
  "safe_spec env base f \<longleftrightarrow>
     hf_terminator f \<noteq> Some [] \<and> (hf_terminator f \<noteq> None \<longrightarrow> hf_transform f = None) \<and>
     unat (hf_bit_offset f) < 64 \<and> hf_repeat_from f = None \<and> hf_repeat f \<le> vec_limit env \<and>
     (hf_checksum f \<noteq> None \<longrightarrow> base = 0 \<or> unwrap_or ''all_before'' (hf_checksum_range f) = ''all_before'')"

function safe_field :: "schema_env \<Rightarrow> nat \<Rightarrow> header_field_spec \<Rightarrow> bool" where
  "safe_field env base f \<longleftrightarrow> safe_spec env base f \<and>
     (\<forall>g \<in> set (hf_fields f). safe_field env 0 g) \<and>
     (\<forall>c \<in> set (hf_cases f). \<forall>g \<in> set (snd c). safe_field env 0 g)"
  by pat_completeness auto
termination
  by (relation "measure (\<lambda>(_, _, f). size f)") (auto simp: size_nested intro: size_in_case)

declare safe_field.simps [simp del]

lemma safe_case: "safe_field env base f \<Longrightarrow> select_case f k = Some fs \<Longrightarrow> \<forall>g \<in> set fs. safe_field env 0 g"
proof -
  assume f: "safe_field env base f" and "select_case f k = Some fs"
  then obtain j where "(j, fs) \<in> set (hf_cases f)"
    unfolding select_case_def by (cases "map_of (hf_cases f) k") (auto dest: map_of_SomeD)
  with f show ?thesis by (subst (asm) safe_field.simps) force
qed

subsection \<open>No panic\<close>

lemma hex_res_no_panic [panic_intros]: "no_panic (hex_res (parse_hex s))"
  using parse_hex_no_panic [of s] by (cases "parse_hex s" rule: hex_res.cases) (auto simp: no_panic_def)

lemma predicate_no_panic [panic_intros]: "no_panic (predicate c values)"
  by (auto simp: predicate_def compare_condition_def as_condition_def intro!: panic_intros split: option.split)

lemma reference_no_panic [panic_intros]: "no_panic (reference_usize values name kind)"
  by (simp add: reference_usize_def)

lemma field_start_no_panic [panic_intros]: "no_panic (field_start f base cursor)"
  by (simp add: field_start_def)

lemma transform_no_panic [panic_intros]: "no_panic (decode_transform env f bs values)"
proof -
  have "no_panic (material f values r n kind)" for r n kind
    unfolding material_def by (intro panic_intros) (auto intro!: panic_intros split: val.split)
  then have "no_panic (encryption_material f values)" unfolding encryption_material_def by (intro panic_intros) auto
  then show ?thesis
    unfolding decode_transform_def transform_with_def by (auto intro!: panic_intros split: option.split)
qed

lemma item_raw_no_panic: "hf_terminator f \<noteq> Some [] \<Longrightarrow> no_panic (item_raw f input values at)"
  unfolding item_raw_def resolve_length_def resolve_declared_length_def
  by (auto simp: Let_def intro!: panic_intros split: option.split)

lemma item_raw_terminated:
  "item_raw f input values at = Inr (raw, e) \<Longrightarrow> hf_terminator f = Some t \<Longrightarrow> length t \<le> length raw"
  by (auto simp: item_raw_def resolve_length_def get_range_def split: if_splits)

lemma decode_scalar_no_panic:
  "(\<And>t. hf_terminator f = Some t \<Longrightarrow> length t \<le> length bs) \<Longrightarrow> unat (hf_bit_offset f) < 64 \<Longrightarrow> no_panic (decode_scalar f bs endian)"
proof -
  assume t: "\<And>t. hf_terminator f = Some t \<Longrightarrow> length t \<le> length bs" and b: "unat (hf_bit_offset f) < 64"
  have "no_panic (integer_from_bytes payload endian (unat (hf_bit_offset f)) bits)" for payload bits
    using b by (simp add: integer_from_bytes_def Let_def)
  then show ?thesis
    unfolding decode_scalar_def Let_def using t by (intro panic_intros) (auto intro!: panic_intros split: option.split)
qed

lemma check_item_no_panic: "safe_spec env base f \<Longrightarrow> no_panic (check_item f input base at raw endian cks)"
proof -
  assume f: "safe_spec env base f"
  have bound: "parse_usize s = Some n \<Longrightarrow> \<not> 2 ^ 64 \<le> n" for s n by (auto simp: parse_usize_def Let_def split: if_splits)
  have "hf_checksum f \<noteq> None \<Longrightarrow> no_panic (checksum_slice f input base at)"
    using f unfolding checksum_slice_def safe_spec_def Let_def
    by (auto intro!: panic_intros dest!: bound split: prod.split)
  then show ?thesis
    unfolding check_item_def by (auto simp: integer_from_bytes_def schema_checksum_def Let_def intro!: panic_intros split: option.split)
qed

lemma decode_no_panic:
  "(\<forall>f \<in> set fs. safe_field env base f) \<Longrightarrow> no_panic (decode_fields env fs input base cursor endian values cks)"
  "safe_field env base f \<Longrightarrow> no_panic (decode_items env f n input base at endian values cks)"
proof (induction env fs input base cursor endian "values" cks and env f n input base at endian "values" cks
    rule: decode_fields_decode_items.induct)
  case (1 env input base cursor endian vals cks)
  then show ?case by (simp add: decode_fields.simps)
next
  case (2 env f fs input base cursor endian vals cks)
  have f: "safe_field env base f" "safe_spec env base f" using 2(4) by (auto simp: safe_field.simps [of env base f])
  have "resolve_count f vals = Inr (hf_repeat f)" "hf_repeat f \<le> vec_limit env"
    using f(2) by (auto simp: resolve_count_def safe_spec_def)
  then show ?case
    unfolding decode_fields.simps using 2 f by (auto intro!: panic_intros)
next
  case (3 env f input base at endian vals cks)
  then show ?case by (simp add: decode_items.simps)
next
  case (4 env f n input base at endian vals cks)
  have f: "safe_spec env base f" "\<forall>g \<in> set (hf_fields f). safe_field env 0 g" using "4.prems" by (auto simp: safe_field.simps [of env base f])
  have nested: "no_panic (decode_fields env (hf_fields f) bs 0 0 endian [] cks)" if "hf_fields f \<noteq> []" for bs
    using "4.IH"(1) that f(2) by blast
  have selected: "no_panic (decode_fields env fs bs 0 0 endian [] cks)"
    if "hf_fields f = []" "hf_switch_on f = Some sel" "select_case f (scalar_key (env_printable env) v) = Some fs" for bs sel v fs
    using "4.IH"(2) that safe_case [OF "4.prems" that(3)] by blast
  have item: "no_panic (item_value env f bs vals endian cks)"
    if "\<And>t. hf_terminator f = Some t \<Longrightarrow> length t \<le> length bs" for bs
    unfolding item_value_def using nested selected decode_scalar_no_panic [OF that] f(1)
    by (auto simp: safe_spec_def intro!: panic_intros split: option.split)
  have same: "length t \<le> length bs" if "item_raw f input vals at = Inr (raw, e)" "hf_terminator f = Some t"
    "decode_transform env f raw vals = Inr bs" for raw e t bs
    using item_raw_terminated [OF that(1,2)] that(2,3) f(1) by (simp add: decode_transform_def transform_with_def safe_spec_def)
  have "no_panic (item_raw f input vals at)" using f(1) by (intro item_raw_no_panic) (simp add: safe_spec_def)
  then show ?case
    unfolding decode_items_Suc using item same check_item_no_panic [OF f(1)] "4.IH"(3) "4.prems"
    by (auto intro!: panic_intros)
qed

subsection \<open>Properties\<close>

text \<open>
  Decoding never panics with a schema whose fields are safe, whatever the bytes and the
  context: every length, count, condition and reference that does not fit the input is an
  error value.
\<close>

theorem decode_schema_safe:
  assumes "\<forall>f \<in> set (hs_fields schema). safe_field env (hs_offset schema) f"
  shows "no_panic (decode_schema_with_context env schema bs context)"
  unfolding decode_schema_with_context_def
  using decode_no_panic(1) [OF assms] by (auto intro!: panic_intros)

lemma safe_leaf: "hf_fields f = [] \<Longrightarrow> hf_cases f = [] \<Longrightarrow> safe_field env base f = safe_spec env base f"
  by (subst safe_field.simps) simp

end
