(* ===== verification/Interpret_Correct.thy ===== *)
theory Interpret_Correct
  imports Interpret Schema_Safe
begin

text \<open>
  What interpretation guarantees of a model it accepts: numbers are in their ranges, the
  sections of a step fit its action, names are unique and references resolve. And it answers:
  the only panic is the multiplication in the bit range of an absurdly long header field.
\<close>

subsection \<open>Attributes\<close>

lemma merror_simps [simp]: "merror msg \<noteq> Inr x" "no_panic (merror msg)" "ensures P (merror msg)"
  by (simp_all add: merror_def ensures_Inl)

lemma type_error_simps [simp]:
  "type_error env c k e v \<noteq> Inr x" "no_panic (type_error env c k e v)" "ensures P (type_error env c k e v)"
  by (simp_all add: type_error_def)

lemma guard_m_Inr [simp]: "guard_m ok msg = Inr x \<longleftrightarrow> ok"
  by (simp add: guard_m_def)

lemma guard_m_no_panic [panic_intros]: "no_panic (guard_m ok msg)"
  by (simp add: guard_m_def)

lemma typed_attr_no_panic [panic_intros]: "no_panic (typed_attr env a c k e f)"
  by (simp add: typed_attr_def split: option.split)

lemma typed_attr_Inr: "typed_attr env a c k e f = Inr v \<Longrightarrow> v = Option.bind (map_of a k) f"
  by (auto simp: typed_attr_def split: option.splits)

lemma optional_usize_pos: "optional_usize env a c k d = Inr n \<Longrightarrow> 0 < d \<Longrightarrow> 0 < n"
proof -
  assume "optional_usize env a c k d = Inr n" and d: "0 < d"
  then obtain v where n: "n = unwrap_or d v"
    and v: "v = Option.bind (map_of a k) (\<lambda>v. Option.bind (as_u64 v) (\<lambda>n. if n > 0 then Some n else None))"
    by (auto simp: optional_usize_def dest!: typed_attr_Inr)
  show "0 < n"
  proof (cases v)
    case (Some m)
    then have "0 < m" using v by (auto simp: bind_eq_Some_conv split: if_splits)
    then show ?thesis by (simp add: n Some)
  qed (use d in \<open>simp add: n\<close>)
qed

lemma optional_probability_unit: "optional_probability env a c k = Inr x \<Longrightarrow> unit_interval x"
  by (auto simp: optional_probability_def Let_def split: if_splits)

lemma optional_no_panic [panic_intros]:
  "no_panic (optional_u32 env a c k d)" "no_panic (optional_u64 env a c k n)" "no_panic (optional_optional_u64 env a c k)"
  "no_panic (optional_optional_i64 env a c k)" "no_panic (optional_string env a c k)" "no_panic (optional_string_array env a c k)"
  "no_panic (optional_bool env a c k b)" "no_panic (optional_usize env a c k m)" "no_panic (optional_f64 env a c k x)"
  "no_panic (optional_probability env a c k)" "no_panic (object_attr env a c k)"
  unfolding optional_u32_def optional_u64_def optional_optional_u64_def optional_optional_i64_def optional_string_def
    optional_string_array_def optional_bool_def optional_usize_def optional_f64_def optional_probability_def object_attr_def Let_def
  by (intro panic_intros; simp)+

lemma parse_duration_no_panic [panic_intros]: "no_panic (parse_duration_ms s)"
  by (simp add: parse_duration_ms_def Let_def split: option.split)

lemma optional_duration_no_panic [panic_intros]: "no_panic (optional_duration env a c k d)"
  unfolding optional_duration_def by (intro panic_intros)

lemma validate_no_panic [panic_intros]:
  "no_panic (validate_attributes b allowed)" "no_panic (validate_children b ok c)" "no_panic (ensure_single_child b n c)"
  unfolding validate_attributes_def validate_children_def ensure_single_child_def
  by (intro panic_intros; simp)+

lemma one_label_no_panic [panic_intros]: "no_panic (one_label b m1 m2)"
  by (auto simp: one_label_def split: list.splits)

lemma transpose_map_no_panic [panic_intros]: "(\<And>x. v = Some x \<Longrightarrow> no_panic (f x)) \<Longrightarrow> no_panic (transpose_map f v)"
  by (auto simp: transpose_map_def intro!: panic_intros split: option.split)

lemma transpose_map_ensures: "(\<And>x. v = Some x \<Longrightarrow> ensures P (f x)) \<Longrightarrow> ensures (\<lambda>y. \<forall>z \<in> set_option y. P z) (transpose_map f v)"
  by (auto simp: transpose_map_def ensures_def split: option.splits)

lemma map_err_panic [panic_intros]: "no_panic r \<Longrightarrow> no_panic (map_err f r)"
  by simp

lemmas [panic_intros] = parse_hex_no_panic

subsection \<open>Limits, policies, transport\<close>

definition limits_wf :: "resource_limits \<Rightarrow> bool" where
  "limits_wf l \<longleftrightarrow> 0 < rl_max_inbox l \<and> 0 < rl_max_trace l \<and> 0 < rl_max_payload l"

lemma interpret_limits_ok: "no_panic (interpret_limits env b)" "ensures limits_wf (interpret_limits env b)"
proof -
  show "no_panic (interpret_limits env b)" unfolding interpret_limits_def Let_def by (intro panic_intros)
  show "ensures limits_wf (interpret_limits env b)"
    unfolding interpret_limits_def Let_def
    by (intro ensures_intros) (auto simp: limits_wf_def default_resource_limits_def elim!: optional_usize_pos)
qed

definition policy_wf :: "retry_policy \<Rightarrow> bool" where
  "policy_wf p \<longleftrightarrow> f64_le f64_one (rp_backoff p) \<and> unit_interval (rp_jitter p) \<and> set (rp_retry_on p) \<subseteq> set failure_names"

definition transport_wf :: "transport_config \<Rightarrow> bool" where
  "transport_wf t \<longleftrightarrow>
     unit_interval (tc_loss_rate t) \<and> unit_interval (tc_duplicate_rate t) \<and> unit_interval (tc_corrupt_rate t) \<and>
     (tc_bandwidth_after_nth t = 0) = (tc_bandwidth_after_bps t = 0) \<and> (tc_delay_spike_nth t = 0) = (tc_delay_spike_ms t = 0) \<and>
     (tc_mtu_blackhole t \<longrightarrow> 0 < tc_mtu t)"

lemma interpret_fault_predicate_no_panic [panic_intros]: "no_panic (interpret_fault_predicate env b)"
  unfolding interpret_fault_predicate_def by (intro panic_intros) (auto intro!: panic_intros)

lemma interpret_transport_ok: "no_panic (interpret_transport_config env b)" "ensures transport_wf (interpret_transport_config env b)"
proof -
  show "no_panic (interpret_transport_config env b)" unfolding interpret_transport_config_def Let_def by (intro panic_intros)
  show "ensures transport_wf (interpret_transport_config env b)"
    unfolding interpret_transport_config_def Let_def
    by (intro ensures_intros) (auto simp: transport_wf_def elim!: optional_probability_unit)
qed

lemma interpret_policy_ok: "no_panic (interpret_retry_policy env a c)" "ensures policy_wf (interpret_retry_policy env a c)"
proof -
  show "no_panic (interpret_retry_policy env a c)" unfolding interpret_retry_policy_def Let_def
    by (intro panic_intros) simp
  show "ensures policy_wf (interpret_retry_policy env a c)"
    unfolding interpret_retry_policy_def Let_def
    by (intro ensures_intros) (auto simp: policy_wf_def find_None_iff split: option.splits)
qed

subsection \<open>Sections\<close>

definition expect_wf :: "expect \<Rightarrow> bool" where
  "expect_wf e \<longleftrightarrow> ex_hex_contains e \<noteq> Some [] \<and> (\<forall>kv \<in> set (ex_fields e). field_match_wf (snd kv))"

lemma field_matches_ok:
  "no_panic (interpret_field_matches re m)" "ensures (\<lambda>out. \<forall>kv \<in> set out. field_match_wf (snd kv)) (interpret_field_matches re m)"
proof (induction m)
  case (Cons kv m)
  obtain k v where kv: "kv = (k, v)" by (cases kv)
  {
    case 1
    show ?case unfolding kv interpret_field_matches.simps by (intro panic_intros interpret_field_match_ok Cons)
  next
    case 2
    show ?case unfolding kv interpret_field_matches.simps
    proof (intro ensures_intros)
      fix fm out assume fm: "interpret_field_match re v = Inr fm" and out: "interpret_field_matches re m = Inr out"
      have "field_match_wf fm" "\<forall>kv \<in> set out. field_match_wf (snd kv)"
        using ensuresD [OF interpret_field_match_ok(1) fm] ensuresD [OF Cons(2) out] by auto
      then show "\<forall>kv \<in> set (bt_insert k fm out). field_match_wf (snd kv)"
        using set_bt_insert_subset [of k fm out] by auto
    qed
  }
qed (simp_all add: ensures_Inr)

lemma hex_attr_no_panic [panic_intros]: "no_panic (hex_attr env a k)"
  unfolding hex_attr_def by (intro panic_intros)

lemma interpret_expect_ok: "no_panic (interpret_expect env a)" "ensures (\<lambda>e. expect_wf e \<and> ex_capture e = []) (interpret_expect env a)"
proof -
  show "no_panic (interpret_expect env a)" unfolding interpret_expect_def
    by (intro panic_intros field_matches_ok)
  show "ensures (\<lambda>e. expect_wf e \<and> ex_capture e = []) (interpret_expect env a)"
    unfolding interpret_expect_def
    by (intro ensures_intros) (auto simp: expect_wf_def dest!: ensuresD [OF field_matches_ok(2)])
qed

lemma field_values_no_panic [panic_intros]: "no_panic (interpret_field_values m)"
proof -
  have "no_panic (interpret_field_value k v)" for k v
    unfolding interpret_field_value_def by (cases v) (auto intro!: panic_intros)
  then show ?thesis unfolding interpret_field_values_def by (intro panic_intros) (auto intro!: panic_intros)
qed

lemma interpret_segment_no_panic [panic_intros]: "no_panic (interpret_segment env a)"
  unfolding interpret_segment_def by (intro panic_intros)

lemma interpret_timer_no_panic [panic_intros]: "no_panic (interpret_timer env a)"
  unfolding interpret_timer_def by (intro panic_intros)

lemma section_attrs_no_panic [panic_intros]: "no_panic (section_attrs env b n)"
  unfolding section_attrs_def by (intro panic_intros)

lemma capture_no_panic [panic_intros]: "no_panic (extract_capture env b)"
proof -
  have "no_panic (capture_names env m)" for m
    unfolding capture_names_def by (intro panic_intros) (auto split: option.split)
  then show ?thesis unfolding extract_capture_def by (intro panic_intros)
qed

lemma plugin_no_panic [panic_intros]: "no_panic (interpret_plugin_spec env b)"
proof -
  have "no_panic (required_text env a c k)" for a c k
    unfolding required_text_def by (intro panic_intros) simp_all
  then show ?thesis unfolding interpret_plugin_spec_def by (intro panic_intros)
qed

definition raw_wf :: "raw_packet_spec \<Rightarrow> bool" where
  "raw_wf r \<longleftrightarrow> (raw_ipv4 r \<noteq> None) \<noteq> (raw_ipv6 r \<noteq> None) \<and> (raw_tcp r = None \<or> raw_udp r = None) \<and>
     (\<forall>n \<in> set_option (raw_mtu r). (if raw_ipv6 r \<noteq> None then 1280 else 68) \<le> n)"

lemma raw_headers_no_panic [panic_intros]: "no_panic (validate_raw_headers b hs)"
  by (induction b hs rule: validate_raw_headers.induct) (auto intro!: panic_intros)

lemma raw_packet_ok:
  "no_panic (interpret_raw_packet_spec env b n)" "ensures (\<lambda>r. \<forall>x \<in> set_option r. raw_wf x) (interpret_raw_packet_spec env b n)"
proof -
  show "no_panic (interpret_raw_packet_spec env b n)" unfolding interpret_raw_packet_spec_def Let_def
    by (intro panic_intros) simp_all
  show "ensures (\<lambda>r. \<forall>x \<in> set_option r. raw_wf x) (interpret_raw_packet_spec env b n)"
    unfolding interpret_raw_packet_spec_def Let_def
    by (intro ensures_intros) (auto simp: raw_wf_def ensures_Inr split: option.splits if_splits)
qed

subsection \<open>Steps\<close>

text \<open>The sections of a step fit its action.\<close>

definition sections_wf :: "step_spec \<Rightarrow> bool" where
  "sections_wf s \<longleftrightarrow>
     (st_segment s \<noteq> None \<longrightarrow> fst (allowed_sections (st_action s))) \<and>
     (st_expect s \<noteq> None \<longrightarrow> fst (snd (allowed_sections (st_action s)))) \<and>
     (st_timer s \<noteq> None \<longrightarrow> fst (snd (snd (allowed_sections (st_action s))))) \<and>
     (st_action s = ACorrupt \<longrightarrow> st_segment s \<noteq> None) \<and>
     (st_assert s \<noteq> None \<longleftrightarrow> st_action s = AAssert) \<and> (st_set s \<noteq> None \<longleftrightarrow> st_action s = ASet) \<and>
     (st_raw_packet s \<noteq> None \<longleftrightarrow> st_action s = ASendRaw) \<and> (st_plugin s \<noteq> None \<longleftrightarrow> st_action s = APlugin)"

lemma action_sections_no_panic [panic_intros]: "no_panic (validate_action_sections n act a b c d e f g)"
  unfolding validate_action_sections_def Let_def case_prod_unfold by (intro panic_intros) simp

lemma case_none_Inr: "(case x of Some (a, b, c) \<Rightarrow> merror (f c) | None \<Rightarrow> Inr ()) = Inr u \<longleftrightarrow> x = None"
  by (auto split: option.split)

lemma action_sections_ok:
  assumes "validate_action_sections n act seg ex tim asr st raw plug = Inr u"
  shows "(seg \<longrightarrow> fst (allowed_sections act)) \<and> (ex \<longrightarrow> fst (snd (allowed_sections act))) \<and>
    (tim \<longrightarrow> fst (snd (snd (allowed_sections act)))) \<and> (act = ACorrupt \<longrightarrow> seg) \<and> asr = (act = AAssert) \<and> st = (act = ASet) \<and>
    raw = (act = ASendRaw) \<and> plug = (act = APlugin)"
proof -
  obtain s e t a x where al: "allowed_sections act = (s, e, t, a, x)" by (cases "allowed_sections act")
  have "(seg \<longrightarrow> s) \<and> (ex \<longrightarrow> e) \<and> (tim \<longrightarrow> t) \<and> (asr \<longrightarrow> a) \<and> (st \<longrightarrow> x) \<and> (act = ACorrupt \<longrightarrow> seg) \<and> (act = AAssert \<longrightarrow> asr) \<and>
      (act = ASet \<longrightarrow> st) \<and> (act = ASendRaw) = raw \<and> (act = APlugin) = plug"
    using assms
    by (simp only: validate_action_sections_def al Let_def case_prod_conv rbind_eq_Inr case_none_Inr guard_m_Inr find_None_iff
      list.set ball_simps simp_thms insert_iff not_ex de_Morgan_conj) blast
  moreover have "a = (act = AAssert)" "x = (act = ASet)" using al by (cases act; simp)+
  ultimately show ?thesis unfolding al fst_conv snd_conv by blast
qed

definition step_wf :: "step_spec \<Rightarrow> bool" where
  "step_wf s \<longleftrightarrow> sections_wf s \<and> policy_wf (st_retry_policy s) \<and>
     (\<forall>e \<in> set_option (st_expect s). expect_wf e) \<and> (\<forall>r \<in> set_option (st_raw_packet s). raw_wf r) \<and>
     st_mode s \<in> {Some ''active'', Some ''passive''} \<and> not_blank (st_from_state s) \<and> not_blank (st_to_state s)"

lemma each_m_no_panic [panic_intros]: "(\<And>x. x \<in> set xs \<Longrightarrow> no_panic (f x)) \<Longrightarrow> no_panic (each_m f xs)"
  by (induction xs) (auto intro!: panic_intros)

lemma each_m_Inr: "each_m f xs = Inr u \<Longrightarrow> \<forall>x \<in> set xs. \<exists>v. f x = Inr v"
  by (induction xs arbitrary: u) auto

lemma step_shape_no_panic [panic_intros]: "no_panic (check_step_shape b n)"
  unfolding check_step_shape_def check_section_def check_step_child_def Let_def by (intro panic_intros)

lemma array_attr_no_panic [panic_intros]: "no_panic (array_attr env b c k)"
  unfolding array_attr_def by (intro panic_intros)

lemma interpret_step_no_panic: "no_panic (interpret_step env b)"
  unfolding interpret_step_def Let_def
  by (intro panic_intros interpret_policy_ok interpret_expect_ok raw_packet_ok) simp_all

lemma interpret_step_wf: "ensures step_wf (interpret_step env b)"
  unfolding interpret_step_def Let_def
proof (intro ensures_intros, goal_cases)
  case (1 name u1 role action_str act dep req u2 fs ts u3 u4 desc to mode u5 msg rt rty ot lc pol sega seg exa ex0 ex tima tim asr st plug raw u6)
  have pol: "policy_wf pol" by (rule ensuresD [OF interpret_policy_ok(2)]) fact
  have "\<forall>r \<in> set_option raw. raw_wf r" by (rule ensuresD [OF raw_packet_ok(2)]) fact
  moreover have "\<forall>e \<in> set_option ex0. expect_wf e \<and> ex_capture e = []"
    by (rule ensuresD [OF transpose_map_ensures [OF interpret_expect_ok(2)]]) fact
  then have "\<forall>e \<in> set_option ex. expect_wf e" using 1(27) by (cases ex0) (auto simp: expect_wf_def)
  moreover note action_sections_ok [OF 1(34)]
  ultimately show ?case using pol 1(11,12,16)
    by (simp add: step_wf_def sections_wf_def)
qed

subsection \<open>Header schemas\<close>

text \<open>
  No object gives a header field a length of \<open>2 ^ 61\<close> bytes or more; at that size the number
  of bits does not fit in \<open>usize\<close>.
\<close>

definition short_length :: "val_map \<Rightarrow> bool" where
  "short_length m \<longleftrightarrow> (case Option.bind (map_of m ''length'') as_u64 of Some n \<Rightarrow> n < 2 ^ 61 | None \<Rightarrow> True)"

fun short_val :: "val \<Rightarrow> bool" where
  "short_val (VObject m) \<longleftrightarrow> short_length m \<and> (\<forall>kv \<in> set m. short_val (snd kv))"
| "short_val (VArray vs) \<longleftrightarrow> (\<forall>v \<in> set vs. short_val v)"
| "short_val _ \<longleftrightarrow> True"

abbreviation short_map :: "val_map \<Rightarrow> bool" where
  "short_map m \<equiv> \<forall>kv \<in> set m. short_val (snd kv)"

lemma header_length_bound: "optional_usize env obj c ''length'' 1 = Inr n \<Longrightarrow> short_length obj \<Longrightarrow> n * 8 \<le> usize_max"
proof -
  assume "optional_usize env obj c ''length'' 1 = Inr n" and sh: "short_length obj"
  then obtain v where n: "n = unwrap_or 1 v"
    and v: "v = Option.bind (map_of obj ''length'') (\<lambda>v. Option.bind (as_u64 v) (\<lambda>n. if n > 0 then Some n else None))"
    by (auto simp: optional_usize_def dest!: typed_attr_Inr)
  show ?thesis
  proof (cases v)
    case (Some m)
    then have "m < 2 ^ 61" using v sh by (auto simp: bind_eq_Some_conv short_length_def split: if_splits)
    then show ?thesis by (simp add: n Some usize_max_def)
  qed (simp add: n usize_max_def)
qed

lemma header_parts_no_panic [panic_intros]:
  "no_panic (header_terminator env obj c)" "no_panic (header_format env obj c n)"
  "no_panic (header_field_tail env obj c h nested sw cs)"
  unfolding header_terminator_def header_format_def header_field_tail_def Let_def by (intro panic_intros)+

lemma header_head_no_panic [panic_intros]: "short_length obj \<Longrightarrow> no_panic (header_field_head env name obj c)"
proof -
  assume sh: "short_length obj"
  have "no_panic (header_bits env obj c n)" if "optional_usize env obj c ''length'' 1 = Inr n" for n
    using header_length_bound [OF that sh] unfolding header_bits_def by (auto intro!: panic_intros)
  then show ?thesis unfolding header_field_head_def case_prod_unfold by (intro panic_intros) (auto split: option.split)
qed

text \<open>What holds of an interpreted field, whatever its position.\<close>

definition header_own_wf :: "header_field_spec \<Rightarrow> bool" where
  "header_own_wf f \<longleftrightarrow> field_checked f \<and> 0 < hf_repeat f \<and> hf_format f \<in> set header_formats \<and>
     (hf_format f \<in> {''uint'', ''int'', ''bool'', ''ipv4''} \<longrightarrow> hf_length f \<le> 8) \<and>
     (hf_switch_on f \<noteq> None) = (hf_cases f \<noteq> []) \<and>
     (\<forall>t \<in> set_option (hf_transform f). t = ''zlib'' \<or> t = ''aes-gcm'' \<or> prefix ''plugin:'' t) \<and>
     (hf_transform f = Some ''aes-gcm'' \<longrightarrow> hf_key_from f \<noteq> None \<and> hf_nonce_from f \<noteq> None) \<and>
     (\<forall>c \<in> set_option (hf_checksum f). c \<in> {''crc16'', ''crc32'', ''internet''})"

function header_wf :: "header_field_spec \<Rightarrow> bool" where
  "header_wf f \<longleftrightarrow> header_own_wf f \<and> (\<forall>g \<in> set (hf_fields f). header_wf g) \<and>
     (\<forall>c \<in> set (hf_cases f). \<forall>g \<in> set (snd c). header_wf g)"
  by pat_completeness auto
termination
  by (relation "measure size") (auto simp: size_nested intro: size_in_case)

declare header_wf.simps [simp del]

definition head_wf :: "header_field_spec \<Rightarrow> bool" where
  "head_wf f \<longleftrightarrow> field_checked f \<and> 0 < hf_repeat f \<and> hf_format f \<in> set header_formats \<and>
     (hf_format f \<in> {''uint'', ''int'', ''bool'', ''ipv4''} \<longrightarrow> hf_length f \<le> 8)"

lemma header_bits_ok:
  "header_bits env obj c n = Inr (bo, bits) \<Longrightarrow> bo \<le> 7 \<and> 0 < bits \<and> bits \<le> 64 \<and> bo + bits \<le> n * 8"
  by (auto simp: header_bits_def split: if_splits)

lemma header_format_ok:
  "header_format env obj c n = Inr fmt \<Longrightarrow> fmt \<in> set header_formats \<and> (fmt \<in> {''uint'', ''int'', ''bool'', ''ipv4''} \<longrightarrow> n \<le> 8)"
  unfolding header_format_def Let_def by (simp only: rbind_eq_Inr guard_m_Inr) fastforce

lemma header_terminator_ok: "header_terminator env obj c = Inr t \<Longrightarrow> t \<noteq> Some []"
  by (auto simp: header_terminator_def)

lemma small_byte: "n \<le> 64 \<Longrightarrow> unat (of_nat n :: 8 word) = n"
  by (simp add: unat_of_nat)

lemma header_head_ok: "ensures head_wf (header_field_head env name obj c)"
  unfolding header_field_head_def case_prod_unfold
proof (intro ensures_intros, goal_cases)
  case (1 order offset n u1 lf adj rep u2 rf u3 t w bits fmt en)
  have "fst bits \<le> 7 \<and> 0 < snd bits \<and> snd bits \<le> 64 \<and> fst bits + snd bits \<le> n * 8"
    using 1(13) by (cases bits) (auto dest: header_bits_ok)
  moreover have "t \<noteq> Some []" using 1(11) by (rule header_terminator_ok)
  moreover note header_format_ok [OF 1(14)]
  ultimately show ?case using 1(4,8) by (auto simp: head_wf_def field_checked_def small_byte)
qed

lemma header_tail_ok:
  assumes "head_wf h" and "\<forall>g \<in> set nested. header_wf g" and "\<forall>k \<in> set cs. \<forall>g \<in> set (snd k). header_wf g"
  shows "ensures header_wf (header_field_tail env obj c h nested sw cs)"
  unfolding header_field_tail_def
proof (intro ensures_intros, goal_cases)
  case (1 u1 transform u2 kf nf u3 chk u4 range)
  let ?f = "HeaderFieldSpec (hf_name h) (hf_order h) (hf_offset h) (hf_offset_explicit h) (hf_length h) (hf_length_from h)
       (hf_length_adjust h) (hf_repeat h) (hf_repeat_from h) (hf_terminator h) (hf_when h) (hf_bit_offset h) (hf_bits h)
       (hf_format h) (hf_enum_values h) nested sw cs transform kf nf chk range"
  have "(sw \<noteq> None) = (cs \<noteq> [])" using 1(1) by (simp only: guard_m_Inr)
  moreover have "\<forall>t \<in> set_option transform. t = ''zlib'' \<or> t = ''aes-gcm'' \<or> prefix ''plugin:'' t" using 1(3) by (simp only: guard_m_Inr)
  moreover have "transform = Some ''aes-gcm'' \<longrightarrow> kf \<noteq> None \<and> nf \<noteq> None" using 1(6) unfolding guard_m_Inr by auto
  moreover have "\<forall>k \<in> set_option chk. k \<in> {''crc16'', ''crc32'', ''internet''}" using 1(8) by (simp only: guard_m_Inr)
  ultimately have "header_own_wf ?f"
    using assms(1) unfolding header_own_wf_def head_wf_def field_checked_def header_field_spec.sel by blast
  then show ?case using assms(2,3) by (subst header_wf.simps) (simp only: header_field_spec.sel simp_thms)
qed

lemma sort_header_set [simp]: "set (sort_header_fields fs) = set fs"
  by (simp add: sort_header_fields_def)

lemma header_fields_ok:
  "ensures (\<lambda>fs. \<forall>f \<in> set fs. header_wf f) (header_fields env m parent)"
  "ensures (\<lambda>cs. \<forall>c \<in> set cs. \<forall>f \<in> set (snd c). header_wf f) (header_cases env m' ctx)"
proof (induction env m parent and env m' ctx rule: header_fields_header_cases.induct)
  case (2 env name v rest parent)
  show ?case
  proof (cases v)
    case (VObject obj)
    show ?thesis unfolding header_fields.simps VObject val.case Let_def
    proof (intro ensures_intros, goal_cases)
      case (1 u h nested sw cs f fs)
      have "\<forall>g \<in> set nested. header_wf g"
        using 1(3) by (auto split: option.splits val.splits dest!: ensuresD [OF 2(1) [OF VObject refl]])
      moreover have "\<forall>k \<in> set cs. \<forall>g \<in> set (snd k). header_wf g"
        using 1(5) by (auto split: option.splits val.splits dest!: ensuresD [OF 2(2) [OF VObject refl]])
      ultimately have "header_wf f"
        using ensuresD [OF header_tail_ok 1(6)] ensuresD [OF header_head_ok 1(2)] by blast
      then show ?case using ensuresD [OF 2(3) [OF VObject refl] 1(7)] by simp
    qed
  qed (simp_all add: header_fields.simps)
next
  case (4 env selector v rest ctx)
  show ?case
  proof (cases v)
    case (VObject obj)
    show ?thesis unfolding header_cases.simps VObject val.case
    proof (intro ensures_intros, goal_cases)
      case (1 fs cs)
      show ?case using ensuresD [OF 4(1) [OF VObject] 1(1)] ensuresD [OF 4(2) [OF VObject] 1(2)] by simp
    qed
  qed (simp_all add: header_cases.simps)
qed (simp_all add: header_fields.simps header_cases.simps ensures_Inr)

lemma short_inner: "short_map m \<Longrightarrow> map_of m k = Some (VObject m') \<Longrightarrow> short_length m' \<and> short_map m'"
proof -
  assume sh: "short_map m" and "map_of m k = Some (VObject m')"
  then have "short_val (snd (k, VObject m'))" by (intro bspec [OF sh] map_of_SomeD)
  then show ?thesis by simp
qed

lemma short_case_fields: "short_map m \<Longrightarrow> short_map (case_fields m)"
  using short_inner [of m "''fields''"] by (simp add: case_fields_def split: option.split val.split)

lemma header_fields_no_panic:
  "short_map m \<Longrightarrow> no_panic (header_fields env m parent)"
  "short_map m' \<Longrightarrow> no_panic (header_cases env m' ctx)"
proof (induction env m parent and env m' ctx rule: header_fields_header_cases.induct)
  case (2 env name v rest parent)
  show ?case
  proof (cases v)
    case (VObject obj)
    then have sh: "short_length obj" "short_map obj" "short_map rest" using 2(4) by auto
    let ?c = "parent @ '' field '' @ bq name"
    have "no_panic (header_fields env inner ?c)" if "map_of obj ''fields'' = Some (VObject inner)" for inner
      using 2(1) [OF VObject refl] short_inner [OF sh(2) that] that by blast
    moreover have "no_panic (header_cases env inner ?c)" if "map_of obj ''cases'' = Some (VObject inner)" for inner
      using 2(2) [OF VObject refl] short_inner [OF sh(2) that] that by blast
    moreover have "no_panic (header_fields env rest parent)" using 2(3) [OF VObject refl] sh(3) by blast
    ultimately show ?thesis unfolding header_fields.simps VObject val.case Let_def
      by (intro panic_intros sh) (auto intro!: panic_intros split: val.split)
  qed (simp_all add: header_fields.simps)
next
  case (4 env selector v rest ctx)
  show ?case
  proof (cases v)
    case (VObject obj)
    show ?thesis unfolding header_cases.simps VObject val.case
      by (intro panic_intros 4(1) [OF VObject] 4(2) [OF VObject] short_case_fields) (use 4(3) VObject in auto)
  qed (simp_all add: header_cases.simps)
qed (simp_all add: header_fields.simps header_cases.simps)

lemma header_schema_no_panic: "short_map (block_attributes b) \<Longrightarrow> no_panic (interpret_header_schema env b)"
proof -
  assume sh: "short_map (block_attributes b)"
  have "short_map m" if "object_attr env (block_attributes b) c ''fields'' = Inr (Some m)" for c m
  proof -
    have "map_of (block_attributes b) ''fields'' = Some (VObject m)"
      using that by (auto simp: object_attr_def bind_eq_Some_conv elim!: as_object.elims dest!: typed_attr_Inr sym [of "Some m"])
    from short_inner [OF sh this] show ?thesis ..
  qed
  then show ?thesis unfolding interpret_header_schema_def parse_header_fields_def Let_def
    by (intro panic_intros header_fields_no_panic) auto
qed

definition schema_wf :: "header_schema \<Rightarrow> bool" where
  "schema_wf h \<longleftrightarrow> hs_fields h \<noteq> [] \<and> hs_endian h \<in> {''big'', ''little''} \<and> (\<forall>f \<in> set (hs_fields h). header_wf f)"

lemma header_schema_ok: "ensures schema_wf (interpret_header_schema env b)"
  unfolding interpret_header_schema_def parse_header_fields_def Let_def
  by (intro ensures_intros) (auto simp: schema_wf_def dest!: ensuresD [OF header_fields_ok(1)])

subsection \<open>Protocols\<close>

definition invariant_wf :: "invariant_spec \<Rightarrow> bool" where
  "invariant_wf i \<longleftrightarrow> (inv_kind i = StateImplies) = (inv_implies_role i \<noteq> None) \<and>
     (inv_kind i = StateImplies) = (inv_implies_state i \<noteq> None)"

lemma required_string_no_panic [panic_intros]: "no_panic (required_string env a c k)"
  unfolding required_string_def by (intro panic_intros) simp

lemma interpret_invariant_ok: "no_panic (interpret_invariant env b)" "ensures invariant_wf (interpret_invariant env b)"
proof -
  show "no_panic (interpret_invariant env b)" unfolding interpret_invariant_def Let_def by (intro panic_intros) simp
  show "ensures invariant_wf (interpret_invariant env b)" unfolding interpret_invariant_def Let_def
  proof (intro ensures_intros, goal_cases)
    case (1 name u1 u2 given kind role state ir is' u3 u4)
    then show ?case using 1(10,11) unfolding guard_m_Inr invariant_wf_def by auto
  qed
qed

text \<open>What a protocol that interpretation returns satisfies.\<close>

definition step_within :: "resource_limits \<Rightarrow> step_spec \<Rightarrow> bool" where
  "step_within l s \<longleftrightarrow> st_loop_count s \<le> rl_max_loop l \<and> st_retry s \<le> rl_max_retry l \<and> st_retransmit s \<le> rl_max_retry l"

definition protocol_wf :: "protocol \<Rightarrow> bool" where
  "protocol_wf p \<longleftrightarrow> pr_steps p \<noteq> [] \<and> (\<forall>s \<in> set (pr_steps p). step_wf s \<and> step_within (pr_limits p) s) \<and>
     limits_wf (pr_limits p) \<and> (\<forall>t \<in> set_option (pr_transport p). transport_wf t) \<and>
     (\<forall>h \<in> set (pr_header_schemas p). schema_wf h) \<and> distinct (map hs_name (pr_header_schemas p)) \<and>
     (\<forall>i \<in> set (pr_invariants p). invariant_wf i \<and> set (invariant_roles i) \<subseteq> st_role ` set (pr_steps p)) \<and>
     distinct (map inv_name (pr_invariants p))"

lemma at_error_ok: "no_panic r \<Longrightarrow> no_panic (at_error b r)" "ensures P r \<Longrightarrow> ensures P (at_error b r)"
  by (auto simp: at_error_def ensures_def)

lemma at_error_Inr: "at_error b r = Inr x \<longleftrightarrow> r = Inr x"
  by (simp add: at_error_def)

lemma interpret_steps_ok:
  "no_panic (interpret_steps env l bs)" "ensures (\<lambda>ss. \<forall>s \<in> set ss. step_wf s \<and> step_within l s) (interpret_steps env l bs)"
proof (induction bs)
  case (Cons b bs)
  {
    case 1
    show ?case unfolding interpret_steps.simps check_step_limits_def
      by (intro panic_intros at_error_ok interpret_step_no_panic Cons)
  next
    case 2
    show ?case unfolding interpret_steps.simps
    proof (intro ensures_intros, goal_cases)
      case (1 s u rest)
      have "step_wf s" using ensuresD [OF interpret_step_wf] 1(1) unfolding at_error_Inr by blast
      moreover have "step_within l s" using 1(2) unfolding check_step_limits_def step_within_def by (simp only: rbind_eq_Inr guard_m_Inr) blast
      ultimately show ?case using ensuresD [OF Cons(2) 1(3)] by simp
    qed
  }
qed (simp_all add: ensures_Inr)

lemma interpret_named_ok:
  "(\<And>b. b \<in> set bs \<Longrightarrow> no_panic (f b)) \<Longrightarrow> no_panic (interpret_named f n w seen bs)"
  "(\<And>b. ensures P (f b)) \<Longrightarrow> ensures (\<lambda>xs. (\<forall>x \<in> set xs. P x \<and> n x \<notin> set seen) \<and> distinct (map n xs)) (interpret_named f n w seen bs)"
proof (induction bs arbitrary: seen)
  case (Cons b bs)
  {
    case 1
    show ?case unfolding interpret_named.simps by (intro panic_intros at_error_ok Cons(1) 1) auto
  next
    case 2
    show ?case unfolding interpret_named.simps
    proof (intro ensures_intros, goal_cases)
      case (2 x xs)
      have "P x" using ensuresD [OF \<open>\<And>b. ensures P (f b)\<close>] 2(1) unfolding at_error_Inr by blast
      then show ?case using ensuresD [OF Cons(2) [OF \<open>\<And>b. ensures P (f b)\<close>] 2(3)] 2(2) by auto
    qed simp
  }
qed (simp_all add: ensures_Inr)

lemma check_roles_ok:
  "no_panic (check_invariant_roles steps i)"
  "check_invariant_roles steps i = Inr u \<Longrightarrow> set (invariant_roles i) \<subseteq> st_role ` set steps"
  by (auto simp: check_invariant_roles_def find_None_iff split: option.splits)

lemma interpret_clock_no_panic [panic_intros]: "no_panic (interpret_clock env n v)"
  unfolding interpret_clock_def by (intro panic_intros) simp

abbreviation schemas_short :: "block \<Rightarrow> bool" where
  "schemas_short b \<equiv> \<forall>h \<in> set (block_all_children b ''header_schema''). short_map (block_attributes h)"

lemma interpret_protocol_no_panic: "schemas_short b \<Longrightarrow> no_panic (interpret_protocol env b)"
  unfolding interpret_protocol_def Let_def
  by (intro panic_intros at_error_ok interpret_limits_ok interpret_steps_ok interpret_transport_ok interpret_named_ok
      header_schema_no_panic interpret_invariant_ok check_roles_ok) auto

lemma interpret_protocol_wf: "ensures protocol_wf (interpret_protocol env b)"
  unfolding interpret_protocol_def Let_def
proof (intro ensures_intros, goal_cases)
  case (1 name u1 u2 u3 u4 given clock desc raw steps u5 tr schemas invs u6)
  have "\<forall>l \<in> set_option given. limits_wf l" by (rule ensuresD [OF transpose_map_ensures [OF interpret_limits_ok(2)] 1(6)])
  then have "limits_wf (unwrap_or default_resource_limits given)"
    by (cases given) (simp_all add: limits_wf_def default_resource_limits_def)
  moreover have "\<forall>t \<in> set_option tr. transport_wf t"
    by (rule ensuresD [OF transpose_map_ensures [OF interpret_transport_ok(2)] 1(12) [unfolded at_error_Inr]])
  moreover note ensuresD [OF interpret_steps_ok(2) 1(10)] ensuresD [OF interpret_named_ok(2) [OF header_schema_ok] 1(13)]
    ensuresD [OF interpret_named_ok(2) [OF interpret_invariant_ok(2)] 1(14)]
  moreover have "\<forall>i \<in> set invs. set (invariant_roles i) \<subseteq> st_role ` set steps"
    using each_m_Inr [OF 1(15)] check_roles_ok(2) by blast
  ultimately show ?case using 1(11) by (simp add: protocol_wf_def)
qed

subsection \<open>Files\<close>

fun short_block :: "block \<Rightarrow> bool" where
  "short_block (Block _ _ attrs children _ _ _) \<longleftrightarrow> short_map attrs \<and> (\<forall>c \<in> set children. short_block c)"

lemma short_blockD: "short_block b \<Longrightarrow> short_map (block_attributes b) \<and> (\<forall>c \<in> set (block_children b). short_block c)"
  by (cases b) simp

lemma short_prefixed: "short_block b \<Longrightarrow> short_block (prefixed pre b)"
  by (cases b) (auto simp: prefixed_def split: list.split)

lemma visit_modules_no_panic: "no_panic (visit_modules bs pre)"
proof (induction bs pre rule: visit_modules.induct)
  case (2 b bs pre)
  show ?case
    by (subst visit_modules.simps, use 2 in \<open>cases "block_labels b"; cases "tl (block_labels b)"\<close>)
      (auto intro!: panic_intros)
qed (simp add: visit_modules.simps)

lemma visit_modules_short:
  "\<forall>b \<in> set bs. short_block b \<Longrightarrow> ensures (\<lambda>out. \<forall>b \<in> set out. short_block b) (visit_modules bs pre)"
proof (induction bs pre rule: visit_modules.induct)
  case (2 b bs pre)
  then have sh: "\<forall>c \<in> set (block_children b). short_block c" "short_block b" "\<forall>c \<in> set bs. short_block c"
    by (auto dest: short_blockD)
  show ?case
    by (subst visit_modules.simps, use 2(1-3) sh in \<open>cases "block_labels b"; cases "tl (block_labels b)"\<close>)
      (auto intro!: ensures_intros simp: ensures_def short_prefixed)
qed (simp add: visit_modules.simps ensures_Inr)

lemma interpret_protocols_ok:
  "(\<forall>b \<in> set bs. short_block b) \<Longrightarrow> no_panic (interpret_protocols env seen bs)"
  "ensures (\<lambda>ps. (\<forall>p \<in> set ps. protocol_wf p \<and> pr_name p \<notin> set seen) \<and> distinct (map pr_name ps)) (interpret_protocols env seen bs)"
proof (induction bs arbitrary: seen)
  case (Cons b bs)
  {
    case 1
    then have "schemas_short b" by (auto simp: block_all_children_def dest!: short_blockD)
    with 1 show ?case unfolding interpret_protocols.simps
      by (intro panic_intros at_error_ok interpret_protocol_no_panic Cons(1)) auto
  next
    case 2
    show ?case unfolding interpret_protocols.simps
    proof (intro ensures_intros, goal_cases)
      case (2 p ps)
      have "protocol_wf p" using ensuresD [OF interpret_protocol_wf] 2(2) unfolding at_error_Inr by blast
      then show ?case using ensuresD [OF Cons(2) 2(4)] 2(3) by auto
    qed (simp_all add: Cons(2))
  }
qed (simp_all add: ensures_Inr)

text \<open>
  C24: every protocol that interpretation accepts is well formed: it has steps, each with the
  sections its action asks for and counts within the limits, its rates are probabilities,
  every header field has a bit range inside its bytes, invariants speak of roles that occur,
  and the names of protocols, schemas and invariants are unique.
\<close>

theorem interpreted_protocols_wf:
  assumes "interpret_blocks env bs = Inr ps"
  shows "(\<forall>p \<in> set ps. protocol_wf p) \<and> distinct (map pr_name ps)"
proof -
  from assms obtain expanded where "interpret_protocols env [] expanded = Inr ps"
    by (auto simp: interpret_blocks_def)
  from ensuresD [OF interpret_protocols_ok(2) this] show ?thesis by simp
qed

text \<open>
  C32: interpretation answers, with protocols or with an error, on every tree of blocks in which
  no object, whether it describes a header field or something else, has an entry \<open>length\<close> of
  \<open>2 ^ 61\<close> or more. (The number of bits of a field is computed from its \<open>length\<close> without a
  check, so the condition is needed for header fields.)
\<close>

theorem interpret_answers:
  assumes "\<forall>b \<in> set bs. short_block b"
  shows "no_panic (interpret_blocks env bs)"
proof -
  have "no_panic (interpret_protocols env [] out)" if "expand_modules bs = Inr out" for out
    using ensuresD [OF visit_modules_short [OF assms]] that unfolding expand_modules_def by (intro interpret_protocols_ok(1)) blast
  moreover have "no_panic (expand_modules bs)" by (simp add: expand_modules_def visit_modules_no_panic)
  moreover have "no_panic (validate_top_level bs)" by (simp add: validate_top_level_def split: option.split)
  ultimately show ?thesis unfolding interpret_blocks_def by (intro panic_intros)
qed

text \<open>
  The conditions on a field that interpretation does not check and decoding relies on: no
  transform next to a terminator, a count that is a constant within the capacity of a vector,
  and checksums over a range only in a schema at offset 0.
\<close>

function fixed_layout :: "schema_env \<Rightarrow> nat \<Rightarrow> header_field_spec \<Rightarrow> bool" where
  "fixed_layout senv base f \<longleftrightarrow>
     (hf_terminator f \<noteq> None \<longrightarrow> hf_transform f = None) \<and> hf_repeat_from f = None \<and> hf_repeat f \<le> vec_limit senv \<and>
     (hf_checksum f \<noteq> None \<longrightarrow> base = 0 \<or> unwrap_or ''all_before'' (hf_checksum_range f) = ''all_before'') \<and>
     (\<forall>g \<in> set (hf_fields f). fixed_layout senv 0 g) \<and>
     (\<forall>c \<in> set (hf_cases f). \<forall>g \<in> set (snd c). fixed_layout senv 0 g)"
  by pat_completeness auto
termination
  by (relation "measure (\<lambda>(_, _, f). size f)") (auto simp: size_nested intro: size_in_case)

declare fixed_layout.simps [simp del]

lemma wf_safe: "header_wf f \<Longrightarrow> fixed_layout senv base f \<Longrightarrow> safe_field senv base f"
proof (induction senv base f rule: fixed_layout.induct)
  case (1 senv base f)
  note wf = header_wf.simps [THEN iffD1, OF 1(3)] and fl = fixed_layout.simps [THEN iffD1, OF 1(4)]
  from wf have "field_checked f" by (simp only: header_own_wf_def)
  then have "safe_spec senv base f" using fl by (auto simp: safe_spec_def field_checked_def)
  moreover have "\<forall>g \<in> set (hf_fields f). safe_field senv 0 g" "\<forall>c \<in> set (hf_cases f). \<forall>g \<in> set (snd c). safe_field senv 0 g"
    using wf fl 1(1,2) by blast+
  ultimately show ?case by (subst safe_field.simps) blast
qed

lemma fixed_leaf:
  "hf_fields f = [] \<Longrightarrow> hf_cases f = [] \<Longrightarrow> hf_transform f = None \<Longrightarrow> hf_checksum f = None \<Longrightarrow> hf_repeat_from f = None \<Longrightarrow>
   fixed_layout senv base f = (hf_repeat f \<le> vec_limit senv)"
  by (subst fixed_layout.simps) simp

text \<open>
  C25: with a schema of an interpreted protocol whose fields have constant counts within what a
  vector can hold (\<open>isize::MAX\<close> bytes of values), no transform next to a terminator and no checksum range at an offset, decoding never panics, whatever the
  bytes and the context: lengths, conditions and references that do not fit the input are
  error values.
\<close>

theorem interpreted_schema_decodes:
  assumes "interpret_blocks env bs = Inr ps" and "p \<in> set ps" and "h \<in> set (pr_header_schemas p)"
    and "\<forall>f \<in> set (hs_fields h). fixed_layout senv (hs_offset h) f"
  shows "no_panic (decode_schema_with_context senv h input context)"
proof (rule decode_schema_safe)
  from assms(1) obtain expanded where "interpret_protocols env [] expanded = Inr ps"
    by (auto simp: interpret_blocks_def)
  from ensuresD [OF interpret_protocols_ok(2) this] assms(2,3) have "\<forall>f \<in> set (hs_fields h). header_wf f"
    by (auto simp: protocol_wf_def schema_wf_def)
  then show "\<forall>f \<in> set (hs_fields h). safe_field senv (hs_offset h) f" using assms(4) by (auto intro: wf_safe)
qed

definition ping_blocks :: "block list" where
  "ping_blocks =
     [Block ''module'' [''net''] []
        [Block ''protocol'' [''ping''] []
           [Block ''step'' [''open''] [(''action'', VString ''connect''), (''role'', VString ''client'')] [] None 2 3,
            Block ''header_schema'' [''h''] [(''fields'', VObject [(''kind'', VObject [(''length'', VNumber (f64_of_int 2))])])] [] None 3 3]
           None 1 2] None 1 1]"

abbreviation any_env :: interpret_env where
  "any_env \<equiv> \<lparr>ie_regex = (\<lambda>_. True), ie_printable = (\<lambda>_. True)\<rparr>"

lemma ping_short: "\<forall>b \<in> set ping_blocks. short_block b"
  by (simp add: ping_blocks_def short_length_def sample_u64 del: as_u64.simps)

lemma one_unit: "f64_le f64_one (f64_of_int 1)" "unit_interval 0"
proof -
  have one: "f64_of_int 1 = f64_of_rounded False 1" by (simp add: f64_of_int_def round53_exact)
  have "\<not> f64_is_nan (f64_of_int 1)" "f64_int (f64_of_int 1) = f64_unit"
    using f64_of_rounded_exact [of 1 False] unfolding one f64_is_nan_def f64_is_finite_def by simp_all
  then show "f64_le f64_one (f64_of_int 1)" "unit_interval 0"
    using f64_unit_pos
    by (simp_all add: f64_le_def f64_one_def unit_interval_def f64_is_nan_def f64_exp_def f64_int_def f64_magnitude_def f64_frac_def)
qed

lemmas shape_defs = one_label_def validate_attributes_def validate_map_keys_def validate_children_def ensure_single_child_def
  block_child_def block_all_children_def block_attr_str_def block_attr_def Let_def guard_m_def typed_attr_def transpose_map_def

lemmas optional_defs = optional_string_def optional_u32_def optional_u64_def optional_usize_def optional_bool_def optional_f64_def
  optional_duration_def object_attr_def array_attr_def

abbreviation ping_step :: block where
  "ping_step \<equiv> Block ''step'' [''open''] [(''action'', VString ''connect''), (''role'', VString ''client'')] [] None 2 3"

abbreviation ping_schema :: block where
  "ping_schema \<equiv>
     Block ''header_schema'' [''h''] [(''fields'', VObject [(''kind'', VObject [(''length'', VNumber (f64_of_int 2))])])] [] None 3 3"

lemma ping_step_accepted:
  "\<exists>s. interpret_step any_env ping_step = Inr s \<and> check_step_limits default_resource_limits s = Inr ()"
  by (simp add: shape_defs optional_defs interpret_step_def check_step_shape_def step_keys_def step_sections_def check_section_def
    not_blank_def interpret_retry_policy_def section_attrs_def interpret_raw_packet_spec_def raw_header_keys_def parse_action_def
    action_names_def validate_action_sections_def default_retry_policy_def one_unit check_step_limits_def default_resource_limits_def)

lemma ping_schema_accepted: "\<exists>h. interpret_header_schema any_env ping_schema = Inr h \<and> hs_offset h = 0 \<and>
    hs_fields h = [HeaderFieldSpec ''kind'' usize_max 0 False 2 None 0 1 None None None 0 16 ''uint'' [] [] None [] None None None None None]"
  by (simp add: shape_defs optional_defs interpret_header_schema_def parse_header_fields_def header_fields.simps header_field_keys_def
    header_field_head_def header_terminator_def header_bits_def usize_max_def header_format_def has_key_def header_formats_def
    header_field_tail_def sort_header_fields_def sample_u64 del: as_u64.simps)

lemma ping_accepted: "\<exists>p h. interpret_blocks any_env ping_blocks = Inr [p] \<and> pr_name p = ''net.ping'' \<and> pr_header_schemas p = [h] \<and>
    interpret_header_schema any_env ping_schema = Inr h"
proof -
  obtain s h where "interpret_step any_env ping_step = Inr s" "check_step_limits default_resource_limits s = Inr ()"
    and "interpret_header_schema any_env ping_schema = Inr h"
    using ping_step_accepted ping_schema_accepted by blast
  then show ?thesis
    by (simp add: shape_defs optional_defs ping_blocks_def interpret_blocks_def validate_top_level_def expand_modules_def
      visit_modules.simps prefixed_def interpret_protocol_def interpret_clock_def at_error_def)
qed

lemma interpreted_protocols_wf_witness:
  "\<exists>p. interpret_blocks any_env ping_blocks = Inr [p] \<and> pr_name p = ''net.ping'' \<and> protocol_wf p"
  using ping_accepted interpreted_protocols_wf [of any_env ping_blocks] by auto

lemma interpret_answers_witness: "no_panic (interpret_blocks any_env ping_blocks)"
  by (rule interpret_answers [OF ping_short])

lemma interpreted_schema_decodes_witness:
  "\<exists>p h. interpret_blocks any_env ping_blocks = Inr [p] \<and> h \<in> set (pr_header_schemas p) \<and>
     no_panic (decode_schema_with_context sample_env h [0] [(''k'', VNull)])"
proof -
  obtain p h where p: "interpret_blocks any_env ping_blocks = Inr [p]" "pr_header_schemas p = [h]"
    and h: "hs_offset h = 0"
      "hs_fields h = [HeaderFieldSpec ''kind'' usize_max 0 False 2 None 0 1 None None None 0 16 ''uint'' [] [] None [] None None None None None]"
    using ping_accepted ping_schema_accepted by auto
  have "no_panic (decode_schema_with_context sample_env h [0] [(''k'', VNull)])"
    by (rule interpreted_schema_decodes [where p = p, OF p(1)]) (simp_all add: p(2) h fixed_leaf sample_env_def vec_limit_def)
  with p show ?thesis by auto
qed

end
