(* ===== verification/Interpolate.thy ===== *)
theory Interpolate
  imports Interpret_Attrs
begin

text \<open>
  Variables in texts and values: \<open>interpolate_str\<close>, \<open>interpolate_value\<close>,
  \<open>exact_var_ref\<close>, \<open>build_outbound\<close> and \<open>resolve_deferred_hex\<close> of \<open>src/src/engine.rs\<close>, and
  \<open>Expect::interpolate\<close> of \<open>src/src/model.rs\<close>. The variables are a list of entries in the order in
  which the code's \<open>HashMap\<close> yields them: \<open>interpolate_str\<close> replaces one variable after the
  other, so that order can matter. The function \<open>pr\<close> is the Unicode table behind \<open>Debug\<close>.
\<close>

subsection \<open>Texts\<close>

text \<open>\<open>str::replace\<close>: every occurrence from the left, none overlapping; the pattern is not empty.\<close>

function str_replace :: "string \<Rightarrow> string \<Rightarrow> string \<Rightarrow> string" where
  "str_replace pat r s =
     (case s of
        [] \<Rightarrow> []
      | c # cs \<Rightarrow>
          if pat \<noteq> [] \<and> take (length pat) s = pat then r @ str_replace pat r (drop (length pat) s)
          else c # str_replace pat r cs)"
  by pat_completeness auto
termination
  by (relation "measure (\<lambda>(_, _, s). length s)") auto

declare str_replace.simps [simp del]

definition var_token :: "string \<Rightarrow> string" where
  "var_token k = ''${'' @ k @ ''}''"

fun replacement_text :: "(nat \<Rightarrow> bool) \<Rightarrow> val \<Rightarrow> string" where
  "replacement_text pr (VString s) = s"
| "replacement_text pr (VBytes b) = bytes_to_hex b"
| "replacement_text pr (VNumber n) = (if f64_is_integral n then decimal_int (f64_as_i64 n) else display_f64 n)"
| "replacement_text pr (VBool b) = bool_text b"
| "replacement_text pr v = to_display pr v"

definition replace_var :: "(nat \<Rightarrow> bool) \<Rightarrow> string \<times> val \<Rightarrow> string \<Rightarrow> string" where
  "replace_var pr kv s =
     (if str_contains s (var_token (fst kv)) then str_replace (var_token (fst kv)) (replacement_text pr (snd kv)) s else s)"

definition interpolate_str :: "(nat \<Rightarrow> bool) \<Rightarrow> string \<Rightarrow> val_map \<Rightarrow> string" where
  "interpolate_str pr s vars = fold (replace_var pr) vars s"

subsection \<open>Values\<close>

definition strip_suffix :: "string \<Rightarrow> string \<Rightarrow> string option" where
  "strip_suffix p s = (if length p \<le> length s \<and> drop (length s - length p) s = p then Some (take (length s - length p) s) else None)"

definition exact_var_ref :: "string \<Rightarrow> string option" where
  "exact_var_ref s =
     Option.bind (strip_prefix ''${'' s) (\<lambda>inner.
     Option.bind (strip_suffix ''}'' inner) (\<lambda>name.
     if name = [] \<or> str_contains name ''${'' \<or> str_contains name ''}'' then None else Some name))"

definition interpolate_text :: "(nat \<Rightarrow> bool) \<Rightarrow> string \<Rightarrow> val_map \<Rightarrow> val" where
  "interpolate_text pr s vars =
     (case Option.bind (exact_var_ref s) (map_of vars) of
        Some v \<Rightarrow> v
      | None \<Rightarrow> VString (interpolate_str pr s vars))"

fun interpolate_value :: "(nat \<Rightarrow> bool) \<Rightarrow> val_map \<Rightarrow> val \<Rightarrow> val" where
  "interpolate_value pr vars (VString s) = interpolate_text pr s vars"
| "interpolate_value pr vars (VArray a) = VArray (map (interpolate_value pr vars) a)"
| "interpolate_value pr vars (VObject m) = VObject (map (\<lambda>(k, v). (k, interpolate_value pr vars v)) m)"
| "interpolate_value pr vars v = v"

fun interpolate_match :: "(string \<Rightarrow> bool) \<Rightarrow> (nat \<Rightarrow> bool) \<Rightarrow> val_map \<Rightarrow> field_match \<Rightarrow> field_match" where
  "interpolate_match compiles pr vars (FMEqual v) = FMEqual (interpolate_value pr vars v)"
| "interpolate_match compiles pr vars (FMNotEqual v) = FMNotEqual (interpolate_value pr vars v)"
| "interpolate_match compiles pr vars (FMContains s) = FMContains (interpolate_str pr s vars)"
| "interpolate_match compiles pr vars (FMPrefix s) = FMPrefix (interpolate_str pr s vars)"
| "interpolate_match compiles pr vars (FMSuffix s) = FMSuffix (interpolate_str pr s vars)"
| "interpolate_match compiles pr vars (FMRegex p _) =
     (let q = interpolate_str pr p vars in FMRegex q (if compiles q then Some q else None))"
| "interpolate_match compiles pr vars m = m"

definition expect_interpolate :: "(string \<Rightarrow> bool) \<Rightarrow> (nat \<Rightarrow> bool) \<Rightarrow> val_map \<Rightarrow> expect \<Rightarrow> expect" where
  "expect_interpolate compiles pr vars e =
     e\<lparr>ex_fields := map (\<lambda>(k, m). (k, interpolate_match compiles pr vars m)) (ex_fields e)\<rparr>"

subsection \<open>Outbound segments\<close>

definition hex_marker :: string where
  "hex_marker = ''__hex__:''"

fun resolve_deferred_hex :: "val \<Rightarrow> val" where
  "resolve_deferred_hex (VString s) =
     (if prefix hex_marker s then
        (case parse_hex (drop (length hex_marker) s) of Inr bs \<Rightarrow> VBytes bs | Inl _ \<Rightarrow> VString s)
      else VString s)"
| "resolve_deferred_hex v = v"

definition build_outbound :: "(nat \<Rightarrow> bool) \<Rightarrow> segment \<Rightarrow> val_map \<Rightarrow> (string, val_map \<times> string \<times> bytes) res" where
  "build_outbound pr seg vars =
     (let fields = map (\<lambda>(k, v). (k, resolve_deferred_hex (interpolate_value pr vars v))) (sg_fields seg);
          payload = interpolate_str pr (unwrap_or [] (sg_payload seg)) vars in
      rbind (case sg_hex seg of
               Some h \<Rightarrow> map_err (\<lambda>e. ''segment `hex`: '' @ e) (parse_hex (interpolate_str pr h vars))
             | None \<Rightarrow> Inr []) (\<lambda>raw.
      Inr (fields, payload, raw)))"

subsection \<open>Templates\<close>

text \<open>
  A template is a sequence of literal texts and references. With texts free of the three
  special characters, interpolation puts the value of each bound variable in the place of its
  references and leaves the rest as it is, whatever the order of the variables.
\<close>

datatype piece = Lit string | Ref string

definition plain :: "string \<Rightarrow> bool" where
  "plain s \<longleftrightarrow> CHR ''$'' \<notin> set s \<and> CHR ''{'' \<notin> set s \<and> CHR ''}'' \<notin> set s"

fun piece_text :: "piece \<Rightarrow> string" where
  "piece_text (Lit s) = s"
| "piece_text (Ref k) = var_token k"

definition render :: "piece list \<Rightarrow> string" where
  "render ps = concat (map piece_text ps)"

fun piece_plain :: "piece \<Rightarrow> bool" where
  "piece_plain (Lit s) = plain s"
| "piece_plain (Ref k) = plain k"

fun piece_value :: "(nat \<Rightarrow> bool) \<Rightarrow> (string \<Rightarrow> val option) \<Rightarrow> piece \<Rightarrow> string" where
  "piece_value pr f (Lit s) = s"
| "piece_value pr f (Ref k) = (case f k of Some v \<Rightarrow> replacement_text pr v | None \<Rightarrow> var_token k)"

fun bind_piece :: "string \<Rightarrow> string \<Rightarrow> piece \<Rightarrow> piece" where
  "bind_piece k r (Lit s) = Lit s"
| "bind_piece k r (Ref j) = (if j = k then Lit r else Ref j)"

lemma replace_literal:
  "CHR ''$'' \<notin> set s \<Longrightarrow> str_replace (var_token k) r (s @ t) = s @ str_replace (var_token k) r t"
  by (induction s) (auto simp: var_token_def str_replace.simps [of _ _ "_ # _"])

lemma replace_token: "str_replace (var_token k) r (var_token k @ t) = r @ str_replace (var_token k) r t"
  by (subst str_replace.simps) (simp add: var_token_def)

lemma token_prefix: "plain k \<Longrightarrow> plain j \<Longrightarrow> take (length (var_token k)) (var_token j @ t) = var_token k \<longleftrightarrow> j = k"
proof -
  assume k: "plain k" and j: "plain j"
  have "j @ CHR ''}'' # t = k @ CHR ''}'' # u \<Longrightarrow> j = k" for u
  proof -
    assume eq: "j @ CHR ''}'' # t = k @ CHR ''}'' # u"
    have "takeWhile (\<lambda>c. c \<noteq> CHR ''}'') (j @ CHR ''}'' # t) = j" "takeWhile (\<lambda>c. c \<noteq> CHR ''}'') (k @ CHR ''}'' # u) = k"
      using j k by (auto simp: plain_def takeWhile_append2 takeWhile_append)
    with eq show "j = k" by simp
  qed
  moreover have "\<exists>u. var_token j @ t = var_token k @ u" if "take (length (var_token k)) (var_token j @ t) = var_token k"
    using that append_take_drop_id [of "length (var_token k)" "var_token j @ t"] by metis
  moreover have "take (length (var_token k)) (var_token k @ t) = var_token k" by simp
  ultimately show ?thesis unfolding var_token_def by auto
qed

lemma replace_other:
  assumes "plain k" and "plain j" and "j \<noteq> k"
  shows "str_replace (var_token k) r (var_token j @ t) = var_token j @ str_replace (var_token k) r t"
proof -
  have "str_replace (var_token k) r (var_token j @ t) = CHR ''$'' # str_replace (var_token k) r ((CHR ''{'' # j @ ''}'') @ t)"
    using token_prefix [OF assms(1,2), of t] assms(3) by (subst str_replace.simps) (simp add: var_token_def)
  also have "\<dots> = CHR ''$'' # (CHR ''{'' # j @ ''}'') @ str_replace (var_token k) r t"
    using assms(2) by (subst replace_literal) (auto simp: plain_def)
  finally show ?thesis by (simp add: var_token_def)
qed

lemma replace_render:
  assumes "plain k" and "list_all piece_plain ps"
  shows "str_replace (var_token k) r (render ps) = render (map (bind_piece k r) ps)"
  using assms(2)
proof (induction ps)
  case Nil
  then show ?case by (simp add: render_def str_replace.simps)
next
  case (Cons p ps)
  show ?case
  proof (cases p)
    case (Lit s)
    with Cons show ?thesis by (simp add: render_def plain_def replace_literal)
  next
    case (Ref j)
    with Cons assms(1) show ?thesis by (cases "j = k") (simp_all add: render_def replace_token replace_other)
  qed
qed

lemma replace_absent: "\<not> sublist pat s \<Longrightarrow> str_replace pat r s = s"
proof (induction s)
  case (Cons c s)
  then have "take (length pat) (c # s) \<noteq> pat" by (metis sublist_take)
  moreover have "\<not> sublist pat s" using Cons.prems by (auto dest: sublist_Cons_right [THEN iffD2, OF disjI2])
  ultimately show ?case using Cons.IH by (subst str_replace.simps) simp
qed (simp add: str_replace.simps)

lemma replace_var_render:
  assumes "plain k" and "list_all piece_plain ps"
  shows "replace_var pr (k, v) (render ps) = render (map (bind_piece k (replacement_text pr v)) ps)"
  using replace_render [OF assms] replace_absent [of "var_token k" "render ps"]
  by (auto simp: replace_var_def str_contains_def has_window_iff)

text \<open>
  Interpolating a template gives its literals as they are and, for each reference, the text
  of the variable's value, or the reference itself when the variable is not bound. The order
  in which the map yields the variables does not matter, as long as no literal, name or value
  has one of the characters \<open>$\<close>, \<open>{\<close> and \<open>}\<close>.
\<close>

theorem interpolate_template:
  assumes "list_all piece_plain ps" and "\<forall>(k, v) \<in> set vars. plain k \<and> plain (replacement_text pr v)"
  shows "interpolate_str pr (render ps) vars = concat (map (piece_value pr (map_of vars)) ps)"
  using assms
proof (induction vars arbitrary: ps)
  case Nil
  have "piece_text = piece_value pr Map.empty"
  proof
    fix p
    show "piece_text p = piece_value pr Map.empty p" by (cases p) simp_all
  qed
  then show ?case by (simp add: interpolate_str_def render_def)
next
  case (Cons kv vars)
  obtain k v where kv: "kv = (k, v)" by (cases kv)
  let ?ps = "map (bind_piece k (replacement_text pr v)) ps"
  have pv: "plain k" "plain (replacement_text pr v)" using Cons.prems(2) by (auto simp: kv)
  have "list_all piece_plain ?ps"
    using Cons.prems(1) pv by (auto simp: list_all_iff elim!: piece_plain.elims)
  then have "interpolate_str pr (render ?ps) vars = concat (map (piece_value pr (map_of vars)) ?ps)"
    using Cons by auto
  moreover have "piece_value pr (map_of vars) (bind_piece k (replacement_text pr v) p) = piece_value pr (map_of (kv # vars)) p" for p
    by (cases p) (simp_all add: kv)
  ultimately show ?case
    using replace_var_render [OF pv(1) Cons.prems(1)] by (simp add: interpolate_str_def kv comp_def fun_upd_def)
qed

lemma interpolate_template_witness:
  "interpolate_str (\<lambda>_. True) (render [Lit ''id='', Ref ''a'', Ref ''b'']) [(''b'', VBool True), (''a'', VString ''x'')] =
     concat (map (piece_value (\<lambda>_. True) (map_of [(''b'', VBool True), (''a'', VString ''x'')])) [Lit ''id='', Ref ''a'', Ref ''b''])"
  by (rule interpolate_template) (simp_all add: plain_def)

text \<open>Without that condition the order decides: one value may hold a reference to another variable.\<close>

lemma interpolate_order_matters:
  "interpolate_str pr ''${a}'' [(''a'', VString ''${b}''), (''b'', VString ''x'')] = ''x''"
  "interpolate_str pr ''${a}'' [(''b'', VString ''x''), (''a'', VString ''${b}'')] = ''${b}''"
  by (simp_all add: interpolate_str_def replace_var_def str_contains_def has_window_def windows_def var_token_def str_replace.simps)

text \<open>A text that is one reference to a bound variable becomes the value itself, type included.\<close>

lemma exact_reference: "plain k \<Longrightarrow> k \<noteq> [] \<Longrightarrow> exact_var_ref (var_token k) = Some k"
proof -
  assume k: "plain k" "k \<noteq> []"
  have "\<not> sublist ''${'' k" "\<not> sublist ''}'' k" using k(1) by (auto simp: plain_def dest!: set_mono_sublist)
  then show ?thesis
    using k(2) by (simp add: exact_var_ref_def var_token_def strip_prefix_def strip_suffix_def str_contains_def has_window_iff)
qed

end
