(* ===== verification/Raw_Build.thy ===== *)
theory Raw_Build
  imports Interpolate Receive
begin

text \<open>
  Raw packets from a step: \<open>build_raw_packets\<close>, the header builders and the typed access to their
  attributes in \<open>src/src/engine.rs\<close>. Addresses are read by the parsers of the standard library.
  The errors of a step are values with the kind the engine classifies them by.
\<close>

unbundle bit_operations_syntax

subsection \<open>Failures\<close>

record assertion_failure =
  af_role :: string
  af_key :: string
  af_expected :: val
  af_actual :: "val option"

text \<open>
  \<open>StepFailure\<close>. Failures of a receive, of the transport and of the packet codec keep their own
  error values; the others carry the kind and the message.
\<close>

datatype exec_failure =
    FReceive step_failure
  | FTransport transport_error
  | FPacket packet_error
  | FText failure_kind string
  | FAsserts string "assertion_failure list"

fun fail_kind :: "exec_failure \<Rightarrow> failure_kind" where
  "fail_kind (FReceive f) = sf_kind f"
| "fail_kind (FTransport e) = (case te_kind e of KTransport \<Rightarrow> FkTransport | KResourceLimit \<Rightarrow> FkResourceLimit)"
| "fail_kind (FPacket _) = FkValidation"
| "fail_kind (FText k _) = k"
| "fail_kind (FAsserts _ _) = FkAssertion"

fun failure_assertions :: "exec_failure \<Rightarrow> assertion_failure list" where
  "failure_assertions (FAsserts _ fs) = fs"
| "failure_assertions _ = []"

fun failure_kind_str :: "failure_kind \<Rightarrow> string" where
  "failure_kind_str FkTimeout = ''timeout''"
| "failure_kind_str FkTransport = ''transport''"
| "failure_kind_str FkAssertion = ''assertion''"
| "failure_kind_str FkValidation = ''validation''"
| "failure_kind_str FkResourceLimit = ''resource_limit''"
| "failure_kind_str FkPanic = ''panic''"
| "failure_kind_str FkRuntime = ''runtime''"

type_synonym 'a xres = "(exec_failure, 'a) res"

definition raw_validation :: "string \<Rightarrow> 'a xres" where
  "raw_validation msg = Inl (Fail (FText FkValidation msg))"

subsection \<open>Addresses\<close>

definition digit_of :: "nat \<Rightarrow> char \<Rightarrow> nat option" where
  "digit_of radix c =
     (let n = unat (byte_of c);
          d = (if 48 \<le> n \<and> n \<le> 57 then n - 48 else if 97 \<le> n \<and> n \<le> 122 then n - 87 else if 65 \<le> n \<and> n \<le> 90 then n - 55 else 99)
      in if d < radix then Some d else None)"

text \<open>\<open>read_number\<close>: all digits that follow, at most \<open>most\<close> of them, with a value up to \<open>bound\<close>.\<close>

definition read_number :: "nat \<Rightarrow> nat \<Rightarrow> nat \<Rightarrow> bool \<Rightarrow> string \<Rightarrow> (nat \<times> string) option" where
  "read_number radix most bound zero_prefix s =
     (let ds = takeWhile (\<lambda>c. digit_of radix c \<noteq> None) s;
          n = fold (\<lambda>c n. n * radix + the (digit_of radix c)) ds 0 in
      if ds = [] \<or> length ds > most \<or> n > bound \<or> (\<not> zero_prefix \<and> hd ds = CHR ''0'' \<and> length ds > 1) then None
      else Some (n, drop (length ds) s))"

definition read_separator :: "char \<Rightarrow> nat \<Rightarrow> (string \<Rightarrow> 'a option) \<Rightarrow> string \<Rightarrow> 'a option" where
  "read_separator c i f s =
     (if i = 0 then f s else case s of x # xs \<Rightarrow> if x = c then f xs else None | [] \<Rightarrow> None)"

fun read_octets :: "nat \<Rightarrow> nat \<Rightarrow> string \<Rightarrow> (bytes \<times> string) option" where
  "read_octets 0 i s = Some ([], s)"
| "read_octets (Suc k) i s =
     Option.bind (read_separator (CHR ''.'') i (read_number 10 3 255 False) s) (\<lambda>(n, rest).
     map_option (\<lambda>(bs, t). (of_nat n # bs, t)) (read_octets k (Suc i) rest))"

definition parse_ipv4 :: "string \<Rightarrow> ipv4_addr option" where
  "parse_ipv4 s =
     (if length s > 15 then None
      else case read_octets 4 0 s of Some (bs, []) \<Rightarrow> Some (be_word bs) | _ \<Rightarrow> None)"

text \<open>The groups of an IPv6 address from number \<open>i\<close>, at most \<open>k\<close> more, the last two possibly in IPv4 form.\<close>

fun read_groups :: "nat \<Rightarrow> nat \<Rightarrow> string \<Rightarrow> u16 list \<times> bool \<times> string" where
  "read_groups 0 i s = ([], False, s)"
| "read_groups (Suc k) i s =
     (case (if k > 0 then read_separator (CHR '':'') i (read_octets 4 0) s else None) of
        Some (bs, t) \<Rightarrow> ([be_word (take 2 bs), be_word (drop 2 bs)], True, t)
      | None \<Rightarrow>
          (case read_separator (CHR '':'') i (read_number 16 4 65535 True) s of
             None \<Rightarrow> ([], False, s)
           | Some (n, t) \<Rightarrow> (case read_groups k (Suc i) t of (gs, v4, u) \<Rightarrow> (of_nat n # gs, v4, u))))"

definition ipv6_of_groups :: "u16 list \<Rightarrow> ipv6_addr" where
  "ipv6_of_groups gs = be_word (concat (map (be_bytes 2) gs))"

definition parse_ipv6 :: "string \<Rightarrow> ipv6_addr option" where
  "parse_ipv6 s =
     (case read_groups 8 0 s of (head, head_v4, t) \<Rightarrow>
        if length head = 8 then (if t = [] then Some (ipv6_of_groups head) else None)
        else if head_v4 then None
        else Option.bind (strip_prefix ''::'' t) (\<lambda>u.
          case read_groups (7 - length head) 0 u of (tail, _, rest) \<Rightarrow>
            if rest = [] then Some (ipv6_of_groups (head @ replicate (8 - length head - length tail) 0 @ tail)) else None))"

subsection \<open>Attributes\<close>

text \<open>The interpolated value of an attribute; \<open>pr\<close> as in interpolation.\<close>

definition raw_value :: "(nat \<Rightarrow> bool) \<Rightarrow> val_map \<Rightarrow> val_map \<Rightarrow> string \<Rightarrow> val option" where
  "raw_value pr vars attrs key = map_option (interpolate_value pr vars) (map_of attrs key)"

definition raw_required_string :: "(nat \<Rightarrow> bool) \<Rightarrow> val_map \<Rightarrow> val_map \<Rightarrow> string \<Rightarrow> string xres" where
  "raw_required_string pr vars attrs key =
     (case Option.bind (raw_value pr vars attrs key) as_str of
        Some s \<Rightarrow> Inr s
      | None \<Rightarrow> raw_validation (''raw header '' @ bq key @ '' requires a string''))"

definition raw_bool :: "(nat \<Rightarrow> bool) \<Rightarrow> val_map \<Rightarrow> val_map \<Rightarrow> string \<Rightarrow> bool \<Rightarrow> bool xres" where
  "raw_bool pr vars attrs key dflt =
     (case raw_value pr vars attrs key of
        None \<Rightarrow> Inr dflt
      | Some v \<Rightarrow> (case as_bool v of Some b \<Rightarrow> Inr b | None \<Rightarrow> raw_validation (''raw header '' @ bq key @ '' must be boolean'')))"

text \<open>The macro \<open>raw_integer\<close>, at the word type of the result.\<close>

definition raw_optional :: "(nat \<Rightarrow> bool) \<Rightarrow> val_map \<Rightarrow> val_map \<Rightarrow> string \<Rightarrow> 'w::len word option xres" where
  "raw_optional pr vars attrs key =
     (case raw_value pr vars attrs key of
        None \<Rightarrow> Inr None
      | Some v \<Rightarrow>
          (case as_u64 v of
             None \<Rightarrow> raw_validation (''raw header '' @ bq key @ '' must be a non-negative integer'')
           | Some n \<Rightarrow>
               if n < 2 ^ LENGTH('w) then Inr (Some (of_nat n)) else raw_validation (''raw header '' @ bq key @ '' is out of range'')))"

definition raw_integer :: "(nat \<Rightarrow> bool) \<Rightarrow> val_map \<Rightarrow> val_map \<Rightarrow> string \<Rightarrow> 'w::len word \<Rightarrow> 'w word xres" where
  "raw_integer pr vars attrs key dflt = rbind (raw_optional pr vars attrs key) (\<lambda>v. Inr (unwrap_or dflt v))"

definition raw_hex :: "(nat \<Rightarrow> bool) \<Rightarrow> val_map \<Rightarrow> val_map \<Rightarrow> string \<Rightarrow> bytes option xres" where
  "raw_hex pr vars attrs key =
     (case raw_value pr vars attrs key of
        None \<Rightarrow> Inr None
      | Some v \<Rightarrow>
          (case as_str v of
             None \<Rightarrow> raw_validation (key @ '' must be a hex string'')
           | Some s \<Rightarrow> rbind (map_err (FText FkValidation) (parse_hex s)) (\<lambda>bs. Inr (Some bs))))"

definition raw_checksum :: "(nat \<Rightarrow> bool) \<Rightarrow> val_map \<Rightarrow> val_map \<Rightarrow> string \<Rightarrow> checksum xres" where
  "raw_checksum pr vars attrs key =
     (case raw_value pr vars attrs key of
        None \<Rightarrow> Inr CsAuto
      | Some v \<Rightarrow>
          (case as_u64 v of
             Some n \<Rightarrow> if n < 2 ^ 16 then Inr (CsValue (of_nat n)) else raw_validation (key @ '' checksum exceeds u16'')
           | None \<Rightarrow>
               (if as_str v = Some ''auto'' then Inr CsAuto
                else if as_str v = Some ''invalid'' then Inr CsInvalid
                else if as_str v = Some ''zero'' then Inr (CsValue 0)
                else raw_validation (key @ '' checksum must be auto, invalid, zero, or a u16''))))"

definition value_to :: "string \<Rightarrow> val \<Rightarrow> string \<Rightarrow> 'w::len word xres" where
  "value_to ty v context =
     (case as_u64 v of
        Some n \<Rightarrow> if n < 2 ^ LENGTH('w) then Inr (of_nat n) else raw_validation (context @ '' must be a '' @ ty)
      | None \<Rightarrow> raw_validation (context @ '' must be a '' @ ty))"

definition map_required :: "string \<Rightarrow> val_map \<Rightarrow> string \<Rightarrow> string \<Rightarrow> 'w::len word xres" where
  "map_required ty m key context =
     (case map_of m key of
        None \<Rightarrow> raw_validation (context @ '' requires '' @ bq key)
      | Some v \<Rightarrow> value_to ty v context)"

subsection \<open>TCP flags and options\<close>

definition ascii_upper :: "string \<Rightarrow> string" where
  "ascii_upper s = map (\<lambda>c. let n = byte_of c in if 97 \<le> n \<and> n \<le> 122 then char_from (n - 32) else c) s"

fun flags_of :: "val list \<Rightarrow> u16 \<Rightarrow> u16 xres" where
  "flags_of [] acc = Inr acc"
| "flags_of (v # vs) acc =
     (case as_str v of
        None \<Rightarrow> raw_validation ''tcp flags must contain strings''
      | Some name \<Rightarrow>
          (case map_of (map prod.swap tcp_flag_table) (ascii_upper name) of
             None \<Rightarrow> raw_validation (''unknown TCP flag '' @ bq name)
           | Some b \<Rightarrow> flags_of vs (acc OR b)))"

definition raw_tcp_flags :: "(nat \<Rightarrow> bool) \<Rightarrow> val_map \<Rightarrow> val_map \<Rightarrow> u16 xres" where
  "raw_tcp_flags pr vars attrs =
     (case raw_value pr vars attrs ''flags'' of
        None \<Rightarrow> Inr 0
      | Some v \<Rightarrow>
          (case as_u64 v of
             Some n \<Rightarrow> if n < 2 ^ 16 then Inr (of_nat n) else raw_validation ''tcp flags exceed u16''
           | None \<Rightarrow>
               (case as_array v of
                  None \<Rightarrow> raw_validation ''tcp flags must be a number or array of strings''
                | Some vs \<Rightarrow> flags_of vs 0)))"

definition sack_block :: "val \<Rightarrow> (u32 \<times> u32) xres" where
  "sack_block b =
     (case as_array b of
        None \<Rightarrow> raw_validation ''tcp sack block must be [left,right]''
      | Some [l, r] \<Rightarrow>
          rbind (value_to ''u32'' l ''tcp sack left'') (\<lambda>left. rbind (value_to ''u32'' r ''tcp sack right'') (\<lambda>right. Inr (left, right)))
      | Some _ \<Rightarrow> raw_validation ''tcp sack block must have two values'')"

definition tcp_option_object :: "val_map \<Rightarrow> tcp_option xres" where
  "tcp_option_object m =
     (case map_of m ''mss'' of
        Some v \<Rightarrow> rbind (value_to ''u16'' v ''tcp option mss'') (\<lambda>n. Inr (OptMaximumSegmentSize n))
      | None \<Rightarrow>
     (case map_of m ''window_scale'' of
        Some v \<Rightarrow> rbind (value_to ''u8'' v ''tcp option window_scale'') (\<lambda>n. Inr (OptWindowScale n))
      | None \<Rightarrow>
     (case Option.bind (map_of m ''timestamp'') as_object of
        Some t \<Rightarrow>
          rbind (map_required ''u32'' t ''value'' ''tcp timestamp'') (\<lambda>v.
          rbind (map_required ''u32'' t ''echo'' ''tcp timestamp'') (\<lambda>e. Inr (OptTimestamp v e)))
      | None \<Rightarrow>
     (case Option.bind (map_of m ''sack'') as_array of
        Some blocks \<Rightarrow> rbind (rmap sack_block blocks) (\<lambda>bs. Inr (OptSack bs))
      | None \<Rightarrow>
     (case Option.bind (map_of m ''unknown'') as_object of
        Some u \<Rightarrow>
          rbind (map_required ''u8'' u ''kind'' ''unknown tcp option'') (\<lambda>kind.
          case get_str u ''hex'' of
            None \<Rightarrow> raw_validation ''unknown tcp option requires hex''
          | Some h \<Rightarrow> rbind (map_err (FText FkValidation) (parse_hex h)) (\<lambda>data. Inr (OptUnknown kind data)))
      | None \<Rightarrow> raw_validation ''unknown TCP option object'')))))"

definition raw_tcp_option :: "val \<Rightarrow> tcp_option xres" where
  "raw_tcp_option v =
     (case as_str v of
        Some name \<Rightarrow>
          (if name = ''end'' then Inr OptEnd else if name = ''nop'' then Inr OptNop
           else if name = ''sack_permitted'' then Inr OptSackPermitted
           else raw_validation (''unknown TCP option '' @ bq name))
      | None \<Rightarrow>
          (case as_object v of
             None \<Rightarrow> raw_validation ''tcp option must be a string or object''
           | Some m \<Rightarrow> tcp_option_object m))"

definition raw_tcp_options :: "(nat \<Rightarrow> bool) \<Rightarrow> val_map \<Rightarrow> val_map \<Rightarrow> tcp_option list xres" where
  "raw_tcp_options pr vars attrs =
     (case raw_value pr vars attrs ''options'' of
        None \<Rightarrow> Inr []
      | Some v \<Rightarrow> (case as_array v of None \<Rightarrow> raw_validation ''tcp options must be an array'' | Some vs \<Rightarrow> rmap raw_tcp_option vs))"

subsection \<open>Headers\<close>

definition raw_mac :: "(nat \<Rightarrow> bool) \<Rightarrow> val_map \<Rightarrow> val_map \<Rightarrow> string \<Rightarrow> mac_addr xres" where
  "raw_mac pr vars attrs key = rbind (raw_required_string pr vars attrs key) (\<lambda>s. map_err FPacket (mac_from_str s))"

definition build_ethernet_header :: "(nat \<Rightarrow> bool) \<Rightarrow> val_map \<Rightarrow> val_map \<Rightarrow> ethernet_header xres" where
  "build_ethernet_header pr vars attrs =
     rbind (raw_mac pr vars attrs ''source'') (\<lambda>source.
     rbind (raw_mac pr vars attrs ''destination'') (\<lambda>destination.
     rbind (raw_optional pr vars attrs ''vlan_id'') (\<lambda>vid.
     rbind (raw_integer pr vars attrs ''vlan_priority'' 0) (\<lambda>priority.
     rbind (raw_bool pr vars attrs ''vlan_drop_eligible'' False) (\<lambda>drop_eligible.
     if vid = None \<and> (priority \<noteq> 0 \<or> drop_eligible)
     then raw_validation ''ethernet vlan_priority/vlan_drop_eligible require vlan_id''
     else rbind (raw_optional pr vars attrs ''ether_type'') (\<lambda>ether_type.
     Inr \<lparr>eth_destination = destination, eth_source = source,
           eth_vlan = map_option (\<lambda>i. \<lparr>vlan_priority = priority, vlan_drop_eligible = drop_eligible, vlan_id = i\<rparr>) vid,
           eth_ether_type = ether_type\<rparr>))))))"

text \<open>\<open>which\<close> names the attribute in the message, \<open>version\<close> the address family.\<close>

definition raw_address ::
  "(string \<Rightarrow> 'a option) \<Rightarrow> string \<Rightarrow> (nat \<Rightarrow> bool) \<Rightarrow> val_map \<Rightarrow> val_map \<Rightarrow> string \<Rightarrow> 'a xres" where
  "raw_address parse version pr vars attrs key =
     rbind (raw_required_string pr vars attrs key) (\<lambda>s.
     case parse s of
       Some a \<Rightarrow> Inr a
     | None \<Rightarrow> raw_validation (''invalid '' @ version @ '' '' @ key @ '': invalid '' @ version @ '' address syntax''))"

definition build_ipv4_header :: "(nat \<Rightarrow> bool) \<Rightarrow> val_map \<Rightarrow> val_map \<Rightarrow> ipv4_header xres" where
  "build_ipv4_header pr vars attrs =
     rbind (raw_address parse_ipv4 ''IPv4'' pr vars attrs ''source'') (\<lambda>source.
     rbind (raw_address parse_ipv4 ''IPv4'' pr vars attrs ''destination'') (\<lambda>destination.
     rbind (raw_integer pr vars attrs ''dscp'' 0) (\<lambda>dscp.
     rbind (raw_integer pr vars attrs ''ecn'' 0) (\<lambda>ecn.
     rbind (raw_integer pr vars attrs ''id'' 0) (\<lambda>identification.
     rbind (raw_bool pr vars attrs ''dont_fragment'' False) (\<lambda>dont_fragment.
     rbind (raw_bool pr vars attrs ''more_fragments'' False) (\<lambda>more_fragments.
     rbind (raw_integer pr vars attrs ''fragment_offset'' 0) (\<lambda>fragment_offset.
     rbind (raw_integer pr vars attrs ''ttl'' 64) (\<lambda>ttl.
     rbind (raw_optional pr vars attrs ''protocol'') (\<lambda>protocol.
     rbind (raw_hex pr vars attrs ''options'') (\<lambda>options.
     rbind (raw_optional pr vars attrs ''ihl'') (\<lambda>ihl.
     rbind (raw_optional pr vars attrs ''total_length'') (\<lambda>total_length.
     rbind (raw_checksum pr vars attrs ''checksum'') (\<lambda>cs.
     Inr \<lparr>v4_dscp = dscp, v4_ecn = ecn, v4_identification = identification, v4_dont_fragment = dont_fragment,
           v4_more_fragments = more_fragments, v4_fragment_offset = fragment_offset, v4_ttl = ttl, v4_protocol = protocol,
           v4_source = source, v4_destination = destination, v4_options = unwrap_or [] options, v4_ihl = ihl,
           v4_total_length = total_length, v4_checksum = cs\<rparr>))))))))))))))"

definition ipv6_fragment_of :: "byte option \<Rightarrow> byte option \<Rightarrow> u16 option \<Rightarrow> bool \<Rightarrow> u32 option \<Rightarrow> ipv6_fragment option xres" where
  "ipv6_fragment_of configured inferred offset more_fragments ident =
     (if offset \<noteq> None \<or> more_fragments \<or> ident \<noteq> None then
        (case opt_or configured inferred of
           None \<Rightarrow> raw_validation ''IPv6 fragment requires next_header or tcp/udp header''
         | Some nh \<Rightarrow>
             Inr (Some \<lparr>frag_next_header = nh, frag_offset = unwrap_or 0 offset, frag_more_fragments = more_fragments,
                        frag_identification = unwrap_or 0 ident\<rparr>))
      else Inr None)"

definition build_ipv6_header :: "(nat \<Rightarrow> bool) \<Rightarrow> val_map \<Rightarrow> val_map \<Rightarrow> byte option \<Rightarrow> ipv6_header xres" where
  "build_ipv6_header pr vars attrs inferred =
     rbind (raw_optional pr vars attrs ''next_header'') (\<lambda>configured.
     rbind (raw_optional pr vars attrs ''fragment_offset'') (\<lambda>offset.
     rbind (raw_bool pr vars attrs ''more_fragments'' False) (\<lambda>mf.
     rbind (raw_optional pr vars attrs ''fragment_id'') (\<lambda>frag_id.
     rbind (ipv6_fragment_of configured inferred offset mf frag_id) (\<lambda>fragment.
     rbind (raw_integer pr vars attrs ''traffic_class'' 0) (\<lambda>traffic_class.
     rbind (raw_integer pr vars attrs ''flow_label'' 0) (\<lambda>flow_label.
     rbind (raw_optional pr vars attrs ''payload_length'') (\<lambda>payload_length.
     rbind (raw_integer pr vars attrs ''hop_limit'' 64) (\<lambda>hop_limit.
     rbind (raw_address parse_ipv6 ''IPv6'' pr vars attrs ''source'') (\<lambda>source.
     rbind (raw_address parse_ipv6 ''IPv6'' pr vars attrs ''destination'') (\<lambda>destination.
     Inr \<lparr>v6_traffic_class = traffic_class, v6_flow_label = flow_label, v6_payload_length = payload_length,
           v6_next_header = configured, v6_hop_limit = hop_limit, v6_source = source, v6_destination = destination,
           v6_fragment = fragment\<rparr>)))))))))))"

definition build_tcp_header :: "(nat \<Rightarrow> bool) \<Rightarrow> val_map \<Rightarrow> val_map \<Rightarrow> tcp_header xres" where
  "build_tcp_header pr vars attrs =
     rbind (raw_integer pr vars attrs ''source_port'' 0) (\<lambda>source_port.
     rbind (raw_integer pr vars attrs ''destination_port'' 0) (\<lambda>destination_port.
     rbind (raw_integer pr vars attrs ''seq'' 0) (\<lambda>seq.
     rbind (raw_integer pr vars attrs ''ack'' 0) (\<lambda>ack.
     rbind (raw_tcp_flags pr vars attrs) (\<lambda>flags.
     rbind (raw_integer pr vars attrs ''window'' 65535) (\<lambda>window.
     rbind (raw_integer pr vars attrs ''urgent_pointer'' 0) (\<lambda>urgent_pointer.
     rbind (raw_tcp_options pr vars attrs) (\<lambda>options.
     rbind (raw_optional pr vars attrs ''data_offset'') (\<lambda>data_offset.
     rbind (raw_checksum pr vars attrs ''checksum'') (\<lambda>cs.
     Inr \<lparr>tcp_source_port = source_port, tcp_destination_port = destination_port, tcp_sequence = seq, tcp_acknowledgment = ack,
           tcp_flags = flags, tcp_window = window, tcp_urgent_pointer = urgent_pointer, tcp_options = options,
           tcp_data_offset = data_offset, tcp_checksum = cs\<rparr>))))))))))"

definition build_udp_header :: "(nat \<Rightarrow> bool) \<Rightarrow> val_map \<Rightarrow> val_map \<Rightarrow> udp_header xres" where
  "build_udp_header pr vars attrs =
     rbind (raw_integer pr vars attrs ''source_port'' 0) (\<lambda>source_port.
     rbind (raw_integer pr vars attrs ''destination_port'' 0) (\<lambda>destination_port.
     rbind (raw_optional pr vars attrs ''length'') (\<lambda>len.
     rbind (raw_checksum pr vars attrs ''checksum'') (\<lambda>cs.
     Inr \<lparr>udp_source_port = source_port, udp_destination_port = destination_port, udp_length = len, udp_checksum = cs\<rparr>))))"

subsection \<open>Packets\<close>

definition build_transport_header :: "(nat \<Rightarrow> bool) \<Rightarrow> val_map \<Rightarrow> raw_packet_spec \<Rightarrow> transport_header option xres" where
  "build_transport_header pr vars spec =
     (case raw_tcp spec of
        Some attrs \<Rightarrow> rbind (build_tcp_header pr vars attrs) (\<lambda>h. Inr (Some (TransTcp h)))
      | None \<Rightarrow>
          (case raw_udp spec of
             Some attrs \<Rightarrow> rbind (build_udp_header pr vars attrs) (\<lambda>h. Inr (Some (TransUdp h)))
           | None \<Rightarrow> Inr None))"

fun inferred_protocol :: "transport_header option \<Rightarrow> byte option" where
  "inferred_protocol (Some (TransTcp _)) = Some IP_PROTOCOL_TCP"
| "inferred_protocol (Some (TransUdp _)) = Some IP_PROTOCOL_UDP"
| "inferred_protocol None = None"

definition build_network_header :: "(nat \<Rightarrow> bool) \<Rightarrow> val_map \<Rightarrow> raw_packet_spec \<Rightarrow> byte option \<Rightarrow> network_header xres" where
  "build_network_header pr vars spec inferred =
     (case raw_ipv4 spec of
        Some attrs \<Rightarrow> rbind (build_ipv4_header pr vars attrs) (\<lambda>h. Inr (NetIpv4 h))
      | None \<Rightarrow>
          (case raw_ipv6 spec of
             Some attrs \<Rightarrow> rbind (build_ipv6_header pr vars attrs inferred) (\<lambda>h. Inr (NetIpv6 h))
           | None \<Rightarrow> raw_validation ''raw packet requires ipv4 or ipv6''))"

text \<open>The packet a specification describes, before encoding and fragmentation.\<close>

definition raw_packet_of :: "(nat \<Rightarrow> bool) \<Rightarrow> val_map \<Rightarrow> raw_packet_spec \<Rightarrow> bytes \<Rightarrow> packet xres" where
  "raw_packet_of pr vars spec payload =
     rbind (build_transport_header pr vars spec) (\<lambda>transport.
     rbind (build_network_header pr vars spec (inferred_protocol transport)) (\<lambda>network.
     rbind (case raw_ethernet spec of None \<Rightarrow> Inr None | Some attrs \<Rightarrow> rbind (build_ethernet_header pr vars attrs) (\<lambda>h. Inr (Some h))) (\<lambda>ethernet.
     Inr \<lparr>pkt_ethernet = ethernet, pkt_network = network, pkt_transport = transport, pkt_payload = payload\<rparr>)))"

definition build_raw_packets :: "(nat \<Rightarrow> bool) \<Rightarrow> raw_packet_spec \<Rightarrow> val_map \<Rightarrow> bytes \<Rightarrow> bytes list xres" where
  "build_raw_packets pr spec vars payload =
     rbind (raw_packet_of pr vars spec payload) (\<lambda>packet.
     map_err FPacket
       (case raw_mtu spec of
          None \<Rightarrow> rbind (packet_encode packet) (\<lambda>bs. Inr [bs])
        | Some mtu \<Rightarrow>
            (case pkt_network packet of
               NetIpv4 _ \<Rightarrow> fragment_ipv4 packet mtu
             | NetIpv6 _ \<Rightarrow> fragment_ipv6 packet mtu (unwrap_or 0 (raw_fragment_id spec)))))"

fun value_contains_variable :: "val \<Rightarrow> bool" where
  "value_contains_variable (VString s) = str_contains s ''${''"
| "value_contains_variable (VArray vs) = list_ex value_contains_variable vs"
| "value_contains_variable (VObject m) = list_ex (\<lambda>(_, v). value_contains_variable v) m"
| "value_contains_variable _ = False"

definition raw_spec_contains_variable :: "raw_packet_spec \<Rightarrow> bool" where
  "raw_spec_contains_variable spec =
     list_ex (\<lambda>attrs. list_ex (\<lambda>(_, v). value_contains_variable v) (unwrap_or [] attrs))
       [raw_ethernet spec, raw_ipv4 spec, raw_ipv6 spec, raw_tcp spec, raw_udp spec]"

end
