(* ===== verification/Retry.thy ===== *)
theory Retry
  imports Sim_Transport Number_Text
begin

text \<open>
  The delay before a retry, \<open>retry_delay_ms\<close> of \<open>src/src/engine.rs\<close>, with the operations on
  doubles it needs. \<open>powi\<close> is a parameter: the standard library leaves its precision open.
\<close>

subsection \<open>Arithmetic of doubles\<close>

definition f64_is_inf :: "f64 \<Rightarrow> bool" where
  "f64_is_inf w \<longleftrightarrow> f64_exp w = 2047 \<and> f64_frac w = 0"

definition f64_mul :: "f64 \<Rightarrow> f64 \<Rightarrow> f64" where
  "f64_mul v w =
     (let neg = (f64_sign v \<noteq> f64_sign w) in
      if f64_is_nan v \<or> f64_is_nan w then f64_nan
      else if f64_is_inf v \<or> f64_is_inf w then (if f64_magnitude v = 0 \<or> f64_magnitude w = 0 then f64_nan else f64_negate neg f64_inf)
      else f64_of_ratio neg (f64_magnitude v * f64_magnitude w) (2 ^ 2148))"

definition f64_add :: "f64 \<Rightarrow> f64 \<Rightarrow> f64" where
  "f64_add v w =
     (let s = f64_int v + f64_int w in
      if f64_is_nan v \<or> f64_is_nan w \<or> (f64_is_inf v \<and> f64_is_inf w \<and> f64_sign v \<noteq> f64_sign w) then f64_nan
      else if f64_is_inf v then v else if f64_is_inf w then w
      else f64_of_ratio (if s = 0 then f64_sign v \<and> f64_sign w else s < 0) (nat \<bar>s\<bar>) (2 ^ 1074))"

text \<open>\<open>f64::min\<close> and \<open>f64::max\<close> give the other operand when one is NaN.\<close>

definition f64_min :: "f64 \<Rightarrow> f64 \<Rightarrow> f64" where
  "f64_min v w = (if f64_is_nan v then w else if f64_is_nan w \<or> f64_lt v w then v else w)"

definition f64_max :: "f64 \<Rightarrow> f64 \<Rightarrow> f64" where
  "f64_max v w = (if f64_is_nan v then w else if f64_is_nan w \<or> f64_lt w v then v else w)"

definition f64_clamp :: "f64 \<Rightarrow> f64 \<Rightarrow> f64 \<Rightarrow> f64" where
  "f64_clamp v lo hi = (if f64_lt v lo then lo else if f64_lt hi v then hi else v)"

text \<open>\<open>w as u64\<close>: towards zero, saturating, zero for NaN.\<close>

definition f64_as_u64 :: "f64 \<Rightarrow> nat" where
  "f64_as_u64 w = (if f64_is_nan w \<or> f64_sign w then 0 else min (2 ^ 64 - 1) (f64_magnitude w div 2 ^ 1074))"

subsection \<open>The delay\<close>

text \<open>\<open>entropy * 0x9e37.. >> 11\<close> as a number in the unit interval.\<close>

definition retry_unit :: "u64 \<Rightarrow> f64" where
  "retry_unit entropy = f64_scale_down 53 (f64_of_int (int (unat (drop_bit 11 (entropy * splitmix_gamma)))))"

definition retry_base :: "(f64 \<Rightarrow> int \<Rightarrow> f64) \<Rightarrow> retry_policy \<Rightarrow> nat \<Rightarrow> f64" where
  "retry_base pow_i policy attempt =
     f64_max (f64_min (f64_mul (f64_of_int (int (rp_initial_delay_ms policy))) (pow_i (rp_backoff policy) (sint (of_nat (attempt - 1) :: 32 word))))
       (f64_of_int (int (rp_max_delay_ms policy)))) 0"

definition retry_delay_ms :: "(f64 \<Rightarrow> int \<Rightarrow> f64) \<Rightarrow> retry_policy \<Rightarrow> nat \<Rightarrow> u64 \<Rightarrow> nat" where
  "retry_delay_ms pow_i policy attempt entropy =
     (let base = retry_base pow_i policy attempt; one = f64_of_int 1 in
      if f64_eq (rp_jitter policy) 0 \<or> f64_eq base 0 then f64_as_u64 base
      else
        let factor = f64_add one (f64_mul (f64_add (f64_mul (retry_unit entropy) (f64_of_int 2)) (f64_of_int (- 1))) (rp_jitter policy))
        in f64_as_u64 (f64_clamp (f64_mul base factor) 0 (f64_of_int (int (rp_max_delay_ms policy)))))"

subsection \<open>Bounds\<close>

lemma f64_as_u64_int: "\<not> f64_is_nan w \<Longrightarrow> f64_as_u64 w = nat (min (2 ^ 64 - 1) (f64_int w div f64_unit))"
proof (cases "f64_sign w")
  case True
  have "- int (f64_magnitude w) div f64_unit \<le> 0"
    using f64_unit_pos by (simp add: div_nonpos_pos_le0)
  then show ?thesis using True by (simp add: f64_as_u64_def f64_int_def)
next
  case False
  assume "\<not> f64_is_nan w"
  moreover have "f64_int w div f64_unit = int (f64_magnitude w div 2 ^ 1074)"
    using False unfolding f64_int_def f64_unit_def by (simp only: if_False of_nat_div of_nat_power of_nat_numeral)
  moreover have "nat (min (2 ^ 64 - 1) (int k)) = min (2 ^ 64 - 1) k" for k by (simp add: min_def)
  ultimately show ?thesis using False by (simp only: f64_as_u64_def if_False simp_thms)
qed

lemma f64_as_u64_mono:
  "\<not> f64_is_nan v \<Longrightarrow> \<not> f64_is_nan w \<Longrightarrow> f64_int v \<le> f64_int w \<Longrightarrow> f64_as_u64 v \<le> f64_as_u64 w"
  unfolding f64_as_u64_int using f64_unit_pos
  by (intro nat_mono min.mono order_refl zdiv_mono1) simp_all

lemma f64_min_le:
  "\<not> f64_is_nan w \<Longrightarrow> \<not> f64_is_nan (f64_min v w) \<and> f64_int (f64_min v w) \<le> f64_int w"
  by (auto simp: f64_min_def f64_lt_def)

lemma f64_max_le:
  "\<not> f64_is_nan v \<Longrightarrow> \<not> f64_is_nan w \<Longrightarrow> \<not> f64_is_nan (f64_max v w) \<and> f64_int (f64_max v w) = max (f64_int v) (f64_int w)"
  by (auto simp: f64_max_def f64_lt_def)

lemma f64_zero: "\<not> f64_is_nan 0" "f64_int 0 = 0"
  by (simp_all add: f64_is_nan_def f64_exp_def f64_int_def f64_magnitude_def f64_frac_def)

lemma f64_as_u64_exact: "n < 2 ^ 53 \<Longrightarrow> f64_as_u64 (f64_of_int (int n)) = n"
  using f64_of_int_small [of "int n"] f64_unit_pos by (simp add: f64_as_u64_int)

text \<open>
  The delay before a retry never exceeds the configured maximum, whatever the backoff
  factor, the attempt, the jitter and the number it is drawn from, for maxima that a double
  holds exactly.
\<close>

theorem retry_delay_bounded:
  assumes "rp_max_delay_ms policy < 2 ^ 53"
  shows "retry_delay_ms pow_i policy attempt entropy \<le> rp_max_delay_ms policy"
proof -
  let ?mx = "f64_of_int (int (rp_max_delay_ms policy))" and ?base = "retry_base pow_i policy attempt"
  have mx: "\<not> f64_is_nan ?mx" "f64_int ?mx = int (rp_max_delay_ms policy) * f64_unit" "0 \<le> f64_int ?mx"
    using f64_of_int_small [of "int (rp_max_delay_ms policy)"] assms f64_unit_pos by simp_all
  have cap: "f64_as_u64 w \<le> rp_max_delay_ms policy" if "\<not> f64_is_nan w \<longrightarrow> f64_int w \<le> f64_int ?mx" for w
    using f64_as_u64_mono [of w ?mx] mx(1) that f64_as_u64_exact [OF assms] by (cases "f64_is_nan w") (auto simp: f64_as_u64_def)
  have "f64_int ?base \<le> f64_int ?mx"
    using f64_max_le [OF conjunct1 [OF f64_min_le [OF mx(1)]] f64_zero(1)] f64_min_le [OF mx(1)] mx(3)
    by (auto simp: retry_base_def f64_zero)
  moreover have "f64_int (f64_clamp v 0 ?mx) \<le> f64_int ?mx" if "\<not> f64_is_nan (f64_clamp v 0 ?mx)" for v
    using that mx f64_zero by (auto simp: f64_clamp_def f64_lt_def split: if_splits)
  ultimately show ?thesis using cap by (simp add: retry_delay_ms_def Let_def)
qed

lemma retry_delay_bounded_witness:
  "retry_delay_ms (\<lambda>_ _. f64_inf) (default_retry_policy\<lparr>rp_initial_delay_ms := 7\<rparr>) 3 5 \<le> 60000"
  using retry_delay_bounded [of "default_retry_policy\<lparr>rp_initial_delay_ms := 7\<rparr>"] by (simp add: default_retry_policy_def)

text \<open>
  A power that overflows meets an initial delay of zero as \<open>0 * inf\<close>, which is NaN, and the
  minimum with NaN is the maximal delay: the step without a delay then waits the longest.
\<close>

lemma retry_overflow_waits:
  assumes "rp_initial_delay_ms policy = 0" and "rp_max_delay_ms policy < 2 ^ 53" and "f64_eq (rp_jitter policy) 0"
  shows "retry_delay_ms (\<lambda>_ _. f64_inf) policy attempt entropy = rp_max_delay_ms policy"
proof -
  let ?mx = "f64_of_int (int (rp_max_delay_ms policy))"
  have mx: "\<not> f64_is_nan ?mx" "f64_int ?mx = int (rp_max_delay_ms policy) * f64_unit"
    using f64_of_int_small [of "int (rp_max_delay_ms policy)"] assms(2) by simp_all
  have "f64_int (f64_of_int 0) = 0" "\<not> f64_is_nan (f64_of_int 0)" using f64_of_int_small [of 0] by simp_all
  then have "f64_magnitude (f64_of_int 0) = 0" by (simp add: f64_int_def split: if_splits)
  moreover have "f64_is_inf f64_inf" "\<not> f64_is_nan f64_inf" "f64_is_nan f64_nan"
    by (simp_all add: f64_is_inf_def f64_is_nan_def f64_exp_def f64_frac_def f64_inf_def f64_nan_def)
  ultimately have "f64_is_nan (f64_mul (f64_of_int 0) f64_inf)"
    using \<open>\<not> f64_is_nan (f64_of_int 0)\<close> by (simp add: f64_mul_def Let_def)
  then have "retry_base (\<lambda>_ _. f64_inf) policy attempt = f64_max ?mx 0"
    by (simp add: retry_base_def assms(1) f64_min_def)
  moreover have "f64_as_u64 (f64_max ?mx 0) = f64_as_u64 ?mx"
    using f64_max_le [OF mx(1) f64_zero(1)] mx f64_unit_pos by (simp add: f64_as_u64_int f64_zero)
  ultimately show ?thesis using assms(2,3) f64_as_u64_exact by (simp add: retry_delay_ms_def Let_def)
qed

end
