(* ===== verification/Engine_State.thy ===== *)
theory Engine_State
  imports Raw_Build Retry
begin

text \<open>
  The state of a run (\<open>src/src/engine.rs\<close>): \<open>RoleState\<close>, which one role owns, and \<open>Sim\<close>, which
  the role threads share behind locks and atomics, with the operations of \<open>impl Sim\<close>.
  Recording an event takes two steps, as in the code: it is numbered, and pushed onto the trace
  later, so that events of other roles may come in between; what is numbered and not yet pushed
  is in \<open>si_open\<close>. The monotonic clock is a field that the environment moves. A trace observer is not
  modelled: it sees the events that the trace holds. Texts of events that quote a failure hold
  the failure value.
\<close>

subsection \<open>Events\<close>

datatype network_protocol = NpTcp | NpUdp | NpTls | NpRaw | NpWebSocket | NpQuic

text \<open>The text of an event, or the failure it reports: plain, and with the attempt and the limit of a retry.\<close>

datatype detail = DText string | DFailure exec_failure | DRetry nat nat exec_failure

record event =
  ev_role :: string
  ev_step :: string
  ev_action :: action
  ev_ok :: bool
  ev_detail :: detail
  ev_flags :: "string list"
  ev_seq_num :: "int option"
  ev_ack_num :: "int option"
  ev_peer :: "string option"

record trace_event =
  tv_seq :: nat
  tv_event :: event
  tv_requirements :: "string list"
  tv_wire_data :: bytes
  tv_timestamp_us :: nat
  tv_timestamp_ns :: nat
  tv_network :: network_protocol

definition plain_event :: "string \<Rightarrow> string \<Rightarrow> action \<Rightarrow> bool \<Rightarrow> detail \<Rightarrow> event" where
  "plain_event role step action ok d =
     \<lparr>ev_role = role, ev_step = step, ev_action = action, ev_ok = ok, ev_detail = d, ev_flags = [], ev_seq_num = None,
      ev_ack_num = None, ev_peer = None\<rparr>"

subsection \<open>Roles\<close>

record last_transmission =
  lt_step_name :: string
  lt_action :: action
  lt_to :: string
  lt_messages :: "message list"
  lt_label :: string
  lt_delay_ms :: nat

record role_state =
  rs_protocol_state :: string
  rs_next_seq :: int
  rs_last_recv_seq :: int
  rs_last_recv_payload_len :: int
  rs_last_recv_ack :: int
  rs_last_recv_flags :: "string list"
  rs_last_recv_from :: string
  rs_last_recv_window :: int
  rs_last_recv_stream :: "int option"
  rs_last_recv_fields :: val_map
  rs_last_recv_raw :: bytes
  rs_raw_tcp_state :: tcp_state
  rs_last_sent_seq :: int
  rs_last_sent_ack :: int
  rs_last_sent_flags :: "string list"
  rs_last_sent_to :: string
  rs_last_sent_window :: int
  rs_last_sent_stream :: "int option"
  rs_send_count :: nat
  rs_recv_count :: nat
  rs_aborted :: bool
  rs_vars :: val_map
  rs_last_transmission :: "last_transmission option"
  rs_raw_tcp_tracker :: tcp_state_tracker

definition new_with_vars :: "val_map \<Rightarrow> role_state" where
  "new_with_vars vars =
     \<lparr>rs_protocol_state = ''initial'', rs_next_seq = 1000, rs_last_recv_seq = 0, rs_last_recv_payload_len = 0, rs_last_recv_ack = 0,
      rs_last_recv_flags = [], rs_last_recv_from = [], rs_last_recv_window = 0, rs_last_recv_stream = None, rs_last_recv_fields = [],
      rs_last_recv_raw = [], rs_raw_tcp_state = Closed, rs_last_sent_seq = 0, rs_last_sent_ack = 0, rs_last_sent_flags = [],
      rs_last_sent_to = [], rs_last_sent_window = 0, rs_last_sent_stream = None, rs_send_count = 0, rs_recv_count = 0,
      rs_aborted = False, rs_vars = vars, rs_last_transmission = None, rs_raw_tcp_tracker = default_tracker\<rparr>"

text \<open>What an \<open>assert\<close> key means.\<close>

definition resolve_state_value :: "role_state \<Rightarrow> string \<Rightarrow> val option" where
  "resolve_state_value st key =
     (if key = ''send_count'' then Some (i64_val (int (rs_send_count st)))
      else if key = ''recv_count'' then Some (i64_val (int (rs_recv_count st)))
      else if key = ''next_seq'' then Some (i64_val (rs_next_seq st))
      else if key = ''last_recv_seq'' then Some (i64_val (rs_last_recv_seq st))
      else if key = ''last_recv_ack'' then Some (i64_val (rs_last_recv_ack st))
      else if key = ''last_recv_from'' then Some (VString (rs_last_recv_from st))
      else if key = ''last_recv_window'' then Some (i64_val (rs_last_recv_window st))
      else if key = ''last_sent_seq'' then Some (i64_val (rs_last_sent_seq st))
      else if key = ''last_sent_ack'' then Some (i64_val (rs_last_sent_ack st))
      else if key = ''last_sent_to'' then Some (VString (rs_last_sent_to st))
      else if key = ''last_sent_window'' then Some (i64_val (rs_last_sent_window st))
      else if key = ''aborted'' then Some (VBool (rs_aborted st))
      else if key = ''last_recv_hex'' then
        Some (if rs_last_recv_raw st = [] then VString [] else VBytes (rs_last_recv_raw st))
      else case strip_prefix ''recv_field:'' key of
          Some name \<Rightarrow> map_of (rs_last_recv_fields st) name
        | None \<Rightarrow> map_of (rs_vars st) key)"

subsection \<open>The shared state\<close>

type_synonym sim_failure = "string \<times> exec_failure"

record sim =
  si_transport :: transport
  si_completed :: "string list"
  si_trace :: "trace_event list"
  si_open :: "trace_event list"
  si_error :: "sim_failure option"
  si_counter :: nat
  si_all_roles :: "string list"
  si_clock :: clock_mode
  si_now_ns :: nat
  si_virtual_ms :: nat
  si_max_trace :: nat
  si_max_payload :: nat
  si_max_inbox :: nat
  si_max_runtime_ms :: nat
  si_raw_tcp_stateful :: bool
  si_network :: network_protocol
  si_allow_plugins :: bool
  si_step_requirements :: "(string \<times> string list) list"

definition u64_max :: nat where
  "u64_max = 2 ^ 64 - 1"

definition elapsed_ms :: "sim \<Rightarrow> nat" where
  "elapsed_ms s = (if si_clock s = ClockVirtual then si_virtual_ms s else min (si_now_ns s div 1000000) u64_max)"

text \<open>Only the first failure of a run is kept.\<close>

definition set_failure :: "string \<Rightarrow> exec_failure \<Rightarrow> sim \<Rightarrow> sim" where
  "set_failure role f s = (if si_error s = None then s\<lparr>si_error := Some (role, f)\<rparr> else s)"

definition set_error :: "string \<Rightarrow> string \<Rightarrow> sim \<Rightarrow> sim" where
  "set_error role msg = set_failure role (FText FkRuntime msg)"

definition failed :: "sim \<Rightarrow> bool" where
  "failed s \<longleftrightarrow> si_error s \<noteq> None"

definition enforce_runtime :: "string \<Rightarrow> sim \<Rightarrow> sim \<times> bool" where
  "enforce_runtime role s =
     (if elapsed_ms s \<le> si_max_runtime_ms s then (s, False)
      else (set_failure role (FText FkResourceLimit
        (''runtime reached limits.max_runtime='' @ decimal (si_max_runtime_ms s) @ ''ms (elapsed '' @ decimal (elapsed_ms s) @ ''ms)'')) s, True))"

definition timestamp_ns :: "sim \<Rightarrow> nat" where
  "timestamp_ns s = (if si_clock s = ClockVirtual then si_virtual_ms s * 1000000 else si_now_ns s)"

text \<open>The event gets its number and is ready to be pushed.\<close>

definition record_with_network :: "event \<Rightarrow> bytes \<Rightarrow> network_protocol \<Rightarrow> sim \<Rightarrow> sim" where
  "record_with_network ev wire net s =
     (let seq = si_counter s; s' = s\<lparr>si_counter := Suc seq\<rparr> in
      if seq \<ge> si_max_trace s
      then set_failure (ev_role ev) (FText FkResourceLimit (''trace reached max_trace '' @ decimal (si_max_trace s))) s'
      else s'\<lparr>si_open := si_open s @
             [\<lparr>tv_seq = seq, tv_event = ev, tv_requirements = unwrap_or [] (map_of (si_step_requirements s) (ev_step ev)),
               tv_wire_data = wire, tv_timestamp_us = min (timestamp_ns s div 1000) u64_max, tv_timestamp_ns = timestamp_ns s,
               tv_network = net\<rparr>]\<rparr>)"

definition record_with_wire :: "event \<Rightarrow> bytes \<Rightarrow> sim \<Rightarrow> sim" where
  "record_with_wire ev wire s = record_with_network ev wire (si_network s) s"

definition record_event :: "event \<Rightarrow> sim \<Rightarrow> sim" where
  "record_event ev = record_with_wire ev []"

text \<open>
  The push: an open event goes to the end of the trace. Each role is one thread, so its
  events are pushed in the order in which they were numbered, and it does not go on before
  they are.
\<close>

definition event_of :: "string \<Rightarrow> trace_event \<Rightarrow> bool" where
  "event_of role e \<longleftrightarrow> ev_role (tv_event e) = role"

definition may_push :: "nat \<Rightarrow> sim \<Rightarrow> bool" where
  "may_push k s \<longleftrightarrow> k < length (si_open s) \<and> \<not> list_ex (event_of (ev_role (tv_event (si_open s ! k)))) (take k (si_open s))"

definition push_event :: "nat \<Rightarrow> sim \<Rightarrow> sim" where
  "push_event k s = s\<lparr>si_trace := si_trace s @ [si_open s ! k], si_open := take k (si_open s) @ drop (Suc k) (si_open s)\<rparr>"

definition pushed_all :: "string \<Rightarrow> sim \<Rightarrow> bool" where
  "pushed_all role s \<longleftrightarrow> \<not> list_ex (event_of role) (si_open s)"

text \<open>The virtual clock is an atomic \<open>u64\<close>, which wraps.\<close>

definition advance :: "nat \<Rightarrow> sim \<Rightarrow> sim" where
  "advance ms s = (if si_clock s = ClockVirtual then s\<lparr>si_virtual_ms := (si_virtual_ms s + ms) mod 2 ^ 64\<rparr> else s)"

text \<open>Sleeping moves the clock by at least the time asked for.\<close>

definition sim_sleep :: "nat \<Rightarrow> sim \<Rightarrow> sim" where
  "sim_sleep ms s = (if si_clock s = ClockVirtual then advance ms s else s\<lparr>si_now_ns := si_now_ns s + ms * 1000000\<rparr>)"

definition mark_done :: "string \<Rightarrow> sim \<Rightarrow> sim" where
  "mark_done step s = s\<lparr>si_completed := List.insert step (si_completed s)\<rparr>"

definition deps_done :: "string list \<Rightarrow> sim \<Rightarrow> bool" where
  "deps_done deps s \<longleftrightarrow> list_all (\<lambda>d. d \<in> set (si_completed s)) deps"

subsection \<open>Programs over the state\<close>

text \<open>
  What a role runs: it changes both states and answers, or it is still waiting (\<open>None\<close>). What
  it changed before a failure stays changed.
\<close>

type_synonym world = "sim \<times> role_state"

type_synonym 'a exec = "world \<Rightarrow> (world \<times> 'a xres) option"

definition ereturn :: "'a \<Rightarrow> 'a exec" where
  "ereturn x w = Some (w, Inr x)"

definition elift :: "'a xres \<Rightarrow> 'a exec" where
  "elift r w = Some (w, r)"

definition efail :: "failure_kind \<Rightarrow> string \<Rightarrow> 'a exec" where
  "efail k msg = elift (Inl (Fail (FText k msg)))"

definition ebind :: "'a exec \<Rightarrow> ('a \<Rightarrow> 'b exec) \<Rightarrow> 'b exec" where
  "ebind m f w =
     (case m w of
        None \<Rightarrow> None
      | Some (w', Inl e) \<Rightarrow> Some (w', Inl e)
      | Some (w', Inr x) \<Rightarrow> f x w')"

definition on_sim :: "(sim \<Rightarrow> sim) \<Rightarrow> unit exec" where
  "on_sim f w = Some ((f (fst w), snd w), Inr ())"

definition on_role :: "(role_state \<Rightarrow> role_state) \<Rightarrow> unit exec" where
  "on_role f w = Some ((fst w, f (snd w)), Inr ())"

definition get_sim :: "(sim \<Rightarrow> 'a exec) \<Rightarrow> 'a exec" where
  "get_sim f w = f (fst w) w"

definition get_role :: "(role_state \<Rightarrow> 'a exec) \<Rightarrow> 'a exec" where
  "get_role f w = f (snd w) w"

fun each :: "('a \<Rightarrow> unit exec) \<Rightarrow> 'a list \<Rightarrow> unit exec" where
  "each f [] = ereturn ()"
| "each f (x # xs) = ebind (f x) (\<lambda>_. each f xs)"

text \<open>Addition of two \<open>i64\<close>; an overflow panics.\<close>

definition i64_add :: "int \<Rightarrow> int \<Rightarrow> int xres" where
  "i64_add a b = (if - (2 ^ 63) \<le> a + b \<and> a + b < 2 ^ 63 then Inr (a + b) else Inl Panic)"

end
