(* ===== verification/Engine_Step.thy ===== *)
theory Engine_Step
  imports Engine_State
begin

text \<open>
  One step of a role: \<open>execute_step\<close> of \<open>src/src/engine.rs\<close> with its helpers, action by action.
  A step runs without operations of other roles in between, except while a receive waits: what
  the queue is then comes from the wake-ups of that receive. Sockets, the plugin process,
  the regex crate and \<open>powi\<close> are the parameters in \<open>exec_env\<close>. Maps are visited in the order of
  their keys, where the code has the order of a \<open>HashMap\<close>.
\<close>

unbundle bit_operations_syntax

subsection \<open>Environment\<close>

text \<open>The reply of a plugin, with the parts the engine looks at.\<close>

record plugin_result =
  pg_matched :: "bool option"
  pg_vars :: val_map
  pg_fields :: val_map
  pg_detail :: "string option"
  pg_value :: val

record exec_env =
  xe_regex :: "string \<Rightarrow> string \<Rightarrow> bool"
  xe_compiles :: "string \<Rightarrow> bool"
  xe_printable :: "nat \<Rightarrow> bool"
  xe_sock :: "string \<Rightarrow> message \<Rightarrow> string option"
  xe_half_close :: "string \<Rightarrow> string option"
  xe_plugin :: "plugin_spec \<Rightarrow> step_spec \<Rightarrow> role_state \<Rightarrow> val \<Rightarrow> plugin_result xres"
  xe_pow :: "f64 \<Rightarrow> int \<Rightarrow> f64"

definition default_recv_timeout_ms :: nat where
  "default_recv_timeout_ms = 2000"

definition default_segment :: segment where
  "default_segment =
     \<lparr>sg_flags = [], sg_seq = None, sg_ack = None, sg_payload = None, sg_hex = None, sg_payload_len = None, sg_window = None,
      sg_stream = None, sg_fields = [], sg_delay_ms = 0, sg_flip_bit = None\<rparr>"

definition step_timeout :: "nat \<Rightarrow> step_spec \<Rightarrow> nat" where
  "step_timeout dflt step = (case st_timer step of Some t \<Rightarrow> tm_timeout_ms t | None \<Rightarrow> dflt)"

definition step_segment :: "step_spec \<Rightarrow> segment" where
  "step_segment step = unwrap_or default_segment (st_segment step)"

subsection \<open>Receiving\<close>

definition apply_received :: "string \<Rightarrow> received option \<Rightarrow> message exec" where
  "apply_received role r w =
     (case r of
        None \<Rightarrow> None
      | Some (q, adv, out) \<Rightarrow>
          (let s = fst w in
           Some ((advance adv (s\<lparr>si_transport := set_inbox role q (si_transport s)\<rparr>), snd w), map_err FReceive out)))"

definition role_queue :: "string \<Rightarrow> sim \<Rightarrow> message list" where
  "role_queue role s = unwrap_or [] (inbox (si_transport s) role)"

definition do_recv :: "exec_env \<Rightarrow> wake list \<Rightarrow> string \<Rightarrow> expect \<Rightarrow> nat \<Rightarrow> message exec" where
  "do_recv env wk role e ms =
     get_sim (\<lambda>s. apply_received role (recv_match (xe_regex env) e ms (role_queue role s) wk))"

definition do_recv_raw :: "exec_env \<Rightarrow> wake list \<Rightarrow> (nat \<Rightarrow> nat) \<Rightarrow> string \<Rightarrow> expect \<Rightarrow> nat \<Rightarrow> message exec" where
  "do_recv_raw env wk ck role e ms =
     get_sim (\<lambda>s. apply_received role
       (recv_raw_match (xe_regex env) e ms (si_max_inbox s) (si_max_payload s) ck (role_queue role s) wk))"

definition note_received :: "message \<Rightarrow> role_state \<Rightarrow> role_state" where
  "note_received m st =
     st\<lparr>rs_recv_count := Suc (rs_recv_count st), rs_last_recv_seq := ms_seq m,
        rs_last_recv_payload_len := max 1 (int (payload_len m)), rs_last_recv_ack := ms_ack m, rs_last_recv_flags := ms_flags m,
        rs_last_recv_from := ms_from m, rs_last_recv_window := ms_window m, rs_last_recv_stream := ms_stream m,
        rs_last_recv_fields := ms_fields m, rs_last_recv_raw := ms_raw m\<rparr>"

definition step_expect :: "exec_env \<Rightarrow> expect \<Rightarrow> role_state \<Rightarrow> expect" where
  "step_expect env e st = expect_interpolate (xe_compiles env) (xe_printable env) (rs_vars st) e"

text \<open>The receive before a send, an acknowledgment or a rejection.\<close>

definition receive_before :: "exec_env \<Rightarrow> wake list \<Rightarrow> string \<Rightarrow> step_spec \<Rightarrow> unit exec" where
  "receive_before env wk role step =
     (case st_expect step of
        None \<Rightarrow> ereturn ()
      | Some e \<Rightarrow>
          get_role (\<lambda>st.
          ebind (do_recv env wk role (step_expect env e st) (step_timeout default_recv_timeout_ms step)) (\<lambda>m.
          on_role (note_received m))))"

subsection \<open>Sending\<close>

definition resolve_to :: "step_spec \<Rightarrow> string list \<Rightarrow> string xres" where
  "resolve_to step all_roles =
     (case st_to step of
        Some to \<Rightarrow> Inr to
      | None \<Rightarrow>
          (case filter (\<lambda>r. r \<noteq> st_role step) all_roles of
             [r] \<Rightarrow> Inr r
           | [] \<Rightarrow> Inl (Fail (FText FkRuntime (''step '' @ bq (st_name step) @ '' has no peer role to send to'')))
           | _ \<Rightarrow> Inl (Fail (FText FkRuntime
               (''step '' @ bq (st_name step) @ '' send is ambiguous (multiple peer roles); set `to = ...`'')))))"

definition join_flags :: "string list \<Rightarrow> string" where
  "join_flags flags = (if flags = [] then ''-'' else join '','' flags)"

definition ellipsis :: string where
  "ellipsis = string_of [0xe2, 0x80, 0xa6]"

definition hex_preview :: "bytes \<Rightarrow> string" where
  "hex_preview raw =
     (if raw = [] then []
      else let h = bytes_to_hex raw
        in '' hex='' @ (if length h > 32 then take 32 h @ ellipsis @ ''('' @ decimal (length raw) @ '' bytes)'' else h))"

definition wire_bytes :: "message \<Rightarrow> bytes" where
  "wire_bytes m = (if ms_raw m = [] then bytes_of (ms_payload m) else ms_raw m)"

definition fault_note :: "delivery_report \<Rightarrow> string" where
  "fault_note d =
     (let notes = (if dr_dropped d then [''dropped''] else []) @ (if dr_reordered d then [''reordered''] else []) @
                  (if dr_duplicated d then [''duplicated''] else []) @ (if dr_corrupted d then [''corrupted''] else [])
      in if notes = [] then [] else '' transport='' @ join '','' notes)"

definition note_sent :: "string \<Rightarrow> message \<Rightarrow> last_transmission \<Rightarrow> role_state \<Rightarrow> role_state" where
  "note_sent to m snapshot st =
     st\<lparr>rs_send_count := Suc (rs_send_count st), rs_last_sent_seq := ms_seq m, rs_last_sent_ack := ms_ack m,
        rs_last_sent_flags := ms_flags m, rs_last_sent_to := to, rs_last_sent_window := ms_window m,
        rs_last_sent_stream := ms_stream m, rs_last_transmission := Some snapshot\<rparr>"

definition sent_event :: "string \<Rightarrow> action \<Rightarrow> string \<Rightarrow> message \<Rightarrow> string \<Rightarrow> nat \<Rightarrow> delivery_report \<Rightarrow> event" where
  "sent_event step_name action to m label delay_ms d =
     \<lparr>ev_role = ms_from m, ev_step = step_name, ev_action = action, ev_ok = True,
      ev_detail = DText (label @ '' -> '' @ to @ '' flags='' @ join_flags (ms_flags m) @ '' seq='' @ decimal_int (ms_seq m) @
        '' ack='' @ decimal_int (ms_ack m) @ hex_preview (ms_raw m) @
        (if delay_ms > 0 then '' delay='' @ decimal delay_ms @ ''ms'' else []) @ fault_note d),
      ev_flags = ms_flags m, ev_seq_num = Some (ms_seq m), ev_ack_num = Some (ms_ack m), ev_peer = Some to\<rparr>"

definition step_network :: "action \<Rightarrow> sim \<Rightarrow> network_protocol" where
  "step_network action s = (if action = ASendRaw \<or> action = ARecvRaw then NpRaw else si_network s)"

definition transmit :: "exec_env \<Rightarrow> string \<Rightarrow> action \<Rightarrow> string \<Rightarrow> message \<Rightarrow> string \<Rightarrow> nat \<Rightarrow> unit exec" where
  "transmit env step_name action to m label delay_ms =
     get_sim (\<lambda>s.
     case send_scoped (xe_sock env) (si_transport s) to m delay_ms (Some step_name) of
       (t, Inl e) \<Rightarrow> ebind (on_sim (\<lambda>s. s\<lparr>si_transport := t\<rparr>)) (\<lambda>_. elift (map_err FTransport (Inl e)))
     | (t, Inr d) \<Rightarrow>
         ebind (on_sim (\<lambda>s. advance (dr_delay_ms d) (s\<lparr>si_transport := t\<rparr>))) (\<lambda>_.
         ebind (on_role (note_sent to m \<lparr>lt_step_name = step_name, lt_action = action, lt_to = to, lt_messages = [m],
                                         lt_label = label, lt_delay_ms = delay_ms\<rparr>)) (\<lambda>_.
         on_sim (\<lambda>s. record_with_network (sent_event step_name action to m label delay_ms d) (wire_bytes m) (step_network action s) s))))"

definition retransmit_snapshot :: "exec_env \<Rightarrow> last_transmission \<Rightarrow> unit exec" where
  "retransmit_snapshot env l =
     ebind (each (\<lambda>m. transmit env (lt_step_name l) (lt_action l) (lt_to l) m (lt_label l) (lt_delay_ms l)) (lt_messages l)) (\<lambda>_.
     on_role (\<lambda>st. st\<lparr>rs_last_transmission := Some l\<rparr>))"

definition outbound_message :: "string \<Rightarrow> string list \<Rightarrow> int \<Rightarrow> int \<Rightarrow> segment \<Rightarrow> val_map \<times> string \<times> bytes \<Rightarrow> message" where
  "outbound_message role flags seq ack seg out =
     \<lparr>ms_from = role, ms_flags = flags, ms_seq = seq, ms_ack = ack, ms_payload = fst (snd out), ms_raw = snd (snd out),
      ms_window = unwrap_or 0 (sg_window seg), ms_stream = sg_stream seg, ms_fields = fst out\<rparr>"

definition outbound :: "exec_env \<Rightarrow> segment \<Rightarrow> (val_map \<times> string \<times> bytes) exec" where
  "outbound env seg = get_role (\<lambda>st. elift (map_err (FText FkRuntime) (build_outbound (xe_printable env) seg (rs_vars st))))"

definition sequence_len :: "segment \<Rightarrow> message \<Rightarrow> int" where
  "sequence_len seg m =
     unwrap_or (if ms_raw m \<noteq> [] then int (length (ms_raw m)) else int (length (ms_payload m))) (sg_payload_len seg)"

definition advance_seq :: "int \<Rightarrow> int \<Rightarrow> unit exec" where
  "advance_seq seq n = ebind (elift (i64_add seq (max 1 n))) (\<lambda>x. on_role (\<lambda>st. st\<lparr>rs_next_seq := x\<rparr>))"

definition send_action :: "exec_env \<Rightarrow> wake list \<Rightarrow> string \<Rightarrow> step_spec \<Rightarrow> unit exec" where
  "send_action env wk role step =
     ebind (receive_before env wk role step) (\<lambda>_.
     get_sim (\<lambda>s.
     ebind (elift (resolve_to step (si_all_roles s))) (\<lambda>to.
     get_role (\<lambda>st.
     let seg = step_segment step; seq = unwrap_or (rs_next_seq st) (sg_seq seg) in
     ebind (if st_action step = AAck
            then ebind (elift (i64_add (rs_last_recv_seq st) (max 1 (rs_last_recv_payload_len st)))) (\<lambda>next_ack.
              ereturn (unwrap_or next_ack (sg_ack seg)))
            else ereturn (unwrap_or 0 (sg_ack seg))) (\<lambda>ack.
     ebind (outbound env seg) (\<lambda>out.
     let m = outbound_message role (sg_flags seg) seq ack seg out in
     ebind (transmit env (st_name step) (st_action step) to m (action_as_str (st_action step)) (sg_delay_ms seg)) (\<lambda>_.
     advance_seq seq (sequence_len seg m))))))))"

definition nack_action :: "exec_env \<Rightarrow> wake list \<Rightarrow> string \<Rightarrow> step_spec \<Rightarrow> unit exec" where
  "nack_action env wk role step =
     ebind (receive_before env wk role step) (\<lambda>_.
     get_sim (\<lambda>s.
     ebind (elift (resolve_to step (si_all_roles s))) (\<lambda>to.
     get_role (\<lambda>st.
     let seg = step_segment step; seq = unwrap_or (rs_next_seq st) (sg_seq seg); ack = unwrap_or (rs_last_recv_seq st) (sg_ack seg);
         flags = (if sg_flags seg = [] then [''NACK''] else sg_flags seg) in
     ebind (outbound env seg) (\<lambda>out.
     let m = outbound_message role flags seq ack seg out in
     ebind (transmit env (st_name step) (st_action step) to m ''nack'' (sg_delay_ms seg)) (\<lambda>_.
     advance_seq seq (sequence_len seg m)))))))"

definition reset_action :: "exec_env \<Rightarrow> string \<Rightarrow> step_spec \<Rightarrow> unit exec" where
  "reset_action env role step =
     get_sim (\<lambda>s.
     ebind (elift (resolve_to step (si_all_roles s))) (\<lambda>to.
     get_role (\<lambda>st.
     let seg = step_segment step; seq = unwrap_or (rs_next_seq st) (sg_seq seg);
         flags = (if sg_flags seg = [] then [''RST''] else sg_flags seg) in
     ebind (outbound env seg) (\<lambda>out.
     ebind (transmit env (st_name step) (st_action step) to (outbound_message role flags seq (unwrap_or 0 (sg_ack seg)) seg out) ''reset'' (sg_delay_ms seg)) (\<lambda>_.
     on_role (\<lambda>st. st\<lparr>rs_aborted := True\<rparr>))))))"

definition duplicate_action :: "exec_env \<Rightarrow> string \<Rightarrow> step_spec \<Rightarrow> unit exec" where
  "duplicate_action env role step =
     get_sim (\<lambda>s.
     ebind (elift (resolve_to step (si_all_roles s))) (\<lambda>to.
     get_role (\<lambda>st.
     let seg = step_segment step; seq = unwrap_or (rs_next_seq st) (sg_seq seg); ack = unwrap_or 0 (sg_ack seg) in
     ebind (outbound env seg) (\<lambda>out.
     let m = outbound_message role (sg_flags seg) seq ack seg out in
     ebind (transmit env (st_name step) (st_action step) to m ''send'' (sg_delay_ms seg)) (\<lambda>_.
     ebind (transmit env (st_name step) (st_action step) to m ''send (dup)'' (sg_delay_ms seg)) (\<lambda>_.
     advance_seq seq (sequence_len seg m)))))))"

definition flip_raw_bit :: "nat \<Rightarrow> bytes \<Rightarrow> bytes" where
  "flip_raw_bit n raw = raw[n div 8 := raw ! (n div 8) XOR push_bit (7 - n mod 8) 1]"

definition corrupt_action :: "exec_env \<Rightarrow> string \<Rightarrow> step_spec \<Rightarrow> unit exec" where
  "corrupt_action env role step =
     get_sim (\<lambda>s.
     ebind (elift (resolve_to step (si_all_roles s))) (\<lambda>to.
     get_role (\<lambda>st.
     let seg = step_segment step; seq = unwrap_or (rs_next_seq st) (sg_seq seg); ack = unwrap_or 0 (sg_ack seg) in
     ebind (outbound env seg) (\<lambda>(fields, payload, raw).
     if raw = [] then efail FkValidation ''corrupt requires `segment.hex` with at least one byte''
     else case sg_flip_bit seg of
       None \<Rightarrow> efail FkRuntime ''corrupt requires `segment.flip`''
     | Some flip \<Rightarrow>
         if flip \<ge> length raw * 8
         then efail FkValidation
           (''corrupt flip bit '' @ decimal flip @ '' is outside payload ('' @ decimal (length raw * 8) @ '' bits)'')
         else
           let m = outbound_message role (sg_flags seg) seq ack seg (fields, payload, flip_raw_bit flip raw) in
           ebind (transmit env (st_name step) (st_action step) to m ''corrupt'' (sg_delay_ms seg)) (\<lambda>_.
           advance_seq seq (unwrap_or (int (length raw)) (sg_payload_len seg)))))))"

subsection \<open>Raw packets\<close>

definition observe_tcp :: "tcp_direction \<Rightarrow> bytes \<Rightarrow> unit exec" where
  "observe_tcp direction raw w =
     (case observe_raw_tcp_state (rs_raw_tcp_tracker (snd w), rs_raw_tcp_state (snd w)) direction raw of
        ((tracker, state), r) \<Rightarrow>
          Some ((fst w, (snd w)\<lparr>rs_raw_tcp_tracker := tracker, rs_raw_tcp_state := state\<rparr>), map_err FReceive r))"

text \<open>The packets of one step in turn; \<open>seen\<close> is \<open>tcp_observed\<close>, \<open>sent\<close> the messages so far.\<close>

fun send_packets ::
  "exec_env \<Rightarrow> string \<Rightarrow> step_spec \<Rightarrow> string \<Rightarrow> val_map \<Rightarrow> string \<Rightarrow> bytes list \<Rightarrow> bool \<Rightarrow> message list \<Rightarrow> message list exec" where
  "send_packets env role step to kvs payload [] seen sent = ereturn sent"
| "send_packets env role step to kvs payload (bs # rest) seen sent =
     get_sim (\<lambda>s.
     ebind (elift (map_err FReceive (message_from_raw_wire role bs kvs))) (\<lambda>m0.
     let first = (si_raw_tcp_stateful s \<and> \<not> seen \<and> ms_flags m0 \<noteq> []);
         m = (if ms_payload m0 = [] then m0\<lparr>ms_payload := payload\<rparr> else m0) in
     ebind (if first then observe_tcp Outbound (ms_raw m0) else ereturn ()) (\<lambda>_.
     ebind (transmit env (st_name step) (st_action step) to m ''send_raw'' (sg_delay_ms (step_segment step))) (\<lambda>_.
     send_packets env role step to kvs payload rest (seen \<or> first) (sent @ [m])))))"

definition send_raw_action :: "exec_env \<Rightarrow> string \<Rightarrow> step_spec \<Rightarrow> unit exec" where
  "send_raw_action env role step =
     get_sim (\<lambda>s.
     ebind (elift (resolve_to step (si_all_roles s))) (\<lambda>to.
     let seg = step_segment step in
     ebind (outbound env seg) (\<lambda>(kvs, payload, raw).
     let application = (if raw = [] then bytes_of payload else raw) in
     case st_raw_packet step of
       None \<Rightarrow> efail FkValidation (''step '' @ bq (st_name step) @ '' has no raw packet specification'')
     | Some spec \<Rightarrow>
         get_role (\<lambda>st.
         ebind (elift (build_raw_packets (xe_printable env) spec (rs_vars st) application)) (\<lambda>packets.
         ebind (send_packets env role step to kvs payload packets False []) (\<lambda>sent.
         if length sent > 1
         then on_role (\<lambda>st. st\<lparr>rs_last_transmission := Some \<lparr>lt_step_name = st_name step, lt_action = st_action step, lt_to = to,
                lt_messages = sent, lt_label = ''send_raw'', lt_delay_ms = sg_delay_ms seg\<rparr>\<rparr>)
         else ereturn ()))))))"

subsection \<open>Receiving steps\<close>

definition capture_vars :: "(string, string) btree_map \<Rightarrow> val_map \<Rightarrow> val_map \<Rightarrow> val_map" where
  "capture_vars captures given vars =
     fold (\<lambda>(field, var) vs. case map_of given field of Some v \<Rightarrow> bt_insert var v vs | None \<Rightarrow> vs) captures vars"

definition received_event :: "string \<Rightarrow> step_spec \<Rightarrow> message \<Rightarrow> event" where
  "received_event role step m =
     \<lparr>ev_role = role, ev_step = st_name step, ev_action = st_action step, ev_ok = True,
      ev_detail = DText (''recv <- '' @ ms_from m @ '' flags='' @ flags_str m @ '' seq='' @ decimal_int (ms_seq m) @
        '' ack='' @ decimal_int (ms_ack m) @ '' win='' @ decimal_int (ms_window m) @ hex_preview (ms_raw m)),
      ev_flags = ms_flags m, ev_seq_num = Some (ms_seq m), ev_ack_num = Some (ms_ack m), ev_peer = Some (ms_from m)\<rparr>"

definition recv_action :: "exec_env \<Rightarrow> wake list \<Rightarrow> (nat \<Rightarrow> nat) \<Rightarrow> string \<Rightarrow> step_spec \<Rightarrow> unit exec" where
  "recv_action env wk ck role step =
     get_role (\<lambda>st.
     let e = step_expect env (unwrap_or default_expect (st_expect step)) st;
         ms = step_timeout default_recv_timeout_ms step in
     ebind (if st_action step = ARecvRaw then do_recv_raw env wk ck role e ms else do_recv env wk role e ms) (\<lambda>m.
     get_sim (\<lambda>s.
     ebind (if st_action step = ARecvRaw \<and> si_raw_tcp_stateful s \<and> ms_flags m \<noteq> [] then observe_tcp Inbound (ms_raw m) else ereturn ()) (\<lambda>_.
     ebind (on_role (note_received m)) (\<lambda>_.
     ebind (on_role (\<lambda>st. st\<lparr>rs_vars := capture_vars (ex_capture e) (ms_fields m) (rs_vars st)\<rparr>)) (\<lambda>_.
     on_sim (\<lambda>s. record_with_network (received_event role step m) (wire_bytes m) (step_network (st_action step) s) s)))))))"

definition dropped_event :: "string \<Rightarrow> step_spec \<Rightarrow> message \<Rightarrow> event" where
  "dropped_event role step m =
     \<lparr>ev_role = role, ev_step = st_name step, ev_action = st_action step, ev_ok = True,
      ev_detail = DText (''dropped <- '' @ ms_from m @ '' flags='' @ flags_str m @ '' seq='' @ decimal_int (ms_seq m)),
      ev_flags = ms_flags m, ev_seq_num = Some (ms_seq m), ev_ack_num = Some (ms_ack m), ev_peer = Some (ms_from m)\<rparr>"

definition note_event :: "string \<Rightarrow> step_spec \<Rightarrow> string \<Rightarrow> unit exec" where
  "note_event role step msg = on_sim (record_event (plain_event role (st_name step) (st_action step) True (DText msg)))"

text \<open>A receive that fails is benign here: nothing matched.\<close>

definition drop_action :: "exec_env \<Rightarrow> wake list \<Rightarrow> string \<Rightarrow> step_spec \<Rightarrow> unit exec" where
  "drop_action env wk role step =
     get_role (\<lambda>st w.
     case do_recv env wk role (step_expect env (unwrap_or default_expect (st_expect step)) st) (step_timeout 1000 step) w of
       None \<Rightarrow> None
     | Some (w', Inr m) \<Rightarrow> on_sim (record_event (dropped_event role step m)) w'
     | Some (w', Inl (Fail _)) \<Rightarrow> note_event role step ''drop: no matching segment (timeout)'' w'
     | Some (w', Inl Panic) \<Rightarrow> Some (w', Inl Panic))"

subsection \<open>Local steps\<close>

definition connect_failure_text :: "string \<Rightarrow> string" where
  "connect_failure_text f =
     (if f = ''dns'' then ''simulated DNS resolution failure''
      else if f = ''refused'' then ''simulated connection refused''
      else if f = ''tls_handshake'' then ''simulated TLS handshake failure''
      else ''simulated connection failure'')"

definition open_action :: "string \<Rightarrow> step_spec \<Rightarrow> unit exec" where
  "open_action role step =
     get_sim (\<lambda>s.
     case tc_connect_failure (tr_config (si_transport s)) of
       Some f \<Rightarrow> efail FkTransport (connect_failure_text f)
     | None \<Rightarrow> note_event role step (''open mode='' @ unwrap_or ''active'' (st_mode step)))"

definition plugin_action :: "exec_env \<Rightarrow> string \<Rightarrow> step_spec \<Rightarrow> unit exec" where
  "plugin_action env role step =
     get_sim (\<lambda>s.
     if \<not> si_allow_plugins s then efail FkValidation ''plugin execution is disabled; use an explicitly plugin-enabled engine''
     else case st_plugin step of
       None \<Rightarrow> efail FkValidation ''plugin action has no plugin section''
     | Some p \<Rightarrow>
         get_role (\<lambda>st.
         ebind (elift (xe_plugin env p step st (interpolate_value (xe_printable env) (rs_vars st) (pl_input p)))) (\<lambda>r.
         if pl_kind p = ''matcher'' \<and> pg_matched r \<noteq> Some True
         then elift (Inl (Fail (FAsserts (''plugin matcher '' @ bq (pl_name p) @ '' did not match'') [])))
         else
           ebind (on_role (\<lambda>st. st\<lparr>rs_vars := bt_insert (''plugin.'' @ st_name step) (pg_value r)
                (fold (\<lambda>(k, v). bt_insert k v) (pg_vars r) (rs_vars st)),
              rs_last_recv_fields := (if pl_kind p = ''decoder'' then fold (\<lambda>(k, v). bt_insert k v) (pg_fields r) (rs_last_recv_fields st)
                else rs_last_recv_fields st)\<rparr>)) (\<lambda>_.
           note_event role step (''plugin '' @ pl_kind p @ '':'' @ pl_name p @ '' '' @ unwrap_or ''ok'' (pg_detail r))))))"

definition set_action :: "exec_env \<Rightarrow> string \<Rightarrow> step_spec \<Rightarrow> unit exec" where
  "set_action env role step =
     (let vars = unwrap_or [] (st_set step) in
      ebind (on_role (\<lambda>st. st\<lparr>rs_vars := fold (\<lambda>(k, v). bt_insert k v) vars (rs_vars st)\<rparr>)) (\<lambda>_.
      note_event role step (''set '' @ join '', '' (map (\<lambda>(k, v). k @ ''='' @ to_display (xe_printable env) v) vars))))"

definition debug_list :: "(nat \<Rightarrow> bool) \<Rightarrow> string list \<Rightarrow> string" where
  "debug_list pr xs = ''['' @ join '', '' (map (debug_str pr) xs) @ '']''"

definition wanted_flags :: "val \<Rightarrow> string list" where
  "wanted_flags v = (case as_array v of Some vs \<Rightarrow> List.map_filter as_str vs | None \<Rightarrow> [])"

definition state_flags :: "string \<Rightarrow> role_state \<Rightarrow> string list" where
  "state_flags key st = (if key = ''recv_flags'' then rs_last_recv_flags st else rs_last_sent_flags st)"

text \<open>One entry of an \<open>assert\<close>: nothing, or the message and the failure it adds.\<close>

definition assert_entry :: "exec_env \<Rightarrow> string \<Rightarrow> role_state \<Rightarrow> string \<times> val \<Rightarrow> (string \<times> assertion_failure) option" where
  "assert_entry env role st kv =
     (let key = fst kv; pr = xe_printable env; expected = interpolate_value pr (rs_vars st) (snd kv);
          failure = (\<lambda>actual. \<lparr>af_role = role, af_key = key, af_expected = expected, af_actual = actual\<rparr>) in
      if key = ''recv_flags'' \<or> key = ''sent_flags'' then
        (let actual = state_flags key st; want = wanted_flags expected in
         if list_all (\<lambda>f. f \<in> set actual) want then None
         else Some (key @ '': expected '' @ debug_list pr want @ '', got '' @ debug_list pr actual,
           failure (Some (VArray (map VString actual)))))
      else case resolve_state_value st key of
          Some actual \<Rightarrow>
            if val_eq actual expected then None
            else Some (key @ '': expected '' @ to_display pr expected @ '', got '' @ to_display pr actual, failure (Some actual))
        | None \<Rightarrow> Some (key @ '': unknown state key'', failure None))"

definition assert_action :: "exec_env \<Rightarrow> string \<Rightarrow> step_spec \<Rightarrow> unit exec" where
  "assert_action env role step =
     get_role (\<lambda>st.
     let failures = List.map_filter (assert_entry env role st) (unwrap_or [] (st_assert step)) in
     if failures = [] then note_event role step ''assert ok''
     else elift (Inl (Fail (FAsserts (''assert failed: '' @ join ''; '' (map fst failures)) (map snd failures)))))"

definition wait_action :: "string \<Rightarrow> step_spec \<Rightarrow> unit exec" where
  "wait_action role step =
     (let ms = step_timeout 0 step in
      ebind (if ms > 0 then on_sim (sim_sleep ms) else ereturn ()) (\<lambda>_. note_event role step (''wait '' @ decimal ms @ ''ms'')))"

text \<open>A role without a live socket has nothing to close.\<close>

definition half_close :: "exec_env \<Rightarrow> sim \<Rightarrow> string \<Rightarrow> string option" where
  "half_close env s role =
     (case tr_live (si_transport s) of
        Some senders \<Rightarrow> if role \<in> set senders then xe_half_close env role else None
      | None \<Rightarrow> None)"

definition close_action :: "exec_env \<Rightarrow> string \<Rightarrow> step_spec \<Rightarrow> unit exec" where
  "close_action env role step =
     get_sim (\<lambda>s.
     case half_close env s role of
       Some msg \<Rightarrow> efail FkTransport msg
     | None \<Rightarrow> note_event role step ''close (write half)'')"

subsection \<open>All actions\<close>

fun execute_step :: "exec_env \<Rightarrow> wake list \<Rightarrow> (nat \<Rightarrow> nat) \<Rightarrow> string \<Rightarrow> step_spec \<Rightarrow> unit exec" where
  "execute_step env wk ck role step =
     (case st_action step of
        ASend \<Rightarrow> send_action env wk role step
      | AAck \<Rightarrow> send_action env wk role step
      | ASendRaw \<Rightarrow> send_raw_action env role step
      | ANack \<Rightarrow> nack_action env wk role step
      | AReset \<Rightarrow> reset_action env role step
      | ADuplicate \<Rightarrow> duplicate_action env role step
      | ACorrupt \<Rightarrow> corrupt_action env role step
      | ARecv \<Rightarrow> recv_action env wk ck role step
      | ARecvRaw \<Rightarrow> recv_action env wk ck role step
      | ADrop \<Rightarrow> drop_action env wk role step
      | AOpen \<Rightarrow> open_action role step
      | ALog \<Rightarrow> note_event role step (''log: '' @ unwrap_or [] (st_message step))
      | APlugin \<Rightarrow> plugin_action env role step
      | ASet \<Rightarrow> set_action env role step
      | AAssert \<Rightarrow> assert_action env role step
      | AWait \<Rightarrow> wait_action role step
      | AClose \<Rightarrow> close_action env role step)"

declare execute_step.simps [simp del]

end
