(* ===== verification/Engine_Run.thy ===== *)
theory Engine_Run
  imports Engine_Step Graph Transition_System
begin

text \<open>
  Running a protocol: \<open>run_role\<close>, \<open>run_with_transport\<close>, \<open>Engine::new\<close> and the case runner of
  \<open>src/src/engine.rs\<close>. Every role is a thread that works through its steps; the threads and the
  delivery workers interleave. One transition of a thread is the part of \<open>run_role\<close> up to the
  next point where it may wait or has tried a step: the check before a step, the wait for
  the dependencies with the checks after it, or one attempt with the handling of its failure.
  The events that a transition has numbered are pushed onto the trace by transitions of their own,
  before the thread goes on and interleaved with those of the others.
\<close>

subsection \<open>Threads\<close>

text \<open>\<open>Running l rt ry\<close>: \<open>l\<close> repetitions to go, after \<open>rt\<close> retransmissions and \<open>ry\<close> retries in this one.\<close>

datatype phase = Starting | Waiting | Running nat nat nat | Ended | Panicked

record thread =
  th_role :: string
  th_steps :: "step_spec list"
  th_phase :: phase
  th_state :: role_state

definition thread_new :: "string \<Rightarrow> step_spec list \<Rightarrow> val_map \<Rightarrow> thread" where
  "thread_new role steps vars = \<lparr>th_role = role, th_steps = steps, th_phase = Starting, th_state = new_with_vars vars\<rparr>"

definition to_phase :: "thread \<Rightarrow> phase \<Rightarrow> thread" where
  "to_phase th ph = th\<lparr>th_phase := ph\<rparr>"

definition next_step_of :: "thread \<Rightarrow> thread" where
  "next_step_of th = th\<lparr>th_steps := tl (th_steps th), th_phase := Starting\<rparr>"

definition step_enabled :: "exec_env \<Rightarrow> step_spec \<Rightarrow> val_map \<Rightarrow> (string, bool) res" where
  "step_enabled env step vars =
     (case st_when step of
        None \<Rightarrow> Inr True
      | Some c \<Rightarrow>
          (case interpolate_value (xe_printable env) vars c of
             VBool b \<Rightarrow> Inr b
           | other \<Rightarrow> Inl (Fail (''step '' @ bq (st_name step) @ '' when must resolve to bool, got '' @ to_display (xe_printable env) other))))"

definition record_step_failure :: "string \<Rightarrow> step_spec \<Rightarrow> detail \<Rightarrow> sim \<Rightarrow> sim" where
  "record_step_failure role step d = record_event (plain_event role (st_name step) (st_action step) False d)"

definition record_step_note :: "string \<Rightarrow> step_spec \<Rightarrow> detail \<Rightarrow> sim \<Rightarrow> sim" where
  "record_step_note role step d = record_event (plain_event role (st_name step) (st_action step) True d)"

text \<open>A failure that ends the role: recorded, kept as the failure of the run, the step marked done.\<close>

definition end_role :: "thread \<Rightarrow> step_spec \<Rightarrow> exec_failure \<Rightarrow> sim \<Rightarrow> sim \<times> thread" where
  "end_role th step f s =
     (mark_done (st_name step) (set_failure (th_role th) f (record_step_failure (th_role th) step (DFailure f) s)), to_phase th Ended)"

definition state_allowed :: "step_spec \<Rightarrow> role_state \<Rightarrow> bool" where
  "state_allowed step st =
     (case st_from_state step of None \<Rightarrow> True | Some required \<Rightarrow> required = ''*'' \<or> required = rs_protocol_state st)"

definition rejection :: "thread \<Rightarrow> step_spec \<Rightarrow> exec_failure" where
  "rejection th step = FText FkValidation
     (''state transition rejected: step '' @ bq (st_name step) @ '' requires '' @ bq (unwrap_or [] (st_from_state step)) @
      '', role '' @ bq (th_role th) @ '' is '' @ bq (rs_protocol_state (th_state th)))"

text \<open>After the dependencies are done: the step is skipped, rejected or started.\<close>

definition begin_step :: "exec_env \<Rightarrow> thread \<Rightarrow> step_spec \<Rightarrow> sim \<Rightarrow> sim \<times> thread" where
  "begin_step env th step s =
     (if failed s then (s, to_phase th Ended)
      else case step_enabled env step (rs_vars (th_state th)) of
        Inl (Fail msg) \<Rightarrow> end_role th step (FText FkRuntime msg) s
      | Inl Panic \<Rightarrow> (s, to_phase th Panicked)
      | Inr enabled \<Rightarrow>
          if \<not> enabled \<or> st_loop_count step = 0
          then (mark_done (st_name step)
                 (record_step_note (th_role th) step (DText (if \<not> enabled then ''skipped: when=false'' else ''skipped: loop=0'')) s),
                next_step_of th)
          else if \<not> state_allowed step (th_state th) then end_role th step (rejection th step) s
          else (s, to_phase th (Running (st_loop_count step) 0 0)))"

definition retransmit_limit :: "step_spec \<Rightarrow> nat" where
  "retransmit_limit step = max (st_retransmit step) (case st_timer step of Some t \<Rightarrow> tm_retransmit t | None \<Rightarrow> 0)"

definition may_retry :: "step_spec \<Rightarrow> exec_failure \<Rightarrow> bool" where
  "may_retry step f =
     (if rp_retry_on (st_retry_policy step) = [] then \<not> st_on_timeout step \<or> fail_kind f = FkTimeout
      else failure_kind_str (fail_kind f) \<in> set (rp_retry_on (st_retry_policy step)))"

definition may_retransmit :: "step_spec \<Rightarrow> nat \<Rightarrow> exec_failure \<Rightarrow> bool" where
  "may_retransmit step rt f \<longleftrightarrow>
     retransmit_limit step > 0 \<and> rt < retransmit_limit step \<and> st_action step \<in> {ARecv, ARecvRaw} \<and> fail_kind f = FkTimeout"

text \<open>A timeout of a receive that sends the last transmission once more.\<close>

definition retransmit_last :: "exec_env \<Rightarrow> thread \<Rightarrow> step_spec \<Rightarrow> nat \<Rightarrow> nat \<Rightarrow> nat \<Rightarrow> last_transmission \<Rightarrow> sim \<Rightarrow> (sim \<times> thread) option" where
  "retransmit_last env th step l rt ry snapshot s =
     (let note = DText (''timed out, retransmitting '' @ lt_step_name snapshot @ '' (attempt '' @ decimal (rt + 1) @ ''/'' @
            decimal (retransmit_limit step) @ '')'');
          s1 = record_step_note (th_role th) step note s in
      case retransmit_snapshot env snapshot (s1, th_state th) of
        None \<Rightarrow> None
      | Some ((s2, st), Inr _) \<Rightarrow> Some (s2, th\<lparr>th_state := st, th_phase := Running l (rt + 1) ry\<rparr>)
      | Some ((s2, st), Inl Panic) \<Rightarrow> Some (s2, th\<lparr>th_state := st, th_phase := Panicked\<rparr>)
      | Some ((s2, st), Inl (Fail f)) \<Rightarrow>
          Some (mark_done (st_name step) (set_failure (th_role th) f
              (record_event (plain_event (th_role th) (lt_step_name snapshot) (lt_action snapshot) False (DFailure f)) s2)),
            th\<lparr>th_state := st, th_phase := Ended\<rparr>))"

definition retry_step :: "exec_env \<Rightarrow> thread \<Rightarrow> step_spec \<Rightarrow> nat \<Rightarrow> nat \<Rightarrow> nat \<Rightarrow> exec_failure \<Rightarrow> sim \<Rightarrow> sim \<times> thread" where
  "retry_step env th step l rt ry f s =
     (let delay = retry_delay_ms (xe_pow env) (st_retry_policy step) (ry + 1) (of_nat (si_counter s)) in
      (record_step_note (th_role th) step (DRetry (ry + 1) (st_retry step) f) (sim_sleep delay s), to_phase th (Running l rt (ry + 1))))"

definition after_failure :: "exec_env \<Rightarrow> thread \<Rightarrow> step_spec \<Rightarrow> nat \<Rightarrow> nat \<Rightarrow> nat \<Rightarrow> exec_failure \<Rightarrow> sim \<Rightarrow> (sim \<times> thread) option" where
  "after_failure env th step l rt ry f s =
     (let snapshot = (if may_retransmit step rt f then rs_last_transmission (th_state th) else None) in
      case snapshot of
        Some lt \<Rightarrow> retransmit_last env th step l rt ry lt s
      | None \<Rightarrow>
          if ry < st_retry step \<and> may_retry step f then Some (retry_step env th step l rt ry f s)
          else Some (end_role th step f s))"

definition finish_step :: "thread \<Rightarrow> step_spec \<Rightarrow> sim \<Rightarrow> sim \<times> thread" where
  "finish_step th step s =
     (mark_done (st_name step) s,
      next_step_of (case st_to_state step of None \<Rightarrow> th | Some t \<Rightarrow> th\<lparr>th_state := (th_state th)\<lparr>rs_protocol_state := t\<rparr>\<rparr>))"

definition after_success :: "thread \<Rightarrow> step_spec \<Rightarrow> nat \<Rightarrow> sim \<Rightarrow> sim \<times> thread" where
  "after_success th step l s =
     (case enforce_runtime (th_role th) s of
        (s', True) \<Rightarrow> (mark_done (st_name step) s', to_phase th Ended)
      | (s', False) \<Rightarrow> if l = 0 then finish_step th step s' else (s', to_phase th (Running l 0 0)))"

definition try_step :: "exec_env \<Rightarrow> wake list \<Rightarrow> (nat \<Rightarrow> nat) \<Rightarrow> thread \<Rightarrow> step_spec \<Rightarrow> nat \<Rightarrow> nat \<Rightarrow> nat \<Rightarrow> sim \<Rightarrow> (sim \<times> thread) option" where
  "try_step env wk ck th step l rt ry s =
     (case execute_step env wk ck (th_role th) step (s, th_state th) of
        None \<Rightarrow> None
      | Some ((s', st), Inr _) \<Rightarrow> Some (after_success (th\<lparr>th_state := st\<rparr>) step (l - 1) s')
      | Some ((s', st), Inl Panic) \<Rightarrow> Some (s', th\<lparr>th_state := st, th_phase := Panicked\<rparr>)
      | Some ((s', st), Inl (Fail f)) \<Rightarrow> after_failure env (th\<lparr>th_state := st\<rparr>) step l rt ry f s')"

definition thread_step :: "exec_env \<Rightarrow> wake list \<Rightarrow> (nat \<Rightarrow> nat) \<Rightarrow> thread \<Rightarrow> sim \<Rightarrow> (sim \<times> thread) option" where
  "thread_step env wk ck th s =
     (case th_steps th of
        [] \<Rightarrow> (if th_phase th = Starting then Some (s, to_phase th Ended) else None)
      | step # _ \<Rightarrow>
          (case th_phase th of
             Starting \<Rightarrow>
               (case enforce_runtime (th_role th) s of
                  (s', True) \<Rightarrow> Some (s', to_phase th Ended)
                | (s', False) \<Rightarrow> Some (s', to_phase th Waiting))
           | Waiting \<Rightarrow>
               if deps_done (st_depends_on step) s then Some (begin_step env th step s)
               else if failed s then Some (s, to_phase th Ended)
               else (case enforce_runtime ''scheduler'' s of
                       (s', True) \<Rightarrow> Some (s', to_phase th Ended)
                     | (_, False) \<Rightarrow> None)
           | Running l rt ry \<Rightarrow> try_step env wk ck th step l rt ry s
           | _ \<Rightarrow> None))"

subsection \<open>The run\<close>

type_synonym engine_state = "sim \<times> thread list"

datatype engine_label = ThreadMoves nat | EventPushed nat | WorkerDelivers nat | TimePasses nat

inductive engine_step :: "exec_env \<Rightarrow> engine_state \<Rightarrow> engine_label \<Rightarrow> engine_state \<Rightarrow> bool" for env where
  moves: "i < length ths \<Longrightarrow> thread_step env wk ck (ths ! i) s = Some (s', th') \<Longrightarrow> pushed_all (th_role (ths ! i)) s \<Longrightarrow>
    engine_step env (s, ths) (ThreadMoves i) (s', ths[i := th'])"
| pushes: "may_push k s \<Longrightarrow> engine_step env (s, ths) (EventPushed k) (push_event k s, ths)"
| delivers: "j < length (tr_workers (si_transport s)) \<Longrightarrow>
    engine_step env (s, ths) (WorkerDelivers j) (s\<lparr>si_transport := run_worker (si_transport s) j\<rparr>, ths)"
| passes: "engine_step env (s, ths) (TimePasses n) (s\<lparr>si_now_ns := si_now_ns s + n\<rparr>, ths)"

inductive_cases engine_stepE: "engine_step env g l g'"

definition initial_sim :: "protocol \<Rightarrow> exec_plan \<Rightarrow> string list \<Rightarrow> transport \<Rightarrow> network_protocol \<Rightarrow> bool \<Rightarrow> sim" where
  "initial_sim p pl active t net allow_plugins =
     \<lparr>si_transport = t,
      si_completed = map (\<lambda>q. st_name (ps_step q)) (filter (\<lambda>q. st_role (ps_step q) \<notin> set active) (plan_order pl)),
      si_trace = [], si_open = [], si_error = None, si_counter = 0, si_all_roles = plan_roles pl, si_clock = pr_clock p, si_now_ns = 0,
      si_virtual_ms = 0, si_max_trace = rl_max_trace (pr_limits p), si_max_payload = rl_max_payload (pr_limits p),
      si_max_inbox = rl_max_inbox (pr_limits p), si_max_runtime_ms = rl_max_runtime_ms (pr_limits p),
      si_raw_tcp_stateful = pr_raw_tcp_stateful p, si_network = net, si_allow_plugins = allow_plugins,
      si_step_requirements = rev (map (\<lambda>s. (st_name s, st_requirements s)) (pr_steps p))\<rparr>"

definition role_steps :: "exec_plan \<Rightarrow> string \<Rightarrow> step_spec list" where
  "role_steps pl role = filter (\<lambda>s. st_role s = role) (map ps_step (plan_order pl))"

definition initial_threads :: "exec_plan \<Rightarrow> string list \<Rightarrow> val_map \<Rightarrow> thread list" where
  "initial_threads pl active vars = map (\<lambda>r. thread_new r (role_steps pl r) vars) active"

text \<open>The run over the simulated transport with every role active.\<close>

definition engine_start :: "u64 \<Rightarrow> protocol \<Rightarrow> exec_plan \<Rightarrow> bool \<Rightarrow> val_map \<Rightarrow> engine_state" where
  "engine_start now p pl allow_plugins vars =
     (initial_sim p pl (plan_roles pl)
        (with_options now (plan_roles pl) (unwrap_or default_transport_config (pr_transport p)) (pr_limits p) (pr_clock p = ClockVirtual))
        NpTcp allow_plugins,
      initial_threads pl (plan_roles pl) vars)"

definition thread_over :: "thread \<Rightarrow> bool" where
  "thread_over th \<longleftrightarrow> th_phase th \<in> {Ended, Panicked}"

text \<open>Joining the threads in order; a panicked one is a failure of the run.\<close>

definition join_threads :: "thread list \<Rightarrow> sim \<Rightarrow> sim" where
  "join_threads ths s =
     fold (\<lambda>th s. if th_phase th = Panicked then set_failure (th_role th) (FText FkPanic ''executor panicked'') s else s) ths s"

definition finish_failure :: "transport_error_kind \<times> transport_error list \<Rightarrow> exec_failure" where
  "finish_failure ke = FText (case fst ke of KTransport \<Rightarrow> FkTransport | KResourceLimit \<Rightarrow> FkResourceLimit) ''transport workers failed''"

datatype run_error = PlanError plan_error | PlanPacket string exec_failure | RuntimeError string exec_failure "trace_event list"
  | SetupError failure_kind string

definition run_result :: "sim \<Rightarrow> thread list \<Rightarrow> (run_error, trace_event list \<times> (string \<times> role_state) list) res" where
  "run_result s0 ths =
     (let s1 = join_threads ths s0;
          s = (case finish_result (tr_worker_errors (si_transport s1)) of
                 None \<Rightarrow> s1 | Some ke \<Rightarrow> set_failure ''transport'' (finish_failure ke) s1);
          trace = sort_key tv_seq (si_trace s) in
      case si_error s of
        Some (role, f) \<Rightarrow> Inl (Fail (RuntimeError role f trace))
      | None \<Rightarrow> Inr (trace, map (\<lambda>th. (th_role th, th_state th)) (filter (\<lambda>th. th_phase th \<noteq> Panicked) ths)))"

subsection \<open>Building an engine\<close>

fun check_raw_steps :: "(nat \<Rightarrow> bool) \<Rightarrow> step_spec list \<Rightarrow> (run_error, unit) res" where
  "check_raw_steps pr [] = Inr ()"
| "check_raw_steps pr (step # steps) =
     (case st_raw_packet step of
        None \<Rightarrow> check_raw_steps pr steps
      | Some spec \<Rightarrow>
          if raw_spec_contains_variable spec then check_raw_steps pr steps
          else rbind (map_err (PlanPacket (st_name step)) (build_raw_packets pr spec [] [])) (\<lambda>_. check_raw_steps pr steps))"

definition engine_new :: "(nat \<Rightarrow> bool) \<Rightarrow> (dep_map \<Rightarrow> dep_map) \<Rightarrow> protocol \<Rightarrow> (run_error, exec_plan) res option" where
  "engine_new pr hash_order p =
     map_option (\<lambda>r. rbind (map_err PlanError r) (\<lambda>pl. rbind (check_raw_steps pr (pr_steps p)) (\<lambda>_. Inr pl))) (plan hash_order p)"

subsection \<open>Cases\<close>

definition case_entry :: "string \<Rightarrow> role_state \<Rightarrow> string \<times> val \<Rightarrow> assertion_failure option" where
  "case_entry role st kv =
     (let key = fst kv; expected = snd kv;
          failure = (\<lambda>actual. \<lparr>af_role = role, af_key = key, af_expected = expected, af_actual = actual\<rparr>) in
      if key = ''recv_flags'' \<or> key = ''sent_flags'' then
        (let actual = state_flags key st in
         if list_all (\<lambda>f. f \<in> set actual) (wanted_flags expected) then None
         else Some (failure (Some (VArray (map VString actual)))))
      else case resolve_state_value st key of
          Some actual \<Rightarrow> if val_eq actual expected then None else Some (failure (Some actual))
        | None \<Rightarrow> Some (failure None))"

definition check_case_asserts :: "(string \<times> role_state) list \<Rightarrow> (string, val_map) btree_map \<Rightarrow> assertion_failure list" where
  "check_case_asserts finals asserts =
     concat (map (\<lambda>(role, attrs).
       case map_of finals role of
         None \<Rightarrow> map (\<lambda>(k, v). \<lparr>af_role = role, af_key = k, af_expected = v, af_actual = None\<rparr>) attrs
       | Some st \<Rightarrow> List.map_filter (case_entry role st) attrs) asserts)"

record case_result =
  cr_name :: string
  cr_tags :: "string list"
  cr_expected :: case_outcome
  cr_actual :: case_outcome
  cr_passed :: bool
  cr_failure_kind :: "failure_kind option"
  cr_error :: "run_error option"
  cr_trace :: "trace_event list"
  cr_assertion_failures :: "assertion_failure list"

text \<open>\<open>run_case\<close>, given the result of \<open>run_with_vars\<close> on the variables of the case.\<close>

definition run_case :: "case_spec \<Rightarrow> (run_error, trace_event list \<times> (string \<times> role_state) list) res \<Rightarrow> (unit, case_result) res" where
  "run_case c r =
     (let result = (\<lambda>outcome kind er trace fs.
          \<lparr>cr_name = cs_name c, cr_tags = cs_tags c, cr_expected = ce_outcome (cs_expect c), cr_actual = outcome,
           cr_passed = (outcome = ce_outcome (cs_expect c)), cr_failure_kind = kind, cr_error = er, cr_trace = trace,
           cr_assertion_failures = fs\<rparr>) in
      case r of
        Inr (trace, finals) \<Rightarrow>
          (let fs = check_case_asserts finals (ce_asserts (cs_expect c)) in
           Inr (result (if fs = [] then CasePass else CaseFail) (if fs = [] then None else Some FkAssertion) None trace fs))
      | Inl (Fail (RuntimeError role f trace)) \<Rightarrow>
          Inr (result CaseFail (Some (fail_kind f)) (Some (RuntimeError role f trace)) trace (failure_assertions f))
      | Inl (Fail (SetupError kind msg)) \<Rightarrow> Inr (result CaseFail (Some kind) (Some (SetupError kind msg)) [] [])
      | Inl (Fail e) \<Rightarrow> Inr (result CaseFail (Some FkValidation) (Some e) [] [])
      | Inl Panic \<Rightarrow> Inl Panic)"

end
