(* ===== verification/Engine_Frame.thy ===== *)
theory Engine_Frame
  imports Engine_Run
begin

text \<open>
  What the attempts of a step leave alone. A relation between the state before and after that
  holds for the primitive changes (a change of the transport, of a clock, of the role but
  for its protocol state, and a recorded event) holds for every action; the relations that
  matter are interpretations: the frame of a step, the first failure that stays, and the
  numbering of the trace.
\<close>

named_theorems keep_intros

text \<open>What follows a retransmission.\<close>

definition after_retransmit ::
  "thread \<Rightarrow> step_spec \<Rightarrow> nat \<Rightarrow> nat \<Rightarrow> nat \<Rightarrow> last_transmission \<Rightarrow> sim \<Rightarrow> role_state \<Rightarrow> unit xres \<Rightarrow> sim \<times> thread" where
  "after_retransmit th step l rt ry lt s st r =
     (case r of
        Inr _ \<Rightarrow> (s, th\<lparr>th_state := st, th_phase := Running l (rt + 1) ry\<rparr>)
      | Inl Panic \<Rightarrow> (s, th\<lparr>th_state := st, th_phase := Panicked\<rparr>)
      | Inl (Fail g) \<Rightarrow> (mark_done (st_name step) (set_failure (th_role th) g
          (record_event (plain_event (th_role th) (lt_step_name lt) (lt_action lt) False (DFailure g)) s)),
          th\<lparr>th_state := st, th_phase := Ended\<rparr>))"

lemma retransmit_last_cases:
  assumes "retransmit_last env th step l rt ry lt s = Some (s', th')"
  obtains d v st r where "retransmit_snapshot env lt (record_step_note (th_role th) step d s, th_state th) = Some ((v, st), r)"
    and "after_retransmit th step l rt ry lt v st r = (s', th')"
  using assms unfolding retransmit_last_def Let_def after_retransmit_def by (auto split: option.splits sum.splits fault.splits)

definition keeps :: "(world \<Rightarrow> world \<Rightarrow> bool) \<Rightarrow> 'a exec \<Rightarrow> bool" where
  "keeps R m \<longleftrightarrow> (\<forall>w w' r. m w = Some (w', r) \<longrightarrow> R w w')"

lemma keepsD: "keeps R m \<Longrightarrow> m w = Some (w', r) \<Longrightarrow> R w w'"
  unfolding keeps_def by blast

locale engine_relation =
  fixes R :: "world \<Rightarrow> world \<Rightarrow> bool"
  assumes R_refl: "R w w"
    and R_trans: "R u v \<Longrightarrow> R v w \<Longrightarrow> R u w"
    and R_role: "rs_protocol_state st' = rs_protocol_state st \<Longrightarrow> R (s, st) (s, st')"
    and R_transport: "R (s, st) (s\<lparr>si_transport := t\<rparr>, st)"
    and R_virtual: "R (s, st) (s\<lparr>si_virtual_ms := n\<rparr>, st)"
    and R_now: "R (s, st) (s\<lparr>si_now_ns := n\<rparr>, st)"
    and R_record: "R (s, st) (record_with_network ev wire net s, st)"
begin

lemma keeps_return [keep_intros]: "keeps R (ereturn x)"
  by (simp add: keeps_def ereturn_def R_refl)

lemma keeps_lift [keep_intros]: "keeps R (elift r)"
  by (simp add: keeps_def elift_def R_refl)

lemma keeps_fail [keep_intros]: "keeps R (efail k msg)"
  by (simp add: efail_def keeps_lift)

lemma keeps_bind [keep_intros]: "keeps R m \<Longrightarrow> (\<And>x. keeps R (f x)) \<Longrightarrow> keeps R (ebind m f)"
  unfolding keeps_def ebind_def by (force split: option.splits sum.splits intro: R_trans)

lemma keeps_get_sim [keep_intros]: "(\<And>s. keeps R (f s)) \<Longrightarrow> keeps R (get_sim f)"
  by (auto simp: keeps_def get_sim_def)

lemma keeps_get_role [keep_intros]: "(\<And>st. keeps R (f st)) \<Longrightarrow> keeps R (get_role f)"
  by (auto simp: keeps_def get_role_def)

lemma keeps_if [keep_intros]: "keeps R a \<Longrightarrow> keeps R b \<Longrightarrow> keeps R (if c then a else b)"
  by simp

lemma keeps_case [keep_intros]: "keeps R a \<Longrightarrow> (\<And>x. keeps R (f x)) \<Longrightarrow> keeps R (case v of None \<Rightarrow> a | Some x \<Rightarrow> f x)"
  by (simp split: option.split)

lemma keeps_pair [keep_intros]: "(\<And>x y. keeps R (f x y)) \<Longrightarrow> keeps R (case v of (x, y) \<Rightarrow> f x y)"
  by (simp split: prod.split)

lemma keeps_on_role [keep_intros]:
  "(\<And>st. rs_protocol_state (f st) = rs_protocol_state st) \<Longrightarrow> keeps R (on_role f)"
  by (auto simp: keeps_def on_role_def intro: R_role)

lemma keeps_on_sim: "(\<And>s st. R (s, st) (f s, st)) \<Longrightarrow> keeps R (on_sim f)"
  by (auto simp: keeps_def on_sim_def)

lemma keeps_each [keep_intros]: "(\<And>x. keeps R (f x)) \<Longrightarrow> keeps R (each f xs)"
  by (induction xs) (auto intro!: keep_intros)

lemma R_advance: "R (s, st) (advance n s, st)"
  by (simp add: advance_def R_virtual R_refl)

lemma R_sleep: "R (s, st) (sim_sleep n s, st)"
  by (simp add: sim_sleep_def R_advance R_now)

lemma R_event: "R (s, st) (record_event ev s, st)"
  by (simp add: record_event_def record_with_wire_def R_record)

lemma keeps_note [keep_intros]: "keeps R (note_event role step msg)"
  unfolding note_event_def by (rule keeps_on_sim) (rule R_event)

lemma keeps_transmit [keep_intros]: "keeps R (transmit env n a to m l d)"
proof -
  have "keeps R (on_sim (\<lambda>s. advance k (s\<lparr>si_transport := t\<rparr>)))" for k t
    by (rule keeps_on_sim) (rule R_trans [OF R_transport R_advance])
  moreover have "keeps R (on_sim (\<lambda>s. s\<lparr>si_transport := t\<rparr>))" for t
    by (rule keeps_on_sim) (rule R_transport)
  moreover have "keeps R (on_sim (\<lambda>s. record_with_network ev w (step_network a s) s))" for ev w
    by (rule keeps_on_sim) (rule R_record)
  ultimately show ?thesis
    unfolding transmit_def by (intro keep_intros) (auto simp: note_sent_def intro!: keep_intros split: sum.split)
qed

lemma keeps_recv [keep_intros]: "keeps R (apply_received role r)"
  unfolding keeps_def apply_received_def Let_def
  by (auto split: option.splits intro: R_trans [OF R_transport R_advance])

lemma keeps_do_recv [keep_intros]: "keeps R (do_recv env wk role e ms)" "keeps R (do_recv_raw env wk ck role e ms)"
  unfolding do_recv_def do_recv_raw_def by (intro keep_intros)+

lemma keeps_observe [keep_intros]: "keeps R (observe_tcp d raw)"
  unfolding keeps_def observe_tcp_def by (auto split: prod.splits intro: R_role)

lemma keeps_outbound [keep_intros]: "keeps R (outbound env seg)" "keeps R (advance_seq seq n)"
  unfolding outbound_def advance_seq_def by (intro keep_intros; simp)+

lemma keeps_before [keep_intros]: "keeps R (receive_before env wk role step)"
  unfolding receive_before_def by (intro keep_intros) (simp add: note_received_def)

lemma keeps_packets [keep_intros]: "keeps R (send_packets env role step to kvs payload bs seen sent)"
  by (induction bs arbitrary: seen sent) (auto simp: Let_def intro!: keep_intros)

lemma keeps_sends [keep_intros]:
  "keeps R (send_action env wk role step)" "keeps R (nack_action env wk role step)" "keeps R (reset_action env role step)"
  "keeps R (duplicate_action env role step)" "keeps R (corrupt_action env role step)" "keeps R (send_raw_action env role step)"
  unfolding send_action_def nack_action_def reset_action_def duplicate_action_def corrupt_action_def send_raw_action_def Let_def
  by (intro keep_intros; simp)+

lemma keeps_receives [keep_intros]: "keeps R (recv_action env wk ck role step)" "keeps R (drop_action env wk role step)"
proof -
  have "keeps R (on_sim (\<lambda>s. record_with_network ev w (step_network a s) s))" for ev w a
    by (rule keeps_on_sim) (rule R_record)
  then show "keeps R (recv_action env wk ck role step)"
    unfolding recv_action_def Let_def by (intro keep_intros) (simp_all add: note_received_def)
  have ev: "keeps R (on_sim (record_event e))" for e by (rule keeps_on_sim) (rule R_event)
  show "keeps R (drop_action env wk role step)"
    unfolding drop_action_def
  proof (rule keeps_get_role)
    fix st
    let ?m = "do_recv env wk role (step_expect env (unwrap_or default_expect (st_expect step)) st) (step_timeout 1000 step)"
    show "keeps R (\<lambda>w. case ?m w of None \<Rightarrow> None
        | Some (w', Inr m) \<Rightarrow> on_sim (record_event (dropped_event role step m)) w'
        | Some (w', Inl (Fail _)) \<Rightarrow> note_event role step ''drop: no matching segment (timeout)'' w'
        | Some (w', Inl Panic) \<Rightarrow> Some (w', Inl Panic))"
      unfolding keeps_def
    proof (intro allI impI, goal_cases)
      case (1 w w' r)
      then obtain v q where v: "?m w = Some (v, q)" by (auto split: option.splits)
      note Rv = keepsD [OF keeps_do_recv(1) v]
      moreover have "R v w'"
        using 1 unfolding v
        by (auto split: sum.splits fault.splits intro: R_refl dest: keepsD [OF ev] keepsD [OF keeps_note])
      ultimately show ?case by (rule R_trans)
    qed
  qed
qed

lemma keeps_local [keep_intros]:
  "keeps R (open_action role step)" "keeps R (plugin_action env role step)" "keeps R (set_action env role step)"
  "keeps R (assert_action env role step)" "keeps R (wait_action role step)" "keeps R (close_action env role step)"
proof -
  have "keeps R (on_sim (sim_sleep n))" for n by (rule keeps_on_sim) (rule R_sleep)
  then show "keeps R (open_action role step)" "keeps R (plugin_action env role step)" "keeps R (set_action env role step)"
    "keeps R (assert_action env role step)" "keeps R (wait_action role step)" "keeps R (close_action env role step)"
    unfolding open_action_def plugin_action_def set_action_def assert_action_def wait_action_def close_action_def Let_def
    by (intro keep_intros; simp)+
qed

lemma keeps_execute: "keeps R (execute_step env wk ck role step)"
  unfolding execute_step.simps by (cases "st_action step") (simp_all add: keep_intros)

lemma keeps_retransmit: "keeps R (retransmit_snapshot env l)"
  unfolding retransmit_snapshot_def by (intro keep_intros) simp

end

text \<open>A relation that also allows failures to be noted, steps to be marked done and roles to change covers the threads.\<close>

locale run_relation = engine_relation +
  assumes R_failure: "R (s, st) (set_failure r f s, st)"
    and R_done: "R (s, st) (mark_done n s, st)"
    and R_any_role: "R (s, st) (s, st')"
    and R_push: "may_push k s \<Longrightarrow> R (s, st) (push_event k s, st)"
begin

lemma run_end_role: "R (s, st) (fst (end_role th step f s), st')"
  unfolding end_role_def record_step_failure_def fst_conv
  using R_event R_failure R_done R_any_role by (meson R_trans)

lemma run_enforce: "R (s, st) (fst (enforce_runtime r s), st)"
  by (simp add: enforce_runtime_def R_refl R_failure)

lemma run_begin: "R (s, st) (fst (begin_step env th step s), st')"
proof -
  have skip: "R (s, st) (mark_done n (record_step_note r step d s), st')" for n r d
    unfolding record_step_note_def using R_event R_done R_any_role by (meson R_trans)
  show ?thesis
    unfolding begin_step_def
    by (auto intro: skip run_end_role R_any_role split: sum.split fault.split)
qed

lemma run_after_success: "R (s, st) (fst (after_success th step l s), st')"
proof -
  obtain s' b where e: "enforce_runtime (th_role th) s = (s', b)" by (meson surj_pair)
  have "R (s, st) (s', st)" using run_enforce [of s st "th_role th"] by (simp add: e)
  moreover have "R (s', st) (s', st')" "R (s', st) (mark_done n s', st')" for n
    using R_done R_any_role by (blast, meson R_trans)
  ultimately show ?thesis
    unfolding after_success_def finish_step_def e by (auto intro: R_trans split: bool.split)
qed

lemma run_retransmit:
  assumes "retransmit_last env th step l rt ry lt s = Some (s', th')"
  shows "R (s, th_state th) (s', st')"
proof -
  obtain d v st r where x: "retransmit_snapshot env lt (record_step_note (th_role th) step d s, th_state th) = Some ((v, st), r)"
    and m: "after_retransmit th step l rt ry lt v st r = (s', th')"
    using retransmit_last_cases [OF assms] .
  have s': "s' = v \<or> (\<exists>g ev. s' = mark_done (st_name step) (set_failure (th_role th) g (record_event ev v)))"
    using m by (auto simp: after_retransmit_def split: sum.splits fault.splits)
  have "R (s, th_state th) (v, st)"
    using keepsD [OF keeps_retransmit x] R_event unfolding record_step_note_def by (meson R_trans)
  moreover have "R (v, st) (s', st')"
    using s' R_any_role R_event R_failure R_done by (metis R_trans)
  ultimately show ?thesis by (rule R_trans)
qed

lemma run_after_failure:
  assumes "after_failure env th step l rt ry f s = Some (s', th')"
  shows "R (s, th_state th) (s', st')"
proof -
  have retry: "R (s, th_state th) (fst (retry_step env th step l rt ry f s), st')"
    unfolding retry_step_def Let_def record_step_note_def fst_conv using R_sleep R_event R_any_role by (meson R_trans)
  from assms consider lt where "retransmit_last env th step l rt ry lt s = Some (s', th')"
    | "s' = fst (retry_step env th step l rt ry f s)" | "s' = fst (end_role th step f s)"
    by (auto simp: after_failure_def Let_def split: option.splits if_splits)
  then show ?thesis
    using run_retransmit retry run_end_role by cases auto
qed

lemma run_thread:
  assumes "thread_step env wk ck th s = Some (s', th')"
  shows "R (s, th_state th) (s', st')"
proof -
  have attempt: "R (s, th_state th) (s', st')" if t: "try_step env wk ck th step l rt ry s = Some (s', th')" for step l rt ry
  proof -
    obtain v st r where x: "execute_step env wk ck (th_role th) step (s, th_state th) = Some ((v, st), r)"
      using t by (auto simp: try_step_def split: option.splits)
    have "R (v, st) (s', st')"
      using t x run_after_failure [of env "th\<lparr>th_state := st\<rparr>" step l rt ry _ v s' th' st'] R_any_role
        run_after_success [of v st "th\<lparr>th_state := st\<rparr>" step "l - 1" st']
      by (auto simp: try_step_def split: sum.splits fault.splits)
    then show ?thesis using keepsD [OF keeps_execute x] by (rule R_trans [rotated])
  qed
  have enf: "R (s, st) (v, st')" if "enforce_runtime r s = (v, b)" for r v b st
    using run_enforce [of s st r] that R_any_role by (metis R_trans fst_conv)
  have start: "R (s, st) (v, st')" if "begin_step env th step s = (v, th')" for step v th' st
    using run_begin [of s st env th step st'] that by simp
  show ?thesis
    using assms attempt enf start R_any_role
    unfolding thread_step_def by (auto split: list.splits phase.splits if_splits prod.splits bool.splits)
qed

end

subsection \<open>Interpretations\<close>

definition same_frame :: "world \<Rightarrow> world \<Rightarrow> bool" where
  "same_frame w w' \<longleftrightarrow> si_completed (fst w') = si_completed (fst w) \<and> rs_protocol_state (snd w') = rs_protocol_state (snd w)"

definition failure_kept :: "world \<Rightarrow> world \<Rightarrow> bool" where
  "failure_kept w w' \<longleftrightarrow> (si_error (fst w) \<noteq> None \<longrightarrow> si_error (fst w') = si_error (fst w))"

text \<open>
  The events in the trace and on their way to it have the numbers from 0 on, each once; those of one
  role are in the order of their numbers; beyond the limit the run has failed.
\<close>

definition trace_wf :: "sim \<Rightarrow> bool" where
  "trace_wf s \<longleftrightarrow> mset (map tv_seq (si_trace s @ si_open s)) = mset [0..<min (si_counter s) (si_max_trace s)] \<and>
     (\<forall>role. sorted_wrt (<) (map tv_seq (filter (event_of role) (si_trace s @ si_open s)))) \<and>
     (si_counter s > si_max_trace s \<longrightarrow> si_error s \<noteq> None)"

definition trace_grows :: "world \<Rightarrow> world \<Rightarrow> bool" where
  "trace_grows w w' \<longleftrightarrow> prefix (si_trace (fst w)) (si_trace (fst w')) \<and> si_max_trace (fst w') = si_max_trace (fst w) \<and>
     (trace_wf (fst w) \<longrightarrow> trace_wf (fst w'))"

lemma set_failure_simps [simp]:
  "si_completed (set_failure r f s) = si_completed s" "si_trace (set_failure r f s) = si_trace s" "si_open (set_failure r f s) = si_open s"
  "si_counter (set_failure r f s) = si_counter s" "si_max_trace (set_failure r f s) = si_max_trace s"
  "si_error (set_failure r f s) = (if si_error s = None then Some (r, f) else si_error s)"
  by (simp_all add: set_failure_def)

lemma record_simps [simp]:
  "si_completed (record_with_network ev w n s) = si_completed s"
  "si_max_trace (record_with_network ev w n s) = si_max_trace s"
  "si_error s \<noteq> None \<Longrightarrow> si_error (record_with_network ev w n s) = si_error s"
  "si_trace (record_with_network ev w n s) = si_trace s"
  by (auto simp: record_with_network_def Let_def)

lemma push_simps [simp]:
  "si_completed (push_event k s) = si_completed s" "si_error (push_event k s) = si_error s" "si_max_trace (push_event k s) = si_max_trace s"
  "si_counter (push_event k s) = si_counter s" "si_transport (push_event k s) = si_transport s"
  "si_trace (push_event k s) = si_trace s @ [si_open s ! k]" "si_open (push_event k s) = take k (si_open s) @ drop (Suc k) (si_open s)"
  by (simp_all add: push_event_def)

lemma trace_numbers: "trace_wf s \<Longrightarrow> e \<in> set (si_trace s @ si_open s) \<Longrightarrow> tv_seq e < si_counter s"
proof -
  assume "trace_wf s" and e: "e \<in> set (si_trace s @ si_open s)"
  then have "set (map tv_seq (si_trace s @ si_open s)) = set [0..<min (si_counter s) (si_max_trace s)]"
    unfolding trace_wf_def by (metis set_mset_mset)
  with e show ?thesis by auto
qed

lemma record_trace_wf:
  assumes "trace_wf s"
  shows "trace_wf (record_with_network ev w n s)"
proof (cases "si_counter s \<ge> si_max_trace s")
  case True
  then show ?thesis using assms by (auto simp: trace_wf_def record_with_network_def Let_def min_def)
next
  case False
  have "\<forall>e \<in> set (si_trace s) \<union> set (si_open s). tv_seq e < si_counter s" using trace_numbers [OF assms] by auto
  then show ?thesis
    using assms False by (auto simp: trace_wf_def record_with_network_def Let_def min_def sorted_wrt_append)
qed

lemma push_trace_wf:
  assumes "trace_wf s" and "may_push k s"
  shows "trace_wf (push_event k s)"
proof -
  define e a b where "e = si_open s ! k" and "a = take k (si_open s)" and "b = drop (Suc k) (si_open s)"
  have o: "si_open s = a @ e # b" using assms(2) by (simp add: may_push_def id_take_nth_drop e_def a_def b_def)
  have p: "si_trace (push_event k s) @ si_open (push_event k s) = si_trace s @ e # a @ b" by (simp add: e_def a_def b_def)
  have "filter (event_of role) (e # a) = filter (event_of role) (a @ [e])" for role
  proof (cases "event_of role e")
    case True
    then have "filter (event_of role) a = []"
      using assms(2) by (auto simp: may_push_def event_of_def list_ex_iff filter_empty_conv e_def a_def)
    with True show ?thesis by simp
  qed simp
  then have "filter (event_of role) (si_trace s @ (e # a) @ b) = filter (event_of role) (si_trace s @ (a @ [e]) @ b)" for role
    by (simp only: filter_append)
  then have f: "filter (event_of role) (si_trace s @ e # a @ b) = filter (event_of role) (si_trace s @ a @ e # b)" for role by simp
  have m: "mset (map tv_seq (si_trace s @ e # a @ b)) = mset (map tv_seq (si_trace s @ a @ e # b))" by simp
  show ?thesis
    using assms(1) unfolding trace_wf_def p f m unfolding o push_simps .
qed

interpretation frame: engine_relation same_frame
  by unfold_locales (auto simp: same_frame_def)

interpretation kept: run_relation failure_kept
  by unfold_locales (auto simp: failure_kept_def mark_done_def)

interpretation trc: run_relation trace_grows
proof
  show "trace_grows u w" if "trace_grows u v" "trace_grows v w" for u v w
    using that unfolding trace_grows_def by (auto intro: prefix_order.trans)
qed (auto simp: trace_grows_def record_trace_wf push_trace_wf, auto simp: trace_wf_def mark_done_def)

end
