(* ===== verification/Engine_Correct.thy ===== *)
theory Engine_Correct
  imports Engine_Frame Model_Check_Report
begin

text \<open>
  The engine against the model checker. The engine schedules threads, waits, retries and
  transmits; the checker abstracts a run to the completed steps and the protocol state of
  every role. As long as a run has not failed, its abstraction is a run of the transition
  system that \<open>model_check\<close> explores, so what a complete report excludes does not happen
  in the engine.
\<close>

subsection \<open>What one transition of a thread does\<close>

definition thread_ok :: "sim \<Rightarrow> thread \<Rightarrow> bool" where
  "thread_ok s th \<longleftrightarrow>
     (case th_phase th of
        Running l rt ry \<Rightarrow> l > 0 \<and> (\<exists>step rest. th_steps th = step # rest \<and> deps_done (st_depends_on step) s \<and>
          True \<in> set (outcomes (st_when step)) \<and> state_allowed step (th_state th))
      | Ended \<Rightarrow> th_steps th = []
      | _ \<Rightarrow> True)"

text \<open>A transition of a thread that does not complete a step.\<close>

definition quiet :: "sim \<Rightarrow> thread \<Rightarrow> sim \<Rightarrow> thread \<Rightarrow> bool" where
  "quiet s th s' th' \<longleftrightarrow> si_completed s' = si_completed s \<and> th_steps th' = th_steps th \<and>
     rs_protocol_state (th_state th') = rs_protocol_state (th_state th) \<and> thread_ok s' th'"

text \<open>A transition that completes a step, executed or skipped.\<close>

definition completes :: "bool \<Rightarrow> sim \<Rightarrow> thread \<Rightarrow> sim \<Rightarrow> thread \<Rightarrow> bool" where
  "completes execute s th s' th' \<longleftrightarrow>
     (\<exists>step. th_steps th = step # th_steps th' \<and> deps_done (st_depends_on step) s \<and>
        (execute \<in> set (outcomes (st_when step)) \<or> \<not> execute \<and> st_loop_count step = 0) \<and> (execute \<longrightarrow> state_allowed step (th_state th)) \<and>
        set (si_completed s') = insert (st_name step) (set (si_completed s)) \<and> th_phase th' = Starting \<and>
        rs_protocol_state (th_state th') =
          (if execute then unwrap_or (rs_protocol_state (th_state th)) (st_to_state step) else rs_protocol_state (th_state th)))"

lemma mark_done_simps [simp]:
  "si_error (mark_done n s) = si_error s" "set (si_completed (mark_done n s)) = insert n (set (si_completed s))"
  "si_trace (mark_done n s) = si_trace s" "si_counter (mark_done n s) = si_counter s"
  "si_max_trace (mark_done n s) = si_max_trace s"
  by (simp_all add: mark_done_def)

lemma record_event_simps [simp]:
  "si_completed (record_event ev s) = si_completed s"
  "si_error s \<noteq> None \<Longrightarrow> si_error (record_event ev s) = si_error s"
  by (simp_all add: record_event_def record_with_wire_def)

lemma record_event_ok: "si_error (record_event ev s) = None \<Longrightarrow> si_error s = None"
  using record_event_simps(2) [of s ev] by (cases "si_error s") auto

lemma sleep_simps [simp]: "si_completed (sim_sleep n s) = si_completed s" "si_error (sim_sleep n s) = si_error s"
  "si_counter (sim_sleep n s) = si_counter s"
  by (simp_all add: sim_sleep_def advance_def)

lemma enforce_cases:
  "enforce_runtime r s = (s', b) \<Longrightarrow> (b \<and> si_error s' \<noteq> None \<and> si_completed s' = si_completed s) \<or> (\<not> b \<and> s' = s)"
  by (auto simp: enforce_runtime_def split: if_splits)

lemma enabled_outcome:
  "step_enabled env step vars = Inr b \<Longrightarrow> b \<in> set (outcomes (st_when step))"
proof (cases "st_when step")
  case (Some v)
  assume "step_enabled env step vars = Inr b"
  then show ?thesis using Some by (cases v) (auto simp: step_enabled_def outcomes_def split: val.splits)
qed (auto simp: step_enabled_def outcomes_def)

lemma state_allowed_cong: "rs_protocol_state st' = rs_protocol_state st \<Longrightarrow> state_allowed step st' = state_allowed step st"
  by (simp add: state_allowed_def split: option.split)

lemma end_role_fails: "si_error (fst (end_role th step f s)) \<noteq> None"
  by (simp add: end_role_def)

lemma failure_keptD: "failure_kept w w' \<Longrightarrow> si_error (fst w') = None \<Longrightarrow> si_error (fst w) = None"
  unfolding failure_kept_def by metis

lemma execute_frame:
  assumes "execute_step env wk ck role step (s, st) = Some ((s', st'), r)"
  shows "si_completed s' = si_completed s" and "rs_protocol_state st' = rs_protocol_state st"
    and "si_error s' = None \<Longrightarrow> si_error s = None"
  using keepsD [OF frame.keeps_execute assms] failure_keptD [OF keepsD [OF kept.keeps_execute assms]]
  by (simp_all add: same_frame_def)

lemma retransmit_frame:
  assumes "retransmit_snapshot env lt (s, st) = Some ((s', st'), r)"
  shows "si_completed s' = si_completed s" and "rs_protocol_state st' = rs_protocol_state st"
    and "si_error s' = None \<Longrightarrow> si_error s = None"
  using keepsD [OF frame.keeps_retransmit assms] failure_keptD [OF keepsD [OF kept.keeps_retransmit assms]]
  by (simp_all add: same_frame_def)

lemma begin_step_moves:
  assumes "begin_step env th step s = (s', th')" and "si_error s' = None" and "th_steps th = step # rest"
    and "deps_done (st_depends_on step) s"
  shows "si_error s = None" and "th_role th' = th_role th" and "quiet s th s' th' \<or> completes False s th s' th'"
proof -
  show ok: "si_error s = None"
    using assms(1,2) by (auto simp: begin_step_def failed_def intro: ccontr)
  show "th_role th' = th_role th"
    using assms(1) by (auto simp: begin_step_def end_role_def next_step_of_def to_phase_def split: sum.splits fault.splits if_splits)
  have e: "end_role th step f s \<noteq> (s', th')" for f
    using end_role_fails [of th step f s] assms(2) by auto
  have "deps_done (st_depends_on step) s'" if "s' = s" using that assms(4) by simp
  then show "quiet s th s' th' \<or> completes False s th s' th'"
    using assms(1,3,4) e ok enabled_outcome [of env step]
    by (auto simp: begin_step_def failed_def quiet_def completes_def thread_ok_def to_phase_def next_step_of_def
        record_step_note_def split: sum.splits fault.splits if_splits)
qed

lemma after_failure_moves:
  assumes "after_failure env th step l rt ry f s = Some (s', th')" and "si_error s' = None" and "th_steps th = step # rest"
    and "th_phase th = Running l rt ry" and "thread_ok s th"
  shows "si_error s = None" and "th_role th' = th_role th" and "quiet s th s' th'"
proof -
  have e: "end_role th step f s \<noteq> (s', th')"
    using end_role_fails [of th step f s] assms(2) by auto
  consider (again) lt where "retransmit_last env th step l rt ry lt s = Some (s', th')"
    | (retry) "retry_step env th step l rt ry f s = (s', th')"
    using assms(1) e by (auto simp: after_failure_def Let_def split: option.splits if_splits)
  then have "si_error s = None \<and> th_role th' = th_role th \<and> quiet s th s' th'"
  proof cases
    case again
    then obtain d v st r where x: "retransmit_snapshot env lt (record_step_note (th_role th) step d s, th_state th) = Some ((v, st), r)"
      and m: "after_retransmit th step l rt ry lt v st r = (s', th')"
      by (rule retransmit_last_cases)
    have v: "s' = v" "th' = th\<lparr>th_state := st, th_phase := Running l (rt + 1) ry\<rparr> \<or> th' = th\<lparr>th_state := st, th_phase := Panicked\<rparr>"
      using m assms(2) by (auto simp: after_retransmit_def split: sum.splits fault.splits if_splits)
    note fr = retransmit_frame [OF x]
    have "si_error s = None" using fr(3) assms(2) by (auto simp: v(1) record_step_note_def dest: record_event_ok)
    then show ?thesis
      using fr(1,2) assms(3-5) v by (auto simp: record_step_note_def quiet_def thread_ok_def deps_done_def state_allowed_def split: option.splits)
  next
    case retry
    then show ?thesis
      using assms(2-5)
      by (auto simp: retry_step_def Let_def record_step_note_def quiet_def thread_ok_def to_phase_def deps_done_def
          dest: record_event_ok)
  qed
  then show "si_error s = None" and "th_role th' = th_role th" and "quiet s th s' th'" by auto
qed

lemma after_success_moves:
  assumes "after_success th step l s = (s', th')" and "si_error s' = None" and "th_steps th = step # rest"
    and "th_phase th = Running (Suc l) rt ry" and "thread_ok s th"
  shows "si_error s = None" and "th_role th' = th_role th" and "quiet s th s' th' \<or> completes True s th s' th'"
proof -
  obtain v b where v: "enforce_runtime (th_role th) s = (v, b)" by (meson surj_pair)
  have b: "\<not> b \<and> v = s" using enforce_cases [OF v] assms(1,2) v by (auto simp: after_success_def)
  then have m: "(if l = 0 then finish_step th step s else (s, to_phase th (Running l 0 0))) = (s', th')"
    using assms(1) v by (simp add: after_success_def)
  then show "si_error s = None"
    using assms(2) by (auto simp: finish_step_def split: if_splits)
  show "th_role th' = th_role th"
    using m by (auto simp: finish_step_def next_step_of_def to_phase_def split: if_splits option.splits)
  show "quiet s th s' th' \<or> completes True s th s' th'"
  proof (cases "l = 0")
    case True
    with m assms(3-5) have "completes True s th s' th'"
      by (auto simp: finish_step_def next_step_of_def completes_def thread_ok_def split: option.splits)
    then show ?thesis ..
  next
    case False
    with m assms(3-5) have "quiet s th s' th'" by (auto simp: quiet_def thread_ok_def to_phase_def)
    then show ?thesis ..
  qed
qed

lemma try_step_moves:
  assumes "try_step env wk ck th step l rt ry s = Some (s', th')" and "si_error s' = None" and "th_steps th = step # rest"
    and "th_phase th = Running l rt ry" and "thread_ok s th"
  shows "si_error s = None" and "th_role th' = th_role th" and "quiet s th s' th' \<or> completes True s th s' th'"
proof -
  obtain v st r where x: "execute_step env wk ck (th_role th) step (s, th_state th) = Some ((v, st), r)"
    using assms(1) by (auto simp: try_step_def split: option.splits)
  note fr = execute_frame [OF x]
  let ?th = "th\<lparr>th_state := st\<rparr>"
  from assms(4,5) obtain k where l: "l = Suc k" by (cases l) (auto simp: thread_ok_def)
  have ok: "thread_ok v ?th" "th_steps ?th = step # rest" "th_phase ?th = Running l rt ry"
    using assms(3-5) fr by (auto simp: thread_ok_def deps_done_def state_allowed_def split: option.splits)
  have *: "si_error v = None \<and> th_role th' = th_role ?th \<and> (quiet v ?th s' th' \<or> completes True v ?th s' th')"
  proof (cases r)
    case (Inr u)
    then have m: "after_success ?th step k v = (s', th')" using assms(1) x l by (simp add: try_step_def)
    show ?thesis using after_success_moves [OF m assms(2) ok(2) ok(3) [unfolded l] ok(1)] by blast
  next
    case (Inl e)
    show ?thesis
    proof (cases e)
      case (Fail f)
      then have m: "after_failure env ?th step l rt ry f v = Some (s', th')" using assms(1) x Inl by (simp add: try_step_def)
      show ?thesis using after_failure_moves [OF m assms(2) ok(2,3,1)] by blast
    next
      case Panic
      then have m: "s' = v" "th' = th\<lparr>th_state := st, th_phase := Panicked\<rparr>" using assms(1) x Inl by (simp_all add: try_step_def)
      then show ?thesis using assms(2) by (simp add: quiet_def thread_ok_def)
    qed
  qed
  then show "si_error s = None" "th_role th' = th_role th" using fr(3) by auto
  show "quiet s th s' th' \<or> completes True s th s' th'"
    using * fr(1,2) state_allowed_cong [OF fr(2)] by (auto simp: quiet_def completes_def deps_done_def)
qed

lemma thread_step_moves:
  assumes "thread_step env wk ck th s = Some (s', th')" and "si_error s' = None" and "thread_ok s th"
  shows "si_error s = None \<and> th_role th' = th_role th \<and> (quiet s th s' th' \<or> (\<exists>execute. completes execute s th s' th'))"
proof (cases "th_steps th")
  case Nil
  then show ?thesis using assms(1,2) by (auto simp: thread_step_def quiet_def thread_ok_def to_phase_def split: if_splits)
next
  case (Cons step rest)
  show ?thesis
  proof (cases "th_phase th")
    case Starting
    then show ?thesis
      using assms(1,2) Cons by (auto simp: thread_step_def quiet_def thread_ok_def to_phase_def split: prod.splits bool.splits dest!: enforce_cases)
  next
    case Waiting
    show ?thesis
    proof (cases "deps_done (st_depends_on step) s")
      case True
      then have m: "begin_step env th step s = (s', th')" using assms(1) Waiting Cons by (simp add: thread_step_def)
      show ?thesis using begin_step_moves [OF m assms(2) Cons True] by blast
    next
      case False
      then show ?thesis
        using assms(1,2) Waiting Cons
        by (auto simp: thread_step_def failed_def split: prod.splits bool.splits if_splits dest!: enforce_cases)
    qed
  next
    case (Running l rt ry)
    then have "try_step env wk ck th step l rt ry s = Some (s', th')" using assms(1) Cons by (simp add: thread_step_def)
    from try_step_moves [OF this assms(2) Cons Running assms(3)] show ?thesis by blast
  qed (use assms(1) Cons in \<open>auto simp: thread_step_def\<close>)
qed

subsection \<open>The plan seen by one role\<close>

abbreviation planned_name :: "planned_step \<Rightarrow> string" where
  "planned_name q \<equiv> st_name (ps_step q)"

lemma plan_dependencies:
  assumes "plan ho p = Some (Inr pl)" and "hash_iteration ho" and "j < length (plan_order pl)" and "d \<in> set (ps_deps (plan_order pl ! j))"
  obtains k where "k < j" and "planned_name (plan_order pl ! k) = d"
    and "d \<in> set (st_depends_on (ps_step (plan_order pl ! j))) \<or>
      st_role (ps_step (plan_order pl ! k)) = st_role (ps_step (plan_order pl ! j))"
proof -
  let ?steps = "pr_steps p"
  obtain em where em: "greedy_prefix ?steps em" "set em = {..<length ?steps}" "plan_order pl = map (planned ?steps) em"
    "inj_on (step_name ?steps) {..<length ?steps}"
    using plan_ok_greedy [OF assms(1,2)] by metis
  have j: "j < length em" using assms(3) em(3) by simp
  have d: "d \<in> set (resolved ?steps (em ! j))" using assms(4) j em(3) by (simp add: planned_def)
  then have "d \<in> step_name ?steps ` set (take j em)" using greedy_prefix_wf(3) [OF em(1) j] by blast
  then obtain k where k: "k < j" "step_name ?steps (em ! k) = d" by (auto simp: in_set_conv_nth)
  have in_range: "em ! x < length ?steps" if "x < length em" for x using em(2) that nth_mem by blast
  have "d \<in> set (st_depends_on (?steps ! (em ! j))) \<or> st_role (?steps ! (em ! k)) = st_role (?steps ! (em ! j))"
  proof (cases "d \<in> set (st_depends_on (?steps ! (em ! j)))")
    case False
    with d have "last_in_role (take (em ! j) ?steps) (st_role (?steps ! (em ! j))) = Some d"
      by (auto simp: resolved_def set_push_new split: option.splits)
    from last_in_role_Some [OF this less_imp_le [OF in_range [OF j]]]
    obtain i where i: "i < em ! j" "d = step_name ?steps i" "st_role (?steps ! i) = st_role (?steps ! (em ! j))" by metis
    have "i = em ! k" using inj_onD [OF em(4), of i "em ! k"] i k j in_range [of k] in_range [OF j] by simp
    with i(3) show ?thesis by simp
  qed simp
  with that [of k] k j em(3) show ?thesis by (simp add: planned_def step_name_def)
qed

lemma plan_explicit:
  assumes "plan ho p = Some (Inr pl)" and "hash_iteration ho" and "q \<in> set (plan_order pl)"
  shows "set (st_depends_on (ps_step q)) \<subseteq> set (ps_deps q)"
proof -
  obtain em where "plan_order pl = map (planned (pr_steps p)) em" using plan_ok_greedy [OF assms(1,2)] by metis
  then show ?thesis using assms(3) resolved_deps [of "pr_steps p"] by (force simp: planned_def)
qed

lemma suffix_rest:
  assumes "suffix (x # ys) (as @ x # bs)" and "distinct (as @ x # bs)"
  shows "ys = bs"
proof -
  obtain cs where cs: "cs @ x # ys = as @ x # bs" using assms(1) by (auto simp: suffix_def)
  with assms(2) have "x \<notin> set cs" "x \<notin> set as" by (metis distinct_append distinct.simps(2) IntI empty_iff list.set_intros(1))+
  with cs show ?thesis by (auto simp: append_eq_append_conv2 Cons_eq_append_conv append_eq_Cons_conv)
qed

lemma names_injective:
  assumes "distinct (map planned_name (plan_order pl))" and "x \<in> set (map ps_step (plan_order pl))" and "y \<in> set (map ps_step (plan_order pl))"
    and "st_name x = st_name y"
  shows "x = y"
  using assms by (auto simp: distinct_map dest: inj_onD)

lemma role_before:
  assumes "distinct (map planned_name (plan_order pl))" and "j < length (plan_order pl)" and "k < j"
    and "suffix (ps_step (plan_order pl ! j) # rest) (role_steps pl r)"
  shows "ps_step (plan_order pl ! k) \<notin> set (ps_step (plan_order pl ! j) # rest)"
proof -
  let ?os = "map ps_step (plan_order pl)" and ?P = "\<lambda>x. st_role x = r"
  have dist: "distinct ?os" using assms(1) by (simp add: distinct_map inj_on_def)
  have os: "?os = take j ?os @ ?os ! j # drop (Suc j) ?os" by (rule id_take_nth_drop) (use assms(2) in simp)
  have "?os ! j \<in> set (role_steps pl r)" using set_mono_suffix [OF assms(4)] assms(2) by simp
  then have Pj: "?P (?os ! j)" by (simp add: role_steps_def)
  have rs: "role_steps pl r = filter ?P (take j ?os) @ ?os ! j # filter ?P (drop (Suc j) ?os)"
    unfolding role_steps_def by (subst os) (simp add: Pj)
  have "distinct (role_steps pl r)" using dist by (simp add: role_steps_def)
  then have rest: "rest = filter ?P (drop (Suc j) ?os)"
    using assms(2,4) unfolding rs by (intro suffix_rest) auto
  have "?os ! k \<in> set (take j ?os)" using assms(2,3) by (auto simp: in_set_conv_nth intro!: exI [of _ k])
  moreover have "set (take j ?os) \<inter> set (?os ! j # drop (Suc j) ?os) = {}"
    using dist os by (metis distinct_append)
  ultimately have "?os ! k \<notin> set (?os ! j # rest)" by (auto simp: rest)
  then show ?thesis using assms(2,3) by simp
qed

subsection \<open>The simulation\<close>

text \<open>What holds between the plan and the threads of a run that has not failed.\<close>

definition follows :: "exec_plan \<Rightarrow> sim \<Rightarrow> thread list \<Rightarrow> bool" where
  "follows pl s ths \<longleftrightarrow> map th_role ths = plan_roles pl \<and>
     (\<forall>th \<in> set ths. suffix (th_steps th) (role_steps pl (th_role th)) \<and> thread_ok s th \<and>
        (\<forall>step \<in> set (role_steps pl (th_role th)). st_name step \<in> set (si_completed s) \<longleftrightarrow> step \<notin> set (th_steps th)))"

definition plan_wf :: "exec_plan \<Rightarrow> bool" where
  "plan_wf pl \<longleftrightarrow> distinct (map planned_name (plan_order pl)) \<and> distinct (plan_roles pl) \<and>
     (\<forall>q \<in> set (plan_order pl). st_role (ps_step q) \<in> set (plan_roles pl))"

lemma thread_ok_mono: "thread_ok s th \<Longrightarrow> set (si_completed s) \<subseteq> set (si_completed s') \<Longrightarrow> thread_ok s' th"
  unfolding thread_ok_def deps_done_def list_all_iff by (auto split: phase.splits)

lemma roles_update: "i < length ths \<Longrightarrow> th_role th' = th_role (ths ! i) \<Longrightarrow> map th_role (ths[i := th']) = map th_role ths"
  by (simp add: map_update list_update_same_conv)

lemma follows_quiet:
  assumes "follows pl s ths" and "i < length ths" and "quiet s (ths ! i) s' th'" and "th_role th' = th_role (ths ! i)"
  shows "follows pl s' (ths[i := th'])"
proof -
  have "thread_ok s' th" if "thread_ok s th" for th
    using thread_ok_mono [OF that] assms(3) by (simp add: quiet_def)
  moreover note roles_update [OF assms(2,4)]
  ultimately show ?thesis
    using assms set_update_subset_insert [of ths i th'] unfolding follows_def quiet_def
    by (metis (no_types, lifting) insertE nth_mem subsetD)
qed

lemma same_role:
  assumes "distinct (map th_role ths)" and "x \<in> set ths" and "y \<in> set ths" and "th_role x = th_role y"
  shows "x = y"
  using assms by (auto simp: distinct_map dest: inj_onD)

lemma follows_completes:
  assumes pl: "plan_wf pl" and f: "follows pl s ths" and i: "i < length ths" and c: "completes execute s (ths ! i) s' th'"
    and r: "th_role th' = th_role (ths ! i)"
  shows "follows pl s' (ths[i := th'])"
proof -
  let ?th = "ths ! i"
  obtain step where step: "th_steps ?th = step # th_steps th'" "th_phase th' = Starting"
    "set (si_completed s') = insert (st_name step) (set (si_completed s))"
    using c by (auto simp: completes_def)
  have th: "suffix (step # th_steps th') (role_steps pl (th_role ?th))"
    "\<forall>x \<in> set (role_steps pl (th_role ?th)). st_name x \<in> set (si_completed s) \<longleftrightarrow> x \<notin> set (step # th_steps th')"
    using f i step(1) unfolding follows_def by (metis nth_mem)+
  have member: "x \<in> set (map ps_step (plan_order pl))" if "x \<in> set (role_steps pl q)" for x q
    using that by (auto simp: role_steps_def)
  have inj: "x = y" if "x \<in> set (role_steps pl q)" "y \<in> set (role_steps pl q')" "st_name x = st_name y" for x y q q'
    using names_injective [of pl x y] pl that member by (simp add: plan_wf_def)
  have step_in: "step \<in> set (role_steps pl (th_role ?th))" using set_mono_suffix [OF th(1)] by simp
  have "distinct (role_steps pl (th_role ?th))"
    using pl by (auto simp: role_steps_def plan_wf_def distinct_map inj_on_def)
  then have fresh: "step \<notin> set (th_steps th')" using th(1) by (auto simp: suffix_def)
  have roles: "map th_role (ths[i := th']) = plan_roles pl"
    using f roles_update [OF i r] by (simp add: follows_def)
  have "suffix (th_steps th) (role_steps pl (th_role th)) \<and> thread_ok s' th \<and>
      (\<forall>x \<in> set (role_steps pl (th_role th)). st_name x \<in> set (si_completed s') \<longleftrightarrow> x \<notin> set (th_steps th))"
    if mem: "th \<in> set (ths[i := th'])" for th
  proof (cases "th = th'")
    case True
    have "suffix (th_steps th') (role_steps pl (th_role ?th))" using th(1) by (meson suffix_ConsD)
    moreover have "thread_ok s' th'" using step(2) by (simp add: thread_ok_def)
    ultimately show ?thesis
      using True r th(2) fresh step(3) inj [OF _ step_in] by auto
  next
    case False
    then obtain k where k: "k < length ths" "k \<noteq> i" "th = ths ! k"
      using mem i by (auto simp: in_set_conv_nth nth_list_update split: if_splits)
    have ne: "th_role th \<noteq> th_role ?th"
      using nth_eq_iff_index_eq [of "map th_role ths" k i] f pl k i by (auto simp: follows_def plan_wf_def simp del: nth_eq_iff_index_eq dest: sym)
    have old: "suffix (th_steps th) (role_steps pl (th_role th))" "thread_ok s th"
      "\<forall>x \<in> set (role_steps pl (th_role th)). st_name x \<in> set (si_completed s) \<longleftrightarrow> x \<notin> set (th_steps th)"
      using f k unfolding follows_def by auto
    have "st_name x \<noteq> st_name step" if "x \<in> set (role_steps pl (th_role th))" for x
      using inj [OF that step_in] ne that step_in by (auto simp: role_steps_def)
    with old thread_ok_mono [OF old(2), of s'] show ?thesis by (auto simp: step(3))
  qed
  with roles show ?thesis by (simp add: follows_def)
qed

text \<open>The abstraction of a run: the completed steps of the plan and the protocol states of the roles.\<close>

definition completed_steps :: "exec_plan \<Rightarrow> sim \<Rightarrow> bool list" where
  "completed_steps pl s = map (\<lambda>q. planned_name q \<in> set (si_completed s)) (plan_order pl)"

definition protocol_states :: "thread list \<Rightarrow> string list" where
  "protocol_states ths = map (\<lambda>th. rs_protocol_state (th_state th)) ths"

lemma plan_wf_plan: "plan ho p = Some (Inr pl) \<Longrightarrow> hash_iteration ho \<Longrightarrow> plan_wf pl"
  using plan_names [of ho p pl] by (simp add: plan_wf_def)

lemma plan_steps: "plan ho p = Some (Inr pl) \<Longrightarrow> hash_iteration ho \<Longrightarrow> ps_step ` set (plan_order pl) = set (pr_steps p)"
proof -
  assume "plan ho p = Some (Inr pl)" "hash_iteration ho"
  then obtain em where "set em = {..<length (pr_steps p)}" "plan_order pl = map (planned (pr_steps p)) em"
    using plan_ok_greedy by metis
  then show ?thesis by (force simp: planned_def in_set_conv_nth image_iff)
qed

lemma role_of_thread:
  assumes "map th_role ths = cx_roles cx" and "distinct (cx_roles cx)" and "i < length ths"
  shows "role_pos cx (th_role (ths ! i)) = i" and "role_state cx (d, protocol_states ths, fl) (th_role (ths ! i)) = rs_protocol_state (th_state (ths ! i))"
proof -
  have "cx_roles cx ! i = th_role (ths ! i)" "i < length (cx_roles cx)"
    using assms by (metis nth_map, metis length_map)
  then show "role_pos cx (th_role (ths ! i)) = i"
    using position_nth [OF assms(2), of i] by (simp add: role_pos_def)
  then show "role_state cx (d, protocol_states ths, fl) (th_role (ths ! i)) = rs_protocol_state (th_state (ths ! i))"
    using assms(3) by (simp add: role_state_def protocol_states_def)
qed

lemma head_dependencies:
  assumes pl: "plan ho p = Some (Inr pl)" "hash_iteration ho" and f: "follows pl s ths" and th: "th \<in> set ths"
    and steps: "th_steps th = step # rest" "deps_done (st_depends_on step) s"
    and j: "j < length (plan_order pl)" "ps_step (plan_order pl ! j) = step" and d: "d \<in> set (ps_deps (plan_order pl ! j))"
  shows "d \<in> set (si_completed s)"
proof -
  have th': "suffix (step # rest) (role_steps pl (th_role th))"
    "\<forall>x \<in> set (role_steps pl (th_role th)). st_name x \<in> set (si_completed s) \<longleftrightarrow> x \<notin> set (step # rest)"
    using f th steps(1) unfolding follows_def by metis+
  have role: "st_role step = th_role th" using set_mono_suffix [OF th'(1)] by (auto simp: role_steps_def)
  obtain k where k: "k < j" "planned_name (plan_order pl ! k) = d"
    "d \<in> set (st_depends_on step) \<or> st_role (ps_step (plan_order pl ! k)) = th_role th"
    using plan_dependencies [OF pl j(1) d] j(2) role by metis
  show ?thesis
  proof (cases "d \<in> set (st_depends_on step)")
    case False
    with k j(1) have "ps_step (plan_order pl ! k) \<in> set (role_steps pl (th_role th))" by (auto simp: role_steps_def)
    moreover have "ps_step (plan_order pl ! k) \<notin> set (step # rest)"
      using role_before [OF _ j(1) k(1)] plan_wf_plan [OF pl] th'(1) unfolding j(2) plan_wf_def by blast
    ultimately show ?thesis using th'(2) k(2) by blast
  qed (use steps(2) in \<open>simp add: deps_done_def list_all_iff\<close>)
qed

lemma completed_update:
  assumes "plan_wf pl" and "j < length (plan_order pl)" and "ps_step (plan_order pl ! j) = step"
    and "set (si_completed s') = insert (st_name step) (set (si_completed s))"
  shows "completed_steps pl s' = (completed_steps pl s)[j := True]"
proof (rule nth_equalityI)
  fix k assume "k < length (completed_steps pl s')"
  then have k: "k < length (plan_order pl)" by (simp add: completed_steps_def)
  have "planned_name (plan_order pl ! k) = st_name step \<longleftrightarrow> k = j"
    using assms(1-3) k nth_eq_iff_index_eq [of "map planned_name (plan_order pl)" k j] by (auto simp: plan_wf_def)
  moreover have "completed_steps pl s' ! k \<longleftrightarrow> planned_name (plan_order pl ! k) = st_name step \<or> completed_steps pl s ! k"
    using k by (simp add: completed_steps_def assms(4))
  moreover have "(completed_steps pl s)[j := True] ! k \<longleftrightarrow> k = j \<or> completed_steps pl s ! k"
    using k assms(2) by (auto simp: completed_steps_def nth_list_update)
  ultimately show "completed_steps pl s' ! k = (completed_steps pl s)[j := True] ! k" by blast
qed (simp add: completed_steps_def)

lemma dependencies_completed:
  assumes pl: "plan ho p = Some (Inr pl)" "hash_iteration ho" and j: "j < length (plan_order pl)"
    and "\<forall>d \<in> set (ps_deps (plan_order pl ! j)). d \<in> set (si_completed s)" and x: "x \<in> set (cx_deps (context_of p pl) ! j)"
  shows "completed_steps pl s ! x"
proof -
  obtain d where d: "d \<in> set (ps_deps (plan_order pl ! j))" "x = the (hash_index (map planned_name (plan_order pl)) d)"
    using x j by (auto simp: context_of_def)
  obtain k where k: "k < j" "planned_name (plan_order pl ! k) = d" using plan_dependencies [OF pl j d(1)] by metis
  have "hash_index (map planned_name (plan_order pl)) d = Some k"
    using hash_index_nth [of "map planned_name (plan_order pl)" k] plan_wf_plan [OF pl] k j by (simp add: plan_wf_def)
  then show ?thesis using assms(4) d k j by (simp add: completed_steps_def)
qed

lemma completes_simulated:
  assumes pl: "plan ho p = Some (Inr pl)" "hash_iteration ho" and wf: "plan_wf pl" and f: "follows pl s ths"
    and i: "i < length ths" and c: "completes execute s (ths ! i) s' th'" and all: "\<forall>step \<in> set (pr_steps p). st_loop_count step \<noteq> 0"
  obtains j fl' where "mc_step (context_of p pl) (completed_steps pl s, protocol_states ths, fl) (j, execute)
    (completed_steps pl s', protocol_states (ths[i := th']), fl')"
proof -
  let ?cx = "context_of p pl" and ?th = "ths ! i" and ?order = "plan_order pl"
  let ?c = "(completed_steps pl s, protocol_states ths, fl)"
  have cx: "cx_order ?cx = ?order" "cx_roles ?cx = plan_roles pl" by (simp_all add: context_of_def)
  have roles: "map th_role ths = cx_roles ?cx" "distinct (cx_roles ?cx)" using f wf by (simp_all add: follows_def plan_wf_def cx)
  obtain step where step: "th_steps ?th = step # th_steps th'" "deps_done (st_depends_on step) s"
    "execute \<in> set (outcomes (st_when step)) \<or> \<not> execute \<and> st_loop_count step = 0" "execute \<longrightarrow> state_allowed step (th_state ?th)"
    "set (si_completed s') = insert (st_name step) (set (si_completed s))"
    "rs_protocol_state (th_state th') =
      (if execute then unwrap_or (rs_protocol_state (th_state ?th)) (st_to_state step) else rs_protocol_state (th_state ?th))"
    using c by (auto simp: completes_def)
  have th: "step \<in> set (role_steps pl (th_role ?th))" "st_name step \<notin> set (si_completed s)"
    using f i step(1) set_mono_suffix unfolding follows_def by (metis list.set_intros(1) nth_mem subsetD)+
  then obtain j where j: "j < length ?order" "ps_step (?order ! j) = step" and role: "st_role step = th_role ?th"
    by (auto simp: role_steps_def in_set_conv_nth)
  have out: "execute \<in> set (outcomes (st_when step))" using step(3) all j plan_steps [OF pl] nth_mem [OF j(1)] by blast
  have at: "step_at ?cx j = step" by (simp add: step_at_def cx j)
  note pos = role_of_thread [OF roles i]
  have start: "may_start ?cx ?c j"
    using dependencies_completed [OF pl j(1)] head_dependencies [OF pl f nth_mem [OF i] step(1,2) j] th(2) j
    by (simp add: may_start_def completed_steps_def)
  have "state_allows ?cx ?c j execute"
    using step(4) pos(2) role by (auto simp: state_allows_def state_allowed_def at split: option.splits)
  then have m: "mc_step ?cx ?c (j, execute) (after_step ?cx ?c j execute)"
    using j(1) start out by (simp add: mc_step_iff at cx)
  note completed_update [OF wf j step(5)]
  moreover have "protocol_states (ths[i := th']) = (if execute then case st_to_state step of
      None \<Rightarrow> protocol_states ths | Some t \<Rightarrow> (protocol_states ths)[role_pos ?cx (st_role step) := t] else protocol_states ths)"
  proof -
    have "protocol_states (ths[i := th']) = (protocol_states ths)[i := rs_protocol_state (th_state th')]"
      and "(protocol_states ths)[i := rs_protocol_state (th_state ?th)] = protocol_states ths"
      using i by (simp_all add: protocol_states_def map_update list_update_same_conv)
    then show ?thesis
      using step(6) pos(1) role by (cases execute; cases "st_to_state step") simp_all
  qed
  ultimately have "after_step ?cx ?c j execute = (completed_steps pl s', protocol_states (ths[i := th']), snd (snd (after_step ?cx ?c j execute)))"
    by (cases execute; cases "st_to_state step") (simp_all add: after_step_def at)
  with m that show ?thesis by metis
qed

text \<open>The invariant of a run: either it has failed, or it is simulated.\<close>

definition simulated :: "protocol \<Rightarrow> exec_plan \<Rightarrow> engine_state \<Rightarrow> bool" where
  "simulated p pl g \<longleftrightarrow> si_error (fst g) = None \<longrightarrow> follows pl (fst g) (snd g) \<and>
     ((\<forall>step \<in> set (pr_steps p). st_loop_count step \<noteq> 0) \<longrightarrow>
      (\<exists>w fl. run (mc_step (context_of p pl)) (mc_start (context_of p pl)) w (completed_steps pl (fst g), protocol_states (snd g), fl)))"

lemma simulated_start:
  assumes "plan ho p = Some (Inr pl)" and "hash_iteration ho"
  shows "simulated p pl (engine_start now p pl plugins vars)"
proof -
  note wf = plan_wf_plan [OF assms]
  let ?s = "fst (engine_start now p pl plugins vars)" and ?ths = "snd (engine_start now p pl plugins vars)"
  have s: "si_completed ?s = []" using wf by (simp add: engine_start_def initial_sim_def plan_wf_def)
  have ths: "?ths = map (\<lambda>r. thread_new r (role_steps pl r) vars) (plan_roles pl)"
    by (simp add: engine_start_def initial_threads_def)
  have "follows pl ?s ?ths"
    by (auto simp: follows_def s ths thread_new_def thread_ok_def comp_def)
  moreover have "mc_start (context_of p pl) = (completed_steps pl ?s, protocol_states ?ths, snd (snd (mc_start (context_of p pl))))"
    by (simp add: mc_start_def mc_key_def initial_state_def context_of_def completed_steps_def protocol_states_def s ths
        thread_new_def new_with_vars_def comp_def map_replicate_const)
  ultimately show ?thesis by (metis run_Nil simulated_def)
qed

lemma simulated_step:
  assumes pl: "plan ho p = Some (Inr pl)" "hash_iteration ho" and "simulated p pl g" and "engine_step env g l g'"
  shows "simulated p pl g'"
  using assms(4,3)
proof (cases rule: engine_step.cases)
  case (moves i ths wk ck s s' th')
  let ?step = "mc_step (context_of p pl)" and ?start = "mc_start (context_of p pl)"
  let ?all = "\<forall>step \<in> set (pr_steps p). st_loop_count step \<noteq> 0"
  show ?thesis
    unfolding simulated_def
  proof
    assume ok: "si_error (fst g') = None"
    then have ok': "si_error s' = None" by (simp add: moves)
    note wf = plan_wf_plan [OF pl]
    have err: "si_error s = None" using kept.run_thread [OF moves(5)] ok' failure_keptD by fastforce
    then have f: "follows pl s ths" and sim: "?all \<longrightarrow> (\<exists>w fl. run ?step ?start w (completed_steps pl s, protocol_states ths, fl))"
      using assms(3) by (simp_all add: simulated_def moves)
    have th: "thread_ok s (ths ! i)" using f moves(4) by (simp add: follows_def)
    have r: "th_role th' = th_role (ths ! i)"
      and "quiet s (ths ! i) s' th' \<or> (\<exists>execute. completes execute s (ths ! i) s' th')"
      using thread_step_moves [OF moves(5) ok' th] by blast+
    then consider (quiet) "quiet s (ths ! i) s' th'" | (complete) execute where "completes execute s (ths ! i) s' th'" by blast
    then show "follows pl (fst g') (snd g') \<and> (?all \<longrightarrow> (\<exists>w fl. run ?step ?start w (completed_steps pl (fst g'), protocol_states (snd g'), fl)))"
    proof cases
      case quiet
      then have "completed_steps pl s' = completed_steps pl s" "protocol_states (ths[i := th']) = protocol_states ths"
        using moves(4) by (simp_all add: quiet_def completed_steps_def protocol_states_def map_update list_update_same_conv)
      with sim follows_quiet [OF f moves(4) quiet r] show ?thesis by (auto simp: moves)
    next
      case complete
      have "\<exists>w fl. run ?step ?start w (completed_steps pl s', protocol_states (ths[i := th']), fl)" if all: ?all
      proof -
        obtain w fl where run: "run ?step ?start w (completed_steps pl s, protocol_states ths, fl)" using sim all by blast
        obtain j fl' where "?step (completed_steps pl s, protocol_states ths, fl) (j, execute) (completed_steps pl s', protocol_states (ths[i := th']), fl')"
          using completes_simulated [OF pl wf f moves(4) complete all] .
        with run have "run ?step ?start (w @ [(j, execute)]) (completed_steps pl s', protocol_states (ths[i := th']), fl')"
          by (auto simp: run_snoc)
        then show ?thesis by blast
      qed
      with follows_completes [OF wf f moves(4) complete r] show ?thesis by (simp add: moves)
    qed
  qed
next
  case (pushes k s ths)
  then show ?thesis using assms(3) by (simp add: simulated_def follows_def thread_ok_def deps_done_def completed_steps_def cong: phase.case_cong)
next
  case (delivers j s ths)
  then show ?thesis using assms(3) by (simp add: simulated_def follows_def thread_ok_def deps_done_def completed_steps_def cong: phase.case_cong)
next
  case (passes s ths n)
  then show ?thesis using assms(3) by (simp add: simulated_def follows_def thread_ok_def deps_done_def completed_steps_def cong: phase.case_cong)
qed

lemma reachable_simulated:
  assumes "plan ho p = Some (Inr pl)" and "hash_iteration ho"
    and "reachable (\<lambda>g. g = engine_start now p pl plugins vars) (engine_step env) g"
  shows "simulated p pl g"
proof -
  have "inductive_invariant (\<lambda>g. g = engine_start now p pl plugins vars) (engine_step env) (simulated p pl)"
    by unfold_locales (simp_all add: simulated_start [OF assms(1,2)] simulated_step [OF assms(1,2)])
  from inductive_invariant.reachable_inv [OF this assms(3)] show ?thesis .
qed

text \<open>
  C5: The engine refines the system that the model checker explores. In every state of a run over
  the simulated transport, for every interleaving of the role threads and delivery workers and
  whatever is received, as long as the run has not failed, the completed steps and the
  protocol states of the roles are a configuration that the checker's transition system
  reaches (provided no step is switched off by \<open>loop = 0\<close>, which the checker ignores).
\<close>

theorem engine_refines_model_check:
  assumes "plan ho p = Some (Inr pl)" and "hash_iteration ho" and "\<forall>step \<in> set (pr_steps p). st_loop_count step \<noteq> 0"
    and "reachable (\<lambda>g. g = engine_start now p pl plugins vars) (engine_step env) (s, ths)" and "si_error s = None"
  shows "\<exists>w flags. run (mc_step (context_of p pl)) (mc_start (context_of p pl)) w
    (map (\<lambda>q. st_name (ps_step q) \<in> set (si_completed s)) (plan_order pl), map (\<lambda>th. rs_protocol_state (th_state th)) ths, flags)"
  using reachable_simulated [OF assms(1,2,4)] assms(3,5) by (simp add: simulated_def completed_steps_def protocol_states_def)

text \<open>
  C6: What the model checker proves holds in the engine, for a protocol in which no step is switched
  off by \<open>loop = 0\<close> (the checker would execute such a step, the engine skips it). If a complete
  report has no violation of a safety invariant, then in no state of a run without a failure is a role
  in a state that the invariant forbids, and with an implication the implied role is in the implied
  state.
\<close>

theorem checked_invariants_hold:
  assumes "model_check ho p bound = Some (Inr rep)" and "hash_iteration ho" and "invariants_ok p" and "rep_complete rep"
    and "plan ho p = Some (Inr pl)" and "\<forall>step \<in> set (pr_steps p). st_loop_count step \<noteq> 0"
    and "iv \<in> set (pr_invariants p)" and "(''invariant'', Some (inv_name iv)) \<notin> (\<lambda>v. (vio_kind v, vio_invariant v)) ` set (rep_violations rep)"
    and "reachable (\<lambda>g. g = engine_start now p pl plugins vars) (engine_step env) (s, ths)" and "si_error s = None"
    and "th \<in> set ths" and "th_role th = inv_role iv" and "rs_protocol_state (th_state th) = inv_state iv"
  shows "inv_kind iv \<noteq> NeverState \<and> (inv_kind iv = StateImplies \<longrightarrow>
    (\<exists>other \<in> set ths. Some (th_role other) = inv_implies_role iv \<and> Some (rs_protocol_state (th_state other)) = inv_implies_state iv))"
proof -
  let ?cx = "context_of p pl"
  have f: "follows pl s ths" and run: "\<exists>w fl. run (mc_step ?cx) (mc_start ?cx) w (completed_steps pl s, protocol_states ths, fl)"
    using reachable_simulated [OF assms(5,2,9)] assms(6,10) by (simp_all add: simulated_def)
  then obtain w fl where run: "run (mc_step ?cx) (mc_start ?cx) w (completed_steps pl s, protocol_states ths, fl)" by blast
  let ?c = "(completed_steps pl s, protocol_states ths, fl)"
  have cx: "context_ok ?cx" using report_context_ok [OF assms(1-3,5)] .
  obtain pl' where pl': "plan ho p = Some (Inr pl')" and exact: "\<forall>key. key \<in> (\<lambda>v. (vio_kind v, vio_invariant v)) ` set (rep_violations rep) \<longleftrightarrow>
      (\<exists>w c. run (mc_step (context_of p pl')) (mc_start (context_of p pl')) w c \<and> defective (context_of p pl') c key)"
    using complete_report_exact [OF assms(1-4)] by blast
  have "pl' = pl" using pl' assms(5) by simp
  then have "\<not> defective ?cx ?c (''invariant'', Some (inv_name iv))"
    using exact assms(8) run by blast
  moreover have "iv \<in> set (cx_invariants ?cx)" using assms(7) by (simp add: context_of_def)
  ultimately have safe: "\<not> violates ?cx ?c iv" unfolding defective_def by blast
  have roles: "map th_role ths = cx_roles ?cx" "distinct (cx_roles ?cx)"
    using f cx by (simp_all add: follows_def context_ok_def context_of_def)
  have at: "role_state ?cx ?c (th_role x) = rs_protocol_state (th_state x)" if "x \<in> set ths" for x
    using role_of_thread(2) [OF roles] that by (metis in_set_conv_nth)
  have role: "role_state ?cx ?c (inv_role iv) = inv_state iv" using at [OF assms(11)] assms(12,13) by simp
  have "\<exists>other \<in> set ths. Some (th_role other) = inv_implies_role iv \<and> Some (rs_protocol_state (th_state other)) = inv_implies_state iv"
    if kind: "inv_kind iv = StateImplies"
  proof -
    obtain r where r: "inv_implies_role iv = Some r" "r \<in> set (map th_role ths)"
      using cx kind assms(7) roles(1) by (auto simp: context_ok_def context_of_def)
    then obtain other where other: "other \<in> set ths" "th_role other = r" by auto
    with at [of other] safe role kind r(1) show ?thesis by (auto simp: violates.simps)
  qed
  with safe role show ?thesis by (auto simp: violates.simps)
qed

subsection \<open>A run of one step\<close>

definition ok_step :: step_spec where
  "ok_step = (log_step ''a'' ''c'' [])\<lparr>st_to_state := Some ''ready''\<rparr>"

definition ok_protocol :: protocol where
  "ok_protocol = log_protocol [ok_step] [never_error]"

definition ok_plan :: exec_plan where
  "ok_plan = \<lparr>plan_protocol_name = ''p'', plan_roles = [''c''], plan_order = [\<lparr>ps_step = ok_step, ps_deps = []\<rparr>]\<rparr>"

definition plain_env :: exec_env where
  "plain_env = \<lparr>xe_regex = (=), xe_compiles = (\<lambda>_. True), xe_printable = (\<lambda>_. True), xe_sock = (\<lambda>_ _. None), xe_half_close = (\<lambda>_. None),
     xe_plugin = (\<lambda>_ _ _ v. Inr \<lparr>pg_matched = None, pg_vars = [], pg_fields = [], pg_detail = None, pg_value = v\<rparr>), xe_pow = (\<lambda>x _. x)\<rparr>"

lemma ok_step_simps:
  "st_name ok_step = ''a''" "st_action ok_step = ALog" "st_message ok_step = None" "st_to_state ok_step = Some ''ready''"
  by (simp_all add: ok_step_def log_step_def)

lemma ok_plan: "plan id ok_protocol = Some (Inr ok_plan)"
proof -
  have r: "resolved [ok_step] 0 = []"
    by (simp add: resolved_def last_in_role_def ok_step_def log_step_def)
  then have "greedy [ok_step] [] = [0]"
    by (simp add: greedy.simps candidates_def)
  moreover have "ds_roles_seen (resolve_deps [ok_step]) = [''c'']"
    by (simp add: resolve_deps_def resolve_step_def ok_step_def log_step_def Let_def)
  moreover have "refs_ok [ok_step]" by (simp add: refs_ok_def ok_step_def log_step_def)
  ultimately show ?thesis
    using plan_sorted [of ok_protocol id] hash_iteration_id r
    by (simp add: ok_protocol_def log_protocol_def plan_result_def Let_def planned_def ok_plan_def)
qed

abbreviation ok_start :: engine_state where
  "ok_start \<equiv> engine_start 1 ok_protocol ok_plan False []"

lemma ok_run:
  "\<exists>s th. reachable (\<lambda>g. g = ok_start) (engine_step plain_env) (s, [th]) \<and> si_error s = None \<and> si_completed s = [''a''] \<and>
    th_role th = ''c'' \<and> rs_protocol_state (th_state th) = ''ready'' \<and> th_steps th = [] \<and> th_phase th = Starting \<and>
    tr_worker_errors (si_transport s) = [] \<and> si_open s = [] \<and> length (si_trace s) = 1"
proof -
  obtain s0 where s0: "ok_start = (s0, [thread_new ''c'' [ok_step] []])" "si_error s0 = None" "si_completed s0 = []" "si_counter s0 = 0"
    "si_open s0 = []" "si_trace s0 = []"
    "si_clock s0 = ClockReal" "si_now_ns s0 = 0" "si_max_trace s0 = rl_max_trace default_resource_limits"
    "si_max_runtime_ms s0 = rl_max_runtime_ms default_resource_limits" "tr_worker_errors (si_transport s0) = []"
    by (simp add: engine_start_def initial_sim_def initial_threads_def ok_plan_def role_steps_def ok_protocol_def log_protocol_def
        ok_step_def log_step_def with_options_def)
  let ?th = "thread_new ''c'' [ok_step] []"
  let ?ev = "plain_event ''c'' ''a'' ALog True (DText ''log: '')"
  let ?s = "mark_done ''a'' (record_event ?ev s0)"
  let ?th' = "next_step_of (?th\<lparr>th_phase := Running 1 0 0, th_state := (th_state ?th)\<lparr>rs_protocol_state := ''ready''\<rparr>\<rparr>)"
  have rt: "enforce_runtime ''c'' s0 = (s0, False)"
    by (simp add: enforce_runtime_def elapsed_ms_def s0)
  have ev: "si_error (record_event ?ev s0) = None" "enforce_runtime ''c'' (record_event ?ev s0) = (record_event ?ev s0, False)"
    by (simp_all add: record_event_def record_with_wire_def record_with_network_def s0 Let_def default_resource_limits_def
        enforce_runtime_def elapsed_ms_def)
  have t1: "thread_step plain_env [] id ?th s0 = Some (s0, to_phase ?th Waiting)"
    by (simp add: thread_step_def thread_new_def rt)
  have t2: "thread_step plain_env [] id (to_phase ?th Waiting) s0 = Some (s0, to_phase ?th (Running 1 0 0))"
    by (simp add: thread_step_def thread_new_def to_phase_def deps_done_def ok_step_def log_step_def begin_step_def failed_def s0
        step_enabled_def state_allowed_def)
  have "execute_step plain_env [] id ''c'' ok_step (s0, st) = Some ((record_event ?ev s0, st), Inr ())" for st
    unfolding execute_step.simps by (simp add: ok_step_simps note_event_def on_sim_def)
  then have t3: "thread_step plain_env [] id (to_phase ?th (Running 1 0 0)) s0 = Some (?s, ?th')"
    by (simp add: thread_step_def thread_new_def to_phase_def try_step_def after_success_def ev(2) finish_step_def next_step_of_def
        ok_step_simps)
  have "reachable (\<lambda>g. g = ok_start) (engine_step plain_env) (s0, [?th])" by (simp add: reachable.start s0(1))
  then have "reachable (\<lambda>g. g = ok_start) (engine_step plain_env) (s0, [to_phase ?th Waiting])"
    using engine_step.moves [of 0 "[?th]" plain_env "[]" id s0] t1 s0(5) by (auto simp: pushed_all_def intro: reachable.more)
  then have "reachable (\<lambda>g. g = ok_start) (engine_step plain_env) (s0, [to_phase ?th (Running 1 0 0)])"
    using engine_step.moves [of 0 "[to_phase ?th Waiting]" plain_env "[]" id s0] t2 s0(5) by (auto simp: pushed_all_def intro: reachable.more)
  then have r: "reachable (\<lambda>g. g = ok_start) (engine_step plain_env) (?s, [?th'])"
    using engine_step.moves [of 0 "[to_phase ?th (Running 1 0 0)]" plain_env "[]" id s0] t3 s0(5)
    by (auto simp: pushed_all_def intro: reachable.more)
  have s: "si_completed ?s = [''a'']" "tr_worker_errors (si_transport ?s) = []" "length (si_open ?s) = 1" "si_trace ?s = []"
    by (simp_all add: mark_done_def record_event_def record_with_wire_def record_with_network_def set_failure_def s0 Let_def
        default_resource_limits_def)
  then have "may_push 0 ?s" by (simp add: may_push_def)
  then have "reachable (\<lambda>g. g = ok_start) (engine_step plain_env) (push_event 0 ?s, [?th'])"
    using reachable.more [OF r engine_step.pushes] by blast
  moreover have "si_completed (push_event 0 ?s) = [''a'']" "tr_worker_errors (si_transport (push_event 0 ?s)) = []"
    "si_open (push_event 0 ?s) = []" "length (si_trace (push_event 0 ?s)) = 1"
    using s by simp_all
  ultimately show ?thesis
    using ev(1) by (intro exI [of _ "push_event 0 ?s"] exI [of _ ?th']) (simp add: next_step_of_def thread_new_def del: push_simps(6,7))
qed

definition ok_report :: check_report where
  "ok_report = \<lparr>rep_schema_version = ''1'', rep_protocol = ''p'', rep_complete = True,
     rep_states_explored = 2, rep_transitions_explored = 1, rep_violations = [], rep_unreachable_steps = []\<rparr>"

lemma ok_report: "model_check id ok_protocol 5 = Some (Inr ok_report)"
proof -
  have "check_plan ok_protocol 5 ok_plan = Inr ok_report"
    by (simp add: check_plan_def ok_plan_def ok_protocol_def log_protocol_def resolve_indices_def
        hash_index_def never_error_def Let_def initial_state_def eventually_invariants_def)
      (simp add: visit_def safety_failed_def mc_key_def outcomes_def index_map_def hash_index_def
        take_step_def ok_step_def log_step_def add_violation_def Let_def eventually_invariants_def ok_report_def)
  then show ?thesis by (simp add: model_check_def ok_plan)
qed

lemma ok_facts:
  "\<forall>step \<in> set (pr_steps ok_protocol). st_loop_count step \<noteq> 0" "invariants_ok ok_protocol"
  "never_error \<in> set (pr_invariants ok_protocol)"
  by (simp_all add: ok_protocol_def log_protocol_def ok_step_def log_step_def invariants_ok_def never_error_def)

lemma engine_refines_model_check_witness:
  "\<exists>w flags. run (mc_step (context_of ok_protocol ok_plan)) (mc_start (context_of ok_protocol ok_plan)) w ([True], [''ready''], flags)"
proof -
  obtain s th where r: "reachable (\<lambda>g. g = ok_start) (engine_step plain_env) (s, [th])" "si_error s = None" "si_completed s = [''a'']"
    "rs_protocol_state (th_state th) = ''ready''" using ok_run by blast
  have "plan_order ok_plan = [\<lparr>ps_step = ok_step, ps_deps = []\<rparr>]" "st_name ok_step = ''a''"
    by (simp_all add: ok_plan_def ok_step_def log_step_def)
  then show ?thesis
    using engine_refines_model_check [OF ok_plan hash_iteration_id ok_facts(1) r(1,2)] r(3,4) by simp
qed

lemma checked_invariants_hold_witness:
  "\<exists>s th. reachable (\<lambda>g. g = ok_start) (engine_step plain_env) (s, [th]) \<and> si_completed s = [''a''] \<and> rs_protocol_state (th_state th) \<noteq> ''error''"
proof -
  obtain s th where r: "reachable (\<lambda>g. g = ok_start) (engine_step plain_env) (s, [th])" "si_error s = None" "si_completed s = [''a'']"
    "th_role th = ''c''" using ok_run by blast
  have n: "inv_role never_error = ''c''" "inv_state never_error = ''error''" "inv_kind never_error = NeverState"
    by (simp_all add: never_error_def)
  have "(''invariant'', Some (inv_name never_error)) \<notin> (\<lambda>v. (vio_kind v, vio_invariant v)) ` set (rep_violations ok_report)"
    and "rep_complete ok_report" by (simp_all add: ok_report_def)
  then have "rs_protocol_state (th_state th) \<noteq> ''error''"
    using checked_invariants_hold [OF ok_report hash_iteration_id ok_facts(2) _ ok_plan ok_facts(1,3) _ r(1,2), of th] n r(4) by auto
  then show ?thesis using r(1,3) by blast
qed

end
