(* ===== verification/Engine_Progress.thy ===== *)
theory Engine_Progress
  imports Engine_Correct
begin

text \<open>
  Progress and termination of a run. The number of transitions of the role threads is bounded
  by the steps with their repetitions, retransmissions and retries, and no reachable state is
  stuck: as long as a role is not over, some role can move, a waiting receive by its timeout.
  The events of a run are numbered without gaps within the limit, and are pushed onto the trace
  role by role in that order.
\<close>

subsection \<open>Attempts end\<close>

text \<open>Once the deadline has passed, a receive answers, and so does every action.\<close>

named_theorems answer_intros

definition answers :: "'a exec \<Rightarrow> bool" where
  "answers m \<longleftrightarrow> (\<forall>w. m w \<noteq> None)"

lemma answers_basic [answer_intros]:
  "answers (ereturn x)" "answers (elift r)" "answers (efail k msg)" "answers (on_sim f)" "answers (on_role g)"
  by (simp_all add: answers_def ereturn_def elift_def efail_def on_sim_def on_role_def)

lemma exec_answers_bind [answer_intros]: "answers m \<Longrightarrow> (\<And>x. answers (f x)) \<Longrightarrow> answers (ebind m f)"
  unfolding answers_def ebind_def by (auto split: option.split sum.split)

lemma answers_get [answer_intros]: "(\<And>s. answers (f s)) \<Longrightarrow> answers (get_sim f)" "(\<And>st. answers (g st)) \<Longrightarrow> answers (get_role g)"
  by (simp_all add: answers_def get_sim_def get_role_def)

lemma answers_if [answer_intros]: "answers a \<Longrightarrow> answers b \<Longrightarrow> answers (if c then a else b)"
  by simp

lemma answers_case [answer_intros]: "answers a \<Longrightarrow> (\<And>x. answers (f x)) \<Longrightarrow> answers (case v of None \<Rightarrow> a | Some x \<Rightarrow> f x)"
  by (simp split: option.split)

lemma answers_pair [answer_intros]: "(\<And>x y. answers (f x y)) \<Longrightarrow> answers (case v of (x, y) \<Rightarrow> f x y)"
  by (simp split: prod.split)

lemma answers_each [answer_intros]: "(\<And>x. answers (f x)) \<Longrightarrow> answers (each f xs)"
  by (induction xs) (auto intro!: answer_intros)

lemma recv_match_deadline: "recv_match re e ms q [DeadlinePassed] \<noteq> None"
  by (simp add: recv_match.simps [of _ _ _ _ "[DeadlinePassed]"] split: option.split)

lemma recv_raw_deadline: "wk = [DeadlinePassed] \<Longrightarrow> recv_raw_loop re e ms ck n r deferred q wk \<noteq> None"
proof (induction re e ms ck n r deferred q wk rule: recv_raw_loop.induct)
  case (1 re e ms ck n r deferred q wk)
  then show ?case
    by (subst recv_raw_loop.simps) (auto split: option.split prod.split frame_outcome.split)
qed

lemma answers_recv [answer_intros]:
  "answers (do_recv env [DeadlinePassed] role e ms)" "answers (do_recv_raw env [DeadlinePassed] ck role e ms)"
  using recv_match_deadline recv_raw_deadline
  by (auto simp: answers_def do_recv_def do_recv_raw_def get_sim_def apply_received_def recv_raw_match_def Let_def split: option.split)

lemma answers_note [answer_intros]: "answers (note_event role step msg)"
  unfolding note_event_def by (rule answer_intros)

lemma answers_transmit [answer_intros]: "answers (transmit env n a to m l d)"
  unfolding transmit_def by (intro answer_intros) (auto intro!: answer_intros split: sum.split)

lemma answers_observe [answer_intros]: "answers (observe_tcp d raw)"
  by (simp add: answers_def observe_tcp_def split: prod.split)

lemma answers_outbound [answer_intros]: "answers (outbound env seg)" "answers (advance_seq seq n)"
  unfolding outbound_def advance_seq_def by (intro answer_intros)+

lemma answers_before [answer_intros]: "answers (receive_before env [DeadlinePassed] role step)"
  unfolding receive_before_def by (intro answer_intros)

lemma answers_packets [answer_intros]: "answers (send_packets env role step to kvs payload bs seen sent)"
  by (induction bs arbitrary: seen sent) (auto simp: Let_def intro!: answer_intros)

lemma answers_sends [answer_intros]:
  "answers (send_action env [DeadlinePassed] role step)" "answers (nack_action env [DeadlinePassed] role step)"
  "answers (reset_action env role step)" "answers (duplicate_action env role step)" "answers (corrupt_action env role step)"
  "answers (send_raw_action env role step)"
  unfolding send_action_def nack_action_def reset_action_def duplicate_action_def corrupt_action_def send_raw_action_def Let_def
  by (intro answer_intros)+

lemma answers_receives [answer_intros]:
  "answers (recv_action env [DeadlinePassed] ck role step)" "answers (drop_action env [DeadlinePassed] role step)"
proof -
  show "answers (recv_action env [DeadlinePassed] ck role step)"
    unfolding recv_action_def Let_def by (intro answer_intros)
  show "answers (drop_action env [DeadlinePassed] role step)"
    using answers_recv(1) unfolding drop_action_def
    by (intro answers_get) (force simp: answers_def note_event_def on_sim_def split: option.splits sum.splits fault.splits)
qed

lemma answers_local [answer_intros]:
  "answers (open_action role step)" "answers (plugin_action env role step)" "answers (set_action env role step)"
  "answers (assert_action env role step)" "answers (wait_action role step)" "answers (close_action env role step)"
  unfolding open_action_def plugin_action_def set_action_def assert_action_def wait_action_def close_action_def Let_def
  by (intro answer_intros)+

lemma answers_execute: "answers (execute_step env [DeadlinePassed] ck role step)"
  unfolding execute_step.simps by (cases "st_action step") (simp_all add: answer_intros)

lemma answers_retransmit: "answers (retransmit_snapshot env l)"
  unfolding retransmit_snapshot_def by (intro answer_intros)

lemma answersD: "answers m \<Longrightarrow> \<exists>w' r. m w = Some (w', r)"
  unfolding answers_def by (metis not_None_eq surj_pair)

lemma try_step_answers: "\<exists>s' th'. try_step env [DeadlinePassed] ck th step l rt ry s = Some (s', th')"
proof -
  have re: "\<exists>s' th'. retransmit_last env th step l rt ry lt s = Some (s', th')" for th lt s
    using answersD [OF answers_retransmit, of env lt] unfolding retransmit_last_def Let_def
    by (force split: option.splits sum.splits fault.splits)
  have fail: "\<exists>s' th'. after_failure env th step l rt ry f s = Some (s', th')" for th f s
    using re by (auto simp: after_failure_def Let_def split: option.split)
  obtain v st r where x: "execute_step env [DeadlinePassed] ck (th_role th) step (s, th_state th) = Some ((v, st), r)"
    using answersD [OF answers_execute, of env ck "th_role th" step "(s, th_state th)"] by force
  show ?thesis
    using fail [of "th\<lparr>th_state := st\<rparr>" _ v] by (auto simp: try_step_def x split: sum.split fault.split)
qed

subsection \<open>No reachable state is stuck\<close>

text \<open>A thread that waits or runs has a step to wait for or to run.\<close>

definition busy_ok :: "thread \<Rightarrow> bool" where
  "busy_ok th \<longleftrightarrow> th_phase th \<in> {Starting, Ended, Panicked} \<or> th_steps th \<noteq> []"

lemma after_failure_busy: "after_failure env th step l rt ry f s = Some (s', th') \<Longrightarrow> th_steps th \<noteq> [] \<Longrightarrow> busy_ok th'"
  unfolding after_failure_def Let_def
  by (auto simp: busy_ok_def retry_step_def end_role_def to_phase_def Let_def after_retransmit_def
      split: option.splits if_splits sum.splits fault.splits elim!: retransmit_last_cases)

lemma thread_step_busy:
  assumes "thread_step env wk ck th s = Some (s', th')"
  shows "busy_ok th'"
proof (cases "th_steps th")
  case Nil
  then show ?thesis using assms by (auto simp: thread_step_def busy_ok_def to_phase_def split: if_splits)
next
  case (Cons step rest)
  then have ne: "th_steps th \<noteq> []" by simp
  have started: "busy_ok (snd (begin_step env th step s))"
    using ne unfolding begin_step_def end_role_def next_step_of_def to_phase_def busy_ok_def by (auto split: sum.split fault.split)
  have success: "busy_ok (snd (after_success (th\<lparr>th_state := st\<rparr>) step l s))" for st l s
    using ne unfolding after_success_def finish_step_def next_step_of_def to_phase_def busy_ok_def
    by (auto split: prod.split bool.split option.split)
  have attempt: "busy_ok th'" if "try_step env wk ck th step l rt ry s = Some (s', th')" for l rt ry
    using that after_failure_busy ne success unfolding try_step_def
    by (fastforce simp: busy_ok_def split: option.splits sum.splits fault.splits dest: arg_cong [where f = snd])
  have phase: "busy_ok (to_phase th ph)" for ph using ne by (simp add: busy_ok_def to_phase_def)
  have "begin_step env th step s = (s', th') \<Longrightarrow> busy_ok th'" using started by simp
  then show ?thesis
    using assms Cons phase attempt unfolding thread_step_def
    by (auto split: phase.splits prod.splits bool.splits if_splits)
qed

lemma reachable_busy:
  "reachable (\<lambda>g. g = engine_start now p pl plugins vars) (engine_step env) g \<Longrightarrow> \<forall>th \<in> set (snd g). busy_ok th"
proof (induction rule: reachable.induct)
  case (start g)
  then show ?case by (auto simp: engine_start_def initial_threads_def thread_new_def busy_ok_def)
next
  case (more g l g')
  from more.hyps(2) more.IH show ?case
    by (cases rule: engine_step.cases) (use thread_step_busy set_update_subset_insert in fastforce)+
qed

lemma thread_can_move:
  assumes "busy_ok th" and "\<not> thread_over th" and "th_phase th = Waiting \<Longrightarrow> si_error s = None \<Longrightarrow> deps_done (st_depends_on (hd (th_steps th))) s"
  shows "\<exists>s' th'. thread_step env [DeadlinePassed] id th s = Some (s', th')"
proof (cases "th_phase th")
  case Starting
  then show ?thesis by (auto simp: thread_step_def split: list.split prod.split bool.split)
next
  case Waiting
  then obtain step rest where st: "th_steps th = step # rest" using assms(1) by (auto simp: busy_ok_def neq_Nil_conv)
  have "\<exists>r. thread_step env [DeadlinePassed] id th s = Some r"
    using Waiting assms(3) st by (cases "si_error s = None") (auto simp: thread_step_def failed_def split: prod.split bool.split)
  then show ?thesis by auto
next
  case (Running l rt ry)
  then obtain step rest where "th_steps th = step # rest" using assms(1) by (auto simp: busy_ok_def neq_Nil_conv)
  then show ?thesis using Running try_step_answers by (simp add: thread_step_def)
qed (use assms(2) in \<open>simp_all add: thread_over_def\<close>)

text \<open>The first step of the plan that is not completed is the next one of its role, and its dependencies are done.\<close>

lemma first_open_step:
  assumes pl: "plan ho p = Some (Inr pl)" "hash_iteration ho" and f: "follows pl s ths" and th: "th \<in> set ths" "th_steps th \<noteq> []"
  obtains th' where "th' \<in> set ths" and "th_steps th' \<noteq> []" and "deps_done (st_depends_on (hd (th_steps th'))) s"
proof -
  let ?order = "plan_order pl"
  let ?open = "\<lambda>j. j < length ?order \<and> planned_name (?order ! j) \<notin> set (si_completed s)"
  note wf = plan_wf_plan [OF pl]
  have f': "suffix (th_steps x) (role_steps pl (th_role x))"
    "\<forall>y \<in> set (role_steps pl (th_role x)). st_name y \<in> set (si_completed s) \<longleftrightarrow> y \<notin> set (th_steps x)" if "x \<in> set ths" for x
    using f that by (simp_all add: follows_def)
  have open_head: "\<exists>j. ?open j \<and> ps_step (?order ! j) = hd (th_steps x)" if x: "x \<in> set ths" "th_steps x \<noteq> []" for x
  proof -
    have h: "hd (th_steps x) \<in> set (role_steps pl (th_role x))" using set_mono_suffix [OF f'(1) [OF x(1)]] x(2) by auto
    then obtain j where "j < length ?order" "ps_step (?order ! j) = hd (th_steps x)" by (auto simp: role_steps_def in_set_conv_nth)
    with f'(2) [OF x(1)] h x(2) show ?thesis by auto
  qed
  define j where "j = (LEAST j. ?open j)"
  have ex: "\<exists>j. ?open j" using open_head [OF th] by blast
  then have j: "?open j" unfolding j_def by (rule LeastI_ex)
  have least: "k < j \<Longrightarrow> \<not> ?open k" for k unfolding j_def by (rule not_less_Least)
  have "st_role (ps_step (?order ! j)) \<in> set (map th_role ths)" using f wf j by (auto simp: follows_def plan_wf_def)
  then obtain x where x: "x \<in> set ths" "th_role x = st_role (ps_step (?order ! j))" by auto
  have rs: "ps_step (?order ! j) \<in> set (role_steps pl (th_role x))" using j x(2) by (auto simp: role_steps_def)
  then have mem: "ps_step (?order ! j) \<in> set (th_steps x)" using f'(2) [OF x(1)] j by blast
  then have ne: "th_steps x \<noteq> []" by auto
  obtain k where k: "?open k" "ps_step (?order ! k) = hd (th_steps x)" using open_head [OF x(1) ne] by blast
  have "\<not> j < k"
    using role_before [of pl k j "tl (th_steps x)" "th_role x"] f'(1) [OF x(1)] wf k mem ne by (auto simp: plan_wf_def)
  moreover have "\<not> k < j" using least k(1) by blast
  ultimately have head: "ps_step (?order ! j) = hd (th_steps x)" using k(2) by (simp add: linorder_neq_iff)
  have "d \<in> set (si_completed s)" if "d \<in> set (st_depends_on (hd (th_steps x)))" for d
  proof -
    have "d \<in> set (ps_deps (?order ! j))" using that j plan_explicit [OF pl nth_mem, of j] unfolding head by blast
    then obtain i where "i < j" "planned_name (?order ! i) = d" using plan_dependencies [OF pl] j by metis
    with least [of i] j show ?thesis by auto
  qed
  then have "deps_done (st_depends_on (hd (th_steps x))) s" by (simp add: deps_done_def list_all_iff)
  with that x(1) ne show ?thesis by blast
qed

text \<open>The events that are open can always be pushed.\<close>

definition flushed :: "sim \<Rightarrow> sim" where
  "flushed s = s\<lparr>si_trace := si_trace s @ si_open s, si_open := []\<rparr>"

lemma flush:
  "run (engine_step env) (s, ths) (replicate (length (si_open s)) (EventPushed 0)) (flushed s, ths)"
proof (induction "si_open s" arbitrary: s)
  case Nil
  then show ?case by (simp add: flushed_def)
next
  case (Cons e es)
  have "engine_step env (s, ths) (EventPushed 0) (push_event 0 s, ths)"
    using Cons.hyps(2) by (intro engine_step.pushes) (simp add: may_push_def flip: Cons.hyps(2))
  moreover have o: "si_open (push_event 0 s) = es" by (simp add: push_event_def flip: Cons.hyps(2))
  moreover have "flushed (push_event 0 s) = flushed s" by (simp add: flushed_def push_event_def flip: Cons.hyps(2))
  ultimately show ?case using Cons.hyps(1) [of "push_event 0 s"] by (simp add: run_Cons flip: Cons.hyps(2)) blast
qed

text \<open>
  C7: No run gets stuck. In every reachable state in which some role is not over and none has
  panicked, some role can make its next transition, as soon as the events that have been numbered are
  pushed onto the trace, which is always possible.
\<close>

theorem engine_never_stuck:
  assumes "plan ho p = Some (Inr pl)" and "hash_iteration ho"
    and "reachable (\<lambda>g. g = engine_start now p pl plugins vars) (engine_step env) (s, ths)"
    and "th \<in> set ths" and "\<not> thread_over th" and "\<forall>th \<in> set ths. th_phase th \<noteq> Panicked"
  shows "\<exists>g i g'. run (engine_step env) (s, ths) (replicate (length (si_open s)) (EventPushed 0)) g \<and>
    engine_step env g (ThreadMoves i) g'"
proof -
  have busy: "\<forall>th \<in> set ths. busy_ok th" using reachable_busy [OF assms(3)] by simp
  have "\<exists>x \<in> set ths. \<not> thread_over x \<and>
      (th_phase x = Waiting \<longrightarrow> si_error s = None \<longrightarrow> deps_done (st_depends_on (hd (th_steps x))) s)"
  proof (cases "th_phase th = Waiting \<and> si_error s = None")
    case True
    then have f: "follows pl s ths" using reachable_simulated [OF assms(1-3)] by (simp add: simulated_def)
    have "th_steps th \<noteq> []" using True busy assms(4) by (auto simp: busy_ok_def)
    then obtain x where x: "x \<in> set ths" "th_steps x \<noteq> []" "deps_done (st_depends_on (hd (th_steps x))) s"
      using first_open_step [OF assms(1,2) f assms(4)] by blast
    have "thread_ok s x" using f x(1) by (simp add: follows_def)
    with x(1,2) assms(6) have "\<not> thread_over x" by (auto simp: thread_over_def thread_ok_def)
    with x show ?thesis by blast
  qed (use assms(4,5) in blast)
  then obtain i where i: "i < length ths" "\<not> thread_over (ths ! i)"
    "th_phase (ths ! i) = Waiting \<longrightarrow> si_error s = None \<longrightarrow> deps_done (st_depends_on (hd (th_steps (ths ! i)))) s"
    by (metis in_set_conv_nth)
  have "busy_ok (ths ! i)" using busy i(1) by simp
  from thread_can_move [OF this i(2), of "flushed s" env] i(3)
  obtain s' th' where "thread_step env [DeadlinePassed] id (ths ! i) (flushed s) = Some (s', th')"
    by (auto simp: flushed_def deps_done_def)
  with i(1) have "engine_step env (flushed s, ths) (ThreadMoves i) (s', ths[i := th'])"
    by (intro engine_step.moves) (simp_all add: pushed_all_def flushed_def)
  with flush show ?thesis by blast
qed

subsection \<open>The number of transitions is bounded\<close>

definition tries :: "step_spec \<Rightarrow> nat" where
  "tries step = retransmit_limit step + st_retry step + 1"

definition step_work :: "step_spec \<Rightarrow> nat" where
  "step_work step = st_loop_count step * tries step + 2"

text \<open>The transitions a thread has left at most.\<close>

definition work :: "thread \<Rightarrow> nat" where
  "work th =
     (case th_phase th of
        Starting \<Rightarrow> sum_list (map step_work (th_steps th)) + 1
      | Waiting \<Rightarrow> sum_list (map step_work (th_steps th))
      | Running l rt ry \<Rightarrow>
          (l - 1) * tries (hd (th_steps th)) + (retransmit_limit (hd (th_steps th)) - rt) + (st_retry (hd (th_steps th)) - ry) + 2 +
          sum_list (map step_work (tl (th_steps th)))
      | _ \<Rightarrow> 0)"

definition total_work :: "thread list \<Rightarrow> nat" where
  "total_work ths = sum_list (map work ths)"

lemma work_over: "th_phase th \<in> {Ended, Panicked} \<Longrightarrow> work th = 0"
  by (auto simp: work_def)

lemma work_next: "th_steps th = step # rest \<Longrightarrow> work (next_step_of th) = sum_list (map step_work rest) + 1"
  by (simp add: work_def next_step_of_def)

lemma work_running:
  "th_steps th = step # rest \<Longrightarrow> th_phase th = Running l rt ry \<Longrightarrow>
   work th = (l - 1) * tries step + (retransmit_limit step - rt) + (st_retry step - ry) + 2 + sum_list (map step_work rest)"
  by (simp add: work_def)

lemma begin_step_work:
  assumes "th_steps th = step # rest" and "th_phase th = Waiting"
  shows "work (snd (begin_step env th step s)) < work th"
proof -
  have w: "work th = st_loop_count step * tries step + 2 + sum_list (map step_work rest)"
    using assms by (simp add: work_def step_work_def)
  have "work (to_phase th (Running (st_loop_count step) 0 0)) < work th" if nz: "st_loop_count step \<noteq> 0"
  proof -
    obtain k where "st_loop_count step = Suc k" using nz by (cases "st_loop_count step") auto
    then show ?thesis
      using w work_running [of "to_phase th (Running (st_loop_count step) 0 0)" step rest] assms(1) by (simp add: to_phase_def tries_def)
  qed
  moreover have "work (next_step_of th) < work th" using w work_next [OF assms(1)] by simp
  moreover have "work (to_phase th ph) < work th" if "ph \<in> {Ended, Panicked}" for ph
    using w work_over [of "to_phase th ph"] that by (simp add: to_phase_def)
  ultimately show ?thesis
    unfolding begin_step_def end_role_def by (auto split: sum.split fault.split)
qed

lemma after_failure_work:
  assumes "after_failure env th step l rt ry f s = Some (s', th')" and "th_steps th = step # rest" and "th_phase th = Running l rt ry"
  shows "work th' < work th"
proof -
  have pos: "work th > 0" using work_running [OF assms(2,3)] by simp
  have w: "work (th\<lparr>th_state := st, th_phase := Running l rt' ry'\<rparr>) < work th"
    if "rt' + ry' = Suc (rt + ry)" "rt \<le> rt'" "ry \<le> ry'" "rt' > rt \<Longrightarrow> rt < retransmit_limit step" "ry' > ry \<Longrightarrow> ry < st_retry step" for st rt' ry'
  proof -
    have "retransmit_limit step - rt' + (st_retry step - ry') < retransmit_limit step - rt + (st_retry step - ry)"
      using that by (cases "rt' = rt") auto
    moreover have "work (th\<lparr>th_state := st, th_phase := Running l rt' ry'\<rparr>) =
        (l - 1) * tries step + (retransmit_limit step - rt') + (st_retry step - ry') + 2 + sum_list (map step_work rest)"
      using assms(2) by (intro work_running) simp_all
    ultimately show ?thesis using work_running [OF assms(2,3)] by linarith
  qed
  have "work (th\<lparr>th_state := st, th_phase := Running l (Suc rt) ry\<rparr>) < work th" if "rt < retransmit_limit step" for st
    using w [of "Suc rt" ry] that by simp
  moreover have "work (th\<lparr>th_phase := Running l rt (Suc ry)\<rparr>) < work th" if "ry < st_retry step"
    using w [of rt "Suc ry" "th_state th"] that by simp
  ultimately show ?thesis
    using assms(1) pos unfolding after_failure_def Let_def
    by (auto simp: may_retransmit_def retry_step_def end_role_def to_phase_def Let_def after_retransmit_def work_over
        split: option.splits if_splits sum.splits fault.splits elim!: retransmit_last_cases)
qed

lemma try_step_work:
  assumes "try_step env wk ck th step l rt ry s = Some (s', th')" and "th_steps th = step # rest" and "th_phase th = Running l rt ry"
  shows "work th' < work th"
proof -
  obtain v st r where x: "execute_step env wk ck (th_role th) step (s, th_state th) = Some ((v, st), r)"
    using assms(1) by (auto simp: try_step_def split: option.splits)
  let ?th = "th\<lparr>th_state := st\<rparr>"
  have same: "work ?th = work th" by (simp add: work_def cong: phase.case_cong)
  have th: "th_steps ?th = step # rest" "th_phase ?th = Running l rt ry" using assms(2,3) by simp_all
  note w = work_running [OF th]
  have fin: "work (next_step_of (u\<lparr>th_state := st'\<rparr>)) < work ?th" if "th_steps u = step # rest" for u st'
    using w that work_next [of "u\<lparr>th_state := st'\<rparr>" step rest] by simp
  have again: "work (to_phase ?th (Running (l - 1) 0 0)) < work ?th" if nz: "l - 1 \<noteq> 0"
  proof -
    obtain k where "l = Suc (Suc k)" using nz by (cases l; cases "l - 1") auto
    then show ?thesis
      using w work_running [of "to_phase ?th (Running (l - 1) 0 0)" step rest] assms(2) by (simp add: to_phase_def tries_def)
  qed
  have over: "work (to_phase ?th Ended) < work ?th" "work (th\<lparr>th_state := st, th_phase := Panicked\<rparr>) < work ?th"
    using w by (simp_all add: work_over to_phase_def)
  have "work (snd (after_success ?th step (l - 1) v)) < work ?th"
    using fin [of th] fin [of ?th st] again over(1) assms(2) unfolding after_success_def finish_step_def
    by (auto split: prod.split bool.split option.split)
  then show ?thesis
    using assms(1) x over(2) after_failure_work [OF _ th] unfolding try_step_def same [symmetric]
    by (auto split: sum.splits fault.splits)
qed

lemma thread_step_work:
  assumes "thread_step env wk ck th s = Some (s', th')"
  shows "work th' < work th"
proof (cases "th_steps th")
  case Nil
  then show ?thesis using assms by (auto simp: thread_step_def work_def to_phase_def split: if_splits)
next
  case (Cons step rest)
  have pos: "work th > 0" if "th_phase th \<in> {Starting, Waiting}" using that Cons by (auto simp: work_def step_work_def)
  have "work (to_phase th Waiting) < work th" if "th_phase th = Starting" using that by (simp add: work_def to_phase_def)
  moreover have "work (to_phase th Ended) = 0" by (simp add: work_def to_phase_def)
  moreover have "work th' < work th" if "begin_step env th step s = (s', th')" "th_phase th = Waiting"
    using begin_step_work [OF Cons that(2), of env s] that(1) by simp
  moreover have "work th' < work th" if "try_step env wk ck th step l rt ry s = Some (s', th')" "th_phase th = Running l rt ry" for l rt ry
    using try_step_work [OF that(1) Cons that(2)] .
  ultimately show ?thesis
    using assms Cons pos unfolding thread_step_def by (auto split: phase.splits prod.splits bool.splits if_splits)
qed

fun is_move :: "engine_label \<Rightarrow> bool" where
  "is_move (ThreadMoves i) = True"
| "is_move _ = False"

lemma engine_step_work:
  assumes "engine_step env g l g'"
  shows "total_work (snd g') + (if is_move l then 1 else 0) \<le> total_work (snd g)"
  using assms
proof (cases rule: engine_step.cases)
  case (moves i ths wk ck s s' th')
  then have "work th' < work (ths ! i)" using thread_step_work by blast
  moreover have "sum_list ((map work ths)[i := work th']) + work (ths ! i) = sum_list (map work ths) + work th'"
    using moves elem_le_sum_list [of i "map work ths"] by (simp add: sum_list_update)
  ultimately show ?thesis using moves by (simp add: total_work_def map_update)
qed simp_all

lemma run_work: "run (engine_step env) g w g' \<Longrightarrow> total_work (snd g') + length (filter is_move w) \<le> total_work (snd g)"
proof (induction rule: run.induct)
  case (next_step g l g' w g'')
  then show ?case using engine_step_work [of env g l g'] by (auto split: if_splits)
qed simp

lemma role_work:
  assumes "distinct roles" and "\<forall>x \<in> set xs. st_role x \<in> set roles"
  shows "sum_list (map (\<lambda>r. sum_list (map f (filter (\<lambda>x. st_role x = r) xs)) + 1) roles) = sum_list (map f xs) + length roles"
proof -
  have "sum_list (map (\<lambda>r. sum_list (map f (filter (\<lambda>x. st_role x = r) xs))) roles) = sum_list (map f xs)"
    using assms(2)
  proof (induction xs)
    case (Cons x xs)
    have "sum_list (map (\<lambda>r. if st_role x = r then f x else 0) roles) = f x"
      using assms(1) Cons.prems by (simp add: sum_list_map_eq_sum_count2 sum_list_distinct_conv_sum_set)
    moreover have "sum_list (map f (filter (\<lambda>y. st_role y = r) (x # xs))) =
        (if st_role x = r then f x else 0) + sum_list (map f (filter (\<lambda>y. st_role y = r) xs))" for r by simp
    ultimately show ?case using Cons by (simp only: sum_list_addf) simp
  qed simp
  then show ?thesis by (simp only: sum_list_addf sum_list_triv) simp
qed

text \<open>
  C8: Every run ends. Whatever is scheduled and received, the role threads of a run make at most
  as many transitions together as there are roles and, for every step, two and one for each of its
  repetitions with the retransmissions and retries that the step allows.
\<close>

theorem run_length_bounded:
  assumes "plan ho p = Some (Inr pl)" and "hash_iteration ho" and "run (engine_step env) (engine_start now p pl plugins vars) w g"
  shows "length (filter is_move w) \<le>
    sum_list (map (\<lambda>step. st_loop_count step * (retransmit_limit step + st_retry step + 1) + 2) (map ps_step (plan_order pl))) + length (plan_roles pl)"
proof -
  let ?xs = "map ps_step (plan_order pl)"
  have "total_work (snd (engine_start now p pl plugins vars)) =
      sum_list (map (\<lambda>r. sum_list (map step_work (filter (\<lambda>x. st_role x = r) ?xs)) + 1) (plan_roles pl))"
    by (simp add: engine_start_def initial_threads_def total_work_def work_def thread_new_def role_steps_def comp_def)
  also have "\<dots> = sum_list (map step_work ?xs) + length (plan_roles pl)"
    using plan_wf_plan [OF assms(1,2)] by (intro role_work) (auto simp: plan_wf_def)
  finally show ?thesis using run_work [OF assms(3)] by (simp add: step_work_def [abs_def] tries_def comp_def)
qed

subsection \<open>Traces and results\<close>

lemma engine_step_relations:
  assumes "engine_step env (s, ths) l (s', ths')"
  shows "failure_kept (s, st) (s', st)" and "trace_grows (s, st) (s', st)"
proof -
  have "R (s, st) (s', st)" if R: "run_relation R" for R
    using assms
  proof (cases rule: engine_step.cases)
    case (moves i wk ck th')
    from run_relation.run_thread [OF R this(4)] run_relation.R_any_role [OF R] show ?thesis
      using engine_relation.R_trans [OF run_relation.axioms(1) [OF R]] by metis
  next
    case (pushes k)
    then show ?thesis using run_relation.R_push [OF R] by simp
  next
    case (delivers j)
    then show ?thesis using engine_relation.R_transport [OF run_relation.axioms(1) [OF R]] by simp
  next
    case (passes n)
    then show ?thesis using engine_relation.R_now [OF run_relation.axioms(1) [OF R]] by simp
  qed
  from this [OF kept.run_relation_axioms] this [OF trc.run_relation_axioms]
  show "failure_kept (s, st) (s', st)" and "trace_grows (s, st) (s', st)" .
qed

lemma trace_start: "trace_wf (fst (engine_start now p pl plugins vars))" "si_max_trace (fst (engine_start now p pl plugins vars)) = rl_max_trace (pr_limits p)"
  by (simp_all add: engine_start_def initial_sim_def trace_wf_def)

lemma reachable_trace:
  "reachable (\<lambda>g. g = engine_start now p pl plugins vars) (engine_step env) g \<Longrightarrow>
   trace_wf (fst g) \<and> si_max_trace (fst g) = rl_max_trace (pr_limits p)"
proof (induction rule: reachable.induct)
  case (start g)
  then show ?case using trace_start by simp
next
  case (more g l g')
  then show ?case
    using engine_step_relations(2) [of env "fst g" "snd g" l "fst g'" "snd g'"] by (simp add: trace_grows_def)
qed

lemma run_grows:
  assumes "run (engine_step env) g w g'"
  shows "(si_error (fst g) \<noteq> None \<longrightarrow> si_error (fst g') = si_error (fst g)) \<and> prefix (si_trace (fst g)) (si_trace (fst g'))"
  using assms
proof (induction rule: run.induct)
  case (next_step g l g' w g'')
  then show ?case
    using engine_step_relations [of env "fst g" "snd g" l "fst g'" "snd g'"]
    by (auto simp: failure_kept_def trace_grows_def intro: prefix_order.trans)
qed simp

lemma trace_wf_numbers:
  assumes "trace_wf s"
  shows "distinct (map tv_seq (si_trace s @ si_open s))" and "set (map tv_seq (si_trace s @ si_open s)) = {..<min (si_counter s) (si_max_trace s)}"
    and "length (si_trace s) + length (si_open s) = min (si_counter s) (si_max_trace s)"
    and "sorted_wrt (<) (map tv_seq (filter (event_of role) (si_trace s)))"
proof -
  have m: "mset (map tv_seq (si_trace s @ si_open s)) = mset [0..<min (si_counter s) (si_max_trace s)]"
    using assms by (simp add: trace_wf_def)
  from mset_eq_imp_distinct_iff [OF m] show "distinct (map tv_seq (si_trace s @ si_open s))" by simp
  from mset_eq_setD [OF m] show "set (map tv_seq (si_trace s @ si_open s)) = {..<min (si_counter s) (si_max_trace s)}" by auto
  from mset_eq_length [OF m] show "length (si_trace s) + length (si_open s) = min (si_counter s) (si_max_trace s)" by simp
  show "sorted_wrt (<) (map tv_seq (filter (event_of role) (si_trace s)))"
    using assms by (auto simp: trace_wf_def sorted_wrt_append)
qed

text \<open>
  C10: The trace of a run only grows, and every role's events stand in it in the order of their numbers
  (those of different roles may not). In every state the events that are in the trace or numbered and
  not yet pushed have different numbers, which are all those from 0 to the number of events recorded so
  far or to \<open>max_trace\<close>, if that is less: no number is given twice or skipped, and without a failure
  of the run no event is lost. The first failure of a run is never replaced by a later one.
\<close>

theorem trace_and_failure_kept:
  assumes "run (engine_step env) (engine_start now p pl plugins vars) w (s, ths)" and "run (engine_step env) (s, ths) w' (s', ths')"
  shows "prefix (si_trace s) (si_trace s') \<and> (\<forall>role. sorted_wrt (<) (map tv_seq (filter (event_of role) (si_trace s')))) \<and>
    distinct (map tv_seq (si_trace s' @ si_open s')) \<and>
    set (map tv_seq (si_trace s' @ si_open s')) = {..<min (si_counter s') (rl_max_trace (pr_limits p))} \<and>
    (si_error s' = None \<longrightarrow> length (si_trace s') + length (si_open s') = si_counter s') \<and>
    (si_error s \<noteq> None \<longrightarrow> si_error s' = si_error s)"
proof -
  have "run (engine_step env) (engine_start now p pl plugins vars) (w @ w') (s', ths')"
    using assms by (auto simp: run_append)
  then have "reachable (\<lambda>g. g = engine_start now p pl plugins vars) (engine_step env) (s', ths')"
    unfolding reachable_iff_run by blast
  note t = reachable_trace [OF this]
  then have wf: "trace_wf s'" and mx: "si_max_trace s' = rl_max_trace (pr_limits p)" by simp_all
  have "length (si_trace s') + length (si_open s') = si_counter s'" if "si_error s' = None"
    using trace_wf_numbers(3) [OF wf] wf that by (auto simp: trace_wf_def min_def split: if_splits)
  then show ?thesis using run_grows [OF assms(2)] trace_wf_numbers(1,2,4) [OF wf] unfolding mx by auto
qed

lemma join_threads_error:
  "si_error (join_threads ths s) = None \<longleftrightarrow> si_error s = None \<and> (\<forall>th \<in> set ths. th_phase th \<noteq> Panicked)"
  unfolding join_threads_def by (induction ths arbitrary: s) auto

lemma join_threads_trace: "si_trace (join_threads ths s) = si_trace s"
  unfolding join_threads_def by (induction ths arbitrary: s) auto

lemma run_result_success:
  assumes "run_result s ths = Inr (trace, finals)"
  shows "si_error s = None" and "\<forall>th \<in> set ths. th_phase th \<noteq> Panicked" and "trace = sort_key tv_seq (si_trace s)"
    and "finals = map (\<lambda>th. (th_role th, th_state th)) ths"
proof -
  let ?s = "join_threads ths s"
  have e: "si_error ?s = None" and r: "trace = sort_key tv_seq (si_trace ?s)"
    and f: "finals = map (\<lambda>th. (th_role th, th_state th)) (filter (\<lambda>th. th_phase th \<noteq> Panicked) ths)"
    using assms by (auto simp: run_result_def Let_def split: option.splits if_splits)
  from e show ok: "si_error s = None" "\<forall>th \<in> set ths. th_phase th \<noteq> Panicked" by (simp_all add: join_threads_error)
  show "trace = sort_key tv_seq (si_trace s)" using r by (simp add: join_threads_trace)
  show "finals = map (\<lambda>th. (th_role th, th_state th)) ths" using f ok(2) by (simp add: filter_id_conv)
qed

text \<open>
  C9: A run that succeeds has done its work: once all roles are over, their events pushed, and the
  result is a success, every step of the protocol has been executed or skipped, the trace that is
  returned has the recorded events in the order of their numbers, without gaps, and the final states
  are those of all roles of the plan.
\<close>

theorem successful_run_completes:
  assumes "plan ho p = Some (Inr pl)" and "hash_iteration ho"
    and "reachable (\<lambda>g. g = engine_start now p pl plugins vars) (engine_step env) (s, ths)"
    and "\<forall>th \<in> set ths. thread_over th" and "si_open s = []" and "run_result s ths = Inr (trace, finals)"
  shows "(\<forall>step \<in> set (pr_steps p). st_name step \<in> set (si_completed s)) \<and>
    mset trace = mset (si_trace s) \<and> map tv_seq trace = [0..<si_counter s] \<and> map fst finals = plan_roles pl"
proof -
  note ok = run_result_success [OF assms(6)]
  have f: "follows pl s ths" using reachable_simulated [OF assms(1-3)] ok(1) by (simp add: simulated_def)
  have "st_name step \<in> set (si_completed s)" if step: "step \<in> set (pr_steps p)" for step
  proof -
    obtain q where q: "q \<in> set (plan_order pl)" "ps_step q = step" using plan_steps [OF assms(1,2)] step by (metis imageE)
    then have "st_role step \<in> set (map th_role ths)" using plan_wf_plan [OF assms(1,2)] f by (auto simp: plan_wf_def follows_def)
    then obtain th where th: "th \<in> set ths" "th_role th = st_role step" by auto
    have "th_steps th = []"
      using f th(1) assms(4) ok(2) by (auto simp: follows_def thread_ok_def thread_over_def)
    moreover have "step \<in> set (role_steps pl (th_role th))" using q th(2) by (auto simp: role_steps_def)
    ultimately show ?thesis using f th(1) by (auto simp: follows_def)
  qed
  moreover have wf: "trace_wf s" using reachable_trace [OF assms(3)] by simp
  then have n: "mset (map tv_seq (si_trace s)) = mset [0..<si_counter s]"
    using ok(1) assms(5) by (auto simp: trace_wf_def min_def split: if_splits)
  have "sort [0..<si_counter s] = map tv_seq trace"
    using n by (intro properties_for_sort) (simp_all add: ok(3))
  then have "map tv_seq trace = [0..<si_counter s]" by (simp add: sorted_sort_id)
  moreover have "mset trace = mset (si_trace s)" by (simp add: ok(3))
  moreover have "map fst finals = plan_roles pl" using f by (simp add: ok(4) follows_def comp_def)
  ultimately show ?thesis by blast
qed

subsection \<open>The run of one step, to its end\<close>

lemma ok_over:
  "\<exists>s th. reachable (\<lambda>g. g = ok_start) (engine_step plain_env) (s, [th]) \<and> thread_over th \<and> si_open s = [] \<and>
     run_result s [th] = Inr (si_trace s, [(''c'', th_state th)])"
proof -
  obtain s th where r: "reachable (\<lambda>g. g = ok_start) (engine_step plain_env) (s, [th])" "si_error s = None"
    "th_steps th = []" "th_phase th = Starting" "th_role th = ''c''" "tr_worker_errors (si_transport s) = []" "si_open s = []"
    "length (si_trace s) = 1" using ok_run by blast
  have "engine_step plain_env (s, [th]) (ThreadMoves 0) (s, [th][0 := to_phase th Ended])"
    using r(3,4,7) by (intro engine_step.moves [where wk = "[]" and ck = id]) (simp_all add: thread_step_def pushed_all_def)
  with r(1) have e: "reachable (\<lambda>g. g = ok_start) (engine_step plain_env) (s, [to_phase th Ended])"
    by (auto intro: reachable.more)
  have "sort_key tv_seq (si_trace s) = si_trace s" using r(8) by (cases "si_trace s") simp_all
  then have "run_result s [to_phase th Ended] = Inr (si_trace s, [(''c'', th_state th)])"
    using r(2,5,6) by (simp add: run_result_def join_threads_def finish_result_def to_phase_def)
  with e r(7) show ?thesis by (intro exI [of _ s] exI [of _ "to_phase th Ended"]) (simp add: thread_over_def to_phase_def)
qed

lemma engine_never_stuck_witness: "\<exists>i g'. engine_step plain_env ok_start (ThreadMoves i) g'"
proof -
  have start: "snd ok_start = [thread_new ''c'' [ok_step] []]"
    by (simp add: engine_start_def initial_threads_def ok_plan_def role_steps_def ok_step_def log_step_def)
  then have "thread_new ''c'' [ok_step] [] \<in> set (snd ok_start)" "\<not> thread_over (thread_new ''c'' [ok_step] [])"
    "\<forall>th \<in> set (snd ok_start). th_phase th \<noteq> Panicked" by (simp_all add: thread_over_def thread_new_def)
  moreover have "reachable (\<lambda>g. g = ok_start) (engine_step plain_env) (fst ok_start, snd ok_start)" by (simp add: reachable.start)
  moreover have "si_open (fst ok_start) = []" by (simp add: engine_start_def initial_sim_def)
  ultimately show ?thesis using engine_never_stuck [OF ok_plan hash_iteration_id, of 1 False "[]" plain_env "fst ok_start" "snd ok_start"] by auto
qed

lemma ok_moves:
  obtains w s th where "run (engine_step plain_env) ok_start w (s, [th])" and "si_completed s = [''a'']" and "si_error s = None"
    and "si_open s = []" and "length (si_trace s) = 1"
  using ok_run unfolding reachable_iff_run by metis

lemma run_length_bounded_witness:
  "\<exists>w s th. run (engine_step plain_env) ok_start w (s, [th]) \<and> si_completed s = [''a''] \<and> length (filter is_move w) \<le> 4"
proof -
  obtain w s th where w: "run (engine_step plain_env) ok_start w (s, [th])" "si_completed s = [''a'']" by (rule ok_moves)
  have "length (filter is_move w) \<le> 4"
    using run_length_bounded [OF ok_plan hash_iteration_id w(1)]
    by (simp add: ok_plan_def ok_step_def log_step_def retransmit_limit_def)
  with w show ?thesis by blast
qed

lemma trace_and_failure_kept_witness:
  "\<exists>w s th. run (engine_step plain_env) ok_start w (s, [th]) \<and> si_completed s = [''a''] \<and> map tv_seq (si_trace s) = [0] \<and> si_counter s = 1"
proof -
  obtain w s th where w: "run (engine_step plain_env) ok_start w (s, [th])" "si_completed s = [''a'']" "si_error s = None"
    "si_open s = []" "length (si_trace s) = 1" by (rule ok_moves)
  obtain e where e: "si_trace s = [e]" using w(5) by (auto simp: length_Suc_conv)
  from trace_and_failure_kept [OF w(1), of "[]" s "[th]"] w(3,4) e have "si_counter s = 1" "{tv_seq e} = {..<min 1 (rl_max_trace (pr_limits ok_protocol))}"
    by auto
  then have "tv_seq e = 0" by (auto simp: set_eq_iff)
  with w(1,2) e \<open>si_counter s = 1\<close> show ?thesis by (intro exI [of _ w] exI [of _ s] exI [of _ th]) simp
qed

lemma successful_run_completes_witness:
  "\<exists>s th. reachable (\<lambda>g. g = ok_start) (engine_step plain_env) (s, [th]) \<and> ''a'' \<in> set (si_completed s)"
proof -
  obtain s th where r: "reachable (\<lambda>g. g = ok_start) (engine_step plain_env) (s, [th])" "thread_over th"
    "si_open s = []" "run_result s [th] = Inr (si_trace s, [(''c'', th_state th)])" using ok_over by blast
  have "ok_step \<in> set (pr_steps ok_protocol)" by (simp add: ok_protocol_def log_protocol_def)
  then have "''a'' \<in> set (si_completed s)"
    using successful_run_completes [OF ok_plan hash_iteration_id r(1) _ r(3,4)] r(2) ok_step_simps(1) by fastforce
  with r(1) show ?thesis by blast
qed

end
