(* ===== verification/Engine_External.thy ===== *)
theory Engine_External
  imports Engine_Progress
begin

text \<open>
  Runs of one role against a peer outside (\<open>run_external_*\<close> and \<open>run_live\<close> of
  \<open>src/src/engine.rs\<close>): the checks before the run, the transport over a connected socket, and the state
  in which the run starts. What the operating system answers to a connection attempt is the
  parameter \<open>connect\<close>. A trace observer and the plugin switch do not matter to the checks.
  At the end, the pool of workers of \<open>run_cases_parallel\<close>.
\<close>

subsection \<open>Setting up\<close>

definition external_peer :: "string \<Rightarrow> string list \<Rightarrow> string \<Rightarrow> (run_error, string) res" where
  "external_peer mode roles local_role =
     (if length roles \<noteq> 2
      then Inl (Fail (SetupError FkValidation (mode @ '' mode requires exactly 2 protocol roles, got '' @ decimal (length roles))))
      else case find (\<lambda>r. r \<noteq> local_role) roles of
        Some peer \<Rightarrow> Inr peer
      | None \<Rightarrow> Inl (Fail (SetupError FkValidation (''role '' @ bq local_role @ '' not found in protocol''))))"

definition external_transport :: "u64 \<Rightarrow> string list \<Rightarrow> string \<Rightarrow> string \<Rightarrow> resource_limits \<Rightarrow> (string, unit) res \<Rightarrow> (string, transport) res" where
  "external_transport now roles local_role peer_role limits connect =
     (if local_role \<notin> set roles \<or> peer_role \<notin> set roles
      then Inl (Fail ''external transport roles are not present in the protocol'')
      else rbind connect (\<lambda>_. Inr ((with_options now roles default_transport_config limits False)\<lparr>tr_live := Some [local_role]\<rparr>)))"

text \<open>The state in which only the local role runs; the steps of the peer count as completed.\<close>

definition external_start :: "protocol \<Rightarrow> exec_plan \<Rightarrow> string \<Rightarrow> network_protocol \<Rightarrow> bool \<Rightarrow> transport \<Rightarrow> engine_state" where
  "external_start p pl local_role net plugins t = (initial_sim p pl [local_role] t net plugins, initial_threads pl [local_role] [])"

definition external_run ::
  "u64 \<Rightarrow> network_protocol \<Rightarrow> protocol \<Rightarrow> exec_plan \<Rightarrow> bool \<Rightarrow> string \<Rightarrow> string \<Rightarrow> (string, unit) res \<Rightarrow> (run_error, engine_state) res" where
  "external_run now net p pl plugins local_role peer connect =
     rbind (map_err (SetupError FkTransport) (external_transport now (plan_roles pl) local_role peer (pr_limits p) connect)) (\<lambda>t.
     Inr (external_start p pl local_role net plugins t))"

type_synonym external_runner = "u64 \<Rightarrow> protocol \<Rightarrow> exec_plan \<Rightarrow> bool \<Rightarrow> string \<Rightarrow> (string, unit) res \<Rightarrow> (run_error, engine_state) res"

definition run_external_tcp_framed :: external_runner where
  "run_external_tcp_framed now p pl plugins local_role connect =
     rbind (external_peer ''external TCP'' (plan_roles pl) local_role) (\<lambda>peer.
     external_run now NpTcp p pl plugins local_role peer connect)"

definition run_external_unix :: external_runner where
  "run_external_unix now p pl plugins local_role connect =
     rbind (external_peer ''external Unix socket'' (plan_roles pl) local_role) (\<lambda>peer.
     external_run now NpTcp p pl plugins local_role peer connect)"

definition run_external_websocket :: external_runner where
  "run_external_websocket now p pl plugins local_role connect =
     rbind (external_peer ''external WebSocket'' (plan_roles pl) local_role) (\<lambda>peer.
     external_run now NpWebSocket p pl plugins local_role peer connect)"

definition run_external_quic :: external_runner where
  "run_external_quic now p pl plugins local_role connect =
     rbind (external_peer ''external QUIC'' (plan_roles pl) local_role) (\<lambda>peer.
     external_run now NpQuic p pl plugins local_role peer connect)"

definition run_external_udp_with_options :: external_runner where
  "run_external_udp_with_options now p pl plugins local_role connect =
     rbind (external_peer ''external UDP'' (plan_roles pl) local_role) (\<lambda>peer.
     external_run now NpUdp p pl plugins local_role peer connect)"

definition run_external_tls :: external_runner where
  "run_external_tls now p pl plugins local_role connect =
     rbind (external_peer ''external TLS'' (plan_roles pl) local_role) (\<lambda>peer.
     external_run now NpTls p pl plugins local_role peer connect)"

definition raw_step :: "string \<Rightarrow> (raw_packet_spec \<Rightarrow> bool) \<Rightarrow> step_spec \<Rightarrow> bool" where
  "raw_step local_role P step \<longleftrightarrow> st_role step = local_role \<and> st_action step = ASendRaw \<and>
     (case st_raw_packet step of Some spec \<Rightarrow> P spec | None \<Rightarrow> False)"

definition run_external_raw :: "bool \<Rightarrow> external_runner" where
  "run_external_raw allow_host_tcp now p pl plugins local_role connect =
     (if length (plan_roles pl) \<noteq> 2
      then Inl (Fail (SetupError FkValidation (''external raw mode requires exactly 2 protocol roles, got '' @ decimal (length (plan_roles pl)))))
      else case find (raw_step local_role (\<lambda>spec. raw_ethernet spec = None)) (pr_steps p) of
        Some step \<Rightarrow> Inl (Fail (SetupError FkValidation
          (''raw interface mode requires an ethernet block on outbound step '' @ bq (st_name step))))
      | None \<Rightarrow>
          (case if allow_host_tcp then None else find (raw_step local_role (\<lambda>spec. raw_tcp spec \<noteq> None)) (pr_steps p) of
             Some step \<Rightarrow> Inl (Fail (SetupError FkValidation
               (''raw TCP step '' @ bq (st_name step) @ '' is blocked by default because the host TCP stack may emit competing RST/ACK packets; use an isolated network namespace or unassigned source address, then pass --allow-host-tcp to acknowledge the risk'')))
           | None \<Rightarrow>
               rbind (external_peer ''external raw'' (plan_roles pl) local_role) (\<lambda>peer.
               external_run now NpRaw p pl plugins local_role peer connect)))"

definition live_with_limits :: "u64 \<Rightarrow> string list \<Rightarrow> resource_limits \<Rightarrow> (string, unit) res \<Rightarrow> (string, transport) res" where
  "live_with_limits now roles limits connect =
     (if length roles \<noteq> 2 then Inl (Fail (''live transport requires exactly 2 roles, got '' @ decimal (length roles)))
      else rbind connect (\<lambda>_. Inr ((with_options now roles default_transport_config limits False)\<lparr>tr_live := Some roles\<rparr>)))"

definition run_live :: "bool \<Rightarrow> u64 \<Rightarrow> protocol \<Rightarrow> exec_plan \<Rightarrow> bool \<Rightarrow> (string, unit) res \<Rightarrow> (run_error, engine_state) res" where
  "run_live udp now p pl plugins connect =
     rbind (map_err (SetupError FkTransport) (live_with_limits now (plan_roles pl) (pr_limits p) connect)) (\<lambda>t.
     Inr (initial_sim p pl (plan_roles pl) t (if udp then NpUdp else NpTcp) plugins, initial_threads pl (plan_roles pl) []))"

subsection \<open>Unknown roles\<close>

lemma external_peer_two:
  assumes "length roles = 2" and "distinct roles"
  shows "\<exists>peer \<in> set roles. external_peer mode roles local_role = Inr peer \<and> peer \<noteq> local_role"
proof -
  obtain a b where "roles = [a, b]" using assms(1) by (auto simp: length_Suc_conv numeral_2_eq_2)
  then show ?thesis using assms(2) by (auto simp: external_peer_def)
qed

lemmas external_runners = run_external_tcp_framed_def run_external_unix_def run_external_websocket_def run_external_quic_def
  run_external_udp_with_options_def run_external_tls_def

text \<open>
  A run of a role that the protocol does not have is refused by the transport, as a
  transport failure: the check that was meant to report the unknown role as a validation
  error looks for any other role and always finds one.
\<close>

theorem unknown_role_refused:
  assumes "length (plan_roles pl) = 2" and "distinct (plan_roles pl)" and "local_role \<notin> set (plan_roles pl)"
    and "runner \<in> {run_external_tcp_framed, run_external_unix, run_external_websocket, run_external_quic, run_external_udp_with_options, run_external_tls}"
  shows "runner now p pl plugins local_role connect = Inl (Fail (SetupError FkTransport ''external transport roles are not present in the protocol''))"
proof -
  have "rbind (external_peer mode (plan_roles pl) local_role) (\<lambda>peer. external_run now net p pl plugins local_role peer connect) =
      Inl (Fail (SetupError FkTransport ''external transport roles are not present in the protocol''))" for mode net
  proof -
    obtain peer where "external_peer mode (plan_roles pl) local_role = Inr peer" using external_peer_two [OF assms(1,2)] by blast
    then show ?thesis using assms(3) by (simp add: external_run_def external_transport_def)
  qed
  then show ?thesis using assms(4) by (auto simp: external_runners)
qed

lemma unknown_role_refused_witness:
  "run_external_tls 1 ok_protocol \<lparr>plan_protocol_name = ''p'', plan_roles = [''c'', ''s''], plan_order = []\<rparr> False ''x'' (Inr ()) =
   Inl (Fail (SetupError FkTransport ''external transport roles are not present in the protocol''))"
  by (rule unknown_role_refused) simp_all

subsection \<open>Cases in parallel\<close>

text \<open>
  The workers of \<open>run_cases_parallel\<close> take the next index, run that case and store its result at
  that index. A case may end in several ways: \<open>ends c r\<close> says that running \<open>c\<close> can give \<open>r\<close>.
\<close>

datatype pool_worker = WIdle | WRunning nat | WDone

record 'r pool =
  po_next :: nat
  po_results :: "'r option list"
  po_workers :: "pool_worker list"

definition pool_start :: "nat \<Rightarrow> 'c list \<Rightarrow> 'r pool" where
  "pool_start jobs cases =
     \<lparr>po_next = 0, po_results = replicate (length cases) None, po_workers = replicate (min jobs (length cases)) WIdle\<rparr>"

inductive pool_step :: "('c \<Rightarrow> 'r \<Rightarrow> bool) \<Rightarrow> 'c list \<Rightarrow> 'r pool \<Rightarrow> nat \<Rightarrow> 'r pool \<Rightarrow> bool" for ends cases where
  takes: "k < length (po_workers q) \<Longrightarrow> po_workers q ! k = WIdle \<Longrightarrow>
    pool_step ends cases q k (q\<lparr>po_next := Suc (po_next q),
      po_workers := (po_workers q)[k := if po_next q < length cases then WRunning (po_next q) else WDone]\<rparr>)"
| stores: "k < length (po_workers q) \<Longrightarrow> po_workers q ! k = WRunning i \<Longrightarrow> ends (cases ! i) r \<Longrightarrow>
    pool_step ends cases q k (q\<lparr>po_results := (po_results q)[i := Some r], po_workers := (po_workers q)[k := WIdle]\<rparr>)"

definition pool_inv :: "('c \<Rightarrow> 'r \<Rightarrow> bool) \<Rightarrow> nat \<Rightarrow> 'c list \<Rightarrow> 'r pool \<Rightarrow> bool" where
  "pool_inv ends jobs cases q \<longleftrightarrow> length (po_results q) = length cases \<and> length (po_workers q) = min jobs (length cases) \<and>
     (\<forall>i < length cases.
        case po_results q ! i of None \<Rightarrow> i < po_next q \<longrightarrow> WRunning i \<in> set (po_workers q) | Some r \<Rightarrow> ends (cases ! i) r) \<and>
     (\<forall>i. WRunning i \<in> set (po_workers q) \<longrightarrow> i < length cases) \<and> (WDone \<in> set (po_workers q) \<longrightarrow> length cases \<le> po_next q)"

lemma update_keeps: "y \<in> set ws \<Longrightarrow> ws ! k \<noteq> y \<Longrightarrow> y \<in> set (ws[k := x])"
  by (metis in_set_conv_nth length_list_update nth_list_update_neq)

lemma pool_inv_step:
  assumes "pool_inv ends jobs cases q" and "pool_step ends cases q k q'"
  shows "pool_inv ends jobs cases q'"
  using assms(2,1)
proof (cases rule: pool_step.cases)
  case takes
  let ?w = "if po_next q < length cases then WRunning (po_next q) else WDone"
  let ?ws = "(po_workers q)[k := ?w]"
  have keep: "WRunning i \<in> set ((po_workers q)[k := x])" if "WRunning i \<in> set (po_workers q)" for i x
    using that takes(3) by (simp add: update_keeps)
  have "set ((po_workers q)[k := x]) \<subseteq> insert x (set (po_workers q))" for x by (rule set_update_subset_insert)
  moreover have "x \<in> set ((po_workers q)[k := x])" for x using takes(2) by (rule set_update_memI)
  ultimately have ws: "set ?ws \<subseteq> insert ?w (set (po_workers q))" "?w \<in> set ?ws" by blast+
  show ?thesis
    unfolding takes(1) pool_inv_def
  proof (intro conjI allI impI, goal_cases)
    case (3 i)
    then show ?case
      using assms(1) keep [of i ?w] ws(2) by (cases "i = po_next q") (auto simp: pool_inv_def less_Suc_eq split: option.splits)
  qed (use assms(1) ws(1) in \<open>auto simp: pool_inv_def split: if_splits\<close>)
next
  case (stores i r)
  have keep: "WRunning j \<in> set ((po_workers q)[k := WIdle])" if "WRunning j \<in> set (po_workers q)" "j \<noteq> i" for j
    using that stores(3) by (simp add: update_keeps)
  have ws: "set ((po_workers q)[k := WIdle]) \<subseteq> insert WIdle (set (po_workers q))" by (rule set_update_subset_insert)
  show ?thesis
    unfolding stores(1) pool_inv_def
  proof (intro conjI allI impI, goal_cases)
    case (3 j)
    then show ?case
      using assms(1) keep [of j] stores(4) by (cases "j = i") (auto simp: pool_inv_def split: option.splits)
  qed (use assms(1) ws in \<open>auto simp: pool_inv_def\<close>)
qed

text \<open>
  Running cases in parallel gives one result per case, in the order of the cases: when all
  workers are done, the result at each position is one that running the case at that position
  gives, whatever the interleaving of the workers.
\<close>

theorem parallel_cases_in_order:
  assumes "reachable (\<lambda>q. q = pool_start jobs cases) (pool_step ends cases) q" and "jobs \<noteq> 0"
    and "\<forall>w \<in> set (po_workers q). w = WDone"
  shows "list_all2 (\<lambda>c r. \<exists>x. r = Some x \<and> ends c x) cases (po_results q)"
proof -
  have "inductive_invariant (\<lambda>q. q = pool_start jobs cases) (pool_step ends cases) (pool_inv ends jobs cases)"
  proof
    show "pool_inv ends jobs cases q" if "q = pool_start jobs cases" for q
      by (simp add: that pool_start_def pool_inv_def)
  qed (rule pool_inv_step)
  then have i: "pool_inv ends jobs cases q" using assms(1) by (rule inductive_invariant.reachable_inv)
  have "\<exists>x. po_results q ! k = Some x \<and> ends (cases ! k) x" if k: "k < length cases" for k
  proof -
    have "po_workers q \<noteq> []" using i k assms(2) by (auto simp: pool_inv_def)
    then have "WDone \<in> set (po_workers q)" using assms(3) by (metis hd_in_set)
    then have "k < po_next q" using i k by (auto simp: pool_inv_def)
    moreover have "WRunning k \<notin> set (po_workers q)" using assms(3) by auto
    ultimately show ?thesis using i k by (auto simp: pool_inv_def split: option.splits)
  qed
  with i show ?thesis by (auto simp: list_all2_conv_all_nth pool_inv_def)
qed

lemma parallel_cases_in_order_witness:
  "\<exists>q. reachable (\<lambda>q. q = pool_start 2 [True]) (pool_step (=) [True]) q \<and> list_all2 (\<lambda>c r. \<exists>x. r = Some x \<and> c = x) [True] (po_results q)"
proof -
  let ?step = "pool_step (=) [True]" and ?q = "\<lambda>n r w. \<lparr>po_next = n, po_results = [r], po_workers = [w]\<rparr> :: bool pool"
  let ?reach = "reachable (\<lambda>q. q = pool_start 2 [True]) ?step"
  have "?step (?q 0 None WIdle) 0 (?q 1 None (WRunning 0))" using pool_step.takes [of 0 "?q 0 None WIdle" "(=)" "[True]"] by simp
  moreover have "?step (?q 1 None (WRunning 0)) 0 (?q 1 (Some True) WIdle)"
    using pool_step.stores [of 0 "?q 1 None (WRunning 0)" 0 "(=)" "[True]" True] by simp
  moreover have "?step (?q 1 (Some True) WIdle) 0 (?q 2 (Some True) WDone)"
    using pool_step.takes [of 0 "?q 1 (Some True) WIdle" "(=)" "[True]"] by (simp add: numeral_2_eq_2)
  moreover have "?reach (?q 0 None WIdle)" by (rule reachable.start) (simp add: pool_start_def)
  ultimately have r: "?reach (?q 2 (Some True) WDone)" by (blast intro: reachable.more)
  from parallel_cases_in_order [OF r] have "list_all2 (\<lambda>c r. \<exists>x. r = Some x \<and> c = x) [True] (po_results (?q 2 (Some True) WDone))" by simp
  with r show ?thesis by blast
qed

end
