(* ===== verification/Capture.thy ===== *)
theory Capture
  imports Engine_State
begin

text \<open>
  Packet captures: \<open>trace_pcap\<close> and \<open>trace_pcapng\<close> of \<open>src/src/output.rs\<close>, which write the
  outbound events of a trace as packets with synthetic addresses, and \<open>decode_capture\<close> of
  \<open>src/src/pcap_import.rs\<close>, which reads capture files. A slice whose start is after its
  end panics.
\<close>

unbundle bit_operations_syntax

definition le_bytes :: "nat \<Rightarrow> 'a::len word \<Rightarrow> bytes" where
  "le_bytes n w = rev (be_bytes n w)"

subsection \<open>Writing\<close>

definition role_hash :: "string \<Rightarrow> u32" where
  "role_hash role = fold (\<lambda>b h. (h * 16777619) XOR ucast b) (bytes_of role) 0x811c"

definition role_id :: "string \<Rightarrow> byte \<times> byte" where
  "role_id role =
     (let h = (ucast (role_hash role) :: u16); i = (ucast (drop_bit 8 h), ucast h) in if i = (0, 0) then (0, 1) else i)"

fun sum_words :: "nat \<Rightarrow> bytes \<Rightarrow> nat" where
  "sum_words s [] = s"
| "sum_words s [b] = (let t = s + unat b * 256 in t mod 65536 + t div 65536)"
| "sum_words s (a # b # bs) = (let t = s + (unat a * 256 + unat b) in sum_words (t mod 65536 + t div 65536) bs)"

definition capture_checksum :: "bytes \<Rightarrow> u16" where
  "capture_checksum bs = NOT (of_nat (sum_words 0 bs))"

definition capture_flag :: "string \<Rightarrow> byte" where
  "capture_flag f =
     (if f = ''FIN'' then 1 else if f = ''SYN'' then 2 else if f = ''RST'' then 4 else if f = ''PSH'' then 8
      else if f = ''ACK'' then 0x10 else if f = ''URG'' then 0x20 else if f = ''ECE'' then 0x40 else if f = ''CWR'' then 0x80 else 0)"

definition capture_flags :: "string list \<Rightarrow> byte" where
  "capture_flags flags = fold (\<lambda>f bits. bits OR capture_flag f) flags 0"

definition role_port :: "byte \<times> byte \<Rightarrow> u16" where
  "role_port i = 10000 + be_word [fst i, snd i] mod 50000"

definition role_ip :: "byte \<times> byte \<Rightarrow> bytes" where
  "role_ip i = [10, 0, fst i, snd i]"

definition ethernet_bytes :: "byte \<times> byte \<Rightarrow> byte \<times> byte \<Rightarrow> u16 \<Rightarrow> bytes" where
  "ethernet_bytes source destination ether_type =
     [0x02, 0, 0, fst destination, snd destination, 2] @ [0x02, 0, 0, fst source, snd source, 1] @ be_bytes 2 ether_type"

text \<open>The IPv4 header, first with a zero checksum, then with the checksum of that.\<close>

definition ipv4_bytes :: "byte \<times> byte \<Rightarrow> byte \<times> byte \<Rightarrow> byte \<Rightarrow> nat \<Rightarrow> nat \<Rightarrow> bytes \<Rightarrow> bytes" where
  "ipv4_bytes source destination protocol len seq ck =
     [0x45, 0] @ be_bytes 2 (of_nat len :: u16) @ be_bytes 2 (of_nat seq :: u16) @ be_bytes 2 (0x4000 :: u16) @ [64, protocol] @ ck @
     role_ip source @ role_ip destination"

definition ipv4_checked :: "byte \<times> byte \<Rightarrow> byte \<times> byte \<Rightarrow> byte \<Rightarrow> nat \<Rightarrow> nat \<Rightarrow> bytes" where
  "ipv4_checked source destination protocol len seq =
     ipv4_bytes source destination protocol len seq
       (be_bytes 2 (capture_checksum (ipv4_bytes source destination protocol len seq (be_bytes 2 (0 :: u16)))))"

definition tcp_bytes :: "event \<Rightarrow> byte \<times> byte \<Rightarrow> byte \<times> byte \<Rightarrow> bytes \<Rightarrow> bytes \<Rightarrow> bytes" where
  "tcp_bytes ev source destination ck payload =
     be_bytes 2 (role_port source) @ be_bytes 2 (role_port destination) @ be_bytes 4 (of_int (unwrap_or 0 (ev_seq_num ev)) :: u32) @
     be_bytes 4 (of_int (unwrap_or 0 (ev_ack_num ev)) :: u32) @ [0x50, capture_flags (ev_flags ev)] @ be_bytes 2 (65535 :: u16) @ ck @
     be_bytes 2 (0 :: u16) @ payload"

definition tcp_packet :: "trace_event \<Rightarrow> string \<Rightarrow> bytes" where
  "tcp_packet tv peer =
     (let ev = tv_event tv; payload = take (65535 - 40) (tv_wire_data tv); source = role_id (ev_role ev); destination = role_id peer;
          zero = tcp_bytes ev source destination (be_bytes 2 (0 :: u16)) payload;
          pseudo = role_ip source @ role_ip destination @ [0, 6] @ be_bytes 2 (of_nat (20 + length payload) :: u16) @ zero in
      ethernet_bytes source destination 0x0800 @ ipv4_checked source destination 6 (20 + 20 + length payload) (tv_seq tv) @
      tcp_bytes ev source destination (be_bytes 2 (capture_checksum pseudo)) payload)"

definition udp_packet :: "trace_event \<Rightarrow> string \<Rightarrow> bytes" where
  "udp_packet tv peer =
     (let payload = take (65535 - 28) (tv_wire_data tv); source = role_id (ev_role (tv_event tv)); destination = role_id peer in
      ethernet_bytes source destination 0x0800 @ ipv4_checked source destination 17 (20 + 8 + length payload) (tv_seq tv) @
      be_bytes 2 (role_port source) @ be_bytes 2 (role_port destination) @ be_bytes 2 (of_nat (8 + length payload) :: u16) @
      be_bytes 2 (0 :: u16) @ payload)"

fun is_outbound :: "action \<Rightarrow> bool" where
  "is_outbound a = (a \<in> {ASend, ASendRaw, AAck, ANack, AReset, ADuplicate, ACorrupt})"

text \<open>\<open>DLT_EN10MB\<close> and \<open>DLT_RAW\<close>.\<close>

definition ip_version :: "bytes \<Rightarrow> byte option" where
  "ip_version bs = (case bs of [] \<Rightarrow> None | b # _ \<Rightarrow> if drop_bit 4 b \<in> {4, 6} then Some (drop_bit 4 b) else None)"

definition capture_link_type :: "trace_event list \<Rightarrow> u32" where
  "capture_link_type trace =
     (let outbound = filter (\<lambda>tv. is_outbound (ev_action (tv_event tv)) \<and> ev_peer (tv_event tv) \<noteq> None) trace in
      if outbound \<noteq> [] \<and> list_all (\<lambda>tv. tv_network tv = NpRaw \<and> ip_version (tv_wire_data tv) \<noteq> None) outbound then 101 else 1)"

definition capture_packet :: "trace_event \<Rightarrow> string \<Rightarrow> u32 \<Rightarrow> bytes" where
  "capture_packet tv peer link_type =
     (case tv_network tv of
        NpUdp \<Rightarrow> udp_packet tv peer
      | NpRaw \<Rightarrow>
          if link_type = 1 then
            (case ip_version (tv_wire_data tv) of
               Some v \<Rightarrow> ethernet_bytes (role_id (ev_role (tv_event tv))) (role_id peer) (if v = 6 then 0x86dd else 0x0800) @ tv_wire_data tv
             | None \<Rightarrow> tv_wire_data tv)
          else tv_wire_data tv
      | _ \<Rightarrow> tcp_packet tv peer)"

text \<open>The events that are written, each with its peer.\<close>

definition captured_events :: "trace_event list \<Rightarrow> (trace_event \<times> string) list" where
  "captured_events trace =
     List.map_filter (\<lambda>tv. if is_outbound (ev_action (tv_event tv)) then map_option (Pair tv) (ev_peer (tv_event tv)) else None) trace"

definition pcap_record :: "u32 \<Rightarrow> trace_event \<times> string \<Rightarrow> bytes" where
  "pcap_record link_type e =
     (let packet = capture_packet (fst e) (snd e) link_type; t = tv_timestamp_us (fst e) in
      le_bytes 4 (of_nat (t div 1000000) :: u32) @ le_bytes 4 (of_nat (t mod 1000000) :: u32) @
      le_bytes 4 (of_nat (length packet) :: u32) @ le_bytes 4 (of_nat (length packet) :: u32) @ packet)"

definition trace_pcap :: "trace_event list \<Rightarrow> bytes" where
  "trace_pcap trace =
     (let link_type = capture_link_type trace in
      le_bytes 4 (0xa1b2c3d4 :: u32) @ le_bytes 2 (2 :: u16) @ le_bytes 2 (4 :: u16) @ le_bytes 4 (0 :: u32) @ le_bytes 4 (0 :: u32) @
      le_bytes 4 (65535 :: u32) @ le_bytes 4 link_type @ concat (map (pcap_record link_type) (captured_events trace)))"

definition pcapng_block :: "u32 \<Rightarrow> trace_event \<times> string \<Rightarrow> bytes" where
  "pcapng_block link_type e =
     (let packet = capture_packet (fst e) (snd e) link_type; t = tv_timestamp_us (fst e); padded = (length packet + 3) div 4 * 4;
          block_len = 32 + padded in
      le_bytes 4 (6 :: u32) @ le_bytes 4 (of_nat block_len :: u32) @ le_bytes 4 (0 :: u32) @ le_bytes 4 (of_nat (t div 2 ^ 32) :: u32) @
      le_bytes 4 (of_nat t :: u32) @ le_bytes 4 (of_nat (length packet) :: u32) @ le_bytes 4 (of_nat (length packet) :: u32) @
      packet @ replicate (padded - length packet) 0 @ le_bytes 4 (of_nat block_len :: u32))"

definition pcapng_head :: "u32 \<Rightarrow> bytes" where
  "pcapng_head link_type =
     le_bytes 4 (0x0a0d0d0a :: u32) @ le_bytes 4 (28 :: u32) @ le_bytes 4 (0x1a2b3c4d :: u32) @ le_bytes 2 (ucast link_type :: u16) @
     le_bytes 2 (0 :: u16) @ le_bytes 8 (- 1 :: u64) @ le_bytes 4 (28 :: u32)"

definition pcapng_interface :: bytes where
  "pcapng_interface =
     le_bytes 4 (1 :: u32) @ le_bytes 4 (20 :: u32) @ le_bytes 2 (1 :: u16) @ le_bytes 2 (0 :: u16) @ le_bytes 4 (65535 :: u32) @
     le_bytes 4 (20 :: u32)"

definition trace_pcapng :: "trace_event list \<Rightarrow> bytes" where
  "trace_pcapng trace =
     (let link_type = capture_link_type trace in
      pcapng_head link_type @ pcapng_interface @ concat (map (pcapng_block link_type) (captured_events trace)))"

subsection \<open>Reading\<close>

datatype endian = LittleEndian | BigEndian

record captured_packet =
  cp_timestamp_ns :: nat
  cp_source :: string
  cp_destination :: string
  cp_source_port :: u16
  cp_destination_port :: u16
  cp_transport :: string
  cp_flags :: "string list"
  cp_sequence :: "u32 option"
  cp_acknowledgement :: "u32 option"
  cp_payload :: bytes
  cp_frame_length :: nat

type_synonym 'a cres = "(string, 'a) res"

text \<open>\<open>bytes.get(a..a + n)\<close>.\<close>

definition get_range :: "bytes \<Rightarrow> nat \<Rightarrow> nat \<Rightarrow> bytes option" where
  "get_range bs a n = (if a + n \<le> length bs then Some (take n (drop a bs)) else None)"

definition read_word :: "nat \<Rightarrow> bytes \<Rightarrow> nat \<Rightarrow> endian \<Rightarrow> 'a::len word cres" where
  "read_word n bs offset en =
     (case get_range bs offset n of
        None \<Rightarrow> Inl (Fail ''truncated capture'')
      | Some v \<Rightarrow> Inr (be_word (case en of LittleEndian \<Rightarrow> rev v | BigEndian \<Rightarrow> v)))"

definition read_u16 :: "bytes \<Rightarrow> nat \<Rightarrow> endian \<Rightarrow> u16 cres" where
  "read_u16 = read_word 2"

definition read_u32 :: "bytes \<Rightarrow> nat \<Rightarrow> endian \<Rightarrow> u32 cres" where
  "read_u32 = read_word 4"

definition capture_flag_names :: "(byte \<times> string) list" where
  "capture_flag_names =
     [(0x01, ''FIN''), (0x02, ''SYN''), (0x04, ''RST''), (0x08, ''PSH''), (0x10, ''ACK''), (0x20, ''URG''), (0x40, ''ECE''), (0x80, ''CWR'')]"

definition flag_names_of :: "byte \<Rightarrow> string list" where
  "flag_names_of bits = map snd (filter (\<lambda>(mask, _). bits AND mask \<noteq> 0) capture_flag_names)"

definition capture_transport :: "bytes \<Rightarrow> byte \<Rightarrow> nat \<Rightarrow> nat \<Rightarrow> string \<Rightarrow> string \<Rightarrow> captured_packet option" where
  "capture_transport packet protocol timestamp frame_length source destination =
     Option.bind (get_range packet 0 2) (\<lambda>sp.
     Option.bind (get_range packet 2 2) (\<lambda>dp.
     if protocol = 6 then
       Option.bind (get_range packet 12 1) (\<lambda>off.
       let header = unat (drop_bit 4 (hd off)) * 4 in
       if header < 20 \<or> length packet < header then None
       else Some \<lparr>cp_timestamp_ns = timestamp, cp_source = source, cp_destination = destination, cp_source_port = be_word sp,
         cp_destination_port = be_word dp, cp_transport = ''tcp'', cp_flags = flag_names_of (packet ! 13),
         cp_sequence = Some (be_word (take 4 (drop 4 packet))), cp_acknowledgement = Some (be_word (take 4 (drop 8 packet))),
         cp_payload = drop header packet, cp_frame_length = frame_length\<rparr>)
     else if protocol = 17 \<and> length packet \<ge> 8 then
       Some \<lparr>cp_timestamp_ns = timestamp, cp_source = source, cp_destination = destination, cp_source_port = be_word sp,
         cp_destination_port = be_word dp, cp_transport = ''udp'', cp_flags = [''UDP''], cp_sequence = None, cp_acknowledgement = None,
         cp_payload = drop 8 packet, cp_frame_length = frame_length\<rparr>
     else None))"

definition capture_ipv4 :: "bytes \<Rightarrow> nat \<Rightarrow> nat \<Rightarrow> captured_packet option cres" where
  "capture_ipv4 packet timestamp frame_length =
     (let header = unat (hd packet AND 0x0f) * 4 in
      if header < 20 \<or> length packet < header then Inr None
      else let stop = min (unat (be_word (take 2 (drop 2 packet)) :: u16)) (length packet) in
        if stop < header then Inl Panic
        else Inr (capture_transport (take (stop - header) (drop header packet)) (packet ! 9) timestamp frame_length
          (ipv4_to_string (be_word (take 4 (drop 12 packet)))) (ipv4_to_string (be_word (take 4 (drop 16 packet))))))"

definition capture_ipv6 :: "bytes \<Rightarrow> nat \<Rightarrow> nat \<Rightarrow> captured_packet option" where
  "capture_ipv6 packet timestamp frame_length =
     (if length packet < 40 then None
      else capture_transport (take (unat (be_word (take 2 (drop 4 packet)) :: u16)) (drop 40 packet)) (packet ! 6) timestamp frame_length
        (ipv6_to_string (be_word (take 16 (drop 8 packet)))) (ipv6_to_string (be_word (take 16 (drop 24 packet)))))"

definition capture_frame :: "bytes \<Rightarrow> u32 \<Rightarrow> nat \<Rightarrow> captured_packet option cres" where
  "capture_frame frame link_type timestamp =
     (case (if link_type = 1 \<and> length frame \<ge> 14 then Some (drop 14 frame) else if link_type = 101 then Some frame else None) of
        None \<Rightarrow> Inr None
      | Some network \<Rightarrow>
          (case network of
             [] \<Rightarrow> Inr None
           | b # _ \<Rightarrow>
               if drop_bit 4 b = 4 then capture_ipv4 network timestamp (length frame)
               else if drop_bit 4 b = 6 then Inr (capture_ipv6 network timestamp (length frame)) else Inr None))"

definition push_some :: "'a option \<Rightarrow> 'a list \<Rightarrow> 'a list" where
  "push_some x xs = (case x of None \<Rightarrow> xs | Some y \<Rightarrow> xs @ [y])"

function pcap_records :: "bytes \<Rightarrow> endian \<Rightarrow> bool \<Rightarrow> u32 \<Rightarrow> nat \<Rightarrow> captured_packet list \<Rightarrow> captured_packet list cres" where
  "pcap_records bs en nanoseconds link_type offset packets =
     (if offset \<ge> length bs then Inr packets
      else if length bs - offset < 16 then Inl (Fail (''truncated PCAP record at byte '' @ decimal offset))
      else rbind (read_u32 bs offset en) (\<lambda>seconds.
        rbind (read_u32 bs (offset + 4) en) (\<lambda>fraction.
        rbind (read_u32 bs (offset + 8) en) (\<lambda>captured.
        case get_range bs (offset + 16) (unat captured) of
          None \<Rightarrow> Inl (Fail (''truncated PCAP packet at byte '' @ decimal (offset + 16)))
        | Some frame \<Rightarrow>
            rbind (capture_frame frame link_type (u64_sat (u64_sat (unat seconds * 1000000000) +
              (if nanoseconds then unat fraction else u64_sat (unat fraction * 1000))))) (\<lambda>p.
            pcap_records bs en nanoseconds link_type (offset + 16 + unat captured) (push_some p packets))))))"
  by pat_completeness auto
termination
  by (relation "measure (\<lambda>(bs, en, ns, lt, offset, ps). length bs - offset)") auto

declare pcap_records.simps [simp del]

definition pcap_magic :: "bytes \<Rightarrow> (endian \<times> bool) option" where
  "pcap_magic m =
     map_of [([0xd4, 0xc3, 0xb2, 0xa1], (LittleEndian, False)), ([0xa1, 0xb2, 0xc3, 0xd4], (BigEndian, False)),
       ([0x4d, 0x3c, 0xb2, 0xa1], (LittleEndian, True)), ([0xa1, 0xb2, 0x3c, 0x4d], (BigEndian, True))] m"

definition decode_pcap :: "bytes \<Rightarrow> captured_packet list cres" where
  "decode_pcap bs =
     (if length bs < 24 then Inl (Fail ''truncated PCAP header'')
      else case pcap_magic (take 4 bs) of
        None \<Rightarrow> Inl (Fail ''unsupported capture format (expected PCAP or PCAPNG)'')
      | Some (en, nanoseconds) \<Rightarrow> rbind (read_u32 bs 20 en) (\<lambda>link_type. pcap_records bs en nanoseconds link_type 24 []))"

function interface_resolution :: "bytes \<Rightarrow> endian \<Rightarrow> nat \<Rightarrow> nat" where
  "interface_resolution options en offset =
     (if offset + 4 > length options then 1000000
      else
        let code = (case read_u16 options offset en of Inr c \<Rightarrow> unat c | Inl _ \<Rightarrow> 0);
            len = (case read_u16 options (offset + 2) en of Inr c \<Rightarrow> unat c | Inl _ \<Rightarrow> 0) in
        if code = 0 \<or> offset + 4 + len > length options then 1000000
        else if code = 9 \<and> len = 1 then
          (let v = options ! (offset + 4) in
           if v AND 0x80 = 0 then u64_sat (10 ^ unat v) else u64_sat (2 ^ unat (v AND 0x7f)))
        else interface_resolution options en (offset + (4 + (len + 3) div 4 * 4)))"
  by pat_completeness auto
termination
  by (relation "measure (\<lambda>(options, en, offset). length options - offset)") auto

declare interface_resolution.simps [simp del]

text \<open>One block of a PCAPNG file: the interfaces and packets after it.\<close>

definition pcapng_body ::
  "bytes \<Rightarrow> endian \<Rightarrow> nat \<Rightarrow> nat \<Rightarrow> u32 \<Rightarrow> (u32 \<times> nat) list \<Rightarrow> captured_packet list \<Rightarrow> ((u32 \<times> nat) list \<times> captured_packet list) cres" where
  "pcapng_body bs en offset len block_type interfaces packets =
     (if block_type = 1 \<and> len \<ge> 20 then
        rbind (read_u16 bs (offset + 8) en) (\<lambda>link_type.
        Inr (interfaces @ [(ucast link_type, interface_resolution (take (len - 20) (drop (offset + 16) bs)) en 0)], packets))
      else if block_type = 6 \<and> len \<ge> 32 then
        rbind (read_u32 bs (offset + 8) en) (\<lambda>interface.
        rbind (read_u32 bs (offset + 12) en) (\<lambda>high.
        rbind (read_u32 bs (offset + 16) en) (\<lambda>low.
        rbind (read_u32 bs (offset + 20) en) (\<lambda>captured.
        case (if unat interface < length interfaces then Some (interfaces ! unat interface) else None, get_range bs (offset + 28) (unat captured)) of
          (Some (link_type, units), Some frame) \<Rightarrow>
            rbind (capture_frame frame link_type (u64_sat ((unat high * 2 ^ 32 + unat low) * 1000000000) div max units 1)) (\<lambda>p.
            Inr (interfaces, push_some p packets))
        | _ \<Rightarrow> Inr (interfaces, packets)))))
      else Inr (interfaces, packets))"

function pcapng_blocks ::
  "bytes \<Rightarrow> endian \<Rightarrow> nat \<Rightarrow> (u32 \<times> nat) list \<Rightarrow> captured_packet list \<Rightarrow> captured_packet list cres" where
  "pcapng_blocks bs en offset interfaces packets =
     (if offset \<ge> length bs then Inr packets
      else if length bs - offset < 12 then Inl (Fail (''truncated PCAPNG block at byte '' @ decimal offset))
      else rbind (read_u32 bs offset en) (\<lambda>block_type.
        rbind (read_u32 bs (offset + 4) en) (\<lambda>len.
        if unat len < 12 \<or> unat len mod 4 \<noteq> 0 \<or> offset + unat len > length bs
        then Inl (Fail (''invalid PCAPNG block length '' @ decimal (unat len) @ '' at byte '' @ decimal offset))
        else rbind (read_u32 bs (offset + unat len - 4) en) (\<lambda>again.
          if again \<noteq> len then Inl (Fail (''PCAPNG block length mismatch at byte '' @ decimal offset))
          else rbind (pcapng_body bs en offset (unat len) block_type interfaces packets) (\<lambda>(ifs, ps).
            pcapng_blocks bs en (offset + unat len) ifs ps)))))"
  by pat_completeness auto
termination
  by (relation "measure (\<lambda>(bs, en, offset, ifs, ps). length bs - offset)") auto

declare pcapng_blocks.simps [simp del]

definition decode_pcapng :: "bytes \<Rightarrow> captured_packet list cres" where
  "decode_pcapng bs =
     (if length bs < 28 then Inl (Fail ''truncated PCAPNG section header'')
      else if take 4 (drop 8 bs) = [0x4d, 0x3c, 0x2b, 0x1a] then pcapng_blocks bs LittleEndian 0 [] []
      else if take 4 (drop 8 bs) = [0x1a, 0x2b, 0x3c, 0x4d] then pcapng_blocks bs BigEndian 0 [] []
      else Inl (Fail ''invalid PCAPNG byte-order magic''))"

definition decode_capture :: "bytes \<Rightarrow> captured_packet list cres" where
  "decode_capture bs = (if take 4 bs = [0x0a, 0x0d, 0x0d, 0x0a] then decode_pcapng bs else decode_pcap bs)"

end
