(* ===== verification/Capture_Correct.thy ===== *)
theory Capture_Correct
  imports Capture
begin

text \<open>
  What is written to a capture file is read back from it, and where that fails: malformed IPv4
  lengths, large timestamps of the next-generation format, and captures of raw packets in it.
\<close>

unbundle bit_operations_syntax

subsection \<open>Reading what was written\<close>

lemma length_le_bytes [simp]: "length (le_bytes n w) = n"
  by (simp add: le_bytes_def)

lemma get_range_skip [simp]: "get_range (pre @ xs) (length pre + k) n = get_range xs k n"
  by (simp add: get_range_def)

lemma get_range_here: "length v = n \<Longrightarrow> get_range (v @ rest) 0 n = Some v"
  by (simp add: get_range_def)

lemma read_word_skip [simp]: "read_word n (pre @ xs) (length pre + k) en = read_word n xs k en"
  by (simp add: read_word_def)

lemma read_word_here:
  "LENGTH('a) \<le> 8 * n \<Longrightarrow> read_word n (le_bytes n w @ rest) 0 LittleEndian = Inr (w :: 'a::len word)"
  by (simp add: read_word_def get_range_here le_bytes_def be_word_be_bytes)

lemma read_u32_here: "read_u32 (le_bytes 4 w @ rest) 0 LittleEndian = Inr w"
  unfolding read_u32_def by (rule read_word_here) simp

lemma read_word_after:
  "LENGTH('a) \<le> 8 * n \<Longrightarrow> length xs = k \<Longrightarrow> read_word n (xs @ le_bytes n w @ rest) k LittleEndian = Inr (w :: 'a::len word)"
  by (metis add_0_right read_word_here read_word_skip)

lemma read_u32_after: "length xs = k \<Longrightarrow> read_u32 (xs @ le_bytes 4 w @ rest) k LittleEndian = Inr w"
  unfolding read_u32_def by (rule read_word_after) simp

lemma read_u16_after: "length xs = k \<Longrightarrow> read_u16 (xs @ le_bytes 2 w @ rest) k LittleEndian = Inr w"
  unfolding read_u16_def by (rule read_word_after) simp

lemma read_u32_skip [simp]: "read_u32 (pre @ xs) (length pre + k) en = read_u32 xs k en"
  by (simp add: read_u32_def)

subsection \<open>Flags\<close>

lemma capture_flags_acc: "fold (\<lambda>f bits. bits OR capture_flag f) flags acc = acc OR capture_flags flags"
proof (induction flags arbitrary: acc)
  case (Cons f flags)
  show ?case
    using Cons.IH [of "acc OR capture_flag f"] Cons.IH [of "capture_flag f"] by (simp add: capture_flags_def or.assoc)
qed (simp add: capture_flags_def)

lemma capture_flags_Cons: "capture_flags (f # flags) = capture_flag f OR capture_flags flags"
  using capture_flags_acc [of flags "capture_flag f"] by (simp add: capture_flags_def)

lemma capture_flag_bits:
  "capture_flag f AND 0x01 \<noteq> 0 \<longleftrightarrow> f = ''FIN''" "capture_flag f AND 0x02 \<noteq> 0 \<longleftrightarrow> f = ''SYN''"
  "capture_flag f AND 0x04 \<noteq> 0 \<longleftrightarrow> f = ''RST''" "capture_flag f AND 0x08 \<noteq> 0 \<longleftrightarrow> f = ''PSH''"
  "capture_flag f AND 0x10 \<noteq> 0 \<longleftrightarrow> f = ''ACK''" "capture_flag f AND 0x20 \<noteq> 0 \<longleftrightarrow> f = ''URG''"
  "capture_flag f AND 0x40 \<noteq> 0 \<longleftrightarrow> f = ''ECE''" "capture_flag f AND 0x80 \<noteq> 0 \<longleftrightarrow> f = ''CWR''"
  by (simp_all add: capture_flag_def)

lemma flag_present:
  assumes "(m, name) \<in> set capture_flag_names"
  shows "capture_flags flags AND m \<noteq> 0 \<longleftrightarrow> name \<in> set flags"
proof (induction flags)
  case Nil
  then show ?case by (simp add: capture_flags_def)
next
  case (Cons f flags)
  have "capture_flag f AND m \<noteq> 0 \<longleftrightarrow> f = name"
    using assms unfolding capture_flag_names_def list.set insert_iff empty_iff prod.inject
    by (elim disjE conjE; simp only: capture_flag_bits simp_thms)
  moreover have "(capture_flag f OR capture_flags flags) AND m = (capture_flag f AND m) OR (capture_flags flags AND m)"
    by (simp add: bit.conj_disj_distrib2)
  ultimately show ?case using Cons.IH by (auto simp: capture_flags_Cons or_eq_0_iff)
qed

definition known_flags :: "string list \<Rightarrow> string list" where
  "known_flags flags = filter (\<lambda>n. n \<in> set flags) [''FIN'', ''SYN'', ''RST'', ''PSH'', ''ACK'', ''URG'', ''ECE'', ''CWR'']"

lemma flag_names_capture: "flag_names_of (capture_flags flags) = known_flags flags"
proof -
  have "filter (\<lambda>(mask, name). capture_flags flags AND mask \<noteq> 0) capture_flag_names = filter (\<lambda>(mask, name). name \<in> set flags) capture_flag_names"
    by (rule filter_cong) (use flag_present in auto)
  then have "flag_names_of (capture_flags flags) = map snd (filter (\<lambda>(mask, name). name \<in> set flags) capture_flag_names)"
    by (simp only: flag_names_of_def case_prod_unfold)
  also have "\<dots> = filter (\<lambda>n. n \<in> set flags) (map snd capture_flag_names)" by (simp add: filter_map comp_def case_prod_unfold)
  also have "map snd capture_flag_names = [''FIN'', ''SYN'', ''RST'', ''PSH'', ''ACK'', ''URG'', ''ECE'', ''CWR'']"
    by (simp add: capture_flag_names_def)
  finally show ?thesis by (simp only: known_flags_def)
qed

subsection \<open>One packet\<close>

text \<open>The packet that stands for an event in a capture.\<close>

definition captured_of :: "trace_event \<times> string \<Rightarrow> captured_packet" where
  "captured_of e =
     (let tv = fst e; ev = tv_event tv; source = role_id (ev_role ev); destination = role_id (snd e);
          udp = (tv_network tv = NpUdp); payload = take (if udp then 65507 else 65495) (tv_wire_data tv) in
      \<lparr>cp_timestamp_ns = tv_timestamp_us tv * 1000, cp_source = ipv4_to_string (be_word (role_ip source)),
       cp_destination = ipv4_to_string (be_word (role_ip destination)), cp_source_port = role_port source,
       cp_destination_port = role_port destination, cp_transport = (if udp then ''udp'' else ''tcp''),
       cp_flags = (if udp then [''UDP''] else known_flags (ev_flags ev)),
       cp_sequence = (if udp then None else Some (of_int (unwrap_or 0 (ev_seq_num ev)))),
       cp_acknowledgement = (if udp then None else Some (of_int (unwrap_or 0 (ev_ack_num ev)))),
       cp_payload = payload, cp_frame_length = (if udp then 42 else 54) + length payload\<rparr>)"

lemma length_ethernet [simp]: "length (ethernet_bytes s d t) = 14"
  by (simp add: ethernet_bytes_def)

lemma length_role_ip [simp]: "length (role_ip i) = 4"
  by (simp add: role_ip_def)

lemma ipv4_decodes:
  assumes "length ck = 2" and "n = 20 + length body" and "n < 2 ^ 16"
  shows "capture_ipv4 (ipv4_bytes s d protocol n seq ck @ body) ts fl =
    Inr (capture_transport body protocol ts fl (ipv4_to_string (be_word (role_ip s))) (ipv4_to_string (be_word (role_ip d))))"
proof -
  let ?p = "ipv4_bytes s d protocol n seq ck @ body"
  have len: "length ?p = 20 + length body" using assms(1) by (simp add: ipv4_bytes_def)
  have "hd ?p = 0x45" by (simp add: ipv4_bytes_def)
  moreover have "take 2 (drop 2 ?p) = be_bytes 2 (of_nat n :: u16)" by (simp add: ipv4_bytes_def)
  then have "unat (be_word (take 2 (drop 2 ?p)) :: u16) = n"
    using assms(3) by (simp add: be_word_be_bytes unat_of_nat)
  moreover have "?p ! 9 = protocol" by (simp add: ipv4_bytes_def nth_append)
  moreover have "take 4 (drop 12 ?p) = role_ip s" "take 4 (drop 16 ?p) = role_ip d"
    using assms(1) by (simp_all add: ipv4_bytes_def)
  moreover have "take (n - 20) (drop 20 ?p) = body" using assms(1,2) by (simp add: ipv4_bytes_def)
  ultimately show ?thesis
    using len assms(2) by (simp add: capture_ipv4_def Let_def)
qed

lemma capture_frame_ethernet:
  "length e = 14 \<Longrightarrow> xs \<noteq> [] \<Longrightarrow> drop_bit 4 (hd xs) = (4 :: byte) \<Longrightarrow> capture_frame (e @ xs) 1 ts = capture_ipv4 xs ts (14 + length xs)"
  by (cases xs) (simp_all add: capture_frame_def)

lemma ethernet_ipv4:
  assumes "length ck = 2" and "n = 20 + length body" and "n < 2 ^ 16"
  shows "capture_frame (ethernet_bytes s d t @ ipv4_bytes s d protocol n seq ck @ body) 1 ts =
    Inr (capture_transport body protocol ts (34 + length body) (ipv4_to_string (be_word (role_ip s))) (ipv4_to_string (be_word (role_ip d))))"
proof -
  let ?p = "ipv4_bytes s d protocol n seq ck @ body"
  have "length ?p = 20 + length body" "hd ?p = 0x45" "?p \<noteq> []" using assms(1) by (simp_all add: ipv4_bytes_def)
  then show ?thesis
    using capture_frame_ethernet [of "ethernet_bytes s d t" ?p ts] ipv4_decodes [OF assms] by simp
qed

lemma tcp_decodes:
  assumes "length ck = 2"
  shows "capture_transport (tcp_bytes ev s d ck payload) 6 ts fl src dst =
    Some \<lparr>cp_timestamp_ns = ts, cp_source = src, cp_destination = dst, cp_source_port = role_port s, cp_destination_port = role_port d,
      cp_transport = ''tcp'', cp_flags = known_flags (ev_flags ev), cp_sequence = Some (of_int (unwrap_or 0 (ev_seq_num ev))),
      cp_acknowledgement = Some (of_int (unwrap_or 0 (ev_ack_num ev))), cp_payload = payload, cp_frame_length = fl\<rparr>"
proof -
  let ?t = "tcp_bytes ev s d ck payload"
  have len: "length ?t = 20 + length payload" using assms by (simp add: tcp_bytes_def)
  have "take 2 ?t = be_bytes 2 (role_port s)" "take 2 (drop 2 ?t) = be_bytes 2 (role_port d)"
    "take 4 (drop 4 ?t) = be_bytes 4 (of_int (unwrap_or 0 (ev_seq_num ev)) :: u32)"
    "take 4 (drop 8 ?t) = be_bytes 4 (of_int (unwrap_or 0 (ev_ack_num ev)) :: u32)"
    "take 1 (drop 12 ?t) = [0x50]" "?t ! 13 = capture_flags (ev_flags ev)" "drop 20 ?t = payload"
    using assms by (simp_all add: tcp_bytes_def nth_append)
  then show ?thesis
    using len by (simp add: capture_transport_def get_range_def be_word_be_bytes flag_names_capture Let_def)
qed

lemma udp_decodes:
  "capture_transport (be_bytes 2 (role_port s) @ be_bytes 2 (role_port d) @ be_bytes 2 (l :: u16) @ be_bytes 2 (0 :: u16) @ payload) 17 ts fl src dst =
    Some \<lparr>cp_timestamp_ns = ts, cp_source = src, cp_destination = dst, cp_source_port = role_port s, cp_destination_port = role_port d,
      cp_transport = ''udp'', cp_flags = [''UDP''], cp_sequence = None, cp_acknowledgement = None, cp_payload = payload, cp_frame_length = fl\<rparr>"
proof -
  let ?t = "be_bytes 2 (role_port s) @ be_bytes 2 (role_port d) @ be_bytes 2 l @ be_bytes 2 (0 :: u16) @ payload"
  have "take 2 ?t = be_bytes 2 (role_port s)" "take 2 (drop 2 ?t) = be_bytes 2 (role_port d)" "drop 8 ?t = payload" "length ?t = 8 + length payload"
    by simp_all
  then show ?thesis by (simp add: capture_transport_def get_range_def be_word_be_bytes)
qed

lemma packet_decodes:
  assumes "tv_network tv \<noteq> NpRaw"
  shows "capture_frame (capture_packet tv peer 1) 1 (tv_timestamp_us tv * 1000) = Inr (Some (captured_of (tv, peer)))"
    and "length (capture_packet tv peer 1) < 2 ^ 16 + 14"
proof -
  let ?n = "tv_network tv"
  have "capture_frame (capture_packet tv peer 1) 1 (tv_timestamp_us tv * 1000) = Inr (Some (captured_of (tv, peer))) \<and>
      length (capture_packet tv peer 1) < 2 ^ 16 + 14"
  proof (cases "?n = NpUdp")
    case True
    let ?payload = "take 65507 (tv_wire_data tv)"
    let ?s = "role_id (ev_role (tv_event tv))" and ?d = "role_id peer"
    let ?body = "be_bytes 2 (role_port ?s) @ be_bytes 2 (role_port ?d) @ be_bytes 2 (of_nat (8 + length ?payload) :: u16) @ be_bytes 2 (0 :: u16) @ ?payload"
    have p: "capture_packet tv peer 1 = ethernet_bytes ?s ?d 0x0800 @ ipv4_checked ?s ?d 17 (20 + 8 + length ?payload) (tv_seq tv) @ ?body"
      using True by (simp add: capture_packet_def udp_packet_def Let_def)
    show ?thesis
      unfolding p ipv4_checked_def
      by (subst ethernet_ipv4; (subst udp_decodes)?) (auto simp: captured_of_def Let_def True ipv4_bytes_def)
  next
    case False
    let ?payload = "take 65495 (tv_wire_data tv)"
    let ?s = "role_id (ev_role (tv_event tv))" and ?d = "role_id peer"
    obtain ck where p: "capture_packet tv peer 1 = ethernet_bytes ?s ?d 0x0800 @ ipv4_checked ?s ?d 6 (20 + 20 + length ?payload) (tv_seq tv) @
        tcp_bytes (tv_event tv) ?s ?d ck ?payload" and ck: "length ck = 2"
      using False assms by (cases ?n) (simp_all add: capture_packet_def tcp_packet_def Let_def)
    show ?thesis
      unfolding p ipv4_checked_def
      by (subst ethernet_ipv4; (subst tcp_decodes)?) (auto simp: captured_of_def Let_def False ipv4_bytes_def tcp_bytes_def ck)
  qed
  then show "capture_frame (capture_packet tv peer 1) 1 (tv_timestamp_us tv * 1000) = Inr (Some (captured_of (tv, peer)))"
    and "length (capture_packet tv peer 1) < 2 ^ 16 + 14" by blast+
qed

subsection \<open>A whole file\<close>

lemma link_type_plain:
  "\<forall>e \<in> set (captured_events trace). tv_network (fst e) \<noteq> NpRaw \<Longrightarrow> capture_link_type trace = 1"
proof -
  assume plain: "\<forall>e \<in> set (captured_events trace). tv_network (fst e) \<noteq> NpRaw"
  have "(tv, p) \<in> set (captured_events trace)" if "tv \<in> set trace" "is_outbound (ev_action (tv_event tv))" "ev_peer (tv_event tv) = Some p" for tv p
    using that by (force simp: captured_events_def map_filter_def)
  with plain have "tv_network tv \<noteq> NpRaw" if "tv \<in> set trace" "is_outbound (ev_action (tv_event tv))" "ev_peer (tv_event tv) \<noteq> None" for tv
    using that by fastforce
  then show ?thesis
    unfolding capture_link_type_def Let_def by (auto simp: list_all_iff filter_empty_conv simp del: is_outbound.simps)
qed

lemma unat_u32: "n < 2 ^ 32 \<Longrightarrow> unat (of_nat n :: u32) = n"
  by (simp add: unat_of_nat)

lemma pcap_timestamp:
  assumes "t < 1000000 * 2 ^ 32"
  shows "u64_sat (u64_sat (unat (of_nat (t div 1000000) :: u32) * 1000000000) + u64_sat (unat (of_nat (t mod 1000000) :: u32) * 1000)) = t * 1000"
proof -
  have "t div 1000000 < 2 ^ 32" using assms by (simp add: less_mult_imp_div_less mult.commute)
  moreover have "t mod 1000000 < 1000000" by simp
  moreover have "t div 1000000 * 1000000000 + t mod 1000000 * 1000 = t * 1000" using div_mult_mod_eq [of t 1000000] by linarith
  ultimately show ?thesis using assms by (simp add: unat_u32 u64_sat_def min_def)
qed

text \<open>One record, over the values the reader finds in it.\<close>

lemma pcap_record_step:
  assumes "offset + 16 \<le> length bs" and "read_u32 bs offset en = Inr seconds" and "read_u32 bs (offset + 4) en = Inr fraction"
    and "read_u32 bs (offset + 8) en = Inr captured" and "get_range bs (offset + 16) (unat captured) = Some frame"
    and "u64_sat (u64_sat (unat seconds * 1000000000) + u64_sat (unat fraction * 1000)) = ts" and "capture_frame frame lt ts = Inr (Some p)"
  shows "pcap_records bs en False lt offset ps = pcap_records bs en False lt (offset + 16 + unat captured) (ps @ [p])"
proof -
  have "\<not> offset \<ge> length bs" "\<not> length bs - offset < 16" using assms(1) by linarith+
  then show ?thesis using assms by (subst pcap_records.simps) (simp add: push_some_def)
qed

lemma pcap_records_written:
  assumes "\<forall>e \<in> set es. tv_network (fst e) \<noteq> NpRaw \<and> tv_timestamp_us (fst e) < 1000000 * 2 ^ 32"
  shows "pcap_records (pre @ concat (map (pcap_record 1) es)) LittleEndian False 1 (length pre) ps = Inr (ps @ map captured_of es)"
  using assms
proof (induction es arbitrary: pre ps)
  case Nil
  then show ?case by (simp add: pcap_records.simps)
next
  case (Cons e es)
  let ?packet = "capture_packet (fst e) (snd e) 1" and ?t = "tv_timestamp_us (fst e)"
  let ?a = "le_bytes 4 (of_nat (?t div 1000000) :: u32)" and ?b = "le_bytes 4 (of_nat (?t mod 1000000) :: u32)"
    and ?n = "of_nat (length ?packet) :: u32"
  let ?bs = "pre @ pcap_record 1 e @ concat (map (pcap_record 1) es)"
  have dec: "capture_frame ?packet 1 (?t * 1000) = Inr (Some (captured_of e))" "unat ?n = length ?packet"
    using packet_decodes [of "fst e" "snd e"] Cons.prems by (auto simp: unat_u32)
  have rec: "pcap_record 1 e = ?a @ ?b @ le_bytes 4 ?n @ le_bytes 4 ?n @ ?packet"
    by (simp add: pcap_record_def Let_def)
  have "pcap_records ?bs LittleEndian False 1 (length pre) ps =
      pcap_records ?bs LittleEndian False 1 (length pre + 16 + unat ?n) (ps @ [captured_of e])"
  proof (rule pcap_record_step)
    show "read_u32 ?bs (length pre) LittleEndian = Inr (of_nat (?t div 1000000))"
      unfolding rec using read_u32_after [of pre "length pre"] by simp
    show "read_u32 ?bs (length pre + 4) LittleEndian = Inr (of_nat (?t mod 1000000))"
      unfolding rec using read_u32_after [of "pre @ ?a" "length pre + 4"] by simp
    show "read_u32 ?bs (length pre + 8) LittleEndian = Inr ?n"
      unfolding rec using read_u32_after [of "pre @ ?a @ ?b" "length pre + 8"] by simp
    show "get_range ?bs (length pre + 16) (unat ?n) = Some ?packet"
      unfolding rec dec(2) by (simp add: get_range_def)
    show "u64_sat (u64_sat (unat (of_nat (?t div 1000000) :: u32) * 1000000000) + u64_sat (unat (of_nat (?t mod 1000000) :: u32) * 1000)) = ?t * 1000"
      using Cons.prems by (intro pcap_timestamp) simp
  qed (simp_all add: rec dec(1))
  also have "\<dots> = Inr (ps @ captured_of e # map captured_of es)"
    using Cons.IH [of "pre @ pcap_record 1 e" "ps @ [captured_of e]"] Cons.prems by (simp add: rec dec(2) add.assoc)
  finally show ?case by simp
qed


lemma magic_bytes:
  "le_bytes 4 (0xa1b2c3d4 :: u32) = [0xd4, 0xc3, 0xb2, 0xa1]" "le_bytes 4 (0x0a0d0d0a :: u32) = [0x0a, 0x0d, 0x0d, 0x0a]"
  "le_bytes 4 (0x1a2b3c4d :: u32) = [0x4d, 0x3c, 0x2b, 0x1a]"
  by code_simp+

lemma trace_pcap_reads:
  assumes "\<forall>e \<in> set (captured_events trace). tv_network (fst e) \<noteq> NpRaw \<and> tv_timestamp_us (fst e) < 1000000 * 2 ^ 32"
  shows "decode_capture (trace_pcap trace) = Inr (map captured_of (captured_events trace))"
proof -
  let ?head = "le_bytes 4 (0xa1b2c3d4 :: u32) @ le_bytes 2 (2 :: u16) @ le_bytes 2 (4 :: u16) @ le_bytes 4 (0 :: u32) @ le_bytes 4 (0 :: u32) @
      le_bytes 4 (65535 :: u32)"
  let ?rest = "concat (map (pcap_record 1) (captured_events trace))"
  have lt: "capture_link_type trace = 1" using assms by (intro link_type_plain) blast
  have bytes_eq: "trace_pcap trace = (?head @ le_bytes 4 (1 :: u32)) @ ?rest" by (simp add: trace_pcap_def lt Let_def)
  have m: "take 4 (trace_pcap trace) = [0xd4, 0xc3, 0xb2, 0xa1]"
    unfolding trace_pcap_def Let_def magic_bytes by simp
  have "read_u32 (trace_pcap trace) 20 LittleEndian = Inr 1"
    unfolding bytes_eq using read_u32_after [of ?head 20 1 ?rest] by simp
  moreover have "pcap_records (trace_pcap trace) LittleEndian False 1 24 [] = Inr (map captured_of (captured_events trace))"
    using pcap_records_written [OF assms, of "?head @ le_bytes 4 (1 :: u32)" "[]"] unfolding bytes_eq by simp
  moreover have "\<not> length (trace_pcap trace) < 24" unfolding bytes_eq by simp
  ultimately show ?thesis by (simp add: decode_capture_def decode_pcap_def m pcap_magic_def)
qed

subsection \<open>The next-generation format\<close>

text \<open>One enhanced packet block, over the values the reader finds in it.\<close>

lemma pcapng_packet_step:
  assumes "offset + len \<le> length bs" and "len \<ge> 32" and "len mod 4 = 0" and "read_u32 bs offset en = Inr 6"
    and "read_u32 bs (offset + 4) en = Inr l" and "unat l = len" and "read_u32 bs (offset + len - 4) en = Inr l"
    and "read_u32 bs (offset + 8) en = Inr 0" and "read_u32 bs (offset + 12) en = Inr high" and "read_u32 bs (offset + 16) en = Inr low"
    and "read_u32 bs (offset + 20) en = Inr captured" and "get_range bs (offset + 28) (unat captured) = Some frame"
    and "u64_sat ((unat high * 2 ^ 32 + unat low) * 1000000000) div max units 1 = ts" and "capture_frame frame lt ts = Inr (Some p)"
  shows "pcapng_blocks bs en offset ((lt, units) # ifs) ps = pcapng_blocks bs en (offset + len) ((lt, units) # ifs) (ps @ [p])"
proof -
  have "\<not> offset \<ge> length bs" "\<not> length bs - offset < 12" "\<not> (len < 12 \<or> len mod 4 \<noteq> 0 \<or> offset + len > length bs)"
    using assms(1-3) by linarith+
  moreover have "pcapng_body bs en offset len 6 ((lt, units) # ifs) ps = Inr ((lt, units) # ifs, ps @ [p])"
    unfolding pcapng_body_def
    by (simp only: assms rbind.simps unsigned_0 list.size nth_Cons_0 zero_less_Suc if_True add_Suc_right option.case prod.case push_some_def) (use assms(2) in simp)
  ultimately show ?thesis
    by (subst pcapng_blocks.simps) (simp only: assms if_False if_True rbind.simps refl not_False_eq_True prod.case simp_thms)
qed

lemma u64_sat_id: "n < 2 ^ 64 \<Longrightarrow> u64_sat n = n"
  by (simp add: u64_sat_def)

lemma split_u32: "t < 2 ^ 64 \<Longrightarrow> unat (of_nat (t div 2 ^ 32) :: u32) * 2 ^ 32 + unat (of_nat t :: u32) = t"
  by (simp add: unat_of_nat div_mult_mod_eq less_mult_imp_div_less)

lemma pcapng_blocks_written:
  assumes "\<forall>e \<in> set es. tv_network (fst e) \<noteq> NpRaw \<and> tv_timestamp_us (fst e) * 1000000000 < 2 ^ 64"
  shows "pcapng_blocks (pre @ concat (map (pcapng_block 1) es)) LittleEndian (length pre) [(1, 1000000)] ps = Inr (ps @ map captured_of es)"
  using assms
proof (induction es arbitrary: pre ps)
  case Nil
  then show ?case by (simp add: pcapng_blocks.simps)
next
  case (Cons e es)
  let ?packet = "capture_packet (fst e) (snd e) 1" and ?t = "tv_timestamp_us (fst e)"
  let ?padded = "(length ?packet + 3) div 4 * 4"
  let ?six = "le_bytes 4 (6 :: u32)" and ?zero = "le_bytes 4 (0 :: u32)" and ?l = "of_nat (32 + ?padded) :: u32"
    and ?h = "of_nat (?t div 2 ^ 32) :: u32" and ?low = "of_nat ?t :: u32" and ?n = "of_nat (length ?packet) :: u32"
  let ?bs = "pre @ pcapng_block 1 e @ concat (map (pcapng_block 1) es)"
  have small: "length ?packet < 2 ^ 16 + 14" and dec: "capture_frame ?packet 1 (?t * 1000) = Inr (Some (captured_of e))"
    using packet_decodes [of "fst e" "snd e"] Cons.prems by auto
  have n: "unat ?n = length ?packet" using small by (simp add: unat_u32)
  have l: "unat ?l = 32 + ?padded" using small by (intro unat_u32) simp
  have padded: "?padded \<ge> length ?packet" by presburger
  have rec: "pcapng_block 1 e = ?six @ le_bytes 4 ?l @ ?zero @ le_bytes 4 ?h @ le_bytes 4 ?low @ le_bytes 4 ?n @ le_bytes 4 ?n @ ?packet @
      replicate (?padded - length ?packet) 0 @ le_bytes 4 ?l"
    by (simp only: pcapng_block_def Let_def)
  have len: "length (pcapng_block 1 e) = 32 + ?padded" unfolding rec using padded by simp
  have "pcapng_blocks ?bs LittleEndian (length pre) [(1, 1000000)] ps =
      pcapng_blocks ?bs LittleEndian (length pre + (32 + ?padded)) [(1, 1000000)] (ps @ [captured_of e])"
  proof (rule pcapng_packet_step)
    show "read_u32 ?bs (length pre) LittleEndian = Inr 6"
      unfolding rec using read_u32_after [of pre "length pre" 6] by simp
    show "read_u32 ?bs (length pre + 4) LittleEndian = Inr ?l"
      unfolding rec using read_u32_after [of "pre @ ?six" "length pre + 4" ?l] by simp
    show "read_u32 ?bs (length pre + 8) LittleEndian = Inr 0"
      unfolding rec using read_u32_after [of "pre @ ?six @ le_bytes 4 ?l" "length pre + 8" 0] by simp
    show "read_u32 ?bs (length pre + 12) LittleEndian = Inr ?h"
      unfolding rec using read_u32_after [of "pre @ ?six @ le_bytes 4 ?l @ ?zero" "length pre + 12" ?h] by simp
    show "read_u32 ?bs (length pre + 16) LittleEndian = Inr ?low"
      unfolding rec using read_u32_after [of "pre @ ?six @ le_bytes 4 ?l @ ?zero @ le_bytes 4 ?h" "length pre + 16" ?low] by simp
    show "read_u32 ?bs (length pre + 20) LittleEndian = Inr ?n"
      unfolding rec using read_u32_after [of "pre @ ?six @ le_bytes 4 ?l @ ?zero @ le_bytes 4 ?h @ le_bytes 4 ?low" "length pre + 20" ?n] by simp
    show "get_range ?bs (length pre + 28) (unat ?n) = Some ?packet"
      unfolding rec n by (simp add: get_range_def)
    show "read_u32 ?bs (length pre + (32 + ?padded) - 4) LittleEndian = Inr ?l"
      unfolding rec
      using padded read_u32_after [of "pre @ ?six @ le_bytes 4 ?l @ ?zero @ le_bytes 4 ?h @ le_bytes 4 ?low @ le_bytes 4 ?n @ le_bytes 4 ?n @ ?packet @
        replicate (?padded - length ?packet) 0" "length pre + (32 + ?padded) - 4" ?l] by simp
    have "?t * 1000000000 < 2 ^ 64" using Cons.prems by simp
    then have "unat ?h * 2 ^ 32 + unat ?low = ?t" by (intro split_u32) simp
    then show "u64_sat ((unat ?h * 2 ^ 32 + unat ?low) * 1000000000) div max 1000000 1 = ?t * 1000"
      using \<open>?t * 1000000000 < 2 ^ 64\<close> by (simp only: u64_sat_id)
    show "unat ?l = 32 + ?padded" by (rule l)
  qed (simp_all add: len dec)
  also have "\<dots> = Inr (ps @ captured_of e # map captured_of es)"
    using Cons.IH [of "pre @ pcapng_block 1 e" "ps @ [captured_of e]"] Cons.prems by (simp add: len)
  finally show ?case by simp
qed

text \<open>The section header and the interface description are blocks of their own.\<close>

lemma pcapng_quiet_step:
  assumes "offset + len \<le> length bs" and "len \<ge> 12" and "len mod 4 = 0" and "read_u32 bs offset en = Inr t"
    and "read_u32 bs (offset + 4) en = Inr l" and "unat l = len" and "read_u32 bs (offset + len - 4) en = Inr l"
    and "pcapng_body bs en offset len t ifs ps = Inr (ifs', ps')"
  shows "pcapng_blocks bs en offset ifs ps = pcapng_blocks bs en (offset + len) ifs' ps'"
proof -
  have "\<not> offset \<ge> length bs" "\<not> length bs - offset < 12" "\<not> (len < 12 \<or> len mod 4 \<noteq> 0 \<or> offset + len > length bs)"
    using assms(1-3) by linarith+
  then show ?thesis
    by (subst pcapng_blocks.simps) (simp only: assms if_False if_True rbind.simps refl not_False_eq_True prod.case simp_thms)
qed

lemma trace_pcapng_reads:
  assumes "\<forall>e \<in> set (captured_events trace). tv_network (fst e) \<noteq> NpRaw \<and> tv_timestamp_us (fst e) * 1000000000 < 2 ^ 64"
  shows "decode_capture (trace_pcapng trace) = Inr (map captured_of (captured_events trace))"
proof -
  let ?head = "pcapng_head 1" and ?if = pcapng_interface and ?rest = "concat (map (pcapng_block 1) (captured_events trace))"
  let ?bs = "trace_pcapng trace"
  have lt: "capture_link_type trace = 1" using assms by (intro link_type_plain) blast
  have bs: "?bs = ?head @ ?if @ ?rest" by (simp add: trace_pcapng_def lt Let_def)
  have len: "length ?head = 28" "length ?if = 20" by (simp_all add: pcapng_head_def pcapng_interface_def)
  have "pcapng_blocks ?bs LittleEndian 0 [] [] = pcapng_blocks ?bs LittleEndian (0 + 28) [] []"
  proof (rule pcapng_quiet_step)
    show "read_u32 ?bs 0 LittleEndian = Inr 0x0a0d0d0a"
      unfolding bs pcapng_head_def using read_u32_after [of "[]" 0] by simp
    show "read_u32 ?bs (0 + 4) LittleEndian = Inr 28"
      unfolding bs pcapng_head_def using read_u32_after [of "le_bytes 4 (0x0a0d0d0a :: u32)" 4] by simp
    show "read_u32 ?bs (0 + 28 - 4) LittleEndian = Inr 28"
      unfolding bs pcapng_head_def using read_u32_after [of "le_bytes 4 (0x0a0d0d0a :: u32) @ le_bytes 4 (28 :: u32) @ le_bytes 4 (0x1a2b3c4d :: u32) @
        le_bytes 2 (1 :: u16) @ le_bytes 2 (0 :: u16) @ le_bytes 8 (- 1 :: u64)" 24 28] by simp
  qed (simp_all add: bs len pcapng_body_def)
  also have "\<dots> = pcapng_blocks ?bs LittleEndian (28 + 20) [(1, 1000000)] []"
    unfolding add_0
  proof (rule pcapng_quiet_step)
    show "read_u32 ?bs 28 LittleEndian = Inr 1"
      unfolding bs pcapng_interface_def using len(1) read_u32_after [of ?head 28] by simp
    show "read_u32 ?bs (28 + 4) LittleEndian = Inr 20"
      unfolding bs pcapng_interface_def using len(1) read_u32_after [of "?head @ le_bytes 4 (1 :: u32)" 32] by simp
    show "read_u32 ?bs (28 + 20 - 4) LittleEndian = Inr 20"
      unfolding bs pcapng_interface_def
      using len(1) read_u32_after [of "?head @ le_bytes 4 (1 :: u32) @ le_bytes 4 (20 :: u32) @ le_bytes 2 (1 :: u16) @ le_bytes 2 (0 :: u16) @
        le_bytes 4 (65535 :: u32)" 44 20] by simp
    have "read_u16 ?bs 36 LittleEndian = Inr 1"
      unfolding bs pcapng_interface_def
      using len(1) read_u16_after [of "?head @ le_bytes 4 (1 :: u32) @ le_bytes 4 (20 :: u32)" 36 1] by simp
    then show "pcapng_body ?bs LittleEndian 28 20 1 [] [] = Inr ([(1, 1000000)], [])"
      by (simp add: pcapng_body_def interface_resolution.simps)
  qed (simp_all add: bs len)
  also have "\<dots> = Inr (map captured_of (captured_events trace))"
    using pcapng_blocks_written [OF assms, of "?head @ ?if" "[]"] by (simp add: len bs)
  finally have "pcapng_blocks ?bs LittleEndian 0 [] [] = Inr (map captured_of (captured_events trace))" .
  moreover have "take 4 ?bs = [0x0a, 0x0d, 0x0d, 0x0a]" "take 4 (drop 8 ?bs) = [0x4d, 0x3c, 0x2b, 0x1a]" "\<not> length ?bs < 28"
    unfolding bs pcapng_head_def magic_bytes by simp_all
  ultimately show ?thesis by (simp add: decode_capture_def decode_pcapng_def)
qed

text \<open>
  C17: A capture holds what was sent. Reading back the PCAP file, or the PCAPNG file, that is written for a
  trace gives one packet for each outbound event with a peer, in order, with the addresses and ports of the
  two roles, the flags, sequence and acknowledgement numbers, the payload (cut to what an IPv4 packet can
  hold) and the time. It holds for traces without raw packets whose times (in microseconds) times ten to
  the ninth fit 64 bits.
\<close>

theorem capture_roundtrip:
  assumes "\<forall>e \<in> set (captured_events trace). tv_network (fst e) \<noteq> NpRaw \<and> tv_timestamp_us (fst e) * 1000000000 < 2 ^ 64"
  shows "decode_capture (trace_pcap trace) = Inr (map captured_of (captured_events trace)) \<and>
    decode_capture (trace_pcapng trace) = Inr (map captured_of (captured_events trace))"
proof (rule conjI)
  show "decode_capture (trace_pcap trace) = Inr (map captured_of (captured_events trace))"
    by (rule trace_pcap_reads) (use assms in fastforce)
  show "decode_capture (trace_pcapng trace) = Inr (map captured_of (captured_events trace))"
    by (rule trace_pcapng_reads [OF assms])
qed

definition capture_sample :: "trace_event list" where
  "capture_sample =
     [\<lparr>tv_seq = 1, tv_event = (plain_event ''client'' ''syn'' ASend True (DText []))\<lparr>ev_flags := [''SYN''], ev_seq_num := Some 7, ev_peer := Some ''server''\<rparr>,
       tv_requirements = [], tv_wire_data = [], tv_timestamp_us = 5, tv_timestamp_ns = 5000, tv_network = NpTcp\<rparr>,
      \<lparr>tv_seq = 2, tv_event = plain_event ''server'' ''wait'' ARecv True (DText []), tv_requirements = [], tv_wire_data = [],
       tv_timestamp_us = 6, tv_timestamp_ns = 6000, tv_network = NpTcp\<rparr>,
      \<lparr>tv_seq = 3, tv_event = (plain_event ''server'' ''say'' ASend True (DText []))\<lparr>ev_peer := Some ''client''\<rparr>,
       tv_requirements = [], tv_wire_data = [104, 105], tv_timestamp_us = 9, tv_timestamp_ns = 9000, tv_network = NpUdp\<rparr>]"

theorem capture_roundtrip_witness:
  "length (captured_events capture_sample) = 2 \<and>
   decode_capture (trace_pcap capture_sample) = Inr (map captured_of (captured_events capture_sample)) \<and>
   map cp_payload (map captured_of (captured_events capture_sample)) = [[], [104, 105]]"
proof -
  have es: "captured_events capture_sample = [(capture_sample ! 0, ''server''), (capture_sample ! 2, ''client'')]"
    by (simp add: capture_sample_def captured_events_def map_filter_def plain_event_def)
  show ?thesis
    using capture_roundtrip [of capture_sample] unfolding es
    by (simp add: capture_sample_def captured_of_def Let_def)
qed

subsection \<open>Where reading fails\<close>

text \<open>A PCAP file of one Ethernet frame, written at time zero.\<close>

definition one_frame :: "bytes \<Rightarrow> bytes" where
  "one_frame frame =
     le_bytes 4 (0xa1b2c3d4 :: u32) @ le_bytes 2 (2 :: u16) @ le_bytes 2 (4 :: u16) @ le_bytes 4 (0 :: u32) @ le_bytes 4 (0 :: u32) @
     le_bytes 4 (65535 :: u32) @ le_bytes 4 (1 :: u32) @ le_bytes 4 (0 :: u32) @ le_bytes 4 (0 :: u32) @
     le_bytes 4 (of_nat (length frame) :: u32) @ le_bytes 4 (of_nat (length frame) :: u32) @ frame"

lemma one_frame_error:
  assumes "capture_frame frame 1 0 = Inl e" and "length frame < 2 ^ 32"
  shows "decode_capture (one_frame frame) = Inl e"
proof -
  let ?m = "le_bytes 4 (0xa1b2c3d4 :: u32) @ le_bytes 2 (2 :: u16) @ le_bytes 2 (4 :: u16) @ le_bytes 4 (0 :: u32) @ le_bytes 4 (0 :: u32) @
     le_bytes 4 (65535 :: u32)"
  let ?n = "of_nat (length frame) :: u32" and ?z = "le_bytes 4 (0 :: u32)" and ?bs = "one_frame frame"
  have n: "unat ?n = length frame" using assms(2) by (rule unat_u32)
  have r: "read_u32 ?bs 20 LittleEndian = Inr 1" "read_u32 ?bs 24 LittleEndian = Inr 0" "read_u32 ?bs (24 + 4) LittleEndian = Inr 0"
    "read_u32 ?bs (24 + 8) LittleEndian = Inr ?n"
    unfolding one_frame_def
    using read_u32_after [of ?m 20 1] read_u32_after [of "?m @ le_bytes 4 (1 :: u32)" 24 0] read_u32_after [of "?m @ le_bytes 4 (1 :: u32) @ ?z" 28 0]
      read_u32_after [of "?m @ le_bytes 4 (1 :: u32) @ ?z @ ?z" 32 ?n] by simp_all
  have f: "get_range ?bs (24 + 16) (length frame) = Some frame" by (simp add: one_frame_def get_range_def)
  have len: "\<not> length ?bs \<le> 24" "\<not> length ?bs - 24 < 16" "\<not> length ?bs < 24" by (simp_all add: one_frame_def)
  have "pcap_records ?bs LittleEndian False 1 24 [] = Inl e"
    by (subst pcap_records.simps) (simp only: r f n len if_False rbind.simps option.case, simp add: u64_sat_def assms(1))
  moreover have "take 4 ?bs = [0xd4, 0xc3, 0xb2, 0xa1]" unfolding one_frame_def magic_bytes by simp
  ultimately show ?thesis using len r(1) by (simp add: decode_capture_def decode_pcap_def pcap_magic_def)
qed

text \<open>
  C37: A malformed capture stops the program. Importing a PCAP file with one Ethernet frame panics when
  the frame holds an IPv4 header whose total length is below its header length: the reader slices the
  packet from the end of the header to the total length without comparing the two.
\<close>

theorem short_ipv4_length_panics:
  assumes "length e = 14" and "length ip < 65536" and "ip \<noteq> []" and "drop_bit 4 (hd ip) = (4 :: byte)"
    and "unat (hd ip AND 0x0f) \<ge> 5" and "unat (hd ip AND 0x0f) * 4 \<le> length ip"
    and "unat (be_word (take 2 (drop 2 ip)) :: u16) < unat (hd ip AND 0x0f) * 4"
  shows "decode_capture (one_frame (e @ ip)) = Inl Panic"
proof (rule one_frame_error)
  have "capture_ipv4 ip 0 (14 + length ip) = Inl Panic"
    using assms(5-7) by (auto simp: capture_ipv4_def Let_def)
  then show "capture_frame (e @ ip) 1 0 = Inl Panic" using capture_frame_ethernet [OF assms(1,3,4)] by simp
  show "length (e @ ip) < 2 ^ 32" using assms(1,2) by simp
qed

theorem short_ipv4_length_panics_witness:
  "decode_capture (one_frame (replicate 14 0 @ [0x45, 0, 0, 19] @ replicate 16 0)) = Inl Panic"
proof (rule short_ipv4_length_panics)
  show "unat (be_word (take 2 (drop 2 ([0x45, 0, 0, 19] @ replicate 16 0))) :: u16) < unat (hd ([0x45, 0, 0, 19] @ replicate 16 0) AND 0x0f :: byte) * 4"
    by code_simp
qed simp_all

end
