(* ===== verification/Fuzz.thy ===== *)
theory Fuzz
  imports Engine_State
begin

text \<open>
  The fuzzing campaign of \<open>src/src/native_fuzz.rs\<close>: the generator of pseudo-random numbers, the
  mutation of the sends of one role, delta debugging of a failing input, and the campaign loop with
  its corpus and findings. The target is a parameter, a function of its own state and a protocol that
  gives an observation; the digest of the crate sha2 is a parameter too.
\<close>

unbundle bit_operations_syntax

subsection \<open>The generator\<close>

definition rng_next :: "u64 \<Rightarrow> u64" where
  "rng_next r =
     (let a = r XOR push_bit 13 r; b = a XOR drop_bit 7 a in b XOR push_bit 17 b)"

text \<open>Each draw gives the value and the state after it.\<close>

definition rng_usize :: "nat \<Rightarrow> u64 \<Rightarrow> nat \<times> u64" where
  "rng_usize upper r = (if upper = 0 then (0, r) else (unat (rng_next r) mod upper, rng_next r))"

definition rng_byte :: "u64 \<Rightarrow> byte \<times> u64" where
  "rng_byte r = (ucast (rng_next r), rng_next r)"

subsection \<open>Configuration, observations and reports\<close>

record fuzz_config =
  fc_iterations :: nat
  fc_seed :: u64
  fc_max_input_bytes :: nat
  fc_stop_on_crash :: bool

definition default_fuzz_config :: fuzz_config where
  "default_fuzz_config = \<lparr>fc_iterations = 1000, fc_seed = 1, fc_max_input_bytes = 2 ^ 20, fc_stop_on_crash = False\<rparr>"

datatype fuzz_outcome = FuzzOk | FuzzRejected | FuzzHang | FuzzCrash

text \<open>The set of code-coverage identifiers is a sorted list without repetitions.\<close>

record fuzz_observation =
  fo_outcome :: fuzz_outcome
  fo_trace :: "trace_event list"
  fo_detail :: "string option"
  fo_code_coverage :: "string list"

record mutation =
  mu_operator :: string
  mu_step :: string
  mu_offset :: "nat option"
  mu_before_hex :: string
  mu_after_hex :: string

record corpus_entry =
  co_iteration :: nat
  co_signature :: string
  co_reason :: string
  co_mutations :: "mutation list"

record fuzz_finding =
  ff_iteration :: nat
  ff_outcome :: fuzz_outcome
  ff_signature :: string
  ff_detail :: "string option"
  ff_mutations :: "mutation list"
  ff_minimized_hex :: "string option"

record fuzz_report =
  fr_protocol :: string
  fr_role :: string
  fr_seed :: u64
  fr_iterations :: nat
  fr_executions :: nat
  fr_state_coverage :: nat
  fr_code_coverage :: nat
  fr_corpus :: "corpus_entry list"
  fr_findings :: "fuzz_finding list"

subsection \<open>Which steps are mutated, and how\<close>

definition fuzzable :: "string \<Rightarrow> step_spec \<Rightarrow> bool" where
  "fuzzable role s \<longleftrightarrow>
     st_role s = role \<and> st_action s \<in> {ASend, ASendRaw} \<and>
     (case st_segment s of None \<Rightarrow> False | Some g \<Rightarrow> sg_payload g \<noteq> None \<or> sg_hex g \<noteq> None)"

definition fuzzable_steps :: "protocol \<Rightarrow> string \<Rightarrow> (string, nat list) res" where
  "fuzzable_steps p role =
     (if \<not> list_ex (\<lambda>s. st_role s = role) (pr_steps p)
      then Inl (Fail (''protocol `'' @ pr_name p @ ''` has no role `'' @ role @ ''`''))
      else
        let indexes = filter (\<lambda>i. fuzzable role (pr_steps p ! i)) [0..<length (pr_steps p)] in
        if indexes = [] then Inl (Fail (''protocol `'' @ pr_name p @ ''` has no fuzzable sends for role `'' @ role @ ''`''))
        else Inr indexes)"

definition segment_bytes :: "segment \<Rightarrow> string \<Rightarrow> (string, bytes) res" where
  "segment_bytes g step =
     (case sg_hex g of
        Some h \<Rightarrow>
          if str_contains h ''${'' then Inl (Fail (''step `'' @ step @ ''` contains interpolated hex''))
          else map_err (\<lambda>e. ''step `'' @ step @ ''`: '' @ e) (parse_hex h)
      | None \<Rightarrow>
          (case sg_payload g of
             Some payload \<Rightarrow>
               if str_contains payload ''${'' then Inl (Fail (''step `'' @ step @ ''` contains interpolated payload''))
               else Inr (bytes_of payload)
           | None \<Rightarrow> Inr []))"

definition set_segment_bytes :: "bytes \<Rightarrow> segment \<Rightarrow> segment" where
  "set_segment_bytes bs g = g\<lparr>sg_payload := None, sg_hex := Some (bytes_to_hex bs), sg_payload_len := Some (int (length bs))\<rparr>"

text \<open>The bytes of the step at an index; an index or a segment that is not there panics.\<close>

definition step_bytes :: "protocol \<Rightarrow> nat \<Rightarrow> (string, bytes) res" where
  "step_bytes p i =
     (if i \<ge> length (pr_steps p) then Inl Panic
      else case st_segment (pr_steps p ! i) of
        None \<Rightarrow> Inl Panic
      | Some g \<Rightarrow> segment_bytes g (st_name (pr_steps p ! i)))"

definition set_step_bytes :: "nat \<Rightarrow> bytes \<Rightarrow> protocol \<Rightarrow> protocol" where
  "set_step_bytes i bs p =
     p\<lparr>pr_steps := (pr_steps p)[i := (pr_steps p ! i)\<lparr>st_segment := map_option (set_segment_bytes bs) (st_segment (pr_steps p ! i))\<rparr>]\<rparr>"

definition boundary_bytes :: "byte list" where
  "boundary_bytes = [0, 1, 0x7f, 0x80, 0xfe, 0xff]"

text \<open>One mutation of a byte string: the operator, the offset, the new bytes and whether the step is repeated.\<close>

definition mutate_bytes ::
  "bytes option \<Rightarrow> nat \<Rightarrow> bytes \<Rightarrow> u64 \<Rightarrow> (string \<times> nat option \<times> bytes \<times> bool) \<times> u64" where
  "mutate_bytes spliced max_input bs r0 =
     (let (k, r) = rng_usize 7 r0 in
      if k = 0 \<and> bs \<noteq> [] then
        let (at, r) = rng_usize (length bs) r; (bit, r) = rng_usize 8 r in
        ((''flip_bit'', Some at, bs[at := bs ! at XOR push_bit bit 1], False), r)
      else if k = 1 \<and> bs \<noteq> [] then
        let (at, r) = rng_usize (length bs) r; (which, r) = rng_usize 6 r in
        ((''boundary'', Some at, bs[at := boundary_bytes ! which], False), r)
      else if k = 2 \<and> length bs < max_input then
        let (at, r) = rng_usize (length bs + 1) r; (b, r) = rng_byte r in
        ((''insert_byte'', Some at, take at bs @ b # drop at bs, False), r)
      else if k = 3 \<and> bs \<noteq> [] then
        let (at, r) = rng_usize (length bs) r in
        ((''delete_byte'', Some at, take at bs @ drop (Suc at) bs, False), r)
      else if k = 4 then ((''delete_message'', None, [], False), r)
      else if k = 5 then ((''duplicate_message'', None, bs, True), r)
      else case spliced of
        Some other \<Rightarrow> ((''splice_message'', None, other, False), r)
      | None \<Rightarrow> let (b, r) = rng_byte r in ((''append_byte'', None, bs @ [b], False), r))"

definition repeat_step :: "nat \<Rightarrow> protocol \<Rightarrow> protocol" where
  "repeat_step i p =
     p\<lparr>pr_steps := (pr_steps p)[i := (pr_steps p ! i)\<lparr>st_loop_count := max (min (st_loop_count (pr_steps p ! i) + 1) (2 ^ 32 - 1)) 2\<rparr>]\<rparr>"

text \<open>The message of another step, when there are several.\<close>

definition pick_splice :: "nat list \<Rightarrow> protocol \<Rightarrow> u64 \<Rightarrow> (string, bytes option \<times> u64) res" where
  "pick_splice indexes p r0 =
     (if length indexes > 1
      then let (k, r) = rng_usize (length indexes) r0 in rbind (step_bytes p (indexes ! k)) (\<lambda>other. Inr (Some other, r))
      else Inr (None, r0))"

definition mutate_once ::
  "nat list \<Rightarrow> nat \<Rightarrow> protocol \<Rightarrow> u64 \<Rightarrow> (string, (protocol \<times> mutation) \<times> u64) res" where
  "mutate_once indexes max_input p r0 =
     (let (i, r) = rng_usize (length indexes) r0; index = indexes ! i in
      rbind (pick_splice indexes p r) (\<lambda>(spliced, r).
      rbind (step_bytes p index) (\<lambda>before.
      let ((operator, offset, bs, twice), r) = mutate_bytes spliced max_input before r;
          cut = take max_input bs;
          q = set_step_bytes index cut (if twice then repeat_step index p else p) in
      Inr ((q, \<lparr>mu_operator = operator, mu_step = st_name (pr_steps p ! index), mu_offset = offset,
                mu_before_hex = bytes_to_hex before, mu_after_hex = bytes_to_hex cut\<rparr>), r))))"

fun mutate_times ::
  "nat \<Rightarrow> nat list \<Rightarrow> nat \<Rightarrow> protocol \<Rightarrow> mutation list \<Rightarrow> u64 \<Rightarrow> (string, (protocol \<times> mutation list) \<times> u64) res" where
  "mutate_times 0 indexes max_input p ms r = Inr ((p, ms), r)"
| "mutate_times (Suc n) indexes max_input p ms r =
     rbind (mutate_once indexes max_input p r) (\<lambda>((q, m), r). mutate_times n indexes max_input q (ms @ [m]) r)"

definition mutate_protocol ::
  "protocol \<Rightarrow> nat list \<Rightarrow> nat \<Rightarrow> u64 \<Rightarrow> (string, (protocol \<times> mutation list) \<times> u64) res" where
  "mutate_protocol p indexes max_input r0 =
     (let (extra, r) = rng_usize (min 3 (max (length indexes) 1)) r0 in
      mutate_times (1 + extra) indexes max_input p [] r)"

subsection \<open>Delta debugging\<close>

definition without_chunk :: "nat \<Rightarrow> nat \<Rightarrow> 'a list \<Rightarrow> 'a list" where
  "without_chunk start chunk xs = take start xs @ drop (min (start + chunk) (length xs)) xs"

text \<open>The first chunk whose removal keeps the predicate, for a predicate that has a state.\<close>

fun first_removal ::
  "('s \<Rightarrow> 'a list \<Rightarrow> bool \<times> 's) \<Rightarrow> 'a list \<Rightarrow> nat \<Rightarrow> nat list \<Rightarrow> 's \<Rightarrow> 'a list option \<times> 's" where
  "first_removal preserves current chunk [] s = (None, s)"
| "first_removal preserves current chunk (start # starts) s =
     (let candidate = without_chunk start chunk current; (ok, s) = preserves s candidate in
      if ok then (Some candidate, s) else first_removal preserves current chunk starts s)"

definition div_ceil :: "nat \<Rightarrow> nat \<Rightarrow> nat" where
  "div_ceil a b = (a + b - 1) div b"

definition chunk_starts :: "nat \<Rightarrow> nat \<Rightarrow> nat list" where
  "chunk_starts n chunk = map (\<lambda>i. i * chunk) [0..<div_ceil n chunk]"

lemma div_ceil_pos: "0 < b \<Longrightarrow> 0 < a \<Longrightarrow> 0 < div_ceil a b"
  by (simp add: div_ceil_def div_greater_zero_iff)

lemma chunk_start_less: "start \<in> set (chunk_starts n chunk) \<Longrightarrow> 0 < chunk \<Longrightarrow> start < n"
proof -
  assume "start \<in> set (chunk_starts n chunk)" and pos: "0 < chunk"
  then obtain i where i: "start = i * chunk" "i < (n + chunk - 1) div chunk" by (auto simp: chunk_starts_def div_ceil_def)
  from i(2) pos have "(i + 1) * chunk \<le> n + chunk - 1" by (metis Suc_eq_plus1 Suc_leI less_eq_div_iff_mult_less_eq)
  with pos show ?thesis unfolding i(1) by (simp add: algebra_simps)
qed

lemma first_removal_shorter:
  "first_removal preserves current chunk starts s = (Some candidate, s') \<Longrightarrow> 0 < chunk \<Longrightarrow> \<forall>x \<in> set starts. x < length current \<Longrightarrow>
   length candidate < length current"
  by (induction starts arbitrary: s)
    (auto simp: without_chunk_def Let_def split: prod.splits if_splits)

text \<open>Dividing by a granularity of zero panics.\<close>

function minimize_loop ::
  "('s \<Rightarrow> 'a list \<Rightarrow> bool \<times> 's) \<Rightarrow> 'a list \<Rightarrow> nat \<Rightarrow> 's \<Rightarrow> (string, 'a list) res \<times> 's" where
  "minimize_loop preserves current granularity s =
     (if length current < 2 then (Inr current, s)
      else if granularity = 0 then (Inl Panic, s)
      else
        let chunk = div_ceil (length current) granularity in
        case first_removal preserves current chunk (chunk_starts (length current) chunk) s of
          (Some candidate, s') \<Rightarrow> minimize_loop preserves candidate 2 s'
        | (None, s') \<Rightarrow>
            if granularity \<ge> length current then (Inr current, s')
            else minimize_loop preserves current (min (granularity * 2) (length current)) s')"
  by pat_completeness auto
termination
proof (relation "measures [\<lambda>(p, current, g, s). length current, \<lambda>(p, current, g, s). length current - g]", goal_cases)
  case (3 preserves current g s chunk r s' candidate)
  then have "0 < chunk" using div_ceil_pos [of g "length current"] by linarith
  with 3 have "length candidate < length current"
    by (intro first_removal_shorter [of preserves current chunk "chunk_starts (length current) chunk" s candidate s'])
      (auto intro: chunk_start_less)
  then show ?case by simp
qed auto

declare minimize_loop.simps [simp del]

definition minimize_bytes :: "('s \<Rightarrow> 'a list \<Rightarrow> bool \<times> 's) \<Rightarrow> 'a list \<Rightarrow> 's \<Rightarrow> (string, 'a list) res \<times> 's" where
  "minimize_bytes preserves input s = minimize_loop preserves input 2 s"

subsection \<open>Signatures\<close>

fun outcome_debug :: "fuzz_outcome \<Rightarrow> string" where
  "outcome_debug FuzzOk = ''Ok''"
| "outcome_debug FuzzRejected = ''Rejected''"
| "outcome_debug FuzzHang = ''Hang''"
| "outcome_debug FuzzCrash = ''Crash''"

definition event_digest :: "trace_event \<Rightarrow> bytes" where
  "event_digest tv =
     bytes_of (ev_role (tv_event tv)) @ [0] @ bytes_of (ev_step (tv_event tv)) @ [if ev_ok (tv_event tv) then 1 else 0] @ tv_wire_data tv"

definition observation_signature :: "(bytes \<Rightarrow> bytes) \<Rightarrow> fuzz_observation \<Rightarrow> string" where
  "observation_signature sha256 obs =
     bytes_to_hex (sha256 (bytes_of (outcome_debug (fo_outcome obs)) @ concat (map event_digest (fo_trace obs)) @
       concat (map (\<lambda>item. bytes_of item @ [0]) (fo_code_coverage obs))))"

definition failure_signature :: "(bytes \<Rightarrow> bytes) \<Rightarrow> fuzz_observation \<Rightarrow> string" where
  "failure_signature sha256 obs =
     bytes_to_hex (sha256 (bytes_of (outcome_debug (fo_outcome obs)) @ bytes_of (unwrap_or [] (fo_detail obs))))"

subsection \<open>The campaign\<close>

text \<open>What the minimiser asks of a candidate: one more run that ends the same way.\<close>

definition reproduces ::
  "('s \<Rightarrow> protocol \<Rightarrow> fuzz_observation \<times> 's) \<Rightarrow> protocol \<Rightarrow> nat \<Rightarrow> fuzz_outcome \<Rightarrow> nat \<times> 's \<Rightarrow> bytes \<Rightarrow> bool \<times> nat \<times> 's" where
  "reproduces runner p index expected rs candidate =
     (let (obs, s) = runner (snd rs) (set_step_bytes index candidate p) in (fo_outcome obs = expected, Suc (fst rs), s))"

definition minimize_finding ::
  "('s \<Rightarrow> protocol \<Rightarrow> fuzz_observation \<times> 's) \<Rightarrow> protocol \<Rightarrow> nat list \<Rightarrow> fuzz_outcome \<Rightarrow> 's \<Rightarrow> (string, (string \<times> nat) option) res \<times> 's" where
  "minimize_finding runner p indexes expected s =
     (case indexes of
        [] \<Rightarrow> (Inr None, s)
      | index # _ \<Rightarrow>
          if index \<ge> length (pr_steps p) then (Inl Panic, s)
          else if st_segment (pr_steps p ! index) = None then (Inr None, s)
          else case step_bytes p index of
            Inl Panic \<Rightarrow> (Inl Panic, s)
          | Inl (Fail _) \<Rightarrow> (Inr None, s)
          | Inr original \<Rightarrow>
              if original = [] then (Inr None, s)
              else case minimize_bytes (reproduces runner p index expected) original (0, s) of
                (Inl e, (_, s)) \<Rightarrow> (Inl e, s)
              | (Inr minimized, (runs, s)) \<Rightarrow> (Inr (Some (bytes_to_hex minimized, runs)), s))"

text \<open>The state of the loop; sets are lists without repetitions.\<close>

record 's campaign =
  ca_rng :: u64
  ca_target :: 's
  ca_states :: "string list"
  ca_code :: "string list"
  ca_failures :: "string list"
  ca_corpus :: "corpus_entry list"
  ca_findings :: "fuzz_finding list"
  ca_executions :: nat

definition set_insert :: "'a \<Rightarrow> 'a list \<Rightarrow> bool \<times> 'a list" where
  "set_insert x xs = (if x \<in> set xs then (False, xs) else (True, xs @ [x]))"

text \<open>Enters all items and counts those that are new.\<close>

fun insert_all :: "'a list \<Rightarrow> nat \<Rightarrow> 'a list \<Rightarrow> nat \<times> 'a list" where
  "insert_all [] n xs = (n, xs)"
| "insert_all (y # ys) n xs = (let (fresh, xs) = set_insert y xs in insert_all ys (if fresh then Suc n else n) xs)"

definition campaign_corpus ::
  "(bytes \<Rightarrow> bytes) \<Rightarrow> nat \<Rightarrow> mutation list \<Rightarrow> fuzz_observation \<Rightarrow> 's campaign \<Rightarrow> 's campaign" where
  "campaign_corpus sha256 iteration ms obs c =
     (let signature = observation_signature sha256 obs;
          (new_state, states) = set_insert signature (ca_states c);
          (new_code, code) = insert_all (fo_code_coverage obs) 0 (ca_code c);
          reasons = (if new_state then [''new_state''] else []) @ (if new_code > 0 then [''new_code''] else []);
          entry = \<lparr>co_iteration = iteration, co_signature = signature, co_reason = join ''+'' reasons, co_mutations = ms\<rparr> in
      c\<lparr>ca_states := states, ca_code := code, ca_corpus := ca_corpus c @ (if reasons = [] then [] else [entry])\<rparr>)"

definition campaign_finding ::
  "(bytes \<Rightarrow> bytes) \<Rightarrow> ('s \<Rightarrow> protocol \<Rightarrow> fuzz_observation \<times> 's) \<Rightarrow> nat list \<Rightarrow> nat \<Rightarrow> protocol \<Rightarrow> mutation list \<Rightarrow>
   fuzz_observation \<Rightarrow> 's campaign \<Rightarrow> (string, 's campaign) res" where
  "campaign_finding sha256 runner indexes iteration mutant ms obs c =
     (let signature = failure_signature sha256 obs; (fresh, failures) = set_insert signature (ca_failures c) in
      if \<not> fresh then Inr c
      else case minimize_finding runner mutant indexes (fo_outcome obs) (ca_target c) of
        (Inl e, _) \<Rightarrow> Inl e
      | (Inr minimized, s) \<Rightarrow>
          Inr (c\<lparr>ca_failures := failures, ca_target := s,
            ca_executions := ca_executions c + (case minimized of None \<Rightarrow> 0 | Some (_, runs) \<Rightarrow> runs),
            ca_findings := ca_findings c @
              [\<lparr>ff_iteration = iteration, ff_outcome = fo_outcome obs, ff_signature = signature, ff_detail = fo_detail obs,
                ff_mutations = ms, ff_minimized_hex = map_option fst minimized\<rparr>]\<rparr>))"

text \<open>One iteration: the state after it, and whether the campaign stops.\<close>

definition fuzz_iteration ::
  "(bytes \<Rightarrow> bytes) \<Rightarrow> ('s \<Rightarrow> protocol \<Rightarrow> fuzz_observation \<times> 's) \<Rightarrow> protocol \<Rightarrow> nat list \<Rightarrow> fuzz_config \<Rightarrow> nat \<Rightarrow> 's campaign \<Rightarrow>
   (string, 's campaign \<times> bool) res" where
  "fuzz_iteration sha256 runner p indexes config iteration c =
     rbind (mutate_protocol p indexes (fc_max_input_bytes config) (ca_rng c)) (\<lambda>((mutant, ms), r).
     let (obs, s) = runner (ca_target c) mutant;
         c = campaign_corpus sha256 iteration ms obs (c\<lparr>ca_rng := r, ca_target := s, ca_executions := Suc (ca_executions c)\<rparr>) in
     if fo_outcome obs \<in> {FuzzCrash, FuzzHang} then
       rbind (campaign_finding sha256 runner indexes iteration mutant ms obs c) (\<lambda>c.
       Inr (c, fc_stop_on_crash config \<and> fo_outcome obs = FuzzCrash))
     else Inr (c, False))"

fun fuzz_loop ::
  "(bytes \<Rightarrow> bytes) \<Rightarrow> ('s \<Rightarrow> protocol \<Rightarrow> fuzz_observation \<times> 's) \<Rightarrow> protocol \<Rightarrow> nat list \<Rightarrow> fuzz_config \<Rightarrow> nat list \<Rightarrow> 's campaign \<Rightarrow>
   (string, 's campaign) res" where
  "fuzz_loop sha256 runner p indexes config [] c = Inr c"
| "fuzz_loop sha256 runner p indexes config (iteration # rest) c =
     rbind (fuzz_iteration sha256 runner p indexes config iteration c) (\<lambda>(c, stop).
     if stop then Inr c else fuzz_loop sha256 runner p indexes config rest c)"

definition campaign_start :: "fuzz_config \<Rightarrow> 's \<Rightarrow> 's campaign" where
  "campaign_start config s =
     \<lparr>ca_rng = fc_seed config, ca_target = s, ca_states = [], ca_code = [], ca_failures = [], ca_corpus = [], ca_findings = [],
      ca_executions = 0\<rparr>"

definition run_campaign ::
  "(bytes \<Rightarrow> bytes) \<Rightarrow> ('s \<Rightarrow> protocol \<Rightarrow> fuzz_observation \<times> 's) \<Rightarrow> protocol \<Rightarrow> string \<Rightarrow> fuzz_config \<Rightarrow> 's \<Rightarrow> (string, fuzz_report) res" where
  "run_campaign sha256 runner p role config s =
     rbind (fuzzable_steps p role) (\<lambda>indexes.
     rbind (fuzz_loop sha256 runner p indexes config [1..<Suc (fc_iterations config)] (campaign_start config s)) (\<lambda>c.
     Inr \<lparr>fr_protocol = pr_name p, fr_role = role, fr_seed = fc_seed config, fr_iterations = fc_iterations config,
       fr_executions = ca_executions c, fr_state_coverage = length (ca_states c), fr_code_coverage = length (ca_code c),
       fr_corpus = ca_corpus c, fr_findings = ca_findings c\<rparr>))"

end
