(* ===== verification/Fuzz_Correct.thy ===== *)
theory Fuzz_Correct
  imports Fuzz Engine_Step Graph_Correct "HOL-Library.Sublist"
begin

text \<open>
  What a fuzzing campaign guarantees: minimised inputs reproduce and cannot lose a byte, the
  generator visits zero only from zero, so a campaign with seed 0 tries one mutant only, mutants
  differ from the protocol only in the messages and loop counts of fuzzed steps, and the report
  counts what was run.
\<close>

unbundle bit_operations_syntax

subsection \<open>Delta debugging\<close>

text \<open>A predicate with a state whose verdict does not depend on the state.\<close>

definition decides :: "('s \<Rightarrow> 'a list \<Rightarrow> bool \<times> 's) \<Rightarrow> ('a list \<Rightarrow> bool) \<Rightarrow> bool" where
  "decides preserves P \<longleftrightarrow> (\<forall>s xs. fst (preserves s xs) = P xs)"

text \<open>No single element can be left out.\<close>

definition minimal :: "('a list \<Rightarrow> bool) \<Rightarrow> 'a list \<Rightarrow> bool" where
  "minimal P xs \<longleftrightarrow> (\<forall>i < length xs. \<not> P (take i xs @ drop (Suc i) xs))"

lemma without_chunk_subseq: "subseq (without_chunk start chunk xs) xs"
proof -
  have "drop (min (start + chunk) (length xs)) xs = drop chunk (drop start xs)" by (auto simp: min_def add.commute)
  moreover have "suffix (drop chunk (drop start xs)) (drop start xs)" by (rule suffix_drop)
  ultimately have "subseq (take start xs @ drop (min (start + chunk) (length xs)) xs) (take start xs @ drop start xs)"
    by (intro list_emb_append_mono) (auto simp del: drop_drop dest: suffix_imp_subseq)
  then show ?thesis by (simp add: without_chunk_def)
qed

lemma without_one: "i < length xs \<Longrightarrow> without_chunk i 1 xs = take i xs @ drop (Suc i) xs"
  by (simp add: without_chunk_def min_def)

lemma first_removal_Some:
  assumes "decides preserves P" and "first_removal preserves xs chunk starts s = (Some ys, s')"
  shows "P ys \<and> (\<exists>start \<in> set starts. ys = without_chunk start chunk xs)"
  using assms(2)
proof (induction starts arbitrary: s)
  case (Cons start starts)
  obtain ok s1 where "preserves s (without_chunk start chunk xs) = (ok, s1)" by fastforce
  moreover from this assms(1) have "ok = P (without_chunk start chunk xs)" by (metis decides_def fst_conv)
  ultimately show ?case using Cons by (auto simp: Let_def split: if_splits)
qed simp

lemma first_removal_None:
  assumes "decides preserves P" and "first_removal preserves xs chunk starts s = (None, s')"
  shows "\<forall>start \<in> set starts. \<not> P (without_chunk start chunk xs)"
  using assms(2)
proof (induction starts arbitrary: s)
  case (Cons start starts)
  obtain ok s1 where "preserves s (without_chunk start chunk xs) = (ok, s1)" by fastforce
  moreover from this assms(1) have "ok = P (without_chunk start chunk xs)" by (metis decides_def fst_conv)
  ultimately show ?case using Cons by (auto simp: Let_def split: if_splits)
qed simp

lemma div_ceil_one: "0 < n \<Longrightarrow> n \<le> g \<Longrightarrow> div_ceil n g = 1"
  by (simp add: div_ceil_def div_nat_eqI)

lemma chunk_starts_one: "set (chunk_starts n 1) = {..<n}"
  by (auto simp: chunk_starts_def div_ceil_def)

lemma minimize_loop_ok:
  assumes "decides preserves P" and "0 < g"
  shows "\<exists>ys s'. minimize_loop preserves xs g s = (Inr ys, s') \<and> subseq ys xs \<and> (ys = xs \<or> P ys) \<and> (length ys \<ge> 2 \<longrightarrow> minimal P ys)"
  using assms
proof (induction preserves xs g s rule: minimize_loop.induct)
  case (1 preserves current g s)
  let ?chunk = "div_ceil (length current) g"
  obtain r s1 where fr: "first_removal preserves current ?chunk (chunk_starts (length current) ?chunk) s = (r, s1)" by fastforce
  consider (short) "length current < 2" | (found) ys where "\<not> length current < 2" "r = Some ys"
    | (stop) "\<not> length current < 2" "r = None" "g \<ge> length current" | (finer) "\<not> length current < 2" "r = None" "\<not> g \<ge> length current"
    by (cases r) auto
  then show ?case
  proof cases
    case short
    then show ?thesis by (simp add: minimize_loop.simps [of preserves current])
  next
    case found
    have step: "minimize_loop preserves current g s = minimize_loop preserves ys 2 s1"
      using found 1(4) fr by (subst minimize_loop.simps) (simp add: Let_def)
    have "P ys" "subseq ys current" using first_removal_Some [OF 1(3) fr [unfolded found(2)]] without_chunk_subseq by auto
    then show ?thesis
      unfolding step using 1(2) [OF found(1) _ refl fr [symmetric] found(2) 1(3)] 1(4) subseq_order.order_trans by fastforce
  next
    case stop
    then have "?chunk = 1" by (intro div_ceil_one) auto
    then have "minimal P current"
      using first_removal_None [OF 1(3) fr [unfolded stop(2)]] without_one [of _ current]
      unfolding minimal_def by (simp add: chunk_starts_one del: One_nat_def)
    moreover have "minimize_loop preserves current g s = (Inr current, s1)"
      using stop 1(4) fr by (subst minimize_loop.simps) (simp add: Let_def)
    ultimately show ?thesis by simp
  next
    case finer
    have "minimize_loop preserves current g s = minimize_loop preserves current (min (g * 2) (length current)) s1"
      using finer 1(4) fr by (subst minimize_loop.simps) (simp add: Let_def)
    then show ?thesis
      using 1(1) [OF finer(1) _ refl fr [symmetric] finer(2,3) 1(3)] 1(4) finer(1) by fastforce
  qed
qed

text \<open>
  C18: Delta debugging ends with an input that still fails and is one-minimal. For a predicate whose
  verdict depends on the bytes alone, \<open>minimize_bytes\<close> returns a subsequence of its input;
  the result satisfies the predicate whenever the input does, and if it has two bytes or
  more, leaving out any one of them makes the predicate fail.
\<close>

theorem minimize_bytes_minimal:
  assumes "decides preserves P" and "P input"
  shows "\<exists>ys s'. minimize_bytes preserves input s = (Inr ys, s') \<and> subseq ys input \<and> P ys \<and>
    (length ys \<ge> 2 \<longrightarrow> (\<forall>i < length ys. \<not> P (take i ys @ drop (Suc i) ys)))"
proof -
  obtain ys s' where "minimize_loop preserves input 2 s = (Inr ys, s')" "subseq ys input" "ys = input \<or> P ys"
      "length ys \<ge> 2 \<longrightarrow> minimal P ys"
    using minimize_loop_ok [OF assms(1), of 2 input s] by auto
  then show ?thesis using assms(2) by (auto simp: minimize_bytes_def minimal_def)
qed

text \<open>The test of the source: seven bytes, of which two matter.\<close>

definition needs_two :: "nat \<Rightarrow> bytes \<Rightarrow> bool \<times> nat" where
  "needs_two n bs = (13 \<in> set bs \<and> 37 \<in> set bs, Suc n)"

theorem minimize_bytes_minimal_witness:
  "\<exists>ys s'. minimize_bytes needs_two [0, 1, 13, 9, 37, 8, 7] 0 = (Inr ys, s') \<and> subseq ys [0, 1, 13, 9, 37, 8, 7] \<and>
    13 \<in> set ys \<and> 37 \<in> set ys"
proof -
  have "decides needs_two (\<lambda>bs. 13 \<in> set bs \<and> 37 \<in> set bs)" by (simp add: decides_def needs_two_def)
  from minimize_bytes_minimal [OF this, of "[0, 1, 13, 9, 37, 8, 7]" 0] show ?thesis by auto
qed

subsection \<open>The generator\<close>

lemma push_bit_fixed: "0 < n \<Longrightarrow> (x :: u64) = push_bit n x \<Longrightarrow> x = 0"
proof -
  assume n: "0 < n" and x: "x = push_bit n x"
  have "\<not> bit x i" for i
  proof (induction i rule: less_induct)
    case (less i)
    have "bit x i \<longleftrightarrow> bit (push_bit n x) i" using x by simp
    then show ?case using less [of "i - n"] n by (auto simp: bit_push_bit_iff)
  qed
  then show "x = 0" by (simp add: bit_eq_iff)
qed

lemma drop_bit_fixed: "0 < n \<Longrightarrow> (x :: u64) = drop_bit n x \<Longrightarrow> x = 0"
proof -
  assume n: "0 < n" and x: "x = drop_bit n x"
  have "\<not> bit x (64 - k)" for k
  proof (induction k rule: less_induct)
    case (less k)
    show ?case
    proof (cases "k = 0 \<or> 64 < k")
      case True
      then show ?thesis using less [of 64] bit_imp_le_length [of x "64 - k"] by (cases "k = 0") auto
    next
      case False
      have "bit x (64 - k) \<longleftrightarrow> bit x (64 - k + n)" using x by (metis bit_drop_bit_eq comp_apply add.commute)
      then show ?thesis
        using less [of "k - n"] n False bit_imp_le_length [of x "64 - k + n"] by (cases "n \<le> k") (auto simp: algebra_simps)
    qed
  qed
  note bits = this
  have "\<not> bit x i" for i
    using bits [of "64 - i"] bit_imp_le_length [of x i] by (cases "i \<le> 64") auto
  then show "x = 0" by (simp add: bit_eq_iff)
qed

lemma xor_shift_inj:
  assumes "\<And>x. (x :: u64) = f x \<Longrightarrow> x = 0" and "\<And>x y. f (x XOR y) = f x XOR f y" and "x XOR f x = y XOR f y"
  shows "x = y"
proof -
  have "x XOR y = f (x XOR y)"
    using assms(3) unfolding assms(2) by (metis (no_types) xor.assoc xor.commute xor_self_eq xor.left_neutral)
  then have "x XOR y = 0" by (rule assms(1))
  then show ?thesis by (metis xor.assoc xor_self_eq xor.left_neutral xor.commute)
qed

lemma rng_next_inj: "rng_next x = rng_next y \<Longrightarrow> x = y"
proof -
  have l: "a = b" if "a XOR push_bit n a = b XOR push_bit n b" "0 < n" for a b :: u64 and n
    by (rule xor_shift_inj [where f = "push_bit n", OF _ _ that(1)])
      (use push_bit_fixed [OF that(2)] in \<open>auto simp: push_bit_xor\<close>)
  have r: "a = b" if "a XOR drop_bit 7 a = b XOR drop_bit 7 b" for a b :: u64
    by (rule xor_shift_inj [where f = "drop_bit 7", OF _ _ that])
      (use drop_bit_fixed [of 7] in \<open>auto simp: drop_bit_xor\<close>)
  assume "rng_next x = rng_next y"
  then show "x = y" unfolding rng_next_def Let_def by (blast dest: l [where n = 17, simplified] l [where n = 13, simplified] r)
qed

lemma rng_next_0 [simp]: "rng_next 0 = 0"
  by (simp add: rng_next_def)

lemma rng_next_eq_0 [simp]: "rng_next r = 0 \<longleftrightarrow> r = 0"
  using rng_next_inj [of r 0] by auto

lemma rng_usize_less: "0 < n \<Longrightarrow> fst (rng_usize n r) < n"
  by (simp add: rng_usize_def)

lemma rng_usize_zero_seed [simp]: "rng_usize n 0 = (0, 0)"
  by (simp add: rng_usize_def)

lemma rng_byte_zero_seed [simp]: "rng_byte 0 = (0, 0)"
  by (simp add: rng_byte_def)

subsection \<open>Mutants\<close>

text \<open>
  A step that differs from another in its message and in how often it is repeated only: the loop count
  is what \<open>d\<close> duplications make of it.
\<close>

definition bump :: "nat \<Rightarrow> nat" where
  "bump n = max (min (n + 1) (2 ^ 32 - 1)) 2"

definition mutated_step :: "nat \<Rightarrow> nat \<Rightarrow> step_spec \<Rightarrow> step_spec \<Rightarrow> bool" where
  "mutated_step d max_input s s' \<longleftrightarrow>
     s' = s\<lparr>st_segment := st_segment s', st_loop_count := (bump ^^ d) (st_loop_count s)\<rparr> \<and>
     (st_segment s' = st_segment s \<or>
      (\<exists>g bs. st_segment s = Some g \<and> st_segment s' = Some (set_segment_bytes bs g) \<and> length bs \<le> max_input))"

definition mutant_of :: "(nat \<Rightarrow> nat) \<Rightarrow> nat \<Rightarrow> nat list \<Rightarrow> protocol \<Rightarrow> protocol \<Rightarrow> bool" where
  "mutant_of d max_input indexes p q \<longleftrightarrow>
     q = p\<lparr>pr_steps := pr_steps q\<rparr> \<and> length (pr_steps q) = length (pr_steps p) \<and>
     (\<forall>i < length (pr_steps p).
        if i \<in> set indexes then mutated_step (d i) max_input (pr_steps p ! i) (pr_steps q ! i) else pr_steps q ! i = pr_steps p ! i)"

lemma mutated_step_refl [simp]: "mutated_step 0 n s s"
  by (simp add: mutated_step_def)

lemma set_segment_bytes_twice [simp]: "set_segment_bytes bs (set_segment_bytes cs g) = set_segment_bytes bs g"
  by (simp add: set_segment_bytes_def)

lemma mutated_step_trans:
  assumes "mutated_step d n s t" and "mutated_step e n t u"
  shows "mutated_step (d + e) n s u"
proof -
  have t: "t = s\<lparr>st_segment := st_segment t, st_loop_count := (bump ^^ d) (st_loop_count s)\<rparr>"
    and u: "u = t\<lparr>st_segment := st_segment u, st_loop_count := (bump ^^ e) (st_loop_count t)\<rparr>"
    using assms by (simp_all add: mutated_step_def)
  have l: "st_loop_count t = (bump ^^ d) (st_loop_count s)" by (subst t) simp
  have "u = s\<lparr>st_segment := st_segment u, st_loop_count := (bump ^^ (d + e)) (st_loop_count s)\<rparr>"
    unfolding add.commute [of d] funpow_add o_apply l [symmetric] by (subst u, subst t) simp
  moreover have "st_segment u = st_segment s \<or> (\<exists>g bs. st_segment s = Some g \<and> st_segment u = Some (set_segment_bytes bs g) \<and> length bs \<le> n)"
    using assms unfolding mutated_step_def by (elim conjE disjE exE) auto
  ultimately show ?thesis unfolding mutated_step_def by blast
qed

lemma mutated_step_name: "mutated_step d n s s' \<Longrightarrow> st_name s' = st_name s"
  unfolding mutated_step_def by (metis step_spec.select_convs(1) step_spec.surjective step_spec.update_convs(12,23))

lemma mutant_of_refl [simp]: "mutant_of (\<lambda>_. 0) n indexes p p"
  by (simp add: mutant_of_def)

lemma mutant_of_trans:
  assumes "mutant_of d n indexes p q" and "mutant_of e n indexes q q'"
  shows "mutant_of (\<lambda>i. d i + e i) n indexes p q'"
proof -
  have q: "q = p\<lparr>pr_steps := pr_steps q\<rparr>" and q': "q' = q\<lparr>pr_steps := pr_steps q'\<rparr>" using assms by (simp_all add: mutant_of_def)
  have "q' = p\<lparr>pr_steps := pr_steps q'\<rparr>" by (subst q', subst q) simp
  moreover have "if i \<in> set indexes then mutated_step (d i + e i) n (pr_steps p ! i) (pr_steps q' ! i) else pr_steps q' ! i = pr_steps p ! i"
    if "i < length (pr_steps p)" for i
    using assms that mutated_step_trans [of "d i" n "pr_steps p ! i" "pr_steps q ! i" "e i" "pr_steps q' ! i"]
    by (auto simp: mutant_of_def)
  ultimately show ?thesis using assms by (simp add: mutant_of_def)
qed

lemma step_update_mutant:
  assumes "i \<in> set indexes" and "mutated_step d n (pr_steps p ! i) s"
  shows "mutant_of ((\<lambda>_. 0)(i := d)) n indexes p (p\<lparr>pr_steps := (pr_steps p)[i := s]\<rparr>)"
  using assms by (auto simp: mutant_of_def nth_list_update)

lemma set_step_bytes_mutant: "i \<in> set indexes \<Longrightarrow> length bs \<le> n \<Longrightarrow> mutant_of (\<lambda>_. 0) n indexes p (set_step_bytes i bs p)"
proof -
  assume i: "i \<in> set indexes" "length bs \<le> n"
  have "mutated_step 0 n (pr_steps p ! i) ((pr_steps p ! i)\<lparr>st_segment := map_option (set_segment_bytes bs) (st_segment (pr_steps p ! i))\<rparr>)"
    using i(2) by (cases "st_segment (pr_steps p ! i)") (auto simp: mutated_step_def)
  from step_update_mutant [OF i(1) this] show ?thesis by (simp add: set_step_bytes_def fun_upd_idem)
qed

lemma repeat_step_mutant: "i \<in> set indexes \<Longrightarrow> mutant_of ((\<lambda>_. 0)(i := 1)) n indexes p (repeat_step i p)"
  unfolding repeat_step_def by (rule step_update_mutant) (auto simp: mutated_step_def bump_def)

text \<open>How often the steps of a name are duplicated, by the mutations of a report and by their indexes.\<close>

definition duplications :: "string \<Rightarrow> mutation list \<Rightarrow> nat" where
  "duplications name ms = length (filter (\<lambda>m. mu_operator m = ''duplicate_message'' \<and> mu_step m = name) ms)"

definition repeats :: "(nat \<Rightarrow> nat) \<Rightarrow> nat list \<Rightarrow> protocol \<Rightarrow> string \<Rightarrow> nat" where
  "repeats d indexes p name = (\<Sum>i \<in> set indexes. if st_name (pr_steps p ! i) = name then d i else 0)"

lemma repeats_add: "repeats (\<lambda>i. d i + e i) indexes p name = repeats d indexes p name + repeats e indexes p name"
  unfolding repeats_def sum.distrib [symmetric] by (intro sum.cong) auto

lemma repeats_single: "i \<in> set indexes \<Longrightarrow> repeats ((\<lambda>_. 0)(i := k)) indexes p name = (if st_name (pr_steps p ! i) = name then k else 0)"
proof -
  assume i: "i \<in> set indexes"
  have "repeats ((\<lambda>_. 0)(i := k)) indexes p name = (\<Sum>j \<in> set indexes. if j = i then (if st_name (pr_steps p ! i) = name then k else 0) else 0)"
    unfolding repeats_def by (intro sum.cong) auto
  with i show ?thesis by simp
qed

lemma mutate_bytes_twice: "mutate_bytes spliced n bs r = ((operator, offset, bs', twice), r') \<Longrightarrow> twice \<longleftrightarrow> operator = ''duplicate_message''"
  by (auto simp: mutate_bytes_def Let_def case_prod_unfold split: if_splits option.splits)

text \<open>All the messages that may be mutated can be read.\<close>

definition fuzz_ready :: "nat list \<Rightarrow> protocol \<Rightarrow> bool" where
  "fuzz_ready indexes p \<longleftrightarrow> (\<forall>i \<in> set indexes. \<exists>bs. step_bytes p i = Inr bs)"

lemma hex_no_dollar: "\<not> str_contains (bytes_to_hex bs) ''${''"
proof
  assume "str_contains (bytes_to_hex bs) ''${''"
  then obtain pre post where "bytes_to_hex bs = pre @ ''${'' @ post" by (auto simp: str_contains_def has_window_iff sublist_def)
  then have "CHR ''$'' \<in> set (bytes_to_hex bs)" by simp
  moreover have "hex_char n \<noteq> CHR ''$''" if "n < 16" for n using that by (auto simp: hex_char_def dest!: less_16_cases)
  ultimately show False by (auto simp: bytes_to_hex_def dest: sym)
qed

lemma set_segment_bytes_reads [simp]: "segment_bytes (set_segment_bytes bs g) name = Inr bs"
  by (simp add: segment_bytes_def set_segment_bytes_def hex_no_dollar parse_hex_bytes_to_hex)

lemma mutant_ready:
  assumes "mutant_of d n indexes p q" and "fuzz_ready indexes p"
  shows "fuzz_ready indexes q"
  unfolding fuzz_ready_def
proof
  fix i assume i: "i \<in> set indexes"
  with assms(2) obtain bs where b: "step_bytes p i = Inr bs" by (auto simp: fuzz_ready_def)
  then obtain g where bs: "step_bytes p i = Inr bs" "i < length (pr_steps p)" "st_segment (pr_steps p ! i) = Some g"
    by (auto simp: step_bytes_def split: if_splits option.splits)
  then have m: "mutated_step (d i) n (pr_steps p ! i) (pr_steps q ! i)" "length (pr_steps q) = length (pr_steps p)"
    using assms(1) i by (auto simp: mutant_of_def)
  from mutated_step_name [OF m(1)] show "\<exists>bs. step_bytes q i = Inr bs"
    using m bs unfolding mutated_step_def step_bytes_def by auto
qed

lemma mutate_once_ok:
  assumes "fuzz_ready indexes p" and "indexes \<noteq> []"
  shows "\<exists>q m r' d. mutate_once indexes n p r = Inr ((q, m), r') \<and> mutant_of d n indexes p q \<and> length (mu_after_hex m) \<le> 2 * n \<and>
    mu_step m \<in> (\<lambda>i. st_name (pr_steps p ! i)) ` set indexes \<and> (\<forall>name. repeats d indexes p name = duplications name [m])"
proof -
  obtain i r1 where i: "rng_usize (length indexes) r = (i, r1)" "i < length indexes"
    using rng_usize_less [of "length indexes" r] assms(2) by (cases "rng_usize (length indexes) r") auto
  then have index: "indexes ! i \<in> set indexes" by simp
  then obtain before where before: "step_bytes p (indexes ! i) = Inr before" using assms(1) by (auto simp: fuzz_ready_def)
  have "indexes ! fst (rng_usize (length indexes) r1) \<in> set indexes" using rng_usize_less [of "length indexes" r1] assms(2) by simp
  then obtain other where "step_bytes p (indexes ! fst (rng_usize (length indexes) r1)) = Inr other"
    using assms(1) by (auto simp: fuzz_ready_def)
  then obtain spliced r2 where spliced: "pick_splice indexes p r1 = Inr (spliced, r2)"
    by (cases "length indexes > 1") (simp_all add: pick_splice_def Let_def case_prod_unfold)
  obtain operator offset bs twice r3 where m: "mutate_bytes spliced n before r2 = ((operator, offset, bs, twice), r3)"
    by (metis prod.exhaust)
  let ?p = "if twice then repeat_step (indexes ! i) p else p" and ?d = "(\<lambda>_. 0)(indexes ! i := of_bool twice)"
  have "mutant_of ?d n indexes p ?p" using repeat_step_mutant [OF index] by (auto simp: fun_upd_idem)
  from mutant_of_trans [OF this set_step_bytes_mutant [OF index, of "take n bs" n]]
  have "mutant_of ?d n indexes p (set_step_bytes (indexes ! i) (take n bs) ?p)" by (simp only: add_0_right length_take min.cobounded2 simp_thms)
  moreover let ?m = "\<lparr>mu_operator = operator, mu_step = st_name (pr_steps p ! (indexes ! i)), mu_offset = offset,
      mu_before_hex = bytes_to_hex before, mu_after_hex = bytes_to_hex (take n bs)\<rparr>"
  have "length (mu_after_hex ?m) \<le> 2 * n" "mu_step ?m \<in> (\<lambda>i. st_name (pr_steps p ! i)) ` set indexes" using index by simp_all
  moreover have "repeats ?d indexes p name = duplications name [?m]" for name
    unfolding repeats_single [OF index] using mutate_bytes_twice [OF m] by (simp add: duplications_def)
  moreover have "mutate_once indexes n p r = Inr ((set_step_bytes (indexes ! i) (take n bs) ?p, ?m), r3)"
    unfolding mutate_once_def i(1) Let_def prod.case spliced rbind.simps before m ..
  ultimately show ?thesis by blast
qed

lemma mutant_names:
  assumes "mutant_of d n indexes p q" and "fuzz_ready indexes p" and "i \<in> set indexes"
  shows "st_name (pr_steps q ! i) = st_name (pr_steps p ! i)"
proof -
  obtain bs where "step_bytes p i = Inr bs" using assms(2,3) by (auto simp: fuzz_ready_def)
  then have "i < length (pr_steps p)" by (auto simp: step_bytes_def split: if_splits)
  then show ?thesis using assms(1,3) mutated_step_name by (auto simp: mutant_of_def)
qed

lemma mutate_times_ok:
  assumes "fuzz_ready indexes p" and "indexes \<noteq> []"
  shows "\<exists>q ms' r' d. mutate_times k indexes n p ms r = Inr ((q, ms @ ms'), r') \<and> mutant_of d n indexes p q \<and> length ms' = k \<and>
    (\<forall>m \<in> set ms'. length (mu_after_hex m) \<le> 2 * n \<and> mu_step m \<in> (\<lambda>i. st_name (pr_steps p ! i)) ` set indexes) \<and>
    (\<forall>name. repeats d indexes p name = duplications name ms')"
  using assms(1)
proof (induction k arbitrary: p ms r)
  case (Suc k)
  obtain q m r1 d where q: "mutate_once indexes n p r = Inr ((q, m), r1)" "mutant_of d n indexes p q" "length (mu_after_hex m) \<le> 2 * n"
      "mu_step m \<in> (\<lambda>i. st_name (pr_steps p ! i)) ` set indexes" "\<forall>name. repeats d indexes p name = duplications name [m]"
    using mutate_once_ok [OF Suc.prems assms(2)] by blast
  obtain q' ms' r' e where q': "mutate_times k indexes n q (ms @ [m]) r1 = Inr ((q', (ms @ [m]) @ ms'), r')" "mutant_of e n indexes q q'"
      "length ms' = k" "\<forall>m \<in> set ms'. length (mu_after_hex m) \<le> 2 * n \<and> mu_step m \<in> (\<lambda>i. st_name (pr_steps q ! i)) ` set indexes"
      "\<forall>name. repeats e indexes q name = duplications name ms'"
    using Suc.IH [OF mutant_ready [OF q(2) Suc.prems]] by blast
  have names: "(\<lambda>i. st_name (pr_steps q ! i)) ` set indexes = (\<lambda>i. st_name (pr_steps p ! i)) ` set indexes"
    using mutant_names [OF q(2) Suc.prems] by (rule image_cong [OF refl])
  have "repeats e indexes q name = repeats e indexes p name" for name
    unfolding repeats_def using mutant_names [OF q(2) Suc.prems] by (intro sum.cong) auto
  then have "repeats (\<lambda>i. d i + e i) indexes p name = duplications name (m # ms')" for name
    using q(5) q'(5) by (simp add: repeats_add duplications_def)
  moreover have "mutate_times (Suc k) indexes n p ms r = Inr ((q', ms @ m # ms'), r')" using q(1) q'(1) by simp
  ultimately show ?case
    using q(3,4) q'(3,4) names mutant_of_trans [OF q(2) q'(2)]
    by (intro exI [of _ q'] exI [of _ "m # ms'"] exI [of _ r'] exI [of _ "\<lambda>i. d i + e i"]) auto
qed (auto intro!: exI [of _ "\<lambda>_. 0"] simp: repeats_def duplications_def)

text \<open>The planner looks at names, roles and dependencies only.\<close>

definition step_key :: "step_spec \<Rightarrow> string \<times> string \<times> string list" where
  "step_key s = (st_name s, st_role s, st_depends_on s)"

lemma last_in_role_key:
  "map step_key ss = map step_key ts \<Longrightarrow> last_in_role ss = last_in_role ts"
proof (induction ss arbitrary: ts rule: rev_induct)
  case (snoc s ss)
  then obtain t ts' where "ts = ts' @ [t]" "map step_key ss = map step_key ts'" "step_key s = step_key t"
    by (cases ts rule: rev_cases) auto
  note ts = this
  show ?case unfolding ts(1)
  proof (rule ext)
    fix r show "last_in_role (ss @ [s]) r = last_in_role (ts' @ [t]) r"
      using snoc.IH [OF ts(2)] ts(3) by (simp add: last_in_role_snoc step_key_def)
  qed
qed simp

lemma resolved_key:
  assumes "map step_key ss = map step_key ts" and "i < length ss"
  shows "resolved ss i = resolved ts i" and "step_name ss i = step_name ts i"
proof -
  have "length ss = length ts" using assms(1) by (rule map_eq_imp_length_eq)
  then have k: "step_key (ss ! i) = step_key (ts ! i)" using assms by (metis nth_map)
  have "last_in_role (take i ss) = last_in_role (take i ts)"
    using assms(1) by (intro last_in_role_key) (simp add: take_map [symmetric])
  with k show "resolved ss i = resolved ts i" "step_name ss i = step_name ts i"
    by (simp_all add: resolved_def step_key_def step_name_def)
qed

lemma dep_edges_key:
  assumes "map step_key ss = map step_key ts"
  shows "dep_edges ss \<subseteq> dep_edges ts"
proof
  fix x assume "x \<in> dep_edges ss"
  then obtain d i where x: "x = (d, step_name ss i)" "i < length ss" "d \<in> set (resolved ss i)" by (auto simp: dep_edges_def)
  then show "x \<in> dep_edges ts"
    using resolved_key [OF assms x(2)] map_eq_imp_length_eq [OF assms] by (auto simp: dep_edges_def)
qed

lemma plan_key:
  assumes "map step_key (pr_steps p) = map step_key (pr_steps q)" and "hash_iteration ho"
  shows "(\<exists>pl. plan ho p = Some (Inr pl)) \<longleftrightarrow> (\<exists>pl. plan ho q = Some (Inr pl))"
proof -
  have names: "map st_name (pr_steps p) = map st_name (pr_steps q)"
    using arg_cong [OF assms(1), of "map fst"] by (simp add: comp_def step_key_def)
  have deps: "map st_depends_on (pr_steps p) = map st_depends_on (pr_steps q)"
    using arg_cong [OF assms(1), of "map (\<lambda>x. snd (snd x))"] by (simp add: comp_def step_key_def)
  have "refs_ok (pr_steps p) \<longleftrightarrow> refs_ok (pr_steps q)"
    using arg_cong [OF names, of set] arg_cong [OF deps, of set] unfolding refs_ok_def set_map by (metis (no_types, lifting) image_iff)
  moreover have "dep_edges (pr_steps p) = dep_edges (pr_steps q)"
    using dep_edges_key [OF assms(1)] dep_edges_key [OF assms(1) [symmetric]] by blast
  ultimately show ?thesis using names plan_success [OF assms(2)] by simp
qed

lemma mutant_keys:
  assumes "mutant_of d n indexes p q"
  shows "map step_key (pr_steps p) = map step_key (pr_steps q)"
proof (rule nth_equalityI)
  have key: "step_key s' = step_key s" if "mutated_step k n s s'" for k s s'
  proof -
    have "s' = s\<lparr>st_segment := st_segment s', st_loop_count := (bump ^^ k) (st_loop_count s)\<rparr>" using that by (simp add: mutated_step_def)
    then show ?thesis by (metis step_key_def step_spec.ext_inject step_spec.surjective step_spec.update_convs(12,23))
  qed
  fix i assume "i < length (map step_key (pr_steps p))"
  then show "map step_key (pr_steps p) ! i = map step_key (pr_steps q) ! i"
    using assms key by (cases "i \<in> set indexes") (auto simp: mutant_of_def)
qed (use assms in \<open>simp add: mutant_of_def\<close>)

text \<open>
  C19: Mutants differ from the protocol in the fuzzed messages and in their repetition only. When the
  messages of the fuzzable sends can be read, \<open>mutate_protocol\<close> always answers, for every state of the
  generator; it applies between one and three mutations (no more than there are fuzzable sends), each to a
  fuzzable send of the role; no mutated message exceeds the configured size. The mutant keeps every other
  step, and of the fuzzed ones everything but the message and the loop count (names, roles, dependencies,
  states), so that it can be planned exactly when the protocol can. The loop count of a fuzzed step is the
  original one with \<open>bump\<close> applied (one more, at most \<open>u32::MAX\<close>, at least 2) as often as the step was
  duplicated, and these numbers add up, for the steps of each name, to the reported
  \<open>duplicate_message\<close> mutations of that name.
\<close>

theorem mutants_keep_protocol:
  assumes "fuzzable_steps p role = Inr indexes" and "\<forall>i \<in> set indexes. \<exists>bs. step_bytes p i = Inr bs" and "hash_iteration ho"
  shows "\<exists>q ms r' d. mutate_protocol p indexes n r = Inr ((q, ms), r') \<and> mutant_of d n indexes p q \<and>
    (\<forall>name. repeats d indexes p name = duplications name ms) \<and>
    ((\<exists>pl. plan ho p = Some (Inr pl)) \<longleftrightarrow> (\<exists>pl. plan ho q = Some (Inr pl))) \<and>
    1 \<le> length ms \<and> length ms \<le> min 3 (length indexes) \<and>
    (\<forall>m \<in> set ms. length (mu_after_hex m) \<le> 2 * n \<and> (\<exists>i \<in> set indexes. mu_step m = st_name (pr_steps p ! i)))"
proof -
  have ne: "indexes \<noteq> []" using assms(1) by (auto simp: fuzzable_steps_def Let_def split: if_splits)
  obtain k r1 where k: "rng_usize (min 3 (max (length indexes) 1)) r = (k, r1)" "k < min 3 (length indexes)"
    using rng_usize_less [of "min 3 (max (length indexes) 1)" r] ne
    by (cases "rng_usize (min 3 (max (length indexes) 1)) r") (auto simp: max_def Suc_le_eq split: if_splits)
  have "fuzz_ready indexes p" using assms(2) by (simp add: fuzz_ready_def)
  from mutate_times_ok [OF this ne, of "1 + k" n "[]" r1]
  obtain q ms r' d where q: "mutate_times (1 + k) indexes n p [] r1 = Inr ((q, ms), r')" "mutant_of d n indexes p q" "length ms = 1 + k"
      "\<forall>m \<in> set ms. length (mu_after_hex m) \<le> 2 * n \<and> mu_step m \<in> (\<lambda>i. st_name (pr_steps p ! i)) ` set indexes"
      "\<forall>name. repeats d indexes p name = duplications name ms"
    by auto
  have "mutate_protocol p indexes n r = Inr ((q, ms), r')" unfolding mutate_protocol_def k(1) Let_def prod.case by (rule q(1))
  moreover have "(\<exists>pl. plan ho p = Some (Inr pl)) \<longleftrightarrow> (\<exists>pl. plan ho q = Some (Inr pl))" using plan_key [OF mutant_keys [OF q(2)] assms(3)] .
  moreover have "1 \<le> length ms" "length ms \<le> min 3 (length indexes)" using q(3) k(2) by simp_all
  moreover have "\<forall>m \<in> set ms. length (mu_after_hex m) \<le> 2 * n \<and> (\<exists>i \<in> set indexes. mu_step m = st_name (pr_steps p ! i))" using q(4) by blast
  ultimately show ?thesis using q(2,5) by blast
qed

definition fuzz_step :: "string \<Rightarrow> string \<Rightarrow> step_spec" where
  "fuzz_step name payload = (log_step name ''c'' [])\<lparr>st_action := ASend, st_segment := Some (default_segment\<lparr>sg_payload := Some payload\<rparr>)\<rparr>"

definition fuzz_protocol :: protocol where
  "fuzz_protocol = log_protocol [fuzz_step ''a'' ''hi'', log_step ''b'' ''c'' [], fuzz_step ''d'' ''you''] []"

lemma fuzz_protocol_steps: "fuzzable_steps fuzz_protocol ''c'' = Inr [0, 2]"
  by (simp add: fuzzable_steps_def fuzzable_def fuzz_protocol_def log_protocol_def fuzz_step_def log_step_def default_segment_def Let_def upt_rec)

lemma fuzz_protocol_ready: "i \<in> {0, 2} \<Longrightarrow> \<exists>bs. step_bytes fuzz_protocol i = Inr bs"
  by (auto simp: step_bytes_def segment_bytes_def fuzz_protocol_def log_protocol_def fuzz_step_def log_step_def default_segment_def
      str_contains_def has_window_def windows_def)

theorem mutants_keep_protocol_witness:
  "\<exists>q ms r' d. mutate_protocol fuzz_protocol [0, 2] 8 1 = Inr ((q, ms), r') \<and> mutant_of d 8 [0, 2] fuzz_protocol q \<and>
     repeats d [0, 2] fuzz_protocol ''a'' = duplications ''a'' ms \<and> 1 \<le> length ms \<and> length ms \<le> 2"
proof -
  have "\<forall>i \<in> set [0, 2]. \<exists>bs. step_bytes fuzz_protocol i = Inr bs" using fuzz_protocol_ready by simp
  from mutants_keep_protocol [OF fuzz_protocol_steps this hash_iteration_id, of 8 1] show ?thesis by (elim exE conjE) auto
qed

subsection \<open>The zero state\<close>

lemma rng_usize_state [simp]: "snd (rng_usize n r) = 0 \<longleftrightarrow> r = 0"
  by (simp add: rng_usize_def)

lemma rng_byte_state [simp]: "snd (rng_byte r) = 0 \<longleftrightarrow> r = 0"
  by (simp add: rng_byte_def)

lemma mutate_bytes_state: "snd (mutate_bytes spliced n bs r) = 0 \<longleftrightarrow> r = 0"
  by (simp add: mutate_bytes_def Let_def case_prod_unfold split: option.split)

lemma pick_splice_state: "pick_splice indexes p r = Inr (spliced, r') \<Longrightarrow> r' = 0 \<longleftrightarrow> r = 0"
  by (auto simp: pick_splice_def Let_def case_prod_unfold split: if_splits)

lemma mutate_once_state: "mutate_once indexes n p r = Inr (qm, r') \<Longrightarrow> r' = 0 \<longleftrightarrow> r = 0"
  using mutate_bytes_state pick_splice_state [of indexes p "snd (rng_usize (length indexes) r)"]
  by (fastforce simp: mutate_once_def Let_def case_prod_unfold)

lemma mutate_times_state: "mutate_times k indexes n p ms r = Inr (qms, r') \<Longrightarrow> r' = 0 \<longleftrightarrow> r = 0"
  by (induction k arbitrary: p ms r) (auto dest: mutate_once_state)

lemma mutate_protocol_state: "mutate_protocol p indexes n r = Inr (qms, r') \<Longrightarrow> r' = 0 \<longleftrightarrow> r = 0"
  using mutate_times_state [of _ indexes n p "[]" _ qms r'] unfolding mutate_protocol_def Let_def case_prod_unfold by fastforce

subsection \<open>The report\<close>

text \<open>A preorder on the states that every run of the predicate respects is respected by the minimiser.\<close>

lemma first_removal_related:
  assumes "reflp R" and "transp R" and "\<And>s xs. R s (snd (preserves s xs))"
  shows "R s (snd (first_removal preserves current chunk starts s))"
proof (induction starts arbitrary: s)
  case Nil
  then show ?case using assms(1) by (simp add: reflp_def)
next
  case (Cons start starts)
  let ?s = "snd (preserves s (without_chunk start chunk current))"
  have "R s ?s" by (rule assms(3))
  with Cons [of ?s] show ?case using transpD [OF assms(2)] by (auto simp: Let_def case_prod_unfold)
qed

lemma minimize_loop_related:
  assumes R: "reflp R" "transp R" and "\<And>s xs. R s (snd (preserves s xs))"
  shows "R s (snd (minimize_loop preserves xs g s))"
  using assms(3)
proof (induction preserves xs g s rule: minimize_loop.induct)
  case (1 preserves current g s)
  let ?chunk = "div_ceil (length current) g"
  obtain r s1 where fr: "first_removal preserves current ?chunk (chunk_starts (length current) ?chunk) s = (r, s1)" by fastforce
  have s1: "R s s1" using first_removal_related [of R preserves, OF R 1(3), of s current ?chunk] fr by (metis snd_conv)
  consider (short) "length current < 2 \<or> g = 0" | (found) ys where "\<not> length current < 2" "g \<noteq> 0" "r = Some ys"
    | (stop) "\<not> length current < 2" "g \<noteq> 0" "r = None" "g \<ge> length current"
    | (finer) "\<not> length current < 2" "g \<noteq> 0" "r = None" "\<not> g \<ge> length current"
    by (cases r) auto
  then show ?case
  proof cases
    case short
    then show ?thesis using R(1) by (auto simp: minimize_loop.simps [of preserves current] reflp_def)
  next
    case found
    then show ?thesis
      using transpD [OF R(2) s1 1(2) [OF found(1,2) refl fr [symmetric] found(3) 1(3)]] fr by (subst minimize_loop.simps) (simp add: Let_def)
  next
    case stop
    then show ?thesis using fr s1 by (subst minimize_loop.simps) (simp add: Let_def)
  next
    case finer
    then show ?thesis
      using transpD [OF R(2) s1 1(1) [OF finer(1,2) refl fr [symmetric] finer(3,4) 1(3)]] fr by (subst minimize_loop.simps) (simp add: Let_def)
  qed
qed

lemma minimize_loop_keeps:
  assumes "\<And>s xs. f (snd (preserves s xs)) = f s"
  shows "f (snd (minimize_loop preserves xs g s)) = f s"
  using minimize_loop_related [of "\<lambda>s s'. f s' = f s" preserves] assms by (simp add: reflp_def transp_def)

lemma minimize_loop_logs:
  assumes "\<And>s xs. \<exists>tl. l (snd (preserves s xs)) = l s @ tl"
  shows "\<exists>tl. l (snd (minimize_loop preserves xs g s)) = l s @ tl"
  using minimize_loop_related [of "\<lambda>s s'. \<exists>tl. l s' = l s @ tl" preserves] assms by (force simp: reflp_def transp_def)

text \<open>A target that counts its runs in its state.\<close>

definition counts :: "('s \<Rightarrow> protocol \<Rightarrow> fuzz_observation \<times> 's) \<Rightarrow> ('s \<Rightarrow> nat) \<Rightarrow> bool" where
  "counts runner c \<longleftrightarrow> (\<forall>s p. c (snd (runner s p)) = Suc (c s))"

lemma minimize_finding_counts:
  assumes "counts runner c" and "minimize_finding runner p indexes expected s = (Inr m, s')"
  shows "c s' = c s + (case m of None \<Rightarrow> 0 | Some (_, runs) \<Rightarrow> runs)"
proof -
  have keeps: "int (c (snd rs')) - int (fst rs') = int (c s)"
    if "snd (minimize_bytes (reproduces runner p i expected) bs (0, s)) = rs'" for i bs rs'
    using that minimize_loop_keeps [of "\<lambda>rs. int (c (snd rs)) - int (fst rs)" "reproduces runner p i expected" bs 2 "(0, s)"] assms(1)
    by (simp add: minimize_bytes_def reproduces_def counts_def Let_def case_prod_unfold)
  show ?thesis
  proof (cases m)
    case None
    then have "s' = s" using assms(2) by (auto simp: minimize_finding_def split: list.splits if_splits sum.splits fault.splits prod.splits)
    with None show ?thesis by simp
  next
    case (Some hr)
    then obtain i bs minimized where
      "minimize_bytes (reproduces runner p i expected) bs (0, s) = (Inr minimized, (snd hr, s'))"
      using assms(2) by (fastforce simp: minimize_finding_def split: list.splits if_splits sum.splits fault.splits prod.splits)
    then show ?thesis using keeps [of i bs "(snd hr, s')"] Some by (simp add: case_prod_unfold)
  qed
qed

definition new_state_entry :: "corpus_entry \<Rightarrow> bool" where
  "new_state_entry e \<longleftrightarrow> co_reason e = ''new_state'' \<or> co_reason e = ''new_state+new_code''"

text \<open>What holds of the campaign before the iteration \<open>k\<close>.\<close>

definition campaign_inv :: "nat \<Rightarrow> 's campaign \<Rightarrow> bool" where
  "campaign_inv k c \<longleftrightarrow>
     ca_failures c = map ff_signature (ca_findings c) \<and> distinct (ca_failures c) \<and>
     (\<forall>f \<in> set (ca_findings c). ff_outcome f \<in> {FuzzCrash, FuzzHang} \<and> 1 \<le> ff_iteration f \<and> ff_iteration f < k) \<and>
     sorted_wrt (<) (map co_iteration (ca_corpus c)) \<and> (\<forall>e \<in> set (ca_corpus c). 1 \<le> co_iteration e \<and> co_iteration e < k) \<and>
     ca_states c = map co_signature (filter new_state_entry (ca_corpus c)) \<and> distinct (ca_states c)"

lemma campaign_inv_mono: "campaign_inv k c \<Longrightarrow> k \<le> l \<Longrightarrow> campaign_inv l c"
  by (fastforce simp: campaign_inv_def)

lemma campaign_corpus_inv:
  assumes "campaign_inv k c" and "1 \<le> k"
  shows "campaign_inv (Suc k) (campaign_corpus sha256 k ms obs c)"
proof -
  let ?sig = "observation_signature sha256 obs"
  obtain nc code where ia: "insert_all (fo_code_coverage obs) 0 (ca_code c) = (nc, code)" by fastforce
  have ne: "new_state_entry \<lparr>co_iteration = k, co_signature = ?sig, co_reason = r, co_mutations = ms\<rparr> \<longleftrightarrow>
      r = ''new_state'' \<or> r = ''new_state+new_code''" for r
    by (simp add: new_state_entry_def)
  have fi: "(\<forall>f \<in> set (ca_findings c). ff_iteration f < Suc k) \<and> (\<forall>e \<in> set (ca_corpus c). co_iteration e < Suc k \<and> co_iteration e < k)"
    using assms(1) by (fastforce simp: campaign_inv_def)
  show ?thesis
  proof (cases "?sig \<in> set (ca_states c)")
    case True
    then show ?thesis
      using assms fi unfolding campaign_inv_def campaign_corpus_def set_insert_def ia Let_def prod.case
      by (cases "nc > 0"; elim conjE; simp add: ne sorted_wrt_append)
  next
    case False
    then show ?thesis
      using assms fi unfolding campaign_inv_def campaign_corpus_def set_insert_def ia Let_def prod.case
      by (cases "nc > 0"; elim conjE; simp add: ne sorted_wrt_append)
  qed
qed

lemma campaign_finding_inv:
  assumes "campaign_inv (Suc k) c" and "1 \<le> k" and "fo_outcome obs \<in> {FuzzCrash, FuzzHang}"
    and "campaign_finding sha256 runner indexes k mutant ms obs c = Inr c'"
  shows "campaign_inv (Suc k) c'"
proof (cases "failure_signature sha256 obs \<in> set (ca_failures c)")
  case True
  then show ?thesis using assms(1,4) by (simp add: campaign_finding_def set_insert_def)
next
  case False
  then obtain m s' where m: "minimize_finding runner mutant indexes (fo_outcome obs) (ca_target c) = (Inr m, s')"
    using assms(4) by (auto simp: campaign_finding_def set_insert_def Let_def split: prod.splits sum.splits)
  then show ?thesis
    using assms False by (auto simp: campaign_finding_def set_insert_def campaign_inv_def Let_def)
qed

lemma campaign_corpus_frame [simp]:
  "ca_executions (campaign_corpus sha256 k ms obs c) = ca_executions c" "ca_target (campaign_corpus sha256 k ms obs c) = ca_target c"
  by (simp_all add: campaign_corpus_def Let_def case_prod_unfold)

lemma campaign_finding_counts:
  assumes "counts runner n" and "campaign_finding sha256 runner indexes k mutant ms obs c = Inr c'"
  shows "n (ca_target c') + ca_executions c = n (ca_target c) + ca_executions c'"
proof (cases "failure_signature sha256 obs \<in> set (ca_failures c)")
  case False
  then obtain m s' where m: "minimize_finding runner mutant indexes (fo_outcome obs) (ca_target c) = (Inr m, s')"
    using assms(2) by (auto simp: campaign_finding_def set_insert_def Let_def split: prod.splits sum.splits)
  then show ?thesis
    using assms(2) False minimize_finding_counts [OF assms(1) m] by (auto simp: campaign_finding_def set_insert_def Let_def)
qed (use assms(2) in \<open>simp add: campaign_finding_def set_insert_def\<close>)

lemma fuzz_iteration_inv:
  assumes "campaign_inv k c" and "1 \<le> k" and "counts runner n"
    and "fuzz_iteration sha256 runner p indexes config k c = Inr (c', stop)"
  shows "campaign_inv (Suc k) c' \<and> n (ca_target c') + ca_executions c = n (ca_target c) + ca_executions c'"
proof -
  obtain q ms r where q: "mutate_protocol p indexes (fc_max_input_bytes config) (ca_rng c) = Inr ((q, ms), r)"
    using assms(4) by (auto simp: fuzz_iteration_def)
  obtain obs s where o: "runner (ca_target c) q = (obs, s)" by fastforce
  have n: "n s = Suc (n (ca_target c))" using assms(3) o by (metis counts_def snd_conv)
  define c1 where "c1 = campaign_corpus sha256 k ms obs (c\<lparr>ca_rng := r, ca_target := s, ca_executions := Suc (ca_executions c)\<rparr>)"
  have "campaign_inv k (c\<lparr>ca_rng := r, ca_target := s, ca_executions := Suc (ca_executions c)\<rparr>)"
    using assms(1) unfolding campaign_inv_def by (elim conjE) simp
  then have c1: "campaign_inv (Suc k) c1" unfolding c1_def using assms(2) by (rule campaign_corpus_inv)
  have e1: "n (ca_target c1) + ca_executions c = n (ca_target c) + ca_executions c1" by (simp add: c1_def n)
  show ?thesis
  proof (cases "fo_outcome obs \<in> {FuzzCrash, FuzzHang}")
    case True
    then have "campaign_finding sha256 runner indexes k q ms obs c1 = Inr c'"
      using assms(4) unfolding fuzz_iteration_def q rbind.simps prod.case o Let_def c1_def [symmetric] by (auto simp: rbind_eq_Inr)
    then show ?thesis
      using campaign_finding_inv [OF c1 assms(2) True] campaign_finding_counts [OF assms(3)] e1 by fastforce
  next
    case False
    then have "c' = c1"
      using assms(4) unfolding fuzz_iteration_def q rbind.simps prod.case o Let_def c1_def [symmetric] by auto
    then show ?thesis using c1 e1 by simp
  qed
qed

lemma fuzz_loop_inv:
  assumes "campaign_inv k c" and "1 \<le> k" and "counts runner n" and "fuzz_loop sha256 runner p indexes config [k..<l] c = Inr c'" and "k \<le> l"
  shows "campaign_inv l c' \<and> n (ca_target c') + ca_executions c = n (ca_target c) + ca_executions c'"
  using assms
proof (induction "l - k" arbitrary: k c)
  case 0
  then show ?case by simp
next
  case (Suc d)
  then have l: "[k..<l] = k # [Suc k..<l]" by (simp add: upt_conv_Cons)
  obtain c1 stop where c1: "fuzz_iteration sha256 runner p indexes config k c = Inr (c1, stop)"
      "(if stop then Inr c1 else fuzz_loop sha256 runner p indexes config [Suc k..<l] c1) = Inr c'"
    using Suc.prems(4) unfolding l by auto
  have i: "campaign_inv (Suc k) c1" "n (ca_target c1) + ca_executions c = n (ca_target c) + ca_executions c1"
    using fuzz_iteration_inv [OF Suc.prems(1-3) c1(1)] by auto
  show ?case
  proof (cases stop)
    case True
    then show ?thesis using c1(2) i campaign_inv_mono [of "Suc k" c1 l] Suc.hyps(2) by auto
  next
    case False
    moreover have "d = l - Suc k" "Suc k \<le> l" using Suc.hyps(2) by linarith+
    ultimately show ?thesis using c1(2) Suc.hyps(1) [of "Suc k" c1] i Suc.prems(3) by auto
  qed
qed

text \<open>A campaign over readable messages does not fail.\<close>

lemma minimize_loop_total: "0 < g \<Longrightarrow> \<exists>ys s'. minimize_loop preserves xs g s = (Inr ys, s')"
proof (induction preserves xs g s rule: minimize_loop.induct)
  case (1 preserves current g s)
  let ?chunk = "div_ceil (length current) g"
  obtain r s1 where fr: "first_removal preserves current ?chunk (chunk_starts (length current) ?chunk) s = (r, s1)" by fastforce
  show ?case
  proof (cases "length current < 2")
    case False
    then have "current \<noteq> []" by auto
    then show ?thesis
      using 1(1) [OF False _ refl fr [symmetric]] 1(2) [OF False _ refl fr [symmetric]] 1(3) fr False
      by (subst minimize_loop.simps) (cases r; auto simp: Let_def)
  qed (simp add: minimize_loop.simps [of preserves current])
qed

lemma minimize_finding_total:
  assumes "fuzz_ready indexes p"
  shows "\<exists>m s'. minimize_finding runner p indexes expected s = (Inr m, s')"
proof (cases indexes)
  case (Cons i js)
  with assms obtain bs where b: "step_bytes p i = Inr bs" by (auto simp: fuzz_ready_def)
  then have "i < length (pr_steps p)" "st_segment (pr_steps p ! i) \<noteq> None"
    by (auto simp: step_bytes_def split: if_splits option.splits)
  then show ?thesis
    using minimize_loop_total [of 2 "reproduces runner p i expected" bs "(0, s)"] b Cons
    by (auto simp: minimize_finding_def minimize_bytes_def)
qed (simp add: minimize_finding_def)

lemma mutate_protocol_ok:
  assumes "fuzz_ready indexes p" and "indexes \<noteq> []"
  shows "\<exists>q ms r' d. mutate_protocol p indexes n r = Inr ((q, ms), r') \<and> mutant_of d n indexes p q"
proof -
  obtain k r1 where k: "rng_usize (min 3 (max (length indexes) 1)) r = (k, r1)" by fastforce
  obtain q ms r' d where "mutate_times (1 + k) indexes n p [] r1 = Inr ((q, [] @ ms), r')" "mutant_of d n indexes p q"
    using mutate_times_ok [OF assms] by blast
  then show ?thesis unfolding mutate_protocol_def k Let_def prod.case by blast
qed

lemma fuzz_iteration_total:
  assumes "fuzz_ready indexes p" and "indexes \<noteq> []"
  shows "\<exists>c' stop. fuzz_iteration sha256 runner p indexes config k c = Inr (c', stop)"
proof -
  obtain q ms r d where q: "mutate_protocol p indexes (fc_max_input_bytes config) (ca_rng c) = Inr ((q, ms), r)"
      "mutant_of d (fc_max_input_bytes config) indexes p q"
    using mutate_protocol_ok [OF assms] by blast
  obtain obs s where ob: "runner (ca_target c) q = (obs, s)" by fastforce
  have "\<exists>c2. campaign_finding sha256 runner indexes k q ms obs c1 = Inr c2" for c1
  proof -
    obtain m s' where "minimize_finding runner q indexes (fo_outcome obs) (ca_target c1) = (Inr m, s')"
      using minimize_finding_total [OF mutant_ready [OF q(2) assms(1)], of runner "fo_outcome obs" "ca_target c1"] by blast
    then show ?thesis by (auto simp: campaign_finding_def Let_def case_prod_unfold)
  qed
  then show ?thesis unfolding fuzz_iteration_def q rbind.simps prod.case ob Let_def by (simp add: rbind_eq_Inr) (metis (full_types))
qed

lemma fuzz_loop_total:
  assumes "fuzz_ready indexes p" and "indexes \<noteq> []"
  shows "\<exists>c'. fuzz_loop sha256 runner p indexes config ks c = Inr c'"
proof (induction ks arbitrary: c)
  case (Cons k ks)
  obtain c1 stop where "fuzz_iteration sha256 runner p indexes config k c = Inr (c1, stop)"
    using fuzz_iteration_total [OF assms] by blast
  then show ?case using Cons.IH [of c1] by (cases stop) auto
qed simp

lemma campaign_total:
  assumes "fuzzable_steps p role = Inr indexes" and "fuzz_ready indexes p"
  shows "\<exists>rep. run_campaign sha256 runner p role config s = Inr rep"
proof -
  have "indexes \<noteq> []" using assms(1) by (auto simp: fuzzable_steps_def Let_def split: if_splits)
  then obtain c where "fuzz_loop sha256 runner p indexes config [1..<Suc (fc_iterations config)] (campaign_start config s) = Inr c"
    using fuzz_loop_total [OF assms(2)] by blast
  then show ?thesis unfolding run_campaign_def assms(1) rbind.simps by (simp only: rbind.simps) blast
qed

subsection \<open>Campaigns and the zero state\<close>

text \<open>A target that keeps in its state the list of protocols it was run on.\<close>

definition logs :: "('s \<Rightarrow> protocol \<Rightarrow> fuzz_observation \<times> 's) \<Rightarrow> ('s \<Rightarrow> protocol list) \<Rightarrow> bool" where
  "logs runner l \<longleftrightarrow> (\<forall>s p. l (snd (runner s p)) = l s @ [p])"

lemma minimize_finding_logs:
  assumes "logs runner l" and "minimize_finding runner p indexes expected s = (r, s')"
  shows "\<exists>tl. l s' = l s @ tl"
proof -
  have m: "\<exists>tl. l (snd (snd (minimize_bytes (reproduces runner p i expected) bs (0, s)))) = l s @ tl" for i bs
    using minimize_loop_logs [of "\<lambda>rs. l (snd rs)" "reproduces runner p i expected" bs 2 "(0, s)"] assms(1)
    by (simp add: minimize_bytes_def reproduces_def logs_def Let_def case_prod_unfold)
  consider "s' = s" | i bs x n where "minimize_bytes (reproduces runner p i expected) bs (0, s) = (x, (n, s'))"
    using assms(2) by (auto simp: minimize_finding_def split: list.splits if_splits sum.splits fault.splits prod.splits)
  then show ?thesis
  proof cases
    case 2
    then show ?thesis using m [of i bs] by simp
  qed simp
qed

text \<open>What an iteration does with the mutant \<open>q\<close> and the mutations \<open>ms\<close>.\<close>

lemma campaign_corpus_entries:
  "set (ca_corpus (campaign_corpus sha256 k ms obs c)) \<subseteq> set (ca_corpus c) \<union> {e. co_mutations e = ms}"
  "ca_findings (campaign_corpus sha256 k ms obs c) = ca_findings c" "ca_rng (campaign_corpus sha256 k ms obs c) = ca_rng c"
  by (auto simp: campaign_corpus_def Let_def case_prod_unfold)

lemma campaign_finding_entries:
  assumes "campaign_finding sha256 runner indexes k mutant ms obs c = Inr c'" and "logs runner l"
  shows "set (ca_findings c') \<subseteq> set (ca_findings c) \<union> {f. ff_mutations f = ms} \<and> ca_corpus c' = ca_corpus c \<and> ca_rng c' = ca_rng c \<and>
    (\<exists>tl. l (ca_target c') = l (ca_target c) @ tl)"
proof (cases "failure_signature sha256 obs \<in> set (ca_failures c)")
  case False
  then obtain m s' where m: "minimize_finding runner mutant indexes (fo_outcome obs) (ca_target c) = (Inr m, s')"
    using assms(1) by (auto simp: campaign_finding_def set_insert_def Let_def split: prod.splits sum.splits)
  then show ?thesis
    using assms(1) False minimize_finding_logs [OF assms(2) m] by (auto simp: campaign_finding_def set_insert_def Let_def)
qed (use assms(1) in \<open>simp add: campaign_finding_def set_insert_def\<close>)

lemma fuzz_iteration_logs:
  assumes "fuzz_iteration sha256 runner p indexes config k c = Inr (c', stop)" and "logs runner l"
    and "mutate_protocol p indexes (fc_max_input_bytes config) (ca_rng c) = Inr ((q, ms), r)"
  shows "ca_rng c' = r \<and> (\<exists>tl. l (ca_target c') = l (ca_target c) @ q # tl) \<and>
    set (ca_corpus c') \<subseteq> set (ca_corpus c) \<union> {e. co_mutations e = ms} \<and>
    set (ca_findings c') \<subseteq> set (ca_findings c) \<union> {f. ff_mutations f = ms} \<and> (stop \<longrightarrow> fc_stop_on_crash config)"
proof -
  obtain obs s where o: "runner (ca_target c) q = (obs, s)" by fastforce
  have l: "l s = l (ca_target c) @ [q]" using assms(2) o by (metis logs_def snd_conv)
  define c1 where "c1 = campaign_corpus sha256 k ms obs (c\<lparr>ca_rng := r, ca_target := s, ca_executions := Suc (ca_executions c)\<rparr>)"
  have c1: "ca_rng c1 = r" "ca_target c1 = s" "ca_findings c1 = ca_findings c" "set (ca_corpus c1) \<subseteq> set (ca_corpus c) \<union> {e. co_mutations e = ms}"
    using campaign_corpus_entries(1) [of sha256 k ms obs "c\<lparr>ca_rng := r, ca_target := s, ca_executions := Suc (ca_executions c)\<rparr>"]
    by (simp_all add: c1_def campaign_corpus_entries)
  show ?thesis
  proof (cases "fo_outcome obs \<in> {FuzzCrash, FuzzHang}")
    case True
    then have "campaign_finding sha256 runner indexes k q ms obs c1 = Inr c'" "stop \<longrightarrow> fc_stop_on_crash config"
      using assms(1) unfolding fuzz_iteration_def assms(3) rbind.simps prod.case o Let_def c1_def [symmetric] by (auto simp: rbind_eq_Inr)
    then show ?thesis using campaign_finding_entries [OF _ assms(2)] c1 l by fastforce
  next
    case False
    then have "c' = c1" "\<not> stop"
      using assms(1) unfolding fuzz_iteration_def assms(3) rbind.simps prod.case o Let_def c1_def [symmetric] by auto
    then show ?thesis using c1 l by simp
  qed
qed

lemma fuzz_iteration_rng:
  assumes "fuzz_iteration sha256 runner p indexes config k c = Inr (c', stop)"
    and "mutate_protocol p indexes (fc_max_input_bytes config) (ca_rng c) = Inr ((q, ms), r)"
  shows "ca_rng c' = r"
  using assms unfolding fuzz_iteration_def assms(2) rbind.simps prod.case Let_def case_prod_unfold
  by (auto simp: rbind_eq_Inr campaign_finding_def set_insert_def campaign_corpus_entries Let_def case_prod_unfold split: if_splits sum.splits)

lemma fuzz_loop_zero:
  assumes "fuzz_loop sha256 runner p indexes config ks c = Inr c'" and "logs runner l" and "ca_rng c = 0"
    and "mutate_protocol p indexes (fc_max_input_bytes config) 0 = Inr ((q, ms), 0)"
  shows "\<exists>tls. l (ca_target c') = l (ca_target c) @ concat (map (\<lambda>tl. q # tl) tls) \<and> length tls \<le> length ks \<and>
    (\<not> fc_stop_on_crash config \<longrightarrow> length tls = length ks) \<and>
    set (ca_corpus c') \<subseteq> set (ca_corpus c) \<union> {e. co_mutations e = ms} \<and>
    set (ca_findings c') \<subseteq> set (ca_findings c) \<union> {f. ff_mutations f = ms}"
  using assms(1,3)
proof (induction ks arbitrary: c)
  case Nil
  then show ?case by (intro exI [of _ "[]"]) auto
next
  case (Cons k ks)
  obtain c1 stop where c1: "fuzz_iteration sha256 runner p indexes config k c = Inr (c1, stop)"
      "(if stop then Inr c1 else fuzz_loop sha256 runner p indexes config ks c1) = Inr c'"
    using Cons.prems(1) by auto
  have "mutate_protocol p indexes (fc_max_input_bytes config) (ca_rng c) = Inr ((q, ms), 0)" using Cons.prems(2) assms(4) by simp
  note step = fuzz_iteration_logs [OF c1(1) assms(2) this]
  then obtain tl where tl: "l (ca_target c1) = l (ca_target c) @ q # tl" by blast
  show ?case
  proof (cases stop)
    case True
    then show ?thesis using c1(2) step tl by (intro exI [of _ "[tl]"]) auto
  next
    case False
    then obtain tls where "l (ca_target c') = l (ca_target c1) @ concat (map (\<lambda>tl. q # tl) tls)" "length tls \<le> length ks"
      "\<not> fc_stop_on_crash config \<longrightarrow> length tls = length ks"
      "set (ca_corpus c') \<subseteq> set (ca_corpus c1) \<union> {e. co_mutations e = ms}"
      "set (ca_findings c') \<subseteq> set (ca_findings c1) \<union> {f. ff_mutations f = ms}"
      using Cons.IH [of c1] c1(2) step by auto
    then show ?thesis using step tl by (intro exI [of _ "tl # tls"]) auto
  qed
qed

lemma fuzz_loop_state:
  assumes "fuzz_loop sha256 runner p indexes config ks c = Inr c'"
  shows "ca_rng c' = 0 \<longleftrightarrow> ca_rng c = 0"
  using assms
proof (induction ks arbitrary: c)
  case (Cons k ks)
  obtain c1 stop where c1: "fuzz_iteration sha256 runner p indexes config k c = Inr (c1, stop)"
      "(if stop then Inr c1 else fuzz_loop sha256 runner p indexes config ks c1) = Inr c'"
    using Cons.prems by auto
  then obtain q ms r where q: "mutate_protocol p indexes (fc_max_input_bytes config) (ca_rng c) = Inr ((q, ms), r)"
    by (auto simp: fuzz_iteration_def)
  have "ca_rng c1 = r" using fuzz_iteration_rng [OF c1(1) q] .
  then show ?case using mutate_protocol_state [OF q] Cons.IH [of c1] c1(2) by (cases stop) auto
qed simp

text \<open>
  C39: a campaign with the seed 0, which the command line accepts, tests one single mutant. Whatever the
  target, all iterations run it on the same mutant \<open>q\<close>, each possibly followed by the runs of a
  minimisation, and there are as many of them as iterations are configured unless the campaign may stop at
  a crash; all entries of the corpus and all findings list the same mutations. With any other seed the
  generator never enters the zero state.
\<close>

theorem zero_seed_degenerates:
  assumes "run_campaign sha256 runner p role config s = Inr rep" and "logs runner l"
  shows "\<exists>indexes c. fuzzable_steps p role = Inr indexes \<and>
    fuzz_loop sha256 runner p indexes config [1..<Suc (fc_iterations config)] (campaign_start config s) = Inr c \<and>
    (ca_rng c = 0 \<longleftrightarrow> fc_seed config = 0) \<and>
    (fc_seed config = 0 \<longrightarrow> (\<exists>q ms tls. l (ca_target c) = l s @ concat (map (\<lambda>tl. q # tl) tls) \<and>
      length tls \<le> fc_iterations config \<and> (\<not> fc_stop_on_crash config \<longrightarrow> length tls = fc_iterations config) \<and>
      (\<forall>e \<in> set (fr_corpus rep). co_mutations e = ms) \<and> (\<forall>f \<in> set (fr_findings rep). ff_mutations f = ms)))"
proof -
  obtain indexes c where c: "fuzzable_steps p role = Inr indexes"
      "fuzz_loop sha256 runner p indexes config [1..<Suc (fc_iterations config)] (campaign_start config s) = Inr c"
    and rep: "fr_findings rep = ca_findings c" "fr_corpus rep = ca_corpus c"
    using assms(1) by (auto simp: run_campaign_def)
  let ?c0 = "campaign_start config s"
  have c0: "ca_rng ?c0 = fc_seed config" "ca_target ?c0 = s" "ca_corpus ?c0 = []" "ca_findings ?c0 = []" by (simp_all add: campaign_start_def)
  have "\<exists>q ms tls. l (ca_target c) = l s @ concat (map (\<lambda>tl. q # tl) tls) \<and>
      length tls \<le> fc_iterations config \<and> (\<not> fc_stop_on_crash config \<longrightarrow> length tls = fc_iterations config) \<and>
      (\<forall>e \<in> set (ca_corpus c). co_mutations e = ms) \<and> (\<forall>f \<in> set (ca_findings c). ff_mutations f = ms)" if z: "fc_seed config = 0"
  proof (cases "fc_iterations config = 0")
    case True
    then have "c = ?c0" using c(2) by simp
    then show ?thesis using c0 True by (intro exI [of _ p] exI [of _ "[]"]) simp
  next
    case False
    then have "[1..<Suc (fc_iterations config)] = 1 # [2..<Suc (fc_iterations config)]" by (simp add: upt_conv_Cons numeral_2_eq_2)
    then obtain q ms r where q: "mutate_protocol p indexes (fc_max_input_bytes config) 0 = Inr ((q, ms), r)"
      using c(2) c0(1) z by (auto simp: fuzz_iteration_def)
    then have "r = 0" using mutate_protocol_state [OF q] by simp
    from fuzz_loop_zero [OF c(2) assms(2) c0(1) [unfolded z] q [unfolded this]] obtain tls where
      tls: "l (ca_target c) = l s @ concat (map (\<lambda>tl. q # tl) tls)" "length tls \<le> fc_iterations config"
        "\<not> fc_stop_on_crash config \<longrightarrow> length tls = fc_iterations config"
        "set (ca_corpus c) \<subseteq> {e. co_mutations e = ms}" "set (ca_findings c) \<subseteq> {f. ff_mutations f = ms}"
      by (auto simp: c0 simp del: upt_Suc)
    then show ?thesis by (intro exI [of _ q] exI [of _ ms] exI [of _ tls]) auto
  qed
  then show ?thesis using c fuzz_loop_state [OF c(2)] c0(1) unfolding rep by (intro exI [of _ indexes] exI [of _ c]) simp
qed

text \<open>A target that accepts everything and keeps what it was run on: three times the same mutant.\<close>

definition log_target :: "protocol list \<Rightarrow> protocol \<Rightarrow> fuzz_observation \<times> protocol list" where
  "log_target s p = (\<lparr>fo_outcome = FuzzOk, fo_trace = [], fo_detail = None, fo_code_coverage = []\<rparr>, s @ [p])"

theorem zero_seed_degenerates_witness:
  "\<exists>rep c q tls. run_campaign id log_target fuzz_protocol ''c'' (default_fuzz_config\<lparr>fc_iterations := 3, fc_seed := 0, fc_stop_on_crash := False\<rparr>) [] = Inr rep \<and>
     fuzz_loop id log_target fuzz_protocol [0, 2] (default_fuzz_config\<lparr>fc_iterations := 3, fc_seed := 0, fc_stop_on_crash := False\<rparr>) [1..<4]
       (campaign_start (default_fuzz_config\<lparr>fc_iterations := 3, fc_seed := 0, fc_stop_on_crash := False\<rparr>) []) = Inr c \<and>
     ca_target c = concat (map (\<lambda>tl. q # tl) tls) \<and> length tls = 3"
proof -
  let ?config = "default_fuzz_config\<lparr>fc_iterations := 3, fc_seed := 0, fc_stop_on_crash := False\<rparr>"
  have l: "logs log_target id" by (simp add: logs_def log_target_def)
  obtain rep where r: "run_campaign id log_target fuzz_protocol ''c'' ?config [] = Inr rep"
    using campaign_total [OF fuzz_protocol_steps] fuzz_protocol_ready by (fastforce simp: fuzz_ready_def)
  have "\<exists>c q tls. fuzz_loop id log_target fuzz_protocol [0, 2] ?config [1..<Suc 3] (campaign_start ?config []) = Inr c \<and>
      ca_target c = concat (map (\<lambda>tl. q # tl) tls) \<and> length tls = 3"
    using zero_seed_degenerates [OF r l] unfolding fuzz_protocol_steps by (auto simp del: upt_Suc)
  moreover have "[1..<4] = [1..<Suc 3]" by (simp add: eval_nat_numeral)
  ultimately show ?thesis using r by auto
qed

text \<open>
  C20: The report of a campaign is an account of what was run. Findings have different signatures and stand
  for iterations that crashed or hung; corpus entries are in the order of the iterations; the state
  coverage is the number of corpus entries kept for a new state, and these have different signatures; and
  for a target that counts its runs, the number of executions is the number of runs, those of the
  minimisation included.
\<close>

theorem campaign_report_accounts:
  assumes "run_campaign sha256 runner p role config s = Inr rep" and "counts runner n"
  shows "distinct (map ff_signature (fr_findings rep)) \<and>
    (\<forall>f \<in> set (fr_findings rep). ff_outcome f \<in> {FuzzCrash, FuzzHang} \<and> 1 \<le> ff_iteration f \<and> ff_iteration f \<le> fc_iterations config) \<and>
    sorted_wrt (<) (map co_iteration (fr_corpus rep)) \<and>
    fr_state_coverage rep = length (filter new_state_entry (fr_corpus rep)) \<and>
    distinct (map co_signature (filter new_state_entry (fr_corpus rep))) \<and>
    (\<exists>indexes c. fuzzable_steps p role = Inr indexes \<and>
      fuzz_loop sha256 runner p indexes config [1..<Suc (fc_iterations config)] (campaign_start config s) = Inr c \<and>
      n (ca_target c) = n s + fr_executions rep)"
proof -
  obtain indexes c where c: "fuzzable_steps p role = Inr indexes"
      "fuzz_loop sha256 runner p indexes config [1..<Suc (fc_iterations config)] (campaign_start config s) = Inr c"
    and rep: "fr_findings rep = ca_findings c" "fr_corpus rep = ca_corpus c" "fr_state_coverage rep = length (ca_states c)"
      "fr_executions rep = ca_executions c"
    using assms(1) by (auto simp: run_campaign_def)
  have "campaign_inv 1 (campaign_start config s)" by (simp add: campaign_inv_def campaign_start_def)
  from fuzz_loop_inv [OF this _ assms(2) c(2)] have i: "campaign_inv (Suc (fc_iterations config)) c"
    and e: "n (ca_target c) = n s + ca_executions c"
    by (auto simp: campaign_start_def)
  have "\<exists>indexes c. fuzzable_steps p role = Inr indexes \<and>
      fuzz_loop sha256 runner p indexes config [1..<Suc (fc_iterations config)] (campaign_start config s) = Inr c \<and>
      n (ca_target c) = n s + fr_executions rep"
    using c e rep(4) by (intro exI conjI) auto
  then show ?thesis using i unfolding campaign_inv_def rep(1-3) by (elim conjE) (simp add: less_Suc_eq_le)
qed

text \<open>A target that crashes on every input, run three times.\<close>

definition crash_target :: "nat \<Rightarrow> protocol \<Rightarrow> fuzz_observation \<times> nat" where
  "crash_target n p = (\<lparr>fo_outcome = FuzzCrash, fo_trace = [], fo_detail = None, fo_code_coverage = []\<rparr>, Suc n)"

theorem campaign_report_accounts_witness:
  "\<exists>rep. run_campaign id crash_target fuzz_protocol ''c'' (default_fuzz_config\<lparr>fc_iterations := 3\<rparr>) 0 = Inr rep \<and>
     distinct (map ff_signature (fr_findings rep)) \<and> fr_state_coverage rep = length (filter new_state_entry (fr_corpus rep))"
proof -
  have "counts crash_target id" by (simp add: counts_def crash_target_def)
  moreover obtain rep where r: "run_campaign id crash_target fuzz_protocol ''c'' (default_fuzz_config\<lparr>fc_iterations := 3\<rparr>) 0 = Inr rep"
    using campaign_total [OF fuzz_protocol_steps] fuzz_protocol_ready by (fastforce simp: fuzz_ready_def)
  ultimately show ?thesis using campaign_report_accounts [OF r] by blast
qed

end
