(* ===== verification/Spec2Isabelle.thy ===== *)
theory Spec2Isabelle
  imports Packet_Roundtrip Tcp_State Reassembly Model_Check_Report Live_Codec_Correct Framing_Correct Sim_Transport_Correct Inbox_Bounds Parser_Correct Interpret_Correct Engine_External Capture_Correct Fuzz_Correct
begin

text \<open>
  Verification of the protocol laboratory under \<open>src/\<close>, a program that reads descriptions of
  network protocols, plans and model checks them, runs their roles against each other over a
  simulated or a real network, and fuzzes and records what happens.

  \<^bold>\<open>The program.\<close> A text is lexed and parsed to a tree of blocks (\<open>parser.rs\<close>, \<open>ast.rs\<close>, \<open>value.rs\<close>),
  which is interpreted as protocols, case suites and message schemas (\<open>model.rs\<close>). The planner orders
  the steps of a protocol by their dependencies (\<open>graph.rs\<close>). The model checker explores all
  schedules of the plan (\<open>model_check.rs\<close>); the engine runs one thread per role (\<open>engine.rs\<close>), which
  sends through a transport with configured faults (\<open>transport.rs\<close>), receives what an expectation
  matches (\<open>primitives.rs\<close>), builds and decodes raw packets (\<open>packet.rs\<close>) and messages with declared
  schemas (\<open>dynamic_schema.rs\<close>), and records a trace. Traces are written as packet captures
  (\<open>output.rs\<close>), captures are read (\<open>pcap_import.rs\<close>), and a campaign mutates the messages of a
  role (\<open>native_fuzz.rs\<close>).

  \<^bold>\<open>Foundations.\<close> \<open>Prelude\<close> has the machine integers as words, results in which a panic of the
  code is the value \<open>Inl Panic\<close> and an error \<open>Inl (Fail e)\<close>, checked slices and big-endian bytes;
  \<open>Bit_Fields\<close> the packing of header bits; \<open>Transition_System\<close> reachability and the locale
  of inductive invariants; \<open>Explore\<close> a locale for bounded breadth-first search; \<open>Codec_Spec\<close> the
  contract of a codec of elements; \<open>Keyed_Store\<close> the interface of the two kinds of maps. \<open>Text\<close>, \<open>F64\<close>,
  \<open>Number_Text\<close> and \<open>Value\<close> are strings as UTF-8 bytes, IEEE numbers by their bits, number
  syntax, and the dynamic values with the blocks.

  \<^bold>\<open>Packets\<close> (\<open>packet.rs\<close>). \<open>Packet_Types\<close>, \<open>Checksum\<close>, \<open>Packet_Encode\<close>, \<open>Packet_Decode\<close>,
  \<open>Packet_Fields\<close>, \<open>Fragment\<close>, \<open>Reassembly\<close> and \<open>Tcp_State\<close> model the file function by function.
  \<open>Packet_Roundtrip\<close> shows that canonical packets come back from their bytes and which verdict each
  checksum mode gets; \<open>Packet_Decode\<close> that no input panics a decoder; \<open>Reassembly\<close> that fragments
  reassemble in every order, that the buffers are bounded, and what an empty fragment destroys;
  \<open>Tcp_State\<close> which observations lead to an established connection.

  \<^bold>\<open>Descriptions.\<close> \<open>Parser\<close> is the lexer and the parser; \<open>Parser_Correct\<close> gives a grammar on tokens
  as inductive relations and shows that the parser accepts exactly it, with the tree it describes,
  and answers on every text. The grammar has what the parser has: next to the documented
  forms also null, quoted keys, a trailing comma, and imports without braces. \<open>Model\<close> has the data types of
  \<open>model.rs\<close>, \<open>Matching\<close> messages and expectations, \<open>Interpret_Attrs\<close>, \<open>Interpret_Schema\<close> and
  \<open>Interpret\<close> the interpretation; \<open>Interpret_Correct\<close> shows what holds of accepted protocols, that
  interpretation answers, and that decoding with an accepted schema of fixed layout does not panic.
  \<open>Schema\<close> is the codec for schemas, \<open>Schema_Correct\<close> its round trip and the error detection of
  its cyclic checksums, \<open>Schema_Safe\<close> the absence of panics.

  \<^bold>\<open>Planning and checking.\<close> \<open>Graph\<close> is the planner, \<open>Graph_Correct\<close> its correctness for every
  iteration order of its hash map: when it succeeds, the order it returns, and the cycle it reports.
  \<open>Model_Check\<close> is the checker; \<open>Model_Check_Correct\<close> and \<open>Model_Check_Report\<close> relate it to the
  transition system of the plan: violations are shortest runs, a complete report misses nothing.

  \<^bold>\<open>Transport.\<close> \<open>Live_Codec\<close> and \<open>Framing\<close> are the message format, the framings and the
  reader threads, with their round trips in \<open>Live_Codec_Correct\<close> and \<open>Framing_Correct\<close>.
  \<open>Sim_Transport\<close> is the transport with faults; \<open>Sim_Transport_Correct\<close> shows that without faults it
  is a bounded queue for each role and that reports account for what is in flight. \<open>Receive\<close> and
  \<open>Receive_Correct\<close> are the receives; \<open>Inbox_Bounds\<close> shows by how much an inbox can exceed its
  limit when a raw receive puts back frames it had set aside.

  \<^bold>\<open>The engine\<close> (\<open>engine.rs\<close>). \<open>Interpolate\<close>, \<open>Raw_Build\<close> and \<open>Retry\<close> are variables, raw packets and
  retry delays; \<open>Engine_State\<close> the states \<open>RoleState\<close> and \<open>Sim\<close>; \<open>Engine_Step\<close> every action of
  \<open>execute_step\<close>; \<open>Engine_Run\<close> the role threads, the runs and the case runner as a transition
  relation; \<open>Engine_External\<close> the runs against a peer outside. \<open>Engine_Frame\<close> states what a step
  changes as a locale of relations, with the frame, the first failure and the trace as
  interpretations. \<open>Engine_Correct\<close> shows that runs are simulated by the checker's transition
  system, so that checked invariants hold in them, for protocols without \<open>loop = 0\<close>;
  \<open>Engine_Progress\<close> that a run is never stuck, has bounded length, completes every step when it
  succeeds, and how its trace is numbered.

  \<^bold>\<open>Captures and fuzzing.\<close> \<open>Capture\<close> and \<open>Capture_Correct\<close> are the writers and the reader of capture files
  and their round trip; \<open>Fuzz\<close> and \<open>Fuzz_Correct\<close> the campaign: minimised inputs are minimal,
  mutants differ only in messages and loop counts, the report accounts for the runs, and a
  campaign with seed 0 repeats one mutant.

  \<^bold>\<open>Atomicity.\<close> One transition of a role thread is a check, a wait for dependencies, or one attempt of a step; while a
  receive waits, the contents of its queue come from a list of wake-ups. Within an attempt no
  operation of another role comes in between. The events an attempt has numbered are
  appended to the trace by transitions of their own, interleaved with those of the other roles, and
  before the role goes on. Deliveries after a delay and the passing of time are transitions too.

  \<^bold>\<open>Fuel and bounds.\<close> The parser has fuel of three times the number of tokens plus three, the decoder of nested
  values one more than the bytes left; \<open>Parser_Correct\<close> and \<open>Live_Codec_Correct\<close> show that it never
  runs out. The planner's loop is a partial function, and \<open>Graph_Correct\<close> shows that it returns.
  Other loops have termination proofs. The depth of the native stack and failing allocations are
  not modelled; \<open>Vec::with_capacity\<close> of a schema's count panics above \<open>isize::MAX\<close> bytes.

  \<^bold>\<open>Parameters.\<close> The iteration order of hash maps where a result depends on it and nothing else
  fixes it, the crate for regular expressions, the Unicode table of printable characters, \<open>powi\<close>,
  the size of a value, compression and encryption of schemas, the digest and the target of a
  campaign, sockets, and the replies of plugins are arguments of the definitions.

  \<^bold>\<open>Not modelled\<close>: the command line and the dashboard (\<open>main.rs\<close>, but for \<open>parse_framing\<close>), opening and closing of
  sockets and the proxy, persistence and registries, reports as JSON, JUnit and Markdown, exchange formats of
  other tools, the inference of sessions from a capture, editor support, host diagnostics and the
  TLS audit, the processes of plugins and orchestration, and the loading of imported files: they
  call the operating system or other libraries or print documents.
\<close>

end
